(* ===== verification/Prelude.thy ===== *)
theory Prelude
  imports Complex_Main "HOL-Library.Sublist"
begin

text \<open>
  Shared ground of the development: the value of a Python call that may raise
  (\<open>pyres\<close>, a sum with the exception on the left), its sequencing \<open>rbind\<close>, folds
  that stop at the first exception, the collections of rewrite rules the component
  theories extend, and the list facts they share.
\<close>

section \<open>Exceptions as values\<close>

datatype pyerr =
    IndexError
  | KeyError
  | ValueError
  | ZeroDivisionError
  | AttributeError
  | UnboundLocalError
  | NameError
  | TypeError
  | AssertionError
  | OSError
  | NotImplementedError
  | ImportError
  | PyException string
  | WafError string
  | SystemExit int

type_synonym 'a pyres = "pyerr + 'a"

definition rbind :: "'a pyres \<Rightarrow> ('a \<Rightarrow> 'b pyres) \<Rightarrow> 'b pyres" where
  "rbind m f = (case m of Inl e \<Rightarrow> Inl e | Inr x \<Rightarrow> f x)"

definition rmap :: "('a \<Rightarrow> 'b) \<Rightarrow> 'a pyres \<Rightarrow> 'b pyres" where
  "rmap f m = rbind m (\<lambda>x. Inr (f x))"

fun rfold :: "('s \<Rightarrow> 'a \<Rightarrow> 's pyres) \<Rightarrow> 's \<Rightarrow> 'a list \<Rightarrow> 's pyres" where
  "rfold f s [] = Inr s"
| "rfold f s (x # xs) = rbind (f s x) (\<lambda>s'. rfold f s' xs)"

fun rmapM :: "('a \<Rightarrow> 'b pyres) \<Rightarrow> 'a list \<Rightarrow> 'b list pyres" where
  "rmapM f [] = Inr []"
| "rmapM f (x # xs) = rbind (f x) (\<lambda>y. rmap (Cons y) (rmapM f xs))"

text \<open>The component theories add their executable characterisations here.\<close>

named_theorems py_simps \<open>rules of the Python primitives\<close>
named_theorems grid_simps \<open>rules of the timeline model\<close>
named_theorems job_simps \<open>rules of the test-runner model\<close>

lemma rbind_Inr [simp, py_simps]: "rbind (Inr x) f = f x"
  by (simp add: rbind_def)

lemma rbind_Inl [simp, py_simps]: "rbind (Inl e) f = Inl e"
  by (simp add: rbind_def)

lemma rbind_eq_Inr_iff: "rbind m f = Inr y \<longleftrightarrow> (\<exists>x. m = Inr x \<and> f x = Inr y)"
  by (cases m) auto

lemma rbind_eq_Inl_iff:
  "rbind m f = Inl e \<longleftrightarrow> m = Inl e \<or> (\<exists>x. m = Inr x \<and> f x = Inl e)"
  by (cases m) auto

lemma rbind_assoc: "rbind (rbind m f) g = rbind m (\<lambda>x. rbind (f x) g)"
  by (cases m) auto

lemma rmap_Inr [simp, py_simps]: "rmap f (Inr x) = Inr (f x)"
  by (simp add: rmap_def)

lemma rmap_Inl [simp, py_simps]: "rmap f (Inl e) = Inl e"
  by (simp add: rmap_def)

lemma rmap_eq_Inr_iff: "rmap f m = Inr y \<longleftrightarrow> (\<exists>x. m = Inr x \<and> y = f x)"
  by (cases m) auto

lemma rmap_eq_Inl_iff: "rmap f m = Inl e \<longleftrightarrow> m = Inl e"
  by (cases m) auto

lemma rfold_append: "rfold f s (xs @ ys) = rbind (rfold f s xs) (\<lambda>s'. rfold f s' ys)"
  by (induction xs arbitrary: s) (auto simp: rbind_assoc)

lemma rfold_total:
  "(\<And>s x. x \<in> set xs \<Longrightarrow> f s x = Inr (g s x)) \<Longrightarrow> rfold f s xs = Inr (foldl g s xs)"
  by (induction xs arbitrary: s) auto

text \<open>An invariant of every successful step is an invariant of the whole loop.\<close>

lemma rfold_invariant:
  assumes "rfold f s xs = Inr s'" and "P s"
    and "\<And>s x t. P s \<Longrightarrow> x \<in> set xs \<Longrightarrow> f s x = Inr t \<Longrightarrow> P t"
  shows "P s'"
  using assms
proof (induction xs arbitrary: s)
  case Nil
  then show ?case by simp
next
  case (Cons x xs)
  from Cons.prems(1) obtain t where t: "f s x = Inr t" "rfold f t xs = Inr s'"
    by (auto simp: rbind_eq_Inr_iff)
  have "P t" by (rule Cons.prems(3) [OF Cons.prems(2) _ t(1)]) simp
  with t(2) show ?case
  proof (rule Cons.IH)
    fix r y u
    assume "P r" "y \<in> set xs" "f r y = Inr u"
    then show "P u" using Cons.prems(3) [of r y u] by simp
  qed
qed

lemma rmapM_total: "(\<And>x. x \<in> set xs \<Longrightarrow> f x = Inr (g x)) \<Longrightarrow> rmapM f xs = Inr (map g xs)"
  by (induction xs) auto

section \<open>List facts\<close>

lemma foldl_invariant:
  "P s \<Longrightarrow> (\<And>s x. P s \<Longrightarrow> x \<in> set xs \<Longrightarrow> P (f s x)) \<Longrightarrow> P (foldl f s xs)"
  by (induction xs arbitrary: s) auto

lemma takeWhile_append_stop:
  "(\<And>x. x \<in> set xs \<Longrightarrow> P x) \<Longrightarrow> \<not> P y \<Longrightarrow> takeWhile P (xs @ y # ys) = xs"
  by (induction xs) auto

lemma dropWhile_append_stop:
  "(\<And>x. x \<in> set xs \<Longrightarrow> P x) \<Longrightarrow> \<not> P y \<Longrightarrow> dropWhile P (xs @ y # ys) = y # ys"
  by (induction xs) auto

lemma filter_list_update_new:
  "i < length xs \<Longrightarrow> map f (xs[i := x]) = (map f xs)[i := f x]"
  by (simp add: map_update)

lemma list_update_map_same:
  "i < length xs \<Longrightarrow> f x = f (xs ! i) \<Longrightarrow> map f (xs[i := x]) = map f xs"
  by (metis list_update_id map_update nth_map)

lemma list_all2_map_eq:
  "list_all2 R xs ys \<Longrightarrow> (\<And>x y. x \<in> set xs \<Longrightarrow> R x y \<Longrightarrow> g y = f x) \<Longrightarrow> map g ys = map f xs"
  by (induction rule: list_all2_induct) auto

text \<open>Filtering by a condition that holds on one stretch of positions cuts out that stretch.\<close>

lemma filter_eq_segment:
  "(\<And>k. k < length xs \<Longrightarrow> P (xs ! k) \<longleftrightarrow> i \<le> k \<and> k < j) \<Longrightarrow>
     filter P xs = take (j - i) (drop i xs)"
proof (induction xs arbitrary: i j)
  case Nil
  then show ?case by simp
next
  case (Cons x xs)
  have x: "P x \<longleftrightarrow> i = 0 \<and> 0 < j" using Cons.prems [of 0] by auto
  have "filter P xs = take ((j - 1) - (i - 1)) (drop (i - 1) xs)" if "0 < j"
    using Cons.prems [of "Suc k" for k] that by (intro Cons.IH) fastforce
  moreover have "filter P xs = []" if "j = 0"
    using Cons.IH [of i 0] Cons.prems [of "Suc k" for k] that by fastforce
  ultimately show ?case using x by (cases i; cases j) auto
qed

lemma filter_segment_absorb:
  assumes "\<forall>k < length xs. P (xs ! k) \<longrightarrow> i \<le> k \<and> k < j"
  shows "filter P (take (j - i) (drop i xs)) = filter P xs"
proof (cases "i \<le> j")
  case True
  then have split: "xs = take i xs @ take (j - i) (drop i xs) @ drop j xs"
    by (metis append_take_drop_id drop_drop le_add_diff_inverse2)
  have "filter P (take i xs) = []"
    using assms by (force simp: filter_empty_conv in_set_conv_nth)
  moreover have "\<not> P (xs ! (j + k))" if "j + k < length xs" for k
    using assms that by (metis le_add1 not_le)
  then have "filter P (drop j xs) = []"
    by (auto simp: filter_empty_conv in_set_conv_nth less_diff_conv add.commute)
  ultimately show ?thesis by (subst (2) split) simp
next
  case False
  then have "filter P xs = []"
    using assms by (force simp: filter_empty_conv in_set_conv_nth)
  with False show ?thesis by simp
qed

section \<open>Stateful code\<close>

text \<open>
  An action reads and changes a state and then returns or raises; what it did to the state
  before an exception stays done.
\<close>

type_synonym ('s, 'a) act = "'s \<Rightarrow> 'a pyres \<times> 's"

definition aret :: "'a \<Rightarrow> ('s, 'a) act" where
  "aret x s = (Inr x, s)"

definition araise :: "pyerr \<Rightarrow> ('s, 'a) act" where
  "araise e s = (Inl e, s)"

definition abind :: "('s, 'a) act \<Rightarrow> ('a \<Rightarrow> ('s, 'b) act) \<Rightarrow> ('s, 'b) act" where
  "abind m f s = (case m s of (Inl e, s') \<Rightarrow> (Inl e, s') | (Inr x, s') \<Rightarrow> f x s')"

definition aseq :: "('s, 'a) act \<Rightarrow> ('s, 'b) act \<Rightarrow> ('s, 'b) act" where
  "aseq m n = abind m (\<lambda>_. n)"

definition amodify :: "('s \<Rightarrow> 's) \<Rightarrow> ('s, unit) act" where
  "amodify f s = (Inr (), f s)"

definition alift :: "'a pyres \<Rightarrow> ('s, 'a) act" where
  "alift r s = (r, s)"

definition awhen :: "bool \<Rightarrow> ('s, unit) act \<Rightarrow> ('s, unit) act" where
  "awhen b m = (if b then m else aret ())"

fun amapM :: "('a \<Rightarrow> ('s, 'b) act) \<Rightarrow> 'a list \<Rightarrow> ('s, 'b list) act" where
  "amapM f [] = aret []"
| "amapM f (x # xs) = abind (f x) (\<lambda>y. abind (amapM f xs) (\<lambda>ys. aret (y # ys)))"

fun afor :: "'a list \<Rightarrow> ('a \<Rightarrow> ('s, unit) act) \<Rightarrow> ('s, unit) act" where
  "afor [] f = aret ()"
| "afor (x # xs) f = aseq (f x) (afor xs f)"

named_theorems act_simps \<open>rules of actions\<close>

lemma aret_apply [act_simps]: "aret x s = (Inr x, s)"
  by (simp add: aret_def)

lemma araise_apply [act_simps]: "araise e s = (Inl e, s)"
  by (simp add: araise_def)

lemma amodify_apply [act_simps]: "amodify f s = (Inr (), f s)"
  by (simp add: amodify_def)

lemma alift_apply [act_simps]: "alift r s = (r, s)"
  by (simp add: alift_def)

lemma abind_apply [act_simps]:
  "m s = (Inr x, s') \<Longrightarrow> abind m f s = f x s'"
  "m s = (Inl e, s') \<Longrightarrow> abind m f s = (Inl e, s')"
  by (simp_all add: abind_def)

lemma aseq_apply [act_simps]:
  "m s = (Inr x, s') \<Longrightarrow> aseq m n s = n s'"
  "m s = (Inl e, s') \<Longrightarrow> aseq m n s = (Inl e, s')"
  by (simp_all add: aseq_def abind_def)

text \<open>Stepping through a composition whose first actions are known.\<close>

lemma act_step:
  "abind m f s = (case m s of (Inl e, s') \<Rightarrow> (Inl e, s') | (Inr x, s') \<Rightarrow> f x s')"
  "aseq m n s = (case m s of (Inl e, s') \<Rightarrow> (Inl e, s') | (Inr x, s') \<Rightarrow> n s')"
  by (simp_all add: aseq_def abind_def)

lemma awhen_simps [simp, act_simps]: "awhen True m = m" "awhen False m = aret ()"
  by (simp_all add: awhen_def)

lemma abind_cases:
  assumes "abind m f s = (r, t)"
  obtains (raised) e where "m s = (Inl e, t)" "r = Inl e"
    | (returned) x s' where "m s = (Inr x, s')" "f x s' = (r, t)"
  using assms by (cases "m s") (auto simp: abind_def split: sum.splits)

text \<open>
  Partial correctness of actions: from a state satisfying \<open>P\<close>, a returned value and its state
  satisfy \<open>Q\<close>, and a raised exception and its state satisfy \<open>E\<close>.
\<close>

definition hoare ::
  "('s \<Rightarrow> bool) \<Rightarrow> ('s, 'a) act \<Rightarrow> ('a \<Rightarrow> 's \<Rightarrow> bool) \<Rightarrow> (pyerr \<Rightarrow> 's \<Rightarrow> bool) \<Rightarrow> bool" where
  "hoare P m Q E \<longleftrightarrow>
     (\<forall>s. P s \<longrightarrow> (case m s of (Inr x, t) \<Rightarrow> Q x t | (Inl e, t) \<Rightarrow> E e t))"

named_theorems hoare_rules \<open>introduction rules for partial correctness\<close>

lemma hoareI:
  "(\<And>s x t. P s \<Longrightarrow> m s = (Inr x, t) \<Longrightarrow> Q x t) \<Longrightarrow>
   (\<And>s e t. P s \<Longrightarrow> m s = (Inl e, t) \<Longrightarrow> E e t) \<Longrightarrow> hoare P m Q E"
  unfolding hoare_def by (simp split: prod.split sum.split)

lemma hoareD: "hoare P m Q E \<Longrightarrow> P s \<Longrightarrow> m s = (Inr x, t) \<Longrightarrow> Q x t"
  unfolding hoare_def by fastforce

lemma hoareE: "hoare P m Q E \<Longrightarrow> P s \<Longrightarrow> m s = (Inl e, t) \<Longrightarrow> E e t"
  unfolding hoare_def by fastforce

lemma hoare_pre: "hoare P' m Q E \<Longrightarrow> (\<And>s. P s \<Longrightarrow> P' s) \<Longrightarrow> hoare P m Q E"
  by (simp add: hoare_def)

lemma hoare_post:
  assumes "hoare P m Q' E'" "\<And>x s. Q' x s \<Longrightarrow> Q x s" "\<And>e s. E' e s \<Longrightarrow> E e s"
  shows "hoare P m Q E"
proof (rule hoareI)
  show "Q x t" if "P s" "m s = (Inr x, t)" for s x t
    by (rule assms(2)) (rule hoareD [OF assms(1) that])
  show "E e t" if "P s" "m s = (Inl e, t)" for s e t
    by (rule assms(3)) (rule hoareE [OF assms(1) that])
qed

lemma hoare_ret [hoare_rules]: "(\<And>s. P s \<Longrightarrow> Q x s) \<Longrightarrow> hoare P (aret x) Q E"
  by (simp add: hoare_def aret_def)

lemma hoare_raise [hoare_rules]: "(\<And>s. P s \<Longrightarrow> E e s) \<Longrightarrow> hoare P (araise e) Q E"
  by (simp add: hoare_def araise_def)

lemma hoare_lift [hoare_rules]:
  "(\<And>s x. P s \<Longrightarrow> r = Inr x \<Longrightarrow> Q x s) \<Longrightarrow> (\<And>s e. P s \<Longrightarrow> r = Inl e \<Longrightarrow> E e s) \<Longrightarrow>
     hoare P (alift r) Q E"
  by (simp add: hoare_def alift_def split: sum.splits)

lemma hoare_modify [hoare_rules]: "(\<And>s. P s \<Longrightarrow> Q () (f s)) \<Longrightarrow> hoare P (amodify f) Q E"
  by (simp add: hoare_def amodify_def)

lemma hoare_bind:
  "hoare P m R E \<Longrightarrow> (\<And>x. hoare (R x) (f x) Q E) \<Longrightarrow> hoare P (abind m f) Q E"
  by (rule hoareI) (erule abind_cases; blast dest: hoareD hoareE)+

lemma hoare_seq: "hoare P m (\<lambda>_. R) E \<Longrightarrow> hoare R n Q E \<Longrightarrow> hoare P (aseq m n) Q E"
  unfolding aseq_def by (rule hoare_bind)

lemma hoare_when: "hoare P m (\<lambda>_. P) E \<Longrightarrow> hoare P (awhen b m) (\<lambda>_. P) E"
  by (cases b) (auto intro: hoare_ret)

lemma hoare_for:
  "(\<And>x. x \<in> set xs \<Longrightarrow> hoare P (f x) (\<lambda>_. P) E) \<Longrightarrow> hoare P (afor xs f) (\<lambda>_. P) E"
  by (induction xs) (auto intro: hoare_ret hoare_seq)

text \<open>
  A comprehension over a list: an invariant is kept and each result has a property that later
  iterations preserve.
\<close>

lemma hoare_mapM:
  assumes "\<And>x. x \<in> set xs \<Longrightarrow> hoare P (f x) (\<lambda>y s. P s \<and> R x y s) E"
    and "\<And>x y z w. z \<in> set xs \<Longrightarrow> hoare (\<lambda>s. P s \<and> R x y s) (f z) (\<lambda>_ s. P s \<and> R x y s) (\<lambda>_ _. True)"
  shows "hoare P (amapM f xs) (\<lambda>ys s. P s \<and> list_all2 (\<lambda>x y. R x y s) xs ys) E"
  using assms
proof (induction xs)
  case Nil
  then show ?case by (auto intro: hoare_ret)
next
  case (Cons x xs)
  note later = Cons.prems(2)
  have keep: "hoare (\<lambda>s. P s \<and> R x y s) (amapM f xs) (\<lambda>_ s. P s \<and> R x y s) (\<lambda>_ _. True)" for y
  proof -
    have "hoare (\<lambda>s. P s \<and> R x y s) (amapM f zs) (\<lambda>_ s. P s \<and> R x y s) (\<lambda>_ _. True)"
      if "set zs \<subseteq> set xs" for zs
      using that
    proof (induction zs)
      case Nil
      then show ?case by (auto intro: hoare_ret)
    next
      case (Cons z zs)
      then have "hoare (\<lambda>s. P s \<and> R x y s) (f z) (\<lambda>_ s. P s \<and> R x y s) (\<lambda>_ _. True)"
        using later by simp
      with Cons show ?case by (auto intro!: hoare_bind hoare_ret)
    qed
    then show ?thesis by simp
  qed
  have IH: "hoare P (amapM f xs) (\<lambda>ys s. P s \<and> list_all2 (\<lambda>x y. R x y s) xs ys) E"
    using Cons.prems by (intro Cons.IH) auto
  have both: "hoare (\<lambda>s. P s \<and> R x y s) (amapM f xs)
      (\<lambda>ys s. (P s \<and> R x y s) \<and> list_all2 (\<lambda>x y. R x y s) xs ys) E" for y
    using keep [of y] IH by (intro hoareI) (blast dest: hoareD hoareE)+
  show ?case
    unfolding amapM.simps
    by (rule hoare_bind [OF Cons.prems(1)], simp, rule hoare_bind [OF both]) (auto intro: hoare_ret)
qed

text \<open>A loop whose body never raises does not raise.\<close>

lemma afor_total:
  assumes "\<And>x s. x \<in> set xs \<Longrightarrow> I s \<Longrightarrow> \<exists>s'. f x s = (Inr (), s') \<and> I s'" and "I s"
  shows "\<exists>s'. afor xs f s = (Inr (), s') \<and> I s'"
  using assms
proof (induction xs arbitrary: s)
  case Nil
  then show ?case by (simp add: aret_apply)
next
  case (Cons x xs)
  obtain s1 where s1: "f x s = (Inr (), s1)" "I s1"
    using Cons.prems(1) [of x s] Cons.prems(2) by auto
  have "\<exists>s'. afor xs f s1 = (Inr (), s') \<and> I s'"
    by (rule Cons.IH [OF _ s1(2)]) (use Cons.prems(1) in auto)
  with s1 show ?case by (simp add: act_step)
qed

section \<open>Invariants of transition relations\<close>

text \<open>
  The contract of every step relation of the development: a predicate that each step keeps holds in
  every state that is reached from one where it holds.
\<close>

locale transition_invariant =
  fixes trans :: "'s \<Rightarrow> 's \<Rightarrow> bool"
    and inv :: "'s \<Rightarrow> bool"
  assumes kept: "trans s t \<Longrightarrow> inv s \<Longrightarrow> inv t"
begin

lemma reached:
  assumes "trans\<^sup>*\<^sup>* s t" and "inv s"
  shows "inv t"
  using assms by (induction rule: rtranclp_induct) (auto intro: kept)

end

end
