(* ===== verification/PyCore.thy ===== *)
theory PyCore
  imports Prelude
begin

text \<open>
  The Python library operations the modelled scripts rely on: sequence indexing and
  slicing with Python's treatment of negative and large indices, the string methods
  (\<open>startswith\<close>, \<open>in\<close>, \<open>split\<close>, \<open>strip\<close>, \<open>join\<close>), decimal and hexadecimal numerals, and
  dictionaries as association lists in insertion order.
\<close>

section \<open>Sequences\<close>

definition py_pos :: "nat \<Rightarrow> int \<Rightarrow> nat option" where
  "py_pos n i =
     (if 0 \<le> i then if i < int n then Some (nat i) else None
      else if - int n \<le> i then Some (nat (int n + i)) else None)"

definition py_index :: "'a list \<Rightarrow> int \<Rightarrow> 'a pyres" where
  "py_index xs i =
     (case py_pos (length xs) i of Some p \<Rightarrow> Inr (xs ! p) | None \<Rightarrow> Inl IndexError)"

definition py_clamp :: "nat \<Rightarrow> int \<Rightarrow> nat" where
  "py_clamp n i = (if i < 0 then nat (int n + i) else min n (nat i))"

definition py_slice :: "'a list \<Rightarrow> int \<Rightarrow> int \<Rightarrow> 'a list" where
  "py_slice xs a b =
     (let l = py_clamp (length xs) a; u = py_clamp (length xs) b
      in take (u - l) (drop l xs))"

definition py_pop :: "'a list \<Rightarrow> ('a \<times> 'a list) pyres" where
  "py_pop xs = (if xs = [] then Inl IndexError else Inr (last xs, butlast xs))"

lemma py_index_nonneg [py_simps]:
  "i < length xs \<Longrightarrow> py_index xs (int i) = Inr (xs ! i)"
  by (simp add: py_index_def py_pos_def)

lemma py_slice_nonneg [py_simps]:
  "0 \<le> a \<Longrightarrow> 0 \<le> b \<Longrightarrow> py_slice xs a b = take (nat b - nat a) (drop (nat a) xs)"
  by (auto simp: py_slice_def py_clamp_def min_def Let_def)

lemma set_py_slice: "set (py_slice xs a b) \<subseteq> set xs"
  by (auto simp: py_slice_def Let_def dest: in_set_takeD in_set_dropD)

section \<open>Strings\<close>

definition py_newline :: char where
  "py_newline = CHR 0x0A"

definition py_tab :: char where
  "py_tab = CHR 0x09"

definition py_space :: "char \<Rightarrow> bool" where
  "py_space c \<longleftrightarrow> c \<in> {CHR '' '', CHR 0x09, CHR 0x0A, CHR 0x0B, CHR 0x0C, CHR 0x0D}"

definition startswith :: "string \<Rightarrow> string \<Rightarrow> bool" where
  "startswith s p \<longleftrightarrow> take (length p) s = p"

fun py_in :: "string \<Rightarrow> string \<Rightarrow> bool" where
  "py_in p [] = (p = [])"
| "py_in p (c # s) = (startswith (c # s) p \<or> py_in p s)"

text \<open>\<open>s.split(c, 1)\<close>: the part before the first separator, and the rest if there is one.\<close>

definition split_once :: "char \<Rightarrow> string \<Rightarrow> string list" where
  "split_once c s =
     (if c \<in> set s then [takeWhile (\<lambda>x. x \<noteq> c) s, tl (dropWhile (\<lambda>x. x \<noteq> c) s)] else [s])"

text \<open>\<open>s.split(c)\<close>.\<close>

fun split_all :: "char \<Rightarrow> string \<Rightarrow> string list" where
  "split_all c [] = [[]]"
| "split_all c (x # xs) =
     (if x = c then [] # split_all c xs
      else (case split_all c xs of [] \<Rightarrow> [[x]] | w # ws \<Rightarrow> (x # w) # ws))"

definition py_lstrip :: "string \<Rightarrow> string" where
  "py_lstrip s = dropWhile py_space s"

definition py_strip :: "string \<Rightarrow> string" where
  "py_strip s = rev (dropWhile py_space (rev (dropWhile py_space s)))"

fun py_join :: "string \<Rightarrow> string list \<Rightarrow> string" where
  "py_join sep [] = []"
| "py_join sep [x] = x"
| "py_join sep (x # y # ys) = x @ sep @ py_join sep (y # ys)"

lemma startswith_append [simp]: "startswith (p @ s) p"
  by (simp add: startswith_def)

lemma startswith_iff: "startswith s p \<longleftrightarrow> (\<exists>r. s = p @ r)"
  by (metis append_take_drop_id append_eq_conv_conj startswith_def)

lemma startswith_Cons [simp]:
  "startswith (c # s) (d # p) \<longleftrightarrow> c = d \<and> startswith s p"
  "startswith s []" "\<not> startswith [] (d # p)"
  by (auto simp: startswith_def)

lemma py_in_iff: "py_in p s \<longleftrightarrow> (\<exists>a b. s = a @ p @ b)"
proof (induction s)
  case Nil
  then show ?case by simp
next
  case (Cons c s)
  have "(\<exists>a b. c # s = a @ p @ b) \<longleftrightarrow> (\<exists>b. c # s = p @ b) \<or> (\<exists>a b. s = a @ p @ b)"
    by (metis append_Cons append_Nil list.inject list.exhaust)
  then show ?case using Cons.IH by (simp add: startswith_iff)
qed

lemma split_once_found:
  assumes "c \<notin> set a"
  shows "split_once c (a @ c # b) = [a, b]"
proof -
  have "takeWhile (\<lambda>x. x \<noteq> c) (a @ c # b) = a" "dropWhile (\<lambda>x. x \<noteq> c) (a @ c # b) = c # b"
    using assms by (auto intro!: takeWhile_append_stop dropWhile_append_stop)
  then show ?thesis by (simp add: split_once_def)
qed

lemma split_once_missing: "c \<notin> set s \<Longrightarrow> split_once c s = [s]"
  by (simp add: split_once_def)

lemma split_all_nonempty [simp]: "split_all c s \<noteq> []"
  by (induction s) (auto split: list.splits)

lemma split_all_no_sep: "w \<in> set (split_all c s) \<Longrightarrow> c \<notin> set w"
  by (induction s arbitrary: w) (auto split: if_splits list.splits)

lemma split_all_sep: "split_all c (s @ c # t) = split_all c s @ split_all c t"
  by (induction s) (auto split: list.splits dest: arg_cong [where f = length])

lemma py_join_Cons: "xs \<noteq> [] \<Longrightarrow> py_join sep (x # xs) = x @ sep @ py_join sep xs"
  by (cases xs) auto

lemma py_join_split_all: "py_join [c] (split_all c s) = s"
proof (induction s)
  case Nil
  then show ?case by simp
next
  case (Cons x xs)
  obtain w ws where w: "split_all c xs = w # ws"
    by (cases "split_all c xs") auto
  with Cons.IH show ?case by (cases ws) auto
qed

lemma split_all_join:
  "xs \<noteq> [] \<Longrightarrow> (\<And>w. w \<in> set xs \<Longrightarrow> c \<notin> set w) \<Longrightarrow> split_all c (py_join [c] xs) = xs"
proof (induction xs)
  case Nil
  then show ?case by simp
next
  case (Cons x xs)
  have one: "split_all c w = [w]" if "c \<notin> set w" for w
    using that by (induction w) auto
  have app: "split_all c (w @ c # r) = w # split_all c r" if "c \<notin> set w" for w r
    using that by (induction w) auto
  show ?case
  proof (cases "xs = []")
    case True
    with Cons.prems show ?thesis by (simp add: one)
  next
    case False
    with Cons show ?thesis by (simp add: py_join_Cons app)
  qed
qed

section \<open>Numerals\<close>

definition py_digit :: "char \<Rightarrow> bool" where
  "py_digit c \<longleftrightarrow> 48 \<le> (of_char c :: nat) \<and> (of_char c :: nat) \<le> 57"

definition digit_val :: "char \<Rightarrow> nat" where
  "digit_val c = of_char c - 48"

definition digit_chr :: "nat \<Rightarrow> char" where
  "digit_chr n = char_of (48 + n)"

definition nat_of_digits :: "string \<Rightarrow> nat" where
  "nat_of_digits s = foldl (\<lambda>n c. 10 * n + digit_val c) 0 s"

fun show_nat :: "nat \<Rightarrow> string" where
  "show_nat n = (if n < 10 then [digit_chr n] else show_nat (n div 10) @ [digit_chr (n mod 10)])"

declare show_nat.simps [simp del]

definition show_int :: "int \<Rightarrow> string" where
  "show_int i = (if i < 0 then CHR ''-'' # show_nat (nat (- i)) else show_nat (nat i))"

lemma of_char_digit_chr: "n < 10 \<Longrightarrow> of_char (digit_chr n) = 48 + n"
  by (simp add: digit_chr_def)

lemma py_digit_digit_chr [simp]: "n < 10 \<Longrightarrow> py_digit (digit_chr n)"
  by (simp add: py_digit_def of_char_digit_chr)

lemma digit_val_digit_chr [simp]: "n < 10 \<Longrightarrow> digit_val (digit_chr n) = n"
  by (simp add: digit_val_def of_char_digit_chr)

lemma show_nat_digits: "c \<in> set (show_nat n) \<Longrightarrow> py_digit c"
proof (induction n arbitrary: c rule: show_nat.induct)
  case (1 n)
  then show ?case
    by (subst (asm) (2) show_nat.simps) (auto split: if_splits)
qed

lemma show_nat_nonempty [simp]: "show_nat n \<noteq> []"
  by (subst show_nat.simps) simp

lemma nat_of_digits_show_nat [simp]: "nat_of_digits (show_nat n) = n"
proof (induction n rule: show_nat.induct)
  case (1 n)
  show ?case
  proof (cases "n < 10")
    case True
    then show ?thesis by (subst show_nat.simps) (simp add: nat_of_digits_def)
  next
    case False
    with 1 have "nat_of_digits (show_nat (n div 10)) = n div 10" by simp
    with False show ?thesis
      by (subst show_nat.simps) (simp add: nat_of_digits_def)
  qed
qed

section \<open>Dictionaries\<close>

text \<open>
  A dictionary is an association list with distinct keys; the list order is the order of
  insertion. Where the code iterates over a dictionary the iteration order is an explicit
  argument of the model.
\<close>

type_synonym ('k, 'v) dict = "('k \<times> 'v) list"

fun dict_set :: "'k \<Rightarrow> 'v \<Rightarrow> ('k, 'v) dict \<Rightarrow> ('k, 'v) dict" where
  "dict_set k v [] = [(k, v)]"
| "dict_set k v ((k', v') # d) = (if k' = k then (k, v) # d else (k', v') # dict_set k v d)"

definition dict_del :: "'k \<Rightarrow> ('k, 'v) dict \<Rightarrow> ('k, 'v) dict" where
  "dict_del k d = filter (\<lambda>p. fst p \<noteq> k) d"

definition dict_has :: "('k, 'v) dict \<Rightarrow> 'k \<Rightarrow> bool" where
  "dict_has d k \<longleftrightarrow> k \<in> fst ` set d"

definition dict_getitem :: "('k, 'v) dict \<Rightarrow> 'k \<Rightarrow> 'v pyres" where
  "dict_getitem d k = (case map_of d k of None \<Rightarrow> Inl KeyError | Some v \<Rightarrow> Inr v)"

definition dict_keys :: "('k, 'v) dict \<Rightarrow> 'k list" where
  "dict_keys d = map fst d"

definition dict_wf :: "('k, 'v) dict \<Rightarrow> bool" where
  "dict_wf d \<longleftrightarrow> distinct (map fst d)"

text \<open>The contract of a dictionary, and its consequences for every client.\<close>

locale dictionary =
  fixes empty :: "'m"
    and update :: "'k \<Rightarrow> 'v \<Rightarrow> 'm \<Rightarrow> 'm"
    and delete :: "'k \<Rightarrow> 'm \<Rightarrow> 'm"
    and lookup :: "'m \<Rightarrow> 'k \<Rightarrow> 'v option"
    and keys :: "'m \<Rightarrow> 'k list"
    and wf :: "'m \<Rightarrow> bool"
  assumes wf_empty: "wf empty"
    and wf_update: "wf m \<Longrightarrow> wf (update k v m)"
    and wf_delete: "wf m \<Longrightarrow> wf (delete k m)"
    and lookup_empty: "lookup empty k = None"
    and lookup_update: "lookup (update k v m) j = (if j = k then Some v else lookup m j)"
    and lookup_delete: "wf m \<Longrightarrow> lookup (delete k m) j = (if j = k then None else lookup m j)"
    and keys_lookup: "set (keys m) = {k. lookup m k \<noteq> None}"
    and keys_distinct: "wf m \<Longrightarrow> distinct (keys m)"
begin

lemma keys_update: "set (keys (update k v m)) = insert k (set (keys m))"
  by (auto simp: keys_lookup lookup_update)

lemma keys_delete: "wf m \<Longrightarrow> set (keys (delete k m)) = set (keys m) - {k}"
  by (auto simp: keys_lookup lookup_delete)

lemma wf_foldl_update: "wf m \<Longrightarrow> wf (foldl (\<lambda>d p. update (fst p) (snd p) d) m ps)"
  by (rule foldl_invariant) (auto intro: wf_update)

lemma lookup_foldl_update:
  "lookup (foldl (\<lambda>d p. update (fst p) (snd p) d) m ps) k =
     (case map_of (rev ps) k of None \<Rightarrow> lookup m k | Some v \<Rightarrow> Some v)"
proof (induction ps arbitrary: m)
  case Nil
  then show ?case by simp
next
  case (Cons p ps)
  show ?case
    by (auto simp: Cons.IH lookup_update map_add_def split: option.splits)
qed

end

lemma map_of_dict_set [simp, py_simps]:
  "map_of (dict_set k v d) j = (if j = k then Some v else map_of d j)"
  by (induction d) auto

lemma dict_set_twice [simp]: "dict_set k v (dict_set k u d) = dict_set k v d"
  by (induction d) auto

lemma dict_set_keys: "fst ` set (dict_set k v d) = insert k (fst ` set d)"
proof (induction d)
  case Nil
  then show ?case by simp
next
  case (Cons p d)
  then show ?case by (cases p) (simp add: insert_commute)
qed

lemma set_dict_set: "set (dict_set k v d) \<subseteq> insert (k, v) (set d)"
  by (induction d) (auto split: if_splits)

lemma dict_wf_set: "dict_wf d \<Longrightarrow> dict_wf (dict_set k v d)"
proof (induction d)
  case Nil
  then show ?case by (simp add: dict_wf_def)
next
  case (Cons p d)
  then show ?case by (cases p) (auto simp: dict_wf_def dict_set_keys)
qed

lemma map_of_dict_del [simp, py_simps]:
  "map_of (dict_del k d) j = (if j = k then None else map_of d j)"
  by (induction d) (auto simp: dict_del_def)

lemma dict_wf_del: "dict_wf d \<Longrightarrow> dict_wf (dict_del k d)"
  unfolding dict_wf_def dict_del_def by (rule distinct_map_filter)

interpretation alist: dictionary "[]" dict_set dict_del map_of dict_keys dict_wf
proof unfold_locales
  show "set (dict_keys m) = {k. map_of m k \<noteq> None}" for m :: "('a, 'b) dict"
    by (auto simp: dict_keys_def map_of_eq_None_iff)
qed (auto simp: dict_wf_set dict_wf_del dict_keys_def, auto simp: dict_wf_def)

lemma dict_has_iff: "dict_has d k \<longleftrightarrow> map_of d k \<noteq> None"
  by (simp add: dict_has_def map_of_eq_None_iff)

section \<open>Sorting with a comparison function\<close>

text \<open>\<open>list.sort (cmp)\<close> is stable: an element goes before the ones it does not exceed.\<close>

fun insert_cmp :: "('a \<Rightarrow> 'a \<Rightarrow> int) \<Rightarrow> 'a \<Rightarrow> 'a list \<Rightarrow> 'a list" where
  "insert_cmp cmp x [] = [x]"
| "insert_cmp cmp x (y # ys) = (if cmp x y \<le> 0 then x # y # ys else y # insert_cmp cmp x ys)"

definition py_sort :: "('a \<Rightarrow> 'a \<Rightarrow> int) \<Rightarrow> 'a list \<Rightarrow> 'a list" where
  "py_sort cmp xs = foldr (insert_cmp cmp) xs []"

text \<open>A comparison function that orders by a key makes \<open>sort\<close> the stable sort by that key.\<close>

lemma insert_cmp_key:
  "(\<And>a b. cmp a b \<le> 0 \<longleftrightarrow> key a \<le> (key b :: 'k :: linorder)) \<Longrightarrow>
     insert_cmp cmp x xs = insort_key key x xs"
  by (induction xs) auto

lemma py_sort_key:
  assumes "\<And>a b. cmp a b \<le> 0 \<longleftrightarrow> key a \<le> (key b :: 'k :: linorder)"
  shows "py_sort cmp xs = sort_key key xs"
proof -
  have "insert_cmp cmp = insort_key key"
    using insert_cmp_key [of cmp key, OF assms] by blast
  then show ?thesis by (simp add: py_sort_def sort_key_def)
qed

end
