(* ===== verification/PyNum.thy ===== *)
theory PyNum
  imports PyCore
begin

text \<open>
  Python 2 numbers. The timeline viewer mixes integers and floats, and its arithmetic depends
  on which of the two a value is: \<open>/\<close> floors on two integers and divides otherwise, \<open>min\<close> and
  \<open>max\<close> return one of their arguments unchanged. A float is represented by the rational it
  denotes; rounding is not modelled.
\<close>

datatype pynum = PInt int | PFloat rat

fun nval :: "pynum \<Rightarrow> rat" where
  "nval (PInt i) = of_int i"
| "nval (PFloat r) = r"

fun nadd :: "pynum \<Rightarrow> pynum \<Rightarrow> pynum" where
  "nadd (PInt a) (PInt b) = PInt (a + b)"
| "nadd x y = PFloat (nval x + nval y)"

fun nsub :: "pynum \<Rightarrow> pynum \<Rightarrow> pynum" where
  "nsub (PInt a) (PInt b) = PInt (a - b)"
| "nsub x y = PFloat (nval x - nval y)"

fun nmul :: "pynum \<Rightarrow> pynum \<Rightarrow> pynum" where
  "nmul (PInt a) (PInt b) = PInt (a * b)"
| "nmul x y = PFloat (nval x * nval y)"

fun ndiv :: "pynum \<Rightarrow> pynum \<Rightarrow> pynum pyres" where
  "ndiv (PInt a) (PInt b) = (if b = 0 then Inl ZeroDivisionError else Inr (PInt (a div b)))"
| "ndiv x y = (if nval y = 0 then Inl ZeroDivisionError else Inr (PFloat (nval x / nval y)))"

fun nmod :: "pynum \<Rightarrow> pynum \<Rightarrow> pynum pyres" where
  "nmod (PInt a) (PInt b) = (if b = 0 then Inl ZeroDivisionError else Inr (PInt (a mod b)))"
| "nmod x y =
     (if nval y = 0 then Inl ZeroDivisionError
      else Inr (PFloat (nval x - nval y * of_int \<lfloor>nval x / nval y\<rfloor>)))"

definition nlt :: "pynum \<Rightarrow> pynum \<Rightarrow> bool" where
  "nlt x y \<longleftrightarrow> nval x < nval y"

definition nle :: "pynum \<Rightarrow> pynum \<Rightarrow> bool" where
  "nle x y \<longleftrightarrow> nval x \<le> nval y"

definition nmin :: "pynum \<Rightarrow> pynum \<Rightarrow> pynum" where
  "nmin x y = (if nlt y x then y else x)"

definition nmax :: "pynum \<Rightarrow> pynum \<Rightarrow> pynum" where
  "nmax x y = (if nlt x y then y else x)"

fun nabs :: "pynum \<Rightarrow> pynum" where
  "nabs (PInt a) = PInt \<bar>a\<bar>"
| "nabs (PFloat r) = PFloat \<bar>r\<bar>"

fun nneg :: "pynum \<Rightarrow> pynum" where
  "nneg (PInt a) = PInt (- a)"
| "nneg (PFloat r) = PFloat (- r)"

text \<open>\<open>int(x)\<close> truncates towards zero, \<open>float(x)\<close> keeps the value.\<close>

fun nint :: "pynum \<Rightarrow> int" where
  "nint (PInt a) = a"
| "nint (PFloat r) = (if 0 \<le> r then \<lfloor>r\<rfloor> else \<lceil>r\<rceil>)"

definition nfloat :: "pynum \<Rightarrow> pynum" where
  "nfloat x = PFloat (nval x)"

lemma nval_nadd [simp]: "nval (nadd x y) = nval x + nval y"
  by (cases "(x, y)" rule: nadd.cases) auto

lemma nval_nsub [simp]: "nval (nsub x y) = nval x - nval y"
  by (cases "(x, y)" rule: nsub.cases) auto

lemma nval_nmul [simp]: "nval (nmul x y) = nval x * nval y"
  by (cases "(x, y)" rule: nmul.cases) auto

lemma nval_nmin [simp]: "nval (nmin x y) = min (nval x) (nval y)"
  by (auto simp: nmin_def nlt_def)

lemma nval_nmax [simp]: "nval (nmax x y) = max (nval x) (nval y)"
  by (auto simp: nmax_def nlt_def)

lemma nval_nabs [simp]: "nval (nabs x) = \<bar>nval x\<bar>"
  by (cases x) auto

lemma nval_nneg [simp]: "nval (nneg x) = - nval x"
  by (cases x) auto

lemma nval_nfloat [simp]: "nval (nfloat x) = nval x"
  by (simp add: nfloat_def)

lemma ndiv_zero: "nval y = 0 \<Longrightarrow> ndiv x y = Inl ZeroDivisionError"
  by (cases "(x, y)" rule: ndiv.cases) auto

lemma ndiv_ok: "nval y \<noteq> 0 \<Longrightarrow> \<exists>z. ndiv x y = Inr z"
  by (cases "(x, y)" rule: ndiv.cases) auto

lemma nmod_ok: "nval y \<noteq> 0 \<Longrightarrow> \<exists>z. nmod x y = Inr z"
  by (cases "(x, y)" rule: nmod.cases) auto

text \<open>Dividing by or into a float is exact.\<close>

lemma nval_ndiv_float:
  "ndiv (PFloat a) y = Inr z \<Longrightarrow> nval z = a / nval y"
  by (cases y) (auto split: if_splits)

lemma nval_ndiv_by_float:
  "ndiv x (PFloat b) = Inr z \<Longrightarrow> nval z = nval x / b"
  by (cases x) (auto split: if_splits)

text \<open>In every case the quotient lies at most one below the exact one.\<close>

lemma nval_ndiv_bounds:
  assumes "ndiv x y = Inr z"
  shows "nval z \<le> nval x / nval y" and "nval x / nval y < nval z + 1"
proof -
  have le: "of_int (a div b) \<le> (of_int a / of_int b :: rat)" for a b :: int
    by (metis floor_divide_of_int_eq of_int_floor_le)
  have lt: "(of_int a / of_int b :: rat) < of_int (a div b) + 1" for a b :: int
    using floor_correct [of "of_int a / of_int b :: rat"] by (simp add: floor_divide_of_int_eq)
  show "nval z \<le> nval x / nval y" and "nval x / nval y < nval z + 1"
    using assms le lt by (cases "(x, y)" rule: ndiv.cases; fastforce split: if_splits)+
qed

text \<open>Which of the two kinds a number is decides how it is divided.\<close>

fun is_int :: "pynum \<Rightarrow> bool" where
  "is_int (PInt _) = True"
| "is_int (PFloat _) = False"

lemma is_int_arith [simp]:
  "is_int (nadd x y) \<longleftrightarrow> is_int x \<and> is_int y"
  "is_int (nsub x y) \<longleftrightarrow> is_int x \<and> is_int y"
  "is_int (nmul x y) \<longleftrightarrow> is_int x \<and> is_int y"
  by (cases x; cases y; simp)+

lemma nval_ndiv:
  assumes "ndiv x y = Inr z"
  shows "nval z = (if is_int x \<and> is_int y then of_int \<lfloor>nval x / nval y\<rfloor> else nval x / nval y)"
  using assms by (cases "(x, y)" rule: ndiv.cases) (auto simp: floor_divide_of_int_eq split: if_splits)

lemma ndiv_mono:
  assumes "ndiv a y = Inr p" and "ndiv b y = Inr q" and "nval a \<le> nval b" and "0 < nval y"
    and "is_int y \<Longrightarrow> is_int a = is_int b"
  shows "nval p \<le> nval q"
proof -
  have le: "nval a / nval y \<le> nval b / nval y"
    using assms(3,4) by (simp add: divide_right_mono)
  then have "of_int \<lfloor>nval a / nval y\<rfloor> \<le> (of_int \<lfloor>nval b / nval y\<rfloor> :: rat)"
    by (simp add: floor_mono)
  with le assms(5) show ?thesis
    by (auto simp: nval_ndiv [OF assms(1)] nval_ndiv [OF assms(2)])
qed

lemma nint_eq: "nint x = (if 0 \<le> nval x then \<lfloor>nval x\<rfloor> else \<lceil>nval x\<rceil>)"
  by (cases x) auto

lemma nint_mono: "nval a \<le> nval b \<Longrightarrow> nint a \<le> nint b"
proof -
  assume le: "nval a \<le> nval b"
  have "\<lceil>nval a\<rceil> \<le> \<lfloor>nval b\<rfloor>" if "nval a < 0" "0 \<le> nval b"
  proof -
    have "\<lceil>nval a\<rceil> \<le> 0" using that(1) by (simp add: ceiling_le_iff)
    moreover have "0 \<le> \<lfloor>nval b\<rfloor>" using that(2) by simp
    ultimately show ?thesis by (rule order_trans)
  qed
  with le show ?thesis by (auto simp: nint_eq intro: floor_mono ceiling_mono)
qed

end
