(* ===== verification/Search.thy ===== *)
theory Search
  imports PyCore
begin

text \<open>
  The two contracts of the timeline containers: a binary search driven by a three-way probe,
  and a list of named objects with a get-or-create lookup. Both are stated once as locales and
  interpreted by the classes of \<open>utils/grid.py\<close>.
\<close>

section \<open>Binary search\<close>

text \<open>
  \<open>probe k x\<close> is negative when the key lies before \<open>x\<close>, zero on a hit, positive when it lies
  after; \<open>miss\<close> is what the loop returns from its final lower bound.
\<close>

locale binary_search =
  fixes probe :: "'k \<Rightarrow> 'a \<Rightarrow> int"
    and search :: "'a list \<Rightarrow> 'k \<Rightarrow> int \<Rightarrow> int \<Rightarrow> int"
    and miss :: "int \<Rightarrow> int"
    and ordered :: "'a list \<Rightarrow> bool"
  assumes search_unfold:
      "search xs k l u =
         (if l \<le> u then
            (let i = (l + u) div 2; c = probe k (xs ! nat i) in
             if c = 0 then i else if c < 0 then search xs k l (i - 1) else search xs k (i + 1) u)
          else miss l)"
    and probe_before:
      "ordered xs \<Longrightarrow> i < j \<Longrightarrow> j < length xs \<Longrightarrow> probe k (xs ! i) < 0 \<Longrightarrow> probe k (xs ! j) < 0"
    and probe_after:
      "ordered xs \<Longrightarrow> i < j \<Longrightarrow> j < length xs \<Longrightarrow> 0 < probe k (xs ! j) \<Longrightarrow> 0 < probe k (xs ! i)"
begin

definition hit_at :: "'a list \<Rightarrow> 'k \<Rightarrow> int \<Rightarrow> bool" where
  "hit_at xs k r \<longleftrightarrow> (\<exists>i < length xs. r = int i \<and> probe k (xs ! i) = 0)"

definition miss_at :: "'a list \<Rightarrow> 'k \<Rightarrow> nat \<Rightarrow> bool" where
  "miss_at xs k m \<longleftrightarrow> m \<le> length xs \<and> (\<forall>i < m. 0 < probe k (xs ! i)) \<and>
     (\<forall>i < length xs. m \<le> i \<longrightarrow> probe k (xs ! i) < 0)"

lemma search_window:
  assumes "ordered xs" "0 \<le> l" "l \<le> u + 1" "u < int (length xs)"
    and "\<And>i. int i < l \<Longrightarrow> 0 < probe k (xs ! i)"
    and "\<And>i. u < int i \<Longrightarrow> i < length xs \<Longrightarrow> probe k (xs ! i) < 0"
  shows "hit_at xs k (search xs k l u) \<or> (\<exists>m. miss_at xs k m \<and> search xs k l u = miss (int m))"
  using assms
proof (induction "nat (u - l + 1)" arbitrary: l u rule: less_induct)
  case less
  show ?case
  proof (cases "l \<le> u")
    case False
    with less.prems have "miss_at xs k (nat l)" by (auto simp: miss_at_def)
    moreover have "search xs k l u = miss (int (nat l))"
      using False less.prems by (subst search_unfold) simp
    ultimately show ?thesis by blast
  next
    case True
    define i where "i = (l + u) div 2"
    have i: "l \<le> i" "i \<le> u" using True by (auto simp: i_def)
    define c where "c = probe k (xs ! nat i)"
    have eq: "search xs k l u =
        (if c = 0 then i else if c < 0 then search xs k l (i - 1) else search xs k (i + 1) u)"
      using True by (subst search_unfold) (simp add: i_def c_def Let_def)
    consider "c = 0" | "c < 0" | "c > 0" by linarith
    then show ?thesis
    proof cases
      case 1
      then have "hit_at xs k i"
        using i less.prems by (auto simp: hit_at_def c_def intro!: exI [of _ "nat i"])
      with 1 eq show ?thesis by simp
    next
      case 2
      have right: "probe k (xs ! j) < 0" if "i - 1 < int j" "j < length xs" for j
        using probe_before [OF less.prems(1), of "nat i" j k] 2 that i less.prems(2)
        by (cases "nat i = j") (auto simp: c_def)
      show ?thesis using 2 eq less.hyps [of "i - 1" l] less.prems i right by auto
    next
      case 3
      have left: "0 < probe k (xs ! j)" if "int j < i + 1" for j
        using probe_after [OF less.prems(1), of j "nat i" k] 3 that i less.prems(2,4)
        by (cases "nat i = j") (auto simp: c_def)
      show ?thesis using 3 eq less.hyps [of u "i + 1"] less.prems i left by auto
    qed
  qed
qed

lemma search_cases:
  assumes "ordered xs"
  obtains (hit) i where "i < length xs" "probe k (xs ! i) = 0"
      "search xs k 0 (int (length xs) - 1) = int i"
    | (miss) m where "m \<le> length xs" "\<And>i. i < m \<Longrightarrow> 0 < probe k (xs ! i)"
      "\<And>i. m \<le> i \<Longrightarrow> i < length xs \<Longrightarrow> probe k (xs ! i) < 0"
      "search xs k 0 (int (length xs) - 1) = miss (int m)"
  using search_window [OF assms, of 0 "int (length xs) - 1" k]
  by (auto simp: hit_at_def miss_at_def)

lemma search_hit:
  assumes "ordered xs" "x \<in> set xs" "probe k x = 0"
  shows "\<exists>i < length xs. search xs k 0 (int (length xs) - 1) = int i \<and> probe k (xs ! i) = 0"
  using assms(1)
proof (cases rule: search_cases [where k = k])
  case (hit i)
  then show ?thesis by blast
next
  case (miss m)
  from assms(2) obtain j where "j < length xs" "xs ! j = x" by (auto simp: in_set_conv_nth)
  with miss assms(3) show ?thesis by (metis less_irrefl not_le)
qed

lemma search_miss:
  assumes "ordered xs" "\<And>x. x \<in> set xs \<Longrightarrow> probe k x \<noteq> 0"
  shows "\<exists>m. miss_at xs k m \<and> search xs k 0 (int (length xs) - 1) = miss (int m)"
  using assms(1)
proof (cases rule: search_cases [where k = k])
  case (hit i)
  then show ?thesis using assms(2) by auto
next
  case (miss m)
  then show ?thesis by (auto simp: miss_at_def)
qed

end

section \<open>Lists of named objects\<close>

text \<open>
  The loop shared by the four name lookups: the first element of that name, or a new element
  appended to the list.
\<close>

fun find_name :: "('a \<Rightarrow> string) \<Rightarrow> string \<Rightarrow> 'a list \<Rightarrow> nat option" where
  "find_name nm name [] = None"
| "find_name nm name (x # xs) =
     (if nm x = name then Some 0 else map_option Suc (find_name nm name xs))"

lemma find_name_Some:
  "find_name nm n xs = Some i \<Longrightarrow> i < length xs \<and> nm (xs ! i) = n"
  by (induction xs arbitrary: i) (auto split: if_splits)

lemma find_name_None: "find_name nm n xs = None \<longleftrightarrow> n \<notin> nm ` set xs"
  by (induction xs) auto

lemma find_name_append:
  "find_name nm n (xs @ ys) =
     (case find_name nm n xs of Some i \<Rightarrow> Some i
      | None \<Rightarrow> map_option (\<lambda>i. length xs + i) (find_name nm n ys))"
proof (induction xs)
  case Nil
  then show ?case by (cases "find_name nm n ys") auto
next
  case (Cons x xs)
  then show ?case
    by (auto split: option.splits simp: option.map_comp comp_def intro: map_option_cong)
qed

lemma find_name_update:
  "i < length xs \<Longrightarrow> nm x = nm (xs ! i) \<Longrightarrow> find_name nm n (xs[i := x]) = find_name nm n xs"
  by (induction xs arbitrary: i) (auto split: nat.splits)

lemma find_name_nth:
  "distinct (map nm xs) \<Longrightarrow> i < length xs \<Longrightarrow> find_name nm (nm (xs ! i)) xs = Some i"
proof (induction xs arbitrary: i)
  case Nil
  then show ?case by simp
next
  case (Cons x xs)
  show ?case
  proof (cases i)
    case 0
    then show ?thesis by simp
  next
    case (Suc j)
    with Cons.prems have "nm (xs ! j) \<in> nm ` set xs" by simp
    with Cons.prems have "nm (xs ! j) \<noteq> nm x" by auto
    with Suc Cons show ?thesis by auto
  qed
qed

text \<open>The object of a name, a fresh one where there is none.\<close>

definition entry :: "('a \<Rightarrow> string) \<Rightarrow> (string \<Rightarrow> 'a) \<Rightarrow> 'a list \<Rightarrow> string \<Rightarrow> 'a" where
  "entry nm fresh xs n = (case find_name nm n xs of Some i \<Rightarrow> xs ! i | None \<Rightarrow> fresh n)"

locale named_list =
  fixes name_of :: "'a \<Rightarrow> string"
    and fresh :: "string \<Rightarrow> 'a"
    and items :: "'s \<Rightarrow> 'a list"
    and lookup :: "'s \<Rightarrow> string \<Rightarrow> nat \<times> 's"
  assumes fresh_name: "name_of (fresh n) = n"
    and lookup_old: "find_name name_of n (items s) = Some i \<Longrightarrow> lookup s n = (i, s)"
    and lookup_new: "find_name name_of n (items s) = None \<Longrightarrow>
          fst (lookup s n) = length (items s) \<and> items (snd (lookup s n)) = items s @ [fresh n]"
begin

lemma lookup_cases:
  obtains (old) i where "find_name name_of n (items s) = Some i" "lookup s n = (i, s)"
    | (new) t where "n \<notin> name_of ` set (items s)" "lookup s n = (length (items s), t)"
        "items t = items s @ [fresh n]"
proof (cases "find_name name_of n (items s)")
  case None
  with lookup_new [OF None] show ?thesis
    by (metis find_name_None new prod.collapse)
next
  case (Some i)
  with lookup_old [OF Some] show ?thesis by (metis old)
qed

lemma lookup_index:
  "fst (lookup s n) < length (items (snd (lookup s n)))"
  "name_of (items (snd (lookup s n)) ! fst (lookup s n)) = n"
  by (cases rule: lookup_cases [of n s]; auto simp: fresh_name dest: find_name_Some)+

lemma lookup_distinct:
  "distinct (map name_of (items s)) \<Longrightarrow> distinct (map name_of (items (snd (lookup s n))))"
  by (cases rule: lookup_cases [of n s]) (auto simp: fresh_name)

lemma lookup_again: "lookup (snd (lookup s n)) n = lookup s n"
proof (cases rule: lookup_cases [of n s])
  case (old i)
  then show ?thesis by simp
next
  case (new t)
  then have "find_name name_of n (items t) = Some (length (items s))"
    by (simp add: find_name_append fresh_name find_name_None [symmetric])
  with new show ?thesis by (simp add: lookup_old)
qed

lemma lookup_entry:
  "entry name_of fresh (items (snd (lookup s n))) m = entry name_of fresh (items s) m"
proof (cases rule: lookup_cases [of n s])
  case (old i)
  then show ?thesis by simp
next
  case (new t)
  then show ?thesis
    by (auto simp: entry_def find_name_append fresh_name nth_append
        dest: find_name_Some split: option.splits)
qed

lemma lookup_nth: "items (snd (lookup s n)) ! fst (lookup s n) = entry name_of fresh (items s) n"
proof (cases rule: lookup_cases [of n s])
  case (old i)
  then show ?thesis by (simp add: entry_def)
next
  case (new t)
  then show ?thesis by (simp add: entry_def find_name_None [symmetric])
qed

lemma entry_update:
  assumes "distinct (map name_of xs)" "i < length xs" "name_of x = name_of (xs ! i)"
  shows "entry name_of fresh (xs[i := x]) m =
    (if m = name_of (xs ! i) then x else entry name_of fresh xs m)"
proof (cases "m = name_of (xs ! i)")
  case True
  then show ?thesis
    using assms by (simp add: entry_def find_name_update find_name_nth)
next
  case False
  then show ?thesis
    using assms find_name_Some [of name_of m xs i]
    by (auto simp: entry_def find_name_update nth_list_update split: option.splits
        dest: find_name_Some)
qed

text \<open>The read-modify-write a caller performs through the handed-out reference.\<close>

lemma update_looked_up:
  assumes "distinct (map name_of (items s))" "lookup s n = (i, s')" "name_of x = n"
  shows "entry name_of fresh ((items s')[i := x]) m =
      (if m = n then x else entry name_of fresh (items s) m)"
    and "distinct (map name_of ((items s')[i := x]))"
    and "items s' ! i = entry name_of fresh (items s) n"
    and "set ((items s')[i := x]) \<subseteq> insert x (insert (fresh n) (set (items s)))"
proof -
  have i: "i < length (items s')" "name_of (items s' ! i) = n"
    using lookup_index [of s n] assms(2) by simp_all
  have d: "distinct (map name_of (items s'))"
    using lookup_distinct [OF assms(1), of n] assms(2) by simp
  show "entry name_of fresh ((items s')[i := x]) m =
      (if m = n then x else entry name_of fresh (items s) m)"
    using entry_update [OF d i(1)] i assms lookup_entry [of s n m] by simp
  show "distinct (map name_of ((items s')[i := x]))"
    using d i assms(3) list_update_map_same [of i "items s'" name_of x] by simp
  show "items s' ! i = entry name_of fresh (items s) n"
    using lookup_nth [of s n] assms(2) by simp
  have "set (items s') \<subseteq> insert (fresh n) (set (items s))"
    using assms(2) by (cases rule: lookup_cases [of n s]) auto
  then show "set ((items s')[i := x]) \<subseteq> insert x (insert (fresh n) (set (items s)))"
    using set_update_subset_insert [of "items s'" i x] by blast
qed

end

lemma entry_mem: "entry nm fresh xs n \<in> insert (fresh n) (set xs)"
  by (auto simp: entry_def dest!: find_name_Some split: option.splits)

lemma find_name_map: "(\<And>x. nm (f x) = nm x) \<Longrightarrow> find_name nm n (map f xs) = find_name nm n xs"
  by (induction xs) auto

lemma entry_map:
  "(\<And>x. nm (f x) = nm x) \<Longrightarrow> f (fresh n) = fresh n \<Longrightarrow>
     entry nm fresh (map f xs) n = f (entry nm fresh xs n)"
  by (auto simp: entry_def find_name_map dest!: find_name_Some split: option.splits)

end
