(* ===== verification/GridData.thy ===== *)
theory GridData
  imports PyNum Search
begin

text \<open>
  The data model of the timeline viewer \<open>utils/grid.py\<close>: data ranges and events, their
  timelines with binary search, the collection \<open>Timelines\<close>, and the colour table. A record per
  class, a definition per method; a method that changes its object returns the new object, and
  a method that hands out a reference to an element of a list returns the element's position
  with the new list, so that the caller's later mutation is an update at that position.
\<close>

section \<open>Values\<close>

record data_range =
  dr_start :: int
  dr_end :: int
  dr_value :: string

definition DataRange :: "int \<Rightarrow> int \<Rightarrow> string \<Rightarrow> data_range" where
  "DataRange start en val = \<lparr>dr_start = start, dr_end = en, dr_value = val\<rparr>"

text \<open>The three event classes differ in the type of their value only.\<close>

datatype ev_value = VStr string | VFloat rat | VInt int

record event =
  ev_at :: int
  ev_value :: ev_value

definition EventString :: "int \<Rightarrow> string \<Rightarrow> event" where
  "EventString tm val = \<lparr>ev_at = tm, ev_value = VStr val\<rparr>"

definition EventFloat :: "int \<Rightarrow> rat \<Rightarrow> event" where
  "EventFloat tm val = \<lparr>ev_at = tm, ev_value = VFloat val\<rparr>"

definition EventInt :: "int \<Rightarrow> int \<Rightarrow> event" where
  "EventInt tm val = \<lparr>ev_at = tm, ev_value = VInt val\<rparr>"

definition ranges_cmp :: "data_range \<Rightarrow> data_range \<Rightarrow> int" where
  "ranges_cmp a b =
     (let diff = dr_start a - dr_start b in if diff < 0 then -1 else if diff > 0 then 1 else 0)"

definition events_cmp :: "event \<Rightarrow> event \<Rightarrow> int" where
  "events_cmp a b =
     (let diff = ev_at a - ev_at b in if diff < 0 then -1 else if diff > 0 then 1 else 0)"

section \<open>TimelineDataRange\<close>

record timeline_data_range =
  tdr_name :: string
  tdr_ranges :: "data_range list"

definition TimelineDataRange :: "string \<Rightarrow> timeline_data_range" where
  "TimelineDataRange name = \<lparr>tdr_name = name, tdr_ranges = []\<rparr>"

function tdr_search_from :: "data_range list \<Rightarrow> rat \<Rightarrow> int \<Rightarrow> int \<Rightarrow> int" where
  "tdr_search_from rs key l u =
     (if l \<le> u then
        (let i = (l + u) div 2; r = rs ! nat i in
         if key \<ge> of_int (dr_start r) \<and> key \<le> of_int (dr_end r) then i
         else if key < of_int (dr_start r) then tdr_search_from rs key l (i - 1)
         else tdr_search_from rs key (i + 1) u)
      else -1)"
  by pat_completeness auto
termination
  by (relation "measure (\<lambda>(rs, key, l, u). nat (u - l + 1))") auto

declare tdr_search_from.simps [simp del]

definition tdr_search :: "timeline_data_range \<Rightarrow> rat \<Rightarrow> int" where
  "tdr_search t key = tdr_search_from (tdr_ranges t) key 0 (int (length (tdr_ranges t)) - 1)"

definition add_range :: "timeline_data_range \<Rightarrow> data_range \<Rightarrow> timeline_data_range" where
  "add_range t r = t\<lparr>tdr_ranges := tdr_ranges t @ [r]\<rparr>"

definition get_all :: "timeline_data_range \<Rightarrow> data_range list" where
  "get_all t = tdr_ranges t"

definition get_ranges :: "timeline_data_range \<Rightarrow> rat \<Rightarrow> rat \<Rightarrow> data_range list" where
  "get_ranges t start en =
     (let s = tdr_search t start; e = tdr_search t en; rs = tdr_ranges t in
      if s = -1 \<and> e = -1 then []
      else if s = -1 then py_slice rs 0 (e + 1)
      else if e = -1 then py_slice rs s (int (length rs))
      else py_slice rs s (e + 1))"

definition get_ranges_bounds :: "timeline_data_range \<Rightarrow> rat \<Rightarrow> rat \<Rightarrow> int \<times> int" where
  "get_ranges_bounds t start en =
     (let s = tdr_search t start; e = tdr_search t en in
      if s = -1 \<and> e = -1 then (0, 0)
      else if s = -1 then (0, e + 1)
      else if e = -1 then (s, int (length (tdr_ranges t)))
      else (s, e + 1))"

definition tdr_sort :: "timeline_data_range \<Rightarrow> timeline_data_range" where
  "tdr_sort t = t\<lparr>tdr_ranges := py_sort ranges_cmp (tdr_ranges t)\<rparr>"

definition tdr_get_bounds :: "timeline_data_range \<Rightarrow> int \<times> int" where
  "tdr_get_bounds t =
     (let rs = tdr_ranges t in
      if length rs > 0 then (dr_start (rs ! 0), dr_end (rs ! (length rs - 1))) else (0, 0))"

section \<open>TimelineEvent\<close>

record timeline_event =
  te_name :: string
  te_events :: "event list"

definition TimelineEvent :: "string \<Rightarrow> timeline_event" where
  "TimelineEvent name = \<lparr>te_name = name, te_events = []\<rparr>"

function te_search_from :: "event list \<Rightarrow> rat \<Rightarrow> int \<Rightarrow> int \<Rightarrow> int" where
  "te_search_from es key l u =
     (if l \<le> u then
        (let i = (l + u) div 2; e = es ! nat i in
         if key = of_int (ev_at e) then i
         else if key < of_int (ev_at e) then te_search_from es key l (i - 1)
         else te_search_from es key (i + 1) u)
      else l)"
  by pat_completeness auto
termination
  by (relation "measure (\<lambda>(es, key, l, u). nat (u - l + 1))") auto

declare te_search_from.simps [simp del]

definition te_search :: "timeline_event \<Rightarrow> rat \<Rightarrow> int" where
  "te_search t key = te_search_from (te_events t) key 0 (int (length (te_events t)) - 1)"

definition add_event :: "timeline_event \<Rightarrow> event \<Rightarrow> timeline_event" where
  "add_event t e = t\<lparr>te_events := te_events t @ [e]\<rparr>"

definition get_events :: "timeline_event \<Rightarrow> rat \<Rightarrow> rat \<Rightarrow> event list" where
  "get_events t start en =
     (let s = te_search t start; e = te_search t en in py_slice (te_events t) s (e + 1))"

definition get_events_bounds :: "timeline_event \<Rightarrow> rat \<Rightarrow> rat \<Rightarrow> int \<times> int" where
  "get_events_bounds t start en =
     (let s = te_search t start; e = te_search t en in (s, e + 1))"

definition te_sort :: "timeline_event \<Rightarrow> timeline_event" where
  "te_sort t = t\<lparr>te_events := py_sort events_cmp (te_events t)\<rparr>"

definition te_get_bounds :: "timeline_event \<Rightarrow> int \<times> int" where
  "te_get_bounds t =
     (let es = te_events t in
      if length es > 0 then (ev_at (es ! 0), ev_at (es ! (length es - 1))) else (0, 0))"

section \<open>Timeline\<close>

record timeline =
  tl_name :: string
  tl_ranges :: "timeline_data_range list"
  tl_event_str :: "timeline_event list"
  tl_event_int :: "timeline_event list"

definition Timeline :: "string \<Rightarrow> timeline" where
  "Timeline name = \<lparr>tl_name = name, tl_ranges = [], tl_event_str = [], tl_event_int = []\<rparr>"

definition get_range :: "timeline \<Rightarrow> string \<Rightarrow> nat \<times> timeline" where
  "get_range t name =
     (case find_name tdr_name name (tl_ranges t) of
        Some i \<Rightarrow> (i, t)
      | None \<Rightarrow> (length (tl_ranges t),
                 t\<lparr>tl_ranges := tl_ranges t @ [TimelineDataRange name]\<rparr>))"

definition get_event_str :: "timeline \<Rightarrow> string \<Rightarrow> nat \<times> timeline" where
  "get_event_str t name =
     (case find_name te_name name (tl_event_str t) of
        Some i \<Rightarrow> (i, t)
      | None \<Rightarrow> (length (tl_event_str t),
                 t\<lparr>tl_event_str := tl_event_str t @ [TimelineEvent name]\<rparr>))"

definition get_event_int :: "timeline \<Rightarrow> string \<Rightarrow> nat \<times> timeline" where
  "get_event_int t name =
     (case find_name te_name name (tl_event_int t) of
        Some i \<Rightarrow> (i, t)
      | None \<Rightarrow> (length (tl_event_int t),
                 t\<lparr>tl_event_int := tl_event_int t @ [TimelineEvent name]\<rparr>))"

definition tl_get_ranges :: "timeline \<Rightarrow> timeline_data_range list" where
  "tl_get_ranges t = tl_ranges t"

definition tl_get_events_str :: "timeline \<Rightarrow> timeline_event list" where
  "tl_get_events_str t = tl_event_str t"

definition tl_get_events_int :: "timeline \<Rightarrow> timeline_event list" where
  "tl_get_events_int t = tl_event_int t"

definition tl_sort :: "timeline \<Rightarrow> timeline" where
  "tl_sort t = t\<lparr>tl_ranges := map tdr_sort (tl_ranges t),
                  tl_event_str := map te_sort (tl_event_str t),
                  tl_event_int := map te_sort (tl_event_int t)\<rparr>"

text \<open>One step of the loops that widen the pair of bounds.\<close>

definition widen :: "int \<times> int \<Rightarrow> int \<times> int \<Rightarrow> int \<times> int" where
  "widen b c =
     (let lo = (if fst c < fst b then fst c else fst b);
          hi = (if snd c > snd b then snd c else snd b) in (lo, hi))"

definition tl_get_bounds :: "timeline \<Rightarrow> int \<times> int" where
  "tl_get_bounds t =
     (let b0 = (0, 0);
          b1 = foldl (\<lambda>b r. widen b (tdr_get_bounds r)) b0 (tl_ranges t);
          b2 = foldl (\<lambda>b e. widen b (te_get_bounds e)) b1 (tl_event_str t);
          b3 = foldl (\<lambda>b e. widen b (te_get_bounds e)) b2 (tl_event_int t)
      in b3)"

section \<open>Timelines\<close>

type_synonym timelines = "timeline list"

definition timelines_get :: "timelines \<Rightarrow> string \<Rightarrow> nat \<times> timelines" where
  "timelines_get ts name =
     (case find_name tl_name name ts of
        Some i \<Rightarrow> (i, ts)
      | None \<Rightarrow> (length ts, ts @ [Timeline name]))"

definition timelines_get_all :: "timelines \<Rightarrow> timeline list" where
  "timelines_get_all ts = ts"

definition timelines_sort :: "timelines \<Rightarrow> timelines" where
  "timelines_sort ts = map tl_sort ts"

definition timelines_get_bounds :: "timelines \<Rightarrow> int \<times> int" where
  "timelines_get_bounds ts = foldl (\<lambda>b t. widen b (tl_get_bounds t)) (0, 0) ts"

text \<open>The keys of the dictionary \<open>range_values\<close>, in insertion order.\<close>

definition get_all_range_values :: "timelines \<Rightarrow> string list" where
  "get_all_range_values ts =
     dict_keys (foldl (\<lambda>d r. dict_set (dr_value r) (1::int) d) []
       (concat (map (\<lambda>t. concat (map get_all (tl_get_ranges t))) ts)))"

section \<open>Colors\<close>

record color =
  col_r :: pynum
  col_g :: pynum
  col_b :: pynum

definition Color :: "pynum \<Rightarrow> pynum \<Rightarrow> pynum \<Rightarrow> color" where
  "Color r g b = \<lparr>col_r = r, col_g = g, col_b = b\<rparr>"

definition color_set :: "color \<Rightarrow> pynum \<Rightarrow> pynum \<Rightarrow> pynum \<Rightarrow> color" where
  "color_set c r g b = c\<lparr>col_r := r, col_g := g, col_b := b\<rparr>"

text \<open>
  \<open>default_colors\<close> is an attribute of the class, shared by all its objects; \<open>pop\<close> takes from
  its end. The state of the colour table is the object's dictionary with that list.
\<close>

record colors =
  cs_colors :: "(string, color) dict"
  cs_default :: "color list"

definition rgb :: "int \<Rightarrow> int \<Rightarrow> int \<Rightarrow> color" where
  "rgb r g b = Color (PInt r) (PInt g) (PInt b)"

definition default_colors :: "color list" where
  "default_colors = [rgb 1 0 0, rgb 0 1 0, rgb 0 0 1, rgb 1 1 0, rgb 1 0 1, rgb 0 1 1]"

definition Colors :: colors where
  "Colors = \<lparr>cs_colors = [], cs_default = default_colors\<rparr>"

definition colors_add :: "colors \<Rightarrow> string \<Rightarrow> color \<Rightarrow> colors" where
  "colors_add cs name c = cs\<lparr>cs_colors := dict_set name c (cs_colors cs)\<rparr>"

definition colors_lookup :: "colors \<Rightarrow> string \<Rightarrow> (color option \<times> colors) pyres" where
  "colors_lookup cs name =
     (if \<not> dict_has (cs_colors cs) name
      then rbind (py_pop (cs_default cs)) (\<lambda>(c, rest).
             (let cs' = colors_add (cs\<lparr>cs_default := rest\<rparr>) name c
              in Inr (map_of (cs_colors cs') name, cs')))
      else Inr (map_of (cs_colors cs) name, cs))"

section \<open>Sorting\<close>

lemma ranges_cmp_key: "ranges_cmp a b \<le> 0 \<longleftrightarrow> dr_start a \<le> dr_start b"
  by (auto simp: ranges_cmp_def Let_def)

lemma events_cmp_key: "events_cmp a b \<le> 0 \<longleftrightarrow> ev_at a \<le> ev_at b"
  by (auto simp: events_cmp_def Let_def)

lemma tdr_sort_eq [grid_simps]: "tdr_ranges (tdr_sort t) = sort_key dr_start (tdr_ranges t)"
  by (simp add: tdr_sort_def py_sort_key [of ranges_cmp dr_start, OF ranges_cmp_key])

lemma te_sort_eq [grid_simps]: "te_events (te_sort t) = sort_key ev_at (te_events t)"
  by (simp add: te_sort_def py_sort_key [of events_cmp ev_at, OF events_cmp_key])

lemma sort_names [grid_simps]:
  "tdr_name (tdr_sort r) = tdr_name r" "te_name (te_sort e) = te_name e"
  "tl_name (tl_sort t) = tl_name t"
  by (simp_all add: tdr_sort_def te_sort_def tl_sort_def)

section \<open>Search\<close>

definition contains :: "data_range \<Rightarrow> rat \<Rightarrow> bool" where
  "contains r key \<longleftrightarrow> of_int (dr_start r) \<le> key \<and> key \<le> of_int (dr_end r)"

definition overlaps :: "rat \<Rightarrow> rat \<Rightarrow> data_range \<Rightarrow> bool" where
  "overlaps start en r \<longleftrightarrow> of_int (dr_start r) \<le> en \<and> start \<le> of_int (dr_end r)"

text \<open>What the search relies on: ranges that run forward, in order, without overlap.\<close>

definition ranges_ok :: "data_range list \<Rightarrow> bool" where
  "ranges_ok rs \<longleftrightarrow> (\<forall>r \<in> set rs. dr_start r \<le> dr_end r) \<and>
     sorted_wrt (\<lambda>a b. dr_end a < dr_start b) rs"

definition range_probe :: "rat \<Rightarrow> data_range \<Rightarrow> int" where
  "range_probe key r =
     (if key < of_int (dr_start r) then -1 else if key > of_int (dr_end r) then 1 else 0)"

definition event_probe :: "rat \<Rightarrow> event \<Rightarrow> int" where
  "event_probe key e =
     (if key < of_int (ev_at e) then -1 else if key > of_int (ev_at e) then 1 else 0)"

definition events_ok :: "event list \<Rightarrow> bool" where
  "events_ok es \<longleftrightarrow> sorted (map ev_at es)"

lemma ranges_ok_nth:
  assumes "ranges_ok rs" "i < j" "j < length rs"
  shows "dr_start (rs ! i) \<le> dr_end (rs ! i)" "dr_end (rs ! i) < dr_start (rs ! j)"
    "dr_start (rs ! j) \<le> dr_end (rs ! j)"
  using assms by (auto simp: ranges_ok_def sorted_wrt_iff_nth_less)

lemma ranges_ok_rat:
  assumes "ranges_ok rs" "i < j" "j < length rs"
  shows "rat_of_int (dr_start (rs ! i)) \<le> of_int (dr_end (rs ! i))"
    "rat_of_int (dr_end (rs ! i)) < of_int (dr_start (rs ! j))"
    "rat_of_int (dr_start (rs ! j)) \<le> of_int (dr_end (rs ! j))"
  using ranges_ok_nth [OF assms] by simp_all

interpretation tdr: binary_search range_probe tdr_search_from "\<lambda>l. -1" ranges_ok
proof unfold_locales
  fix rs :: "data_range list" and key :: rat and l u :: int
  show "tdr_search_from rs key l u =
      (if l \<le> u then let i = (l + u) div 2; c = range_probe key (rs ! nat i) in
         if c = 0 then i else if c < 0 then tdr_search_from rs key l (i - 1)
         else tdr_search_from rs key (i + 1) u
       else - 1)"
    by (subst tdr_search_from.simps) (auto simp: range_probe_def Let_def)
next
  fix rs i j and key :: rat
  assume ok: "ranges_ok rs" "i < j" "j < length rs"
  show "range_probe key (rs ! i) < 0 \<Longrightarrow> range_probe key (rs ! j) < 0"
    using ranges_ok_rat [OF ok] by (auto simp: range_probe_def split: if_splits)
  show "0 < range_probe key (rs ! j) \<Longrightarrow> 0 < range_probe key (rs ! i)"
    using ranges_ok_rat [OF ok] by (auto simp: range_probe_def split: if_splits)
qed

interpretation te: binary_search event_probe te_search_from "\<lambda>l. l" events_ok
proof unfold_locales
  fix es :: "event list" and key :: rat and l u :: int
  show "te_search_from es key l u =
      (if l \<le> u then let i = (l + u) div 2; c = event_probe key (es ! nat i) in
         if c = 0 then i else if c < 0 then te_search_from es key l (i - 1)
         else te_search_from es key (i + 1) u
       else l)"
    by (subst te_search_from.simps) (auto simp: event_probe_def Let_def)
next
  fix es i j and key :: rat
  assume "events_ok es" "i < j" "j < length es"
  then have "(of_int (ev_at (es ! i)) :: rat) \<le> of_int (ev_at (es ! j))"
    by (auto simp: events_ok_def sorted_iff_nth_mono)
  then show "event_probe key (es ! i) < 0 \<Longrightarrow> event_probe key (es ! j) < 0"
    and "0 < event_probe key (es ! j) \<Longrightarrow> 0 < event_probe key (es ! i)"
    by (auto simp: event_probe_def split: if_splits)
qed

lemma range_probe_zero [grid_simps]: "range_probe k r = 0 \<longleftrightarrow> contains r k"
  by (auto simp: range_probe_def contains_def)

lemma event_probe_zero [grid_simps]: "event_probe k e = 0 \<longleftrightarrow> of_int (ev_at e) = k"
  by (auto simp: event_probe_def)

lemma tdr_search_hit_or_miss:
  assumes "ranges_ok (tdr_ranges t)"
  shows "(\<exists>i < length (tdr_ranges t). tdr_search t key = int i \<and> contains (tdr_ranges t ! i) key)
     \<or> tdr_search t key = -1 \<and> (\<forall>r \<in> set (tdr_ranges t). \<not> contains r key)"
  using tdr.search_hit [OF assms, where k = key] tdr.search_miss [OF assms, where k = key]
  by (auto simp: tdr_search_def grid_simps)

text \<open>
  C16: on ranges in order, the binary search of a data timeline returns the position of a range
  that contains the key when there is one, and -1 exactly when there is none; it never reads
  outside the list.
\<close>

theorem tdr_search_correct:
  assumes "ranges_ok (tdr_ranges t)"
  shows "if \<exists>r \<in> set (tdr_ranges t). contains r key
         then \<exists>i < length (tdr_ranges t). tdr_search t key = int i \<and> contains (tdr_ranges t ! i) key
         else tdr_search t key = -1"
  using tdr_search_hit_or_miss [OF assms, of key] by auto

definition example_ranges :: timeline_data_range where
  "example_ranges = \<lparr>tdr_name = ''r'',
     tdr_ranges = [DataRange 10 20 ''a'', DataRange 30 40 ''b'', DataRange 50 60 ''c'']\<rparr>"

lemma example_ranges_ok: "ranges_ok (tdr_ranges example_ranges)"
  by (simp add: example_ranges_def ranges_ok_def DataRange_def)

theorem tdr_search_correct_witness:
  "if \<exists>r \<in> set (tdr_ranges example_ranges). contains r 35
   then \<exists>i < length (tdr_ranges example_ranges).
          tdr_search example_ranges 35 = int i \<and> contains (tdr_ranges example_ranges ! i) 35
   else tdr_search example_ranges 35 = -1"
  using tdr_search_correct [OF example_ranges_ok, of 35] .

text \<open>The two outcomes of a search, for the proofs below.\<close>

lemma tdr_search_cases:
  assumes "ranges_ok (tdr_ranges t)"
  obtains (hit) i where "i < length (tdr_ranges t)" "tdr_search t key = int i"
      "contains (tdr_ranges t ! i) key"
    | (miss) "tdr_search t key = -1" "\<And>r. r \<in> set (tdr_ranges t) \<Longrightarrow> \<not> contains r key"
  using tdr_search_hit_or_miss [OF assms] by blast


lemma overlap_between:
  assumes ok: "ranges_ok rs" and "start \<le> en"
    and i: "i < length rs" "contains (rs ! i) start" and k: "k < length rs"
  shows "overlaps start en (rs ! k) \<longleftrightarrow> i \<le> k \<and> of_int (dr_start (rs ! k)) \<le> en"
proof -
  consider "k < i" | "k = i" | "i < k" by linarith
  then show ?thesis
  proof cases
    case 1
    then show ?thesis
      using ranges_ok_rat [OF ok 1 i(1)] i(2) by (auto simp: overlaps_def contains_def)
  next
    case 2
    then show ?thesis using i(2) by (auto simp: overlaps_def contains_def)
  next
    case 3
    then show ?thesis
      using ranges_ok_rat [OF ok 3 k] i(2) by (auto simp: overlaps_def contains_def)
  qed
qed

lemma starts_before:
  assumes ok: "ranges_ok rs" and j: "j < length rs" "contains (rs ! j) en" and k: "k < length rs"
  shows "of_int (dr_start (rs ! k)) \<le> en \<longleftrightarrow> k \<le> j"
proof -
  consider "k < j" | "k = j" | "j < k" by linarith
  then show ?thesis
  proof cases
    case 1
    then show ?thesis using ranges_ok_rat [OF ok 1 j(1)] j(2) by (auto simp: contains_def)
  next
    case 2
    then show ?thesis using j(2) by (auto simp: contains_def)
  next
    case 3
    then show ?thesis using ranges_ok_rat [OF ok 3 k] j(2) by (auto simp: contains_def)
  qed
qed

lemma search_hit_index:
  assumes "ranges_ok (tdr_ranges t)" "\<exists>r \<in> set (tdr_ranges t). contains r key"
  obtains i where "i < length (tdr_ranges t)" "tdr_search t key = int i"
    "contains (tdr_ranges t ! i) key"
  using tdr_search_hit_or_miss [OF assms(1), of key] assms(2) by blast

text \<open>
  When both ends of the window lie in ranges, \<open>get_ranges\<close> returns exactly the ranges
  that overlap the window, in order.
\<close>

theorem get_ranges_exact:
  assumes ok: "ranges_ok (tdr_ranges t)" and "start \<le> en"
    and "\<exists>r \<in> set (tdr_ranges t). contains r start"
    and "\<exists>r \<in> set (tdr_ranges t). contains r en"
  shows "get_ranges t start en = filter (overlaps start en) (tdr_ranges t)"
proof -
  let ?rs = "tdr_ranges t"
  obtain i where i: "i < length ?rs" "tdr_search t start = int i" "contains (?rs ! i) start"
    using search_hit_index [OF ok assms(3)] .
  obtain j where j: "j < length ?rs" "tdr_search t en = int j" "contains (?rs ! j) en"
    using search_hit_index [OF ok assms(4)] .
  have "filter (overlaps start en) ?rs = take (Suc j - i) (drop i ?rs)"
  proof (rule filter_eq_segment)
    fix k assume k: "k < length ?rs"
    show "overlaps start en (?rs ! k) \<longleftrightarrow> i \<le> k \<and> k < Suc j"
      using overlap_between [OF ok assms(2) i(1,3) k] starts_before [OF ok j(1,3) k] by auto
  qed
  moreover have "get_ranges t start en = take (Suc j - i) (drop i ?rs)"
    using i(2) j(2) by (simp add: get_ranges_def py_slice_nonneg nat_add_distrib)
  ultimately show ?thesis by simp
qed

theorem get_ranges_exact_witness:
  "get_ranges example_ranges 15 35 = filter (overlaps 15 35) (tdr_ranges example_ranges)"
  by (rule get_ranges_exact [OF example_ranges_ok])
    (simp_all add: example_ranges_def contains_def DataRange_def)

text \<open>
  The window of positions that \<open>get_ranges_bounds\<close> returns, and what lies outside it.
\<close>

lemma get_ranges_slice:
  "get_ranges t start en =
     py_slice (tdr_ranges t) (fst (get_ranges_bounds t start en)) (snd (get_ranges_bounds t start en))"
  by (auto simp: get_ranges_def get_ranges_bounds_def Let_def py_slice_nonneg)

lemma bounds_window:
  assumes ok: "ranges_ok (tdr_ranges t)" and le: "start \<le> en"
    and "(\<exists>r \<in> set (tdr_ranges t). contains r start) \<or> (\<exists>r \<in> set (tdr_ranges t). contains r en)"
  shows "\<exists>i j. get_ranges_bounds t start en = (int i, int j) \<and> j \<le> length (tdr_ranges t) \<and>
     (\<forall>k < length (tdr_ranges t). overlaps start en (tdr_ranges t ! k) \<longrightarrow> i \<le> k \<and> k < j)"
proof -
  let ?rs = "tdr_ranges t"
  consider (both) i j where "i < length ?rs" "tdr_search t start = int i" "contains (?rs ! i) start"
      "j < length ?rs" "tdr_search t en = int j" "contains (?rs ! j) en"
    | (first) i where "i < length ?rs" "tdr_search t start = int i" "contains (?rs ! i) start"
      "tdr_search t en = -1"
    | (second) j where "tdr_search t start = -1"
      "j < length ?rs" "tdr_search t en = int j" "contains (?rs ! j) en"
    using assms(3) tdr_search_hit_or_miss [OF ok, of start] tdr_search_hit_or_miss [OF ok, of en]
    by fastforce
  then show ?thesis
  proof cases
    case both
    then have "get_ranges_bounds t start en = (int i, int (Suc j))"
      by (simp add: get_ranges_bounds_def)
    then show ?thesis
      using both overlap_between [OF ok le both(1,3)] starts_before [OF ok both(4,6)]
      by (intro exI [of _ i] exI [of _ "Suc j"]) auto
  next
    case first
    then have "get_ranges_bounds t start en = (int i, int (length ?rs))"
      by (simp add: get_ranges_bounds_def)
    then show ?thesis
      using overlap_between [OF ok le first(1,3)] by (intro exI [of _ i] exI [of _ "length ?rs"]) auto
  next
    case second
    then have "get_ranges_bounds t start en = (int 0, int (Suc j))"
      by (simp add: get_ranges_bounds_def)
    then show ?thesis
      using second starts_before [OF ok second(2,4)]
      by (intro exI [of _ 0] exI [of _ "Suc j"]) (auto simp: overlaps_def)
  qed
qed

text \<open>
  As long as one end of the window lies in a range, no range that overlaps the window is
  lost: the overlapping ranges of the answer are those of the whole timeline, in order.
\<close>

theorem get_ranges_complete:
  assumes "ranges_ok (tdr_ranges t)" "start \<le> en"
    and "(\<exists>r \<in> set (tdr_ranges t). contains r start) \<or> (\<exists>r \<in> set (tdr_ranges t). contains r en)"
  shows "filter (overlaps start en) (get_ranges t start en) =
         filter (overlaps start en) (tdr_ranges t)"
proof -
  obtain i j where b: "get_ranges_bounds t start en = (int i, int j)"
    and out: "\<forall>k < length (tdr_ranges t).
        overlaps start en (tdr_ranges t ! k) \<longrightarrow> i \<le> k \<and> k < j"
    using bounds_window [OF assms] by blast
  then show ?thesis
    by (simp add: get_ranges_slice py_slice_nonneg filter_segment_absorb)
qed

theorem get_ranges_complete_witness:
  "filter (overlaps 5 35) (get_ranges example_ranges 5 35) =
   filter (overlaps 5 35) (tdr_ranges example_ranges)"
  by (rule get_ranges_complete [OF example_ranges_ok])
    (simp_all add: example_ranges_def contains_def DataRange_def)

text \<open>
  When both ends of the window lie between ranges, \<open>get_ranges\<close> returns nothing, whatever
  lies inside the window.
\<close>

theorem get_ranges_gap:
  assumes "ranges_ok (tdr_ranges t)"
    and "\<forall>r \<in> set (tdr_ranges t). \<not> contains r start \<and> \<not> contains r en"
  shows "get_ranges t start en = [] \<and> get_ranges_bounds t start en = (0, 0)"
  using assms tdr_search_hit_or_miss [OF assms(1), of start]
    tdr_search_hit_or_miss [OF assms(1), of en]
  by (auto simp: get_ranges_def get_ranges_bounds_def)

theorem get_ranges_gap_witness:
  "get_ranges example_ranges 5 45 = [] \<and> get_ranges_bounds example_ranges 5 45 = (0, 0) \<and>
   filter (overlaps 5 45) (tdr_ranges example_ranges) = [DataRange 10 20 ''a'', DataRange 30 40 ''b'']"
  using get_ranges_gap [OF example_ranges_ok, of 5 45]
  by (simp add: example_ranges_def contains_def overlaps_def DataRange_def)

section \<open>Events\<close>

lemma te_search_hit_or_miss:
  assumes "events_ok (te_events t)"
  shows "(\<exists>i < length (te_events t). te_search t key = int i \<and> of_int (ev_at (te_events t ! i)) = key) \<or>
    (\<exists>m \<le> length (te_events t). te_search t key = int m \<and>
       (\<forall>i < length (te_events t). of_int (ev_at (te_events t ! i)) \<noteq> key \<and>
          (i < m \<longleftrightarrow> of_int (ev_at (te_events t ! i)) < key)))"
  using assms
proof (cases rule: te.search_cases [where k = key])
  case (hit i)
  then show ?thesis by (auto simp: te_search_def grid_simps)
next
  case (miss m)
  have "of_int (ev_at (te_events t ! i)) \<noteq> key \<and> (i < m \<longleftrightarrow> of_int (ev_at (te_events t ! i)) < key)"
    if "i < length (te_events t)" for i
    using miss(2) [of i] miss(3) [of i] that
    by (cases "i < m") (auto simp: event_probe_def split: if_splits)
  with miss show ?thesis by (intro disjI2 exI [of _ m]) (auto simp: te_search_def)
qed

text \<open>
  On events with distinct increasing times, \<open>get_events\<close> returns the events of the window
  followed, when no event falls on the end of the window, by the next event after it.
\<close>

theorem get_events_window:
  assumes strict: "sorted_wrt (<) (map ev_at (te_events t))" and le: "start \<le> en"
  shows "get_events t start en =
    filter (\<lambda>e. start \<le> of_int (ev_at e) \<and> of_int (ev_at e) \<le> en) (te_events t) @
    (if \<exists>e \<in> set (te_events t). of_int (ev_at e) = en then []
     else take 1 (filter (\<lambda>e. of_int (ev_at e) > en) (te_events t)))"
proof -
  let ?es = "te_events t" and ?at = "\<lambda>i. rat_of_int (ev_at (te_events t ! i))"
  have ok: "events_ok ?es"
    using strict by (simp add: events_ok_def strict_sorted_imp_sorted)
  have mono: "i < j \<Longrightarrow> j < length ?es \<Longrightarrow> ?at i < ?at j" for i j
    using strict by (simp add: sorted_wrt_iff_nth_less)
  obtain i where i: "te_search t start = int i" "i \<le> length ?es"
    and lower: "\<And>k. k < length ?es \<Longrightarrow> start \<le> ?at k \<longleftrightarrow> i \<le> k"
  proof -
    from te_search_hit_or_miss [OF ok, of start] consider
        (hit) i where "i < length ?es" "te_search t start = int i" "?at i = start"
      | (miss) m where "m \<le> length ?es" "te_search t start = int m"
          "\<And>k. k < length ?es \<Longrightarrow> ?at k \<noteq> start \<and> (k < m \<longleftrightarrow> ?at k < start)"
      by blast
    then show ?thesis
    proof cases
      case (hit i)
      have "start \<le> ?at k \<longleftrightarrow> i \<le> k" if "k < length ?es" for k
        using mono [of i k] mono [of k i] hit that by (cases k i rule: linorder_cases) auto
      with hit show ?thesis by (intro that [of i]) auto
    next
      case (miss m)
      then show ?thesis by (intro that [of m]) (auto simp: not_less [symmetric])
    qed
  qed
  have slice: "get_events t start en = take (Suc j - i) (drop i ?es)" if "te_search t en = int j" for j
    using i(1) that by (simp add: get_events_def py_slice_nonneg nat_add_distrib)
  from te_search_hit_or_miss [OF ok, of en] consider
      (hit) j where "j < length ?es" "te_search t en = int j" "?at j = en"
    | (miss) m where "m \<le> length ?es" "te_search t en = int m"
        "\<And>k. k < length ?es \<Longrightarrow> ?at k \<noteq> en \<and> (k < m \<longleftrightarrow> ?at k < en)"
    by blast
  then show ?thesis
  proof cases
    case (hit j)
    have "?at k \<le> en \<longleftrightarrow> k < Suc j" if "k < length ?es" for k
      using mono [of j k] mono [of k j] hit that by (cases k j rule: linorder_cases) auto
    then have "filter (\<lambda>e. start \<le> of_int (ev_at e) \<and> of_int (ev_at e) \<le> en) ?es =
        take (Suc j - i) (drop i ?es)"
      using lower by (intro filter_eq_segment) auto
    moreover have "\<exists>e \<in> set ?es. of_int (ev_at e) = en" using hit nth_mem by blast
    ultimately show ?thesis using slice [OF hit(2)] by simp
  next
    case (miss m)
    have upper: "?at k \<le> en \<longleftrightarrow> k < m" if "k < length ?es" for k
      using miss(3) [OF that] by auto
    have inside: "filter (\<lambda>e. start \<le> of_int (ev_at e) \<and> of_int (ev_at e) \<le> en) ?es =
        take (m - i) (drop i ?es)"
      using lower upper by (intro filter_eq_segment) auto
    have after: "filter (\<lambda>e. of_int (ev_at e) > en) ?es = drop m ?es"
      using filter_eq_segment [of ?es "\<lambda>e. of_int (ev_at e) > en" m "length ?es"] upper
      by (auto simp: not_le [symmetric])
    have none: "\<not> (\<exists>e \<in> set ?es. of_int (ev_at e) = en)"
      using miss(3) by (metis in_set_conv_nth)
    have "i \<le> m"
    proof (rule ccontr)
      assume "\<not> i \<le> m"
      then have m: "m < i" "m < length ?es" using i(2) by auto
      then have "?at m < start" using lower [of m] by auto
      moreover have "en < ?at m" using upper [of m] m(2) by auto
      ultimately show False using le by simp
    qed
    then have "take (Suc m - i) (drop i ?es) = take (m - i) (drop i ?es) @ take 1 (drop m ?es)"
      using take_add [of "m - i" 1 "drop i ?es"] by (simp add: Suc_diff_le)
    with slice [OF miss(2)] none inside after show ?thesis by simp
  qed
qed

definition example_events :: timeline_event where
  "example_events = \<lparr>te_name = ''e'',
     te_events = [EventInt 5 1, EventInt 15 2, EventInt 25 3, EventInt 35 4]\<rparr>"

theorem get_events_window_witness:
  "get_events example_events 10 20 = [EventInt 15 2, EventInt 25 3]"
  using get_events_window [of example_events 10 20]
  by (simp add: example_events_def EventInt_def)

text \<open>
  With several events at one time the search stops at any of them, so the others can be left
  out of the window.
\<close>

lemma get_events_duplicates:
  "get_events \<lparr>te_name = ''e'', te_events = [EventInt 5 1, EventInt 5 2, EventInt 5 3]\<rparr> 5 5 =
     [EventInt 5 2]"
  by (simp add: get_events_def te_search_def te_search_from.simps py_slice_def py_clamp_def
      EventInt_def)

section \<open>Named lookups\<close>

interpretation timelines_list: named_list tl_name Timeline "\<lambda>ts. ts" timelines_get
  by unfold_locales (auto simp: timelines_get_def Timeline_def)

interpretation ranges_list: named_list tdr_name TimelineDataRange tl_ranges get_range
  by unfold_locales (auto simp: get_range_def TimelineDataRange_def)

interpretation events_str_list: named_list te_name TimelineEvent tl_event_str get_event_str
  by unfold_locales (auto simp: get_event_str_def TimelineEvent_def)

interpretation events_int_list: named_list te_name TimelineEvent tl_event_int get_event_int
  by unfold_locales (auto simp: get_event_int_def TimelineEvent_def)

text \<open>
  C21: \<open>Timelines.get\<close> returns the position of a timeline of the asked name, keeps names
  unique, changes no existing timeline, and a second call finds the same one.
\<close>

theorem timelines_get_spec:
  assumes "distinct (map tl_name ts)" and "timelines_get ts name = (i, ts')"
  shows "i < length ts' \<and> tl_name (ts' ! i) = name \<and> distinct (map tl_name ts') \<and>
    (\<forall>n. entry tl_name Timeline ts' n = entry tl_name Timeline ts n) \<and>
    timelines_get ts' name = (i, ts')"
  using timelines_list.lookup_index [of ts name] timelines_list.lookup_distinct [OF assms(1), of name]
    timelines_list.lookup_entry [of ts name] timelines_list.lookup_again [of ts name] assms(2)
  by simp

theorem timelines_get_spec_witness:
  "timelines_get [Timeline ''a''] ''b'' = (1, [Timeline ''a'', Timeline ''b'']) \<and>
   tl_name ([Timeline ''a'', Timeline ''b''] ! 1) = ''b''"
  using timelines_get_spec [of "[Timeline ''a'']" "''b''" 1 "[Timeline ''a'', Timeline ''b'']"]
  by (simp add: timelines_get_def Timeline_def)

section \<open>Bounds\<close>

definition timeline_times :: "timeline \<Rightarrow> int set" where
  "timeline_times t =
     (\<Union>r \<in> set (tl_ranges t). dr_start ` set (tdr_ranges r)) \<union>
     (\<Union>e \<in> set (tl_event_str t) \<union> set (tl_event_int t). ev_at ` set (te_events e))"

definition timelines_times :: "timelines \<Rightarrow> int set" where
  "timelines_times ts = (\<Union>t \<in> set ts. timeline_times t)"

text \<open>A timeline that has been sorted and whose ranges run forward.\<close>

definition timeline_ok :: "timeline \<Rightarrow> bool" where
  "timeline_ok t \<longleftrightarrow>
     (\<forall>r \<in> set (tl_ranges t). sorted (map dr_start (tdr_ranges r)) \<and>
        (\<forall>d \<in> set (tdr_ranges r). dr_start d \<le> dr_end d)) \<and>
     (\<forall>e \<in> set (tl_event_str t) \<union> set (tl_event_int t). sorted (map ev_at (te_events e)))"

lemma widen_mono: "fst (widen b c) \<le> fst b" "snd b \<le> snd (widen b c)"
    "fst (widen b c) \<le> fst c" "snd c \<le> snd (widen b c)"
  by (auto simp: widen_def Let_def)

lemma foldl_widen:
  "fst (foldl (\<lambda>b x. widen b (f x)) b xs) \<le> fst b \<and> snd b \<le> snd (foldl (\<lambda>b x. widen b (f x)) b xs) \<and>
   (\<forall>x \<in> set xs. fst (foldl (\<lambda>b x. widen b (f x)) b xs) \<le> fst (f x) \<and>
      snd (f x) \<le> snd (foldl (\<lambda>b x. widen b (f x)) b xs))"
proof (induction xs arbitrary: b)
  case Nil
  then show ?case by simp
next
  case (Cons x xs)
  then show ?case
    using widen_mono [where b = b and c = "f x"] Cons.IH [of "widen b (f x)"] by force
qed

lemma sorted_ends: "sorted xs \<Longrightarrow> x \<in> set xs \<Longrightarrow> xs ! 0 \<le> x \<and> x \<le> xs ! (length xs - 1)"
  by (auto simp: in_set_conv_nth sorted_iff_nth_mono)

lemma tdr_get_bounds_enclose:
  assumes "sorted (map dr_start (tdr_ranges r))" "\<forall>d \<in> set (tdr_ranges r). dr_start d \<le> dr_end d"
    and "d \<in> set (tdr_ranges r)"
  shows "fst (tdr_get_bounds r) \<le> dr_start d" "dr_start d \<le> snd (tdr_get_bounds r)"
proof -
  let ?rs = "tdr_ranges r"
  have ne: "?rs \<noteq> []" using assms(3) by auto
  then have last: "?rs ! (length ?rs - 1) \<in> set ?rs" by (simp add: nth_mem)
  have "dr_start (?rs ! 0) \<le> dr_start d \<and> dr_start d \<le> dr_start (?rs ! (length ?rs - 1))"
    using sorted_ends [OF assms(1), of "dr_start d"] assms(3) ne by auto
  then show "fst (tdr_get_bounds r) \<le> dr_start d" "dr_start d \<le> snd (tdr_get_bounds r)"
    using ne last assms(2) by (auto simp: tdr_get_bounds_def Let_def intro: order_trans)
qed

lemma te_get_bounds_enclose:
  assumes "sorted (map ev_at (te_events t))" "e \<in> set (te_events t)"
  shows "fst (te_get_bounds t) \<le> ev_at e" "ev_at e \<le> snd (te_get_bounds t)"
proof -
  have ne: "te_events t \<noteq> []" using assms(2) by auto
  with sorted_ends [OF assms(1), of "ev_at e"] assms(2)
  show "fst (te_get_bounds t) \<le> ev_at e" "ev_at e \<le> snd (te_get_bounds t)"
    by (auto simp: te_get_bounds_def Let_def)
qed

lemma tl_get_bounds_enclose:
  assumes ok: "timeline_ok t" and x: "x \<in> timeline_times t"
  shows "fst (tl_get_bounds t) \<le> x \<and> x \<le> snd (tl_get_bounds t)"
proof -
  define b1 where "b1 = foldl (\<lambda>b r. widen b (tdr_get_bounds r)) (0, 0) (tl_ranges t)"
  define b2 where "b2 = foldl (\<lambda>b e. widen b (te_get_bounds e)) b1 (tl_event_str t)"
  have b: "tl_get_bounds t = foldl (\<lambda>b e. widen b (te_get_bounds e)) b2 (tl_event_int t)"
    by (simp add: tl_get_bounds_def b1_def b2_def)
  note w1 = foldl_widen [of tdr_get_bounds "(0, 0)" "tl_ranges t", folded b1_def]
    and w2 = foldl_widen [of te_get_bounds b1 "tl_event_str t", folded b2_def]
    and w3 = foldl_widen [of te_get_bounds b2 "tl_event_int t", folded b]
  from x consider (range) r d where "r \<in> set (tl_ranges t)" "d \<in> set (tdr_ranges r)" "x = dr_start d"
    | (str) e v where "e \<in> set (tl_event_str t)" "v \<in> set (te_events e)" "x = ev_at v"
    | (int) e v where "e \<in> set (tl_event_int t)" "v \<in> set (te_events e)" "x = ev_at v"
    by (auto simp: timeline_times_def)
  then show ?thesis
  proof cases
    case range
    then show ?thesis
      using w1 w2 w3 ok tdr_get_bounds_enclose [of r d] by (force simp: timeline_ok_def)
  next
    case str
    then show ?thesis
      using w2 w3 ok te_get_bounds_enclose [of e v] by (force simp: timeline_ok_def)
  next
    case int
    then show ?thesis
      using w3 ok te_get_bounds_enclose [of e v] by (force simp: timeline_ok_def)
  qed
qed

text \<open>
  The bounds computed over all timelines enclose zero and the start of every range and the
  time of every event, once the timelines are sorted.
\<close>

theorem timelines_get_bounds_enclose:
  assumes "\<forall>t \<in> set ts. timeline_ok t"
  shows "fst (timelines_get_bounds ts) \<le> 0 \<and> 0 \<le> snd (timelines_get_bounds ts) \<and>
    (\<forall>x \<in> timelines_times ts.
       fst (timelines_get_bounds ts) \<le> x \<and> x \<le> snd (timelines_get_bounds ts))"
  using foldl_widen [of tl_get_bounds "(0, 0)" ts] assms tl_get_bounds_enclose
  unfolding timelines_get_bounds_def timelines_times_def by (fastforce intro: order_trans)

definition example_timelines :: timelines where
  "example_timelines =
     [\<lparr>tl_name = ''node'', tl_ranges = [example_ranges], tl_event_str = [],
       tl_event_int = [example_events]\<rparr>]"

theorem timelines_get_bounds_enclose_witness:
  "timelines_get_bounds example_timelines = (0, 60) \<and> 50 \<in> timelines_times example_timelines \<and>
   fst (timelines_get_bounds example_timelines) \<le> 50 \<and> 50 \<le> snd (timelines_get_bounds example_timelines)"
proof -
  have "\<forall>t \<in> set example_timelines. timeline_ok t"
    by (simp add: example_timelines_def timeline_ok_def example_ranges_def example_events_def
        DataRange_def EventInt_def)
  moreover have "50 \<in> timelines_times example_timelines"
    by (simp add: example_timelines_def timelines_times_def timeline_times_def example_ranges_def
        DataRange_def)
  ultimately show ?thesis
    using timelines_get_bounds_enclose [of example_timelines]
    by (simp add: example_timelines_def timelines_get_bounds_def tl_get_bounds_def widen_def
        tdr_get_bounds_def te_get_bounds_def example_ranges_def example_events_def DataRange_def
        EventInt_def)
qed

section \<open>Colours\<close>

text \<open>Looking up a list of names one after the other, as the main program does.\<close>

definition lookup_all :: "colors \<Rightarrow> string list \<Rightarrow> (color option list \<times> colors) pyres" where
  "lookup_all cs names =
     rfold (\<lambda>(acc, cs) n. rmap (\<lambda>(c, cs'). (acc @ [c], cs')) (colors_lookup cs n)) ([], cs) names"

lemma colors_lookup_known:
  "map_of (cs_colors cs) n = Some c \<Longrightarrow> colors_lookup cs n = Inr (Some c, cs)"
  by (simp add: colors_lookup_def dict_has_iff)

lemma colors_lookup_new:
  "map_of (cs_colors cs) n = None \<Longrightarrow> cs_default cs \<noteq> [] \<Longrightarrow>
     colors_lookup cs n =
       Inr (Some (last (cs_default cs)),
            \<lparr>cs_colors = dict_set n (last (cs_default cs)) (cs_colors cs),
             cs_default = butlast (cs_default cs)\<rparr>)"
  by (simp add: colors_lookup_def dict_has_iff py_pop_def colors_add_def)

lemma colors_lookup_exhausted:
  "map_of (cs_colors cs) n = None \<Longrightarrow> cs_default cs = [] \<Longrightarrow> colors_lookup cs n = Inl IndexError"
  by (simp add: colors_lookup_def dict_has_iff py_pop_def)

text \<open>
  A colour lookup is stable and frames the table: a name keeps the colour it was given,
  other names keep theirs, and a new name takes the last colour left.
\<close>

lemma colors_lookup_stable:
  assumes "colors_lookup cs n = Inr (c, cs')"
  shows "c = map_of (cs_colors cs') n \<and> c \<noteq> None \<and> colors_lookup cs' n = Inr (c, cs') \<and>
    (\<forall>m. m \<noteq> n \<longrightarrow> map_of (cs_colors cs') m = map_of (cs_colors cs) m) \<and>
    (map_of (cs_colors cs) n = None \<longrightarrow>
       cs_default cs = cs_default cs' @ [the c])"
proof (cases "map_of (cs_colors cs) n")
  case (Some d)
  then have "c = Some d" "cs' = cs" using assms colors_lookup_known [OF Some] by auto
  with Some show ?thesis by (simp add: colors_lookup_known)
next
  case None
  then have ne: "cs_default cs \<noteq> []" using assms colors_lookup_exhausted by fastforce
  from colors_lookup_new [OF None ne] assms show ?thesis
    using None ne by (auto simp: colors_lookup_known)
qed

lemma colors_lookup_stable_witness:
  "\<exists>cs'. colors_lookup Colors ''a'' = Inr (Some (rgb 0 1 1), cs') \<and>
     colors_lookup cs' ''a'' = Inr (Some (rgb 0 1 1), cs')"
proof -
  obtain cs' where "colors_lookup Colors ''a'' = Inr (Some (rgb 0 1 1), cs')"
    by (simp add: colors_lookup_new Colors_def default_colors_def)
  with colors_lookup_stable [OF this] show ?thesis by blast
qed

lemma lookup_all_spec:
  "set names \<inter> fst ` set (cs_colors cs) = {} \<Longrightarrow> distinct names \<Longrightarrow>
     length names \<le> length (cs_default cs) \<Longrightarrow>
     \<exists>cs'. rfold (\<lambda>(acc, cs) n. rmap (\<lambda>(c, cs'). (acc @ [c], cs')) (colors_lookup cs n)) (acc, cs) names
         = Inr (acc @ map Some (take (length names) (rev (cs_default cs))), cs') \<and>
       fst ` set (cs_colors cs') = set names \<union> fst ` set (cs_colors cs) \<and>
       length (cs_default cs') = length (cs_default cs) - length names"
proof (induction names arbitrary: acc cs)
  case Nil
  then show ?case by simp
next
  case (Cons n names)
  define cs1 where "cs1 = \<lparr>cs_colors = dict_set n (last (cs_default cs)) (cs_colors cs),
     cs_default = butlast (cs_default cs)\<rparr>"
  from Cons.prems have ne: "cs_default cs \<noteq> []" and new: "map_of (cs_colors cs) n = None"
    by (auto simp: map_of_eq_None_iff)
  have rev: "rev (cs_default cs) = last (cs_default cs) # rev (butlast (cs_default cs))"
    using ne by (metis append_butlast_last_id rev.simps(2) rev_rev_ident rev_append append_Cons
        append_Nil rev_singleton_conv)
  have take: "take (Suc (length names)) (rev (cs_default cs)) =
      last (cs_default cs) # take (length names) (rev (butlast (cs_default cs)))"
    by (subst rev) simp
  have "set names \<inter> fst ` set (cs_colors cs1) = {}" "distinct names"
      "length names \<le> length (cs_default cs1)"
    using Cons.prems ne by (auto simp: cs1_def dict_set_keys)
  from Cons.IH [OF this, of "acc @ [Some (last (cs_default cs))]"] show ?case
    using colors_lookup_new [OF new ne] by (auto simp: cs1_def take dict_set_keys)
qed

text \<open>
  A fresh colour table serves six distinct names, each with its own default colour, and
  raises \<open>IndexError\<close> at the seventh.
\<close>

theorem colors_exhaustion:
  assumes "distinct names"
  shows "if length names \<le> 6
    then \<exists>cs. lookup_all Colors names = Inr (map Some (take (length names) (rev default_colors)), cs)
    else lookup_all Colors names = Inl IndexError"
proof (cases "length names \<le> 6")
  case True
  then show ?thesis
    using lookup_all_spec [of names Colors "[]"] assms
    by (auto simp: lookup_all_def Colors_def default_colors_def)
next
  case False
  let ?f = "\<lambda>(acc, cs) n. rmap (\<lambda>(c, cs'). (acc @ [c], cs')) (colors_lookup cs n)"
  from False obtain n rest where rest: "drop 6 names = n # rest"
    by (metis drop_eq_Nil list.exhaust not_le)
  then have names: "names = take 6 names @ n # rest" by (metis append_take_drop_id)
  then have n: "n \<notin> set (take 6 names)" "distinct (take 6 names)"
    using assms by (metis distinct_append disjoint_iff list.set_intros(1))+
  obtain cs where cs: "rfold ?f ([], Colors) (take 6 names) = Inr (map Some (rev default_colors), cs)"
      "fst ` set (cs_colors cs) = set (take 6 names)" "cs_default cs = []"
    using lookup_all_spec [of "take 6 names" Colors "[]"] n False
    by (auto simp: Colors_def default_colors_def)
  then have "colors_lookup cs n = Inl IndexError"
    using n by (intro colors_lookup_exhausted) (auto simp: map_of_eq_None_iff)
  then have "rfold ?f ([], Colors) names = Inl IndexError"
    using cs(1) by (subst names) (simp add: rfold_append)
  with False show ?thesis by (simp add: lookup_all_def)
qed

theorem colors_exhaustion_witness:
  "lookup_all Colors [''a'', ''b'', ''c'', ''d'', ''e'', ''f'', ''g''] = Inl IndexError"
  using colors_exhaustion [of "[''a'', ''b'', ''c'', ''d'', ''e'', ''f'', ''g'']"] by simp

end
