(* ===== verification/GridView.thy ===== *)
theory GridView
  imports GridData
begin

text \<open>
  The renderers of the timeline viewer: legend, timelines and scales of \<open>utils/grid.py\<close>. A
  \<open>layout\<close> computes sizes, a \<open>draw\<close> the list of drawing commands. The sizes of texts, which the
  graphics library knows, are the parameter \<open>te\<close>: bearing, width and height of a text.
\<close>

section \<open>Drawing commands\<close>

text \<open>\<open>ShowValue v\<close> is \<open>ctx.show_text (str (v))\<close>.\<close>

datatype cairo =
    Save | Restore | Stroke | StrokePreserve | Fill | ClosePath | OperatorSource
  | Rectangle pynum pynum pynum pynum
  | MoveTo pynum pynum | LineTo pynum pynum | RelLineTo pynum pynum
  | SetRGB pynum pynum pynum | SetLineWidth pynum | SetDash
  | Translate pynum pynum
  | ShowText string | ShowValue ev_value

type_synonym extents = "string \<Rightarrow> pynum \<times> pynum \<times> pynum"

definition t_bearing :: "extents \<Rightarrow> string \<Rightarrow> pynum" where "t_bearing te s = fst (te s)"
definition t_width :: "extents \<Rightarrow> string \<Rightarrow> pynum" where "t_width te s = fst (snd (te s))"
definition t_height :: "extents \<Rightarrow> string \<Rightarrow> pynum" where "t_height te s = snd (snd (te s))"

abbreviation num :: "int \<Rightarrow> pynum" where "num i \<equiv> PInt i"

definition black :: cairo where "black = SetRGB (num 0) (num 0) (num 0)"

definition grey :: cairo where
  "grey = SetRGB (PFloat (9 / 10)) (PFloat (9 / 10)) (PFloat (9 / 10))"

text \<open>\<open>x / 2\<close>.\<close>

fun nhalf :: "pynum \<Rightarrow> pynum" where
  "nhalf (PInt a) = PInt (a div 2)"
| "nhalf (PFloat r) = PFloat (r / 2)"

section \<open>TopLegendRenderer\<close>

record top_legend =
  lg_padding :: pynum
  lg_legends :: "string list"
  lg_colors :: "color list"
  lg_width :: pynum
  lg_height :: pynum

definition TopLegendRenderer :: top_legend where
  "TopLegendRenderer = \<lparr>lg_padding = num 10, lg_legends = [], lg_colors = [], lg_width = num 0, lg_height = num 0\<rparr>"

definition set_padding :: "pynum \<Rightarrow> top_legend \<Rightarrow> top_legend" where
  "set_padding p l = l\<lparr>lg_padding := p\<rparr>"

definition set_legends :: "string list \<Rightarrow> color list \<Rightarrow> top_legend \<Rightarrow> top_legend" where
  "set_legends legends colors l = l\<lparr>lg_legends := legends, lg_colors := colors\<rparr>"

text \<open>One legend: the locals \<open>line_height\<close>, \<open>total_height\<close> and \<open>line_used\<close>, and its left edge \<open>x\<close>.\<close>

record legend_state =
  ls_line_height :: pynum
  ls_total_height :: pynum
  ls_line_used :: pynum

definition item_width :: "extents \<Rightarrow> pynum \<Rightarrow> string \<Rightarrow> pynum" where
  "item_width te padding legend = nadd (nadd (nadd padding padding) (t_width te legend)) padding"

definition legend_init :: "pynum \<Rightarrow> legend_state" where
  "legend_init padding = \<lparr>ls_line_height = num 0, ls_total_height = padding, ls_line_used = padding\<rparr>"

definition legend_step :: "extents \<Rightarrow> pynum \<Rightarrow> pynum \<Rightarrow> legend_state \<Rightarrow> string \<Rightarrow> legend_state \<times> pynum" where
  "legend_step te padding width st legend =
     (let iw = item_width te padding legend;
          ih = nadd (t_height te legend) padding;
          lh = (if nlt (ls_line_height st) ih then ih else ls_line_height st);
          wraps = nlt width (nadd (ls_line_used st) iw);
          used = (if wraps then nadd padding iw else nadd (ls_line_used st) iw);
          total = (if wraps then nadd (ls_total_height st) lh else ls_total_height st)
      in (\<lparr>ls_line_height = lh, ls_total_height = total, ls_line_used = used\<rparr>, nsub used iw))"

definition legend_layout :: "extents \<Rightarrow> pynum \<Rightarrow> top_legend \<Rightarrow> top_legend" where
  "legend_layout te width l =
     (let st = foldl (\<lambda>st s. fst (legend_step te (lg_padding l) width st s)) (legend_init (lg_padding l)) (lg_legends l)
      in l\<lparr>lg_width := width, lg_height := nadd (ls_total_height st) (ls_line_height st)\<rparr>)"

text \<open>The commands of one legend at the position the step gives it; a missing colour raises.\<close>

definition legend_item :: "extents \<Rightarrow> pynum \<Rightarrow> legend_state \<Rightarrow> pynum \<Rightarrow> color \<Rightarrow> string \<Rightarrow> cairo list" where
  "legend_item te padding st x c legend =
     [Rectangle x (ls_total_height st) padding padding, black, SetLineWidth (num 2), StrokePreserve,
      SetRGB (col_r c) (col_g c) (col_b c), Fill,
      MoveTo (nadd x (nmul padding (num 2))) (nadd (ls_total_height st) (t_height te legend)),
      black, ShowText legend]"

fun legend_draw_from ::
  "extents \<Rightarrow> pynum \<Rightarrow> pynum \<Rightarrow> color list \<Rightarrow> int \<Rightarrow> legend_state \<Rightarrow> string list \<Rightarrow> cairo list pyres" where
  "legend_draw_from te padding width colors i st [] = Inr []"
| "legend_draw_from te padding width colors i st (s # ss) =
     (let (st', x) = legend_step te padding width st s in
      rbind (py_index colors i) (\<lambda>c.
      rmap (\<lambda>cs. legend_item te padding st' x c s @ cs)
        (legend_draw_from te padding width colors (i + 1) st' ss)))"

definition legend_draw :: "extents \<Rightarrow> top_legend \<Rightarrow> cairo list pyres" where
  "legend_draw te l =
     legend_draw_from te (lg_padding l) (lg_width l) (lg_colors l) 0 (legend_init (lg_padding l)) (lg_legends l)"

section \<open>TimelinesRenderer\<close>

record timelines_renderer =
  tr_padding :: pynum
  tr_timelines :: timelines
  tr_colors :: colors
  tr_start :: pynum
  tr_end :: pynum
  tr_left_width :: pynum
  tr_right_width :: pynum
  tr_max_text_height :: pynum
  tr_width :: pynum
  tr_height :: pynum
  tr_grey_background :: int

definition TimelinesRenderer :: timelines_renderer where
  "TimelinesRenderer = \<lparr>tr_padding = num 10, tr_timelines = [], tr_colors = Colors, tr_start = num 0,
     tr_end = num 0, tr_left_width = num 0, tr_right_width = num 0, tr_max_text_height = num 0,
     tr_width = num 0, tr_height = num 0, tr_grey_background = 0\<rparr>"

definition set_timelines :: "timelines \<Rightarrow> colors \<Rightarrow> timelines_renderer \<Rightarrow> timelines_renderer" where
  "set_timelines ts cs r = r\<lparr>tr_timelines := ts, tr_colors := cs\<rparr>"

definition set_render_range :: "pynum \<Rightarrow> pynum \<Rightarrow> timelines_renderer \<Rightarrow> timelines_renderer" where
  "set_render_range s e r = r\<lparr>tr_start := s, tr_end := e\<rparr>"

definition get_data_x_start :: "timelines_renderer \<Rightarrow> pynum" where
  "get_data_x_start r =
     nadd (nadd (nadd (nadd (nhalf (tr_padding r)) (tr_left_width r)) (tr_padding r)) (tr_right_width r))
       (nhalf (tr_padding r))"

definition alphabet :: string where
  "alphabet = ''ABCDEFGHIJKLMNOPQRSTUVWXYZabcedefghijklmnopqrstuvwxyz0123456789''"

text \<open>The names in the right-hand column of a timeline.\<close>

definition right_names :: "timeline \<Rightarrow> string list" where
  "right_names t = map tdr_name (tl_get_ranges t) @ map te_name (tl_get_events_int t) @ map te_name (tl_get_events_str t)"

definition timelines_layout :: "extents \<Rightarrow> pynum \<Rightarrow> timelines_renderer \<Rightarrow> timelines_renderer" where
  "timelines_layout te width r =
     (let ts = timelines_get_all (tr_timelines r); mth = t_height te alphabet; padding = tr_padding r;
          left_width = foldl (\<lambda>w t. nmax w (t_width te (tl_name t))) (num 0) ts;
          right_width = foldl (\<lambda>w n. nmax w (t_width te n)) (num 0) (concat (map right_names ts));
          left_n = int (length ts);
          range_n = int (length (concat (map tl_get_ranges ts)));
          event_n = int (length (concat (map tl_get_events_int ts))) + int (length (concat (map tl_get_events_str ts)));
          right_n = range_n + event_n;
          left_height = nadd (nmul (num left_n) mth) (nmul (num (left_n - 1)) padding);
          right_height = nadd (nmul (num (right_n - 1)) padding) (nmul (num right_n) mth);
          data_height = nadd (nadd (nmul (num event_n) (nadd mth (num 5))) (num (range_n * 10)))
            (nmul (num (right_n - 1)) padding);
          height = nmax (nmax left_height right_height) data_height
      in r\<lparr>tr_left_width := left_width, tr_right_width := right_width, tr_max_text_height := mth,
           tr_width := width, tr_height := nadd height padding\<rparr>)"

definition draw_line :: "pynum \<Rightarrow> pynum \<Rightarrow> pynum \<Rightarrow> pynum \<Rightarrow> cairo list" where
  "draw_line x y width height =
     [MoveTo x y, RelLineTo width height, ClosePath, OperatorSource, SetLineWidth (PFloat 1), black, Stroke]"

definition grey_row :: "timelines_renderer \<Rightarrow> pynum \<Rightarrow> pynum \<Rightarrow> pynum \<Rightarrow> pynum \<Rightarrow> cairo list" where
  "grey_row r x y width height =
     (if tr_grey_background r mod 2 = 0 then
        [Rectangle x (nsub y (nhalf (tr_padding r))) width (nadd height (tr_padding r)), grey, Fill]
      else [])"

text \<open>Where a time lies on the screen: \<open>int (x + (t - start) * width / (end - start))\<close>.\<close>

definition screen_x :: "timelines_renderer \<Rightarrow> pynum \<Rightarrow> pynum \<Rightarrow> pynum \<Rightarrow> int pyres" where
  "screen_x r x width t =
     rmap (\<lambda>q. nint (nadd x q)) (ndiv (nmul (nsub t (tr_start r)) width) (nsub (tr_end r) (tr_start r)))"

fun events_from ::
  "timelines_renderer \<Rightarrow> pynum \<Rightarrow> pynum \<Rightarrow> pynum \<Rightarrow> int \<Rightarrow> event list \<Rightarrow> (int \<times> event) list pyres" where
  "events_from r x y width last_x_drawn [] = Inr []"
| "events_from r x y width last_x_drawn (e # es) =
     rbind (screen_x r x width (num (ev_at e))) (\<lambda>real_x.
       if real_x > last_x_drawn + 2 then rmap (Cons (real_x, e)) (events_from r x y width real_x es)
       else events_from r x y width last_x_drawn es)"

definition event_cmds :: "timelines_renderer \<Rightarrow> pynum \<Rightarrow> int \<times> event \<Rightarrow> cairo list" where
  "event_cmds r y p =
     (case p of (real_x, e) \<Rightarrow>
       [Rectangle (num real_x) y (num 1) (num 1), SetRGB (num 1) (num 0) (num 0), Stroke,
        MoveTo (num real_x) (nadd y (tr_max_text_height r)), black, ShowValue (ev_value e)])"

definition draw_events ::
  "timelines_renderer \<Rightarrow> timeline_event \<Rightarrow> pynum \<Rightarrow> pynum \<Rightarrow> pynum \<Rightarrow> pynum \<Rightarrow> (timelines_renderer \<times> cairo list) pyres" where
  "draw_events r events x y width height =
     (let (lo, hi) = get_events_bounds events (nval (tr_start r)) (nval (tr_end r)) in
      rmap (\<lambda>ps. (r\<lparr>tr_grey_background := tr_grey_background r + 1\<rparr>,
                  grey_row r x y width height @ concat (map (event_cmds r y) ps)))
        (events_from r x y width (nint x) (py_slice (te_events events) lo hi)))"

fun ranges_from ::
  "timelines_renderer \<Rightarrow> pynum \<Rightarrow> pynum \<Rightarrow> int \<Rightarrow> data_range list \<Rightarrow> (int \<times> int \<times> string) list pyres" where
  "ranges_from r x width last_x_drawn [] = Inr []"
| "ranges_from r x width last_x_drawn (d # ds) =
     rbind (screen_x r x width (nmax (num (dr_start d)) (tr_start r))) (\<lambda>x_start.
     rbind (screen_x r x width (nmin (num (dr_end d)) (tr_end r))) (\<lambda>x_end.
       if x_end > last_x_drawn then rmap (Cons (x_start, x_end, dr_value d)) (ranges_from r x width x_end ds)
       else ranges_from r x width last_x_drawn ds))"

text \<open>Drawing the bars looks their colours up, which can use up default colours.\<close>

fun range_cmds :: "pynum \<Rightarrow> colors \<Rightarrow> (int \<times> int \<times> string) list \<Rightarrow> (colors \<times> cairo list) pyres" where
  "range_cmds y cs [] = Inr (cs, [])"
| "range_cmds y cs ((x_start, x_end, v) # bs) =
     rbind (colors_lookup cs v) (\<lambda>(found, cs').
     rbind (case found of None \<Rightarrow> Inl AttributeError | Some c \<Rightarrow> Inr c) (\<lambda>c.
     rmap (\<lambda>(cs'', cmds). (cs'',
         [Rectangle (num x_start) y (num (x_end - x_start)) (num 10), black, StrokePreserve,
          SetRGB (col_r c) (col_g c) (col_b c), Fill] @ cmds))
       (range_cmds y cs' bs)))"

definition draw_ranges ::
  "timelines_renderer \<Rightarrow> timeline_data_range \<Rightarrow> pynum \<Rightarrow> pynum \<Rightarrow> pynum \<Rightarrow> pynum \<Rightarrow> (timelines_renderer \<times> cairo list) pyres" where
  "draw_ranges r ranges x y width height =
     (let (lo, hi) = get_ranges_bounds ranges (nval (tr_start r)) (nval (tr_end r)) in
      rbind (ranges_from r x width (nint (nsub x (num 1))) (py_slice (tdr_ranges ranges) lo hi)) (\<lambda>bars.
      rmap (\<lambda>(cs, cmds). (r\<lparr>tr_grey_background := tr_grey_background r + 1, tr_colors := cs\<rparr>,
                          grey_row r x y width height @ cmds))
        (range_cmds y (tr_colors r) bars)))"

text \<open>
  One row of the right-hand column: its name, its data, and the line below it. The state of the
  loop is the renderer and \<open>cur_y\<close>.
\<close>

definition row_label :: "extents \<Rightarrow> timelines_renderer \<Rightarrow> pynum \<Rightarrow> pynum \<Rightarrow> string \<Rightarrow> cairo list" where
  "row_label te r x cur_y name =
     [MoveTo x (nsub (nadd cur_y (tr_max_text_height r)) (nadd (t_height te name) (t_bearing te name))), ShowText name]"

definition left_x_start :: "timelines_renderer \<Rightarrow> pynum" where
  "left_x_start r = nhalf (tr_padding r)"

definition left_x_end :: "timelines_renderer \<Rightarrow> pynum" where
  "left_x_end r = nadd (left_x_start r) (tr_left_width r)"

definition right_x_start :: "timelines_renderer \<Rightarrow> pynum" where
  "right_x_start r = nadd (left_x_end r) (tr_padding r)"

definition right_x_end :: "timelines_renderer \<Rightarrow> pynum" where
  "right_x_end r = nadd (right_x_start r) (tr_right_width r)"

definition data_x_start :: "timelines_renderer \<Rightarrow> pynum" where
  "data_x_start r = nadd (right_x_end r) (nhalf (tr_padding r))"

definition data_width :: "timelines_renderer \<Rightarrow> pynum" where
  "data_width r = nsub (tr_width r) (data_x_start r)"

definition row_line :: "timelines_renderer \<Rightarrow> pynum \<Rightarrow> cairo list" where
  "row_line r cur_y =
     draw_line (nsub (right_x_start r) (nhalf (tr_padding r))) (nsub cur_y (nhalf (tr_padding r)))
       (nadd (tr_right_width r) (tr_padding r)) (num 0)"

definition events_row ::
  "extents \<Rightarrow> timelines_renderer \<times> pynum \<times> cairo list \<Rightarrow> timeline_event \<Rightarrow>
   (timelines_renderer \<times> pynum \<times> cairo list) pyres" where
  "events_row te st e =
     (case st of (r, cur_y, out) \<Rightarrow>
      let h = nadd (tr_max_text_height r) (num 5); cur_y' = nadd (nadd cur_y h) (tr_padding r) in
      rmap (\<lambda>(r', cmds). (r', cur_y', out @ row_label te r (right_x_start r) cur_y (te_name e) @ cmds @ row_line r' cur_y'))
        (draw_events r e (data_x_start r) cur_y (data_width r) h))"

definition ranges_row ::
  "extents \<Rightarrow> timelines_renderer \<times> pynum \<times> cairo list \<Rightarrow> timeline_data_range \<Rightarrow>
   (timelines_renderer \<times> pynum \<times> cairo list) pyres" where
  "ranges_row te st d =
     (case st of (r, cur_y, out) \<Rightarrow>
      let cur_y' = nadd (nadd cur_y (tr_max_text_height r)) (tr_padding r) in
      rmap (\<lambda>(r', cmds). (r', cur_y', out @ row_label te r (right_x_start r) cur_y (tdr_name d) @ cmds @ row_line r' cur_y'))
        (draw_ranges r d (data_x_start r) cur_y (data_width r) (num 10)))"

definition timeline_rows ::
  "extents \<Rightarrow> timelines_renderer \<times> pynum \<times> cairo list \<Rightarrow> timeline \<Rightarrow>
   (timelines_renderer \<times> pynum \<times> cairo list) pyres" where
  "timeline_rows te st t =
     (case st of (r, cur_y, out) \<Rightarrow>
      rbind (rfold (events_row te) (r, cur_y, out @ row_label te r (left_x_start r) cur_y (tl_name t))
               (tl_get_events_int t)) (\<lambda>st.
      rbind (rfold (events_row te) st (tl_get_events_str t)) (\<lambda>st.
      rmap (\<lambda>(r, cur_y, out). (r, cur_y, out @ draw_line (num 0) (nsub cur_y (nhalf (tr_padding r))) (tr_width r) (num 0)))
        (rfold (ranges_row te) st (tl_get_ranges t)))))"

definition timelines_draw :: "extents \<Rightarrow> timelines_renderer \<Rightarrow> (timelines_renderer \<times> cairo list) pyres" where
  "timelines_draw te r =
     rmap (\<lambda>(r, cur_y, out).
         (r, out @ (let bot_y = nsub cur_y (nhalf (tr_padding r)) in
            draw_line (nadd (left_x_end r) (nhalf (tr_padding r))) (num 0) (num 0) bot_y @
            draw_line (nadd (right_x_end r) (nhalf (tr_padding r))) (num 0) (num 0) bot_y)))
       (rfold (timeline_rows te)
         (r\<lparr>tr_grey_background := 1\<rparr>, nhalf (tr_padding r), draw_line (num 0) (num 0) (tr_width r) (num 0))
         (timelines_get_all (tr_timelines r)))"

section \<open>ScaleRenderer\<close>

record scale_renderer =
  sc_top :: bool
  sc_lo :: pynum
  sc_hi :: pynum
  sc_delta :: pynum
  sc_width :: pynum
  sc_height :: pynum
  sc_max_text_height :: pynum

definition ScaleRenderer :: scale_renderer where
  "ScaleRenderer = \<lparr>sc_top = False, sc_lo = num 0, sc_hi = num 0, sc_delta = num 0, sc_width = num 0,
     sc_height = num 0, sc_max_text_height = num 0\<rparr>"

definition set_bounds :: "pynum \<Rightarrow> pynum \<Rightarrow> scale_renderer \<Rightarrow> scale_renderer" where
  "set_bounds lo hi s = s\<lparr>sc_lo := lo, sc_hi := hi\<rparr>"

definition set_top :: "scale_renderer \<Rightarrow> scale_renderer" where "set_top s = s\<lparr>sc_top := True\<rparr>"
definition set_bot :: "scale_renderer \<Rightarrow> scale_renderer" where "set_bot s = s\<lparr>sc_top := False\<rparr>"

definition get_position :: "scale_renderer \<Rightarrow> pynum \<Rightarrow> pynum pyres" where
  "get_position s x = ndiv (nmul (nsub x (sc_lo s)) (sc_width s)) (nsub (sc_hi s) (sc_lo s))"

text \<open>\<open>while (closest*10) < data_delta: closest *= 10\<close>; the loop starts at 1, so the first test never fails.\<close>

function closest_power :: "rat \<Rightarrow> int \<Rightarrow> int" where
  "closest_power data_delta closest =
     (if 0 < closest \<and> of_int (closest * 10) < data_delta then closest_power data_delta (closest * 10) else closest)"
  by pat_completeness auto
termination
proof (relation "measure (\<lambda>(d, c). nat (\<lceil>d\<rceil> - c))")
  fix d :: rat and c :: int
  assume a: "0 < c \<and> of_int (c * 10) < d"
  then have "c * 10 < \<lceil>d\<rceil>" by (simp add: less_ceiling_iff)
  with a show "((d, c * 10), (d, c)) \<in> measure (\<lambda>(d, c). nat (\<lceil>d\<rceil> - c))" by simp
qed simp

declare closest_power.simps [simp del]

definition scale_delta :: "pynum \<Rightarrow> pynum pyres" where
  "scale_delta data_delta =
     (let closest = num (closest_power (nval data_delta) 1) in
      rbind (ndiv data_delta closest) (\<lambda>q.
        if nval q = 0 then Inr closest
        else if nval q = 1 then ndiv closest (num 10)
        else Inr closest))"

text \<open>First and last tick: \<open>lo - (lo % delta) + delta\<close> and \<open>hi - (hi % delta)\<close>.\<close>

definition tick_bounds :: "pynum \<Rightarrow> pynum \<Rightarrow> pynum \<Rightarrow> (pynum \<times> pynum) pyres" where
  "tick_bounds lo hi delta =
     rbind (nmod lo delta) (\<lambda>ml.
     rmap (\<lambda>mh. (nadd (nsub lo ml) delta, nsub hi mh)) (nmod hi delta))"

definition scale_layout :: "extents \<Rightarrow> pynum \<Rightarrow> scale_renderer \<Rightarrow> scale_renderer pyres" where
  "scale_layout te width s =
     rbind (scale_delta (nsub (sc_hi s) (sc_lo s))) (\<lambda>delta.
     rmap (\<lambda>_. s\<lparr>sc_delta := delta, sc_width := width, sc_max_text_height := t_height te alphabet,
                 sc_height := nadd (t_height te alphabet) (num 10)\<rparr>)
       (tick_bounds (sc_lo s) (sc_hi s) delta))"

text \<open>\<open>range (a, b, step)\<close>, which raises when the step is 0.\<close>

definition py_range :: "int \<Rightarrow> int \<Rightarrow> int \<Rightarrow> int list pyres" where
  "py_range a b step =
     (if step = 0 then Inl ValueError
      else if 0 < step then Inr (map (\<lambda>k. a + int k * step) [0..<nat ((b - a + step - 1) div step)])
      else Inr (map (\<lambda>k. a + int k * step) [0..<nat ((a - b - step - 1) div (- step))]))"

definition scale_ticks :: "scale_renderer \<Rightarrow> pynum \<Rightarrow> int list pyres" where
  "scale_ticks s delta =
     rbind (tick_bounds (sc_lo s) (sc_hi s) delta) (\<lambda>(start, en).
       py_range (nint start) (nint (nadd en delta)) (nint delta))"

definition tick_cmds :: "scale_renderer \<Rightarrow> int \<Rightarrow> int \<Rightarrow> cairo list pyres" where
  "tick_cmds s len x =
     rmap (\<lambda>real_x. [MoveTo real_x (num 0), LineTo real_x (num len), ClosePath, Stroke]) (get_position s (num x))"

definition tick_label :: "extents \<Rightarrow> scale_renderer \<Rightarrow> int \<Rightarrow> int \<Rightarrow> cairo list pyres" where
  "tick_label te s sign x =
     rmap (\<lambda>real_x.
        (let txt = show_int x;
             text_delta = (if sc_top s then nadd (t_height te txt) (t_bearing te txt) else nneg (t_bearing te txt)) in
         [MoveTo (nsub real_x (nhalf (t_width te txt))) (nmul (nadd (num (5 + 5)) text_delta) (num sign)), ShowText txt]))
       (get_position s (num x))"

definition scale_draw :: "extents \<Rightarrow> scale_renderer \<Rightarrow> cairo list pyres" where
  "scale_draw te s =
     (let delta = sc_delta s; sign = (if sc_top s then -1 else 1) in
      rbind (scale_ticks s delta) (\<lambda>ticks.
      rbind (rmapM (\<lambda>x. rbind (tick_cmds s (5 * sign) x) (\<lambda>a. rmap (\<lambda>b. a @ b) (tick_label te s sign x))) ticks) (\<lambda>major.
      rbind (ndiv delta (num 10)) (\<lambda>sub.
      rbind (if nlt (num 0) sub then rbind (scale_ticks s sub) (rmapM (tick_cmds s (3 * sign))) else Inr []) (\<lambda>minor.
        Inr ([black, SetLineWidth (PFloat 1)] @ concat major @ concat minor))))))"

section \<open>The scale chooses a readable step\<close>

text \<open>
  The loop ends at the largest power of ten below the span (or at its start value): the span is
  at most ten times the result.
\<close>

lemma closest_power_spec:
  assumes "0 < c"
  shows "\<exists>k. closest_power d c = c * 10 ^ k \<and> d \<le> of_int (closest_power d c * 10) \<and>
    (k = 0 \<or> of_int (closest_power d c) < d)"
  using assms
proof (induction d c rule: closest_power.induct)
  case (1 d c)
  show ?case
  proof (cases "of_int (c * 10) < d")
    case True
    have "0 < c * 10" using 1(2) by simp
    from 1(1) [OF conjI [OF 1(2) True] this] obtain k where k:
      "closest_power d (c * 10) = c * 10 * 10 ^ k"
      "d \<le> of_int (closest_power d (c * 10) * 10)" "k = 0 \<or> of_int (closest_power d (c * 10)) < d"
      by blast
    have eq: "closest_power d c = closest_power d (c * 10)"
      using True 1(2) by (simp add: closest_power.simps [of d c])
    have "closest_power d c = c * 10 ^ Suc k" using k(1) eq by simp
    moreover have "of_int (closest_power d c) < d"
      using k(1,3) eq True by (cases k) auto
    ultimately show ?thesis using k(2) eq by metis
  next
    case False
    then have "closest_power d c = c" using 1(2) by (simp add: closest_power.simps [of d c])
    with False show ?thesis by (intro exI [of _ 0]) simp
  qed
qed

lemma scale_delta_steps:
  assumes "2 \<le> D"
  shows "\<exists>k. scale_delta (num D) = Inr (num (10 ^ k)) \<and> 2 * 10 ^ k \<le> D \<and> D < 20 * 10 ^ k"
proof -
  obtain k where p: "closest_power (of_int D) 1 = 1 * 10 ^ k \<and>
      (of_int D :: rat) \<le> of_int (closest_power (of_int D) 1 * 10) \<and>
      (k = 0 \<or> of_int (closest_power (of_int D) 1) < (of_int D :: rat))"
    using closest_power_spec [of 1 "of_int D"] by auto
  then have k: "closest_power (of_int D) 1 = 10 ^ k" "D \<le> 10 ^ k * 10" "k = 0 \<or> 10 ^ k < D"
    unfolding of_int_le_iff of_int_less_iff by auto
  let ?q = "D div 10 ^ k"
  have delta: "scale_delta (num D) =
      (if ?q = 0 then Inr (num (10 ^ k)) else if ?q = 1 then Inr (num (10 ^ k div 10)) else Inr (num (10 ^ k)))"
    by (simp add: scale_delta_def k(1))
  have "10 ^ k \<le> D" using k(3) assms by auto
  then have pos: "1 \<le> ?q" by (simp add: pos_imp_zdiv_pos_iff int_one_le_iff_zero_less)
  show ?thesis
  proof (cases "?q = 1")
    case True
    then have eq: "10 ^ k + D mod 10 ^ k = D"
      using div_mult_mod_eq [of D "10 ^ k"] by simp
    have "D mod 10 ^ k < 10 ^ k" by simp
    with eq have lt: "D < 2 * 10 ^ k" by linarith
    have "k \<noteq> 0" using lt assms by (intro notI) simp
    then obtain j where j: "k = Suc j" by (cases k) auto
    show ?thesis
      using True lt j \<open>10 ^ k \<le> D\<close> by (intro exI [of _ j]) (simp add: delta)
  next
    case False
    with pos have "2 \<le> ?q" by simp
    then have "2 * 10 ^ k \<le> D div 10 ^ k * 10 ^ k" by (intro mult_right_mono) auto
    moreover have "0 \<le> D mod 10 ^ k" by simp
    ultimately have "2 * 10 ^ k \<le> D" using div_mult_mod_eq [of D "10 ^ k"] by linarith
    moreover have "D < 20 * 10 ^ k"
    proof -
      have "0 < (10::int) ^ k" by simp
      with k(2) show ?thesis by linarith
    qed
    ultimately show ?thesis
      using False pos by (intro exI [of _ k]) (simp add: delta)
  qed
qed

lemma scale_delta_one: "scale_delta (num 1) = Inr (num 0)"
  by (simp add: scale_delta_def closest_power.simps)

lemma int_div_less:
  fixes x :: int
  assumes "0 < d"
  shows "x div d < k \<longleftrightarrow> x < k * d"
proof
  assume "x div d < k"
  then have "(x div d + 1) * d \<le> k * d" using assms by (intro mult_right_mono) auto
  then show "x < k * d"
    using div_mult_mod_eq [of x d] pos_mod_bound [OF assms, of x] unfolding distrib_right mult_1 by linarith
next
  assume "x < k * d"
  show "x div d < k"
  proof (rule ccontr)
    assume "\<not> x div d < k"
    then have "k * d \<le> x div d * d" using assms by (intro mult_right_mono) auto
    with \<open>x < k * d\<close> show False
      using div_mult_mod_eq [of x d] pos_mod_sign [OF assms, of x] by linarith
  qed
qed

lemma py_range_set:
  assumes "0 < d" and "py_range a b d = Inr xs"
  shows "set xs = {a + int k * d |k. a + int k * d < b}" and "sorted_wrt (<) xs"
proof -
  have lt: "k < nat ((b - a + d - 1) div d) \<longleftrightarrow> a + int k * d < b" for k
  proof -
    have "k < nat ((b - a + d - 1) div d) \<longleftrightarrow> \<not> (b - a + d - 1) div d < int k + 1" by linarith
    also have "\<dots> \<longleftrightarrow> \<not> b - a + d - 1 < (int k + 1) * d"
      by (simp only: int_div_less [OF assms(1)])
    also have "\<dots> \<longleftrightarrow> a + int k * d < b" by (auto simp: algebra_simps)
    finally show ?thesis .
  qed
  have xs: "xs = map (\<lambda>k. a + int k * d) [0..<nat ((b - a + d - 1) div d)]"
    using assms by (simp add: py_range_def)
  show "set xs = {a + int k * d |k. a + int k * d < b}"
    by (auto simp: xs lt)
  show "sorted_wrt (<) xs"
    using assms(1) by (auto simp: xs sorted_wrt_map sorted_wrt_upt intro: sorted_wrt_mono_rel [OF _ sorted_wrt_upt])
qed

text \<open>The ticks of an integer scale are the multiples of the step above the lower and up to the upper bound.\<close>

lemma tick_multiples:
  fixes lo hi d :: int
  assumes "0 < d"
  shows "{lo - lo mod d + d + int k * d |k. lo - lo mod d + d + int k * d < hi - hi mod d + d} =
    {x. lo < x \<and> x \<le> hi \<and> d dvd x}" (is "?L = ?R")
proof (intro equalityI subsetI)
  fix x
  assume "x \<in> ?L"
  then obtain k where x: "x = lo - lo mod d + d + int k * d" and lt: "x < hi - hi mod d + d" by blast
  have eq: "x = (lo div d + 1 + int k) * d" by (simp add: x algebra_simps minus_mod_eq_mult_div)
  have "0 \<le> int k * d" using assms by simp
  then have "lo < x" using pos_mod_bound [OF assms, of lo] unfolding x by linarith
  moreover have "x \<le> hi"
  proof (rule ccontr)
    assume "\<not> x \<le> hi"
    have "hi - hi mod d = hi div d * d" by (simp add: minus_mod_eq_mult_div)
    with lt eq have "(lo div d + 1 + int k) * d < (hi div d + 1) * d" by (simp add: distrib_right)
    with assms have "lo div d + 1 + int k \<le> hi div d" by (simp add: mult_less_cancel_right)
    with assms have "x \<le> hi div d * d" unfolding eq by (intro mult_right_mono) auto
    with \<open>\<not> x \<le> hi\<close> show False
      using div_mult_mod_eq [of hi d] pos_mod_sign [OF assms, of hi] by linarith
  qed
  ultimately show "x \<in> ?R" by (simp add: eq)
next
  fix x
  assume x: "x \<in> ?R"
  then obtain m where m: "x = m * d" by (metis dvd_div_mult_self mem_Collect_eq)
  have "lo div d < m" using x m assms int_div_less [OF assms, of lo m] by simp
  then have "x = lo - lo mod d + d + int (nat (m - lo div d - 1)) * d"
    by (simp add: m minus_mod_eq_mult_div algebra_simps)
  moreover have "x < hi - hi mod d + d" using x pos_mod_bound [OF assms, of hi] by auto
  ultimately show "x \<in> ?L" by blast
qed

lemma scale_ticks_int:
  assumes "sc_lo s = num lo" and "sc_hi s = num hi" and "0 < d"
  shows "\<exists>xs. scale_ticks s (num d) = Inr xs \<and> set xs = {x. lo < x \<and> x \<le> hi \<and> d dvd x} \<and> sorted_wrt (<) xs"
proof -
  let ?a = "lo - lo mod d + d" and ?b = "hi - hi mod d + d"
  obtain xs where xs: "py_range ?a ?b d = Inr xs" using assms(3) by (auto simp: py_range_def)
  have "scale_ticks s (num d) = Inr xs"
    using assms xs by (simp add: scale_ticks_def tick_bounds_def)
  with py_range_set [OF assms(3) xs] tick_multiples [OF assms(3), of lo hi] show ?thesis by auto
qed

text \<open>
  C36: on integer bounds at least two apart a scale gets a step that is a power of ten and divides
  the span into 2 to 19 parts, and its marks are, in order, the multiples of the step after the lower
  bound and up to the upper one; on bounds one apart laying out the scale raises ZeroDivisionError
  (the step is the integer quotient of 1 by 10).
\<close>

theorem scale_layout_steps:
  assumes "sc_lo s = num lo" and "sc_hi s = num hi" and "lo < hi"
  shows "if hi = lo + 1 then scale_layout te width s = Inl ZeroDivisionError
    else \<exists>k s' ticks. scale_layout te width s = Inr s' \<and> sc_width s' = width \<and> sc_delta s' = num (10 ^ k) \<and>
      2 * 10 ^ k \<le> hi - lo \<and> hi - lo < 20 * 10 ^ k \<and>
      scale_ticks s' (sc_delta s') = Inr ticks \<and>
      set ticks = {x. lo < x \<and> x \<le> hi \<and> 10 ^ k dvd x} \<and> sorted_wrt (<) ticks"
proof (cases "hi = lo + 1")
  case True
  then show ?thesis using assms by (simp add: scale_layout_def scale_delta_one tick_bounds_def)
next
  case False
  with assms(3) have "2 \<le> hi - lo" by simp
  then obtain k where k: "scale_delta (num (hi - lo)) = Inr (num (10 ^ k))"
    "2 * 10 ^ k \<le> hi - lo" "hi - lo < 20 * 10 ^ k"
    using scale_delta_steps by blast
  let ?s = "s\<lparr>sc_delta := num (10 ^ k), sc_width := width, sc_max_text_height := t_height te alphabet,
    sc_height := nadd (t_height te alphabet) (num 10)\<rparr>"
  have layout: "scale_layout te width s = Inr ?s"
    using assms k(1) by (simp add: scale_layout_def tick_bounds_def)
  obtain ticks where ticks: "scale_ticks ?s (num (10 ^ k)) = Inr ticks"
    "set ticks = {x. lo < x \<and> x \<le> hi \<and> 10 ^ k dvd x}" "sorted_wrt (<) ticks"
    using scale_ticks_int [of ?s lo hi "10 ^ k"] assms by auto
  from False layout k(2,3) ticks show ?thesis
    unfolding if_not_P [OF False] by (intro exI [of _ k] exI [of _ ?s] exI [of _ ticks] conjI) simp_all
qed

theorem scale_layout_steps_witness:
  "\<exists>k s' ticks. scale_layout (\<lambda>s. (num 0, num 0, num 9)) (num 300) (set_bounds (num 7) (num 30) ScaleRenderer) = Inr s' \<and>
     sc_width s' = num 300 \<and> sc_delta s' = num (10 ^ k) \<and> 2 * 10 ^ k \<le> (23::int) \<and> (23::int) < 20 * 10 ^ k \<and>
     scale_ticks s' (sc_delta s') = Inr ticks \<and> set ticks = {x. 7 < x \<and> x \<le> 30 \<and> 10 ^ k dvd x} \<and>
     sorted_wrt (<) ticks"
  using scale_layout_steps [of "set_bounds (num 7) (num 30) ScaleRenderer" 7 30 "\<lambda>s. (num 0, num 0, num 9)" "num 300"]
  by (simp add: set_bounds_def)

section \<open>Positions of bars and events\<close>

text \<open>The times that are drawn: integers from the trace, or one of the two ends of the visible range.\<close>

definition drawn_time :: "timelines_renderer \<Rightarrow> pynum \<Rightarrow> bool" where
  "drawn_time r t \<longleftrightarrow> is_int t \<or> t = tr_start r \<or> t = tr_end r"

lemma drawn_time_intros [simp]:
  "drawn_time r (num i)" "drawn_time r (tr_start r)" "drawn_time r (tr_end r)"
  "drawn_time r (nmax (num i) (tr_start r))" "drawn_time r (nmin (num i) (tr_end r))"
  by (auto simp: drawn_time_def nmax_def nmin_def)

lemma screen_x_total:
  "nval (tr_start r) < nval (tr_end r) \<Longrightarrow> \<exists>v. screen_x r x width t = Inr v"
  using ndiv_ok [of "nsub (tr_end r) (tr_start r)" "nmul (nsub t (tr_start r)) width"]
  by (auto simp: screen_x_def)

lemma screen_x_mono:
  assumes "screen_x r x width s = Inr a" and "screen_x r x width t = Inr b"
    and "nval s \<le> nval t" and "drawn_time r s" and "drawn_time r t"
    and "nval (tr_start r) < nval (tr_end r)" and "0 \<le> nval width"
  shows "a \<le> b"
proof -
  let ?n = "\<lambda>t. nmul (nsub t (tr_start r)) width" and ?d = "nsub (tr_end r) (tr_start r)"
  obtain p q where p: "ndiv (?n s) ?d = Inr p" "a = nint (nadd x p)" and q: "ndiv (?n t) ?d = Inr q" "b = nint (nadd x q)"
    using assms(1,2) by (auto simp: screen_x_def rmap_eq_Inr_iff)
  have "nval p \<le> nval q"
  proof (rule ndiv_mono [OF p(1) q(1)])
    show "nval (?n s) \<le> nval (?n t)" using assms(3,7) by (simp add: mult_right_mono)
    show "0 < nval ?d" using assms(6) by simp
    show "is_int (?n s) = is_int (?n t)" if "is_int ?d"
      using that assms(4,5) by (auto simp: drawn_time_def)
  qed
  then show ?thesis unfolding p(2) q(2) by (intro nint_mono) simp
qed

lemma screen_x_ends:
  assumes "nval (tr_start r) < nval (tr_end r)"
  shows "screen_x r x width (tr_start r) = Inr (nint x)"
    and "screen_x r x width (tr_end r) = Inr (nint (nadd x width))"
proof -
  let ?d = "nsub (tr_end r) (tr_start r)"
  obtain p q where p: "ndiv (nmul (nsub (tr_start r) (tr_start r)) width) ?d = Inr p"
    and q: "ndiv (nmul ?d width) ?d = Inr q"
    using assms ndiv_ok [of ?d] by fastforce
  have "nval p = 0" using nval_ndiv [OF p] by simp
  moreover have "nval q = nval width"
    using nval_ndiv [OF q] assms by (cases width) auto
  ultimately show "screen_x r x width (tr_start r) = Inr (nint x)"
    and "screen_x r x width (tr_end r) = Inr (nint (nadd x width))"
    using p q by (simp_all add: screen_x_def nint_eq)
qed

text \<open>A range that meets the visible part becomes a bar between the two ends of the data area.\<close>

definition meets :: "timelines_renderer \<Rightarrow> data_range \<Rightarrow> bool" where
  "meets r d \<longleftrightarrow> dr_start d \<le> dr_end d \<and> of_int (dr_start d) \<le> nval (tr_end r) \<and> nval (tr_start r) \<le> of_int (dr_end d)"

lemma bar_position:
  assumes "meets r d" and "nval (tr_start r) < nval (tr_end r)" and "0 \<le> nval width"
  obtains a b where "screen_x r x width (nmax (num (dr_start d)) (tr_start r)) = Inr a"
    and "screen_x r x width (nmin (num (dr_end d)) (tr_end r)) = Inr b"
    and "nint x \<le> a" and "a \<le> b" and "b \<le> nint (nadd x width)"
proof -
  obtain a b where ab: "screen_x r x width (nmax (num (dr_start d)) (tr_start r)) = Inr a"
      "screen_x r x width (nmin (num (dr_end d)) (tr_end r)) = Inr b"
    using screen_x_total [OF assms(2)] by blast
  note ends = screen_x_ends [OF assms(2), of x width]
  note mono = screen_x_mono [OF _ _ _ _ _ assms(2,3)]
  have "nint x \<le> a" by (rule mono [OF ends(1) ab(1)]) simp_all
  moreover have "a \<le> b"
    by (rule mono [OF ab]) (use assms(1,2) in \<open>auto simp: meets_def\<close>)
  moreover have "b \<le> nint (nadd x width)" by (rule mono [OF ab(2) ends(2)]) simp_all
  ultimately show thesis using that ab by blast
qed

text \<open>
  The bars of the ranges that meet the visible part never fail to be drawn, lie inside the
  data area, end further and further right, and only a range is left out whose right end is not
  beyond the bar drawn last before it.
\<close>

theorem bars_on_screen:
  assumes "nval (tr_start r) < nval (tr_end r)" and "0 \<le> nval width" and "\<forall>d\<in>set ds. meets r d"
  shows "\<exists>bars. ranges_from r x width last_x ds = Inr bars \<and>
    (\<forall>(a, b, v)\<in>set bars. nint x \<le> a \<and> a \<le> b \<and> b \<le> nint (nadd x width) \<and> last_x < b) \<and>
    sorted_wrt (\<lambda>p q. fst (snd p) < fst (snd q)) bars \<and>
    (\<forall>d\<in>set ds. \<exists>b. screen_x r x width (nmin (num (dr_end d)) (tr_end r)) = Inr b \<and>
       (b \<le> last_x \<or> (\<exists>bar\<in>set bars. b \<le> fst (snd bar))))"
  using assms(3)
proof (induction ds arbitrary: last_x)
  case Nil
  show ?case by simp
next
  case (Cons d ds)
  then have "meets r d" by simp
  from bar_position [OF this assms(1,2), of x] obtain a b where
    ab: "screen_x r x width (nmax (num (dr_start d)) (tr_start r)) = Inr a"
        "screen_x r x width (nmin (num (dr_end d)) (tr_end r)) = Inr b"
        "nint x \<le> a" "a \<le> b" "b \<le> nint (nadd x width)" .
  let ?last = "if last_x < b then b else last_x"
  have "\<forall>d\<in>set ds. meets r d" using Cons.prems by simp
  from Cons.IH [OF this, of ?last] obtain bars where bars: "ranges_from r x width ?last ds = Inr bars"
    "\<forall>(a, b, v)\<in>set bars. nint x \<le> a \<and> a \<le> b \<and> b \<le> nint (nadd x width) \<and> ?last < b"
    "sorted_wrt (\<lambda>p q. fst (snd p) < fst (snd q)) bars"
    "\<forall>d\<in>set ds. \<exists>b. screen_x r x width (nmin (num (dr_end d)) (tr_end r)) = Inr b \<and>
       (b \<le> ?last \<or> (\<exists>bar\<in>set bars. b \<le> fst (snd bar)))"
    by (elim exE conjE) (rule that)
  let ?bars = "if last_x < b then (a, b, dr_value d) # bars else bars"
  have "ranges_from r x width last_x (d # ds) = Inr ?bars" using ab(1,2) bars(1) by auto
  moreover have "\<forall>(a, b, v)\<in>set ?bars. nint x \<le> a \<and> a \<le> b \<and> b \<le> nint (nadd x width) \<and> last_x < b"
    using ab(3-5) bars(2) by (fastforce split: if_splits)
  moreover have "sorted_wrt (\<lambda>p q. fst (snd p) < fst (snd q)) ?bars"
    using bars(2,3) by auto
  moreover have "\<forall>d\<in>set (d # ds). \<exists>b. screen_x r x width (nmin (num (dr_end d)) (tr_end r)) = Inr b \<and>
       (b \<le> last_x \<or> (\<exists>bar\<in>set ?bars. b \<le> fst (snd bar)))"
    using ab(2) bars(4) by (fastforce split: if_splits)
  ultimately show ?case by blast
qed

theorem bars_on_screen_witness:
  "\<exists>bars. ranges_from (set_render_range (num 10) (num 110) TimelinesRenderer) (num 40) (num 200) 39
      [DataRange 0 60 ''a'', DataRange 60 140 ''b''] = Inr bars \<and>
    (\<forall>(a, b, v)\<in>set bars. nint (num 40) \<le> a \<and> a \<le> b \<and> b \<le> nint (nadd (num 40) (num 200)) \<and> 39 < b)"
  using bars_on_screen [of "set_render_range (num 10) (num 110) TimelinesRenderer" "num 200"
    "[DataRange 0 60 ''a'', DataRange 60 140 ''b'']" "num 40" 39]
  by (fastforce simp: set_render_range_def meets_def DataRange_def)

text \<open>
  The events of a visible part are drawn from left to right at least three pixels apart, and an
  event, wherever it lies, is left out only when it would be at most two pixels right of the event
  drawn last before it.
\<close>

theorem events_spaced:
  assumes "nval (tr_start r) < nval (tr_end r)"
  shows "\<exists>ps. events_from r x y width last_x es = Inr ps \<and> subseq (map snd ps) es \<and>
    (\<forall>p\<in>set ps. last_x + 2 < fst p) \<and> sorted_wrt (\<lambda>p q. fst p + 2 < fst q) ps \<and>
    (\<forall>e\<in>set es. \<exists>v. screen_x r x width (num (ev_at e)) = Inr v \<and>
       (v \<le> last_x + 2 \<or> (\<exists>p\<in>set ps. v \<le> fst p + 2)))"
proof (induction es arbitrary: last_x)
  case Nil
  show ?case by simp
next
  case (Cons e es)
  obtain v where v: "screen_x r x width (num (ev_at e)) = Inr v" using screen_x_total [OF assms] by blast
  let ?last = "if last_x + 2 < v then v else last_x"
  from Cons.IH [of ?last] obtain ps where ps: "events_from r x y width ?last es = Inr ps" "subseq (map snd ps) es"
    "\<forall>p\<in>set ps. ?last + 2 < fst p" "sorted_wrt (\<lambda>p q. fst p + 2 < fst q) ps"
    "\<forall>e\<in>set es. \<exists>v. screen_x r x width (num (ev_at e)) = Inr v \<and>
       (v \<le> ?last + 2 \<or> (\<exists>p\<in>set ps. v \<le> fst p + 2))"
    by (elim exE conjE) (rule that)
  let ?ps = "if last_x + 2 < v then (v, e) # ps else ps"
  have "events_from r x y width last_x (e # es) = Inr ?ps" using v ps(1) by auto
  moreover have "subseq (map snd ?ps) (e # es)" using ps(2) by auto
  moreover have "\<forall>p\<in>set ?ps. last_x + 2 < fst p" using ps(3) by (fastforce split: if_splits)
  moreover have "sorted_wrt (\<lambda>p q. fst p + 2 < fst q) ?ps" using ps(3,4) by auto
  moreover have "\<forall>e\<in>set (e # es). \<exists>v. screen_x r x width (num (ev_at e)) = Inr v \<and>
       (v \<le> last_x + 2 \<or> (\<exists>p\<in>set ?ps. v \<le> fst p + 2))"
    using v ps(5) by (fastforce split: if_splits)
  ultimately show ?case by blast
qed

theorem events_spaced_witness:
  "\<exists>ps. events_from (set_render_range (num 0) (num 100) TimelinesRenderer) (num 40) (num 9) (num 100) 40
      [EventInt 10 1, EventInt 11 2] = Inr ps \<and>
    sorted_wrt (\<lambda>p q. fst p + 2 < fst q) ps"
  using events_spaced [of "set_render_range (num 0) (num 100) TimelinesRenderer" "num 40" "num 9" "num 100" 40
    "[EventInt 10 1, EventInt 11 2]"]
  by (simp add: set_render_range_def) blast

end
