(* ===== verification/GridParse.thy ===== *)
theory GridParse
  imports GridData
begin

text \<open>
  Reading a trace: the four line patterns of \<open>read_data\<close> in \<open>utils/grid.py\<close>, the handling of
  a line, and the whole file. The abstract contract of the reader is stated over the entries
  of the file: what each named timeline holds in the end is the sorted sub-list of the file's
  entries for that name.
\<close>

section \<open>Patterns\<close>

text \<open>
  The pieces of the regular expressions. A piece takes the rest of the line and returns the
  group it captured with what follows. The greedy runs cannot give characters back with
  success: each is followed by a character outside its class or by nothing.
\<close>

definition m_lit :: "string \<Rightarrow> string \<Rightarrow> string option" where
  "m_lit p s = (if startswith s p then Some (drop (length p) s) else None)"

definition m_run :: "(char \<Rightarrow> bool) \<Rightarrow> string \<Rightarrow> (string \<times> string) option" where
  "m_run P s = (if takeWhile P s = [] then None else Some (takeWhile P s, dropWhile P s))"

text \<open>\<open>([^ ]+)\<close>, \<open>([0-9]+)\<close> and \<open>([a-fA-F0-9]{2,2})\<close>.\<close>

definition m_word :: "string \<Rightarrow> (string \<times> string) option" where
  "m_word = m_run (\<lambda>c. c \<noteq> CHR '' '')"

definition m_digits :: "string \<Rightarrow> (string \<times> string) option" where
  "m_digits = m_run py_digit"

definition hex_digit :: "char \<Rightarrow> bool" where
  "hex_digit c \<longleftrightarrow> py_digit c \<or> c \<in> set ''abcdefABCDEF''"

definition hex_val :: "char \<Rightarrow> int" where
  "hex_val c =
     (let n = int (of_char c) in
      if py_digit c then n - 48 else if n \<ge> 97 then n - 87 else n - 55)"

definition m_hex2 :: "string \<Rightarrow> (int \<times> string) option" where
  "m_hex2 s =
     (case s of a # b # r \<Rightarrow>
        if hex_digit a \<and> hex_digit b then Some (16 * hex_val a + hex_val b, r) else None
      | _ \<Rightarrow> None)"

datatype grid_line =
    RangeLine string string string int int
  | EventStrLine string string string int
  | EventIntLine string string int int
  | ColorLine string int int int
  | OtherLine

definition m_int :: "string \<Rightarrow> int" where
  "m_int ds = int (nat_of_digits ds)"

definition match_m1 :: "string \<Rightarrow> grid_line option" where
  "match_m1 line =
     Option.bind (m_lit ''range '' line) (\<lambda>s.
     Option.bind (m_word s) (\<lambda>(g1, s). Option.bind (m_lit '' '' s) (\<lambda>s.
     Option.bind (m_word s) (\<lambda>(g2, s). Option.bind (m_lit '' '' s) (\<lambda>s.
     Option.bind (m_word s) (\<lambda>(g3, s). Option.bind (m_lit '' '' s) (\<lambda>s.
     Option.bind (m_digits s) (\<lambda>(g4, s). Option.bind (m_lit '' '' s) (\<lambda>s.
     Option.bind (m_digits s) (\<lambda>(g5, s).
       Some (RangeLine g1 g2 g3 (m_int g4) (m_int g5))))))))))))"

definition match_m2 :: "string \<Rightarrow> grid_line option" where
  "match_m2 line =
     Option.bind (m_lit ''event-str '' line) (\<lambda>s.
     Option.bind (m_word s) (\<lambda>(g1, s). Option.bind (m_lit '' '' s) (\<lambda>s.
     Option.bind (m_word s) (\<lambda>(g2, s). Option.bind (m_lit '' '' s) (\<lambda>s.
     Option.bind (m_word s) (\<lambda>(g3, s). Option.bind (m_lit '' '' s) (\<lambda>s.
     Option.bind (m_digits s) (\<lambda>(g4, s).
       Some (EventStrLine g1 g2 g3 (m_int g4))))))))))"

definition match_m3 :: "string \<Rightarrow> grid_line option" where
  "match_m3 line =
     Option.bind (m_lit ''event-int '' line) (\<lambda>s.
     Option.bind (m_word s) (\<lambda>(g1, s). Option.bind (m_lit '' '' s) (\<lambda>s.
     Option.bind (m_word s) (\<lambda>(g2, s). Option.bind (m_lit '' '' s) (\<lambda>s.
     Option.bind (m_digits s) (\<lambda>(g3, s). Option.bind (m_lit '' '' s) (\<lambda>s.
     Option.bind (m_digits s) (\<lambda>(g4, s).
       Some (EventIntLine g1 g2 (m_int g3) (m_int g4))))))))))"

definition match_m4 :: "string \<Rightarrow> grid_line option" where
  "match_m4 line =
     Option.bind (m_lit ''color '' line) (\<lambda>s.
     Option.bind (m_word s) (\<lambda>(g1, s). Option.bind (m_lit '' #'' s) (\<lambda>s.
     Option.bind (m_hex2 s) (\<lambda>(r, s). Option.bind (m_hex2 s) (\<lambda>(g, s).
     Option.bind (m_hex2 s) (\<lambda>(b, s). Some (ColorLine g1 r g b)))))))"

definition match_line :: "string \<Rightarrow> grid_line" where
  "match_line line =
     (case match_m1 line of Some l \<Rightarrow> l
      | None \<Rightarrow> (case match_m2 line of Some l \<Rightarrow> l
      | None \<Rightarrow> (case match_m3 line of Some l \<Rightarrow> l
      | None \<Rightarrow> (case match_m4 line of Some l \<Rightarrow> l | None \<Rightarrow> OtherLine))))"

section \<open>Reading a file\<close>

text \<open>
  One iteration of the loop. The timeline and the range or event list are reached through the
  references the lookups hand out: the positions \<open>i\<close> and \<open>j\<close>. The division by 255 is a
  division of integers.
\<close>

fun read_step :: "colors \<times> timelines \<Rightarrow> grid_line \<Rightarrow> colors \<times> timelines" where
  "read_step (cs, ts) (RangeLine g1 g2 g3 n4 n5) =
     (let (i, ts1) = timelines_get ts g1;
          (j, t) = get_range (ts1 ! i) g2;
          data_range = DataRange n4 n5 g3;
          t' = t\<lparr>tl_ranges := (tl_ranges t)[j := add_range (tl_ranges t ! j) data_range]\<rparr>
      in (cs, ts1[i := t']))"
| "read_step (cs, ts) (EventStrLine g1 g2 g3 n4) =
     (let (i, ts1) = timelines_get ts g1;
          (j, t) = get_event_str (ts1 ! i) g2;
          event = EventString n4 g3;
          t' = t\<lparr>tl_event_str := (tl_event_str t)[j := add_event (tl_event_str t ! j) event]\<rparr>
      in (cs, ts1[i := t']))"
| "read_step (cs, ts) (EventIntLine g1 g2 n3 n4) =
     (let (i, ts1) = timelines_get ts g1;
          (j, t) = get_event_int (ts1 ! i) g2;
          event = EventInt n4 n3;
          t' = t\<lparr>tl_event_int := (tl_event_int t)[j := add_event (tl_event_int t ! j) event]\<rparr>
      in (cs, ts1[i := t']))"
| "read_step (cs, ts) (ColorLine g1 r g b) =
     (colors_add cs g1 (rgb (r div 255) (g div 255) (b div 255)), ts)"
| "read_step (cs, ts) OtherLine = (cs, ts)"

definition read_lines :: "grid_line list \<Rightarrow> colors \<times> timelines" where
  "read_lines ls = foldl read_step (Colors, []) ls"

definition read_data :: "string list \<Rightarrow> colors \<times> timelines" where
  "read_data lines =
     (let (colors, timelines) = read_lines (map match_line lines)
      in (colors, timelines_sort timelines))"

section \<open>What a file says\<close>

text \<open>The entries of a file for one named range list or event list, in file order.\<close>

fun line_ranges :: "string \<Rightarrow> string \<Rightarrow> grid_line \<Rightarrow> data_range list" where
  "line_ranges tn rn (RangeLine g1 g2 v s e) =
     (if g1 = tn \<and> g2 = rn then [DataRange s e v] else [])"
| "line_ranges tn rn _ = []"

fun line_strs :: "string \<Rightarrow> string \<Rightarrow> grid_line \<Rightarrow> event list" where
  "line_strs tn en (EventStrLine g1 g2 v tm) =
     (if g1 = tn \<and> g2 = en then [EventString tm v] else [])"
| "line_strs tn en _ = []"

fun line_ints :: "string \<Rightarrow> string \<Rightarrow> grid_line \<Rightarrow> event list" where
  "line_ints tn en (EventIntLine g1 g2 v tm) =
     (if g1 = tn \<and> g2 = en then [EventInt tm v] else [])"
| "line_ints tn en _ = []"

text \<open>The abstract view of the collected timelines.\<close>

definition ranges_of :: "timelines \<Rightarrow> string \<Rightarrow> string \<Rightarrow> data_range list" where
  "ranges_of ts tn rn =
     tdr_ranges (entry tdr_name TimelineDataRange (tl_ranges (entry tl_name Timeline ts tn)) rn)"

definition strs_of :: "timelines \<Rightarrow> string \<Rightarrow> string \<Rightarrow> event list" where
  "strs_of ts tn en =
     te_events (entry te_name TimelineEvent (tl_event_str (entry tl_name Timeline ts tn)) en)"

definition ints_of :: "timelines \<Rightarrow> string \<Rightarrow> string \<Rightarrow> event list" where
  "ints_of ts tn en =
     te_events (entry te_name TimelineEvent (tl_event_int (entry tl_name Timeline ts tn)) en)"

definition names_ok :: "timeline \<Rightarrow> bool" where
  "names_ok t \<longleftrightarrow> distinct (map tdr_name (tl_ranges t)) \<and>
     distinct (map te_name (tl_event_str t)) \<and> distinct (map te_name (tl_event_int t))"

definition timelines_wf :: "timelines \<Rightarrow> bool" where
  "timelines_wf ts \<longleftrightarrow> distinct (map tl_name ts) \<and> (\<forall>t \<in> set ts. names_ok t)"

lemma Timeline_fields [simp]:
  "tl_name (Timeline n) = n" "tl_ranges (Timeline n) = []" "tl_event_str (Timeline n) = []"
  "tl_event_int (Timeline n) = []" "names_ok (Timeline n)"
  by (simp_all add: Timeline_def names_ok_def)

lemma entry_names [simp]:
  "tl_name (entry tl_name Timeline ts n) = n"
  "tdr_name (entry tdr_name TimelineDataRange rs n) = n"
  "te_name (entry te_name TimelineEvent es n) = n"
  by (auto simp: entry_def TimelineDataRange_def TimelineEvent_def dest!: find_name_Some
      split: option.splits)

lemma names_ok_entry: "timelines_wf ts \<Longrightarrow> names_ok (entry tl_name Timeline ts n)"
  using entry_mem [of tl_name Timeline ts n] by (auto simp: timelines_wf_def)

lemma container_names [simp]:
  "tdr_name (add_range r d) = tdr_name r" "te_name (add_event e v) = te_name e"
  by (simp_all add: add_range_def add_event_def)

text \<open>The timelines after a write to the looked-up one.\<close>

lemma write_timeline:
  assumes wf: "timelines_wf ts" and get: "timelines_get ts g = (i, ts1)"
    and t': "tl_name t' = g" "names_ok t'"
  shows "timelines_wf (ts1[i := t'])"
    and "entry tl_name Timeline (ts1[i := t']) n = (if n = g then t' else entry tl_name Timeline ts n)"
    and "ts1 ! i = entry tl_name Timeline ts g"
  using timelines_list.update_looked_up [OF _ get t'(1)] wf t'(2)
  by (fastforce simp: timelines_wf_def)+

lemma lookup_frames:
  "get_range t n = (j, t') \<Longrightarrow>
     tl_name t' = tl_name t \<and> tl_event_str t' = tl_event_str t \<and> tl_event_int t' = tl_event_int t"
  "get_event_str t n = (j, t') \<Longrightarrow>
     tl_name t' = tl_name t \<and> tl_ranges t' = tl_ranges t \<and> tl_event_int t' = tl_event_int t"
  "get_event_int t n = (j, t') \<Longrightarrow>
     tl_name t' = tl_name t \<and> tl_ranges t' = tl_ranges t \<and> tl_event_str t' = tl_event_str t"
  by (auto simp: get_range_def get_event_str_def get_event_int_def split: option.splits)

text \<open>A step of the loop appends the line's entries to the lists they name, and nothing else.\<close>

lemma read_step_view:
  assumes wf: "timelines_wf ts" and step: "read_step (cs, ts) l = (cs', ts')"
  shows "timelines_wf ts' \<and>
    ranges_of ts' tn n = ranges_of ts tn n @ line_ranges tn n l \<and>
    strs_of ts' tn n = strs_of ts tn n @ line_strs tn n l \<and>
    ints_of ts' tn n = ints_of ts tn n @ line_ints tn n l"
proof (cases l)
  case (RangeLine g1 g2 v s e)
  obtain i ts1 where i: "timelines_get ts g1 = (i, ts1)" by fastforce
  obtain j t where j: "get_range (ts1 ! i) g2 = (j, t)" by fastforce
  define t' where "t' = t\<lparr>tl_ranges := (tl_ranges t)[j := add_range (tl_ranges t ! j) (DataRange s e v)]\<rparr>"
  have old: "ts1 ! i = entry tl_name Timeline ts g1"
    using write_timeline(3) [OF wf i Timeline_fields(1,5)] .
  note ok = names_ok_entry [OF wf, of g1]
  note upd = ranges_list.update_looked_up
      [OF _ j, where x = "add_range (tl_ranges t ! j) (DataRange s e v)", unfolded old]
  have nm: "tdr_name (tl_ranges t ! j) = g2"
    using ranges_list.lookup_index(2) [of "ts1 ! i" g2] j by simp
  have d: "distinct (map tdr_name (tl_ranges (entry tl_name Timeline ts g1)))"
    using ok by (simp add: names_ok_def)
  have "tl_name t' = g1" and "names_ok t'"
    using lookup_frames(1) [OF j] old ok upd(2) [OF d] nm
    by (auto simp: t'_def names_ok_def)
  note w = write_timeline [OF wf i this]
  have "ts' = ts1[i := t']"
    using step RangeLine i j by (simp add: t'_def)
  then show ?thesis
    using w(1,2) RangeLine lookup_frames(1) [OF j] old upd(1,3) [OF d] nm
    by (auto simp: ranges_of_def strs_of_def ints_of_def t'_def add_range_def)
next
  case (EventStrLine g1 g2 v tm)
  obtain i ts1 where i: "timelines_get ts g1 = (i, ts1)" by fastforce
  obtain j t where j: "get_event_str (ts1 ! i) g2 = (j, t)" by fastforce
  define t' where "t' = t\<lparr>tl_event_str := (tl_event_str t)[j := add_event (tl_event_str t ! j) (EventString tm v)]\<rparr>"
  have old: "ts1 ! i = entry tl_name Timeline ts g1"
    using write_timeline(3) [OF wf i Timeline_fields(1,5)] .
  note ok = names_ok_entry [OF wf, of g1]
  note upd = events_str_list.update_looked_up
      [OF _ j, where x = "add_event (tl_event_str t ! j) (EventString tm v)", unfolded old]
  have nm: "te_name (tl_event_str t ! j) = g2"
    using events_str_list.lookup_index(2) [of "ts1 ! i" g2] j by simp
  have d: "distinct (map te_name (tl_event_str (entry tl_name Timeline ts g1)))"
    using ok by (simp add: names_ok_def)
  have "tl_name t' = g1" and "names_ok t'"
    using lookup_frames(2) [OF j] old ok upd(2) [OF d] nm
    by (auto simp: t'_def names_ok_def)
  note w = write_timeline [OF wf i this]
  have "ts' = ts1[i := t']"
    using step EventStrLine i j by (simp add: t'_def)
  then show ?thesis
    using w(1,2) EventStrLine lookup_frames(2) [OF j] old upd(1,3) [OF d] nm
    by (auto simp: ranges_of_def strs_of_def ints_of_def t'_def add_event_def)
next
  case (EventIntLine g1 g2 v tm)
  obtain i ts1 where i: "timelines_get ts g1 = (i, ts1)" by fastforce
  obtain j t where j: "get_event_int (ts1 ! i) g2 = (j, t)" by fastforce
  define t' where "t' = t\<lparr>tl_event_int := (tl_event_int t)[j := add_event (tl_event_int t ! j) (EventInt tm v)]\<rparr>"
  have old: "ts1 ! i = entry tl_name Timeline ts g1"
    using write_timeline(3) [OF wf i Timeline_fields(1,5)] .
  note ok = names_ok_entry [OF wf, of g1]
  note upd = events_int_list.update_looked_up
      [OF _ j, where x = "add_event (tl_event_int t ! j) (EventInt tm v)", unfolded old]
  have nm: "te_name (tl_event_int t ! j) = g2"
    using events_int_list.lookup_index(2) [of "ts1 ! i" g2] j by simp
  have d: "distinct (map te_name (tl_event_int (entry tl_name Timeline ts g1)))"
    using ok by (simp add: names_ok_def)
  have "tl_name t' = g1" and "names_ok t'"
    using lookup_frames(3) [OF j] old ok upd(2) [OF d] nm
    by (auto simp: t'_def names_ok_def)
  note w = write_timeline [OF wf i this]
  have "ts' = ts1[i := t']"
    using step EventIntLine i j by (simp add: t'_def)
  then show ?thesis
    using w(1,2) EventIntLine lookup_frames(3) [OF j] old upd(1,3) [OF d] nm
    by (auto simp: ranges_of_def strs_of_def ints_of_def t'_def add_event_def)
next
  case (ColorLine g r gr b)
  then show ?thesis using wf step by simp
next
  case OtherLine
  then show ?thesis using wf step by simp
qed

lemma read_lines_view:
  "timelines_wf (snd (read_lines ls)) \<and>
   ranges_of (snd (read_lines ls)) tn n = concat (map (line_ranges tn n) ls) \<and>
   strs_of (snd (read_lines ls)) tn n = concat (map (line_strs tn n) ls) \<and>
   ints_of (snd (read_lines ls)) tn n = concat (map (line_ints tn n) ls)"
proof (induction ls rule: rev_induct)
  case Nil
  show ?case
    by (simp add: read_lines_def timelines_wf_def ranges_of_def strs_of_def ints_of_def entry_def
        TimelineDataRange_def TimelineEvent_def)
next
  case (snoc l ls)
  obtain cs ts where st: "read_lines ls = (cs, ts)" by fastforce
  obtain cs' ts' where st': "read_step (cs, ts) l = (cs', ts')" by fastforce
  have "read_lines (ls @ [l]) = (cs', ts')"
    using st st' by (simp add: read_lines_def)
  with snoc.IH st st' read_step_view [OF _ st', of tn n] show ?case by simp
qed

lemma sorted_views:
  "ranges_of (timelines_sort ts) tn n = sort_key dr_start (ranges_of ts tn n)"
  "strs_of (timelines_sort ts) tn n = sort_key ev_at (strs_of ts tn n)"
  "ints_of (timelines_sort ts) tn n = sort_key ev_at (ints_of ts tn n)"
proof -
  have nil: "py_sort cmp [] = []" for cmp :: "'a \<Rightarrow> 'a \<Rightarrow> int" by (simp add: py_sort_def)
  have t: "entry tl_name Timeline (timelines_sort ts) tn = tl_sort (entry tl_name Timeline ts tn)"
    unfolding timelines_sort_def
    by (rule entry_map) (simp_all add: tl_sort_def Timeline_def)
  have r: "entry tdr_name TimelineDataRange (map tdr_sort rs) n =
      tdr_sort (entry tdr_name TimelineDataRange rs n)" for rs
    by (intro entry_map) (simp_all add: grid_simps tdr_sort_def TimelineDataRange_def nil)
  have e: "entry te_name TimelineEvent (map te_sort es) n =
      te_sort (entry te_name TimelineEvent es n)" for es
    by (intro entry_map) (simp_all add: grid_simps te_sort_def TimelineEvent_def nil)
  show "ranges_of (timelines_sort ts) tn n = sort_key dr_start (ranges_of ts tn n)"
    "strs_of (timelines_sort ts) tn n = sort_key ev_at (strs_of ts tn n)"
    "ints_of (timelines_sort ts) tn n = sort_key ev_at (ints_of ts tn n)"
    using tdr_sort_eq te_sort_eq
    by (simp_all add: ranges_of_def strs_of_def ints_of_def t tl_sort_def r e)
qed

text \<open>
  C4: reading a trace stores, under every pair of names, exactly the entries the file has for
  that pair, stably sorted by time: ranges, string events and integer events.
\<close>

theorem read_data_contents:
  "let ls = map match_line lines; ts = snd (read_data lines) in
     ranges_of ts tn n = sort_key dr_start (concat (map (line_ranges tn n) ls)) \<and>
     strs_of ts tn n = sort_key ev_at (concat (map (line_strs tn n) ls)) \<and>
     ints_of ts tn n = sort_key ev_at (concat (map (line_ints tn n) ls))"
  using read_lines_view [of "map match_line lines" tn n]
  by (cases "read_lines (map match_line lines)") (simp add: read_data_def sorted_views)

section \<open>Well-formed lines\<close>

definition word_ok :: "string \<Rightarrow> bool" where
  "word_ok w \<longleftrightarrow> w \<noteq> [] \<and> CHR '' '' \<notin> set w"

fun show_line :: "grid_line \<Rightarrow> string" where
  "show_line (RangeLine a b c s e) =
     ''range '' @ a @ '' '' @ b @ '' '' @ c @ '' '' @ show_nat (nat s) @ '' '' @ show_nat (nat e)"
| "show_line (EventStrLine a b c s) =
     ''event-str '' @ a @ '' '' @ b @ '' '' @ c @ '' '' @ show_nat (nat s)"
| "show_line (EventIntLine a b v s) =
     ''event-int '' @ a @ '' '' @ b @ '' '' @ show_nat (nat v) @ '' '' @ show_nat (nat s)"
| "show_line _ = []"

fun line_ok :: "grid_line \<Rightarrow> bool" where
  "line_ok (RangeLine a b c s e) = (word_ok a \<and> word_ok b \<and> word_ok c \<and> 0 \<le> s \<and> 0 \<le> e)"
| "line_ok (EventStrLine a b c s) = (word_ok a \<and> word_ok b \<and> word_ok c \<and> 0 \<le> s)"
| "line_ok (EventIntLine a b v s) = (word_ok a \<and> word_ok b \<and> 0 \<le> v \<and> 0 \<le> s)"
| "line_ok _ = False"

lemma m_word_ok: "word_ok w \<Longrightarrow> m_word (w @ CHR '' '' # r) = Some (w, CHR '' '' # r)"
proof -
  assume w: "word_ok w"
  then have "c \<noteq> CHR '' ''" if "c \<in> set w" for c
    using that by (auto simp: word_ok_def)
  then have "takeWhile (\<lambda>c. c \<noteq> CHR '' '') (w @ CHR '' '' # r) = w"
    "dropWhile (\<lambda>c. c \<noteq> CHR '' '') (w @ CHR '' '' # r) = CHR '' '' # r"
    by (intro takeWhile_append_stop dropWhile_append_stop; simp)+
  with w show ?thesis by (simp add: m_word_def m_run_def word_ok_def)
qed

lemma m_digits_ok:
  "r = [] \<or> \<not> py_digit (hd r) \<Longrightarrow> m_digits (show_nat n @ r) = Some (show_nat n, r)"
proof -
  assume r: "r = [] \<or> \<not> py_digit (hd r)"
  have "takeWhile py_digit (show_nat n @ r) = show_nat n \<and> dropWhile py_digit (show_nat n @ r) = r"
  proof (cases r)
    case Nil
    then show ?thesis
      using show_nat_digits by (auto simp: takeWhile_eq_all_conv dropWhile_eq_Nil_conv)
  next
    case (Cons c cs)
    then show ?thesis
      using r show_nat_digits [of _ n] takeWhile_append_stop [of "show_nat n" py_digit c cs]
        dropWhile_append_stop [of "show_nat n" py_digit c cs] by simp
  qed
  then show ?thesis by (simp add: m_digits_def m_run_def)
qed

lemma m_lit_ok: "m_lit p (p @ s) = Some s"
  by (simp add: m_lit_def)

lemma m_lit_space: "m_lit '' '' (CHR '' '' # s) = Some s"
  using m_lit_ok [of "'' ''" s] by simp

lemma not_digit [simp]: "\<not> py_digit (CHR '' '')" "\<not> py_digit (CHR 0x0A)"
  by (simp_all add: py_digit_def)

lemma m_digits_end: "m_digits (show_nat n @ [CHR 0x0A]) = Some (show_nat n, [CHR 0x0A])"
  "m_digits (show_nat n @ CHR '' '' # r) = Some (show_nat n, CHR '' '' # r)"
  by (rule m_digits_ok, simp)+

lemmas line_matchers = m_word_ok m_lit_space m_digits_end

lemma match_m1_ok:
  assumes "word_ok a" "word_ok b" "word_ok c"
  shows "match_m1 (''range '' @ a @ '' '' @ b @ '' '' @ c @ '' '' @ show_nat s @ '' '' @ show_nat e @
      [CHR 0x0A]) = Some (RangeLine a b c (int s) (int e))"
  using assms by (simp add: match_m1_def m_lit_ok [of "''range ''", simplified] line_matchers m_int_def)

lemma match_m2_ok:
  assumes "word_ok a" "word_ok b" "word_ok c"
  shows "match_m2 (''event-str '' @ a @ '' '' @ b @ '' '' @ c @ '' '' @ show_nat s @ [CHR 0x0A]) =
     Some (EventStrLine a b c (int s))"
  using assms
  by (simp add: match_m2_def m_lit_ok [of "''event-str ''", simplified] line_matchers m_int_def)

lemma match_m3_ok:
  assumes "word_ok a" "word_ok b"
  shows "match_m3 (''event-int '' @ a @ '' '' @ b @ '' '' @ show_nat v @ '' '' @ show_nat s @ [CHR 0x0A]) =
     Some (EventIntLine a b (int v) (int s))"
  using assms
  by (simp add: match_m3_def m_lit_ok [of "''event-int ''", simplified] line_matchers m_int_def)

text \<open>
  A well-formed range or event line, printed with its newline, is recognised as what it
  says: the patterns do not shadow one another and no field is cut or extended.
\<close>

theorem match_line_roundtrip:
  assumes "line_ok l"
  shows "match_line (show_line l @ [CHR 0x0A]) = l"
proof (cases l)
  case (RangeLine a b c s e)
  then show ?thesis using assms match_m1_ok [of a b c "nat s" "nat e"] by (simp add: match_line_def)
next
  case (EventStrLine a b c s)
  then show ?thesis
    using assms match_m2_ok [of a b c "nat s"]
    by (simp add: match_line_def match_m1_def m_lit_def startswith_def)
next
  case (EventIntLine a b v s)
  then show ?thesis
    using assms match_m3_ok [of a b "nat v" "nat s"]
    by (simp add: match_line_def match_m1_def match_m2_def m_lit_def startswith_def)
qed (use assms in auto)

theorem match_line_roundtrip_witness:
  "match_line (show_line (RangeLine ''n0'' ''tx'' ''busy'' 10 250) @ [CHR 0x0A]) =
     RangeLine ''n0'' ''tx'' ''busy'' 10 250"
  by (rule match_line_roundtrip) (simp add: word_ok_def)

section \<open>Colour lines\<close>

text \<open>
  The channels of a colour line are divided as integers, so a colour read from a file only
  has channels 0 and 1, and 1 only for the channel value 255.
\<close>

lemma color_line_truncated:
  assumes "match_line line = ColorLine name r g b"
  shows "\<exists>cs'. read_step (cs, ts) (match_line line) = (cs', ts) \<and>
    map_of (cs_colors cs') name = Some (rgb (if r = 255 then 1 else 0) (if g = 255 then 1 else 0)
       (if b = 255 then 1 else 0)) \<and> cs_default cs' = cs_default cs"
proof -
  have hex: "0 \<le> h \<and> h \<le> 255" if "m_hex2 s = Some (h, s')" for h s s'
  proof -
    have v: "0 \<le> hex_val c \<and> hex_val c \<le> 15" if "hex_digit c" for c
      using that by (auto simp: hex_digit_def hex_val_def py_digit_def)
    from that obtain x y where "hex_digit x" "hex_digit y" "h = 16 * hex_val x + hex_val y"
      by (auto simp: m_hex2_def split: list.splits if_splits)
    with v [of x] v [of y] show ?thesis by auto
  qed
  have m4: "match_m4 line = Some (ColorLine name r g b)"
    using assms
    by (auto simp: match_line_def match_m1_def match_m2_def match_m3_def bind_eq_Some_conv
        split: option.splits prod.splits)
  then have "(0 \<le> r \<and> r \<le> 255) \<and> (0 \<le> g \<and> g \<le> 255) \<and> 0 \<le> b \<and> b \<le> 255"
    by (auto simp: match_m4_def bind_eq_Some_conv dest: hex split: prod.splits)
  then have "r div 255 = (if r = 255 then 1 else 0)" "g div 255 = (if g = 255 then 1 else 0)"
    "b div 255 = (if b = 255 then 1 else 0)"
    by auto
  with assms show ?thesis by (simp add: colors_add_def)
qed

lemma color_line_truncated_witness:
  "match_line ''color busy #ff8000'' = ColorLine ''busy'' 255 128 0 \<and>
   (\<exists>cs'. read_step (Colors, []) (match_line ''color busy #ff8000'') = (cs', []) \<and>
     map_of (cs_colors cs') ''busy'' = Some (rgb 1 0 0))"
proof -
  have m: "match_line ''color busy #ff8000'' = ColorLine ''busy'' 255 128 0"
    by code_simp
  show ?thesis using color_line_truncated [OF m, of Colors "[]"] m by auto
qed

end
