(* ===== verification/GridGui.thy ===== *)
theory GridGui
  imports GridView GridParse
begin

text \<open>
  The interactive part of the timeline viewer: \<open>GraphicRenderer\<close>, which combines the renderers and
  keeps the visible range, \<open>GtkGraphicRenderer\<close> as a state machine over mouse and window events,
  the zoom buttons of \<open>MainWindow\<close>, and \<open>main\<close>.
\<close>

section \<open>GraphicRenderer\<close>

record graphic =
  gr_start :: pynum
  gr_end :: pynum
  gr_r_start :: pynum
  gr_r_end :: pynum
  gr_width :: pynum
  gr_height :: pynum
  gr_top_legend :: top_legend
  gr_data :: timelines_renderer
  gr_mid_scale :: scale_renderer
  gr_bot_scale :: scale_renderer

definition GraphicRenderer :: "pynum \<Rightarrow> pynum \<Rightarrow> graphic" where
  "GraphicRenderer start en =
     \<lparr>gr_start = nfloat start, gr_end = nfloat en, gr_r_start = num 0, gr_r_end = num 0,
      gr_width = num 1, gr_height = num 1, gr_top_legend = TopLegendRenderer, gr_data = TimelinesRenderer,
      gr_mid_scale = set_top ScaleRenderer, gr_bot_scale = set_bot (set_bounds start en ScaleRenderer)\<rparr>"

definition set_data :: "timelines_renderer \<Rightarrow> graphic \<Rightarrow> graphic" where
  "set_data d g = g\<lparr>gr_data := d\<rparr>"

definition set_top_legend :: "top_legend \<Rightarrow> graphic \<Rightarrow> graphic" where
  "set_top_legend l g = g\<lparr>gr_top_legend := l\<rparr>"

definition get_visible_range :: "graphic \<Rightarrow> pynum \<times> pynum" where
  "get_visible_range g = (gr_r_start g, gr_r_end g)"

text \<open>Rectangles are x, y, width and height.\<close>

definition get_data_rectangle :: "graphic \<Rightarrow> pynum \<times> pynum \<times> pynum \<times> pynum" where
  "get_data_rectangle g =
     (let x_start = get_data_x_start (gr_data g) in
      (x_start, lg_height (gr_top_legend g), nsub (gr_width g) x_start, tr_height (gr_data g)))"

definition scale_data :: "graphic \<Rightarrow> pynum \<Rightarrow> pynum pyres" where
  "scale_data g x =
     rmap (\<lambda>q. nmul q (nsub (gr_r_end g) (gr_r_start g)))
       (ndiv x (nsub (gr_width g) (get_data_x_start (gr_data g))))"

definition get_selection_rectangle :: "graphic \<Rightarrow> (pynum \<times> pynum \<times> pynum \<times> pynum) pyres" where
  "get_selection_rectangle g =
     rbind (get_position (gr_bot_scale g) (gr_r_start g)) (\<lambda>x_start.
     rmap (\<lambda>x_end. (x_start,
            nadd (nadd (nadd (lg_height (gr_top_legend g)) (tr_height (gr_data g))) (sc_height (gr_mid_scale g))) (num 20),
            nsub x_end x_start, nadd (sc_height (gr_bot_scale g)) (num 20)))
       (get_position (gr_bot_scale g) (gr_r_end g)))"

definition scale_selection :: "graphic \<Rightarrow> pynum \<Rightarrow> pynum pyres" where
  "scale_selection g x = rmap (\<lambda>q. nmul q (nsub (gr_end g) (gr_start g))) (ndiv x (gr_width g))"

definition graphic_layout :: "extents \<Rightarrow> pynum \<Rightarrow> pynum \<Rightarrow> graphic \<Rightarrow> graphic pyres" where
  "graphic_layout te width height g =
     (let legend = legend_layout te width (gr_top_legend g); data = timelines_layout te width (gr_data g) in
      rbind (scale_layout te (nsub width (get_data_x_start data)) (gr_mid_scale g)) (\<lambda>mid.
      rmap (\<lambda>bot. g\<lparr>gr_width := width, gr_height := height, gr_top_legend := legend, gr_data := data,
                    gr_mid_scale := mid, gr_bot_scale := bot\<rparr>)
        (scale_layout te width (gr_bot_scale g))))"

definition set_range :: "extents \<Rightarrow> pynum \<Rightarrow> pynum \<Rightarrow> graphic \<Rightarrow> graphic pyres" where
  "set_range te start en g =
     (let s = nmin start en; e = nmax start en;
          start = nmax (gr_start g) s; en = nmin (gr_end g) e in
      graphic_layout te (gr_width g) (gr_height g)
        (g\<lparr>gr_r_start := start, gr_r_end := en, gr_data := set_render_range start en (gr_data g),
           gr_mid_scale := set_bounds start en (gr_mid_scale g)\<rparr>))"

text \<open>\<open>__x_pixel\<close> has no caller.\<close>

definition x_pixel :: "graphic \<Rightarrow> pynum \<Rightarrow> pynum \<Rightarrow> pynum pyres" where
  "x_pixel g x width = ndiv (nmul (nsub x (gr_start g)) width) (nsub (gr_end g) (gr_start g))"

definition separators :: "graphic \<Rightarrow> pynum \<Rightarrow> cairo list" where
  "separators g height_used =
     [MoveTo (get_data_x_start (gr_data g)) height_used, RelLineTo (num 0) (nneg (sc_height (gr_mid_scale g))),
      ClosePath, black, SetLineWidth (num 2), Stroke,
      MoveTo (num 0) height_used, LineTo (gr_width g) height_used, ClosePath, SetLineWidth (num 2), black, Stroke]"

definition connections :: "graphic \<Rightarrow> pynum \<Rightarrow> pynum \<Rightarrow> pynum \<Rightarrow> cairo list" where
  "connections g height_used select_start select_end =
     (let below = nadd height_used (num 20) in
      [MoveTo (num 0) height_used, LineTo (get_data_x_start (gr_data g)) height_used,
       LineTo select_start below, LineTo (num 0) below, LineTo (num 0) height_used,
       black, SetLineWidth (num 1), StrokePreserve, grey, Fill,
       MoveTo (gr_width g) height_used, LineTo (gr_width g) below, LineTo select_end below,
       LineTo (gr_width g) height_used, black, SetLineWidth (num 1), StrokePreserve, grey, Fill])"

definition selection_frame :: "graphic \<Rightarrow> pynum \<Rightarrow> pynum \<Rightarrow> pynum \<Rightarrow> cairo list" where
  "selection_frame g h unused_start unused_end =
     (let unused_height = nadd (sc_height (gr_bot_scale g)) (num 20); low = nadd h unused_height; w = gr_width g in
      [Rectangle (num 0) h unused_start unused_height,
       Rectangle unused_end h (nsub w unused_end) unused_height, grey, Fill,
       MoveTo unused_end h, LineTo w h, LineTo w low, LineTo (num 0) low, LineTo (num 0) h,
       LineTo unused_start h, ClosePath, SetLineWidth (num 2), black, Stroke,
       MoveTo unused_start h, LineTo unused_end h, ClosePath, SetLineWidth (num 1), grey, Stroke,
       Save, MoveTo (nmax unused_start (num 2)) h, RelLineTo (num 0) unused_height,
       MoveTo (nmin unused_end (nsub w (num 2))) h, RelLineTo (num 0) unused_height,
       SetDash, black, SetLineWidth (num 1), Stroke, Restore])"

definition graphic_draw :: "extents \<Rightarrow> graphic \<Rightarrow> (graphic \<times> cairo list) pyres" where
  "graphic_draw te g =
     (let top = lg_height (gr_top_legend g);
          used = nadd (nadd top (tr_height (gr_data g))) (sc_height (gr_mid_scale g));
          used20 = nadd used (num 20) in
      rbind (legend_draw te (gr_top_legend g)) (\<lambda>legend.
      rbind (timelines_draw te (gr_data g)) (\<lambda>(data, rows).
      rbind (scale_draw te (gr_mid_scale g)) (\<lambda>mid.
      rbind (get_position (gr_bot_scale g) (gr_r_start g)) (\<lambda>sel_start.
      rbind (get_position (gr_bot_scale g) (gr_r_end g)) (\<lambda>sel_end.
      rmap (\<lambda>bot. (g\<lparr>gr_data := data\<rparr>,
          [Save, SetRGB (num 1) (num 1) (num 1), OperatorSource, Rectangle (num 0) (num 0) (gr_width g) (gr_height g), Fill] @
          [Save] @ legend @ [Restore] @
          [MoveTo (num 0) top, LineTo (gr_width g) top, ClosePath, SetLineWidth (num 2), black, Stroke] @
          [Save, Translate (num 0) top] @ rows @ [Restore] @
          [Save, Translate (get_data_x_start (gr_data g)) used] @ mid @ [Restore] @
          separators g used @ connections g used sel_start sel_end @ selection_frame g used20 sel_start sel_end @
          [Save, Translate (num 0) used20] @ bot @ [Restore]))
        (scale_draw te (gr_bot_scale g))))))))"

section \<open>GtkGraphicRenderer\<close>

text \<open>
  Attributes that only an event handler sets are None before; \<open>__moving_right\<close> can hold a number
  as well as a boolean, of which the code only looks at the truth value.
\<close>

record gtk_renderer =
  gt_data :: graphic
  gt_moving_left :: bool
  gt_moving_right :: bool
  gt_moving_both :: bool
  gt_moving_top :: bool
  gt_force_full_redraw :: bool
  gt_moving_left_cur :: "pynum option"
  gt_moving_right_cur :: "pynum option"
  gt_moving_both_start :: "pynum option"
  gt_moving_both_cur :: "pynum option"
  gt_moving_top_start :: "pynum option"
  gt_moving_top_cur :: "pynum option"
  gt_width :: "pynum option"
  gt_height :: "pynum option"
  gt_buffer_surface :: "cairo list option"

definition GtkGraphicRenderer :: "graphic \<Rightarrow> gtk_renderer" where
  "GtkGraphicRenderer d =
     \<lparr>gt_data = d, gt_moving_left = False, gt_moving_right = False, gt_moving_both = False, gt_moving_top = False,
      gt_force_full_redraw = True, gt_moving_left_cur = None, gt_moving_right_cur = None,
      gt_moving_both_start = None, gt_moving_both_cur = None, gt_moving_top_start = None, gt_moving_top_cur = None,
      gt_width = None, gt_height = None, gt_buffer_surface = None\<rparr>"

definition attr :: "'a option \<Rightarrow> 'a pyres" where
  "attr v = (case v of None \<Rightarrow> Inl AttributeError | Some x \<Rightarrow> Inr x)"

text \<open>A new visible range, and a full redraw.\<close>

definition change_range :: "extents \<Rightarrow> pynum \<Rightarrow> pynum \<Rightarrow> gtk_renderer \<Rightarrow> gtk_renderer pyres" where
  "change_range te left right g =
     rmap (\<lambda>d. g\<lparr>gt_data := d, gt_force_full_redraw := True\<rparr>) (set_range te left right (gt_data g))"

definition set_smaller_zoom :: "extents \<Rightarrow> gtk_renderer \<Rightarrow> gtk_renderer pyres" where
  "set_smaller_zoom te g =
     change_range te (fst (get_visible_range (gt_data g)))
       (nadd (fst (get_visible_range (gt_data g)))
         (nmul (nsub (snd (get_visible_range (gt_data g))) (fst (get_visible_range (gt_data g)))) (num 2))) g"

definition set_bigger_zoom :: "extents \<Rightarrow> gtk_renderer \<Rightarrow> gtk_renderer pyres" where
  "set_bigger_zoom te g =
     change_range te (fst (get_visible_range (gt_data g)))
       (nadd (fst (get_visible_range (gt_data g)))
         (nhalf (nsub (snd (get_visible_range (gt_data g))) (fst (get_visible_range (gt_data g)))))) g"

text \<open>
  The image that is written is the empty one: the drawing goes to the buffer of the window.
\<close>

definition output_png :: "extents \<Rightarrow> gtk_renderer \<Rightarrow> (gtk_renderer \<times> cairo list) pyres" where
  "output_png te g =
     rbind (attr (gt_buffer_surface g)) (\<lambda>buffer.
     rmap (\<lambda>(d, cmds). (g\<lparr>gt_data := d, gt_buffer_surface := Some (buffer @ cmds)\<rparr>, []))
       (graphic_draw te (gt_data g)))"

definition near :: "pynum \<Rightarrow> pynum \<Rightarrow> bool" where
  "near a b \<longleftrightarrow> nlt (nabs (nsub a b)) (num 5)"

definition between :: "pynum \<Rightarrow> pynum \<Rightarrow> pynum \<Rightarrow> bool" where
  "between a lo extent \<longleftrightarrow> nlt lo a \<and> nlt a (nadd lo extent)"

definition button_press :: "pynum \<Rightarrow> pynum \<Rightarrow> gtk_renderer \<Rightarrow> (bool \<times> gtk_renderer) pyres" where
  "button_press ex ey g =
     rmap (\<lambda>(x, y, width, height).
       (let (d_x, d_y, d_width, d_height) = get_data_rectangle (gt_data g) in
        if between ey y height \<and> near ex x then (True, g\<lparr>gt_moving_left := True\<rparr>)
        else if between ey y height \<and> near ex (nadd x width) then (True, g\<lparr>gt_moving_right := True\<rparr>)
        else if between ey y height \<and> between ex x width then
          (True, g\<lparr>gt_moving_both := True, gt_moving_both_start := Some ex, gt_moving_both_cur := Some ex\<rparr>)
        else if between ey d_y d_height \<and> between ex d_x d_width then
          (True, g\<lparr>gt_moving_top := True, gt_moving_top_start := Some ex, gt_moving_top_cur := Some ex\<rparr>)
        else (False, g)))
       (get_selection_rectangle (gt_data g))"

definition button_release :: "extents \<Rightarrow> gtk_renderer \<Rightarrow> (bool \<times> gtk_renderer) pyres" where
  "button_release te g =
     (if gt_moving_left g then
        (let g = g\<lparr>gt_moving_left := False\<rparr> in
         rbind (attr (gt_moving_left_cur g)) (\<lambda>cur.
         rbind (scale_selection (gt_data g) cur) (\<lambda>left.
         rmap (Pair True) (change_range te left (snd (get_visible_range (gt_data g))) g))))
      else if gt_moving_right g then
        (let g = g\<lparr>gt_moving_right := False\<rparr> in
         rbind (attr (gt_moving_right_cur g)) (\<lambda>cur.
         rbind (scale_selection (gt_data g) cur) (\<lambda>right.
         rmap (Pair True) (change_range te (fst (get_visible_range (gt_data g))) right g))))
      else if gt_moving_both g then
        (let g = g\<lparr>gt_moving_both := False\<rparr> in
         rbind (attr (gt_moving_both_cur g)) (\<lambda>cur.
         rbind (attr (gt_moving_both_start g)) (\<lambda>start.
         rbind (scale_selection (gt_data g) (nsub cur start)) (\<lambda>delta.
         rmap (Pair True)
           (change_range te (nadd (fst (get_visible_range (gt_data g))) delta)
              (nadd (snd (get_visible_range (gt_data g))) delta) g)))))
      else if gt_moving_top g then Inr (False, g\<lparr>gt_moving_top := False\<rparr>)
      else Inr (False, g))"

definition move_left :: "pynum \<Rightarrow> pynum \<Rightarrow> pynum \<Rightarrow> gtk_renderer \<Rightarrow> gtk_renderer" where
  "move_left ex x width g =
     g\<lparr>gt_moving_left_cur := Some
        (if nle ex (num 0) then num 0 else if nle (nadd x width) ex then nadd x width else ex)\<rparr>"

text \<open>At the right border the code assigns to \<open>__moving_right\<close> and leaves \<open>__moving_right_cur\<close> alone.\<close>

definition move_right :: "pynum \<Rightarrow> pynum \<Rightarrow> gtk_renderer \<Rightarrow> gtk_renderer pyres" where
  "move_right ex x g =
     rmap (\<lambda>w. if nle w ex then g\<lparr>gt_moving_right := (nval w \<noteq> 0)\<rparr>
               else if nlt ex x then g\<lparr>gt_moving_right_cur := Some x\<rparr>
               else g\<lparr>gt_moving_right_cur := Some ex\<rparr>)
       (attr (gt_width g))"

definition move_both :: "pynum \<Rightarrow> pynum \<Rightarrow> pynum \<Rightarrow> gtk_renderer \<Rightarrow> gtk_renderer pyres" where
  "move_both ex x width g =
     rbind (attr (gt_width g)) (\<lambda>w.
     rmap (\<lambda>start.
       (let cur_e = nsub w (nsub (nadd x width) start); cur_s = nsub start x in
        g\<lparr>gt_moving_both_cur := Some (if nlt ex cur_s then cur_s else if nlt cur_e ex then cur_e else ex)\<rparr>))
       (attr (gt_moving_both_start g)))"

definition move_top :: "extents \<Rightarrow> pynum \<Rightarrow> gtk_renderer \<Rightarrow> gtk_renderer pyres" where
  "move_top te ex g =
     (let g = g\<lparr>gt_moving_top_cur := Some ex\<rparr> in
      rbind (attr (gt_moving_top_start g)) (\<lambda>start.
      rbind (scale_data (gt_data g) (nsub start ex)) (\<lambda>delta.
      rmap (\<lambda>g. g\<lparr>gt_moving_top_start := Some ex\<rparr>)
        (change_range te (nadd (fst (get_visible_range (gt_data g))) delta)
           (nadd (snd (get_visible_range (gt_data g))) delta) g))))"

text \<open>Without a drag, a motion only changes the cursor and tells whether it did.\<close>

definition over_handle :: "pynum \<Rightarrow> pynum \<Rightarrow> pynum \<times> pynum \<times> pynum \<times> pynum \<Rightarrow> graphic \<Rightarrow> bool" where
  "over_handle ex ey sel d =
     (case sel of (x, y, width, height) \<Rightarrow> case get_data_rectangle d of (d_x, d_y, d_width, d_height) \<Rightarrow>
        between ey y height \<and> (near ex x \<or> near ex (nadd x width) \<or> between ex x width) \<or>
        between ey d_y d_height \<and> between ex d_x d_width)"

definition motion_notify :: "extents \<Rightarrow> pynum \<Rightarrow> pynum \<Rightarrow> gtk_renderer \<Rightarrow> (bool \<times> gtk_renderer) pyres" where
  "motion_notify te ex ey g =
     rbind (get_selection_rectangle (gt_data g)) (\<lambda>(x, y, width, height).
       if gt_moving_left g then rmap (\<lambda>w. (True, move_left ex x width g)) (attr (gt_width g))
       else if gt_moving_right g then rmap (Pair True) (move_right ex x g)
       else if gt_moving_both g then rmap (Pair True) (move_both ex x width g)
       else if gt_moving_top g then rmap (Pair True) (move_top te ex g)
       else Inr (over_handle ex ey (x, y, width, height) (gt_data g), g))"

definition size_allocate :: "extents \<Rightarrow> pynum \<Rightarrow> pynum \<Rightarrow> gtk_renderer \<Rightarrow> gtk_renderer pyres" where
  "size_allocate te w h g =
     rmap (\<lambda>d. g\<lparr>gt_width := Some w, gt_height := Some h, gt_data := d, gt_force_full_redraw := True\<rparr>)
       (graphic_layout te w h (gt_data g))"

definition drag_line :: "pynum \<Rightarrow> pynum \<Rightarrow> pynum \<Rightarrow> cairo list" where
  "drag_line x y height = [MoveTo x y, RelLineTo (num 0) height, ClosePath]"

text \<open>The overlay of a drag; the buffer is copied below it.\<close>

definition expose :: "extents \<Rightarrow> gtk_renderer \<Rightarrow> (gtk_renderer \<times> cairo list) pyres" where
  "expose te g =
     rbind (if gt_force_full_redraw g then
              rmap (\<lambda>(d, cmds). g\<lparr>gt_data := d, gt_buffer_surface := Some cmds, gt_force_full_redraw := False\<rparr>)
                (graphic_draw te (gt_data g))
            else Inr g) (\<lambda>g.
     rbind (attr (gt_buffer_surface g)) (\<lambda>_.
     rbind (get_selection_rectangle (gt_data g)) (\<lambda>(x, y, width, height).
     rbind (if gt_moving_left g then
              rmap (\<lambda>cur. drag_line (nmax cur (num 2)) y height @ [SetLineWidth (num 1), black, Stroke])
                (attr (gt_moving_left_cur g)) else Inr []) (\<lambda>left.
     rbind (if gt_moving_right g then
              rbind (attr (gt_moving_right_cur g)) (\<lambda>cur.
              rmap (\<lambda>w. drag_line (nmin cur (nsub w (num 2))) y height @ [SetLineWidth (num 1), black, Stroke])
                (attr (gt_width g))) else Inr []) (\<lambda>right.
     rbind (if gt_moving_both g then
              rbind (attr (gt_moving_both_cur g)) (\<lambda>cur.
              rmap (\<lambda>start. (let delta_x = nsub cur start in
                   drag_line (nadd x delta_x) y height @ drag_line (nadd (nadd x width) delta_x) y height @
                   [black, SetLineWidth (num 1), Stroke]))
                (attr (gt_moving_both_start g))) else Inr []) (\<lambda>both.
       Inr (g, left @ right @ both)))))))"

datatype gui_event =
    Press pynum pynum | Release | Motion pynum pynum | Resize pynum pynum | Expose
  | ZoomOut | ZoomIn | OutputPng

definition gui_step :: "extents \<Rightarrow> gtk_renderer \<Rightarrow> gui_event \<Rightarrow> gtk_renderer pyres" where
  "gui_step te g ev =
     (case ev of
        Press x y \<Rightarrow> rmap snd (button_press x y g)
      | Release \<Rightarrow> rmap snd (button_release te g)
      | Motion x y \<Rightarrow> rmap snd (motion_notify te x y g)
      | Resize w h \<Rightarrow> size_allocate te w h g
      | Expose \<Rightarrow> rmap fst (expose te g)
      | ZoomOut \<Rightarrow> set_smaller_zoom te g
      | ZoomIn \<Rightarrow> set_bigger_zoom te g
      | OutputPng \<Rightarrow> rmap fst (output_png te g))"

section \<open>main\<close>

definition grid_main :: "extents \<Rightarrow> string list \<Rightarrow> gtk_renderer pyres" where
  "grid_main te lines =
     (let (colors, timelines) = read_data lines; (lower, upper) = timelines_get_bounds timelines;
          range_values = get_all_range_values timelines in
      rbind (lookup_all colors range_values) (\<lambda>(found, colors).
      rbind (rmapM attr found) (\<lambda>range_colors.
      let legend = set_legends range_values range_colors TopLegendRenderer;
          data = set_timelines timelines colors TimelinesRenderer;
          graphic = set_data data (set_top_legend legend (GraphicRenderer (num lower) (num upper)));
          range_mid = (upper - lower) div 2; range_width = (upper - lower) div 10;
          range_lo = range_mid - range_width div 2; range_hi = range_mid + range_width div 2 in
      rmap GtkGraphicRenderer (set_range te (num range_lo) (num range_hi) graphic))))"

section \<open>What layout, range changes and drawing keep\<close>

lemma graphic_layout_effect:
  assumes "graphic_layout te w h g = Inr g'"
  shows "gr_start g' = gr_start g \<and> gr_end g' = gr_end g \<and> gr_r_start g' = gr_r_start g \<and> gr_r_end g' = gr_r_end g \<and>
    gr_width g' = w \<and> gr_height g' = h \<and> lg_width (gr_top_legend g') = w \<and>
    tr_start (gr_data g') = tr_start (gr_data g) \<and> tr_end (gr_data g') = tr_end (gr_data g) \<and> tr_width (gr_data g') = w \<and>
    sc_lo (gr_mid_scale g') = sc_lo (gr_mid_scale g) \<and> sc_hi (gr_mid_scale g') = sc_hi (gr_mid_scale g) \<and>
    sc_width (gr_mid_scale g') = nsub w (get_data_x_start (gr_data g')) \<and>
    sc_lo (gr_bot_scale g') = sc_lo (gr_bot_scale g) \<and> sc_hi (gr_bot_scale g') = sc_hi (gr_bot_scale g) \<and>
    sc_width (gr_bot_scale g') = w"
proof -
  have scale: "scale_layout te w s = Inr s' \<Longrightarrow> sc_lo s' = sc_lo s \<and> sc_hi s' = sc_hi s \<and> sc_width s' = w" for w s s'
    by (auto simp: scale_layout_def rbind_eq_Inr_iff rmap_eq_Inr_iff)
  show ?thesis
    using assms
    by (auto simp: graphic_layout_def Let_def rbind_eq_Inr_iff rmap_eq_Inr_iff legend_layout_def timelines_layout_def
        dest!: scale)
qed

text \<open>
  The visible range of all parts agrees. It does not start before the trace and does not end after it;
  when it ends before it starts, it has left the trace at one end, where its other bound is. The legend,
  the timelines and the lower scale are laid out for the same width.
\<close>

definition viewer_inv :: "rat \<Rightarrow> rat \<Rightarrow> graphic \<Rightarrow> bool" where
  "viewer_inv lo hi d \<longleftrightarrow>
     nval (gr_start d) = lo \<and> nval (gr_end d) = hi \<and>
     lo \<le> nval (gr_r_start d) \<and> nval (gr_r_end d) \<le> hi \<and>
     (nval (gr_r_end d) < nval (gr_r_start d) \<longrightarrow> nval (gr_r_start d) = lo \<or> nval (gr_r_end d) = hi) \<and>
     tr_start (gr_data d) = gr_r_start d \<and> tr_end (gr_data d) = gr_r_end d \<and>
     sc_lo (gr_mid_scale d) = gr_r_start d \<and> sc_hi (gr_mid_scale d) = gr_r_end d \<and>
     nval (sc_lo (gr_bot_scale d)) = lo \<and> nval (sc_hi (gr_bot_scale d)) = hi \<and>
     lg_width (gr_top_legend d) = gr_width d \<and> tr_width (gr_data d) = gr_width d \<and>
     sc_width (gr_bot_scale d) = gr_width d"

lemma layout_keeps_inv:
  assumes "viewer_inv lo hi g" and "graphic_layout te w h g = Inr g'"
  shows "viewer_inv lo hi g'"
  using graphic_layout_effect [OF assms(2)] assms(1) by (simp add: viewer_inv_def)

lemma set_range_effect:
  assumes "set_range te s e g = Inr g'"
  shows "gr_r_start g' = nmax (gr_start g) (nmin s e) \<and> gr_r_end g' = nmin (gr_end g) (nmax s e) \<and>
    gr_start g' = gr_start g \<and> gr_end g' = gr_end g \<and> gr_width g' = gr_width g"
  using graphic_layout_effect [OF assms [unfolded set_range_def Let_def]] by simp

text \<open>A range change restores the agreement, whatever the visible range was before.\<close>

lemma set_range_establishes:
  assumes "set_range te s e g = Inr g'"
    and "nval (gr_start g) = lo" and "nval (gr_end g) = hi"
    and "nval (sc_lo (gr_bot_scale g)) = lo" and "nval (sc_hi (gr_bot_scale g)) = hi"
  shows "viewer_inv lo hi g'"
  using graphic_layout_effect [OF assms(1) [unfolded set_range_def Let_def]] assms(2-)
  by (auto simp: viewer_inv_def set_render_range_def set_bounds_def max_def min_def)

lemma set_range_keeps_inv:
  "viewer_inv lo hi g \<Longrightarrow> set_range te s e g = Inr g' \<Longrightarrow> viewer_inv lo hi g'"
  by (rule set_range_establishes) (auto simp: viewer_inv_def)

text \<open>Drawing changes the row counter and the colour table only.\<close>

definition view :: "timelines_renderer \<Rightarrow> pynum \<times> pynum \<times> pynum" where
  "view r = (tr_start r, tr_end r, tr_width r)"

lemma events_row_view: "events_row te st e = Inr st' \<Longrightarrow> view (fst st') = view (fst st)"
  by (auto simp: events_row_def draw_events_def view_def Let_def rmap_eq_Inr_iff split: prod.splits)

lemma ranges_row_view: "ranges_row te st e = Inr st' \<Longrightarrow> view (fst st') = view (fst st)"
  by (auto simp: ranges_row_def draw_ranges_def view_def Let_def rbind_eq_Inr_iff rmap_eq_Inr_iff split: prod.splits)

lemma rows_view:
  assumes "rfold f st xs = Inr st'" and "\<And>st x st'. f st x = Inr st' \<Longrightarrow> view (fst st') = view (fst st)"
  shows "view (fst st') = view (fst st)"
  using rfold_invariant [OF assms(1), of "\<lambda>s. view (fst s) = view (fst st)"] assms(2) by metis

lemma timeline_rows_view: "timeline_rows te st t = Inr st' \<Longrightarrow> view (fst st') = view (fst st)"
  by (fastforce simp: timeline_rows_def rbind_eq_Inr_iff rmap_eq_Inr_iff split: prod.splits
      dest: rows_view [OF _ events_row_view] rows_view [OF _ ranges_row_view])

lemma timelines_draw_view: "timelines_draw te r = Inr (r', cmds) \<Longrightarrow> view r' = view r"
  by (auto simp: timelines_draw_def rmap_eq_Inr_iff view_def dest!: rows_view [OF _ timeline_rows_view] split: prod.splits)

lemma draw_keeps_inv:
  assumes "viewer_inv lo hi g" and "graphic_draw te g = Inr (g', cmds)"
  shows "viewer_inv lo hi g'"
  using assms timelines_draw_view
  by (fastforce simp: graphic_draw_def Let_def viewer_inv_def view_def rbind_eq_Inr_iff rmap_eq_Inr_iff split: prod.splits)

section \<open>The viewer as a state machine\<close>

lemma change_range_effect:
  "change_range te l r g = Inr g' \<Longrightarrow>
   \<exists>d. set_range te l r (gt_data g) = Inr d \<and> g' = g\<lparr>gt_data := d, gt_force_full_redraw := True\<rparr>"
  by (auto simp: change_range_def rmap_eq_Inr_iff)

lemma change_range_inv:
  "viewer_inv lo hi (gt_data g) \<Longrightarrow> change_range te l r g = Inr g' \<Longrightarrow> viewer_inv lo hi (gt_data g')"
  by (auto dest!: change_range_effect intro: set_range_keeps_inv)

lemmas step_cases = rbind_eq_Inr_iff rmap_eq_Inr_iff Let_def

lemma release_inv:
  assumes "viewer_inv lo hi (gt_data g)" and "button_release te g = Inr (b, g')"
  shows "viewer_inv lo hi (gt_data g')"
  using assms
  by (auto simp: button_release_def step_cases dest!: change_range_effect intro: set_range_keeps_inv split: if_splits)

lemma move_top_inv:
  assumes "viewer_inv lo hi (gt_data g)" and "move_top te x g = Inr g'"
  shows "viewer_inv lo hi (gt_data g')"
proof -
  from assms(2) obtain l r g2 where "change_range te l r (g\<lparr>gt_moving_top_cur := Some x\<rparr>) = Inr g2"
    and "gt_data g' = gt_data g2"
    by (auto simp: move_top_def step_cases)
  with change_range_inv [OF _ this(1)] assms(1) show ?thesis by simp
qed

lemma move_frames:
  "gt_data (move_left x sx sw g) = gt_data g"
  "move_right x sx g = Inr g' \<Longrightarrow> gt_data g' = gt_data g"
  "move_both x sx sw g = Inr g' \<Longrightarrow> gt_data g' = gt_data g"
  by (auto simp: move_left_def move_right_def move_both_def step_cases)

lemma motion_inv:
  assumes "viewer_inv lo hi (gt_data g)" and "motion_notify te x y g = Inr (b, g')"
  shows "viewer_inv lo hi (gt_data g')"
proof -
  obtain sx sy sw sh where "get_selection_rectangle (gt_data g) = Inr (sx, sy, sw, sh)"
    using assms(2) by (auto simp: motion_notify_def rbind_eq_Inr_iff)
  note rect = this
  show ?thesis
  proof (cases "gt_moving_top g \<and> \<not> (gt_moving_left g \<or> gt_moving_right g \<or> gt_moving_both g)")
    case True
    with assms(2) rect have "move_top te x g = Inr g'" by (auto simp: motion_notify_def rmap_eq_Inr_iff)
    with assms(1) show ?thesis by (rule move_top_inv)
  next
    case False
    with assms(2) rect have "gt_data g' = gt_data g"
      by (auto simp: motion_notify_def rmap_eq_Inr_iff move_frames split: if_split_asm)
    with assms(1) show ?thesis by simp
  qed
qed

lemma press_keeps_graphic:
  assumes "button_press x y g = Inr (b, g')"
  shows "gt_data g' = gt_data g"
proof -
  obtain sx sy sw sh where "get_selection_rectangle (gt_data g) = Inr (sx, sy, sw, sh)"
    using assms by (auto simp: button_press_def rmap_eq_Inr_iff)
  with assms show ?thesis
    by (cases "get_data_rectangle (gt_data g)") (auto simp: button_press_def split: if_splits)
qed

lemma expose_inv:
  assumes "viewer_inv lo hi (gt_data g)" and "expose te g = Inr (g', cmds)"
  shows "viewer_inv lo hi (gt_data g')"
  using assms by (auto simp: expose_def step_cases intro: draw_keeps_inv split: if_splits prod.splits)

lemma gui_step_inv:
  assumes "viewer_inv lo hi (gt_data g)" and "gui_step te g ev = Inr g'"
  shows "viewer_inv lo hi (gt_data g')"
proof (cases ev)
  case (Press x y)
  with assms show ?thesis by (auto simp: gui_step_def rmap_eq_Inr_iff dest: press_keeps_graphic)
next
  case Release
  with assms show ?thesis by (auto simp: gui_step_def rmap_eq_Inr_iff intro: release_inv)
next
  case (Motion x y)
  with assms show ?thesis by (auto simp: gui_step_def rmap_eq_Inr_iff intro: motion_inv)
next
  case (Resize w h)
  with assms show ?thesis by (auto simp: gui_step_def size_allocate_def rmap_eq_Inr_iff intro: layout_keeps_inv)
next
  case Expose
  with assms show ?thesis by (auto simp: gui_step_def rmap_eq_Inr_iff intro: expose_inv)
next
  case OutputPng
  with assms show ?thesis by (auto simp: gui_step_def output_png_def step_cases intro: draw_keeps_inv)
qed (use assms in \<open>auto simp: gui_step_def set_smaller_zoom_def set_bigger_zoom_def get_visible_range_def
       intro: change_range_inv\<close>)

lemma grid_main_inv:
  assumes "grid_main te lines = Inr g" and "timelines_get_bounds (snd (read_data lines)) = (lower, upper)"
  shows "viewer_inv (of_int lower) (of_int upper) (gt_data g)"
  using assms
  by (auto simp: grid_main_def step_cases GtkGraphicRenderer_def set_data_def set_top_legend_def
      GraphicRenderer_def set_bot_def set_bounds_def split: prod.splits intro!: set_range_establishes)

text \<open>
  C21: from the start of the viewer on, after any sequence of window and mouse events that raise nothing, the
  timelines and the upper scale show the visible range and the lower scale the whole trace, the legend,
  the timelines and the lower scale are laid out for the same width, and the visible range does not start
  before the trace or end after it. It may leave the trace altogether (start after its end, or end before
  its start), but then its other bound is the end (or the start) of the trace.
\<close>

theorem viewer_consistent:
  assumes "grid_main te lines = Inr g" and "timelines_get_bounds (snd (read_data lines)) = (lower, upper)"
    and "rfold (gui_step te) g evs = Inr g'"
  shows "viewer_inv (of_int lower) (of_int upper) (gt_data g')"
  by (rule rfold_invariant [OF assms(3), where P = "\<lambda>g. viewer_inv (of_int lower) (of_int upper) (gt_data g)"])
     (use grid_main_inv [OF assms(1,2)] gui_step_inv in auto)

definition sample_extents :: extents where
  "sample_extents s = (num 0, num 10, num 9)"

definition sample_trace :: "string list" where
  "sample_trace = [''range n tx busy 10 100'']"

text \<open>The outcome of a run as its visible range, for evaluation.\<close>

definition range_after :: "extents \<Rightarrow> string list \<Rightarrow> gui_event list \<Rightarrow> (pynum \<times> pynum) pyres" where
  "range_after te lines evs =
     rbind (grid_main te lines) (\<lambda>g. rmap (\<lambda>g. get_visible_range (gt_data g)) (rfold (gui_step te) g evs))"

lemma sample_run:
  "range_after sample_extents sample_trace [Resize (num 300) (num 200), ZoomIn] = Inr (num 45, num 50)"
  by code_simp

theorem viewer_consistent_witness:
  "\<exists>g'. rbind (grid_main sample_extents sample_trace)
      (\<lambda>g. rfold (gui_step sample_extents) g [Resize (num 300) (num 200), ZoomIn]) = Inr g' \<and>
    gr_r_end (gt_data g') = num 50 \<and> viewer_inv 0 100 (gt_data g')"
proof -
  obtain g g' where run: "grid_main sample_extents sample_trace = Inr g"
      "rfold (gui_step sample_extents) g [Resize (num 300) (num 200), ZoomIn] = Inr g'"
      "get_visible_range (gt_data g') = (num 45, num 50)"
    using sample_run by (auto simp: range_after_def step_cases)
  have "timelines_get_bounds (snd (read_data sample_trace)) = (0, 100)" by code_simp
  from viewer_consistent [OF run(1) this run(2)] run show ?thesis
    by (simp add: get_visible_range_def)
qed

text \<open>Dragging the timelines far enough to the left moves the start of the range beyond the end of the trace.\<close>

lemma range_leaves_trace:
  "range_after sample_extents sample_trace
     [Resize (num 300) (num 200), Press (PFloat 250) (PFloat 30), Motion (PFloat (- 2000)) (PFloat 30)] =
   Inr (PFloat (3420 / 26), PFloat 100)"
  by code_simp

section \<open>Drags\<close>

lemma press_left_handle:
  assumes "button_press x y g = Inr (b, g')" and "gt_moving_left g'" and "\<not> gt_moving_left g"
  shows "g' = g\<lparr>gt_moving_left := True\<rparr>"
proof -
  obtain sx sy sw sh where "get_selection_rectangle (gt_data g) = Inr (sx, sy, sw, sh)"
    using assms by (auto simp: button_press_def rmap_eq_Inr_iff)
  with assms show ?thesis
    by (cases "get_data_rectangle (gt_data g)") (auto simp: button_press_def split: if_splits)
qed

lemma press_right_handle:
  assumes "button_press x y g = Inr (b, g')" and "gt_moving_right g'" and "\<not> gt_moving_right g"
  shows "g' = g\<lparr>gt_moving_right := True\<rparr>"
proof -
  obtain sx sy sw sh where "get_selection_rectangle (gt_data g) = Inr (sx, sy, sw, sh)"
    using assms by (auto simp: button_press_def rmap_eq_Inr_iff)
  with assms show ?thesis
    by (cases "get_data_rectangle (gt_data g)") (auto simp: button_press_def split: if_splits)
qed

text \<open>
  A click on a handle of the selection, a press and a release without a motion between them,
  raises AttributeError when that handle has never been dragged: the position it reads is set by
  the motion handler only.
\<close>

theorem click_on_handle:
  assumes "\<not> (gt_moving_left g \<or> gt_moving_right g)" and "gui_step te g (Press x y) = Inr g'"
    and "gt_moving_left g' \<and> gt_moving_left_cur g = None \<or> gt_moving_right g' \<and> gt_moving_right_cur g = None"
  shows "gui_step te g' Release = Inl AttributeError"
proof -
  obtain b where press: "button_press x y g = Inr (b, g')"
    using assms(2) by (auto simp: gui_step_def rmap_eq_Inr_iff)
  show ?thesis
    using assms(1,3) press_left_handle [OF press] press_right_handle [OF press]
    by (cases "gt_moving_left g'") (auto simp: gui_step_def button_release_def attr_def)
qed

lemma sample_click:
  "rbind (grid_main sample_extents sample_trace) (\<lambda>g0.
   rbind (rfold (gui_step sample_extents) g0 [Resize (num 300) (num 200)]) (\<lambda>g.
   rmap (\<lambda>g'. (gt_moving_left g, gt_moving_right g, gt_moving_left_cur g, gt_moving_left g'))
     (gui_step sample_extents g (Press (num 136) (num 100))))) = Inr (False, False, None, True)"
  by code_simp

theorem click_on_handle_witness:
  "\<exists>g0 g g'. grid_main sample_extents sample_trace = Inr g0 \<and>
    rfold (gui_step sample_extents) g0 [Resize (num 300) (num 200)] = Inr g \<and>
    gui_step sample_extents g (Press (num 136) (num 100)) = Inr g' \<and>
    gui_step sample_extents g' Release = Inl AttributeError"
proof -
  obtain g0 g g' where run: "grid_main sample_extents sample_trace = Inr g0"
      "rfold (gui_step sample_extents) g0 [Resize (num 300) (num 200)] = Inr g"
      "gui_step sample_extents g (Press (num 136) (num 100)) = Inr g'"
      "\<not> (gt_moving_left g \<or> gt_moving_right g)" "gt_moving_left g' \<and> gt_moving_left_cur g = None"
    using sample_click by (auto simp: step_cases)
  with click_on_handle [OF run(4,3) disjI1] show ?thesis by blast
qed

text \<open>On a range of floats the position of a time on the lower scale is exact.\<close>

lemma get_position_float:
  assumes "sc_width s = num w" and "nval (sc_lo s) < nval (sc_hi s)"
  shows "get_position s (PFloat t) =
    Inr (PFloat ((t - nval (sc_lo s)) * of_int w / (nval (sc_hi s) - nval (sc_lo s))))"
  using assms by (cases "sc_lo s"; cases "sc_hi s") (auto simp: get_position_def)

lemma drag_amount:
  fixes a b lo hi w p c e :: rat
  assumes "lo \<le> a" "a \<le> b" "b \<le> hi" "lo < hi" "0 < w"
    and "c = (if e < p - (a - lo) * w / (hi - lo) then p - (a - lo) * w / (hi - lo)
              else if w - ((b - lo) * w / (hi - lo) - p) < e then w - ((b - lo) * w / (hi - lo) - p) else e)"
  shows "(c - p) * (hi - lo) / w = max (lo - a) (min (hi - b) ((e - p) * (hi - lo) / w))"
proof -
  define k where k: "k = (hi - lo) / w"
  have k0: "0 < k" using assms(4,5) by (simp add: k)
  have u: "(a - lo) * w / (hi - lo) = (a - lo) / k" and v: "w - (b - lo) * w / (hi - lo) = (hi - b) / k"
    using assms(4,5) by (simp_all add: k field_simps)
  have "c = (if e < p - (a - lo) / k then p - (a - lo) / k else if p + (hi - b) / k < e then p + (hi - b) / k else e)"
    using assms(6) unfolding u [symmetric] v [symmetric] by (simp add: algebra_simps)
  moreover have "e < p - (a - lo) / k \<longleftrightarrow> (e - p) * k < lo - a" "p + (hi - b) / k < e \<longleftrightarrow> hi - b < (e - p) * k"
    using k0 by (simp_all add: field_simps)
  moreover have "(p - (a - lo) / k - p) * k = lo - a" "(p + (hi - b) / k - p) * k = hi - b"
    using k0 by simp_all
  ultimately have "(c - p) * k = max (lo - a) (min (hi - b) ((e - p) * k))"
    using assms(1-3) by (auto simp: max_def min_def)
  then show ?thesis by (simp add: k)
qed

text \<open>The position of the pointer that a motion leaves behind while the selection is dragged.\<close>

lemma move_both_effect:
  assumes "move_both (PFloat e) (PFloat x) (PFloat width) g = Inr g'"
    and "gt_width g = Some (num w)" and "gt_moving_both_start g = Some (PFloat p)"
  shows "g' = g\<lparr>gt_moving_both_cur := Some (PFloat
    (if e < p - x then p - x else if of_int w - (x + width - p) < e then of_int w - (x + width - p) else e))\<rparr>"
  using assms by (auto simp: move_both_def attr_def nlt_def)

text \<open>
  C29: when the visible range holds floating-point numbers, as it does after a first drag, dragging the
  selection moves the range and keeps its length, wherever the pointer goes: a motion while the selection
  is held and the release after it end in the old range shifted by the distance the pointer has moved
  since it was pressed, at the scale of the lower axis, or as far as the bounds of the trace allow. (The
  range at the start of the viewer holds integers, whose positions are rounded down.)
\<close>

theorem drag_keeps_length:
  assumes inv: "viewer_inv lo hi (gt_data g)" and "lo < hi"
    and range: "gr_r_start (gt_data g) = PFloat a" "gr_r_end (gt_data g) = PFloat b" "a \<le> b"
    and width: "gr_width (gt_data g) = num w" "gt_width g = Some (num w)" "0 < w"
    and drag: "gt_moving_both g" "\<not> gt_moving_left g" "\<not> gt_moving_right g" "gt_moving_both_start g = Some (PFloat p)"
    and motion: "gui_step te g (Motion (PFloat e) y) = Inr g1" and release: "gui_step te g1 Release = Inr g2"
  shows "\<exists>d. d = max (lo - a) (min (hi - b) ((e - p) * (hi - lo) / of_int w)) \<and>
    nval (gr_r_start (gt_data g2)) = a + d \<and> nval (gr_r_end (gt_data g2)) = b + d \<and>
    lo \<le> a + d \<and> b + d \<le> hi \<and> \<not> gt_moving_both g2"
proof -
  let ?x = "\<lambda>t. (t - lo) * of_int w / (hi - lo)"
  from inv have bounds: "nval (gr_start (gt_data g)) = lo" "nval (gr_end (gt_data g)) = hi" "lo \<le> a" "b \<le> hi"
    and bot: "nval (sc_lo (gr_bot_scale (gt_data g))) = lo" "nval (sc_hi (gr_bot_scale (gt_data g))) = hi"
      "sc_width (gr_bot_scale (gt_data g)) = num w"
    using range width by (simp_all add: viewer_inv_def)
  have pos: "get_position (gr_bot_scale (gt_data g)) (PFloat t) = Inr (PFloat (?x t))" for t
    using get_position_float [OF bot(3)] bot \<open>lo < hi\<close> by simp
  define c where "c = (if e < p - ?x a then p - ?x a
    else if of_int w - (?x b - p) < e then of_int w - (?x b - p) else e)"
  have "g1 = g\<lparr>gt_moving_both_cur := Some (PFloat c)\<rparr>"
    using motion drag move_both_effect [OF _ width(2) drag(4), of e "?x a" "?x b - ?x a" g1]
    by (auto simp: gui_step_def motion_notify_def get_selection_rectangle_def range pos step_cases c_def)
  define d where "d = (c - p) * (hi - lo) / of_int w"
  have d: "set_range te (PFloat (a + d)) (PFloat (b + d)) (gt_data g) = Inr (gt_data g2)" "\<not> gt_moving_both g2"
    using release drag range width bounds \<open>g1 = _\<close>
    by (auto simp: gui_step_def button_release_def attr_def get_visible_range_def scale_selection_def step_cases d_def
        dest!: change_range_effect)
  have amount: "d = max (lo - a) (min (hi - b) ((e - p) * (hi - lo) / of_int w))"
    using drag_amount [OF bounds(3) range(3) bounds(4) \<open>lo < hi\<close>, of "of_int w" c e p] width(3)
    by (simp add: d_def c_def)
  then have "lo \<le> a + d" "b + d \<le> hi" using bounds(3,4) range(3) by (auto simp: max_def min_def)
  with set_range_effect [OF d(1)] range(3) bounds(1,2)
  have "nval (gr_r_start (gt_data g2)) = a + d" "nval (gr_r_end (gt_data g2)) = b + d" by (simp_all add: min_def max_def)
  with amount \<open>lo \<le> a + d\<close> \<open>b + d \<le> hi\<close> d(2) show ?thesis by (intro exI [of _ d] conjI)
qed

text \<open>A viewer of a trace from 0 to 100 that shows 45 to 55 and whose selection has been taken at its middle.\<close>

definition sample_graphic :: "graphic pyres" where
  "sample_graphic =
     rbind (graphic_layout sample_extents (num 300) (num 200) (GraphicRenderer (num 0) (num 100)))
       (set_range sample_extents (PFloat 45) (PFloat 55))"

definition held :: "graphic \<Rightarrow> gtk_renderer" where
  "held d = (GtkGraphicRenderer d)\<lparr>gt_width := Some (num 300), gt_moving_both := True,
     gt_moving_both_start := Some (PFloat 150), gt_moving_both_cur := Some (PFloat 150)\<rparr>"

lemma sample_drag:
  "rbind sample_graphic (\<lambda>d. rbind (gui_step sample_extents (held d) (Motion (PFloat 900) (num 100)))
     (\<lambda>g. rmap (\<lambda>g. (gr_width d, get_visible_range d, get_visible_range (gt_data g))) (gui_step sample_extents g Release))) =
   Inr (num 300, (PFloat 45, PFloat 55), (PFloat 90, PFloat 100))"
  by code_simp

theorem drag_keeps_length_witness:
  "\<exists>d g1 g2 x. sample_graphic = Inr d \<and> gui_step sample_extents (held d) (Motion (PFloat 900) (num 100)) = Inr g1 \<and>
     gui_step sample_extents g1 Release = Inr g2 \<and>
     nval (gr_r_start (gt_data g2)) = 45 + x \<and> nval (gr_r_end (gt_data g2)) = 55 + x"
proof -
  obtain d g1 g2 where run: "sample_graphic = Inr d"
      "gui_step sample_extents (held d) (Motion (PFloat 900) (num 100)) = Inr g1"
      "gui_step sample_extents g1 Release = Inr g2" "gr_width d = num 300" "get_visible_range d = (PFloat 45, PFloat 55)"
    using sample_drag by (auto simp: step_cases)
  obtain d0 where "graphic_layout sample_extents (num 300) (num 200) (GraphicRenderer (num 0) (num 100)) = Inr d0"
    and "set_range sample_extents (PFloat 45) (PFloat 55) d0 = Inr d"
    using run(1) by (auto simp: sample_graphic_def step_cases)
  then have "viewer_inv 0 100 d"
    by (auto intro!: set_range_establishes dest!: graphic_layout_effect simp: GraphicRenderer_def set_bot_def set_bounds_def)
  moreover have "gt_data (held d) = d" "gt_width (held d) = Some (num 300)" "gt_moving_both (held d)"
    "\<not> gt_moving_left (held d)" "\<not> gt_moving_right (held d)" "gt_moving_both_start (held d) = Some (PFloat 150)"
    by (simp_all add: held_def GtkGraphicRenderer_def)
  ultimately show ?thesis
    using drag_keeps_length [of 0 100 "held d" 45 55 300 150 sample_extents 900 "num 100" g1 g2] run
    by (auto simp: get_visible_range_def)
qed

text \<open>
  The first drag, of a range of integers, may shorten it: here from 10 to 2955 / 301, as the ends of the
  selection are rounded down to pixels.
\<close>

lemma first_drag_shortens:
  "range_after sample_extents sample_trace
     [Resize (num 301) (num 200), Press (PFloat 150) (PFloat 100), Motion (PFloat 900) (PFloat 100), Release] =
   Inr (PFloat (27145 / 301), PFloat 100)"
  by code_simp

end
