(* ===== verification/Patch.thy ===== *)
theory Patch
  imports PyCore
begin

text \<open>
  The patches of \<open>utils/check-style.py\<close>: the classes \<open>PatchChunkLine\<close>, \<open>PatchChunk\<close> and
  \<open>Patch\<close>, the parser \<open>parse_patchset\<close>, the writer, and
  \<open>remove_trailing_whitespace_changes\<close>. The lists \<open>src ()\<close> and \<open>dst ()\<close> of a chunk hold
  references to its line objects, and a context line is in both; they are modelled by positions
  in the chunk, so that a change made through one list is seen through the other. What a
  \<open>write\<close> method sends to the file is the list of its writes, one line each.
\<close>

section \<open>PatchChunkLine\<close>

record patch_line =
  pl_type :: int
  pl_line :: string

definition SRC :: int where "SRC = 1"
definition DST :: int where "DST = 2"
definition BOTH :: int where "BOTH = 3"

lemmas line_types = SRC_def DST_def BOTH_def

definition PatchChunkLine :: patch_line where
  "PatchChunkLine = \<lparr>pl_type = 0, pl_line = []\<rparr>"

definition line_set_src :: "patch_line \<Rightarrow> string \<Rightarrow> patch_line" where
  "line_set_src l s = l\<lparr>pl_type := SRC, pl_line := s\<rparr>"

definition line_set_dst :: "patch_line \<Rightarrow> string \<Rightarrow> patch_line" where
  "line_set_dst l s = l\<lparr>pl_type := DST, pl_line := s\<rparr>"

definition line_set_both :: "patch_line \<Rightarrow> string \<Rightarrow> patch_line" where
  "line_set_both l s = l\<lparr>pl_type := BOTH, pl_line := s\<rparr>"

definition append_to_line :: "patch_line \<Rightarrow> string \<Rightarrow> patch_line" where
  "append_to_line l s = l\<lparr>pl_line := pl_line l @ s\<rparr>"

definition is_src :: "patch_line \<Rightarrow> bool" where
  "is_src l \<longleftrightarrow> pl_type l = SRC \<or> pl_type l = BOTH"

definition is_dst :: "patch_line \<Rightarrow> bool" where
  "is_dst l \<longleftrightarrow> pl_type l = DST \<or> pl_type l = BOTH"

definition line_write :: "patch_line \<Rightarrow> string list pyres" where
  "line_write l =
     (if pl_type l = SRC then Inr [''-'' @ pl_line l @ [py_newline]]
      else if pl_type l = DST then Inr [''+'' @ pl_line l @ [py_newline]]
      else if pl_type l = BOTH then Inr ['' '' @ pl_line l @ [py_newline]]
      else Inl (PyException ''invalid patch''))"

section \<open>PatchChunk\<close>

record patch_chunk =
  pc_lines :: "patch_line list"
  pc_src_pos :: int
  pc_dst_pos :: int

definition PatchChunk :: "int \<Rightarrow> int \<Rightarrow> patch_chunk" where
  "PatchChunk src_pos dst_pos = \<lparr>pc_lines = [], pc_src_pos = src_pos, pc_dst_pos = dst_pos\<rparr>"

definition src_start :: "patch_chunk \<Rightarrow> int" where
  "src_start c = pc_src_pos c"

definition add_line :: "patch_chunk \<Rightarrow> patch_line \<Rightarrow> patch_chunk" where
  "add_line c l = c\<lparr>pc_lines := pc_lines c @ [l]\<rparr>"

text \<open>The references in \<open>src ()\<close> and \<open>dst ()\<close>.\<close>

definition chunk_src :: "patch_chunk \<Rightarrow> nat list" where
  "chunk_src c = filter (\<lambda>i. is_src (pc_lines c ! i)) [0..<length (pc_lines c)]"

definition chunk_dst :: "patch_chunk \<Rightarrow> nat list" where
  "chunk_dst c = filter (\<lambda>i. is_dst (pc_lines c ! i)) [0..<length (pc_lines c)]"

definition src_len :: "patch_chunk \<Rightarrow> nat" where
  "src_len c = length (chunk_src c)"

definition dst_len :: "patch_chunk \<Rightarrow> nat" where
  "dst_len c = length (chunk_dst c)"

definition chunk_header :: "patch_chunk \<Rightarrow> string" where
  "chunk_header c =
     ''@@ -'' @ show_int (pc_src_pos c) @ '','' @ show_nat (src_len c) @ '' +'' @
     show_int (pc_dst_pos c) @ '','' @ show_nat (dst_len c) @ '' @@'' @ [py_newline]"

definition chunk_write :: "patch_chunk \<Rightarrow> string list pyres" where
  "chunk_write c = rmap (\<lambda>ws. chunk_header c # concat ws) (rmapM line_write (pc_lines c))"

section \<open>Patch\<close>

record patch =
  pa_src :: string
  pa_dst :: string
  pa_chunks :: "patch_chunk list"

definition Patch :: patch where
  "Patch = \<lparr>pa_src = [], pa_dst = [], pa_chunks = []\<rparr>"

definition add_chunk :: "patch \<Rightarrow> patch_chunk \<Rightarrow> patch" where
  "add_chunk p c = p\<lparr>pa_chunks := pa_chunks p @ [c]\<rparr>"

definition patch_set_src :: "patch \<Rightarrow> string \<Rightarrow> patch" where
  "patch_set_src p s = p\<lparr>pa_src := s\<rparr>"

definition patch_set_dst :: "patch \<Rightarrow> string \<Rightarrow> patch" where
  "patch_set_dst p s = p\<lparr>pa_dst := s\<rparr>"

definition patch_write :: "patch \<Rightarrow> string list pyres" where
  "patch_write p =
     rmap (\<lambda>ws. (''--- '' @ pa_src p @ [py_newline]) # (''+++ '' @ pa_dst p @ [py_newline]) # concat ws)
       (rmapM chunk_write (pa_chunks p))"

section \<open>The patterns\<close>

text \<open>
  \<open>'^p(.*)$'\<close>: the prefix, then a rest in which a newline can only be the last character; the
  group leaves that newline out.
\<close>

definition strip_newline :: "string \<Rightarrow> string" where
  "strip_newline s = (if s \<noteq> [] \<and> last s = py_newline then butlast s else s)"

definition rx_line :: "string \<Rightarrow> string \<Rightarrow> string option" where
  "rx_line p s =
     (if startswith s p then
        (let t = strip_newline (drop (length p) s) in
         if py_newline \<in> set t then None else Some t)
      else None)"

definition rx_digits :: "string \<Rightarrow> (int \<times> string) option" where
  "rx_digits s =
     (if takeWhile py_digit s = [] then None
      else Some (int (nat_of_digits (takeWhile py_digit s)), dropWhile py_digit s))"

definition rx_lit :: "string \<Rightarrow> string \<Rightarrow> string option" where
  "rx_lit p s = (if startswith s p then Some (drop (length p) s) else None)"

text \<open>\<open>'^@@ -([0-9]+),([0-9]+) \+([0-9]+),([0-9]+) @@'\<close>, groups 1 and 3.\<close>

definition rx_chunk_start :: "string \<Rightarrow> (int \<times> int) option" where
  "rx_chunk_start s =
     Option.bind (rx_lit ''@@ -'' s) (\<lambda>s.
     Option.bind (rx_digits s) (\<lambda>(a, s). Option.bind (rx_lit '','' s) (\<lambda>s.
     Option.bind (rx_digits s) (\<lambda>(_, s). Option.bind (rx_lit '' +'' s) (\<lambda>s.
     Option.bind (rx_digits s) (\<lambda>(c, s). Option.bind (rx_lit '','' s) (\<lambda>s.
     Option.bind (rx_digits s) (\<lambda>(_, s). Option.bind (rx_lit '' @@'' s) (\<lambda>s.
       Some (a, c))))))))))"

text \<open>\<open>'^(.*)([ \t]+)$'\<close>: the first group is greedy and leaves one character to the second.\<close>

definition blank :: "char \<Rightarrow> bool" where
  "blank c \<longleftrightarrow> c = CHR '' '' \<or> c = py_tab"

definition rx_whitespace :: "string \<Rightarrow> (string \<times> string) option" where
  "rx_whitespace s =
     (let t = strip_newline s in
      if py_newline \<in> set t then None
      else if t \<noteq> [] \<and> blank (last t) then Some (butlast t, [last t]) else None)"

section \<open>parse_patchset\<close>

text \<open>
  The locals of the parser: the patches so far, the current patch (None at first) and the
  current chunk (unbound at first), both references into the list.
\<close>

record parse_state =
  ps_patchset :: "patch list"
  ps_patch :: "nat option"
  ps_chunk :: "(nat \<times> nat) option"

definition upd_patch :: "nat \<Rightarrow> (patch \<Rightarrow> patch) \<Rightarrow> patch list \<Rightarrow> patch list" where
  "upd_patch i f ps = ps[i := f (ps ! i)]"

definition upd_chunk :: "nat \<times> nat \<Rightarrow> (patch_chunk \<Rightarrow> patch_chunk) \<Rightarrow> patch list \<Rightarrow> patch list" where
  "upd_chunk r f ps =
     upd_patch (fst r)
       (\<lambda>p. p\<lparr>pa_chunks := (pa_chunks p)[snd r := f (pa_chunks p ! snd r)]\<rparr>) ps"

definition with_chunk :: "parse_state \<Rightarrow> patch_line \<Rightarrow> parse_state pyres" where
  "with_chunk st l =
     (case ps_chunk st of
        None \<Rightarrow> Inl UnboundLocalError
      | Some r \<Rightarrow> Inr (st\<lparr>ps_patchset := upd_chunk r (\<lambda>c. add_line c l) (ps_patchset st)\<rparr>))"

definition parse_step :: "parse_state \<Rightarrow> string \<Rightarrow> parse_state pyres" where
  "parse_step st line =
     (case rx_line ''--- '' line of
        Some g \<Rightarrow>
          Inr (st\<lparr>ps_patchset := ps_patchset st @ [patch_set_src Patch g],
                  ps_patch := Some (length (ps_patchset st))\<rparr>)
      | None \<Rightarrow> (case rx_line ''+++ '' line of
        Some g \<Rightarrow>
          (case ps_patch st of
             None \<Rightarrow> Inl AttributeError
           | Some i \<Rightarrow> Inr (st\<lparr>ps_patchset := upd_patch i (\<lambda>p. patch_set_dst p g) (ps_patchset st)\<rparr>))
      | None \<Rightarrow> (case rx_chunk_start line of
        Some (a, c) \<Rightarrow>
          (case ps_patch st of
             None \<Rightarrow> Inl AttributeError
           | Some i \<Rightarrow>
               Inr (st\<lparr>ps_patchset := upd_patch i (\<lambda>p. add_chunk p (PatchChunk a c)) (ps_patchset st),
                       ps_chunk := Some (i, length (pa_chunks (ps_patchset st ! i)))\<rparr>))
      | None \<Rightarrow> (case rx_line ''-'' line of
        Some g \<Rightarrow> with_chunk st (line_set_src PatchChunkLine g)
      | None \<Rightarrow> (case rx_line ''+'' line of
        Some g \<Rightarrow> with_chunk st (line_set_dst PatchChunkLine g)
      | None \<Rightarrow> (case rx_line '' '' line of
        Some g \<Rightarrow> with_chunk st (line_set_both PatchChunkLine g)
      | None \<Rightarrow> Inl (PyException [])))))))"

definition parse_init :: parse_state where
  "parse_init = \<lparr>ps_patchset = [], ps_patch = None, ps_chunk = None\<rparr>"

definition parse_patchset :: "string list \<Rightarrow> patch list pyres" where
  "parse_patchset lines = rmap ps_patchset (rfold parse_step parse_init lines)"

section \<open>remove_trailing_whitespace_changes\<close>

text \<open>
  The loop over the source lines of a chunk. \<open>dst[i]\<close> raises when the chunk has fewer
  destination lines; the handler then leaves the whole function, which the flag records.
\<close>

fun rtw_lines :: "nat list \<Rightarrow> nat list \<Rightarrow> patch_chunk \<Rightarrow> patch_chunk \<times> bool" where
  "rtw_lines [] ds c = (c, False)"
| "rtw_lines (s # ss) [] c = (c, True)"
| "rtw_lines (s # ss) (d # ds) c =
     (let c' = (case rx_whitespace (pl_line (pc_lines c ! s)) of
           Some (g1, g2) \<Rightarrow>
             (if g1 = pl_line (pc_lines c ! d)
              then c\<lparr>pc_lines := (pc_lines c)[d := append_to_line (pc_lines c ! d) g2]\<rparr> else c)
         | None \<Rightarrow> c)
      in rtw_lines ss ds c')"

definition rtw_chunk :: "patch_chunk \<Rightarrow> patch_chunk \<times> bool" where
  "rtw_chunk c = rtw_lines (chunk_src c) (chunk_dst c) c"

fun rtw_chunks :: "patch_chunk list \<Rightarrow> patch_chunk list \<times> bool" where
  "rtw_chunks [] = ([], False)"
| "rtw_chunks (c # cs) =
     (let (c', stop) = rtw_chunk c in
      if stop then (c' # cs, True)
      else (let (cs', stop') = rtw_chunks cs in (c' # cs', stop')))"

fun rtw_patches :: "patch list \<Rightarrow> patch list" where
  "rtw_patches [] = []"
| "rtw_patches (p # ps) =
     (let (cs, stop) = rtw_chunks (pa_chunks p); p' = p\<lparr>pa_chunks := cs\<rparr> in
      if stop then p' # ps else p' # rtw_patches ps)"

definition remove_trailing_whitespace_changes :: "string list \<Rightarrow> patch list pyres" where
  "remove_trailing_whitespace_changes lines = rmap rtw_patches (parse_patchset lines)"

section \<open>Writing and reading back\<close>

definition patch_line_ok :: "patch_line \<Rightarrow> bool" where
  "patch_line_ok l \<longleftrightarrow> py_newline \<notin> set (pl_line l) \<and>
     (pl_type l = SRC \<and> \<not> startswith (pl_line l) ''-- '' \<or>
      pl_type l = DST \<and> \<not> startswith (pl_line l) ''++ '' \<or> pl_type l = BOTH)"

definition patch_chunk_ok :: "patch_chunk \<Rightarrow> bool" where
  "patch_chunk_ok c \<longleftrightarrow> 0 \<le> pc_src_pos c \<and> 0 \<le> pc_dst_pos c \<and> (\<forall>l \<in> set (pc_lines c). patch_line_ok l)"

definition patch_ok :: "patch \<Rightarrow> bool" where
  "patch_ok p \<longleftrightarrow> py_newline \<notin> set (pa_src p) \<and> py_newline \<notin> set (pa_dst p) \<and>
     (\<forall>c \<in> set (pa_chunks p). patch_chunk_ok c)"

text \<open>The text of well-formed patches, which is what their writers produce.\<close>

definition line_mark :: "patch_line \<Rightarrow> char" where
  "line_mark l = (if pl_type l = SRC then CHR ''-'' else if pl_type l = DST then CHR ''+'' else CHR '' '')"

definition line_text :: "patch_line \<Rightarrow> string" where
  "line_text l = line_mark l # pl_line l @ [py_newline]"

definition chunk_text :: "patch_chunk \<Rightarrow> string list" where
  "chunk_text c = chunk_header c # map line_text (pc_lines c)"

definition patch_text :: "patch \<Rightarrow> string list" where
  "patch_text p = (''--- '' @ pa_src p @ [py_newline]) # (''+++ '' @ pa_dst p @ [py_newline]) #
     concat (map chunk_text (pa_chunks p))"

lemma line_write_text: "patch_line_ok l \<Longrightarrow> line_write l = Inr [line_text l]"
  by (auto simp: patch_line_ok_def line_write_def line_text_def line_mark_def line_types)

lemma chunk_write_text: "patch_chunk_ok c \<Longrightarrow> chunk_write c = Inr (chunk_text c)"
  using rmapM_total [of "pc_lines c" line_write "\<lambda>l. [line_text l]"]
  by (simp add: chunk_write_def chunk_text_def patch_chunk_ok_def line_write_text)

lemma patch_write_text: "patch_ok p \<Longrightarrow> patch_write p = Inr (patch_text p)"
  using rmapM_total [of "pa_chunks p" chunk_write chunk_text]
  by (simp add: patch_write_def patch_text_def patch_ok_def chunk_write_text)

lemma strip_newline_snoc [simp]: "strip_newline (s @ [py_newline]) = s"
  by (simp add: strip_newline_def)

lemma rx_line_text: "py_newline \<notin> set s \<Longrightarrow> rx_line p (p @ s @ [py_newline]) = Some s"
  using startswith_append [of p "s @ [py_newline]"] by (simp add: rx_line_def)

lemma rx_line_other: "\<not> startswith s p \<Longrightarrow> rx_line p s = None"
  by (simp add: rx_line_def)

lemma startswith_snoc:
  "c \<notin> set p \<Longrightarrow> startswith (s @ [c]) p \<Longrightarrow> startswith s p"
  unfolding startswith_iff
  by (metis (no_types) append.assoc append_is_Nil_conv butlast_append butlast_snoc in_set_conv_decomp
      last_in_set last_snoc append_Nil2 last_appendR)

lemma rx_chunk_other: "\<not> startswith s ''@@ -'' \<Longrightarrow> rx_chunk_start s = None"
  by (simp add: rx_chunk_start_def rx_lit_def)

lemma rx_digits_show: "\<not> py_digit c \<Longrightarrow> rx_digits (show_nat n @ c # r) = Some (int n, c # r)"
  using takeWhile_append_stop [of "show_nat n" py_digit c r]
    dropWhile_append_stop [of "show_nat n" py_digit c r] show_nat_digits [of _ n]
  by (simp add: rx_digits_def)

lemma rx_chunk_header:
  assumes "0 \<le> pc_src_pos c" "0 \<le> pc_dst_pos c"
  shows "rx_chunk_start (chunk_header c) = Some (pc_src_pos c, pc_dst_pos c)"
proof -
  have nd: "\<not> py_digit (CHR '','')" "\<not> py_digit (CHR '' '')"
    by (simp_all add: py_digit_def)
  have lit: "rx_lit p (p @ s) = Some s" for p s
    by (simp add: rx_lit_def)
  show ?thesis
    using assms lit [of "''@@ -''"] lit [of "'',''"] lit [of "'' +''"] lit [of "'' @@''"]
    by (simp add: rx_chunk_start_def chunk_header_def show_int_def rx_digits_show nd)
qed

lemma patch_line_rebuild:
  "pl_type l = SRC \<Longrightarrow> line_set_src PatchChunkLine (pl_line l) = l"
  "pl_type l = DST \<Longrightarrow> line_set_dst PatchChunkLine (pl_line l) = l"
  "pl_type l = BOTH \<Longrightarrow> line_set_both PatchChunkLine (pl_line l) = (l :: patch_line)"
  by (cases l; simp add: line_set_src_def line_set_dst_def line_set_both_def PatchChunkLine_def)+

lemma parse_step_line:
  assumes ok: "patch_line_ok l"
  shows "parse_step st (line_text l) = with_chunk st l"
proof -
  have nl: "py_newline \<notin> set (pl_line l)" using ok by (simp add: patch_line_ok_def)
  have pre: "\<not> startswith (pl_line l @ [py_newline]) p"
    if "\<not> startswith (pl_line l) p" "py_newline \<notin> set p" for p
    using startswith_snoc that by blast
  consider (src) "pl_type l = SRC" "\<not> startswith (pl_line l) ''-- ''"
    | (dst) "pl_type l = DST" "\<not> startswith (pl_line l) ''++ ''" | (both) "pl_type l = BOTH"
    using ok by (auto simp: patch_line_ok_def)
  then show ?thesis
  proof cases
    case src
    then have t: "line_text l = ''-'' @ pl_line l @ [py_newline]"
      by (simp add: line_text_def line_mark_def)
    show ?thesis
      using src rx_line_text [OF nl, of "''-''"] pre [OF src(2)] patch_line_rebuild(1) [OF src(1)]
      by (simp add: parse_step_def t rx_line_other rx_chunk_other py_newline_def)
  next
    case dst
    then have t: "line_text l = ''+'' @ pl_line l @ [py_newline]"
      by (simp add: line_text_def line_mark_def line_types)
    show ?thesis
      using dst rx_line_text [OF nl, of "''+''"] pre [OF dst(2)] patch_line_rebuild(2) [OF dst(1)]
      by (simp add: parse_step_def t rx_line_other rx_chunk_other py_newline_def)
  next
    case both
    then have t: "line_text l = '' '' @ pl_line l @ [py_newline]"
      by (simp add: line_text_def line_mark_def line_types)
    show ?thesis
      using both rx_line_text [OF nl, of "'' ''"] patch_line_rebuild(3) [OF both(1)]
      by (simp add: parse_step_def t rx_line_other rx_chunk_other py_newline_def)
  qed
qed

text \<open>The states the parser goes through while it reads a written patch.\<close>

definition in_patch :: "patch list \<Rightarrow> patch \<Rightarrow> (nat \<times> nat) option \<Rightarrow> parse_state" where
  "in_patch ps p r = \<lparr>ps_patchset = ps @ [p], ps_patch = Some (length ps), ps_chunk = r\<rparr>"

lemma parse_lines:
  "\<forall>l \<in> set ls. patch_line_ok l \<Longrightarrow>
   rfold parse_step
     (in_patch ps (p\<lparr>pa_chunks := cs @ [c]\<rparr>) (Some (length ps, length cs))) (map line_text ls) =
   Inr (in_patch ps (p\<lparr>pa_chunks := cs @ [c\<lparr>pc_lines := pc_lines c @ ls\<rparr>]\<rparr>)
     (Some (length ps, length cs)))"
proof (induction ls arbitrary: c)
  case Nil
  then show ?case by simp
next
  case (Cons l ls)
  have "parse_step (in_patch ps (p\<lparr>pa_chunks := cs @ [c]\<rparr>) (Some (length ps, length cs))) (line_text l) =
      Inr (in_patch ps (p\<lparr>pa_chunks := cs @ [c\<lparr>pc_lines := pc_lines c @ [l]\<rparr>]\<rparr>)
        (Some (length ps, length cs)))"
    using Cons.prems
    by (simp add: parse_step_line with_chunk_def in_patch_def upd_chunk_def upd_patch_def add_line_def)
  then show ?case
    using Cons.IH [of "c\<lparr>pc_lines := pc_lines c @ [l]\<rparr>"] Cons.prems by simp
qed

lemma parse_chunk:
  assumes ok: "patch_chunk_ok c"
  shows "\<exists>r'. rfold parse_step (in_patch ps p r) (chunk_text c) =
    Inr (in_patch ps (p\<lparr>pa_chunks := pa_chunks p @ [c]\<rparr>) r')"
proof -
  let ?c0 = "PatchChunk (pc_src_pos c) (pc_dst_pos c)"
  have pos: "0 \<le> pc_src_pos c" "0 \<le> pc_dst_pos c" and ls: "\<forall>l \<in> set (pc_lines c). patch_line_ok l"
    using ok by (auto simp: patch_chunk_ok_def)
  have "rx_line ''--- '' (chunk_header c) = None" "rx_line ''+++ '' (chunk_header c) = None"
    by (simp_all add: chunk_header_def rx_line_other)
  then have "parse_step (in_patch ps p r) (chunk_header c) =
      Inr (in_patch ps (p\<lparr>pa_chunks := pa_chunks p @ [?c0]\<rparr>) (Some (length ps, length (pa_chunks p))))"
    using rx_chunk_header [OF pos]
    by (simp add: parse_step_def in_patch_def upd_patch_def add_chunk_def)
  moreover have "?c0\<lparr>pc_lines := pc_lines ?c0 @ pc_lines c\<rparr> = c"
    by (cases c) (simp add: PatchChunk_def)
  ultimately show ?thesis
    using parse_lines [OF ls, where ps = ps and p = p and cs = "pa_chunks p" and c = ?c0] by (auto simp: chunk_text_def)
qed

lemma parse_chunks:
  "\<forall>c \<in> set cs. patch_chunk_ok c \<Longrightarrow>
   \<exists>r'. rfold parse_step (in_patch ps p r) (concat (map chunk_text cs)) =
     Inr (in_patch ps (p\<lparr>pa_chunks := pa_chunks p @ cs\<rparr>) r')"
proof (induction cs arbitrary: p r)
  case Nil
  then show ?case by auto
next
  case (Cons c cs)
  obtain r1 where "rfold parse_step (in_patch ps p r) (chunk_text c) =
      Inr (in_patch ps (p\<lparr>pa_chunks := pa_chunks p @ [c]\<rparr>) r1)"
    using parse_chunk Cons.prems by (metis list.set_intros(1))
  then show ?case
    using Cons.IH [of "p\<lparr>pa_chunks := pa_chunks p @ [c]\<rparr>" r1] Cons.prems
    by (simp add: rfold_append)
qed

lemma parse_patch:
  assumes ok: "patch_ok p"
  shows "\<exists>i r. rfold parse_step \<lparr>ps_patchset = ps, ps_patch = i0, ps_chunk = r0\<rparr> (patch_text p) =
    Inr \<lparr>ps_patchset = ps @ [p], ps_patch = i, ps_chunk = r\<rparr>"
proof -
  let ?p0 = "patch_set_src Patch (pa_src p)"
  let ?p1 = "patch_set_dst ?p0 (pa_dst p)"
  have nl: "py_newline \<notin> set (pa_src p)" "py_newline \<notin> set (pa_dst p)"
    and cs: "\<forall>c \<in> set (pa_chunks p). patch_chunk_ok c"
    using ok by (auto simp: patch_ok_def)
  have s1: "parse_step \<lparr>ps_patchset = ps, ps_patch = i0, ps_chunk = r0\<rparr>
      (''--- '' @ pa_src p @ [py_newline]) = Inr (in_patch ps ?p0 r0)"
    using rx_line_text [OF nl(1), of "''--- ''"] by (simp add: parse_step_def in_patch_def)
  have s2: "parse_step (in_patch ps ?p0 r0) (''+++ '' @ pa_dst p @ [py_newline]) =
      Inr (in_patch ps ?p1 r0)"
    using rx_line_text [OF nl(2), of "''+++ ''"]
    by (simp add: parse_step_def in_patch_def upd_patch_def rx_line_other)
  obtain r where "rfold parse_step (in_patch ps ?p1 r0) (concat (map chunk_text (pa_chunks p))) =
      Inr (in_patch ps (?p1\<lparr>pa_chunks := pa_chunks ?p1 @ pa_chunks p\<rparr>) r)"
    using parse_chunks [OF cs] by blast
  moreover have "?p1\<lparr>pa_chunks := pa_chunks ?p1 @ pa_chunks p\<rparr> = p"
    by (cases p) (simp add: patch_set_src_def patch_set_dst_def Patch_def)
  ultimately show ?thesis
    using s1 s2 by (simp add: patch_text_def in_patch_def)
qed

lemma parse_patches:
  "\<forall>p \<in> set ps. patch_ok p \<Longrightarrow>
   \<exists>i r. rfold parse_step \<lparr>ps_patchset = qs, ps_patch = i0, ps_chunk = r0\<rparr>
       (concat (map patch_text ps)) =
     Inr \<lparr>ps_patchset = qs @ ps, ps_patch = i, ps_chunk = r\<rparr>"
proof (induction ps arbitrary: qs i0 r0)
  case Nil
  then show ?case by simp
next
  case (Cons p ps)
  obtain i1 r1 where "rfold parse_step \<lparr>ps_patchset = qs, ps_patch = i0, ps_chunk = r0\<rparr> (patch_text p) =
      Inr \<lparr>ps_patchset = qs @ [p], ps_patch = i1, ps_chunk = r1\<rparr>"
    using parse_patch Cons.prems by (metis list.set_intros(1))
  then show ?case
    using Cons.IH [of "qs @ [p]" i1 r1] Cons.prems by (simp add: rfold_append)
qed

text \<open>
  C17: what the writer produces for well-formed patches, the parser reads back: parsing the
  written lines gives the same patches, with the same chunks, positions and lines.
\<close>

theorem parse_write_roundtrip:
  assumes "\<forall>p \<in> set ps. patch_ok p"
  shows "rbind (rmapM patch_write ps) (\<lambda>ws. parse_patchset (concat ws)) = Inr ps"
proof -
  have "rmapM patch_write ps = Inr (map patch_text ps)"
    using assms by (intro rmapM_total) (auto simp: patch_write_text)
  then show ?thesis
    using parse_patches [OF assms, of "[]" None None]
    by (auto simp: parse_patchset_def parse_init_def)
qed

definition example_patch :: patch where
  "example_patch = \<lparr>pa_src = ''a.cc'', pa_dst = ''b.cc'', pa_chunks =
     [\<lparr>pc_lines = [\<lparr>pl_type = 3, pl_line = ''x''\<rparr>, \<lparr>pl_type = 1, pl_line = ''y ''\<rparr>,
        \<lparr>pl_type = 2, pl_line = ''y''\<rparr>], pc_src_pos = 12, pc_dst_pos = 12\<rparr>]\<rparr>"

theorem parse_write_roundtrip_witness:
  "rbind (rmapM patch_write [example_patch]) (\<lambda>ws. parse_patchset (concat ws)) = Inr [example_patch]"
  by (rule parse_write_roundtrip)
    (simp add: example_patch_def patch_ok_def patch_chunk_ok_def patch_line_ok_def line_types
      py_newline_def)

text \<open>
  A removed line that starts with two dashes and a space is written with three dashes, which the
  parser takes for the header of another file.
\<close>

lemma parse_dashes_shadowed:
  "parse_patchset [''--- a'', ''+++ b'', ''@@ -1,1 +1,0 @@'', ''--- comment''] =
     Inr [\<lparr>pa_src = ''a'', pa_dst = ''b'', pa_chunks = [PatchChunk 1 1]\<rparr>,
          \<lparr>pa_src = ''comment'', pa_dst = '''', pa_chunks = []\<rparr>]"
  by code_simp

text \<open>
  The parser rejects a line of the body that comes before the first chunk header, and a
  header line for the new file or a chunk header that comes before the first file header: the
  result is an exception, never a patch.
\<close>

lemma parse_needs_headers:
  "(patch_line_ok l \<longrightarrow> parse_patchset (line_text l # rest) = Inl UnboundLocalError) \<and>
   (py_newline \<notin> set f \<longrightarrow> parse_patchset ((''+++ '' @ f @ [py_newline]) # rest) = Inl AttributeError) \<and>
   (0 \<le> pc_src_pos c \<and> 0 \<le> pc_dst_pos c \<longrightarrow>
      parse_patchset (chunk_header c # rest) = Inl AttributeError)"
proof (intro conjI impI)
  assume "patch_line_ok l"
  then show "parse_patchset (line_text l # rest) = Inl UnboundLocalError"
    by (simp add: parse_patchset_def parse_step_line with_chunk_def parse_init_def)
next
  assume "py_newline \<notin> set f"
  then show "parse_patchset ((''+++ '' @ f @ [py_newline]) # rest) = Inl AttributeError"
    using rx_line_text [of f "''+++ ''"]
    by (simp add: parse_patchset_def parse_step_def parse_init_def rx_line_other)
next
  assume "0 \<le> pc_src_pos c \<and> 0 \<le> pc_dst_pos c"
  then have "rx_chunk_start (chunk_header c) = Some (pc_src_pos c, pc_dst_pos c)"
    by (simp add: rx_chunk_header)
  moreover have "rx_line ''--- '' (chunk_header c) = None" "rx_line ''+++ '' (chunk_header c) = None"
    by (simp_all add: chunk_header_def rx_line_other)
  ultimately show "parse_patchset (chunk_header c # rest) = Inl AttributeError"
    by (simp add: parse_patchset_def parse_step_def parse_init_def)
qed

lemma parse_needs_headers_witness:
  "parse_patchset [line_text \<lparr>pl_type = 1, pl_line = ''x''\<rparr>] = Inl UnboundLocalError \<and>
   parse_patchset [''+++ '' @ ''f'' @ [py_newline]] = Inl AttributeError \<and>
   parse_patchset [chunk_header (PatchChunk 1 1)] = Inl AttributeError"
  using parse_needs_headers [of "\<lparr>pl_type = 1, pl_line = ''x''\<rparr>" "[]" "''f''" "PatchChunk 1 1"]
  by (simp add: patch_line_ok_def line_types py_newline_def PatchChunk_def)

section \<open>Whitespace\<close>

text \<open>A line that has at most gained blanks at its end.\<close>

definition gains :: "patch_line \<Rightarrow> patch_line \<Rightarrow> bool" where
  "gains l l' \<longleftrightarrow> pl_type l' = pl_type l \<and> (is_dst l \<or> l' = l) \<and>
     (\<exists>w. pl_line l' = pl_line l @ w \<and> (\<forall>c \<in> set w. blank c))"

definition chunk_gains :: "patch_chunk \<Rightarrow> patch_chunk \<Rightarrow> bool" where
  "chunk_gains c c' \<longleftrightarrow> pc_src_pos c' = pc_src_pos c \<and> pc_dst_pos c' = pc_dst_pos c \<and>
     list_all2 gains (pc_lines c) (pc_lines c')"

definition patch_gains :: "patch \<Rightarrow> patch \<Rightarrow> bool" where
  "patch_gains p p' \<longleftrightarrow> pa_src p' = pa_src p \<and> pa_dst p' = pa_dst p \<and>
     list_all2 chunk_gains (pa_chunks p) (pa_chunks p')"

lemma gains_refl [simp]: "gains l l"
  by (auto simp: gains_def)

lemma gains_trans: "gains a b \<Longrightarrow> gains b c \<Longrightarrow> gains a c"
  by (fastforce simp: gains_def is_dst_def)

lemma chunk_gains_refl [simp]: "chunk_gains c c"
  by (simp add: chunk_gains_def list_all2_refl)

lemma chunk_gains_trans:
  assumes "chunk_gains a b" "chunk_gains b c"
  shows "chunk_gains a c"
proof -
  have "list_all2 gains (pc_lines a) (pc_lines c)"
  proof (rule list_all2_trans [where ?P1.0 = gains and ?P2.0 = gains])
    show "list_all2 gains (pc_lines a) (pc_lines b)" "list_all2 gains (pc_lines b) (pc_lines c)"
      using assms by (simp_all add: chunk_gains_def)
  qed (rule gains_trans)
  with assms show ?thesis by (simp add: chunk_gains_def)
qed

lemma patch_gains_refl [simp]: "patch_gains p p"
  by (simp add: patch_gains_def list_all2_refl)

lemma rx_whitespace_blank: "rx_whitespace s = Some (g1, g2) \<Longrightarrow> \<forall>c \<in> set g2. blank c"
  by (auto simp: rx_whitespace_def Let_def split: if_splits)

lemma list_all2_same_update:
  "(\<And>x. P x x) \<Longrightarrow> P (xs ! i) y \<Longrightarrow> list_all2 P xs (xs[i := y])"
  by (simp add: list_all2_conv_all_nth) (metis nth_list_update_eq nth_list_update_neq)

lemma rtw_lines_gains:
  "\<forall>d \<in> set ds. is_dst (pc_lines c ! d) \<Longrightarrow> chunk_gains c (fst (rtw_lines ss ds c))"
proof (induction ss ds c rule: rtw_lines.induct)
  case (3 s ss d ds c)
  define c' where "c' = (case rx_whitespace (pl_line (pc_lines c ! s)) of
        Some (g1, g2) \<Rightarrow>
          (if g1 = pl_line (pc_lines c ! d)
           then c\<lparr>pc_lines := (pc_lines c)[d := append_to_line (pc_lines c ! d) g2]\<rparr> else c)
      | None \<Rightarrow> c)"
  have step: "chunk_gains c c'"
  proof -
    have "list_all2 gains (pc_lines c) ((pc_lines c)[d := append_to_line (pc_lines c ! d) g2])"
      if "rx_whitespace s' = Some (g1, g2)" for s' g1 g2
      using "3.prems" rx_whitespace_blank [OF that]
      by (intro list_all2_same_update gains_refl) (auto simp: gains_def append_to_line_def)
    then show ?thesis
      by (auto simp: c'_def chunk_gains_def list_all2_refl split: option.splits)
  qed
  have "is_dst (pc_lines c' ! e)" if "e \<in> set ds" for e
  proof (cases "e < length (pc_lines c)")
    case True
    with step have "gains (pc_lines c ! e) (pc_lines c' ! e)"
      by (simp add: chunk_gains_def list_all2_nthD)
    then show ?thesis using "3.prems" that by (simp add: gains_def is_dst_def)
  next
    case False
    then have "pc_lines c' ! e = pc_lines c ! e"
      by (auto simp: c'_def list_update_beyond nth_list_update split: option.splits
          dest: list_update_beyond) (metis list_update_beyond nth_list_update_neq not_le)+
    then show ?thesis using "3.prems" that by simp
  qed
  then have "chunk_gains c' (fst (rtw_lines ss ds c'))"
    using "3.IH" [OF c'_def] by blast
  with step show ?case
    unfolding rtw_lines.simps Let_def c'_def [symmetric] by (rule chunk_gains_trans)
qed simp_all

lemma rtw_chunk_gains: "chunk_gains c (fst (rtw_chunk c))"
  unfolding rtw_chunk_def by (rule rtw_lines_gains) (auto simp: chunk_dst_def)

lemma rtw_chunks_gains: "list_all2 chunk_gains cs (fst (rtw_chunks cs))"
proof (induction cs)
  case Nil
  then show ?case by simp
next
  case (Cons c cs)
  then show ?case
    using rtw_chunk_gains [of c]
    by (auto simp: Let_def list_all2_refl split: prod.split)
qed

lemma rtw_patches_gains: "list_all2 patch_gains ps (rtw_patches ps)"
proof (induction ps)
  case Nil
  then show ?case by simp
next
  case (Cons p ps)
  then show ?case
    using rtw_chunks_gains [of "pa_chunks p"]
    by (auto simp: Let_def patch_gains_def list_all2_refl split: prod.split)
qed

lemma gains_lengths:
  assumes "chunk_gains c c'"
  shows "src_len c' = src_len c" "dst_len c' = dst_len c" "chunk_header c' = chunk_header c"
proof -
  have len: "length (pc_lines c') = length (pc_lines c)"
    using assms by (auto simp: chunk_gains_def dest: list_all2_lengthD)
  have ty: "pl_type (pc_lines c' ! i) = pl_type (pc_lines c ! i)" if "i < length (pc_lines c)" for i
    using assms that by (auto simp: chunk_gains_def gains_def dest: list_all2_nthD)
  have "chunk_src c' = chunk_src c" "chunk_dst c' = chunk_dst c"
    using len ty by (auto simp: chunk_src_def chunk_dst_def is_src_def is_dst_def intro!: filter_cong)
  then show "src_len c' = src_len c" "dst_len c' = dst_len c" "chunk_header c' = chunk_header c"
    using assms by (simp_all add: src_len_def dst_len_def chunk_header_def chunk_gains_def)
qed

text \<open>
  Undoing trailing whitespace changes never damages a patch: files, positions, line types
  and the lines of the old file stay, a line of the new file can only gain blanks at its end, and
  every chunk header stays correct.
\<close>

theorem rtw_preserves:
  assumes "parse_patchset lines = Inr ps"
  shows "\<exists>ps'. remove_trailing_whitespace_changes lines = Inr ps' \<and> list_all2 patch_gains ps ps' \<and>
    list_all2 (\<lambda>p p'. map chunk_header (pa_chunks p') = map chunk_header (pa_chunks p)) ps ps'"
proof -
  have "map chunk_header (pa_chunks p') = map chunk_header (pa_chunks p)" if "patch_gains p p'" for p p'
    using that
    by (auto simp: patch_gains_def list_all2_conv_all_nth gains_lengths intro!: nth_equalityI)
  then show ?thesis
    using assms rtw_patches_gains [of ps]
    by (auto simp: remove_trailing_whitespace_changes_def elim: list_all2_mono)
qed

theorem rtw_preserves_witness:
  "\<exists>ps'. remove_trailing_whitespace_changes (patch_text example_patch) = Inr ps' \<and>
     list_all2 patch_gains [example_patch] ps'"
proof -
  have "parse_patchset (patch_text example_patch) = Inr [example_patch]"
    by code_simp
  from rtw_preserves [OF this] show ?thesis by blast
qed

lemma rtw_lines_runs: "length xs \<le> length ys \<Longrightarrow> snd (rtw_lines xs ys c) = False"
  by (induction xs ys c rule: rtw_lines.induct) (simp_all add: Let_def)

text \<open>The new text of a line that replaces an old one.\<close>

definition restore :: "string \<Rightarrow> string \<Rightarrow> string" where
  "restore s d = (case rx_whitespace s of Some (g1, g2) \<Rightarrow> if g1 = d then d @ g2 else d | None \<Rightarrow> d)"

definition replaced :: "string list \<Rightarrow> string list \<Rightarrow> patch_line list" where
  "replaced ss ds = map (line_set_src PatchChunkLine) ss @ map (line_set_dst PatchChunkLine) ds"

lemma replaced_nth:
  assumes "length ds = length ss" "k < length ss"
  shows "replaced ss ds ! k = line_set_src PatchChunkLine (ss ! k)"
    "replaced ss ds ! (length ss + k) = line_set_dst PatchChunkLine (ds ! k)"
    "(replaced ss ds)[length ss + k := line_set_dst PatchChunkLine x] = replaced ss (ds[k := x])"
  using assms by (simp_all add: replaced_def nth_append list_update_append map_update)

lemma rtw_replaced:
  "length ds = length ss \<Longrightarrow> k \<le> length ss \<Longrightarrow> pc_lines c = replaced ss ds \<Longrightarrow>
   fst (rtw_lines [k..<length ss] [length ss + k..<length ss + length ss] c) =
     c\<lparr>pc_lines := replaced ss (take k ds @ map2 restore (drop k ss) (drop k ds))\<rparr>"
proof (induction "length ss - k" arbitrary: k ds c)
  case 0
  then show ?case by simp
next
  case (Suc m)
  let ?n = "length ss"
  have k: "k < ?n" using Suc.hyps(2) by simp
  define ds' where "ds' = ds[k := restore (ss ! k) (ds ! k)]"
  define c' where "c' = c\<lparr>pc_lines := replaced ss ds'\<rparr>"
  have upt: "[k..<?n] = k # [Suc k..<?n]" "[?n + k..<?n + ?n] = (?n + k) # [?n + Suc k..<?n + ?n]"
    using k by (simp_all add: upt_conv_Cons)
  have "rtw_lines [k..<?n] [?n + k..<?n + ?n] c = rtw_lines [Suc k..<?n] [?n + Suc k..<?n + ?n] c'"
  proof -
    have l: "pl_line (pc_lines c ! k) = ss ! k" "pl_line (pc_lines c ! (?n + k)) = ds ! k"
      using replaced_nth(1,2) [OF Suc.prems(1) k] Suc.prems(3)
      by (simp_all add: line_set_src_def line_set_dst_def)
    have "append_to_line (pc_lines c ! (?n + k)) g = line_set_dst PatchChunkLine (ds ! k @ g)" for g
      using replaced_nth(2) [OF Suc.prems(1) k] Suc.prems(3)
      by (simp add: append_to_line_def line_set_dst_def PatchChunkLine_def)
    then have upd: "(pc_lines c)[?n + k := append_to_line (pc_lines c ! (?n + k)) g] =
        replaced ss (ds[k := ds ! k @ g])" for g
      using replaced_nth(3) [OF Suc.prems(1) k] Suc.prems(3) by simp
    have same: "c\<lparr>pc_lines := replaced ss ds\<rparr> = c" using Suc.prems(3) by (cases c) simp
    have "(case rx_whitespace (ss ! k) of
        Some (g1, g2) \<Rightarrow> (if g1 = ds ! k then c\<lparr>pc_lines := replaced ss (ds[k := ds ! k @ g2])\<rparr> else c)
      | None \<Rightarrow> c) = c'"
      using same by (auto simp: c'_def ds'_def restore_def split: option.split)
    then show ?thesis
      unfolding upt rtw_lines.simps Let_def l upd by simp
  qed
  moreover have "fst (rtw_lines [Suc k..<?n] [?n + Suc k..<?n + ?n] c') =
      c'\<lparr>pc_lines := replaced ss (take (Suc k) ds' @ map2 restore (drop (Suc k) ss) (drop (Suc k) ds'))\<rparr>"
    using Suc.hyps(2) Suc.prems k by (intro Suc.hyps(1)) (auto simp: ds'_def c'_def)
  moreover have "take (Suc k) ds' @ map2 restore (drop (Suc k) ss) (drop (Suc k) ds') =
      take k ds @ map2 restore (drop k ss) (drop k ds)"
    using k Suc.prems(1)
    by (simp add: ds'_def take_Suc_conv_app_nth Cons_nth_drop_Suc [symmetric])
  ultimately show ?case by (simp add: c'_def)
qed

text \<open>
  In a chunk that replaces a block of lines by as many new ones, every new line that is the
  old one without its last blank gets that blank back, and no other line changes.
\<close>

theorem rtw_chunk_replaced:
  assumes "length ds = length ss"
  shows "rtw_chunk \<lparr>pc_lines = replaced ss ds, pc_src_pos = a, pc_dst_pos = b\<rparr> =
    (\<lparr>pc_lines = replaced ss (map2 restore ss ds), pc_src_pos = a, pc_dst_pos = b\<rparr>, False)"
proof -
  let ?n = "length ss" and ?c = "\<lparr>pc_lines = replaced ss ds, pc_src_pos = a, pc_dst_pos = b\<rparr>"
  have src_ty: "is_src (replaced ss ds ! i) \<longleftrightarrow> i < ?n"
    and dst_ty: "is_dst (replaced ss ds ! i) \<longleftrightarrow> ?n \<le> i" if "i < ?n + ?n" for i
    using assms that
    by (auto simp: replaced_def nth_append is_src_def is_dst_def line_set_src_def line_set_dst_def
        line_types)
  have len: "length (pc_lines ?c) = ?n + ?n" using assms by (simp add: replaced_def)
  have halves: "[0..<?n + ?n] = [0..<?n] @ [?n..<?n + ?n]"
    by (rule upt_add_eq_append) simp
  have "filter (\<lambda>i. is_src (pc_lines ?c ! i)) [0..<?n] = [0..<?n]"
    "filter (\<lambda>i. is_src (pc_lines ?c ! i)) [?n..<?n + ?n] = []"
    by (simp_all add: filter_empty_conv filter_id_conv src_ty)
  then have src: "chunk_src ?c = [0..<?n]"
    unfolding chunk_src_def len halves filter_append by simp
  have "filter (\<lambda>i. is_dst (pc_lines ?c ! i)) [0..<?n] = []"
    "filter (\<lambda>i. is_dst (pc_lines ?c ! i)) [?n..<?n + ?n] = [?n..<?n + ?n]"
    by (simp_all add: filter_empty_conv filter_id_conv dst_ty)
  then have dst: "chunk_dst ?c = [?n..<?n + ?n]"
    unfolding chunk_dst_def len halves filter_append by simp
  have "fst (rtw_lines [0..<?n] [?n..<?n + ?n] ?c) =
      ?c\<lparr>pc_lines := replaced ss (map2 restore ss ds)\<rparr>"
    using rtw_replaced [OF assms, of 0 ?c] by simp
  moreover have "snd (rtw_lines [0..<?n] [?n..<?n + ?n] ?c) = False"
    by (rule rtw_lines_runs) simp
  ultimately show ?thesis unfolding rtw_chunk_def src dst by (simp add: prod_eq_iff)
qed

theorem rtw_chunk_replaced_witness:
  "rtw_chunk \<lparr>pc_lines = replaced [''a '', ''b''] [''a'', ''b''], pc_src_pos = 1, pc_dst_pos = 1\<rparr> =
    (\<lparr>pc_lines = replaced [''a '', ''b''] [''a '', ''b''], pc_src_pos = 1, pc_dst_pos = 1\<rparr>, False)"
  using rtw_chunk_replaced [of "[''a'', ''b'']" "[''a '', ''b'']" 1 1]
  by (simp add: restore_def rx_whitespace_def strip_newline_def blank_def py_newline_def py_tab_def
      Let_def)

text \<open>
  A trailing run of two or more blanks that the formatter removed is not put back: the greedy
  first group keeps all but one of them, so the comparison with the new line fails.
\<close>

lemma restore_long_run:
  assumes "py_newline \<notin> set d" "\<forall>c \<in> set w. blank c" "2 \<le> length w"
  shows "restore (d @ w) d = d"
proof -
  have "\<not> blank py_newline" by (simp add: blank_def py_newline_def py_tab_def)
  then have nl: "py_newline \<notin> set (d @ w)" using assms(1,2) by auto
  have "last (d @ w) \<in> set (d @ w)" using assms(3) by (intro last_in_set) auto
  then have "last (d @ w) \<noteq> py_newline" using nl by metis
  then have s: "strip_newline (d @ w) = d @ w" unfolding strip_newline_def by simp
  have "length (butlast (d @ w)) \<noteq> length d" using assms(3) by simp
  then have ne: "butlast (d @ w) \<noteq> d" by metis
  show ?thesis
  proof (cases "rx_whitespace (d @ w)")
    case None
    then show ?thesis by (simp add: restore_def)
  next
    case (Some g)
    then have "fst g = butlast (d @ w)"
      unfolding rx_whitespace_def s by (auto simp: Let_def simp del: butlast_append split: if_splits)
    with Some ne show ?thesis by (auto simp: restore_def split: prod.split)
  qed
qed

lemma restore_long_run_witness: "restore ''int x;  '' ''int x;'' = ''int x;''"
  using restore_long_run [of "''int x;''" "''  ''"]
  by (simp add: blank_def py_newline_def)

end
