(* ===== verification/OsPath.thy ===== *)
theory OsPath
  imports PyCore
begin

text \<open>
  The functions of \<open>os.path\<close> (POSIX) the scripts use, and files as a map from paths to
  texts, read line by line.
\<close>

section \<open>Paths\<close>

definition path_join :: "string \<Rightarrow> string \<Rightarrow> string" where
  "path_join a b =
     (if startswith b ''/'' then b
      else if a = [] \<or> last a = CHR ''/'' then a @ b
      else a @ ''/'' @ b)"

definition basename :: "string \<Rightarrow> string" where
  "basename p = rev (takeWhile (\<lambda>c. c \<noteq> CHR ''/'') (rev p))"

text \<open>\<open>normpath\<close>: the components with \<open>.\<close> and empty ones dropped and \<open>..\<close> resolved.\<close>

fun norm_comps :: "bool \<Rightarrow> string list \<Rightarrow> string list \<Rightarrow> string list" where
  "norm_comps absolute acc [] = rev acc"
| "norm_comps absolute acc (c # cs) =
     (if c = [] \<or> c = ''.'' then norm_comps absolute acc cs
      else if c \<noteq> ''..'' \<or> (\<not> absolute \<and> acc = []) \<or> (acc \<noteq> [] \<and> hd acc = ''..'')
           then norm_comps absolute (c # acc) cs
      else norm_comps absolute (tl acc) cs)"

definition normpath :: "string \<Rightarrow> string" where
  "normpath p =
     (if p = [] then ''.''
      else
        (let slashes = (if startswith p ''//'' \<and> \<not> startswith p ''///'' then ''//''
                        else if startswith p ''/'' then ''/'' else []);
             r = slashes @ py_join ''/'' (norm_comps (slashes \<noteq> []) [] (split_all (CHR ''/'') p))
         in if r = [] then ''.'' else r))"

definition abspath :: "string \<Rightarrow> string \<Rightarrow> string" where
  "abspath cwd p = normpath (path_join cwd p)"

fun common_prefix :: "string list \<Rightarrow> string list \<Rightarrow> nat" where
  "common_prefix (x # xs) (y # ys) = (if x = y then Suc (common_prefix xs ys) else 0)"
| "common_prefix _ _ = 0"

definition path_comps :: "string \<Rightarrow> string list" where
  "path_comps p = filter (\<lambda>c. c \<noteq> []) (split_all (CHR ''/'') p)"

text \<open>\<open>os.path.relpath (path, start)\<close>.\<close>

definition os_relpath :: "string \<Rightarrow> string \<Rightarrow> string \<Rightarrow> string pyres" where
  "os_relpath cwd path start =
     (if path = [] then Inl ValueError
      else
        (let sl = path_comps (abspath cwd start); pl = path_comps (abspath cwd path);
             i = common_prefix sl pl; rel = replicate (length sl - i) ''..'' @ drop i pl
         in Inr (if rel = [] then ''.'' else py_join ''/'' rel)))"

lemma basename_join [simp]:
  "CHR ''/'' \<notin> set b \<Longrightarrow> a \<noteq> [] \<Longrightarrow> basename (path_join a b) = b"
proof -
  assume b: "CHR ''/'' \<notin> set b" and a: "a \<noteq> []"
  have stop: "takeWhile (\<lambda>c. c \<noteq> CHR ''/'') (rev b @ CHR ''/'' # xs) = rev b" for xs
    using b by (intro takeWhile_append_stop) auto
  have "\<not> startswith b ''/''" using b by (auto simp: startswith_iff)
  moreover obtain r where r: "a = r @ [last a]"
    by (metis a append_butlast_last_id)
  moreover have "rev a = last a # rev r"
    by (subst r) simp
  ultimately show ?thesis
    using a stop [of "rev r"] stop [of "rev a"]
    by (cases "last a = CHR ''/''") (simp_all add: basename_def path_join_def del: rev_eq_Cons_iff)
qed

section \<open>Files\<close>

type_synonym files = "string \<Rightarrow> string option"

text \<open>Reading a file line by line; every line keeps its newline.\<close>

fun readlines :: "string \<Rightarrow> string list" where
  "readlines [] = []"
| "readlines (c # s) =
     (if c = py_newline then [c] # readlines s
      else (case readlines s of [] \<Rightarrow> [[c]] | l # ls \<Rightarrow> (c # l) # ls))"

lemma readlines_concat [simp]: "concat (readlines s) = s"
  by (induction s) (auto split: list.splits)

lemma readlines_nonempty: "l \<in> set (readlines s) \<Longrightarrow> l \<noteq> []"
  by (induction s arbitrary: l) (auto split: list.splits if_splits)

lemma readlines_line:
  "py_newline \<notin> set l \<Longrightarrow> readlines (l @ py_newline # s) = (l @ [py_newline]) # readlines s"
  by (induction l) auto

section \<open>Extensions\<close>

text \<open>
  \<open>os.path.splitext\<close>: the extension starts at the last dot of the last component; dots the
  component begins with do not count.
\<close>

definition splitext :: "string \<Rightarrow> string \<times> string" where
  "splitext p =
     (let b = basename p; lead = takeWhile (\<lambda>c. c = CHR ''.'') b; rest = dropWhile (\<lambda>c. c = CHR ''.'') b;
          ext = rev (takeWhile (\<lambda>c. c \<noteq> CHR ''.'') (rev rest))
      in if CHR ''.'' \<in> set rest then (take (length p - length ext - 1) p, CHR ''.'' # ext) else (p, []))"

lemma splitext_simple: "splitext ''core.py'' = (''core'', ''.py'') \<and> splitext ''a.b/c'' = (''a.b/c'', []) \<and> splitext ''.x'' = (''.x'', [])"
  by code_simp

end
