(* ===== verification/CheckStyle.thy ===== *)
theory CheckStyle
  imports Patch OsPath
begin

text \<open>
  The driver of \<open>utils/check-style.py\<close>: the generated configuration, \<open>indent\<close>, which
  runs the external formatter on a temporary copy and applies the filtered difference,
  \<open>indent_files\<close> and the two entry points. The programs \<open>uncrustify\<close>, \<open>patch\<close> and \<open>hg\<close>, the
  library function \<open>difflib.unified_diff\<close> and the choice of temporary names are parameters.
\<close>

section \<open>Files and parameters\<close>

record cs_world =
  w_files :: "(string, string) dict"
  w_err :: "string list"
  w_out :: "string list"

text \<open>
  \<open>t_uncrustify cfg src\<close> is None when the program is not installed, otherwise its two output
  streams and what it leaves in the output file; \<open>t_patch diff text\<close> likewise;
  \<open>t_tmp\<close> chooses the name of a new temporary file; \<open>t_same_stat\<close> says whether two of the files have
  the same stat signature (type, size and time of the last change).
\<close>

record cs_tools =
  t_tmp :: "(string, string) dict \<Rightarrow> string"
  t_uncrustify :: "string \<Rightarrow> string option \<Rightarrow> (string \<times> string \<times> string) option"
  t_diff :: "string list \<Rightarrow> string list \<Rightarrow> string \<Rightarrow> string \<Rightarrow> string list"
  t_patch :: "string \<Rightarrow> string \<Rightarrow> (string \<times> string \<times> string) option"
  t_same_stat :: "(string, string) dict \<Rightarrow> string \<Rightarrow> string \<Rightarrow> bool"
  t_hg :: string

definition text_of_lines :: "string list \<Rightarrow> string" where
  "text_of_lines ls = concat (map (\<lambda>l. l @ [py_newline]) ls)"

definition mkstemp :: "cs_tools \<Rightarrow> (cs_world, string) act" where
  "mkstemp t w =
     (let n = t_tmp t (w_files w) in (Inr n, w\<lparr>w_files := dict_set n [] (w_files w)\<rparr>))"

definition read_file :: "string \<Rightarrow> (cs_world, string) act" where
  "read_file n w = (case map_of (w_files w) n of Some s \<Rightarrow> Inr s | None \<Rightarrow> Inl OSError, w)"

definition write_file :: "string \<Rightarrow> string \<Rightarrow> (cs_world, unit) act" where
  "write_file n s = amodify (\<lambda>w. w\<lparr>w_files := dict_set n s (w_files w)\<rparr>)"

definition stderr_write :: "string \<Rightarrow> (cs_world, unit) act" where
  "stderr_write s = amodify (\<lambda>w. w\<lparr>w_err := w_err w @ [s]\<rparr>)"

definition stdout_write :: "string \<Rightarrow> (cs_world, unit) act" where
  "stdout_write s = amodify (\<lambda>w. w\<lparr>w_out := w_out w @ [s]\<rparr>)"

definition copyfile :: "string \<Rightarrow> string \<Rightarrow> (cs_world, unit) act" where
  "copyfile src dst = abind (read_file src) (write_file dst)"

section \<open>hg_modified_files, copy_file, uncrustify_config_file\<close>

definition hg_modified_files :: "cs_tools \<Rightarrow> string list" where
  "hg_modified_files t = map py_strip (readlines (t_hg t))"

definition copy_file :: "cs_tools \<Rightarrow> string \<Rightarrow> (cs_world, string) act" where
  "copy_file t filename =
     abind (mkstemp t) (\<lambda>pathname.
     abind (read_file filename) (\<lambda>src.
     aseq (write_file pathname (concat (readlines src))) (aret pathname)))"

definition level2 :: string where
  "level2 = text_of_lines
     [[],
      ''nl_collapse_empty_body=False'',
      ''nl_if_brace=Add'',
      ''nl_brace_else=Add'',
      ''nl_elseif_brace=Add'',
      ''nl_else_brace=Add'',
      ''nl_while_brace=Add'',
      ''nl_do_brace=Add'',
      ''nl_for_brace=Add'',
      ''nl_brace_while=Add'',
      ''nl_switch_brace=Add'',
      ''nl_after_case=True'',
      ''nl_namespace_brace=Remove'',
      ''nl_after_brace_open=True'',
      ''nl_class_leave_one_liners=False'',
      ''nl_enum_leave_one_liners=False'',
      ''nl_func_leave_one_liners=False'',
      ''nl_if_leave_one_liners=False'',
      ''nl_class_colon=Ignore'',
      ''nl_after_access_spec=1'',
      ''nl_after_semicolon=True'',
      ''pos_class_colon=Lead'',
      ''pos_class_comma=Trail'',
      ''pos_bool=Lead'',
      ''nl_class_init_args=Add'',
      ''nl_template_class=Add'',
      ''nl_class_brace=Add'',
      ''# does not work very well'',
      ''nl_func_type_name=Ignore'',
      ''nl_func_scope_name=Ignore'',
      ''nl_func_type_name_class=Ignore'',
      ''nl_func_proto_type_name=Ignore'',
      ''# function'' @ CHR 0x5C # ''n('',
      ''nl_func_paren=Remove'',
      ''nl_fdef_brace=Add'',
      ''nl_struct_brace=Add'',
      ''nl_enum_brace=Add'',
      ''nl_union_brace=Add'',
      ''mod_full_brace_do=Add'',
      ''mod_full_brace_for=Add'',
      ''mod_full_brace_if=Add'',
      ''mod_full_brace_while=Add'',
      ''mod_full_brace_for=Add'',
      ''mod_remove_extra_semicolon=True'',
      ''# max code width'',
      ''#code_width=128'',
      ''#ls_for_split_full=True'',
      ''#ls_func_split_full=True'']"

definition level1 :: string where
  "level1 = text_of_lines
     [[],
      ''# extra spaces here and there'',
      ''sp_brace_typedef=Add'',
      ''sp_enum_assign=Add'',
      ''sp_before_sparen=Add'',
      ''sp_after_semi_for=Add'',
      ''sp_arith=Add'',
      ''sp_assign=Add'',
      ''sp_compare=Add'',
      ''sp_func_class_paren=Add'',
      ''sp_after_type=Add'',
      ''sp_type_func=Add'',
      ''sp_angle_paren=Add'']"

definition level0 :: string where
  "level0 = text_of_lines
     [[],
      ''sp_func_proto_paren=Add'',
      ''sp_func_def_paren=Add'',
      ''sp_func_call_paren=Add'',
      ''sp_after_semi_for=Ignore'',
      ''sp_before_sparen=Ignore'',
      ''sp_type_func=Ignore'',
      ''sp_after_type=Ignore'',
      ''nl_class_leave_one_liners=True'',
      ''nl_enum_leave_one_liners=True'',
      ''nl_func_leave_one_liners=True'',
      ''nl_assign_leave_one_liners=True'',
      ''#nl_collapse_empty_body=False'',
      ''nl_getset_leave_one_liners=True'',
      ''nl_if_leave_one_liners=True'',
      ''nl_fdef_brace=Ignore'',
      ''# finally, indentation configuration'',
      ''indent_with_tabs=0'',
      ''indent_namespace=false'',
      ''indent_columns=2'',
      ''indent_brace=2'',
      ''indent_case_brace=2'',
      ''indent_class=true'',
      ''indent_class_colon=True'',
      ''# alignment'',
      ''indent_align_assign=False'',
      ''align_left_shift=True'',
      ''# comment reformating disabled'',
      ''cmt_reflow_mode=1 # do not touch comments at all'',
      ''cmt_indent_multi=False # really, do not touch them'']"

definition uncrustify_config_file :: "cs_tools \<Rightarrow> int \<Rightarrow> (cs_world, string) act" where
  "uncrustify_config_file t level =
     abind (mkstemp t) (\<lambda>pathname.
     aseq (write_file pathname
             (level0 @ (if level \<ge> 1 then level1 else []) @ (if level \<ge> 2 then level2 else [])))
          (aret pathname))"

section \<open>indent\<close>

text \<open>Running the formatter; the handler turns a missing program into its own exception.\<close>

definition run_uncrustify ::
  "cs_tools \<Rightarrow> bool \<Rightarrow> string \<Rightarrow> string \<Rightarrow> string \<Rightarrow> (cs_world, unit) act" where
  "run_uncrustify t debug cfg source output w =
     (case t_uncrustify t (case map_of (w_files w) cfg of Some s \<Rightarrow> s | None \<Rightarrow> [])
             (map_of (w_files w) source) of
        None \<Rightarrow> (Inl (PyException ''uncrustify not installed''), w)
      | Some (out, err, text) \<Rightarrow>
          aseq (write_file output text)
            (awhen debug (aseq (stderr_write out) (stderr_write err))) w)"

text \<open>
  \<open>diff\<close> is a generator: the second component is what is left of it for a later reader.
\<close>

definition write_initial_diff ::
  "cs_tools \<Rightarrow> bool \<Rightarrow> string list \<Rightarrow> (cs_world, string list) act" where
  "write_initial_diff t debug diff =
     (if debug then
        abind (mkstemp t) (\<lambda>initial_diff.
        aseq (stderr_write (''initial diff file='' @ initial_diff @ [py_newline]))
        (aseq (write_file initial_diff (concat diff)) (aret [])))
      else aret diff)"

definition write_final_diff ::
  "int \<Rightarrow> string list \<Rightarrow> string \<Rightarrow> (cs_world, unit) act" where
  "write_final_diff level diff final_diff =
     (if level < 3 then
        abind (alift (remove_trailing_whitespace_changes diff)) (\<lambda>patchset.
        aseq (write_file final_diff [])
          (case patchset of
             [] \<Rightarrow> aret ()
           | p # _ \<Rightarrow> abind (alift (patch_write p)) (\<lambda>ls. write_file final_diff (concat ls))))
      else write_file final_diff (concat diff))"

definition run_patch ::
  "cs_tools \<Rightarrow> bool \<Rightarrow> string \<Rightarrow> string \<Rightarrow> (cs_world, unit) act" where
  "run_patch t debug final_diff output =
     abind (read_file final_diff) (\<lambda>d.
     abind (read_file output) (\<lambda>s.
       (case t_patch t d s of
          None \<Rightarrow> araise OSError
        | Some (out, err, text) \<Rightarrow>
            aseq (write_file output text)
              (awhen debug (aseq (stderr_write out) (stderr_write err))))))"

definition apply_diff ::
  "cs_tools \<Rightarrow> bool \<Rightarrow> int \<Rightarrow> string list \<Rightarrow> string \<Rightarrow> string \<Rightarrow> (cs_world, unit) act" where
  "apply_diff t debug level diff source output =
     abind (mkstemp t) (\<lambda>final_diff.
     aseq (write_final_diff level diff final_diff)
    (aseq (awhen debug (stderr_write (''final diff file='' @ final_diff @ [py_newline])))
    (aseq (copyfile source output)
          (run_patch t debug final_diff output))))"

definition indent :: "cs_tools \<Rightarrow> string \<Rightarrow> bool \<Rightarrow> int \<Rightarrow> (cs_world, string) act" where
  "indent t source debug level =
     abind (mkstemp t) (\<lambda>output.
     abind (uncrustify_config_file t level) (\<lambda>cfg.
     aseq (awhen debug
       (aseq (stderr_write (''original file='' @ source @ [py_newline]))
       (aseq (stderr_write (''uncrustify config file='' @ cfg @ [py_newline]))
             (stderr_write (''temporary file='' @ output @ [py_newline])))))
     (aseq (run_uncrustify t debug cfg source output)
     (abind (read_file source) (\<lambda>src.
      abind (read_file output) (\<lambda>dst.
      abind (write_initial_diff t debug (t_diff t (readlines src) (readlines dst) source output)) (\<lambda>diff.
      aseq (apply_diff t debug level diff source output)
           (aret output))))))))"

section \<open>indent_files\<close>

text \<open>\<open>filecmp.cmp\<close>: equal stat signatures, or else equal contents.\<close>

definition filecmp_cmp :: "cs_tools \<Rightarrow> string \<Rightarrow> string \<Rightarrow> (cs_world, bool) act" where
  "filecmp_cmp t a b =
     abind (read_file a) (\<lambda>s. abind (read_file b) (\<lambda>d w. aret (t_same_stat t (w_files w) a b \<or> s = d) w))"

definition find_failed ::
  "cs_tools \<Rightarrow> (string \<times> string) list \<Rightarrow> (cs_world, (string \<times> string) list) act" where
  "find_failed t output =
     abind (amapM (\<lambda>(src, dst). filecmp_cmp t src dst) output) (\<lambda>same.
     aret (map fst (filter (\<lambda>p. \<not> snd p) (zip output same))))"

definition report_failed ::
  "cs_tools \<Rightarrow> bool \<Rightarrow> (string \<times> string) list \<Rightarrow> (cs_world, unit) act" where
  "report_failed t diff failed =
     (if \<not> diff then
        aseq (stdout_write (''Found '' @ show_nat (length failed) @ '' badly indented files:'' @ [py_newline]))
             (afor failed (\<lambda>(src, dst). stdout_write (''  '' @ src @ [py_newline])))
      else
        afor failed (\<lambda>(src, dst).
          abind (read_file src) (\<lambda>s. abind (read_file dst) (\<lambda>d.
            afor (t_diff t (readlines s) (readlines d) src dst) stdout_write))))"

definition indent_pair :: "cs_tools \<Rightarrow> bool \<Rightarrow> int \<Rightarrow> string \<Rightarrow> (cs_world, string \<times> string) act" where
  "indent_pair t debug level f = abind (indent t f debug level) (\<lambda>dst. aret (f, dst))"

definition indent_files ::
  "cs_tools \<Rightarrow> string list \<Rightarrow> bool \<Rightarrow> bool \<Rightarrow> int \<Rightarrow> bool \<Rightarrow> (cs_world, bool) act" where
  "indent_files t files diff debug level inplace =
     abind (amapM (indent_pair t debug level) files) (\<lambda>output.
       if inplace then
         aseq (afor output (\<lambda>(src, dst). copyfile dst src)) (aret True)
       else
         abind (find_failed t output) (\<lambda>failed.
           if 0 < length failed then aseq (report_failed t diff failed) (aret False)
           else aret True))"

section \<open>Entry points\<close>

definition run_as_hg_hook :: "cs_tools \<Rightarrow> (cs_world, bool) act" where
  "run_as_hg_hook t =
     abind (indent_files t (hg_modified_files t) False False 0 False) (\<lambda>ok. aret (\<not> ok))"

record cs_options =
  o_debug :: bool
  o_level :: int
  o_hg_hook :: bool
  o_hg :: bool
  o_file :: string
  o_diff :: bool
  o_in_place :: bool

definition cs_default_options :: cs_options where
  "cs_default_options = \<lparr>o_debug = False, o_level = 0, o_hg_hook = False, o_hg = False,
     o_file = [], o_diff = False, o_in_place = False\<rparr>"

definition run_as_main :: "cs_tools \<Rightarrow> cs_options \<Rightarrow> (cs_world, unit) act" where
  "run_as_main t opt =
     aseq
      (if o_hg_hook opt then
         abind (indent_files t (hg_modified_files t) False (o_debug opt) (o_level opt) False) (\<lambda>ok.
           if \<not> ok then araise (SystemExit 1) else aret ())
       else if o_hg opt then
         abind (indent_files t (hg_modified_files t) (o_diff opt) (o_debug opt) (o_level opt) (o_in_place opt))
           (\<lambda>_. aret ())
       else if o_file opt \<noteq> [] then
         (\<lambda>w. (if map_of (w_files w) (o_file opt) = None then
                aseq (stdout_write (''file '' @ o_file opt @ '' does not exist'' @ [py_newline]))
                     (araise (SystemExit 1)) w
              else
                abind (indent_files t [o_file opt] (o_diff opt) (o_debug opt) (o_level opt) (o_in_place opt))
                  (\<lambda>_. aret ()) w))
       else aret ())
      (araise (SystemExit 0))"

section \<open>The generated configuration\<close>

text \<open>What a configuration sets: the last line for an option wins, comments are skipped.\<close>

fun config_value :: "string \<Rightarrow> string list \<Rightarrow> string option" where
  "config_value k [] = None"
| "config_value k (l # ls) =
     (case config_value k ls of
        Some v \<Rightarrow> Some v
      | None \<Rightarrow> if startswith l (k @ ''='') then Some (drop (length k + 1) (strip_newline l)) else None)"

definition level_text :: "int \<Rightarrow> string" where
  "level_text level = level0 @ (if level \<ge> 1 then level1 else []) @ (if level \<ge> 2 then level2 else [])"

definition option_at :: "int \<Rightarrow> string \<Rightarrow> string option" where
  "option_at level k = config_value k (readlines (level_text level))"

section \<open>Names and frames\<close>

text \<open>The documented behaviour of \<open>tempfile.mkstemp\<close>: the name did not exist before.\<close>

definition fresh_names :: "cs_tools \<Rightarrow> bool" where
  "fresh_names t \<longleftrightarrow> (\<forall>fs. map_of fs (t_tmp t fs) = None)"

definition kept :: "(string, string) dict \<Rightarrow> cs_world \<Rightarrow> bool" where
  "kept fs w \<longleftrightarrow> (\<forall>n v. map_of fs n = Some v \<longrightarrow> map_of (w_files w) n = Some v)"

lemma kept_refl [simp]: "kept (w_files w) w"
  by (simp add: kept_def)

lemma keptD: "kept fs w \<Longrightarrow> map_of fs n = Some v \<Longrightarrow> map_of (w_files w) n = Some v"
  by (simp add: kept_def)

lemma kept_write:
  "kept fs w \<Longrightarrow> map_of fs n = None \<Longrightarrow> kept fs (w\<lparr>w_files := dict_set n s (w_files w)\<rparr>)"
  by (auto simp: kept_def)

text \<open>What is finally handed to \<open>patch\<close>.\<close>

definition final_text :: "int \<Rightarrow> string list \<Rightarrow> string pyres" where
  "final_text level diff =
     (if level < 3 then
        rbind (remove_trailing_whitespace_changes diff) (\<lambda>ps.
          case ps of [] \<Rightarrow> Inr [] | p # _ \<Rightarrow> rmap concat (patch_write p))
      else Inr (concat diff))"

lemma final_text_nil: "final_text level [] = Inr []"
  by (simp add: final_text_def remove_trailing_whitespace_changes_def parse_patchset_def parse_init_def)

lemmas world_ops = mkstemp_def read_file_def write_file_def stderr_write_def stdout_write_def
  copyfile_def abind_def aseq_def awhen_def Let_def act_simps

lemma write_final_diff_text:
  assumes "final_text level diff = Inr fin"
  shows "write_final_diff level diff n w = (Inr (), w\<lparr>w_files := dict_set n fin (w_files w)\<rparr>)"
proof (cases "level < 3")
  case True
  with assms obtain ps where ps: "remove_trailing_whitespace_changes diff = Inr ps"
      "(case ps of [] \<Rightarrow> Inr [] | p # _ \<Rightarrow> rmap concat (patch_write p)) = Inr fin"
    by (auto simp: final_text_def rbind_eq_Inr_iff)
  show ?thesis
  proof (cases ps)
    case Nil
    with ps True show ?thesis by (simp add: write_final_diff_def world_ops)
  next
    case (Cons p qs)
    with ps obtain ls where "patch_write p = Inr ls" "fin = concat ls"
      by (auto simp: rmap_eq_Inr_iff)
    with Cons ps True show ?thesis by (simp add: write_final_diff_def world_ops)
  qed
next
  case False
  with assms show ?thesis by (simp add: final_text_def write_final_diff_def world_ops)
qed

lemma fresh_new: "fresh_names t \<Longrightarrow> map_of fs n = Some v \<Longrightarrow> t_tmp t fs \<noteq> n"
  by (auto simp: fresh_names_def)

lemma initial_diff_run:
  assumes "fresh_names t"
  shows "\<exists>w'. write_initial_diff t debug d w = (Inr (if debug then [] else d), w') \<and>
    kept (w_files w) w' \<and> w_out w' = w_out w"
  using assms
  by (auto simp: write_initial_diff_def world_ops kept_def fresh_names_def)

lemma apply_diff_run:
  assumes fresh: "fresh_names t"
    and dst: "map_of (w_files w) dst = Some text"
    and src: "map_of (w_files w) source = Some s" "dst \<noteq> source"
    and fin: "final_text level diff = Inr fin"
    and pat: "t_patch t fin s = Some (pout, perr, res)"
  shows "\<exists>w'. apply_diff t debug level diff source dst w = (Inr (), w') \<and>
    map_of (w_files w') dst = Some res \<and> w_out w' = w_out w \<and>
    (\<forall>n v. n \<noteq> dst \<longrightarrow> map_of (w_files w) n = Some v \<longrightarrow> map_of (w_files w') n = Some v)"
proof -
  define fd where "fd = t_tmp t (w_files w)"
  define w6 where "w6 = w\<lparr>w_files := dict_set fd fin (w_files w)\<rparr>"
  have fd: "map_of (w_files w) fd = None" "fd \<noteq> dst" "fd \<noteq> source"
    using fresh dst src by (auto simp: fd_def fresh_names_def dest: fresh_new [OF fresh])
  have m6: "mkstemp t w = (Inr fd, w\<lparr>w_files := dict_set fd [] (w_files w)\<rparr>)"
    by (simp add: mkstemp_def fd_def Let_def)
  have m6': "write_final_diff level diff fd (w\<lparr>w_files := dict_set fd [] (w_files w)\<rparr>) = (Inr (), w6)"
    using write_final_diff_text [OF fin] by (simp add: w6_def)
  obtain w7 where m7: "awhen debug (stderr_write (''final diff file='' @ fd @ [py_newline])) w6 = (Inr (), w7)"
      and w7: "w_files w7 = w_files w6" "w_out w7 = w_out w6"
    by (cases debug) (auto simp: world_ops)
  define w8 where "w8 = w7\<lparr>w_files := dict_set dst s (w_files w7)\<rparr>"
  have m8: "copyfile source dst w7 = (Inr (), w8)"
    using src fd w7 by (simp add: world_ops w8_def w6_def)
  obtain w9 where m9: "run_patch t debug fd dst w8 = (Inr (), w9)"
      and w9: "w_files w9 = dict_set dst res (w_files w8)" "w_out w9 = w_out w8"
    using pat fd w7 by (cases debug) (auto simp: run_patch_def world_ops w8_def w6_def)
  have "apply_diff t debug level diff source dst w = (Inr (), w9)"
    unfolding apply_diff_def
    by (simp add: act_step m6 m6' m7 m8 m9 del: append.simps)
  then show ?thesis
    using fd by (fastforce simp: w9 w8_def w7 w6_def)
qed

text \<open>One run of the formatter on one file.\<close>

lemma indent_result:
  assumes fresh: "fresh_names t"
    and src: "map_of (w_files w) source = Some s"
    and unc: "t_uncrustify t (level_text level) (Some s) = Some (out, err, text)"
    and fin: "final_text level (if debug then []
      else t_diff t (readlines s) (readlines text) source (t_tmp t (w_files w))) = Inr fin"
    and pat: "t_patch t fin s = Some (pout, perr, res)"
  shows "\<exists>dst w'. indent t source debug level w = (Inr dst, w') \<and>
    map_of (w_files w) dst = None \<and> map_of (w_files w') dst = Some res \<and>
    kept (w_files w) w' \<and> w_out w' = w_out w"
proof -
  define dst where "dst = t_tmp t (w_files w)"
  define w1 where "w1 = w\<lparr>w_files := dict_set dst [] (w_files w)\<rparr>"
  define cfg where "cfg = t_tmp t (w_files w1)"
  define w2 where "w2 = w1\<lparr>w_files := dict_set cfg (level_text level) (w_files w1)\<rparr>"
  have new: "map_of (w_files w) dst = None" and cfg1: "map_of (w_files w1) cfg = None"
    using fresh by (simp_all add: dst_def cfg_def fresh_names_def)
  have ne: "dst \<noteq> source" "cfg \<noteq> source" "cfg \<noteq> dst" "map_of (w_files w) cfg = None"
    using new cfg1 src by (auto simp: w1_def split: if_splits)
  have m1: "mkstemp t w = (Inr dst, w1)"
    by (simp add: mkstemp_def dst_def w1_def Let_def)
  have m2: "uncrustify_config_file t level w1 = (Inr cfg, w2)"
    by (simp add: uncrustify_config_file_def world_ops cfg_def w2_def level_text_def)
  obtain w3 where m3: "awhen debug
       (aseq (stderr_write (''original file='' @ source @ [py_newline]))
       (aseq (stderr_write (''uncrustify config file='' @ cfg @ [py_newline]))
             (stderr_write (''temporary file='' @ dst @ [py_newline])))) w2 = (Inr (), w3)"
      and w3: "w_files w3 = w_files w2" "w_out w3 = w_out w2"
    by (cases debug) (auto simp: world_ops)
  obtain w4 where m4: "run_uncrustify t debug cfg source dst w3 = (Inr (), w4)"
      and w4: "w_files w4 = dict_set dst text (w_files w3)" "w_out w4 = w_out w3"
    using unc src ne w3
    by (cases debug) (auto simp: run_uncrustify_def world_ops w2_def w1_def)
  have r4: "read_file source w4 = (Inr s, w4)" "read_file dst w4 = (Inr text, w4)"
    using src ne w3 w4 by (simp_all add: read_file_def w2_def w1_def)
  obtain w5 where m5: "write_initial_diff t debug
        (t_diff t (readlines s) (readlines text) source dst) w4 =
        (Inr (if debug then [] else t_diff t (readlines s) (readlines text) source dst), w5)"
      and w5: "kept (w_files w4) w5" "w_out w5 = w_out w4"
    using initial_diff_run [OF fresh] by blast
  have in5: "map_of (w_files w5) dst = Some text" "map_of (w_files w5) source = Some s"
    using ne src w3 w4 by (auto intro!: keptD [OF w5(1)] simp: w2_def w1_def)
  obtain w9 where m9: "apply_diff t debug level
        (if debug then [] else t_diff t (readlines s) (readlines text) source dst) source dst w5 = (Inr (), w9)"
      and w9: "map_of (w_files w9) dst = Some res" "w_out w9 = w_out w5"
        "\<And>n v. n \<noteq> dst \<Longrightarrow> map_of (w_files w5) n = Some v \<Longrightarrow> map_of (w_files w9) n = Some v"
    using apply_diff_run [OF fresh in5 ne(1) fin [folded dst_def] pat] by blast
  have "indent t source debug level w = (Inr dst, w9)"
    unfolding indent_def
    by (simp add: act_step m1 m2 m3 m4 r4 m5 m9 aret_apply del: append.simps)
  moreover have "map_of (w_files w5) n = Some v \<and> n \<noteq> dst" if "map_of (w_files w) n = Some v" for n v
    using that new ne w3 w4 by (auto intro!: keptD [OF w5(1)] simp: w2_def w1_def)
  then have "kept (w_files w) w9" using w9(3) by (simp add: kept_def)
  ultimately show ?thesis
    using new w9 w5 w4 w3 by (auto simp: w2_def w1_def)
qed

section \<open>Checking and rewriting files\<close>

text \<open>
  What is relied on of the programs and libraries. The formatter makes \<open>fmt s\<close> of the text \<open>s\<close>; \<open>patch\<close>
  carries out the difference that \<open>difflib.unified_diff\<close> gives of two texts whose last line ends, and
  changes nothing for an empty one; and files with the same type, size and time have the same contents.
\<close>

definition ends_line :: "string \<Rightarrow> bool" where
  "ends_line s \<longleftrightarrow> s = [] \<or> last s = py_newline"

definition uncrustify_gives :: "cs_tools \<Rightarrow> int \<Rightarrow> (string \<Rightarrow> string) \<Rightarrow> bool" where
  "uncrustify_gives t level fmt \<longleftrightarrow>
     (\<forall>s. \<exists>out err. t_uncrustify t (level_text level) (Some s) = Some (out, err, fmt s))"

definition patch_applies :: "cs_tools \<Rightarrow> bool" where
  "patch_applies t \<longleftrightarrow>
     (\<forall>a b f d. ends_line a \<longrightarrow> ends_line b \<longrightarrow>
        (\<exists>out err. t_patch t (concat (t_diff t (readlines a) (readlines b) f d)) a = Some (out, err, b)))"

definition empty_patch_keeps :: "cs_tools \<Rightarrow> bool" where
  "empty_patch_keeps t \<longleftrightarrow> (\<forall>a. \<exists>out err. t_patch t [] a = Some (out, err, a))"

definition stat_tells :: "cs_tools \<Rightarrow> bool" where
  "stat_tells t \<longleftrightarrow> (\<forall>fs a b. t_same_stat t fs a b \<longrightarrow> map_of fs a = map_of fs b)"

text \<open>What \<open>indent\<close> makes of a text, when nothing raises.\<close>

definition indents :: "cs_tools \<Rightarrow> int \<Rightarrow> bool \<Rightarrow> string \<Rightarrow> string \<Rightarrow> bool" where
  "indents t level debug s r \<longleftrightarrow>
     (\<forall>f d. \<exists>out err text fin pout perr.
        t_uncrustify t (level_text level) (Some s) = Some (out, err, text) \<and>
        final_text level (if debug then [] else t_diff t (readlines s) (readlines text) f d) = Inr fin \<and>
        t_patch t fin s = Some (pout, perr, r))"

lemma indents_level3:
  assumes "uncrustify_gives t level fmt" "patch_applies t" "3 \<le> level" "ends_line s" "ends_line (fmt s)"
  shows "indents t level False s (fmt s)"
  using assms unfolding indents_def uncrustify_gives_def patch_applies_def final_text_def
  by simp metis

lemma indents_debug:
  "uncrustify_gives t level fmt \<Longrightarrow> empty_patch_keeps t \<Longrightarrow> indents t level True s s"
  unfolding indents_def uncrustify_gives_def empty_patch_keeps_def by (simp add: final_text_nil) metis

lemma indent_formats:
  assumes "fresh_names t" "indents t level debug s r" "map_of (w_files w) f = Some s"
  shows "\<exists>dst w'. indent t f debug level w = (Inr dst, w') \<and> map_of (w_files w) dst = None \<and>
    map_of (w_files w') dst = Some r \<and> kept (w_files w) w' \<and> w_out w' = w_out w"
proof -
  obtain out err body fin pout perr where
    "t_uncrustify t (level_text level) (Some s) = Some (out, err, body)"
    "final_text level (if debug then [] else t_diff t (readlines s) (readlines body) f (t_tmp t (w_files w))) = Inr fin"
    "t_patch t fin s = Some (pout, perr, r)"
    using assms(2) unfolding indents_def by blast
  then show ?thesis by (rule indent_result [OF assms(1,3)])
qed

lemma kept_trans: "kept fs w \<Longrightarrow> kept (w_files w) w' \<Longrightarrow> kept fs w'"
  by (simp add: kept_def)

text \<open>What the loop over the files leaves: a formatted copy of each under a new name.\<close>

definition formatted_pairs ::
  "(string, string) dict \<Rightarrow> cs_world \<Rightarrow> (string \<Rightarrow> string) \<Rightarrow> (string \<times> string) list \<Rightarrow> bool" where
  "formatted_pairs fs w fmt outs \<longleftrightarrow>
     (\<forall>(f, d) \<in> set outs. map_of fs d = None \<and>
        (\<exists>s. map_of fs f = Some s \<and> map_of (w_files w) d = Some (fmt s)))"

definition formattable :: "cs_tools \<Rightarrow> int \<Rightarrow> bool \<Rightarrow> (string \<Rightarrow> string) \<Rightarrow> (string, string) dict \<Rightarrow> string list \<Rightarrow> bool" where
  "formattable t level debug fmt fs files \<longleftrightarrow>
     (\<forall>f \<in> set files. \<exists>s. map_of fs f = Some s \<and> indents t level debug s (fmt s))"

lemma indent_all:
  assumes "fresh_names t"
  shows "kept fs w \<Longrightarrow> formattable t level debug fmt fs files \<Longrightarrow>
    \<exists>outs w'. amapM (indent_pair t debug level) files w = (Inr outs, w') \<and> map fst outs = files \<and>
      formatted_pairs fs w' fmt outs \<and> kept (w_files w) w' \<and> w_out w' = w_out w"
proof (induction files arbitrary: w)
  case Nil
  then show ?case by (simp add: aret_apply formatted_pairs_def)
next
  case (Cons f files)
  then obtain s where s: "map_of fs f = Some s" and i0: "indents t level debug s (fmt s)"
    and rest: "formattable t level debug fmt fs files"
    by (auto simp: formattable_def)
  from Cons.prems(1) s have "map_of (w_files w) f = Some s" by (rule keptD)
  from indent_formats [OF assms i0 this] obtain dst w1
    where i: "indent t f debug level w = (Inr dst, w1)" "map_of (w_files w) dst = None"
      "map_of (w_files w1) dst = Some (fmt s)" "kept (w_files w) w1" "w_out w1 = w_out w" by blast
  have "kept fs w1" using Cons.prems(1) i(4) by (rule kept_trans)
  then obtain outs w2 where r: "amapM (indent_pair t debug level) files w1 = (Inr outs, w2)"
      "map fst outs = files" "formatted_pairs fs w2 fmt outs" "kept (w_files w1) w2" "w_out w2 = w_out w1"
    using Cons.IH [of w1] rest by auto
  have "map_of fs dst = None"
    using i(2) keptD [OF Cons.prems(1), of dst] by (cases "map_of fs dst") auto
  moreover have "map_of (w_files w2) dst = Some (fmt s)" using r(4) i(3) by (rule keptD)
  ultimately have "formatted_pairs fs w2 fmt ((f, dst) # outs)"
    using r(3) s by (simp add: formatted_pairs_def)
  moreover have "amapM (indent_pair t debug level) (f # files) w = (Inr ((f, dst) # outs), w2)"
    by (simp add: act_step indent_pair_def i(1) r(1) aret_apply)
  ultimately show ?case using r i kept_trans [OF i(4) r(4)] by fastforce
qed

lemma filecmp_all:
  assumes "stat_tells t"
    and "formatted_pairs fs w fmt outs" "kept fs w"
  shows "amapM (\<lambda>(src, dst). filecmp_cmp t src dst) outs w =
    (Inr (map (\<lambda>(f, d). fmt (the (map_of fs f)) = the (map_of fs f)) outs), w)"
  using assms(2)
proof (induction outs)
  case Nil
  then show ?case by (simp add: aret_apply)
next
  case (Cons p outs)
  obtain f d where p: "p = (f, d)" by (cases p)
  obtain s where s: "map_of fs f = Some s" "map_of (w_files w) d = Some (fmt s)"
    using Cons.prems p by (auto simp: formatted_pairs_def)
  have "map_of (w_files w) f = Some s" using assms(3) s(1) by (rule keptD)
  with s have "filecmp_cmp t f d w = (Inr (fmt s = s), w)"
    using assms(1) by (auto simp: filecmp_cmp_def world_ops stat_tells_def)
  moreover have "formatted_pairs fs w fmt outs" using Cons.prems by (simp add: formatted_pairs_def)
  ultimately show ?case using s(1) p Cons.IH by (simp add: act_step aret_apply)
qed

lemma report_failed_runs:
  assumes "\<forall>(f, d) \<in> set outs. map_of (w_files w) f \<noteq> None \<and> map_of (w_files w) d \<noteq> None"
  shows "\<exists>w'. report_failed t diff outs w = (Inr (), w') \<and> w_files w' = w_files w"
proof -
  define I where "I w' \<longleftrightarrow> w_files w' = w_files w" for w' :: cs_world
  have w: "I w" by (simp add: I_def)
  have out: "\<exists>w'. stdout_write x v = (Inr (), w') \<and> I w'" if "I v" for x v
    using that by (simp add: world_ops I_def)
  have plain: "\<exists>w'. (case p of (src, dst) \<Rightarrow> stdout_write (''  '' @ src @ [py_newline])) v = (Inr (), w') \<and> I w'"
    if "I v" for p :: "string \<times> string" and v
    using out [OF that] by (auto split: prod.split)
  have "\<exists>w'. (case p of (src, dst) \<Rightarrow> abind (read_file src) (\<lambda>s. abind (read_file dst) (\<lambda>d.
      afor (t_diff t (readlines s) (readlines d) src dst) stdout_write))) v = (Inr (), w') \<and> I w'"
    if p: "p \<in> set outs" and v: "I v" for p v
  proof -
    obtain f d where fd: "p = (f, d)" by (cases p)
    with assms p v obtain a b where r: "map_of (w_files v) f = Some a" "map_of (w_files v) d = Some b"
      by (fastforce simp: I_def)
    show ?thesis
      using afor_total [of "t_diff t (readlines a) (readlines b) f d" I stdout_write v] out v
      by (simp add: fd act_step read_file_def r)
  qed
  then have "\<exists>w'. report_failed t True outs w = (Inr (), w') \<and> I w'"
    unfolding report_failed_def by (simp add: afor_total w)
  moreover obtain v where v: "stdout_write (''Found '' @ show_nat (length outs) @
      '' badly indented files:'' @ [py_newline]) w = (Inr (), v)" "I v"
    using out [OF w] by blast
  have "\<exists>w'. report_failed t False outs w = (Inr (), w') \<and> I w'"
    unfolding report_failed_def
    using afor_total [OF plain v(2), of outs] by (simp add: act_step v del: append.simps)
  ultimately show ?thesis unfolding I_def by (cases diff) auto
qed

lemma indent_files_result:
  assumes "fresh_names t" "stat_tells t" "formattable t level debug fmt (w_files w) files"
  shows "\<exists>w'. indent_files t files diff debug level False w =
      (Inr (\<forall>f \<in> set files. fmt (the (map_of (w_files w) f)) = the (map_of (w_files w) f)), w') \<and>
    kept (w_files w) w'"
proof -
  let ?same = "\<lambda>f. fmt (the (map_of (w_files w) f)) = the (map_of (w_files w) f)"
  obtain outs w1 where m: "amapM (indent_pair t debug level) files w = (Inr outs, w1)"
      and outs: "map fst outs = files" "formatted_pairs (w_files w) w1 fmt outs" "kept (w_files w) w1"
    using indent_all [OF assms(1) kept_refl assms(3)] by blast
  have c: "amapM (\<lambda>(src, dst). filecmp_cmp t src dst) outs w1 = (Inr (map (?same \<circ> fst) outs), w1)"
    using filecmp_all [OF assms(2) outs(2,3)] by (simp add: comp_def case_prod_beta)
  define failed where "failed = filter (\<lambda>p. \<not> ?same (fst p)) outs"
  have zip: "map fst (filter (\<lambda>p. \<not> snd p) (zip xs (map g xs))) = filter (\<lambda>p. \<not> g p) xs"
    for g :: "string \<times> string \<Rightarrow> bool" and xs by (induction xs) auto
  have ff: "find_failed t outs w1 = (Inr failed, w1)"
    using zip [of outs "?same \<circ> fst"] by (simp add: find_failed_def act_step c aret_apply failed_def comp_def)
  have "\<forall>(f, d) \<in> set failed. map_of (w_files w1) f \<noteq> None \<and> map_of (w_files w1) d \<noteq> None"
    using outs(2) keptD [OF outs(3)] by (fastforce simp: failed_def formatted_pairs_def)
  then obtain w2 where rep: "report_failed t diff failed w1 = (Inr (), w2)" "w_files w2 = w_files w1"
    using report_failed_runs by blast
  have none: "failed = [] \<longleftrightarrow> (\<forall>f \<in> set files. ?same f)"
    by (auto simp: failed_def filter_empty_conv outs(1) [symmetric])
  have "kept (w_files w) w2" using outs(3) rep(2) by (simp add: kept_def)
  then show ?thesis
    unfolding indent_files_def using rep outs(3) none
    by (cases "failed = []") (simp_all add: act_step m ff aret_apply)
qed

text \<open>A tool chain that removes tabs.\<close>

definition no_tabs :: "string \<Rightarrow> string" where
  "no_tabs s = filter (\<lambda>c. c \<noteq> py_tab) s"

definition example_tools :: cs_tools where
  "example_tools =
     \<lparr>t_tmp = (\<lambda>fs. replicate (Suc (sum_list (map (\<lambda>p. length (fst p)) fs))) (CHR ''x'')),
      t_uncrustify = (\<lambda>cfg src. case src of None \<Rightarrow> Some ([], [], []) | Some s \<Rightarrow> Some ([], [], no_tabs s)),
      t_diff = (\<lambda>a b f d. if a = b then [] else [CHR ''!'' # concat b]),
      t_patch = (\<lambda>d s. Some ([], [], if d = [] then s else tl d)),
      t_same_stat = (\<lambda>fs a b. a = b),
      t_hg = ''f'' @ [py_newline]\<rparr>"

lemma example_fresh: "fresh_names example_tools"
proof -
  have "map_of fs (replicate (Suc (sum_list (map (\<lambda>p. length (fst p)) fs))) c) = None"
    for fs :: "(string, string) dict" and c
  proof -
    have "length n \<le> sum_list (map (\<lambda>p. length (fst p)) fs)" if "n \<in> fst ` set fs" for n
      using member_le_sum_list [of "length n" "map (\<lambda>p. length (fst p)) fs"] that by auto
    then have "replicate (Suc (sum_list (map (\<lambda>p. length (fst p)) fs))) c \<notin> fst ` set fs"
      by (metis length_replicate not_less_eq_eq order_refl)
    then show ?thesis by (simp add: map_of_eq_None_iff)
  qed
  then show ?thesis by (simp add: fresh_names_def example_tools_def)
qed

lemma example_patch_applies: "patch_applies example_tools"
proof -
  have "readlines a = readlines b \<longleftrightarrow> a = b" for a b by (metis readlines_concat)
  then show ?thesis by (simp add: patch_applies_def example_tools_def)
qed

lemma example_empty_patch: "empty_patch_keeps example_tools"
  by (simp add: empty_patch_keeps_def example_tools_def)

lemma example_uncrustify: "uncrustify_gives example_tools level no_tabs"
  by (simp add: uncrustify_gives_def example_tools_def)

lemma example_stat: "stat_tells example_tools"
  by (simp add: stat_tells_def example_tools_def)

definition example_world :: cs_world where
  "example_world = \<lparr>w_files = [(''f'', [py_tab, CHR ''a'', py_newline]), (''g'', [CHR ''b'', py_newline])], w_err = [], w_out = []\<rparr>"

text \<open>
  C19: without \<open>--in-place\<close> and \<open>--debug\<close>, at level 3 or above (where the difference is not filtered), checking
  a list of existing files whose last lines end answers whether every one of them already is what the
  formatter makes of it, and leaves every existing file as it was. Relied on are a formatter that is
  installed, a \<open>patch\<close> that carries out differences, new names for temporary files, and that files of the
  same size and time have the same contents, which is how \<open>filecmp\<close> compares.
\<close>

theorem check_correct:
  assumes "fresh_names t" "uncrustify_gives t level fmt" "patch_applies t" "stat_tells t" "3 \<le> level"
    and "\<forall>f \<in> set files. \<exists>s. map_of (w_files w) f = Some s \<and> ends_line s \<and> ends_line (fmt s)"
  shows "\<exists>w'. indent_files t files diff False level False w =
      (Inr (\<forall>f \<in> set files. fmt (the (map_of (w_files w) f)) = the (map_of (w_files w) f)), w') \<and>
    (\<forall>n v. map_of (w_files w) n = Some v \<longrightarrow> map_of (w_files w') n = Some v)"
proof -
  have "formattable t level False fmt (w_files w) files"
    using assms(6) indents_level3 [OF assms(2,3,5)] unfolding formattable_def by blast
  from indent_files_result [OF assms(1,4) this] show ?thesis by (simp add: kept_def)
qed

theorem check_correct_witness:
  "fst (indent_files example_tools [''g'', ''f''] False False 3 False example_world) = Inr False \<and>
   fst (indent_files example_tools [''g''] False False 3 False example_world) = Inr True"
proof -
  note hyps = example_fresh example_uncrustify [of 3] example_patch_applies example_stat
  have w: "\<forall>f \<in> set [''g'', ''f'']. \<exists>s. map_of (w_files example_world) f = Some s \<and> ends_line s \<and> ends_line (no_tabs s)"
    "\<forall>f \<in> set [''g'']. \<exists>s. map_of (w_files example_world) f = Some s \<and> ends_line s \<and> ends_line (no_tabs s)"
    by (simp_all add: example_world_def ends_line_def no_tabs_def py_tab_def py_newline_def)
  show ?thesis
    using check_correct [OF hyps _ w(1), of False] check_correct [OF hyps _ w(2), of False]
    by (auto simp: example_world_def no_tabs_def py_tab_def py_newline_def)
qed

text \<open>
  With \<open>--debug\<close> the check is blind: writing the first difference exhausts the generator, the
  difference that is applied is empty, and every list of existing files is reported as well
  indented, whatever the formatter makes of them.
\<close>

theorem debug_check_blind:
  assumes "fresh_names t" "uncrustify_gives t level fmt" "empty_patch_keeps t" "stat_tells t"
    and "\<forall>f \<in> set files. map_of (w_files w) f \<noteq> None"
  shows "fst (indent_files t files diff True level False w) = Inr True"
proof -
  have "formattable t level True (\<lambda>s. s) (w_files w) files"
    using assms(5) indents_debug [OF assms(2,3)] by (auto simp: formattable_def)
  from indent_files_result [OF assms(1,4) this, of diff] show ?thesis by auto
qed

theorem debug_check_blind_witness:
  "fst (indent_files example_tools [''f''] False True 0 False example_world) = Inr True"
  by (rule debug_check_blind [OF example_fresh example_uncrustify example_empty_patch example_stat])
    (simp add: example_world_def)

lemma copy_back:
  assumes "distinct (map fst outs)" "\<forall>(f, d) \<in> set outs. map_of fs f \<noteq> None \<and> map_of fs d = None \<and>
      map_of (w_files w) d = Some (g f)"
  shows "\<exists>w'. afor outs (\<lambda>(src, dst). copyfile dst src) w = (Inr (), w') \<and>
    (\<forall>n. map_of (w_files w') n = (if n \<in> fst ` set outs then Some (g n) else map_of (w_files w) n))"
  using assms
proof (induction outs arbitrary: w)
  case Nil
  then show ?case by (simp add: aret_apply)
next
  case (Cons p outs)
  obtain f d where p: "p = (f, d)" by (cases p)
  define w1 where "w1 = w\<lparr>w_files := dict_set f (g f) (w_files w)\<rparr>"
  have c: "copyfile d f w = (Inr (), w1)"
    using Cons.prems(2) by (simp add: p world_ops w1_def)
  have "\<forall>(f', d') \<in> set outs. map_of fs f' \<noteq> None \<and> map_of fs d' = None \<and>
      map_of (w_files w1) d' = Some (g f')"
    using Cons.prems(2) by (auto simp: p w1_def)
  then obtain w2 where "afor outs (\<lambda>(src, dst). copyfile dst src) w1 = (Inr (), w2)"
      "\<forall>n. map_of (w_files w2) n = (if n \<in> fst ` set outs then Some (g n) else map_of (w_files w1) n)"
    using Cons.IH [of w1] Cons.prems(1) by auto
  then show ?case using Cons.prems(1) by (auto simp: p act_step c w1_def)
qed

text \<open>
  C20: with \<open>--in-place\<close> and without \<open>--debug\<close>, at level 3 or above, each of some different existing files
  whose last lines end ends up with what the formatter makes of it, and every other file that existed is unchanged.
  Relied on are a formatter that is installed, a \<open>patch\<close> that carries out differences, and new names for
  temporary files.
\<close>

theorem in_place_correct:
  assumes "fresh_names t" "uncrustify_gives t level fmt" "patch_applies t" "3 \<le> level" "distinct files"
    and "\<forall>f \<in> set files. \<exists>s. map_of (w_files w) f = Some s \<and> ends_line s \<and> ends_line (fmt s)"
  shows "\<exists>w'. indent_files t files diff False level True w = (Inr True, w') \<and>
    (\<forall>n v. map_of (w_files w) n = Some v \<longrightarrow>
       map_of (w_files w') n = Some (if n \<in> set files then fmt v else v))"
proof -
  have form: "formattable t level False fmt (w_files w) files"
    using assms(6) indents_level3 [OF assms(2-4)] unfolding formattable_def by blast
  obtain outs w1 where m: "amapM (indent_pair t False level) files w = (Inr outs, w1)"
      and outs: "map fst outs = files" "formatted_pairs (w_files w) w1 fmt outs" "kept (w_files w) w1"
    using indent_all [OF assms(1) kept_refl form] by blast
  have "\<forall>(f, d) \<in> set outs. map_of (w_files w) f \<noteq> None \<and> map_of (w_files w) d = None \<and>
      map_of (w_files w1) d = Some (fmt (the (map_of (w_files w) f)))"
    using outs(2) by (auto simp: formatted_pairs_def)
  then obtain w2 where c: "afor outs (\<lambda>(src, dst). copyfile dst src) w1 = (Inr (), w2)"
      "\<forall>n. map_of (w_files w2) n =
        (if n \<in> fst ` set outs then Some (fmt (the (map_of (w_files w) n))) else map_of (w_files w1) n)"
    using copy_back [where fs = "w_files w" and g = "\<lambda>f. fmt (the (map_of (w_files w) f))" and outs = outs
      and w = w1] assms(5) outs(1) by blast
  have "fst ` set outs = set files" using outs(1) by (metis set_map)
  then show ?thesis
    using c keptD [OF outs(3)] by (simp add: indent_files_def act_step m aret_apply)
qed

theorem in_place_correct_witness:
  "\<exists>w'. indent_files example_tools [''f''] False False 3 True example_world = (Inr True, w') \<and>
     map_of (w_files w') ''f'' = Some [CHR ''a'', py_newline] \<and> map_of (w_files w') ''g'' = Some [CHR ''b'', py_newline]"
proof -
  note hyps = example_fresh example_uncrustify [of 3] example_patch_applies
  have "\<forall>f \<in> set [''f'']. \<exists>s. map_of (w_files example_world) f = Some s \<and> ends_line s \<and> ends_line (no_tabs s)"
    by (simp add: example_world_def ends_line_def no_tabs_def py_tab_def py_newline_def)
  from in_place_correct [OF hyps _ _ this, of False] obtain w' where
    "indent_files example_tools [''f''] False False 3 True example_world = (Inr True, w')"
    "\<forall>n v. map_of (w_files example_world) n = Some v \<longrightarrow>
       map_of (w_files w') n = Some (if n \<in> set [''f''] then no_tabs v else v)" by auto
  then show ?thesis by (auto simp: example_world_def no_tabs_def py_tab_def py_newline_def)
qed

text \<open>
  Below level 3 the filter may spoil the difference: the blank of a removed line is put back into the
  context line that has its place in the new text, and the context is then not that of the file.
\<close>

lemma filter_spoils_context:
  "map pl_line (pc_lines (fst (rtw_chunk \<lparr>pc_lines = [\<lparr>pl_type = SRC, pl_line = ''x ''\<rparr>, \<lparr>pl_type = BOTH, pl_line = ''x''\<rparr>],
     pc_src_pos = 1, pc_dst_pos = 1\<rparr>))) = [''x '', ''x '']"
  by code_simp

text \<open>
  The exit code of the script, at level 3 or above and without \<open>--debug\<close>: as a Mercurial hook it is 1 exactly
  when a modified file is not formatted; for a single file it is 1 when the file does not exist and 0
  otherwise, badly indented or not; without a mode it is 0 and nothing happens.
\<close>

theorem run_as_main_exit:
  assumes "fresh_names t" "uncrustify_gives t (o_level opt) fmt" "patch_applies t" "stat_tells t" "3 \<le> o_level opt" "\<not> o_debug opt"
    and "\<forall>f s. map_of (w_files w) f = Some s \<longrightarrow> ends_line s \<and> ends_line (fmt s)"
    and "\<forall>f \<in> set (hg_modified_files t). map_of (w_files w) f \<noteq> None"
  shows "(o_hg_hook opt \<longrightarrow> fst (run_as_main t opt w) =
      Inl (SystemExit (if \<forall>f \<in> set (hg_modified_files t).
        fmt (the (map_of (w_files w) f)) = the (map_of (w_files w) f) then 0 else 1))) \<and>
    (\<not> o_hg_hook opt \<and> \<not> o_hg opt \<and> o_file opt \<noteq> [] \<and> \<not> o_in_place opt \<longrightarrow>
      fst (run_as_main t opt w) =
        Inl (SystemExit (if map_of (w_files w) (o_file opt) = None then 1 else 0))) \<and>
    (\<not> o_hg_hook opt \<and> \<not> o_hg opt \<and> o_file opt = [] \<longrightarrow>
      run_as_main t opt w = (Inl (SystemExit 0), w))"
proof -
  have form: "formattable t (o_level opt) (o_debug opt) fmt (w_files w) files"
    if "\<forall>f \<in> set files. map_of (w_files w) f \<noteq> None" for files
    using that assms(6,7) indents_level3 [OF assms(2,3,5)] unfolding formattable_def by fastforce
  show ?thesis
  proof (intro conjI impI)
    assume "o_hg_hook opt"
    then show "fst (run_as_main t opt w) =
        Inl (SystemExit (if \<forall>f \<in> set (hg_modified_files t).
          fmt (the (map_of (w_files w) f)) = the (map_of (w_files w) f) then 0 else 1))"
      using indent_files_result [OF assms(1,4) form [OF assms(8)], of False]
      by (auto simp: run_as_main_def act_step aret_apply araise_apply)
  next
    assume m: "\<not> o_hg_hook opt \<and> \<not> o_hg opt \<and> o_file opt \<noteq> [] \<and> \<not> o_in_place opt"
    show "fst (run_as_main t opt w) = Inl (SystemExit (if map_of (w_files w) (o_file opt) = None then 1 else 0))"
    proof (cases "map_of (w_files w) (o_file opt)")
      case None
      with m show ?thesis
        by (simp add: run_as_main_def act_step araise_apply stdout_write_def amodify_apply)
    next
      case (Some s)
      then obtain w' b where "indent_files t [o_file opt] (o_diff opt) (o_debug opt) (o_level opt) False w = (Inr b, w')"
        using indent_files_result [OF assms(1,4) form, of "[o_file opt]" "o_diff opt"] by auto
      with m Some show ?thesis by (simp add: run_as_main_def act_step aret_apply araise_apply)
    qed
  next
    assume "\<not> o_hg_hook opt \<and> \<not> o_hg opt \<and> o_file opt = []"
    then show "run_as_main t opt w = (Inl (SystemExit 0), w)"
      by (simp add: run_as_main_def act_step aret_apply araise_apply)
  qed
qed

theorem run_as_main_exit_witness:
  "fst (run_as_main example_tools (cs_default_options\<lparr>o_level := 3, o_hg_hook := True\<rparr>) example_world) =
     Inl (SystemExit 1)"
proof -
  let ?opt = "cs_default_options\<lparr>o_level := 3, o_hg_hook := True\<rparr>"
  have o3: "3 \<le> o_level ?opt" "\<not> o_debug ?opt" by (simp_all add: cs_default_options_def)
  have hg: "hg_modified_files example_tools = [''f'']"
    by code_simp
  have w: "\<forall>f s. map_of (w_files example_world) f = Some s \<longrightarrow> ends_line s \<and> ends_line (no_tabs s)"
    "\<forall>f \<in> set (hg_modified_files example_tools). map_of (w_files example_world) f \<noteq> None"
    by (simp_all add: hg example_world_def ends_line_def no_tabs_def py_tab_def py_newline_def)
  show ?thesis
    using run_as_main_exit [OF example_fresh example_uncrustify example_patch_applies example_stat o3 w]
    by (simp add: hg cs_default_options_def) (simp add: example_world_def no_tabs_def py_tab_def py_newline_def)
qed

end
