(* ===== verification/Ns3rc.thy ===== *)
theory Ns3rc
  imports OsPath
begin

text \<open>
  \<open>utils.py\<close>: looking for a list or a boolean in a Python file, and the reader of
  \<open>.ns3rc\<close>. The evaluation of a Python expression is the parameter \<open>ev\<close>.
\<close>

section \<open>Code\<close>

text \<open>\<open>(line, comment) = line.split('#', 1)\<close> when there is a comment.\<close>

definition strip_comment :: "string \<Rightarrow> string" where
  "strip_comment line = (if CHR ''#'' \<in> set line then hd (split_once (CHR ''#'') line) else line)"

text \<open>\<open>eval (s.split ('=', 1)[1].strip ())\<close>.\<close>

definition eval_rhs :: "(string \<Rightarrow> 'v pyres) \<Rightarrow> string \<Rightarrow> 'v pyres" where
  "eval_rhs ev s = rbind (py_index (split_once (CHR ''='') s) 1) (\<lambda>r. ev (py_strip r))"

fun list_scan ::
  "(string \<Rightarrow> 'v list pyres) \<Rightarrow> string \<Rightarrow> string \<Rightarrow> bool \<Rightarrow> string list \<Rightarrow> 'v list pyres" where
  "list_scan ev list_name list_string multi [] = Inr []"
| "list_scan ev list_name list_string multi (l # ls) =
     (let line = strip_comment l in
      if py_in list_name line \<or> multi then
        (let list_string' = list_string @ line in
         if CHR '']'' \<notin> set list_string' then list_scan ev list_name list_string' True ls
         else eval_rhs ev list_string')
      else list_scan ev list_name list_string multi ls)"

definition get_list_from_file ::
  "(string \<Rightarrow> 'v list pyres) \<Rightarrow> files \<Rightarrow> string \<Rightarrow> string \<Rightarrow> 'v list pyres" where
  "get_list_from_file ev fs file_path list_name =
     (case fs file_path of
        None \<Rightarrow> Inr []
      | Some s \<Rightarrow> list_scan ev list_name [] False (readlines s))"

fun bool_scan :: "(string \<Rightarrow> 'v pyres) \<Rightarrow> string \<Rightarrow> string list \<Rightarrow> 'v option pyres" where
  "bool_scan ev bool_name [] = Inr None"
| "bool_scan ev bool_name (l # ls) =
     (let line = strip_comment l in
      if py_in bool_name line then rmap Some (eval_rhs ev line)
      else bool_scan ev bool_name ls)"

text \<open>The variable \<open>bool_found\<close> is only bound when the file exists.\<close>

definition get_bool_from_file ::
  "(string \<Rightarrow> 'v pyres) \<Rightarrow> files \<Rightarrow> string \<Rightarrow> string \<Rightarrow> 'v \<Rightarrow> 'v pyres" where
  "get_bool_from_file ev fs file_path bool_name value_if_missing =
     (case fs file_path of
        None \<Rightarrow> Inl UnboundLocalError
      | Some s \<Rightarrow> rmap (\<lambda>r. case r of Some b \<Rightarrow> b | None \<Rightarrow> value_if_missing)
                    (bool_scan ev bool_name (readlines s)))"

definition read_config_file ::
  "(string \<Rightarrow> string list pyres) \<Rightarrow> (string \<Rightarrow> bool pyres) \<Rightarrow> files \<Rightarrow> string \<Rightarrow>
   (bool \<times> string list \<times> bool \<times> bool) pyres" where
  "read_config_file evl evb fs home =
     (let dot_ns3rc_path = (if fs ''.ns3rc'' \<noteq> None then ''.ns3rc'' else home @ ''.ns3rc'') in
      if fs dot_ns3rc_path = None then Inr (False, [''all_modules''], False, False)
      else
        rbind (get_list_from_file evl fs dot_ns3rc_path ''modules_enabled'') (\<lambda>modules.
        rbind (get_bool_from_file evb fs dot_ns3rc_path ''examples_enabled'' False) (\<lambda>examples.
        rbind (get_bool_from_file evb fs dot_ns3rc_path ''tests_enabled'' False) (\<lambda>tests.
          Inr (True, if modules = [] then [''all_modules''] else modules, examples, tests)))))"

section \<open>Properties\<close>

lemma list_scan_skip:
  "\<forall>l \<in> set ls. \<not> py_in name (strip_comment l) \<Longrightarrow>
     list_scan ev name acc False (ls @ ms) = list_scan ev name acc False ms"
  by (induction ls) (simp_all add: Let_def)

lemma list_scan_multi:
  "\<forall>l \<in> set ls. CHR '']'' \<notin> set (strip_comment l) \<Longrightarrow> CHR '']'' \<notin> set acc \<Longrightarrow>
     list_scan ev name acc True (ls @ ms) =
       list_scan ev name (acc @ concat (map strip_comment ls)) True ms"
  by (induction ls arbitrary: acc) (auto simp: Let_def)

text \<open>The lines of a list definition: the name is in the first, the bracket closes in the last.\<close>

definition list_block :: "string \<Rightarrow> string list \<Rightarrow> bool" where
  "list_block name ls \<longleftrightarrow> ls \<noteq> [] \<and> py_in name (strip_comment (hd ls)) \<and>
     CHR '']'' \<in> set (strip_comment (last ls)) \<and>
     (\<forall>l \<in> set (butlast ls). CHR '']'' \<notin> set (strip_comment l))"

lemma list_scan_block:
  assumes "list_block name ls"
  shows "list_scan ev name [] False (ls @ ms) = eval_rhs ev (concat (map strip_comment ls))"
proof (cases "butlast ls")
  case Nil
  then obtain l where l: "ls = [l]"
    using assms by (metis append_Nil append_butlast_last_id list_block_def)
  then show ?thesis using assms by (simp add: list_block_def Let_def)
next
  case (Cons f fs)
  define l where "l = last ls"
  have ls: "ls = f # fs @ [l]"
    using assms Cons by (metis append_Cons append_butlast_last_id l_def list_block_def)
  have f: "py_in name (strip_comment f)" "CHR '']'' \<notin> set (strip_comment f)"
    and fs: "\<forall>x \<in> set fs. CHR '']'' \<notin> set (strip_comment x)"
    and l: "CHR '']'' \<in> set (strip_comment l)"
    using assms Cons by (auto simp: list_block_def ls)
  have "list_scan ev name [] False (ls @ ms) = list_scan ev name (strip_comment f) True (fs @ l # ms)"
    using f by (simp add: ls Let_def)
  also have "\<dots> = list_scan ev name (strip_comment f @ concat (map strip_comment fs)) True (l # ms)"
    by (rule list_scan_multi [OF fs f(2)])
  finally show ?thesis using l by (simp add: ls Let_def)
qed

text \<open>
  A list is found wherever it stands in the file: the lines before it that do not mention its
  name are skipped, comments are removed, and the text from the line with the name to the line with
  the closing bracket is joined, cut at its first equals sign and evaluated; what follows is not read.
\<close>

theorem get_list_found:
  assumes "fs path = Some s" "readlines s = before @ block @ after"
    and "\<forall>l \<in> set before. \<not> py_in name (strip_comment l)" "list_block name block"
    and "concat (map strip_comment block) = lhs @ ''='' @ rhs" "CHR ''='' \<notin> set lhs"
  shows "get_list_from_file ev fs path name = ev (py_strip rhs)"
proof -
  have "split_once (CHR ''='') (lhs @ ''='' @ rhs) = [lhs, rhs]"
    using assms(6) by (simp add: split_once_found)
  then have "eval_rhs ev (lhs @ ''='' @ rhs) = ev (py_strip rhs)"
    using py_index_nonneg [of 1 "[lhs, rhs]"] by (simp add: eval_rhs_def)
  then show ?thesis
    using assms list_scan_skip [OF assms(3), of ev "[]" "block @ after"]
      list_scan_block [OF assms(4), of ev after]
    by (simp add: get_list_from_file_def)
qed

theorem get_list_found_witness:
  "get_list_from_file (\<lambda>s. Inr [s]) [''f'' \<mapsto> ''x=1'' @ [py_newline] @ ''l = [1, # one'' @ [py_newline] @ ''2]''] ''f'' ''l'' =
     Inr [''[1, 2]'']"
proof -
  let ?s = "''x=1'' @ [py_newline] @ ''l = [1, # one'' @ [py_newline] @ ''2]''"
  have r: "readlines ?s = [''x=1'' @ [py_newline]] @ [''l = [1, # one'' @ [py_newline], ''2]''] @ []"
    by code_simp
  have c: "concat (map strip_comment [''l = [1, # one'' @ [py_newline], ''2]'']) = ''l '' @ ''='' @ '' [1, 2]''"
    by code_simp
  have b: "\<forall>l \<in> set [''x=1'' @ [py_newline]]. \<not> py_in ''l'' (strip_comment l)"
    "list_block ''l'' [''l = [1, # one'' @ [py_newline], ''2]'']"
    by code_simp+
  have "py_strip '' [1, 2]'' = ''[1, 2]''" by code_simp
  then show ?thesis
    using get_list_found [of "[''f'' \<mapsto> ?s]" "''f''" ?s, OF _ r b c, of "\<lambda>s. Inr [s]"] by simp
qed

lemma bool_scan_none: "\<forall>l \<in> set ls. \<not> py_in name (strip_comment l) \<Longrightarrow> bool_scan ev name ls = Inr None"
  by (induction ls) (simp_all add: Let_def)

text \<open>
  A boolean that no line of an existing file mentions takes the given default; but when the
  file itself is missing the function raises, although its documentation promises the default.
\<close>

theorem get_bool_missing:
  "(fs path = None \<longrightarrow> get_bool_from_file ev fs path name d = Inl UnboundLocalError) \<and>
   (\<forall>s. fs path = Some s \<and> (\<forall>l \<in> set (readlines s). \<not> py_in name (strip_comment l)) \<longrightarrow>
      get_bool_from_file ev fs path name d = Inr d)"
  by (auto simp: get_bool_from_file_def bool_scan_none)

theorem get_bool_missing_witness:
  "get_bool_from_file (\<lambda>s. Inr s) (\<lambda>_. None) ''f'' ''b'' ''d'' = Inl UnboundLocalError \<and>
   get_bool_from_file (\<lambda>s. Inr s) [''f'' \<mapsto> ''x=1''] ''f'' ''b'' ''d'' = Inr ''d''"
proof -
  have "\<forall>l \<in> set (readlines ''x=1''). \<not> py_in ''b'' (strip_comment l)" by code_simp
  then show ?thesis
    using get_bool_missing [of "\<lambda>_. None" "''f''" "\<lambda>s. Inr s" "''b''" "''d''"]
      get_bool_missing [of "[''f'' \<mapsto> ''x=1'']" "''f''" "\<lambda>s. Inr s" "''b''" "''d''"] by auto
qed

lemma eval_rhs_error: "eval_rhs ev s = Inl e \<Longrightarrow> e = IndexError \<or> (\<exists>r. ev r = Inl e)"
  by (auto simp: eval_rhs_def rbind_eq_Inl_iff py_index_def split: option.splits)

lemma list_scan_error:
  "list_scan ev name acc m ls = Inl e \<Longrightarrow> e = IndexError \<or> (\<exists>r. ev r = Inl e)"
  by (induction ev name acc m ls rule: list_scan.induct)
    (auto simp: Let_def split: if_splits dest: eval_rhs_error)

lemma bool_scan_error: "bool_scan ev name ls = Inl e \<Longrightarrow> e = IndexError \<or> (\<exists>r. ev r = Inl e)"
  by (induction ls) (auto simp: Let_def rmap_eq_Inl_iff split: if_splits dest: eval_rhs_error)

lemma get_list_error:
  "get_list_from_file ev fs path name = Inl e \<Longrightarrow> e = IndexError \<or> (\<exists>r. ev r = Inl e)"
  by (auto simp: get_list_from_file_def split: option.splits dest: list_scan_error)

lemma get_bool_error:
  "fs path \<noteq> None \<Longrightarrow> get_bool_from_file ev fs path name d = Inl e \<Longrightarrow>
     e = IndexError \<or> (\<exists>r. ev r = Inl e)"
  using bool_scan_error [of ev name _ e]
  by (auto simp: get_bool_from_file_def rmap_eq_Inl_iff)

lemma getters_same_file:
  "fs' path = fs path \<Longrightarrow> get_list_from_file ev fs' path name = get_list_from_file ev fs path name"
  "fs' path = fs path \<Longrightarrow> get_bool_from_file ev' fs' path name d = get_bool_from_file ev' fs path name d"
  by (simp_all add: get_list_from_file_def get_bool_from_file_def)

text \<open>
  What a configuration file says, read off its lines without their comments: the text of a list runs from
  the first line with its name to the first one from there that closes a bracket; the text of a boolean
  is the first line with its name; the value is what stands after the first equals sign.
\<close>

definition list_text :: "string \<Rightarrow> string list \<Rightarrow> string option" where
  "list_text name ls =
     (let rest = dropWhile (\<lambda>l. \<not> py_in name l) ls;
          inner = takeWhile (\<lambda>l. CHR '']'' \<notin> set l) rest
      in if length inner < length rest then Some (concat inner @ rest ! length inner) else None)"

definition bool_text :: "string \<Rightarrow> string list \<Rightarrow> string option" where
  "bool_text name ls = List.find (py_in name) ls"

definition assigned :: "(string \<Rightarrow> 'v pyres) \<Rightarrow> 'v \<Rightarrow> string option \<Rightarrow> 'v pyres" where
  "assigned ev d t =
     (case t of
        None \<Rightarrow> Inr d
      | Some t \<Rightarrow> if CHR ''='' \<in> set t then ev (py_strip (tl (dropWhile (\<lambda>c. c \<noteq> CHR ''='') t))) else Inl IndexError)"

lemma eval_rhs_assigned: "eval_rhs ev t = assigned ev d (Some t)"
proof -
  have "py_index [a, b] 1 = Inr b" "py_index [a] 1 = Inl IndexError" for a b :: string
    by (simp_all add: py_index_def py_pos_def)
  then show ?thesis by (simp add: eval_rhs_def assigned_def split_once_def)
qed

lemma list_scan_open:
  "CHR '']'' \<notin> set acc \<Longrightarrow> list_scan ev name acc True ls =
     (let ms = map strip_comment ls; inner = takeWhile (\<lambda>l. CHR '']'' \<notin> set l) ms
      in assigned ev [] (if length inner < length ms then Some (acc @ concat inner @ ms ! length inner) else None))"
proof (induction ls arbitrary: acc)
  case Nil
  then show ?case by (simp add: assigned_def)
next
  case (Cons l ls)
  then show ?case by (simp add: Let_def eval_rhs_assigned [of ev _ "[]"])
qed

lemma list_scan_text: "list_scan ev name [] False ls = assigned ev [] (list_text name (map strip_comment ls))"
proof (induction ls)
  case Nil
  then show ?case by (simp add: assigned_def list_text_def)
next
  case (Cons l ls)
  then show ?case
    by (simp add: Let_def list_text_def list_scan_open eval_rhs_assigned [of ev _ "[]"])
qed

lemma bool_scan_text:
  "rmap (\<lambda>r. case r of Some b \<Rightarrow> b | None \<Rightarrow> d) (bool_scan ev name ls) =
     assigned ev d (bool_text name (map strip_comment ls))"
proof (induction ls)
  case Nil
  then show ?case by (simp add: assigned_def bool_text_def)
next
  case (Cons l ls)
  then show ?case
    by (cases "eval_rhs ev (strip_comment l)")
      (auto simp: Let_def bool_text_def simp flip: eval_rhs_assigned [of ev _ d])
qed

lemma get_list_text:
  "fs path = Some s \<Longrightarrow>
     get_list_from_file ev fs path name = assigned ev [] (list_text name (map strip_comment (readlines s)))"
  by (simp add: get_list_from_file_def list_scan_text)

lemma get_bool_text:
  "fs path = Some s \<Longrightarrow>
     get_bool_from_file ev fs path name d = assigned ev d (bool_text name (map strip_comment (readlines s)))"
  by (simp add: get_bool_from_file_def bool_scan_text)

text \<open>A list that is never closed is silently taken for the empty one, so that every module is enabled.\<close>

lemma unclosed_list_ignored:
  "read_config_file (\<lambda>s. Inr [s]) (\<lambda>s. Inr True) [''.ns3rc'' \<mapsto> ''modules_enabled = [\"core\"'' @ [py_newline]] [] =
     Inr (True, [''all_modules''], False, False)"
  by code_simp

text \<open>
  C39: reading \<open>.ns3rc\<close>. The file in the working directory hides the one in the home directory; with neither
  the defaults are returned. From a file, the modules are the value of the text of the list
  \<open>modules_enabled\<close>, or all modules when it is missing or empty; the examples flag is the value on the
  first line with \<open>examples_enabled\<close> and the tests flag the one on the first line with \<open>tests_enabled\<close>, each
  false when there is no such line; comments are never read. The three are evaluated in this order, and the
  first error of an evaluation, or an \<open>IndexError\<close> for a text with no equals sign, is raised.
\<close>

theorem read_config_file_sound:
  "read_config_file evl evb fs home =
     (case (if fs ''.ns3rc'' \<noteq> None then fs ''.ns3rc'' else fs (home @ ''.ns3rc'')) of
        None \<Rightarrow> Inr (False, [''all_modules''], False, False)
      | Some contents \<Rightarrow>
          (let ls = map strip_comment (readlines contents) in
           case assigned evl [] (list_text ''modules_enabled'' ls) of Inl e \<Rightarrow> Inl e | Inr modules \<Rightarrow>
           case assigned evb False (bool_text ''examples_enabled'' ls) of Inl e \<Rightarrow> Inl e | Inr examples \<Rightarrow>
           case assigned evb False (bool_text ''tests_enabled'' ls) of Inl e \<Rightarrow> Inl e | Inr tests \<Rightarrow>
             Inr (True, if modules = [] then [''all_modules''] else modules, examples, tests))) \<and>
   (read_config_file evl evb fs home = Inr (found, modules, examples, tests) \<longrightarrow> modules \<noteq> []) \<and>
   (read_config_file evl evb fs home = Inl e \<longrightarrow> e = IndexError \<or> (\<exists>r. evl r = Inl e \<or> evb r = Inl e))"
proof (intro conjI impI)
  show "read_config_file evl evb fs home =
     (case (if fs ''.ns3rc'' \<noteq> None then fs ''.ns3rc'' else fs (home @ ''.ns3rc'')) of
        None \<Rightarrow> Inr (False, [''all_modules''], False, False)
      | Some contents \<Rightarrow>
          (let ls = map strip_comment (readlines contents) in
           case assigned evl [] (list_text ''modules_enabled'' ls) of Inl e \<Rightarrow> Inl e | Inr modules \<Rightarrow>
           case assigned evb False (bool_text ''examples_enabled'' ls) of Inl e \<Rightarrow> Inl e | Inr examples \<Rightarrow>
           case assigned evb False (bool_text ''tests_enabled'' ls) of Inl e \<Rightarrow> Inl e | Inr tests \<Rightarrow>
             Inr (True, if modules = [] then [''all_modules''] else modules, examples, tests)))"
    by (auto simp: read_config_file_def Let_def get_list_text get_bool_text rbind_def split: option.splits sum.splits)
next
  assume "read_config_file evl evb fs home = Inl e"
  then show "e = IndexError \<or> (\<exists>r. evl r = Inl e \<or> evb r = Inl e)"
    by (auto simp: read_config_file_def Let_def rbind_eq_Inl_iff split: if_splits
        dest: get_list_error get_bool_error [rotated])
qed (auto simp: read_config_file_def Let_def rbind_eq_Inr_iff split: if_splits)

definition sample_rc :: string where
  "sample_rc = concat (map (\<lambda>l. l @ [py_newline])
     [''# tests_enabled = True'', ''examples_enabled = True # yes'', ''modules_enabled = [\"core\", # base'',
      ''  \"lte\"]'', ''tests_enabled = False''])"

definition eval_flag :: "string \<Rightarrow> bool pyres" where
  "eval_flag s = (if s = ''True'' then Inr True else if s = ''False'' then Inr False else Inl NameError)"

theorem read_config_file_sound_witness:
  "read_config_file (\<lambda>s. Inr [s]) eval_flag [''/h/.ns3rc'' \<mapsto> sample_rc] ''/h/'' =
     Inr (True, [''[\"core\",   \"lte\"]''], True, False) \<and>
   read_config_file (\<lambda>s. Inr [s]) eval_flag (\<lambda>_. None) ''/h/'' = Inr (False, [''all_modules''], False, False)"
proof -
  let ?ls = "map strip_comment (readlines sample_rc)"
  have "assigned (\<lambda>s. Inr [s]) [] (list_text ''modules_enabled'' ?ls) = Inr [''[\"core\",   \"lte\"]'']"
    "assigned eval_flag False (bool_text ''examples_enabled'' ?ls) = Inr True"
    "assigned eval_flag False (bool_text ''tests_enabled'' ?ls) = Inr False"
    by code_simp+
  then show ?thesis
    using read_config_file_sound [of "\<lambda>s. Inr [s]" eval_flag "[''/h/.ns3rc'' \<mapsto> sample_rc]" "''/h/''"]
      read_config_file_sound [of "\<lambda>s. Inr [s]" eval_flag "\<lambda>_. None" "''/h/''"]
    by simp
qed

end
