(* ===== verification/Jobs.thy ===== *)
theory Jobs
  imports OsPath "HOL-Library.Multiset"
begin

text \<open>
  The units of work of \<open>test.py\<close> and the threads that run them: the class \<open>Job\<close>,
  \<open>run_job_synchronously\<close>, and the worker threads with their two queues as a step relation in
  which every scheduling of the threads and an interrupt at any moment are possible.
\<close>

section \<open>Job\<close>

text \<open>\<open>returncode\<close> starts as \<open>False\<close>, which is the integer 0 in every comparison.\<close>

record job =
  is_break :: bool
  is_skip :: bool
  is_example :: bool
  is_pyexample :: bool
  shell_command :: string
  display_name :: string
  basedir :: string
  tempdir :: string
  cwd :: string
  tmp_file_name :: string
  returncode :: int
  elapsed_time :: rat
  build_path :: string

definition Job :: job where
  "Job = \<lparr>is_break = False, is_skip = False, is_example = False, is_pyexample = False,
     shell_command = [], display_name = [], basedir = [], tempdir = [], cwd = [],
     tmp_file_name = [], returncode = 0, elapsed_time = 0, build_path = []\<rparr>"

definition set_is_break :: "bool \<Rightarrow> job \<Rightarrow> job" where "set_is_break b j = j\<lparr>is_break := b\<rparr>"
definition set_is_skip :: "bool \<Rightarrow> job \<Rightarrow> job" where "set_is_skip b j = j\<lparr>is_skip := b\<rparr>"
definition set_is_example :: "bool \<Rightarrow> job \<Rightarrow> job" where "set_is_example b j = j\<lparr>is_example := b\<rparr>"
definition set_is_pyexample :: "bool \<Rightarrow> job \<Rightarrow> job" where "set_is_pyexample b j = j\<lparr>is_pyexample := b\<rparr>"
definition set_shell_command :: "string \<Rightarrow> job \<Rightarrow> job" where "set_shell_command s j = j\<lparr>shell_command := s\<rparr>"
definition set_build_path :: "string \<Rightarrow> job \<Rightarrow> job" where "set_build_path s j = j\<lparr>build_path := s\<rparr>"
definition set_display_name :: "string \<Rightarrow> job \<Rightarrow> job" where "set_display_name s j = j\<lparr>display_name := s\<rparr>"
definition set_basedir :: "string \<Rightarrow> job \<Rightarrow> job" where "set_basedir s j = j\<lparr>basedir := s\<rparr>"
definition set_tempdir :: "string \<Rightarrow> job \<Rightarrow> job" where "set_tempdir s j = j\<lparr>tempdir := s\<rparr>"
definition set_cwd :: "string \<Rightarrow> job \<Rightarrow> job" where "set_cwd s j = j\<lparr>cwd := s\<rparr>"
definition set_tmp_file_name :: "string \<Rightarrow> job \<Rightarrow> job" where "set_tmp_file_name s j = j\<lparr>tmp_file_name := s\<rparr>"
definition set_returncode :: "int \<Rightarrow> job \<Rightarrow> job" where "set_returncode r j = j\<lparr>returncode := r\<rparr>"
definition set_elapsed_time :: "rat \<Rightarrow> job \<Rightarrow> job" where "set_elapsed_time t j = j\<lparr>elapsed_time := t\<rparr>"

lemmas job_setters = set_is_break_def set_is_skip_def set_is_example_def set_is_pyexample_def
  set_shell_command_def set_build_path_def set_display_name_def set_basedir_def set_tempdir_def
  set_cwd_def set_tmp_file_name_def set_returncode_def set_elapsed_time_def

section \<open>run_job_synchronously\<close>

text \<open>A process that ran: its return code, the bytes of its two streams, the time it took.\<close>

record proc_result =
  p_code :: int
  p_out :: string
  p_err :: string
  p_time :: rat

text \<open>The part of the configuration and the options the jobs depend on.\<close>

record run_config =
  NS3_BASEDIR :: string
  NS3_BUILDDIR :: string
  PYTHON0 :: string
  opt_valgrind :: bool
  opt_update_data :: bool
  opt_verbose :: bool

text \<open>Whether bytes are valid UTF-8, which \<open>bytes.decode\<close> requires.\<close>

definition cont_byte :: "nat \<Rightarrow> nat \<Rightarrow> char \<Rightarrow> bool" where
  "cont_byte lo hi c \<longleftrightarrow> lo \<le> of_char c \<and> of_char c \<le> hi"

fun utf8_valid :: "string \<Rightarrow> bool" where
  "utf8_valid [] = True"
| "utf8_valid (a # s) =
     (let n = (of_char a :: nat) in
      if n < 0x80 then utf8_valid s
      else if 0xC2 \<le> n \<and> n \<le> 0xDF then
        (case s of b # s' \<Rightarrow> cont_byte 0x80 0xBF b \<and> utf8_valid s' | _ \<Rightarrow> False)
      else if 0xE0 \<le> n \<and> n \<le> 0xEF then
        (case s of
           b # c # s' \<Rightarrow>
             cont_byte (if n = 0xE0 then 0xA0 else 0x80) (if n = 0xED then 0x9F else 0xBF) b \<and>
             cont_byte 0x80 0xBF c \<and> utf8_valid s'
         | _ \<Rightarrow> False)
      else if 0xF0 \<le> n \<and> n \<le> 0xF4 then
        (case s of
           b # c # d # s' \<Rightarrow>
             cont_byte (if n = 0xF0 then 0x90 else 0x80) (if n = 0xF4 then 0x8F else 0xBF) b \<and>
             cont_byte 0x80 0xBF c \<and> cont_byte 0x80 0xBF d \<and> utf8_valid s'
         | _ \<Rightarrow> False)
      else False)"

definition VALGRIND_SUPPRESSIONS_FILE :: string where
  "VALGRIND_SUPPRESSIONS_FILE = ''testpy.supp''"

definition job_path_cmd :: "run_config \<Rightarrow> string \<Rightarrow> bool \<Rightarrow> string \<Rightarrow> string" where
  "job_path_cmd cf command is_python built =
     (if is_python then PYTHON0 cf @ '' '' @ path_join (NS3_BASEDIR cf) command
      else if built \<noteq> [] then path_join built command
      else path_join (NS3_BUILDDIR cf) command)"

definition job_cmd :: "run_config \<Rightarrow> string \<Rightarrow> bool \<Rightarrow> bool \<Rightarrow> string \<Rightarrow> string" where
  "job_cmd cf command valgrind is_python built =
     (let path_cmd = job_path_cmd cf command is_python built in
      if valgrind then
        ''valgrind --suppressions='' @ path_join (NS3_BASEDIR cf) VALGRIND_SUPPRESSIONS_FILE @
        '' --leak-check=full --show-reachable=yes --error-exitcode=2 --errors-for-leak-kinds=all '' @ path_cmd
      else path_cmd)"

definition run_job_synchronously ::
  "run_config \<Rightarrow> (string \<Rightarrow> string \<Rightarrow> proc_result pyres) \<Rightarrow> string \<Rightarrow> string \<Rightarrow> bool \<Rightarrow> bool \<Rightarrow> string \<Rightarrow>
   (int \<times> string \<times> string \<times> rat) pyres" where
  "run_job_synchronously cf popen command directory valgrind is_python built =
     rbind (popen (job_cmd cf command valgrind is_python built) directory) (\<lambda>p.
       let retval = p_code p;
           retval = (if utf8_valid (p_out p) then retval else 1);
           retval = (if utf8_valid (p_err p) then retval else 1)
       in Inr (retval, p_out p, p_err p, p_time p))"

text \<open>What a worker does with a job that is neither a break nor skipped.\<close>

definition job_run ::
  "run_config \<Rightarrow> (string \<Rightarrow> string \<Rightarrow> proc_result pyres) \<Rightarrow> job \<Rightarrow> job pyres" where
  "job_run cf popen j =
     rmap (\<lambda>(rc, standard_out, standard_err, et). set_elapsed_time et (set_returncode rc j))
       (if is_example j \<or> is_pyexample j then
          run_job_synchronously cf popen (shell_command j) (cwd j) (opt_valgrind cf) (is_pyexample j) (build_path j)
        else
          (let update_data = (if opt_update_data cf then ''--update-data'' else []) in
           run_job_synchronously cf popen
             (shell_command j @ '' --xml --tempdir='' @ tempdir j @ '' --out='' @ tmp_file_name j @ '' '' @ update_data)
             (cwd j) (opt_valgrind cf) False []))"

section \<open>Queues\<close>

text \<open>The contract of \<open>queue.Queue\<close>.\<close>

locale fifo =
  fixes put :: "'a \<Rightarrow> 'q \<Rightarrow> 'q"
    and get :: "'q \<Rightarrow> ('a \<times> 'q) option"
    and items :: "'q \<Rightarrow> 'a list"
  assumes items_put: "items (put x q) = items q @ [x]"
    and get_none: "get q = None \<longleftrightarrow> items q = []"
    and get_some: "get q = Some (x, q') \<Longrightarrow> items q = x # items q'"
begin

lemma items_puts: "items (fold put xs q) = items q @ xs"
  by (induction xs arbitrary: q) (simp_all add: items_put)

lemma get_exists: "items q \<noteq> [] \<Longrightarrow> \<exists>q'. get q = Some (hd (items q), q')"
  using get_none [of q] get_some [of q] by (cases "get q") fastforce+

lemma get_takes: "get q = Some (x, q') \<Longrightarrow> mset (items q) = add_mset x (mset (items q'))"
  by (simp add: get_some)

end

definition q_put :: "'a \<Rightarrow> 'a list \<Rightarrow> 'a list" where
  "q_put x q = q @ [x]"

fun q_get :: "'a list \<Rightarrow> ('a \<times> 'a list) option" where
  "q_get [] = None"
| "q_get (x # q) = Some (x, q)"

interpretation q: fifo q_put q_get "\<lambda>q. q"
proof
  show "q_get q = None \<longleftrightarrow> q = []" for q :: "'a list" by (cases q) auto
  show "q = x # q'" if "q_get q = Some (x, q')" for q q' :: "'a list" and x
    using that by (cases q) auto
qed (simp add: q_put_def)

section \<open>The threads\<close>

datatype worker = Waiting | Holding job | Running job | Stopped | Died

text \<open>Where the main thread is: putting jobs, collecting results, joining the workers, past it.\<close>

datatype main_pc = Putting "job list" | Getting nat | Joining | Finished

record pool =
  in_q :: "job list"
  out_q :: "job list"
  workers :: "worker list"
  thread_exit :: bool
  jobs :: nat
  collected :: "job list"
  pc :: main_pc

definition break_job :: job where
  "break_job = set_is_break True Job"

definition pool_init :: "job list \<Rightarrow> nat \<Rightarrow> pool" where
  "pool_init js processors =
     \<lparr>in_q = [], out_q = [], workers = replicate processors Waiting, thread_exit = False,
      jobs = length js, collected = [], pc = Putting (js @ replicate processors break_job)\<rparr>"

inductive pstep :: "(job \<Rightarrow> job pyres) \<Rightarrow> pool \<Rightarrow> pool \<Rightarrow> bool" for run where
  put: "pc s = Putting (j # js) \<Longrightarrow> pstep run s (s\<lparr>pc := Putting js, in_q := q_put j (in_q s)\<rparr>)"
| put_end: "pc s = Putting [] \<Longrightarrow> pstep run s (s\<lparr>pc := Getting (jobs s)\<rparr>)"
| get: "pc s = Getting (Suc n) \<Longrightarrow> q_get (out_q s) = Some (j, q) \<Longrightarrow>
    pstep run s (s\<lparr>pc := Getting n, out_q := q, collected := collected s @ [j]\<rparr>)"
| get_end: "pc s = Getting 0 \<Longrightarrow> pstep run s (s\<lparr>pc := Joining\<rparr>)"
| join: "pc s = Joining \<Longrightarrow> \<forall>w \<in> set (workers s). w = Stopped \<or> w = Died \<Longrightarrow>
    pstep run s (s\<lparr>pc := Finished\<rparr>)"
| take: "i < length (workers s) \<Longrightarrow> workers s ! i = Waiting \<Longrightarrow> q_get (in_q s) = Some (j, q) \<Longrightarrow>
    pstep run s (s\<lparr>in_q := q, workers := (workers s)[i := if is_break j then Stopped else Holding j]\<rparr>)"
| give_up: "i < length (workers s) \<Longrightarrow> workers s ! i = Holding j \<Longrightarrow> thread_exit s \<Longrightarrow>
    pstep run s (s\<lparr>workers := (workers s)[i := Waiting], out_q := q_put (set_is_break True j) (out_q s)\<rparr>)"
| skip: "i < length (workers s) \<Longrightarrow> workers s ! i = Holding j \<Longrightarrow> \<not> thread_exit s \<Longrightarrow> is_skip j \<Longrightarrow>
    pstep run s (s\<lparr>workers := (workers s)[i := Waiting], out_q := q_put j (out_q s)\<rparr>)"
| launch: "i < length (workers s) \<Longrightarrow> workers s ! i = Holding j \<Longrightarrow> \<not> thread_exit s \<Longrightarrow> \<not> is_skip j \<Longrightarrow>
    pstep run s (s\<lparr>workers := (workers s)[i := Running j]\<rparr>)"
| finish: "i < length (workers s) \<Longrightarrow> workers s ! i = Running j \<Longrightarrow> run j = Inr j' \<Longrightarrow>
    pstep run s (s\<lparr>workers := (workers s)[i := Waiting], out_q := q_put j' (out_q s)\<rparr>)"
| die: "i < length (workers s) \<Longrightarrow> workers s ! i = Running j \<Longrightarrow> run j = Inl e \<Longrightarrow>
    pstep run s (s\<lparr>workers := (workers s)[i := Died]\<rparr>)"

text \<open>\<open>sigint_hook\<close> sets the flag; a second interrupt changes nothing.\<close>

definition sigint_hook :: "pool \<Rightarrow> pool" where
  "sigint_hook s = s\<lparr>thread_exit := True\<rparr>"

inductive step :: "(job \<Rightarrow> job pyres) \<Rightarrow> pool \<Rightarrow> pool \<Rightarrow> bool" for run where
  program: "pstep run s s' \<Longrightarrow> step run s s'"
| interrupt: "\<not> thread_exit s \<Longrightarrow> step run s (sigint_hook s)"

inductive_cases pstepE: "pstep run s s'"
inductive_cases stepE: "step run s s'"

definition reachable :: "(job \<Rightarrow> job pyres) \<Rightarrow> job list \<Rightarrow> nat \<Rightarrow> pool \<Rightarrow> bool" where
  "reachable run js n s \<longleftrightarrow> (step run)\<^sup>*\<^sup>* (pool_init js n) s"

section \<open>Invariants\<close>

definition held :: "worker \<Rightarrow> job list" where
  "held w = (case w of Holding j \<Rightarrow> [j] | Running j \<Rightarrow> [j] | _ \<Rightarrow> [])"

definition todo :: "pool \<Rightarrow> job list" where
  "todo s = (case pc s of Putting js \<Rightarrow> js | _ \<Rightarrow> [])"

definition real_jobs :: "job list \<Rightarrow> job list" where
  "real_jobs js = filter (\<lambda>j. \<not> is_break j) js"

definition breaks :: "job list \<Rightarrow> nat" where
  "breaks js = length (filter is_break js)"

definition all_held :: "pool \<Rightarrow> job list" where
  "all_held s = concat (map held (workers s))"

definition stopped :: "worker list \<Rightarrow> nat" where
  "stopped ws = length (filter (\<lambda>w. w = Stopped) ws)"

lemma held_simps [simp]:
  "held Waiting = []" "held Stopped = []" "held Died = []" "held (Holding j) = [j]" "held (Running j) = [j]"
  by (simp_all add: held_def)

lemma real_simps [simp]:
  "real_jobs [] = []" "real_jobs (j # js) = (if is_break j then real_jobs js else j # real_jobs js)"
  "real_jobs (xs @ ys) = real_jobs xs @ real_jobs ys"
  by (simp_all add: real_jobs_def)

lemma breaks_simps [simp]:
  "breaks [] = 0" "breaks (j # js) = (if is_break j then Suc (breaks js) else breaks js)"
  "breaks (xs @ ys) = breaks xs + breaks ys"
  by (simp_all add: breaks_def)

text \<open>Replacing one element of a list in a sum and in a union of multisets.\<close>

lemma sum_list_update:
  "i < length ws \<Longrightarrow> sum_list (map g (ws[i := w])) + g (ws ! i) = sum_list (map g ws) + (g w :: nat)"
  by (induction ws arbitrary: i) (auto split: nat.split)

lemma mset_concat_update:
  "i < length ws \<Longrightarrow>
     mset (concat (map f (ws[i := w]))) + mset (f (ws ! i)) = mset (concat (map f ws)) + mset (f w)"
  by (induction ws arbitrary: i) (auto split: nat.split)

text \<open>The result a job is given back with.\<close>

definition outcome :: "(job \<Rightarrow> job pyres) \<Rightarrow> bool \<Rightarrow> job \<Rightarrow> job \<Rightarrow> bool" where
  "outcome run interrupted j r \<longleftrightarrow>
     (if is_skip j then r = j else run j = Inr r) \<or> (interrupted \<and> r = set_is_break True j)"

text \<open>No job is lost or duplicated: it is waiting, held by one worker, or answered.\<close>

definition inv_jobs :: "(job \<Rightarrow> job pyres) \<Rightarrow> job list \<Rightarrow> pool \<Rightarrow> bool" where
  "inv_jobs run js s \<longleftrightarrow>
     (\<exists>dn. mset js = mset (real_jobs (todo s)) + mset (real_jobs (in_q s)) + mset (all_held s) + mset dn \<and>
        list_all2 (outcome run (thread_exit s)) dn (collected s @ out_q s)) \<and>
     (\<forall>j. Running j \<in> set (workers s) \<longrightarrow> \<not> is_skip j)"

lemma outcome_mono: "outcome run b j r \<Longrightarrow> outcome run True j r"
  by (auto simp: outcome_def)

lemma all_held_update:
  assumes "i < length ws" "ws ! i = w0"
  shows "mset (concat (map held (ws[i := w]))) + mset (held w0) = mset (concat (map held ws)) + mset (held w)"
  using mset_concat_update [OF assms(1), of held w] assms(2) by simp

lemma inv_jobs_init:
  assumes "\<forall>j \<in> set js. \<not> is_break j"
  shows "inv_jobs run js (pool_init js n)"
proof -
  have "real_jobs js = js" using assms by (simp add: real_jobs_def)
  moreover have "real_jobs (replicate n break_job) = []"
    by (induction n) (simp_all add: break_job_def set_is_break_def)
  moreover have "concat (map held (replicate n Waiting)) = []" by (induction n) auto
  ultimately show ?thesis
    by (auto simp: inv_jobs_def pool_init_def todo_def all_held_def)
qed

text \<open>A worker that answers a job moves it from the held jobs to the answered ones.\<close>

lemma inv_jobs_answer:
  assumes inv: "inv_jobs run js s" and i: "i < length (workers s)" "held (workers s ! i) = [j]"
    and out: "outcome run (thread_exit s) j r"
  shows "inv_jobs run js (s\<lparr>workers := (workers s)[i := Waiting], out_q := q_put r (out_q s)\<rparr>)"
proof -
  obtain dn where dn: "mset js = mset (real_jobs (todo s)) + mset (real_jobs (in_q s)) + mset (all_held s) + mset dn"
      "list_all2 (outcome run (thread_exit s)) dn (collected s @ out_q s)"
    using inv by (auto simp: inv_jobs_def)
  have "mset (concat (map held ((workers s)[i := Waiting]))) + {#j#} = mset (all_held s)"
    using all_held_update [OF i(1) refl, of Waiting] i(2) by (simp add: all_held_def)
  then have "mset js = mset (real_jobs (todo s)) + mset (real_jobs (in_q s)) +
      mset (concat (map held ((workers s)[i := Waiting]))) + mset (dn @ [j])"
    using dn(1) by simp
  moreover have "list_all2 (outcome run (thread_exit s)) (dn @ [j]) (collected s @ out_q s @ [r])"
    using dn(2) out by (metis append_assoc list_all2_Cons list_all2_Nil list_all2_appendI)
  moreover have "Running k \<in> set ((workers s)[i := Waiting]) \<Longrightarrow> Running k \<in> set (workers s)" for k
    by (auto dest!: set_update_subset_insert [THEN subsetD])
  ultimately show ?thesis
    using inv by (auto simp: inv_jobs_def todo_def all_held_def q_put_def intro!: exI [of _ "dn @ [j]"])
qed

text \<open>A worker that keeps its job changes nothing.\<close>

lemma inv_jobs_keep:
  assumes inv: "inv_jobs run js s" and i: "i < length (workers s)" "held (workers s ! i) = held w"
    and w: "\<forall>j. w = Running j \<longrightarrow> \<not> is_skip j"
  shows "inv_jobs run js (s\<lparr>workers := (workers s)[i := w]\<rparr>)"
proof -
  have "mset (concat (map held ((workers s)[i := w]))) = mset (all_held s)"
    using all_held_update [OF i(1) refl, of w] i(2) by (simp add: all_held_def)
  moreover have "Running k \<in> set ((workers s)[i := w]) \<Longrightarrow> Running k \<in> set (workers s) \<or> w = Running k" for k
    by (auto dest!: set_update_subset_insert [THEN subsetD])
  ultimately show ?thesis
    using inv w by (fastforce simp: inv_jobs_def todo_def all_held_def)
qed

lemma inv_jobs_take:
  assumes inv: "inv_jobs run js s" and i: "i < length (workers s)" "workers s ! i = Waiting"
    and q: "in_q s = j # q"
  shows "inv_jobs run js (s\<lparr>in_q := q, workers := (workers s)[i := if is_break j then Stopped else Holding j]\<rparr>)"
proof -
  let ?w = "if is_break j then Stopped else Holding j"
  have "mset (concat (map held ((workers s)[i := ?w]))) = mset (all_held s) + mset (held ?w)"
    using all_held_update [OF i, of ?w] by (simp add: all_held_def)
  moreover have "Running k \<in> set ((workers s)[i := ?w]) \<Longrightarrow> Running k \<in> set (workers s)" for k
    by (auto dest!: set_update_subset_insert [THEN subsetD] split: if_splits)
  ultimately show ?thesis
    using inv q by (fastforce simp: inv_jobs_def todo_def all_held_def)
qed

lemma inv_jobs_pstep:
  assumes "inv_jobs run js s" "pstep run s s'" "\<forall>j \<in> set js. \<not> isl (run j)"
  shows "inv_jobs run js s'"
  using assms(2)
proof cases
  case (put j ks)
  then show ?thesis
    using assms(1) by (fastforce simp: inv_jobs_def todo_def all_held_def q_put_def)
next
  case (get n j q)
  then have "out_q s = j # q" by (cases "out_q s") auto
  with get show ?thesis
    using assms(1) by (fastforce simp: inv_jobs_def todo_def all_held_def)
next
  case (take i j q)
  then have "in_q s = j # q" by (cases "in_q s") auto
  with take show ?thesis using inv_jobs_take [OF assms(1)] by simp
next
  case (give_up i j)
  then show ?thesis using inv_jobs_answer [OF assms(1)] by (simp add: outcome_def)
next
  case (skip i j)
  then show ?thesis using inv_jobs_answer [OF assms(1)] by (simp add: outcome_def)
next
  case (launch i j)
  then show ?thesis using inv_jobs_keep [OF assms(1), of i "Running j"] by simp
next
  case (finish i j j')
  then have "\<not> is_skip j" using assms(1) by (metis inv_jobs_def nth_mem)
  with finish show ?thesis using inv_jobs_answer [OF assms(1)] by (simp add: outcome_def)
next
  case (die i j e)
  have "j \<in> set js"
  proof -
    have "j \<in># mset (all_held s)"
      using die by (auto simp: all_held_def intro!: bexI [of _ "Running j"]) (metis nth_mem)
    then have "j \<in># mset js" using assms(1) by (auto simp: inv_jobs_def simp del: set_mset_mset)
    then show ?thesis by simp
  qed
  with die assms(3) show ?thesis by (metis isl_def)
qed (use assms(1) in \<open>auto simp: inv_jobs_def todo_def all_held_def\<close>)

lemma inv_jobs_interrupt:
  assumes "inv_jobs run js s"
  shows "inv_jobs run js (sigint_hook s)"
proof -
  have "list_all2 (outcome run True) dn rs" if "list_all2 (outcome run (thread_exit s)) dn rs" for dn rs
    using that by (rule list_all2_mono) (rule outcome_mono)
  then show ?thesis
    using assms by (auto simp: inv_jobs_def todo_def all_held_def sigint_hook_def)
qed

section \<open>Order and counts\<close>

definition inv_order :: "nat \<Rightarrow> pool \<Rightarrow> bool" where
  "inv_order n s \<longleftrightarrow> length (workers s) = n \<and> Died \<notin> set (workers s) \<and>
     breaks (in_q s @ todo s) + stopped (workers s) = n \<and>
     (\<exists>r b. in_q s @ todo s = r @ b \<and> breaks r = 0 \<and> real_jobs b = []) \<and>
     (0 < stopped (workers s) \<longrightarrow> real_jobs (in_q s @ todo s) = [])"

definition inv_count :: "job list \<Rightarrow> pool \<Rightarrow> bool" where
  "inv_count js s \<longleftrightarrow> jobs s = length js \<and>
     (case pc s of
        Putting _ \<Rightarrow> collected s = []
      | Getting m \<Rightarrow> length (collected s) + m = length js
      | _ \<Rightarrow> length (collected s) = length js)"

lemma inv_count_init: "inv_count js (pool_init js n)"
  by (simp add: inv_count_def pool_init_def)

lemma inv_count_step: "step run s s' \<Longrightarrow> inv_count js s \<Longrightarrow> inv_count js s'"
  by (erule stepE; (erule pstepE)?) (auto simp: inv_count_def sigint_hook_def split: main_pc.splits)

lemma stopped_update:
  "i < length ws \<Longrightarrow> ws ! i \<noteq> Stopped \<Longrightarrow>
     stopped (ws[i := w]) = stopped ws + (if w = Stopped then 1 else 0)"
  unfolding stopped_def
  by (induction ws arbitrary: i) (auto split: nat.splits)

lemma inv_order_init:
  assumes "\<forall>j \<in> set js. \<not> is_break j"
  shows "inv_order n (pool_init js n)"
proof -
  have "breaks js = 0" using assms by (simp add: breaks_def)
  moreover have "breaks (replicate n break_job) = n" "real_jobs (replicate n break_job) = []"
    by (induction n) (simp_all add: break_job_def set_is_break_def)
  moreover have "stopped (replicate n Waiting) = 0" by (simp add: stopped_def)
  ultimately show ?thesis
    using exI [of "\<lambda>r. \<exists>b. js @ replicate n break_job = r @ b \<and> breaks r = 0 \<and> real_jobs b = []" js]
    by (auto simp: inv_order_def pool_init_def todo_def)
qed

text \<open>Taking the first element off a queue whose breaks come last.\<close>

lemma breaks_last_tl:
  assumes "j # xs = r @ b" "breaks r = 0" "real_jobs b = []"
  shows "\<exists>r b. xs = r @ b \<and> breaks r = 0 \<and> real_jobs b = []" "is_break j \<Longrightarrow> real_jobs xs = []"
proof -
  show "\<exists>r b. xs = r @ b \<and> breaks r = 0 \<and> real_jobs b = []"
  proof (cases r)
    case Nil
    with assms show ?thesis by (intro exI [of _ "[]"] exI [of _ xs]) (auto split: if_splits)
  next
    case (Cons a r')
    with assms show ?thesis by (intro exI [of _ r'] exI [of _ b]) (auto split: if_splits)
  qed
  show "real_jobs xs = []" if "is_break j"
    using assms that by (cases r) (auto split: if_splits)
qed

lemma inv_order_take:
  assumes inv: "inv_order n s" and i: "i < length (workers s)" "workers s ! i = Waiting"
    and q: "in_q s = j # q"
  shows "inv_order n (s\<lparr>in_q := q, workers := (workers s)[i := if is_break j then Stopped else Holding j]\<rparr>)"
proof -
  obtain r b where rb: "j # q @ todo s = r @ b" "breaks r = 0" "real_jobs b = []"
    using inv q by (auto simp: inv_order_def)
  note tl = breaks_last_tl [OF rb]
  have d: "Died \<notin> set ((workers s)[i := w])" if "w \<noteq> Died" for w
    using inv that by (auto simp: inv_order_def dest!: set_update_subset_insert [THEN subsetD])
  show ?thesis
  proof (cases "is_break j")
    case True
    then show ?thesis
      using inv tl q d [of Stopped] stopped_update [OF i(1), of Stopped] i(2)
      by (simp add: inv_order_def todo_def)
  next
    case False
    then have "stopped (workers s) = 0" using inv q by (auto simp: inv_order_def)
    with False show ?thesis
      using inv tl q d [of "Holding j"] stopped_update [OF i(1), of "Holding j"] i(2)
      by (simp add: inv_order_def todo_def)
  qed
qed

lemma inv_order_worker:
  assumes inv: "inv_order n s" and i: "i < length (workers s)" "workers s ! i \<noteq> Stopped"
    and w: "w \<noteq> Stopped" "w \<noteq> Died"
  shows "inv_order n (s\<lparr>workers := (workers s)[i := w], out_q := q\<rparr>)"
proof -
  have "Died \<notin> set ((workers s)[i := w])"
    using inv w by (auto simp: inv_order_def dest!: set_update_subset_insert [THEN subsetD])
  then show ?thesis
    using inv stopped_update [OF i, of w] w by (simp add: inv_order_def todo_def)
qed

lemma inv_order_pstep:
  assumes "inv_order n s" "pstep run s s'" "\<forall>j. Running j \<in> set (workers s) \<longrightarrow> \<not> isl (run j)"
  shows "inv_order n s'"
  using assms(2)
proof cases
  case (put j ks)
  then show ?thesis using assms(1) by (simp add: inv_order_def todo_def q_put_def)
next
  case (take i j q)
  then have "in_q s = j # q" by (cases "in_q s") auto
  with take show ?thesis using inv_order_take [OF assms(1)] by simp
next
  case (give_up i j)
  then show ?thesis using inv_order_worker [OF assms(1), of i Waiting] by simp
next
  case (skip i j)
  then show ?thesis using inv_order_worker [OF assms(1), of i Waiting] by simp
next
  case (launch i j)
  then show ?thesis using inv_order_worker [OF assms(1), of i "Running j" "out_q s"] by simp
next
  case (finish i j j')
  then show ?thesis using inv_order_worker [OF assms(1), of i Waiting] by simp
next
  case (die i j e)
  then show ?thesis using assms(3) by (metis isl_def nth_mem)
qed (use assms(1) in \<open>auto simp: inv_order_def todo_def\<close>)

text \<open>All invariants together hold in every reachable state.\<close>

definition pool_inv :: "(job \<Rightarrow> job pyres) \<Rightarrow> job list \<Rightarrow> nat \<Rightarrow> pool \<Rightarrow> bool" where
  "pool_inv run js n s \<longleftrightarrow> inv_jobs run js s \<and> inv_order n s \<and> inv_count js s"

lemma held_in_jobs:
  assumes "inv_jobs run js s" "w \<in> set (workers s)" "j \<in> set (held w)"
  shows "j \<in> set js"
proof -
  have "j \<in># mset (all_held s)" using assms(2,3) by (auto simp: all_held_def)
  then have "j \<in># mset js" using assms(1) by (auto simp: inv_jobs_def simp del: set_mset_mset)
  then show ?thesis by simp
qed

lemma pool_inv_step:
  assumes "pool_inv run js n s" "step run s s'" "\<forall>j \<in> set js. \<not> isl (run j)"
  shows "pool_inv run js n s'"
  using assms(2)
proof cases
  case program
  have "\<forall>j. Running j \<in> set (workers s) \<longrightarrow> \<not> isl (run j)"
    using assms(1,3) held_in_jobs [of run js s] unfolding pool_inv_def by fastforce
  then show ?thesis
    using assms program inv_jobs_pstep inv_order_pstep inv_count_step [OF assms(2)]
    unfolding pool_inv_def by blast
next
  case interrupt
  have "inv_order n (sigint_hook s)"
    using assms(1) by (simp add: pool_inv_def inv_order_def sigint_hook_def todo_def)
  then show ?thesis
    using assms(1) interrupt inv_jobs_interrupt inv_count_step [OF assms(2)]
    unfolding pool_inv_def by blast
qed

lemma reachable_inv:
  assumes "reachable run js n s" "\<forall>j \<in> set js. \<not> is_break j" "\<forall>j \<in> set js. \<not> isl (run j)"
  shows "pool_inv run js n s"
  using assms(1) unfolding reachable_def
proof (induction rule: rtranclp_induct)
  case base
  show ?case
    unfolding pool_inv_def
    using inv_jobs_init inv_order_init inv_count_init assms(2) by blast
next
  case (step s s')
  then show ?case using pool_inv_step assms(3) by blast
qed

section \<open>Termination and progress\<close>

definition worker_weight :: "worker \<Rightarrow> nat" where
  "worker_weight w = (case w of Holding _ \<Rightarrow> 3 | Running _ \<Rightarrow> 2 | _ \<Rightarrow> 0)"

definition pool_measure :: "pool \<Rightarrow> nat" where
  "pool_measure s =
     5 * length (todo s) + 4 * length (in_q s) + sum_list (map worker_weight (workers s)) +
     length (out_q s) + (case pc s of Putting _ \<Rightarrow> 3 | Getting _ \<Rightarrow> 2 | Joining \<Rightarrow> 1 | Finished \<Rightarrow> 0) +
     (if thread_exit s then 0 else 1)"

lemma weight_update:
  "i < length ws \<Longrightarrow> ws ! i = w0 \<Longrightarrow>
     sum_list (map worker_weight (ws[i := w])) + worker_weight w0 =
       sum_list (map worker_weight ws) + worker_weight w"
  using sum_list_update [of i ws worker_weight w] by simp

lemma weight_replaced:
  assumes "i < length ws" "ws ! i = w0"
  shows "worker_weight w0 \<le> sum_list (map worker_weight ws) \<and>
    (\<forall>w. sum_list (map worker_weight (ws[i := w])) =
       sum_list (map worker_weight ws) + worker_weight w - worker_weight w0)"
  using weight_update [OF assms] member_le_sum_list [of "worker_weight w0" "map worker_weight ws"] assms
  by (auto simp: eq_diff_iff) (metis add_diff_cancel_right')

lemma worker_weight_simps [simp]:
  "worker_weight Waiting = 0" "worker_weight Stopped = 0" "worker_weight Died = 0"
  "worker_weight (Holding j) = 3" "worker_weight (Running j) = 2"
  by (simp_all add: worker_weight_def)

lemma step_decreases: "step run s s' \<Longrightarrow> pool_measure s' < pool_measure s"
proof (erule stepE; (erule pstepE)?)
  fix i j q
  assume i: "i < length (workers s)" "workers s ! i = Waiting" and q: "q_get (in_q s) = Some (j, q)"
    and s': "s' = s\<lparr>in_q := q, workers := (workers s)[i := if is_break j then Stopped else Holding j]\<rparr>"
  from q have "in_q s = j # q" by (cases "in_q s") auto
  then show "pool_measure s' < pool_measure s"
    using weight_update [OF i, of "if is_break j then Stopped else Holding j"]
    by (auto simp: s' pool_measure_def todo_def split: if_splits)
next
  fix n j q
  assume "pc s = Getting (Suc n)" and q: "q_get (out_q s) = Some (j, q)"
    and s': "s' = s\<lparr>pc := Getting n, out_q := q, collected := collected s @ [j]\<rparr>"
  moreover from q have "out_q s = j # q" by (cases "out_q s") auto
  ultimately show "pool_measure s' < pool_measure s" by (simp add: pool_measure_def todo_def)
qed (auto simp: pool_measure_def todo_def q_put_def sigint_hook_def dest!: weight_replaced)

lemma worker_moves:
  assumes "w \<in> set (workers s)" "held w \<noteq> []" "\<forall>j \<in> set (held w). \<not> isl (run j)"
  shows "\<exists>s'. pstep run s s'"
proof -
  obtain i where i: "i < length (workers s)" "workers s ! i = w"
    using assms(1) by (auto simp: in_set_conv_nth)
  show ?thesis
  proof (cases w)
    case (Holding j)
    then show ?thesis
      using i pstep.give_up [of i s j run] pstep.skip [of i s j run] pstep.launch [of i s j run] by blast
  next
    case (Running j)
    then obtain j' where "run j = Inr j'" using assms(3) by (cases "run j") auto
    then show ?thesis using i Running pstep.finish [of i s j run j'] by blast
  qed (use assms(2) in simp_all)
qed

lemma waiting_takes:
  assumes "Waiting \<in> set (workers s)" "in_q s \<noteq> []"
  shows "\<exists>s'. pstep run s s'"
proof -
  obtain i where "i < length (workers s)" "workers s ! i = Waiting"
    using assms(1) by (auto simp: in_set_conv_nth)
  moreover obtain j q where "in_q s = j # q" using assms(2) by (cases "in_q s") auto
  ultimately show ?thesis using pstep.take [of i s j q run] by auto
qed

lemma no_stopped_break:
  assumes "inv_order n s" "Waiting \<notin> set (workers s)" "all_held s = []"
  shows "\<forall>w \<in> set (workers s). w = Stopped"
proof
  fix w assume w: "w \<in> set (workers s)"
  then have "held w = []" using assms(3) by (auto simp: all_held_def)
  moreover have "w \<noteq> Died" "w \<noteq> Waiting" using assms(1,2) w by (auto simp: inv_order_def)
  ultimately show "w = Stopped" by (cases w) auto
qed

lemma stopped_all_iff: "(\<forall>w \<in> set ws. w = Stopped) \<longleftrightarrow> stopped ws = length ws"
proof (induction ws)
  case Nil
  then show ?case by (simp add: stopped_def)
next
  case (Cons w ws)
  have "length (filter (\<lambda>w. w = Stopped) ws) \<noteq> Suc (length ws)"
    by (metis Suc_n_not_le_n length_filter_le)
  with Cons show ?case by (auto simp: stopped_def)
qed

lemma pool_progress:
  assumes inv: "pool_inv run js n s" and total: "\<forall>j \<in> set js. \<not> isl (run j)" and n: "0 < n"
    and going: "pc s \<noteq> Finished"
  shows "\<exists>s'. pstep run s s'"
proof (cases "all_held s = []")
  case False
  then obtain w where w: "w \<in> set (workers s)" "held w \<noteq> []" by (auto simp: all_held_def)
  then show ?thesis
    using worker_moves [OF w] held_in_jobs [of run js s w] inv total unfolding pool_inv_def by blast
next
  case idle: True
  have order: "inv_order n s" and count: "inv_count js s" and jobs: "inv_jobs run js s"
    using inv by (simp_all add: pool_inv_def)
  have empty: "in_q s = []" if "\<not> (\<exists>s'. pstep run s s')" "todo s = []"
  proof (rule ccontr)
    assume ne: "in_q s \<noteq> []"
    then have "Waiting \<notin> set (workers s)" using waiting_takes that(1) by blast
    then have "stopped (workers s) = n"
      using no_stopped_break [OF order _ idle] order by (simp add: stopped_all_iff inv_order_def)
    then have "breaks (in_q s) = 0" "real_jobs (in_q s) = []"
      using order n that(2) by (auto simp: inv_order_def)
    with ne show False by (cases "in_q s") (auto split: if_splits)
  qed
  show ?thesis
  proof (cases "pc s")
    case (Putting ks)
    then show ?thesis using pstep.put [of s] pstep.put_end [of s run] by (cases ks) blast+
  next
    case (Getting m)
    show ?thesis
    proof (rule ccontr)
      assume stuck: "\<not> ?thesis"
      have td: "todo s = []" using Getting by (simp add: todo_def)
      obtain k where m: "m = Suc k" using stuck Getting pstep.get_end [of s run] by (cases m) auto
      have out: "out_q s = []"
        using stuck Getting pstep.get [of s k _ _ run] m by (cases "out_q s") auto
      obtain dn where dn: "mset js = mset dn" "list_all2 (outcome run (thread_exit s)) dn (collected s)"
        using jobs idle out td empty [OF stuck td] by (auto simp: inv_jobs_def)
      have "length (collected s) = length js"
        using dn list_all2_lengthD by (metis size_mset)
      with count Getting m show False by (simp add: inv_count_def)
    qed
  next
    case Joining
    show ?thesis
    proof (rule ccontr)
      assume stuck: "\<not> ?thesis"
      have "todo s = []" using Joining by (simp add: todo_def)
      with empty [OF stuck] have iq: "in_q s = []" "todo s = []" by auto
      then have "stopped (workers s) = length (workers s)" using order by (simp add: inv_order_def)
      then show False
        using stuck pstep.join [OF Joining, of run] stopped_all_iff by blast
    qed
  qed (use going in simp)
qed

text \<open>
  C3: every schedule ends: each step of a thread or interrupt decreases a natural number, so no
  execution is infinite; and as long as running a job does not raise, no reachable state other than
  the end is stuck, so the main thread always collects all its results and joins all its workers.
\<close>

theorem pool_ends:
  assumes "reachable run js n s" "\<forall>j \<in> set js. \<not> is_break j" "\<forall>j \<in> set js. \<not> isl (run j)" "0 < n"
  shows "(\<forall>s'. step run s s' \<longrightarrow> pool_measure s' < pool_measure s) \<and>
    (pc s \<noteq> Finished \<longrightarrow> (\<exists>s'. pstep run s s'))"
  using step_decreases pool_progress [OF reachable_inv [OF assms(1-3)] assms(3,4)] by blast

definition example_job :: "string \<Rightarrow> job" where
  "example_job n = set_display_name n Job"

definition example_run :: "job \<Rightarrow> job pyres" where
  "example_run j = Inr (set_returncode (if display_name j = ''bad'' then 1 else 0) j)"

theorem pool_ends_witness:
  "\<exists>s'. pstep example_run (pool_init [example_job ''a''] 2) s' \<and>
     pool_measure s' < pool_measure (pool_init [example_job ''a''] 2)"
proof -
  let ?s = "pool_init [example_job ''a''] 2"
  have "reachable example_run [example_job ''a''] 2 ?s" by (simp add: reachable_def)
  moreover have "\<forall>j \<in> set [example_job ''a'']. \<not> is_break j"
    by (simp add: example_job_def job_setters Job_def)
  moreover have "\<forall>j \<in> set [example_job ''a'']. \<not> isl (example_run j)" by (simp add: example_run_def)
  ultimately have e: "(\<forall>s'. step example_run ?s s' \<longrightarrow> pool_measure s' < pool_measure ?s) \<and>
      (pc ?s \<noteq> Finished \<longrightarrow> (\<exists>s'. pstep example_run ?s s'))"
    by (rule pool_ends) simp
  have "pc ?s \<noteq> Finished" by (simp add: pool_init_def)
  with e obtain s' where "pstep example_run ?s s'" by blast
  with e step.program show ?thesis by blast
qed

lemma finished_answers:
  assumes "reachable run js n s" "\<forall>j \<in> set js. \<not> is_break j" "\<forall>j \<in> set js. \<not> isl (run j)"
    and "pc s = Finished"
  shows "\<exists>order. mset order = mset js \<and> list_all2 (outcome run (thread_exit s)) order (collected s)"
proof -
  have inv: "inv_jobs run js s" "inv_count js s"
    using reachable_inv [OF assms(1-3)] by (simp_all add: pool_inv_def)
  obtain dn where dn: "mset js = mset (real_jobs (in_q s)) + mset (all_held s) + mset dn"
      "list_all2 (outcome run (thread_exit s)) dn (collected s @ out_q s)"
    using inv(1) assms(4) by (auto simp: inv_jobs_def todo_def)
  have "length dn = length (collected s) + length (out_q s)"
    using dn(2) by (auto dest: list_all2_lengthD)
  moreover have "length js = length (real_jobs (in_q s)) + length (all_held s) + length dn"
    using arg_cong [OF dn(1), of size] by simp
  moreover have "length (collected s) = length js"
    using inv(2) assms(4) by (simp add: inv_count_def)
  ultimately have "real_jobs (in_q s) = []" "all_held s = []" "out_q s = []" by auto
  with dn show ?thesis by (intro exI [of _ dn]) simp
qed

lemma pool_completes:
  assumes "\<forall>j \<in> set js. \<not> is_break j" "\<forall>j \<in> set js. \<not> isl (run j)" "0 < n"
  shows "reachable run js n s \<Longrightarrow> \<exists>t. reachable run js n t \<and> pc t = Finished \<and> thread_exit t = thread_exit s"
proof (induction "pool_measure s" arbitrary: s rule: less_induct)
  case less
  show ?case
  proof (cases "pc s = Finished")
    case True
    with less.prems show ?thesis by blast
  next
    case False
    then obtain s' where s': "pstep run s s'"
      using pool_progress [OF reachable_inv [OF less.prems assms(1,2)] assms(2,3)] by blast
    then have "reachable run js n s'" "pool_measure s' < pool_measure s"
      using less.prems step_decreases step.program unfolding reachable_def
      by (blast intro: rtranclp.rtrancl_into_rtrancl)+
    moreover have "thread_exit s' = thread_exit s" using s' by (auto elim: pstepE)
    ultimately show ?thesis using less.hyps by metis
  qed
qed

text \<open>
  C2: whatever the schedule and whenever the interrupt comes, the main thread ends up with exactly
  one answer for every job it dispatched: the unchanged job if it was to be skipped, the job with
  what its run returned otherwise, or, only if there was an interrupt, the job marked as broken off;
  and no worker is left over.
\<close>

theorem pool_answers:
  assumes "reachable run js n s" "\<forall>j \<in> set js. \<not> is_break j" "\<forall>j \<in> set js. \<not> isl (run j)"
    and "pc s = Finished"
  shows "\<exists>order. mset order = mset js \<and> list_all2 (outcome run (thread_exit s)) order (collected s)"
  by (rule finished_answers [OF assms])

theorem pool_answers_witness:
  "\<exists>s. reachable example_run [example_job ''a'', example_job ''bad''] 2 s \<and>
     mset (map returncode (collected s)) = {#0, 1#}"
proof -
  let ?js = "[example_job ''a'', example_job ''bad'']"
  have js: "\<forall>j \<in> set ?js. \<not> is_break j" "\<forall>j \<in> set ?js. \<not> isl (example_run j)"
    by (simp_all add: example_job_def job_setters Job_def example_run_def)
  have init: "reachable example_run ?js 2 (pool_init ?js 2)" by (simp add: reachable_def)
  have "\<not> thread_exit (pool_init ?js 2)" by (simp add: pool_init_def)
  with pool_completes [OF js _ init] obtain s where
    s: "reachable example_run ?js 2 s" "pc s = Finished" "\<not> thread_exit s"
    by auto
  from pool_answers [OF s(1) js s(2)] obtain ord where
    ord: "mset ord = mset ?js" "list_all2 (outcome example_run False) ord (collected s)"
    using s(3) by auto
  have out: "returncode r = (if display_name j = ''bad'' then 1 else 0)"
    if "j \<in> set ord" "outcome example_run False j r" for j r
  proof -
    have "j \<in> set ?js" using that(1) ord(1) by (metis set_mset_mset)
    with that(2) show ?thesis
      by (auto simp: outcome_def example_run_def example_job_def job_setters Job_def)
  qed
  have "map returncode (collected s) = map (\<lambda>j. if display_name j = ''bad'' then 1 else 0) ord"
    by (rule list_all2_map_eq [OF ord(2) out])
  then have "mset (map returncode (collected s)) =
      image_mset (\<lambda>j. if display_name j = ''bad'' then 1 else 0) (mset ?js)"
    using ord(1) by simp
  then show ?thesis using s(1) by (auto simp: example_job_def job_setters)
qed

text \<open>
  A job's return code is the one of its process, except that output which is not valid UTF-8
  makes it 1; the command is run in the job's directory, in front of it valgrind when asked for, and
  a job never changes anything but its return code and its time.
\<close>

theorem job_run_result:
  assumes "job_run cf popen j = Inr j'"
  shows "\<exists>cmd p. popen cmd (cwd j) = Inr p \<and>
    j' = j\<lparr>returncode := if utf8_valid (p_out p) \<and> utf8_valid (p_err p) then p_code p else 1,
           elapsed_time := p_time p\<rparr> \<and>
    cmd = (if is_example j \<or> is_pyexample j
           then job_cmd cf (shell_command j) (opt_valgrind cf) (is_pyexample j) (build_path j)
           else job_cmd cf
             (shell_command j @ '' --xml --tempdir='' @ tempdir j @ '' --out='' @ tmp_file_name j @ '' '' @
                (if opt_update_data cf then ''--update-data'' else []))
             (opt_valgrind cf) False [])"
proof -
  have run: "\<exists>p. popen cmd' dir = Inr p \<and>
      r = (if utf8_valid (p_out p) \<and> utf8_valid (p_err p) then p_code p else 1, p_out p, p_err p, p_time p)"
    if "run_job_synchronously cf popen c dir v py b = Inr r" "cmd' = job_cmd cf c v py b" for c dir v py b r cmd'
    using that by (auto simp: run_job_synchronously_def rbind_eq_Inr_iff Let_def)
  have set: "(case r of (rc, out, err, et) \<Rightarrow> set_elapsed_time et (set_returncode rc j)) =
      j\<lparr>returncode := fst r, elapsed_time := snd (snd (snd r))\<rparr>" for r
    by (simp add: job_setters split: prod.split)
  show ?thesis
  proof (cases "is_example j \<or> is_pyexample j")
    case True
    then obtain r where "run_job_synchronously cf popen (shell_command j) (cwd j) (opt_valgrind cf)
        (is_pyexample j) (build_path j) = Inr r" "j' = j\<lparr>returncode := fst r, elapsed_time := snd (snd (snd r))\<rparr>"
      using assms by (auto simp: job_run_def rmap_eq_Inr_iff set)
    with True run [OF this(1) refl] show ?thesis by auto
  next
    case False
    then obtain r where "run_job_synchronously cf popen
        (shell_command j @ '' --xml --tempdir='' @ tempdir j @ '' --out='' @ tmp_file_name j @ '' '' @
           (if opt_update_data cf then ''--update-data'' else []))
        (cwd j) (opt_valgrind cf) False [] = Inr r" "j' = j\<lparr>returncode := fst r, elapsed_time := snd (snd (snd r))\<rparr>"
      using assms by (auto simp: job_run_def rmap_eq_Inr_iff set Let_def)
    with False run [OF this(1) refl] show ?thesis by auto
  qed
qed

definition example_config :: run_config where
  "example_config = \<lparr>NS3_BASEDIR = ''/r'', NS3_BUILDDIR = ''/r/build'', PYTHON0 = ''python'',
     opt_valgrind = False, opt_update_data = False, opt_verbose = False\<rparr>"

theorem job_run_result_witness:
  "\<exists>j'. job_run example_config (\<lambda>cmd dir. Inr \<lparr>p_code = 0, p_out = [CHR 0xFF], p_err = [], p_time = 2\<rparr>)
      (example_job ''a'') = Inr j' \<and> returncode j' = 1"
proof -
  let ?popen = "\<lambda>cmd dir. Inr \<lparr>p_code = 0, p_out = [CHR 0xFF], p_err = [], p_time = 2\<rparr>"
  obtain j' where j': "job_run example_config ?popen (example_job ''a'') = Inr j'"
    by (simp add: job_run_def run_job_synchronously_def example_job_def job_setters Job_def Let_def)
  have "\<not> utf8_valid [CHR 0xFF]" by code_simp
  with job_run_result [OF j'] j' show ?thesis by auto
qed

end
