(* ===== verification/TestConfig.thy ===== *)
theory TestConfig
  imports Ns3rc
begin

text \<open>
  What \<open>test.py\<close> learns before it runs anything: \<open>read_waf_config\<close> executes lines of waf's
  cache, \<open>make_paths\<close> prepares the environment of the test processes, and
  \<open>parse_examples_to_run_file\<close> collects the examples that were built. Executing and evaluating
  Python text are parameters.
\<close>

section \<open>Configuration\<close>

definition interesting_config_items :: "string list" where
  "interesting_config_items =
     [''NS3_ENABLED_MODULES'', ''NS3_ENABLED_CONTRIBUTED_MODULES'', ''NS3_MODULE_PATH'', ''NSC_ENABLED'',
      ''ENABLE_REAL_TIME'', ''ENABLE_THREADING'', ''ENABLE_EXAMPLES'', ''ENABLE_TESTS'',
      ''EXAMPLE_DIRECTORIES'', ''ENABLE_PYTHON_BINDINGS'', ''NSCLICK'', ''ENABLE_BRITE'',
      ''ENABLE_OPENFLOW'', ''APPNAME'', ''BUILD_PROFILE'', ''VERSION'', ''PYTHON'', ''VALGRIND_FOUND'']"

text \<open>The values the configuration variables take, and the module's global variables.\<close>

datatype pyval = PyBool bool | PyStr string | PyList "string list"

type_synonym globals = "(string, pyval) dict"

definition initial_globals :: globals where
  "initial_globals =
     [(''NSC_ENABLED'', PyBool False), (''ENABLE_REAL_TIME'', PyBool False), (''ENABLE_THREADING'', PyBool False),
      (''ENABLE_EXAMPLES'', PyBool True), (''ENABLE_TESTS'', PyBool True), (''NSCLICK'', PyBool False),
      (''ENABLE_BRITE'', PyBool False), (''ENABLE_OPENFLOW'', PyBool False), (''EXAMPLE_DIRECTORIES'', PyList []),
      (''APPNAME'', PyStr []), (''BUILD_PROFILE'', PyStr []), (''BUILD_PROFILE_SUFFIX'', PyStr []),
      (''VERSION'', PyStr []), (''PYTHON'', PyStr []), (''VALGRIND_FOUND'', PyBool True)]"

text \<open>The directory lines of the lock file; \<open>key, val = line.split('=')\<close> needs exactly two parts.\<close>

definition dir_value :: "(string \<Rightarrow> string pyres) \<Rightarrow> string \<Rightarrow> string pyres" where
  "dir_value ev line =
     (case split_all (CHR ''='') line of
        [key, val] \<Rightarrow> ev (py_strip val)
      | _ \<Rightarrow> Inl ValueError)"

definition lock_line ::
  "(string \<Rightarrow> string pyres) \<Rightarrow> string option \<times> string option \<Rightarrow> string \<Rightarrow> (string option \<times> string option) pyres" where
  "lock_line ev dirs line =
     rbind (if startswith line ''top_dir ='' then rmap (\<lambda>v. (Some v, snd dirs)) (dir_value ev line) else Inr dirs)
       (\<lambda>dirs.
        if startswith line ''out_dir ='' then rmap (\<lambda>v. (fst dirs, Some v)) (dir_value ev line) else Inr dirs)"

definition bound :: "'a option \<Rightarrow> 'a pyres" where
  "bound v = (case v of None \<Rightarrow> Inl UnboundLocalError | Some x \<Rightarrow> Inr x)"

definition cache_line ::
  "(string \<Rightarrow> globals \<Rightarrow> globals pyres) \<Rightarrow> globals \<Rightarrow> string \<Rightarrow> globals pyres" where
  "cache_line exec g line =
     rfold (\<lambda>g item. if startswith line item then exec line g else Inr g) g interesting_config_items"

definition read_file :: "files \<Rightarrow> string \<Rightarrow> string pyres" where
  "read_file fs p = (case fs p of None \<Rightarrow> Inl OSError | Some s \<Rightarrow> Inr s)"

definition read_waf_config ::
  "(string \<Rightarrow> string pyres) \<Rightarrow> (string \<Rightarrow> globals \<Rightarrow> globals pyres) \<Rightarrow> files \<Rightarrow> string \<Rightarrow> globals \<Rightarrow>
   globals pyres" where
  "read_waf_config ev exec fs platform g =
     rbind (read_file fs (''.lock-waf_'' @ platform @ ''_build'')) (\<lambda>lock.
     rbind (rfold (lock_line ev) (None, None) (readlines lock)) (\<lambda>(top, out).
     rbind (bound top) (\<lambda>top_dir.
     rbind (bound out) (\<lambda>out_dir.
     rbind (read_file fs (out_dir @ ''/c4che/_cache.py'')) (\<lambda>cache.
       rfold (cache_line exec)
         (dict_set ''NS3_BUILDDIR'' (PyStr out_dir) (dict_set ''NS3_BASEDIR'' (PyStr top_dir) g))
         (readlines cache))))))"

section \<open>make_paths\<close>

text \<open>Appending every module path to a variable of the environment, which may have to be created.\<close>

definition add_module_paths ::
  "string \<Rightarrow> char \<Rightarrow> string list \<Rightarrow> (string, string) dict \<Rightarrow> (string, string) dict" where
  "add_module_paths var sep paths env =
     (let env0 = (if dict_has env var then env else dict_set var [] env) in
      foldl (\<lambda>e p. dict_set var (the (map_of e var) @ [sep] @ p) e) env0 paths)"

definition make_paths ::
  "string \<Rightarrow> string \<Rightarrow> string list \<Rightarrow> (string, string) dict \<Rightarrow> (string, string) dict" where
  "make_paths platform builddir module_path env =
     (let have_PYTHONPATH = dict_has env ''PYTHONPATH'';
          pypath = path_join (path_join builddir ''bindings'') ''python'';
          env1 = dict_set ''PYTHONPATH'' pypath env;
          env2 = (if \<not> have_PYTHONPATH then dict_set ''PYTHONPATH'' pypath env1
                  else dict_set ''PYTHONPATH'' (the (map_of env1 ''PYTHONPATH'') @ '':'' @ pypath) env1)
      in if platform = ''darwin'' then add_module_paths ''DYLD_LIBRARY_PATH'' (CHR '':'') module_path env2
         else if platform = ''win32'' then add_module_paths ''PATH'' (CHR '';'') module_path env2
         else if platform = ''cygwin'' then add_module_paths ''PATH'' (CHR '':'') module_path env2
         else add_module_paths ''LD_LIBRARY_PATH'' (CHR '':'') module_path env2)"

section \<open>parse_examples_to_run_file\<close>

record example_lists =
  example_tests :: "(string \<times> string \<times> string \<times> string) list"
  example_names_original :: "string list"
  python_tests :: "(string \<times> string) list"

record example_config =
  ec_appname :: string
  ec_version :: string
  ec_suffix :: string
  ec_builddir :: string
  ec_cwd :: string

definition program_name :: "example_config \<Rightarrow> string \<Rightarrow> string" where
  "program_name ec n = ec_appname ec @ ec_version ec @ ''-'' @ n @ ec_suffix ec"

definition cpp_example ::
  "example_config \<Rightarrow> files \<Rightarrow> string \<Rightarrow> example_lists \<Rightarrow> string \<times> string \<times> string \<Rightarrow> example_lists pyres" where
  "cpp_example ec fs cpp_executable_dir ls e =
     (case e of (original, do_run, do_valgrind_run) \<Rightarrow>
      let parts = split_once (CHR '' '') original;
          path0 = path_join cpp_executable_dir (program_name ec (hd parts)) in
      rbind (os_relpath (ec_cwd ec) cpp_executable_dir (ec_builddir ec)) (\<lambda>rel.
        let name0 = path_join rel (hd parts);
            args = (if length parts = 1 then [] else '' '' @ (parts ! 1)) in
        Inr (if fs path0 \<noteq> None then
               ls\<lparr>example_tests := example_tests ls @ [(name0 @ args, path0 @ args, do_run, do_valgrind_run)],
                  example_names_original := example_names_original ls @ [original]\<rparr>
             else ls)))"

definition python_example ::
  "files \<Rightarrow> string \<Rightarrow> example_lists \<Rightarrow> string \<times> string \<Rightarrow> example_lists" where
  "python_example fs python_script_dir ls e =
     (case e of (example_name, do_run) \<Rightarrow>
      let parts = split_once (CHR '' '') example_name;
          path0 = path_join python_script_dir (hd parts);
          args = (if length parts = 1 then [] else '' '' @ (parts ! 1)) in
      if fs path0 \<noteq> None then ls\<lparr>python_tests := python_tests ls @ [(path0 @ args, do_run)]\<rparr> else ls)"

definition parse_examples_to_run_file ::
  "(string \<Rightarrow> (string \<times> string \<times> string) list pyres) \<Rightarrow> (string \<Rightarrow> (string \<times> string) list pyres) \<Rightarrow>
   example_config \<Rightarrow> files \<Rightarrow> string \<Rightarrow> string \<Rightarrow> string \<Rightarrow> example_lists \<Rightarrow> example_lists pyres" where
  "parse_examples_to_run_file ev3 ev2 ec fs path cpp_executable_dir python_script_dir ls =
     (if fs path = None then Inr ls
      else
        rbind (get_list_from_file ev3 fs path ''cpp_examples'') (\<lambda>cpp_examples.
        rbind (rfold (cpp_example ec fs cpp_executable_dir) ls cpp_examples) (\<lambda>ls.
        rbind (get_list_from_file ev2 fs path ''python_examples'') (\<lambda>python_examples.
          Inr (foldl (python_example fs python_script_dir) ls python_examples)))))"

section \<open>Properties\<close>

lemma add_module_paths_lookup:
  "map_of (add_module_paths var sep paths env) k =
     (if k = var then Some ((case map_of env var of Some v \<Rightarrow> v | None \<Rightarrow> []) @ concat (map (Cons sep) paths))
      else map_of env k)"
proof -
  have fold: "map_of (foldl (\<lambda>e p. dict_set var (the (map_of e var) @ [sep] @ p) e) e ps) k =
      (if k = var then Some (v @ concat (map (Cons sep) ps)) else map_of e k)" if "map_of e var = Some v" for e ps v
    using that by (induction ps arbitrary: e v) simp_all
  show ?thesis
  proof (cases "map_of env var")
    case None
    then show ?thesis
      using fold [of "dict_set var [] env" "[]" paths] by (simp add: add_module_paths_def dict_has_iff Let_def)
  next
    case (Some v)
    then show ?thesis
      using fold [OF Some, of paths] by (simp add: add_module_paths_def dict_has_iff Let_def)
  qed
qed

text \<open>
  The environment of the tests: the library path of the platform keeps what the user had and
  gains every module directory, and no other variable changes; but \<open>PYTHONPATH\<close> is overwritten
  before it is extended, so that the user's own value is lost and the new entry appears twice.
\<close>

theorem make_paths_effect:
  assumes "env' = make_paths platform builddir mods env"
  shows "map_of env' ''PYTHONPATH'' =
      (let p = path_join (path_join builddir ''bindings'') ''python'' in
       Some (if dict_has env ''PYTHONPATH'' then p @ '':'' @ p else p)) \<and>
    (platform \<notin> {''darwin'', ''win32'', ''cygwin''} \<longrightarrow>
      map_of env' ''LD_LIBRARY_PATH'' =
        Some ((case map_of env ''LD_LIBRARY_PATH'' of Some v \<Rightarrow> v | None \<Rightarrow> []) @ concat (map (Cons (CHR '':'')) mods)) \<and>
      (\<forall>k. k \<notin> {''PYTHONPATH'', ''LD_LIBRARY_PATH''} \<longrightarrow> map_of env' k = map_of env k))"
  unfolding assms make_paths_def by (simp add: add_module_paths_lookup Let_def)

theorem make_paths_effect_witness:
  "map_of (make_paths ''linux'' ''/b'' [''/b/lib''] [(''PYTHONPATH'', ''/mine''), (''LD_LIBRARY_PATH'', ''/l'')]) ''PYTHONPATH'' =
     Some ''/b/bindings/python:/b/bindings/python'' \<and>
   map_of (make_paths ''linux'' ''/b'' [''/b/lib''] [(''PYTHONPATH'', ''/mine''), (''LD_LIBRARY_PATH'', ''/l'')]) ''LD_LIBRARY_PATH'' =
     Some ''/l:/b/lib''"
proof -
  have "path_join (path_join ''/b'' ''bindings'') ''python'' = ''/b/bindings/python''" by code_simp
  then show ?thesis
    using make_paths_effect [OF refl, of "''linux''" "''/b''" "[''/b/lib'']"
        "[(''PYTHONPATH'', ''/mine''), (''LD_LIBRARY_PATH'', ''/l'')]"]
    by (simp add: dict_has_def)
qed

text \<open>The entry an example is listed with, and when it is listed.\<close>

definition cpp_built :: "example_config \<Rightarrow> files \<Rightarrow> string \<Rightarrow> string \<times> string \<times> string \<Rightarrow> bool" where
  "cpp_built ec fs dir e \<longleftrightarrow> fs (path_join dir (program_name ec (hd (split_once (CHR '' '') (fst e))))) \<noteq> None"

definition arguments :: "string \<Rightarrow> string" where
  "arguments n = (case split_once (CHR '' '') n of [_, a] \<Rightarrow> '' '' @ a | _ \<Rightarrow> [])"

definition cpp_entry ::
  "example_config \<Rightarrow> string \<Rightarrow> string \<Rightarrow> string \<times> string \<times> string \<Rightarrow> string \<times> string \<times> string \<times> string" where
  "cpp_entry ec rel dir e =
     (let n = hd (split_once (CHR '' '') (fst e)) in
      (path_join rel n @ arguments (fst e), path_join dir (program_name ec n) @ arguments (fst e), snd e))"

lemma split_once_args:
  "(if length (split_once c n) = 1 then [] else '' '' @ (split_once c n ! 1)) =
     (case split_once c n of [_, a] \<Rightarrow> '' '' @ a | _ \<Rightarrow> [])"
  by (simp add: split_once_def)

lemma cpp_examples_filter:
  assumes "os_relpath (ec_cwd ec) dir (ec_builddir ec) = Inr rel"
  shows "rfold (cpp_example ec fs dir) ls es =
    Inr (ls\<lparr>example_tests := example_tests ls @ map (cpp_entry ec rel dir) (filter (cpp_built ec fs dir) es),
            example_names_original := example_names_original ls @ map fst (filter (cpp_built ec fs dir) es)\<rparr>)"
proof (induction es arbitrary: ls)
  case Nil
  then show ?case by simp
next
  case (Cons e es)
  obtain n r v where e: "e = (n, r, v)" by (cases e)
  have "cpp_example ec fs dir ls e =
      Inr (if cpp_built ec fs dir e then
             ls\<lparr>example_tests := example_tests ls @ [cpp_entry ec rel dir e],
                example_names_original := example_names_original ls @ [n]\<rparr>
           else ls)"
    using split_once_args [of "CHR '' ''" n]
    by (simp add: cpp_example_def e assms Let_def cpp_built_def cpp_entry_def arguments_def)
  then show ?case by (simp add: Cons.IH e)
qed

definition py_built :: "files \<Rightarrow> string \<Rightarrow> string \<times> string \<Rightarrow> bool" where
  "py_built fs dir e \<longleftrightarrow> fs (path_join dir (hd (split_once (CHR '' '') (fst e)))) \<noteq> None"

definition py_entry :: "string \<Rightarrow> string \<times> string \<Rightarrow> string \<times> string" where
  "py_entry dir e = (path_join dir (hd (split_once (CHR '' '') (fst e))) @ arguments (fst e), snd e)"

lemma python_examples_filter:
  "foldl (python_example fs dir) ls es =
     ls\<lparr>python_tests := python_tests ls @ map (py_entry dir) (filter (py_built fs dir) es)\<rparr>"
proof (induction es arbitrary: ls)
  case Nil
  then show ?case by simp
next
  case (Cons e es)
  obtain n r where e: "e = (n, r)" by (cases e)
  have "python_example fs dir ls e =
      (if py_built fs dir e then ls\<lparr>python_tests := python_tests ls @ [py_entry dir e]\<rparr> else ls)"
    using split_once_args [of "CHR '' ''" n]
    by (simp add: e python_example_def Let_def py_built_def py_entry_def arguments_def)
  then show ?case by (simp add: Cons.IH)
qed

text \<open>
  An examples file adds exactly the examples whose program or script exists, in the order of
  the file and with their arguments and conditions; the list of original names stays parallel to
  the list of C++ examples; a missing file adds nothing.
\<close>

theorem parse_examples_exact:
  assumes "os_relpath (ec_cwd ec) dir (ec_builddir ec) = Inr rel"
    and "fs path \<noteq> None \<Longrightarrow> get_list_from_file ev3 fs path ''cpp_examples'' = Inr cs"
    and "fs path \<noteq> None \<Longrightarrow> get_list_from_file ev2 fs path ''python_examples'' = Inr ps"
  shows "parse_examples_to_run_file ev3 ev2 ec fs path dir pdir ls =
    Inr (if fs path = None then ls else
      ls\<lparr>example_tests := example_tests ls @ map (cpp_entry ec rel dir) (filter (cpp_built ec fs dir) cs),
         example_names_original := example_names_original ls @ map fst (filter (cpp_built ec fs dir) cs),
         python_tests := python_tests ls @ map (py_entry pdir) (filter (py_built fs pdir) ps)\<rparr>)"
  using assms(2,3)
  by (simp add: parse_examples_to_run_file_def cpp_examples_filter [OF assms(1)] python_examples_filter)

definition sample_config :: example_config where
  "sample_config = \<lparr>ec_appname = ''ns'', ec_version = ''3'', ec_suffix = ''-debug'',
     ec_builddir = ''/b'', ec_cwd = ''/b''\<rparr>"

theorem parse_examples_exact_witness:
  "rmap example_tests (parse_examples_to_run_file (\<lambda>s. Inr [(''udp --n=2'', ''True'', ''False''), (''tcp'', ''True'', ''True'')])
      (\<lambda>s. Inr []) sample_config [''e'' \<mapsto> ''cpp_examples = []'', ''/b/x/ns3-udp-debug'' \<mapsto> []] ''e'' ''/b/x'' ''x''
      \<lparr>example_tests = [], example_names_original = [], python_tests = []\<rparr>) =
   Inr [(''x/udp --n=2'', ''/b/x/ns3-udp-debug --n=2'', ''True'', ''False'')]"
proof -
  let ?fs = "[''e'' \<mapsto> ''cpp_examples = []'', ''/b/x/ns3-udp-debug'' \<mapsto> []]"
  let ?cs = "[(''udp --n=2'', ''True'', ''False''), (''tcp'', ''True'', ''True'')]"
  have rel: "os_relpath (ec_cwd sample_config) ''/b/x'' (ec_builddir sample_config) = Inr ''x''"
    by code_simp
  have lists: "get_list_from_file (\<lambda>s. Inr ?cs) ?fs ''e'' ''cpp_examples'' = Inr ?cs"
    "get_list_from_file (\<lambda>s. Inr ([] :: (string \<times> string) list)) ?fs ''e'' ''python_examples'' = Inr []"
    by code_simp+
  have entries: "map (cpp_entry sample_config ''x'' ''/b/x'') (filter (cpp_built sample_config ?fs ''/b/x'') ?cs) =
      [(''x/udp --n=2'', ''/b/x/ns3-udp-debug --n=2'', ''True'', ''False'')]"
    by code_simp
  show ?thesis
    using parse_examples_exact [OF rel, of ?fs "''e''" "\<lambda>s. Inr ?cs" ?cs "\<lambda>s. Inr []" "[]" "''x''"
        "\<lparr>example_tests = [], example_names_original = [], python_tests = []\<rparr>"] lists entries
    by simp
qed

end
