(* ===== verification/TestXml.thy ===== *)
theory TestXml
  imports PyCore
begin

text \<open>
  The report writers of \<open>test.py\<close>: \<open>read_test\<close>, \<open>node_to_text\<close>, \<open>translate_to_text\<close> and
  \<open>translate_to_html\<close>, on the element tree that \<open>xml.etree.ElementTree\<close> returns. A writer
  is the list of the strings it writes.
\<close>

section \<open>Element trees\<close>

datatype xml =
  Elem (x_tag: string) (x_attrs: "(string, string) dict") (x_text: "string option") (x_kids: "xml list")

definition x_find :: "xml \<Rightarrow> string \<Rightarrow> xml option" where
  "x_find e tag = find (\<lambda>k. x_tag k = tag) (x_kids e)"

definition x_findall :: "xml \<Rightarrow> string \<Rightarrow> xml list" where
  "x_findall e tag = filter (\<lambda>k. x_tag k = tag) (x_kids e)"

text \<open>\<open>e.find (tag).text\<close>, and \<open>'%s'\<close> of a value that may be None.\<close>

definition find_text :: "xml \<Rightarrow> string \<Rightarrow> string option pyres" where
  "find_text e tag = (case x_find e tag of None \<Rightarrow> Inl AttributeError | Some k \<Rightarrow> Inr (x_text k))"

definition show_opt :: "string option \<Rightarrow> string" where
  "show_opt s = (case s of None \<Rightarrow> ''None'' | Some t \<Rightarrow> t)"

definition ln :: "string \<Rightarrow> string" where
  "ln s = s @ [py_newline]"

definition quoted :: "string \<Rightarrow> string" where
  "quoted s = CHR 0x22 # s @ [CHR 0x22]"

section \<open>Text\<close>

definition read_test :: "xml \<Rightarrow> (string option \<times> string option \<times> string option) pyres" where
  "read_test test =
     rbind (find_text test ''Result'') (\<lambda>result.
     rbind (find_text test ''Name'') (\<lambda>name.
       Inr (result, name,
         (case x_find test ''Time'' of None \<Rightarrow> Some [] | Some k \<Rightarrow> map_of (x_attrs k) ''real''))))"

definition details_text :: "xml \<Rightarrow> string list pyres" where
  "details_text d =
     rbind (find_text d ''Message'') (\<lambda>message.
     rbind (find_text d ''Condition'') (\<lambda>condition.
     rbind (find_text d ''Actual'') (\<lambda>actual.
     rbind (find_text d ''Limit'') (\<lambda>limit.
     rbind (find_text d ''File'') (\<lambda>file.
     rbind (find_text d ''Line'') (\<lambda>line.
       Inr [ln ''    Details:'',
            ln (''      Message:   '' @ show_opt message),
            ln (''      Condition: '' @ show_opt condition),
            ln (''      Actual:    '' @ show_opt actual),
            ln (''      Limit:     '' @ show_opt limit),
            ln (''      File:      '' @ show_opt file),
            ln (''      Line:      '' @ show_opt line)]))))))"

definition headline :: "string \<Rightarrow> string option \<times> string option \<times> string option \<Rightarrow> string" where
  "headline kind r =
     (case r of (result, name, time_real) \<Rightarrow>
        ln (show_opt result @ '': '' @ kind @ '' '' @ quoted (show_opt name) @ '' ('' @ show_opt time_real @ '')''))"

fun node_to_text :: "xml \<Rightarrow> string list pyres"
  and nodes_to_text :: "xml list \<Rightarrow> string list pyres" where
  "node_to_text (Elem tag attrs txt kids) =
     rbind (read_test (Elem tag attrs txt kids)) (\<lambda>r.
     rbind (rmapM details_text (x_findall (Elem tag attrs txt kids) ''FailureDetails'')) (\<lambda>ds.
     rbind (nodes_to_text kids) (\<lambda>ts.
       Inr (headline ''Test Suite'' r # concat ds @ ts))))"
| "nodes_to_text [] = Inr []"
| "nodes_to_text (k # ks) =
     (if x_tag k = ''Test'' then rbind (node_to_text k) (\<lambda>l. rmap (\<lambda>ls. l @ ls) (nodes_to_text ks))
      else nodes_to_text ks)"

text \<open>The argument is what parsing the results file gave.\<close>

definition translate_to_text :: "xml pyres \<Rightarrow> string list pyres" where
  "translate_to_text parsed =
     rbind parsed (\<lambda>et.
     rbind (nodes_to_text (x_findall et ''Test'')) (\<lambda>ts.
     rbind (rmapM (\<lambda>e. rmap (headline ''Example'') (read_test e)) (x_findall et ''Example'')) (\<lambda>es.
       Inr (ts @ es))))"

section \<open>HTML\<close>

definition red :: string where "red = ''red''"
definition green :: string where "green = ''green''"
definition orange :: string where "orange = ''#ff6600''"

definition styled :: "string \<Rightarrow> string \<Rightarrow> string" where
  "styled tag colour = ''<'' @ tag @ '' style='' @ quoted (''color:'' @ colour) @ ''>''"

definition tr_open :: string where "tr_open = ln ''<tr>''"
definition tr_close :: string where "tr_close = ln ''</tr>''"
definition table_open :: string where "table_open = ln (''<table border='' @ quoted ''1'' @ ''>'')"
definition table_close :: string where "table_close = ln ''</table>''"

definition html_details ::
  "bool \<Rightarrow> string option \<times> string option \<times> string option \<Rightarrow> xml \<Rightarrow> string list pyres" where
  "html_details first_row r d =
     (case r of (result, name, time) \<Rightarrow>
     rbind (find_text d ''Message'') (\<lambda>message.
     rbind (find_text d ''Condition'') (\<lambda>condition.
     rbind (find_text d ''Actual'') (\<lambda>actual.
     rbind (find_text d ''Limit'') (\<lambda>limit.
     rbind (find_text d ''File'') (\<lambda>file.
     rbind (find_text d ''Line'') (\<lambda>line.
       Inr ([tr_open] @
         (if first_row then
            [ln (styled ''td'' red @ show_opt result @ ''</td>''),
             ln (''<td>'' @ show_opt name @ ''</td>''),
             ln (''<td>'' @ show_opt time @ ''</td>'')]
          else replicate 3 (ln ''<td></td>'')) @
         [''<td>'',
          ''<b>Message: </b>'' @ show_opt message @ '', '',
          ''<b>Condition: </b>'' @ show_opt condition @ '', '',
          ''<b>Actual: </b>'' @ show_opt actual @ '', '',
          ''<b>Limit: </b>'' @ show_opt limit @ '', '',
          ''<b>File: </b>'' @ show_opt file @ '', '',
          ''<b>Line: </b>'' @ show_opt line,
          ln ''</td>'',
          ln ''</td>'']))))))))"

fun html_rows ::
  "bool \<Rightarrow> string option \<times> string option \<times> string option \<Rightarrow> xml list \<Rightarrow> string list pyres" where
  "html_rows first_row r [] = Inr []"
| "html_rows first_row r (d # ds) =
     rbind (html_details first_row r d) (\<lambda>l. rmap (\<lambda>ls. l @ ls) (html_rows False r ds))"

definition html_case :: "xml \<Rightarrow> string list pyres" where
  "html_case c =
     rbind (read_test c) (\<lambda>(result, name, time).
       if result = Some ''FAIL'' then html_rows True (result, name, time) (x_findall c ''FailureDetails'')
       else Inr
         [tr_open,
          ln (styled ''td'' green @ show_opt result @ ''</td>''),
          ln (''<td>'' @ show_opt name @ ''</td>''),
          ln (''<td>'' @ show_opt time @ ''</td>''),
          ln ''<td></td>'',
          tr_close])"

definition html_suite :: "xml \<Rightarrow> string list pyres" where
  "html_suite suite =
     rbind (read_test suite) (\<lambda>(result, name, time).
       let colour = (if result = Some ''PASS'' then green else if result = Some ''SKIP'' then orange else red);
           top = [ln (styled ''h3'' colour @ show_opt result @ '': '' @ show_opt name @ '' ('' @ show_opt time @ '')</h3>''),
                  table_open, ln ''<th> Result </th>'']
       in if result \<in> {Some ''CRASH'', Some ''SKIP'', Some ''VALGR''} then
            Inr (top @
              [tr_open,
               ln (styled ''td'' (if result = Some ''SKIP'' then orange else red) @ show_opt result @ ''</td>''),
               tr_close, table_close])
          else
            rbind (rmapM html_case (x_findall suite ''Test'')) (\<lambda>cs.
              Inr (top @ [ln ''<th>Test Case Name</th>'', ln ''<th> Time </th>''] @
                (if result = Some ''FAIL'' then [ln ''<th>Failure Details</th>''] else []) @
                concat cs @ [table_close])))"

definition html_example :: "xml \<Rightarrow> string list pyres" where
  "html_example e =
     rbind (read_test e) (\<lambda>(result, name, time).
       Inr [tr_open,
            (if result = Some ''PASS'' then ln (styled ''td'' green @ show_opt result @ ''</td>'')
             else if result = Some ''SKIP'' then ln (styled ''td'' orange @ show_opt result @ ''</fd>'')
             else ln (styled ''td'' red @ show_opt result @ ''</td>'')),
            ln (''<td>'' @ show_opt name @ ''</td>''),
            ln (''<td>'' @ show_opt time @ ''</td>''),
            tr_close])"

definition translate_to_html :: "xml pyres \<Rightarrow> string list pyres" where
  "translate_to_html parsed =
     rbind parsed (\<lambda>et.
     rbind (rmapM html_suite (x_findall et ''Test'')) (\<lambda>suites.
     rbind (rmapM html_example (x_findall et ''Example'')) (\<lambda>examples.
       Inr ([ln ''<html>'', ln ''<body>'', ln ''<center><h1>ns-3 Test Results</h1></center>'',
             ln ''<h2>Test Suites</h2>''] @ concat suites @
            [ln ''<h2>Examples</h2>'', table_open, ln ''<th> Result </th>'', ln ''<th>Example Name</th>'',
             ln ''<th>Elapsed Time</th>''] @ concat examples @
            [table_close, ln ''</body>'', ln ''</html>'']))))"

section \<open>The text report lists every test\<close>

text \<open>The tests of a tree, a test before the tests inside it.\<close>

fun all_tests :: "xml \<Rightarrow> xml list" and tests_of :: "xml list \<Rightarrow> xml list" where
  "all_tests (Elem tag attrs txt kids) = Elem tag attrs txt kids # tests_of kids"
| "tests_of [] = []"
| "tests_of (k # ks) = (if x_tag k = ''Test'' then all_tests k @ tests_of ks else tests_of ks)"

definition own_text :: "xml \<Rightarrow> string list pyres" where
  "own_text t =
     rbind (read_test t) (\<lambda>r.
     rmap (\<lambda>ds. headline ''Test Suite'' r # concat ds)
       (rmapM details_text (x_findall t ''FailureDetails'')))"

lemma rmapM_append: "rmapM f (xs @ ys) = rbind (rmapM f xs) (\<lambda>a. rmap (\<lambda>b. a @ b) (rmapM f ys))"
  by (induction xs) (auto simp: rmap_def rbind_assoc rbind_def split: sum.split)

lemma node_to_text_tests: "node_to_text t = rmap concat (rmapM own_text (all_tests t))"
  and nodes_to_text_tests: "nodes_to_text ts = rmap concat (rmapM own_text (tests_of ts))"
proof (induction t and ts rule: node_to_text_nodes_to_text.induct)
  case (1 tag attrs tx kids)
  then show ?case by (auto simp: own_text_def rmap_def rbind_def split: sum.split)
next
  case (3 k ks)
  then show ?case by (auto simp: rmapM_append rmap_def rbind_def split: sum.split)
qed simp

lemma tests_of_filter [simp]: "tests_of (filter (\<lambda>k. x_tag k = ''Test'') ks) = tests_of ks"
  by (induction ks) auto

lemma rmapM_ok_iff: "(\<exists>ys. rmapM f xs = Inr ys) \<longleftrightarrow> (\<forall>x \<in> set xs. \<exists>y. f x = Inr y)"
  by (induction xs) (auto simp: rbind_eq_Inr_iff rmap_eq_Inr_iff)

text \<open>An element with all the children the writers look for.\<close>

definition has_all :: "xml \<Rightarrow> string list \<Rightarrow> bool" where
  "has_all e tags \<longleftrightarrow> (\<forall>t \<in> set tags. x_find e t \<noteq> None)"

definition complete_test :: "xml \<Rightarrow> bool" where
  "complete_test t \<longleftrightarrow> has_all t [''Result'', ''Name''] \<and>
     (\<forall>d \<in> set (x_findall t ''FailureDetails'').
        has_all d [''Message'', ''Condition'', ''Actual'', ''Limit'', ''File'', ''Line''])"

lemma find_text_ok: "(\<exists>r. find_text e t = Inr r) \<longleftrightarrow> x_find e t \<noteq> None"
  by (auto simp: find_text_def split: option.split)

lemma read_test_ok: "(\<exists>r. read_test e = Inr r) \<longleftrightarrow> has_all e [''Result'', ''Name'']"
  by (auto simp: read_test_def rbind_eq_Inr_iff has_all_def find_text_def split: option.splits)

lemma details_text_ok: "(\<exists>r. details_text d = Inr r) \<longleftrightarrow>
    has_all d [''Message'', ''Condition'', ''Actual'', ''Limit'', ''File'', ''Line'']"
  by (auto simp: details_text_def rbind_eq_Inr_iff has_all_def find_text_def split: option.splits)

lemma own_text_ok: "(\<exists>r. own_text t = Inr r) \<longleftrightarrow> complete_test t"
proof -
  have "(\<exists>r. own_text t = Inr r) \<longleftrightarrow> (\<exists>r. read_test t = Inr r) \<and>
      (\<exists>ds. rmapM details_text (x_findall t ''FailureDetails'') = Inr ds)"
    by (auto simp: own_text_def rbind_eq_Inr_iff rmap_eq_Inr_iff)
  then show ?thesis
    unfolding rmapM_ok_iff read_test_ok details_text_ok complete_test_def .
qed

text \<open>
  The text report is the list of all tests, a test before the tests inside it and each with
  its failure details, followed by the examples; it is written for exactly those trees in which
  every test, failure detail and example has the children the report shows.
\<close>

theorem text_report:
  "translate_to_text (Inr et) =
     rbind (rmapM own_text (tests_of (x_kids et))) (\<lambda>ts.
     rmap (\<lambda>es. concat ts @ es) (rmapM (\<lambda>e. rmap (headline ''Example'') (read_test e)) (x_findall et ''Example''))) \<and>
   ((\<exists>ls. translate_to_text (Inr et) = Inr ls) \<longleftrightarrow>
     (\<forall>t \<in> set (tests_of (x_kids et)). complete_test t) \<and>
     (\<forall>e \<in> set (x_findall et ''Example''). has_all e [''Result'', ''Name'']))"
proof -
  have eq: "translate_to_text (Inr et) =
     rbind (rmapM own_text (tests_of (x_kids et))) (\<lambda>ts.
     rmap (\<lambda>es. concat ts @ es) (rmapM (\<lambda>e. rmap (headline ''Example'') (read_test e)) (x_findall et ''Example'')))"
    by (auto simp: translate_to_text_def nodes_to_text_tests x_findall_def rmap_def rbind_def split: sum.split)
  have ex: "(\<exists>r. rmap (headline ''Example'') (read_test e) = Inr r) \<longleftrightarrow> has_all e [''Result'', ''Name'']" for e
    by (simp add: read_test_ok [symmetric] rmap_eq_Inr_iff)
  have "(\<exists>ls. translate_to_text (Inr et) = Inr ls) \<longleftrightarrow>
      (\<exists>ts. rmapM own_text (tests_of (x_kids et)) = Inr ts) \<and>
      (\<exists>es. rmapM (\<lambda>e. rmap (headline ''Example'') (read_test e)) (x_findall et ''Example'') = Inr es)"
    by (auto simp: eq rbind_eq_Inr_iff rmap_eq_Inr_iff)
  then show ?thesis unfolding rmapM_ok_iff own_text_ok ex using eq by blast
qed

definition leaf :: "string \<Rightarrow> string \<Rightarrow> xml" where
  "leaf tag t = Elem tag [] (Some t) []"

definition example_results :: xml where
  "example_results = Elem ''Results'' [] None
     [Elem ''Test'' [] None [leaf ''Name'' ''s'', leaf ''Result'' ''FAIL'',
        Elem ''Test'' [] None [leaf ''Name'' ''c'', leaf ''Result'' ''FAIL'',
          Elem ''FailureDetails'' [] None [leaf ''Message'' ''m'', leaf ''Condition'' ''x'', leaf ''Actual'' ''1'',
            leaf ''Limit'' ''2'', leaf ''File'' ''f'', leaf ''Line'' ''3'']]],
      Elem ''Example'' [] None [leaf ''Name'' ''e'', leaf ''Result'' ''PASS'']]"

theorem text_report_witness: "\<exists>ls. translate_to_text (Inr example_results) = Inr ls"
proof -
  have "\<forall>t \<in> set (tests_of (x_kids example_results)). complete_test t"
    "\<forall>e \<in> set (x_findall example_results ''Example''). has_all e [''Result'', ''Name'']"
    by code_simp+
  with text_report [of example_results] show ?thesis by blast
qed

section \<open>The tags of the HTML report\<close>

definition tags :: "string \<Rightarrow> string list \<Rightarrow> nat" where
  "tags t ls = length (filter (\<lambda>l. l = t) ls)"

lemma tags_simps [simp]:
  "tags t [] = 0" "tags t (l # ls) = (if l = t then Suc (tags t ls) else tags t ls)"
  "tags t (ls @ ms) = tags t ls + tags t ms"
  by (simp_all add: tags_def)

lemma tags_concat: "tags t (concat lls) = sum_list (map (tags t) lls)"
  by (induction lls) auto

lemmas html_strings = tr_open_def tr_close_def table_open_def table_close_def ln_def styled_def

lemma tr_differ [simp]: "tr_open \<noteq> tr_close" "tr_close \<noteq> tr_open"
  by (simp_all add: html_strings)

text \<open>How many rows of the table of a suite are never closed.\<close>

definition failed_rows :: "xml \<Rightarrow> nat" where
  "failed_rows c = (if find_text c ''Result'' = Inr (Some ''FAIL'')
     then length (x_findall c ''FailureDetails'') else 0)"

definition suite_failed_rows :: "xml \<Rightarrow> nat" where
  "suite_failed_rows s =
     (if find_text s ''Result'' \<in> {Inr (Some ''CRASH''), Inr (Some ''SKIP''), Inr (Some ''VALGR'')} then 0
      else sum_list (map failed_rows (x_findall s ''Test'')))"

lemma html_details_tags:
  assumes "html_details b r d = Inr ls"
  shows "tags tr_open ls = 1" "tags tr_close ls = 0"
  using assms
  by (auto simp: html_details_def rbind_eq_Inr_iff html_strings numeral_3_eq_3 split: prod.splits)

lemma html_rows_tags:
  "html_rows b r ds = Inr ls \<Longrightarrow> tags tr_open ls = length ds \<and> tags tr_close ls = 0"
proof (induction ds arbitrary: b ls)
  case Nil
  then show ?case by simp
next
  case (Cons d ds)
  then obtain l ls' where l: "html_details b r d = Inr l" "html_rows False r ds = Inr ls'" "ls = l @ ls'"
    by (auto simp: rbind_eq_Inr_iff rmap_eq_Inr_iff)
  with Cons.IH [OF l(2)] html_details_tags [OF l(1)] show ?case by simp
qed

lemma html_case_tags:
  assumes "html_case c = Inr ls"
  shows "tags tr_open ls = tags tr_close ls + failed_rows c"
proof -
  obtain r where r: "read_test c = Inr r" using assms by (auto simp: html_case_def rbind_eq_Inr_iff)
  obtain result name time where p: "r = (result, name, time)" by (cases r)
  have f: "find_text c ''Result'' = Inr result"
    using r p by (auto simp: read_test_def rbind_eq_Inr_iff)
  show ?thesis
  proof (cases "result = Some ''FAIL''")
    case True
    then show ?thesis
      using assms html_rows_tags [of True "(result, name, time)" "x_findall c ''FailureDetails''" ls]
      by (simp add: html_case_def r p failed_rows_def f)
  next
    case False
    then show ?thesis
      using assms by (auto simp: html_case_def r p failed_rows_def f html_strings)
  qed
qed

lemma html_suite_tags:
  assumes "html_suite s = Inr ls"
  shows "tags tr_open ls = tags tr_close ls + suite_failed_rows s"
proof -
  obtain r where r: "read_test s = Inr r" using assms by (auto simp: html_suite_def rbind_eq_Inr_iff)
  obtain result name time where p: "r = (result, name, time)" by (cases r)
  have f: "find_text s ''Result'' = Inr result"
    using r p by (auto simp: read_test_def rbind_eq_Inr_iff)
  show ?thesis
  proof (cases "result \<in> {Some ''CRASH'', Some ''SKIP'', Some ''VALGR''}")
    case True
    then show ?thesis
      using assms by (auto simp: html_suite_def r p suite_failed_rows_def f html_strings)
  next
    case False
    then obtain cs where cs: "rmapM html_case (x_findall s ''Test'') = Inr cs"
      using assms by (auto simp: html_suite_def r p rbind_eq_Inr_iff)
    have "sum_list (map (tags tr_open) cs) =
        sum_list (map (tags tr_close) cs) + sum_list (map failed_rows xs)" if "rmapM html_case xs = Inr cs" for xs cs
      using that by (induction xs arbitrary: cs) (auto simp: rbind_eq_Inr_iff rmap_eq_Inr_iff html_case_tags)
    from this [OF cs] show ?thesis
      using assms False
      by (auto simp: html_suite_def r p cs suite_failed_rows_def f tags_concat html_strings split: if_splits)
  qed
qed

text \<open>
  In the HTML report every table row is closed except the rows of failure details, which end in
  a second \<open></td>\<close> where the comment announces the end of the row: the report has exactly as many
  unclosed rows as there are failure details of failed test cases.
\<close>

theorem html_rows_unclosed:
  assumes "translate_to_html (Inr et) = Inr ls"
  shows "tags tr_open ls = tags tr_close ls + sum_list (map suite_failed_rows (x_findall et ''Test''))"
proof -
  obtain ss es where ss: "rmapM html_suite (x_findall et ''Test'') = Inr ss"
      and es: "rmapM html_example (x_findall et ''Example'') = Inr es"
      and ls: "ls = [ln ''<html>'', ln ''<body>'', ln ''<center><h1>ns-3 Test Results</h1></center>'',
             ln ''<h2>Test Suites</h2>''] @ concat ss @
            [ln ''<h2>Examples</h2>'', table_open, ln ''<th> Result </th>'', ln ''<th>Example Name</th>'',
             ln ''<th>Elapsed Time</th>''] @ concat es @ [table_close, ln ''</body>'', ln ''</html>'']"
    using assms by (auto simp: translate_to_html_def rbind_eq_Inr_iff)
  have suites: "sum_list (map (tags tr_open) ss) =
      sum_list (map (tags tr_close) ss) + sum_list (map suite_failed_rows xs)" if "rmapM html_suite xs = Inr ss" for xs ss
    using that by (induction xs arbitrary: ss) (auto simp: rbind_eq_Inr_iff rmap_eq_Inr_iff html_suite_tags)
  have "tags tr_open l = tags tr_close l" if "html_example e = Inr l" for e l
    using that by (auto simp: html_example_def rbind_eq_Inr_iff html_strings split: prod.splits)
  then have "sum_list (map (tags tr_open) es) = sum_list (map (tags tr_close) es)" if "rmapM html_example xs = Inr es" for xs es
    using that by (induction xs arbitrary: es) (auto simp: rbind_eq_Inr_iff rmap_eq_Inr_iff)
  with es suites [OF ss] show ?thesis
    by (simp add: ls tags_concat html_strings)
qed

theorem html_rows_unclosed_witness:
  "\<exists>ls. translate_to_html (Inr example_results) = Inr ls \<and> tags tr_open ls = tags tr_close ls + 1"
proof -
  have "\<not> isl (translate_to_html (Inr example_results))"
    by code_simp
  then obtain ls where ls: "translate_to_html (Inr example_results) = Inr ls"
    by (cases "translate_to_html (Inr example_results)") auto
  moreover have "sum_list (map suite_failed_rows (x_findall example_results ''Test'')) = 1"
    by code_simp
  ultimately show ?thesis using html_rows_unclosed [OF ls] by simp
qed

end
