(* ===== verification/RunTests.thy ===== *)
theory RunTests
  imports Jobs TestConfig TestXml "HOL-Library.List_Lexorder" "HOL-Library.Char_ord"
begin

text \<open>
  \<open>run_tests\<close> of \<open>test.py\<close> around the worker threads: what waf is asked to build, which suites and
  examples become jobs and which of them are skipped, how the answered jobs are counted and written
  to the results file, the final report and the exit code; and the options of \<open>main\<close>.
\<close>

section \<open>Options\<close>

record test_options =
  to_buildpath :: string
  to_constrain :: string
  to_duration :: bool
  to_example :: string
  to_update_data :: bool
  to_fullness :: string
  to_valgrind :: bool
  to_kinds :: bool
  to_list :: bool
  to_multiple :: bool
  to_nowaf :: bool
  to_pyexample :: string
  to_retain :: bool
  to_suite :: string
  to_text :: string
  to_verbose :: bool
  to_html :: string
  to_xml :: string

definition test_option_defaults :: test_options where
  "test_option_defaults =
     \<lparr>to_buildpath = [], to_constrain = [], to_duration = False, to_example = [], to_update_data = False,
      to_fullness = ''QUICK'', to_valgrind = False, to_kinds = False, to_list = False, to_multiple = False,
      to_nowaf = False, to_pyexample = [], to_retain = False, to_suite = [], to_text = [],
      to_verbose = False, to_html = [], to_xml = []\<rparr>"

definition core_kinds :: "string list" where
  "core_kinds = [''bvt'', ''core'', ''performance'', ''system'', ''unit'']"

definition core_valgrind_skip_tests :: "string list" where
  "core_valgrind_skip_tests =
     [''ns3-tcp-cwnd'', ''nsc-tcp-loss'', ''ns3-tcp-interoperability'', ''routing-click'',
      ''lte-rr-ff-mac-scheduler'', ''lte-tdmt-ff-mac-scheduler'', ''lte-fdmt-ff-mac-scheduler'',
      ''lte-pf-ff-mac-scheduler'', ''lte-tta-ff-mac-scheduler'', ''lte-fdbet-ff-mac-scheduler'',
      ''lte-ttbet-ff-mac-scheduler'', ''lte-fdtbfq-ff-mac-scheduler'', ''lte-tdtbfq-ff-mac-scheduler'',
      ''lte-pss-ff-mac-scheduler'']"

definition core_nsc_missing_skip_tests :: "string list" where
  "core_nsc_missing_skip_tests = [''ns3-tcp-cwnd'', ''nsc-tcp-loss'', ''ns3-tcp-interoperability'']"

section \<open>Building\<close>

definition build_profile_suffix :: "string \<Rightarrow> string" where
  "build_profile_suffix profile = (if profile = ''release'' then [] else ''-'' @ profile)"

definition waf_cmd :: "test_options \<Rightarrow> string \<Rightarrow> string" where
  "waf_cmd opt executable =
     (if to_kinds opt \<or> to_list opt \<or> (to_constrain opt \<noteq> [] \<and> to_constrain opt \<in> set core_kinds)
      then executable @ '' waf --target=test-runner''
      else if to_example opt \<noteq> [] then executable @ '' waf --target='' @ basename (to_example opt)
      else executable @ '' waf'')"

text \<open>A nonzero return code of waf is the result of the whole run.\<close>

definition run_waf :: "test_options \<Rightarrow> string \<Rightarrow> (string \<Rightarrow> int) \<Rightarrow> int option" where
  "run_waf opt executable system =
     (if \<not> to_nowaf opt then
        (let rc = system (waf_cmd opt executable) in if rc \<noteq> 0 then Some rc else None)
      else None)"

definition runnable_programs_dictionary :: "string list \<Rightarrow> (string, string) dict" where
  "runnable_programs_dictionary programs = foldl (\<lambda>d p. dict_set (basename p) p d) [] programs"

section \<open>Which suites to run\<close>

text \<open>
  Asking the test runner: the return code and the standard output, decoded a second time when the
  first attempt left bytes.
\<close>

definition runner_output ::
  "run_config \<Rightarrow> (string \<Rightarrow> string \<Rightarrow> proc_result pyres) \<Rightarrow> string \<Rightarrow> string \<Rightarrow> string \<Rightarrow> (int \<times> string) pyres" where
  "runner_output cf popen directory runner args =
     rmap (\<lambda>(rc, out, err, et). (rc, out))
       (run_job_synchronously cf popen (path_join ''utils'' (runner @ args)) directory False False [])"

definition ask_runner ::
  "run_config \<Rightarrow> (string \<Rightarrow> string \<Rightarrow> proc_result pyres) \<Rightarrow> string \<Rightarrow> string \<Rightarrow> string \<Rightarrow> (int \<times> string) pyres" where
  "ask_runner cf popen directory runner args =
     rbind (runner_output cf popen directory runner args) (\<lambda>(rc, out).
       if utf8_valid out then Inr (rc, out) else Inl ValueError)"

definition select_suites ::
  "(string \<Rightarrow> (int \<times> string) pyres) \<Rightarrow> test_options \<Rightarrow> (string \<times> bool) pyres" where
  "select_suites ask opt =
     (if to_suite opt \<noteq> [] then
        rbind (ask '' --print-test-name-list'') (\<lambda>(rc, suites).
          if to_suite opt \<in> set (split_all py_newline suites) then Inr (to_suite opt @ [py_newline], True)
          else Inl (SystemExit 2))
      else if to_example opt = [] \<and> to_pyexample opt = [] then
        rmap (\<lambda>(rc, suites). (suites, False))
          (if to_constrain opt \<noteq> [] then ask ('' --print-test-name-list --test-type='' @ to_constrain opt)
           else ask '' --print-test-name-list'')
      else Inr ([], False))"

definition remove_listed :: "string list \<Rightarrow> string list \<Rightarrow> string list" where
  "remove_listed suite_list tests = foldl (\<lambda>l p. if p \<in> set l then remove1 p l else l) suite_list tests"

definition suites_to_run ::
  "(string \<Rightarrow> (int \<times> string) pyres) \<Rightarrow> test_options \<Rightarrow> string list pyres" where
  "suites_to_run ask opt =
     rbind (select_suites ask opt) (\<lambda>(suites, single_suite).
       let suite_list = split_all py_newline suites in
       if \<not> single_suite \<and> to_constrain opt \<noteq> ''performance'' then
         rmap (\<lambda>(rc, performance_tests). remove_listed suite_list (split_all py_newline performance_tests))
           (ask '' --print-test-name-list --test-type=performance'')
       else Inr suite_list)"

section \<open>Dispatching\<close>

text \<open>
  \<open>de_python_bindings\<close> may raise: unlike the other configuration variables it has no default.
\<close>

record dispatch_env =
  de_runner :: string
  de_outdir :: string
  de_cwd :: string
  de_nsc_enabled :: bool
  de_enable_examples :: bool
  de_python_bindings :: "bool pyres"
  de_programs :: "(string, string) dict"
  de_scripts :: "string list"
  de_examples :: example_config

definition upper_char :: "char \<Rightarrow> char" where
  "upper_char c = (if 97 \<le> (of_char c :: nat) \<and> (of_char c :: nat) \<le> 122 then char_of ((of_char c :: nat) - 32) else c)"

definition py_upper :: "string \<Rightarrow> string" where
  "py_upper s = map upper_char s"

definition suite_job :: "test_options \<Rightarrow> dispatch_env \<Rightarrow> string \<Rightarrow> job" where
  "suite_job opt de test =
     (let job = set_is_pyexample False (set_is_example False Job);
          job = set_display_name test job;
          job = set_tmp_file_name (path_join (de_outdir de) (test @ ''.xml'')) job;
          job = set_tempdir (de_outdir de) (set_basedir (de_cwd de) (set_cwd (de_cwd de) job));
          multiple = (if to_multiple opt then [] else '' --stop-on-failure'');
          fullness = (if to_fullness opt \<noteq> [] then '' --fullness='' @ py_upper (to_fullness opt)
                      else '' --fullness=QUICK'');
          job = set_shell_command
            (path_join ''utils'' (de_runner de @ '' --test-name='' @ test @ multiple @ fullness)) job;
          job = (if to_valgrind opt \<and> test \<in> set core_valgrind_skip_tests then set_is_skip True job else job)
      in if \<not> de_nsc_enabled de \<and> test \<in> set core_nsc_missing_skip_tests then set_is_skip True job else job)"

definition suite_jobs :: "test_options \<Rightarrow> dispatch_env \<Rightarrow> string list \<Rightarrow> job list" where
  "suite_jobs opt de suite_list = map (suite_job opt de) (filter (\<lambda>t. t \<noteq> []) (map py_strip suite_list))"

text \<open>The fields all examples share.\<close>

definition example_base :: "dispatch_env \<Rightarrow> string \<Rightarrow> string \<Rightarrow> string \<Rightarrow> job \<Rightarrow> job" where
  "example_base de name command built job =
     set_build_path built (set_shell_command command (set_tempdir (de_outdir de) (set_basedir (de_cwd de)
       (set_cwd (de_outdir de) (set_tmp_file_name [] (set_display_name name job))))))"

definition test_program :: "string \<Rightarrow> string" where
  "test_program test = basename (hd (split_once (CHR '' '') test))"

definition example_job_list ::
  "(string \<Rightarrow> bool pyres) \<Rightarrow> test_options \<Rightarrow> dispatch_env \<Rightarrow> string \<times> string \<times> string \<times> string \<Rightarrow> job list pyres" where
  "example_job_list ev opt de e =
     (case e of (name, test, do_run, do_valgrind_run) \<Rightarrow>
        if dict_has (de_programs de) (test_program test) then
          rbind (ev do_run) (\<lambda>r.
            if r then
              rbind (if to_valgrind opt then rmap Not (ev do_valgrind_run) else Inr False) (\<lambda>skip.
              let job = example_base de name test (to_buildpath opt) (set_is_pyexample False (set_is_example True Job))
              in Inr [if skip then set_is_skip True job else job])
            else Inr [])
        else Inr [])"

definition single_example_jobs :: "test_options \<Rightarrow> dispatch_env \<Rightarrow> job list" where
  "single_example_jobs opt de =
     (case map_of (de_programs de) (program_name (de_examples de) (to_example opt)) of
        None \<Rightarrow> []
      | Some p \<Rightarrow>
          (let path = abspath (de_cwd de) p in
           [example_base de path path (to_buildpath opt) (set_is_pyexample False (set_is_example True Job))]))"

definition no_single_test :: "test_options \<Rightarrow> bool" where
  "no_single_test opt \<longleftrightarrow> to_suite opt = [] \<and> to_example opt = [] \<and> to_pyexample opt = []"

definition example_jobs ::
  "(string \<Rightarrow> bool pyres) \<Rightarrow> test_options \<Rightarrow> dispatch_env \<Rightarrow> (string \<times> string \<times> string \<times> string) list \<Rightarrow>
   job list pyres" where
  "example_jobs ev opt de tests =
     (if no_single_test opt then
        (if (to_constrain opt = [] \<or> to_constrain opt = ''example'') \<and> de_enable_examples de then
           rmap concat (rmapM (example_job_list ev opt de) tests)
         else Inr [])
      else if to_example opt \<noteq> [] then Inr (single_example_jobs opt de)
      else Inr [])"

definition python_job_list ::
  "(string \<Rightarrow> bool pyres) \<Rightarrow> test_options \<Rightarrow> dispatch_env \<Rightarrow> string \<times> string \<Rightarrow> job list pyres" where
  "python_job_list ev opt de e =
     (case e of (test, do_run) \<Rightarrow>
        if test_program test \<in> set (de_scripts de) then
          rbind (ev do_run) (\<lambda>r.
            if r then
              rbind (de_python_bindings de) (\<lambda>bindings.
              let job = example_base de test test [] (set_is_pyexample True (set_is_example False Job));
                  job = (if to_valgrind opt then set_is_skip True job else job)
              in Inr [if \<not> bindings then set_is_skip True job else job])
            else Inr [])
        else Inr [])"

definition python_jobs ::
  "(string \<Rightarrow> bool pyres) \<Rightarrow> test_options \<Rightarrow> dispatch_env \<Rightarrow> (string \<times> string) list \<Rightarrow> job list pyres" where
  "python_jobs ev opt de tests =
     (if no_single_test opt then
        (if (to_constrain opt = [] \<or> to_constrain opt = ''pyexample'') \<and> de_enable_examples de then
           rmap concat (rmapM (python_job_list ev opt de) tests)
         else Inr [])
      else if to_pyexample opt \<noteq> [] then
        (if basename (to_pyexample opt) \<notin> set (de_scripts de) then Inr []
         else Inr [example_base de (to_pyexample opt) (to_pyexample opt) [] (set_is_pyexample True Job)])
      else Inr [])"

definition dispatch ::
  "(string \<Rightarrow> (int \<times> string) pyres) \<Rightarrow> (string \<Rightarrow> bool pyres) \<Rightarrow> test_options \<Rightarrow> dispatch_env \<Rightarrow> example_lists \<Rightarrow>
   job list pyres" where
  "dispatch ask ev opt de ls =
     rbind (suites_to_run ask opt) (\<lambda>suite_list.
     rbind (example_jobs ev opt de (example_tests ls)) (\<lambda>examples.
     rbind (python_jobs ev opt de (python_tests ls)) (\<lambda>pyexamples.
       Inr (suite_jobs opt de suite_list @ examples @ pyexamples))))"

section \<open>Results\<close>

datatype status = PASS | FAIL | VALGR | CRASH | SKIP

definition show_status :: "status \<Rightarrow> string" where
  "show_status s = (case s of PASS \<Rightarrow> ''PASS'' | FAIL \<Rightarrow> ''FAIL'' | VALGR \<Rightarrow> ''VALGR'' | CRASH \<Rightarrow> ''CRASH'' | SKIP \<Rightarrow> ''SKIP'')"

record tally =
  passed_tests :: nat
  failed_tests :: nat
  failed_testnames :: "string list"
  crashed_tests :: nat
  crashed_testnames :: "string list"
  valgrind_errors :: nat
  valgrind_testnames :: "string list"
  skipped_tests :: nat
  skipped_testnames :: "string list"
  printed :: "string list"
  xml_results :: "string list"

definition tally_init :: tally where
  "tally_init = \<lparr>passed_tests = 0, failed_tests = 0, failed_testnames = [], crashed_tests = 0,
     crashed_testnames = [], valgrind_errors = 0, valgrind_testnames = [], skipped_tests = 0,
     skipped_testnames = [], printed = [],
     xml_results = [ln (''<?xml version='' @ quoted ''1.0'' @ ''?>''), ln ''<Results>'']\<rparr>"

definition job_status :: "job \<Rightarrow> status" where
  "job_status j =
     (if is_skip j then SKIP
      else if returncode j = 0 then PASS
      else if returncode j = 1 then FAIL
      else if returncode j = 2 then VALGR
      else CRASH)"

definition count_job :: "job \<Rightarrow> tally \<Rightarrow> tally" where
  "count_job j t =
     (case job_status j of
        SKIP \<Rightarrow> t\<lparr>skipped_tests := skipped_tests t + 1, skipped_testnames := skipped_testnames t @ [display_name j]\<rparr>
      | PASS \<Rightarrow> t\<lparr>passed_tests := passed_tests t + 1\<rparr>
      | FAIL \<Rightarrow> t\<lparr>failed_tests := failed_tests t + 1, failed_testnames := failed_testnames t @ [display_name j]\<rparr>
      | VALGR \<Rightarrow> t\<lparr>valgrind_errors := valgrind_errors t + 1, valgrind_testnames := valgrind_testnames t @ [display_name j]\<rparr>
      | CRASH \<Rightarrow> t\<lparr>crashed_tests := crashed_tests t + 1, crashed_testnames := crashed_testnames t @ [display_name j]\<rparr>)"

text \<open>\<open>'%.3f'\<close> of a number that is not negative: rounded to the nearest, ties to even.\<close>

definition round_half_even :: "rat \<Rightarrow> nat" where
  "round_half_even r =
     (let f = \<lfloor>r\<rfloor>; d = r - of_int f in
      nat (if d < 1 / 2 \<or> (d = 1 / 2 \<and> even f) then f else f + 1))"

definition show_fixed3 :: "rat \<Rightarrow> string" where
  "show_fixed3 r =
     (let n = round_half_even (r * 1000); m = show_nat (n mod 1000) in
      show_nat (n div 1000) @ ''.'' @ replicate (3 - length m) (CHR ''0'') @ m)"

definition job_kind :: "job \<Rightarrow> string" where
  "job_kind j = (if is_example j \<or> is_pyexample j then ''Example'' else ''TestSuite'')"

definition print_status :: "test_options \<Rightarrow> job \<Rightarrow> string" where
  "print_status opt j =
     (if to_duration opt \<or> to_constrain opt = ''performance''
      then ln (show_status (job_status j) @ '' ('' @ show_fixed3 (elapsed_time j) @ ''): '' @ job_kind j @ '' '' @ display_name j)
      else ln (show_status (job_status j) @ '': '' @ job_kind j @ '' '' @ display_name j))"

definition example_xml :: "job \<Rightarrow> string list" where
  "example_xml j =
     [ln ''<Example>'', ln (''  <Name>'' @ display_name j @ ''</Name>''),
      ln (''  <Result>'' @ show_status (job_status j) @ ''</Result>''),
      ln (''  <Time real='' @ quoted (show_fixed3 (elapsed_time j)) @ ''/>''), ln ''</Example>'']"

definition suite_xml :: "files \<Rightarrow> job \<Rightarrow> string list pyres" where
  "suite_xml fs j =
     (if is_skip j then
        Inr [ln ''<Test>'', ln (''  <Name>'' @ display_name j @ ''</Name>''), ln ''  <Result>SKIP</Result>'', ln ''</Test>'']
      else if returncode j = 0 \<or> returncode j = 1 \<or> returncode j = 2 then
        rmap (\<lambda>s. [s]) (read_file fs (tmp_file_name j))
      else
        Inr ([ln ''<Test>'', ln (''  <Name>'' @ display_name j @ ''</Name>''), ln ''  <Result>CRASH</Suite>'', ln ''</Test>''] @
          (if returncode j = 2 then
             [ln ''<Test>'', ln (''  <Name>'' @ display_name j @ ''</Name>''), ln ''  <Result>VALGR</Result>'', ln ''</Test>'']
           else [])))"

definition collect_step :: "test_options \<Rightarrow> files \<Rightarrow> tally \<Rightarrow> job \<Rightarrow> tally pyres" where
  "collect_step opt fs t j =
     (if is_break j then Inr t
      else
        (let t = count_job j t; t = t\<lparr>printed := printed t @ [print_status opt j]\<rparr> in
         rmap (\<lambda>xs. t\<lparr>xml_results := xml_results t @ xs\<rparr>)
           (if is_example j \<or> is_pyexample j then Inr (example_xml j) else suite_xml fs j)))"

definition collect :: "test_options \<Rightarrow> files \<Rightarrow> job list \<Rightarrow> tally pyres" where
  "collect opt fs js =
     rmap (\<lambda>t. t\<lparr>xml_results := xml_results t @ [ln ''</Results>'']\<rparr>) (rfold (collect_step opt fs) tally_init js)"

section \<open>The report\<close>

definition summary_names :: "string \<Rightarrow> string list \<Rightarrow> string list" where
  "summary_names title names =
     (if names \<noteq> [] then [ln (title @ [py_newline] @ ''    '' @ py_join ([py_newline] @ ''    '') (sort names))] else [])"

definition summary :: "tally \<Rightarrow> nat \<Rightarrow> string list" where
  "summary t total_tests =
     [ln (show_nat (passed_tests t) @ '' of '' @ show_nat total_tests @ '' tests passed ('' @
        show_nat (passed_tests t) @ '' passed, '' @ show_nat (skipped_tests t) @ '' skipped, '' @
        show_nat (failed_tests t) @ '' failed, '' @ show_nat (crashed_tests t) @ '' crashed, '' @
        show_nat (valgrind_errors t) @ '' valgrind errors)'')] @
     summary_names ''List of SKIPped tests:'' (skipped_testnames t) @
     summary_names ''List of FAILed tests:'' (failed_testnames t) @
     summary_names ''List of CRASHed tests:'' (crashed_testnames t) @
     summary_names ''List of VALGR failures:'' (valgrind_testnames t)"

definition final_notes :: "bool \<Rightarrow> bool \<Rightarrow> bool \<Rightarrow> bool \<Rightarrow> string list" where
  "final_notes enable_tests enable_examples valgrind valgrind_found =
     (if \<not> enable_tests \<or> \<not> enable_examples then
        [ln []] @
        (if \<not> enable_tests then
           [ln ''***  Note: ns-3 tests are currently disabled. Enable them by adding'',
            ln (''***  '' @ quoted ''--enable-tests'' @ '' to ./waf configure or modifying your .ns3rc file.''), ln []]
         else []) @
        (if \<not> enable_examples then
           [ln ''***  Note: ns-3 examples are currently disabled. Enable them by adding'',
            ln (''***  '' @ quoted ''--enable-examples'' @ '' to ./waf configure or modifying your .ns3rc file.''), ln []]
         else [])
      else []) @
     (if valgrind \<and> \<not> valgrind_found then
        [ln [], ln ''***  Note: you are trying to use valgrind, but valgrind could not be found'',
         ln ''***  on your machine.  All tests and examples will crash or be skipped.'', ln []]
      else [])"

text \<open>The files the run leaves: the reports, and the output directory unless it is not retained.\<close>

definition write_reports ::
  "(string \<Rightarrow> xml pyres) \<Rightarrow> test_options \<Rightarrow> string \<Rightarrow> tally \<Rightarrow> files \<Rightarrow> files pyres" where
  "write_reports parse opt outdir t fs =
     (let results = concat (xml_results t); results_file = path_join outdir ''results.xml'';
          fs = fs(results_file \<mapsto> results) in
      rbind (if to_html opt \<noteq> [] then
               rmap (\<lambda>ls. fs(to_html opt \<mapsto> concat ls)) (translate_to_html (parse results)) else Inr fs) (\<lambda>fs.
      rbind (if to_text opt \<noteq> [] then
               rmap (\<lambda>ls. fs(to_text opt \<mapsto> concat ls)) (translate_to_text (parse results)) else Inr fs) (\<lambda>fs.
      let fs = (if to_xml opt \<noteq> [] then fs(to_xml opt \<mapsto> results) else fs) in
      Inr (if \<not> to_retain opt then (\<lambda>p. if startswith p (outdir @ ''/'') then None else fs p) else fs))))"

definition exit_code :: "tally \<Rightarrow> nat \<Rightarrow> int" where
  "exit_code t total_tests = (if passed_tests t + skipped_tests t = total_tests then 0 else 1)"

text \<open>How many worker threads there are; \<open>sysconf\<close> is None when the system has no such limit name.\<close>

definition processor_count :: "string \<Rightarrow> int option \<Rightarrow> string \<times> string \<Rightarrow> (string \<Rightarrow> int pyres) \<Rightarrow> int pyres" where
  "processor_count platform sysconf sysctl int_of =
     (if platform = ''win32'' then Inr 1
      else (case sysconf of
          Some n \<Rightarrow> Inr n
        | None \<Rightarrow> if snd sysctl = [] then int_of (fst sysctl) else Inr 1))"

section \<open>The stages in order\<close>

text \<open>The example lists of the example directories and of the enabled modules.\<close>

definition examples_of ::
  "(string \<Rightarrow> (string \<times> string \<times> string) list pyres) \<Rightarrow> (string \<Rightarrow> (string \<times> string) list pyres) \<Rightarrow>
   example_config \<Rightarrow> files \<Rightarrow> string \<Rightarrow> string \<Rightarrow> example_lists \<Rightarrow> example_lists pyres" where
  "examples_of ev3 ev2 ec fs test_dir example_directory ls =
     parse_examples_to_run_file ev3 ev2 ec fs (path_join test_dir ''examples-to-run.py'')
       (path_join (ec_builddir ec) example_directory) example_directory ls"

definition gather_examples ::
  "(string \<Rightarrow> (string \<times> string \<times> string) list pyres) \<Rightarrow> (string \<Rightarrow> (string \<times> string) list pyres) \<Rightarrow>
   example_config \<Rightarrow> files \<Rightarrow> string list \<Rightarrow> string list \<Rightarrow> string list \<Rightarrow> example_lists pyres" where
  "gather_examples ev3 ev2 ec fs directories modules contributed =
     (let module_examples = (\<lambda>top ls m.
            let dir = path_join top (drop (length ''ns3-'') m) in
            examples_of ev3 ev2 ec fs (path_join dir ''test'') (path_join dir ''examples'') ls) in
      rbind (rfold (\<lambda>ls d. let dir = path_join ''examples'' d in examples_of ev3 ev2 ec fs dir dir ls)
               \<lparr>example_tests = [], example_names_original = [], python_tests = []\<rparr> directories) (\<lambda>ls.
      rbind (rfold (module_examples ''src'') ls modules) (\<lambda>ls.
        rfold (module_examples ''contrib'') ls contributed)))"

text \<open>
  \<open>--kinds\<close>: the output of the test runner has been decoded already and is text, which has no
  method \<open>decode\<close>; only bytes that could not be decoded reach it as bytes, and fail again.
\<close>

definition print_kinds :: "(string \<Rightarrow> (int \<times> string) pyres) \<Rightarrow> unit pyres" where
  "print_kinds output =
     rbind (output '' --print-test-type-list'') (\<lambda>(rc, out).
       if utf8_valid out then Inl AttributeError else Inl ValueError)"

definition print_list ::
  "(string \<Rightarrow> (int \<times> string) pyres) \<Rightarrow> test_options \<Rightarrow> string list \<Rightarrow> string list pyres" where
  "print_list output opt example_names =
     rbind (output ('' --print-test-name-list --print-test-types'' @
              (if to_constrain opt \<noteq> [] then '' --test-type='' @ to_constrain opt else []))) (\<lambda>(rc, out).
       if rc \<noteq> 0 then
         Inr [ln (''test.py error:  test-runner return code returned '' @ show_int rc),
              ln (''To debug, try running '' @ CHR 0x27 # ''./waf --run '' @
                quoted ''test-runner --print-test-name-list'' @ [CHR 0x27, py_newline])]
       else
         Inr ([ln ''Test Type    Test Name'', ln ''---------    ---------''] @
           map ln (filter (\<lambda>i. py_strip i \<noteq> []) (sort (split_all py_newline out))) @
           map (\<lambda>n. ln (''example      '' @ n)) (sort example_names) @ [ln []]))"

text \<open>What happens before the worker threads: the run is over, or there are jobs to answer.\<close>

datatype prepared = Ended "int option" "string list" | Dispatched "job list"

definition prepare_run ::
  "(string \<Rightarrow> (int \<times> string) pyres) \<Rightarrow> (string \<Rightarrow> (int \<times> string) pyres) \<Rightarrow> (string \<Rightarrow> bool pyres) \<Rightarrow>
   test_options \<Rightarrow> (string list \<Rightarrow> string list \<Rightarrow> dispatch_env) \<Rightarrow> int option \<Rightarrow>
   (string list \<times> string list) pyres option \<Rightarrow> example_lists pyres \<Rightarrow> prepared pyres" where
  "prepare_run output ask ev opt env waf status examples =
     (case waf of
        Some rc \<Rightarrow> Inr (Ended (Some rc) [])
      | None \<Rightarrow>
          (case status of
             None \<Rightarrow> Inl (SystemExit 2)
           | Some st \<Rightarrow>
               rbind st (\<lambda>(programs, scripts).
               rbind examples (\<lambda>ls.
               rbind (if to_kinds opt then print_kinds output else Inr ()) (\<lambda>_.
               if to_list opt then rmap (Ended None) (print_list output opt (example_names_original ls))
               else rmap Dispatched (dispatch ask ev opt (env programs scripts) ls))))))"

text \<open>What happens after them: the printed text, the files and the exit code.\<close>

definition finish_run ::
  "(string \<Rightarrow> xml pyres) \<Rightarrow> test_options \<Rightarrow> string \<Rightarrow> bool \<Rightarrow> bool \<Rightarrow> bool \<Rightarrow> files \<Rightarrow> nat \<Rightarrow> job list \<Rightarrow>
   (string list \<times> files \<times> int) pyres" where
  "finish_run parse opt outdir enable_tests enable_examples valgrind_found fs total_tests answers =
     rbind (collect opt fs answers) (\<lambda>t.
     rmap (\<lambda>fs'. (printed t @ summary t total_tests @
             final_notes enable_tests enable_examples (to_valgrind opt) valgrind_found, fs', exit_code t total_tests))
       (write_reports parse opt outdir t fs))"

section \<open>Counting\<close>

definition answered :: "job list \<Rightarrow> job list" where
  "answered js = filter (\<lambda>j. \<not> is_break j) js"

definition with_status :: "status \<Rightarrow> job list \<Rightarrow> job list" where
  "with_status st js = filter (\<lambda>j. job_status j = st) (answered js)"

lemma with_status_Cons:
  "with_status st (j # js) =
     (if \<not> is_break j \<and> job_status j = st then j # with_status st js else with_status st js)"
  by (simp add: with_status_def answered_def)

lemma with_status_Nil [simp]: "with_status st [] = []"
  by (simp add: with_status_def answered_def)

text \<open>What the counters and name lists of a tally are after more jobs.\<close>

definition tally_adds :: "tally \<Rightarrow> job list \<Rightarrow> tally \<Rightarrow> bool" where
  "tally_adds t js t' \<longleftrightarrow>
     passed_tests t' = passed_tests t + length (with_status PASS js) \<and>
     failed_tests t' = failed_tests t + length (with_status FAIL js) \<and>
     crashed_tests t' = crashed_tests t + length (with_status CRASH js) \<and>
     valgrind_errors t' = valgrind_errors t + length (with_status VALGR js) \<and>
     skipped_tests t' = skipped_tests t + length (with_status SKIP js) \<and>
     failed_testnames t' = failed_testnames t @ map display_name (with_status FAIL js) \<and>
     crashed_testnames t' = crashed_testnames t @ map display_name (with_status CRASH js) \<and>
     valgrind_testnames t' = valgrind_testnames t @ map display_name (with_status VALGR js) \<and>
     skipped_testnames t' = skipped_testnames t @ map display_name (with_status SKIP js)"

lemma tally_adds_nil: "tally_adds t [] t"
  by (simp add: tally_adds_def)

lemma tally_adds_Cons:
  assumes "collect_step opt fs t j = Inr t1" "tally_adds t1 js t'"
  shows "tally_adds t (j # js) t'"
  using assms
  by (cases "job_status j")
    (auto simp: collect_step_def count_job_def tally_adds_def with_status_Cons Let_def rmap_eq_Inr_iff split: if_splits)

lemma collect_loop_adds: "rfold (collect_step opt fs) t js = Inr t' \<Longrightarrow> tally_adds t js t'"
proof (induction js arbitrary: t)
  case Nil
  then show ?case by (simp add: tally_adds_nil)
next
  case (Cons j js)
  then obtain t1 where "collect_step opt fs t j = Inr t1" "rfold (collect_step opt fs) t1 js = Inr t'"
    by (auto simp: rbind_eq_Inr_iff)
  with Cons.IH show ?case by (blast intro: tally_adds_Cons)
qed

lemma collect_adds: "collect opt fs js = Inr t \<Longrightarrow> tally_adds tally_init js t"
  by (auto simp: collect_def rmap_eq_Inr_iff tally_adds_def dest!: collect_loop_adds)

lemma with_status_split: "length js = length (filter is_break js) + length (with_status PASS js) +
    length (with_status FAIL js) + length (with_status CRASH js) + length (with_status VALGR js) +
    length (with_status SKIP js)"
proof (induction js)
  case Nil
  then show ?case by simp
next
  case (Cons j js)
  then show ?case by (cases "job_status j") (simp_all add: with_status_Cons)
qed

lemma pass_or_skip_all:
  "length (with_status PASS js) + length (with_status SKIP js) = length js \<longleftrightarrow>
     (\<forall>j \<in> set js. \<not> is_break j \<and> job_status j \<in> {PASS, SKIP})"
proof -
  have "length (with_status PASS js) + length (with_status SKIP js) =
      length (filter (\<lambda>j. \<not> is_break j \<and> job_status j \<in> {PASS, SKIP}) js)"
    by (induction js) (auto simp: with_status_Cons)
  moreover have "length (filter P js) = length js \<longleftrightarrow> (\<forall>j \<in> set js. P j)" for P :: "job \<Rightarrow> bool"
    by (metis filter_True filter_id_conv length_filter_less less_irrefl)
  ultimately show ?thesis by simp
qed

text \<open>
  C15: the counters of a run add up: every answered job is counted exactly once under its status,
  jobs broken off by an interrupt are counted nowhere, the lists name the jobs of their status, and
  the exit code is 0 exactly when every dispatched job was answered with PASS or SKIP.
\<close>

theorem collect_counts:
  assumes "collect opt fs js = Inr t"
  shows "passed_tests t + failed_tests t + crashed_tests t + valgrind_errors t + skipped_tests t +
      length (filter is_break js) = length js \<and>
    failed_testnames t = map display_name (with_status FAIL js) \<and>
    skipped_testnames t = map display_name (with_status SKIP js) \<and>
    exit_code t (length js) =
      (if \<forall>j \<in> set js. \<not> is_break j \<and> job_status j \<in> {PASS, SKIP} then 0 else 1)"
  using collect_adds [OF assms] with_status_split [of js] pass_or_skip_all [of js]
  by (simp add: tally_adds_def tally_init_def exit_code_def)

definition sample_jobs :: "job list" where
  "sample_jobs = [set_is_example True (set_display_name ''a'' Job),
     set_is_skip True (set_display_name ''b'' Job),
     set_returncode 1 (set_tmp_file_name ''t.xml'' (set_display_name ''c'' Job))]"

theorem collect_counts_witness:
  "\<exists>t. collect test_option_defaults [''t.xml'' \<mapsto> ''<Test/>''] sample_jobs = Inr t \<and>
     exit_code t 3 = 1 \<and> failed_testnames t = [''c'']"
proof -
  have "\<not> isl (collect test_option_defaults [''t.xml'' \<mapsto> ''<Test/>''] sample_jobs)"
    by (simp add: collect_def collect_step_def sample_jobs_def job_setters Job_def suite_xml_def
        read_file_def Let_def)
  then obtain t where t: "collect test_option_defaults [''t.xml'' \<mapsto> ''<Test/>''] sample_jobs = Inr t"
    by (cases "collect test_option_defaults [''t.xml'' \<mapsto> ''<Test/>''] sample_jobs") auto
  show ?thesis
    using collect_counts [OF t] t
    by (auto simp: sample_jobs_def job_setters Job_def job_status_def with_status_def answered_def
        eval_nat_numeral)
qed

section \<open>The whole run\<close>

lemma list_all2_mset_map:
  assumes "list_all2 R xs ys" "mset xs = mset zs" "\<And>x y. x \<in> set zs \<Longrightarrow> R x y \<Longrightarrow> y = f x"
  shows "mset ys = mset (map f zs)"
proof -
  have "set xs = set zs" using assms(2) by (metis set_mset_mset)
  then have "map (\<lambda>y. y) ys = map f xs"
    using list_all2_map_eq [OF assms(1), of "\<lambda>y. y" f] assms(3) by blast
  then show ?thesis using assms(2) by simp
qed

text \<open>The answer of an uninterrupted run to a job.\<close>

definition final_job :: "(job \<Rightarrow> job pyres) \<Rightarrow> job \<Rightarrow> job" where
  "final_job run j = (if is_skip j then j else projr (run j))"

lemma uninterrupted_answers:
  assumes "reachable run js n s" "\<forall>j \<in> set js. \<not> is_break j" "\<forall>j \<in> set js. \<not> isl (run j)"
    and "pc s = Finished" "\<not> thread_exit s"
  shows "mset (collected s) = mset (map (final_job run) js)"
proof -
  obtain order where order: "mset order = mset js" "list_all2 (outcome run False) order (collected s)"
    using finished_answers [OF assms(1-4)] assms(5) by auto
  show ?thesis
    by (rule list_all2_mset_map [OF order(2,1)]) (auto simp: outcome_def final_job_def split: if_splits)
qed

lemma dispatch_no_break:
  assumes "dispatch ask ev opt de ls = Inr js" "j \<in> set js"
  shows "\<not> is_break j"
proof -
  have suite: "\<not> is_break (suite_job opt de t)" for t
    by (simp add: suite_job_def Let_def job_setters Job_def)
  have base: "\<not> is_break (example_base de n c b (set_is_pyexample p (set_is_example e Job)))"
    "\<not> is_break (example_base de n c b (set_is_pyexample p Job))"
    "\<not> is_break (set_is_skip k (example_base de n c b (set_is_pyexample p (set_is_example e Job))))" for n c b p e k
    by (simp_all add: example_base_def job_setters Job_def)
  have concat: "\<forall>j \<in> set (concat jss). \<not> is_break j"
    if "rmapM f xs = Inr jss" "\<And>x js. f x = Inr js \<Longrightarrow> \<forall>j \<in> set js. \<not> is_break j" for f :: "'x \<Rightarrow> job list pyres" and xs jss
    using that by (induction xs arbitrary: jss) (auto simp: rbind_eq_Inr_iff rmap_eq_Inr_iff)
  have ex: "\<forall>j \<in> set js. \<not> is_break j" if "example_job_list ev opt de e = Inr js" for e js
    using that base by (auto simp: example_job_list_def rbind_eq_Inr_iff Let_def split: prod.splits if_splits)
  have py: "\<forall>j \<in> set js. \<not> is_break j" if "python_job_list ev opt de e = Inr js" for e js
    using that base set_is_skip_def
    by (auto simp: python_job_list_def rbind_eq_Inr_iff Let_def split: prod.splits if_splits)
  have "\<forall>j \<in> set js. \<not> is_break j" if "example_jobs ev opt de ts = Inr js" for ts js
    using that base concat [OF _ ex]
    by (fastforce simp: example_jobs_def single_example_jobs_def rmap_eq_Inr_iff Let_def split: if_splits option.splits)
  moreover have "\<forall>j \<in> set js. \<not> is_break j" if "python_jobs ev opt de ts = Inr js" for ts js
    using that base concat [OF _ py]
    by (fastforce simp: python_jobs_def rmap_eq_Inr_iff split: if_splits)
  ultimately show ?thesis
    using assms suite by (auto simp: dispatch_def rbind_eq_Inr_iff suite_jobs_def)
qed

lemma job_run_total:
  assumes "\<forall>cmd dir. \<not> isl (popen cmd dir)"
  obtains rc et where "job_run cf popen j = Inr (set_elapsed_time et (set_returncode rc j))"
proof -
  have run: "\<exists>r. run_job_synchronously cf popen c d v py b = Inr r" for c d v py b
    using assms by (auto simp: run_job_synchronously_def rbind_eq_Inr_iff Let_def isl_def)
      (metis sum.collapse(2) sum.disc(2) surjective sum.exhaust_sel)
  show ?thesis
    using run [of "shell_command j" "cwd j" "opt_valgrind cf" "is_pyexample j" "build_path j"]
      run [of "shell_command j @ '' --xml --tempdir='' @ tempdir j @ '' --out='' @ tmp_file_name j @ '' '' @
        (if opt_update_data cf then ''--update-data'' else [])" "cwd j" "opt_valgrind cf" False "[]"] that
    by (cases "is_example j \<or> is_pyexample j") (auto simp: job_run_def rmap_def)
qed

lemma final_job_ok:
  assumes "\<forall>cmd dir. \<not> isl (popen cmd dir)" "\<not> is_break j"
  shows "\<not> is_break (final_job (job_run cf popen) j)"
    "job_status (final_job (job_run cf popen) j) \<in> {PASS, SKIP} \<longleftrightarrow>
       is_skip j \<or> returncode (final_job (job_run cf popen) j) = 0"
  using assms(2)
  by (auto simp: final_job_def job_status_def job_setters intro: job_run_total [OF assms(1), of cf j])

text \<open>
  What it means for a job to pass, in terms of the process the system runs for it: the command line of the job, run
  in its directory, returns 0 and writes text that can be decoded to both of its outputs.
\<close>

definition job_line :: "run_config \<Rightarrow> job \<Rightarrow> string" where
  "job_line cf j =
     (if is_example j \<or> is_pyexample j
      then job_cmd cf (shell_command j) (opt_valgrind cf) (is_pyexample j) (build_path j)
      else job_cmd cf
             (shell_command j @ '' --xml --tempdir='' @ tempdir j @ '' --out='' @ tmp_file_name j @ '' '' @
              (if opt_update_data cf then ''--update-data'' else [])) (opt_valgrind cf) False [])"

definition process_passes :: "proc_result pyres \<Rightarrow> bool" where
  "process_passes r \<longleftrightarrow> (case r of Inl e \<Rightarrow> False | Inr p \<Rightarrow> p_code p = 0 \<and> utf8_valid (p_out p) \<and> utf8_valid (p_err p))"

lemma final_job_process:
  assumes "\<forall>cmd dir. \<not> isl (popen cmd dir)" "\<not> is_skip j"
  shows "returncode (final_job (job_run cf popen) j) = 0 \<longleftrightarrow> process_passes (popen (job_line cf j) (cwd j))"
proof -
  obtain p where p: "popen (job_line cf j) (cwd j) = Inr p"
    using assms(1) by (metis isl_def sum.exhaust)
  have "job_run cf popen j =
      Inr (set_elapsed_time (p_time p)
        (set_returncode (if utf8_valid (p_out p) \<and> utf8_valid (p_err p) then p_code p else 1) j))"
    using p by (auto simp: job_run_def job_line_def run_job_synchronously_def Let_def)
  then show ?thesis
    using assms(2) by (simp add: final_job_def p process_passes_def job_setters)
qed

text \<open>
  C1: the exit code of a run that is not interrupted, for every schedule of the worker threads: it
  is 0 exactly when every dispatched job was to be skipped or the process of its command line
  returned 0 and wrote text that can be decoded. The hypotheses are that processes can be started,
  that the run has come to its end, and that the results of the suites could be read.
\<close>

theorem run_exit_code:
  assumes "dispatch ask ev opt de ls = Inr js" "\<forall>cmd dir. \<not> isl (popen cmd dir)"
    and "reachable (job_run cf popen) js n s" "pc s = Finished" "\<not> thread_exit s"
    and "collect opt fs (collected s) = Inr t"
  shows "exit_code t (length js) =
    (if \<forall>j \<in> set js. is_skip j \<or> process_passes (popen (job_line cf j) (cwd j)) then 0 else 1)"
proof -
  have nb: "\<forall>j \<in> set js. \<not> is_break j" using dispatch_no_break [OF assms(1)] by blast
  have total: "\<forall>j \<in> set js. \<not> isl (job_run cf popen j)"
    by (metis isl_def job_run_total [OF assms(2)] sum.distinct(1))
  have ms: "mset (collected s) = mset (map (final_job (job_run cf popen)) js)"
    by (rule uninterrupted_answers [OF assms(3) nb total assms(4,5)])
  then have set: "set (collected s) = final_job (job_run cf popen) ` set js"
    and len: "length (collected s) = length js"
    by (metis set_map set_mset_mset) (metis ms length_map size_mset)
  have "exit_code t (length (collected s)) =
      (if \<forall>j \<in> set (collected s). \<not> is_break j \<and> job_status j \<in> {PASS, SKIP} then 0 else 1)"
    using collect_adds [OF assms(6)] pass_or_skip_all [of "collected s"]
    by (simp add: tally_adds_def tally_init_def exit_code_def)
  moreover have "is_skip j \<or> returncode (final_job (job_run cf popen) j) = 0 \<longleftrightarrow>
      is_skip j \<or> process_passes (popen (job_line cf j) (cwd j))" for j
    using final_job_process [OF assms(2)] by blast
  ultimately show ?thesis
    using nb final_job_ok [OF assms(2)] by (simp add: set len)
qed

text \<open>
  C14: what a run reports does not depend on the scheduling of the worker threads or on their
  number: two complete, uninterrupted runs of the same jobs print the same summary, with the same
  counts and the same lists of names, and have the same exit code.
\<close>

theorem run_deterministic:
  assumes "\<forall>j \<in> set js. \<not> is_break j" "\<forall>j \<in> set js. \<not> isl (run j)"
    and "reachable run js n s" "pc s = Finished" "\<not> thread_exit s"
    and "reachable run js n' s'" "pc s' = Finished" "\<not> thread_exit s'"
    and "collect opt fs (collected s) = Inr t" "collect opt fs (collected s') = Inr t'"
  shows "summary t (length js) = summary t' (length js) \<and> exit_code t (length js) = exit_code t' (length js)"
proof -
  have ms: "mset (collected s) = mset (collected s')"
    using uninterrupted_answers [OF assms(3,1,2,4,5)] uninterrupted_answers [OF assms(6,1,2,7,8)] by simp
  then have ws: "mset (with_status st (collected s)) = mset (with_status st (collected s'))" for st
    by (simp add: with_status_def answered_def)
  then have len: "length (with_status st (collected s)) = length (with_status st (collected s'))" for st
    by (metis size_mset)
  have "mset (map display_name (with_status st (collected s))) =
      mset (map display_name (with_status st (collected s')))" for st
    using ws by simp
  then have sort: "sort (map display_name (with_status st (collected s))) =
      sort (map display_name (with_status st (collected s')))" for st
    by (metis sorted_list_of_multiset_mset)
  have nil: "map display_name (with_status st (collected s)) = [] \<longleftrightarrow>
      map display_name (with_status st (collected s')) = []" for st
    using len [of st] by (metis length_0_conv length_map)
  have names: "summary_names title (map display_name (with_status st (collected s))) =
      summary_names title (map display_name (with_status st (collected s')))" for title st
    unfolding summary_names_def sort nil by (rule refl)
  show ?thesis
    using collect_adds [OF assms(9)] collect_adds [OF assms(10)]
    by (simp add: tally_adds_def tally_init_def summary_def exit_code_def len names)
qed

text \<open>A job whose results can be collected: it leaves a file where the collector expects one.\<close>

definition collectable :: "files \<Rightarrow> job \<Rightarrow> bool" where
  "collectable fs j \<longleftrightarrow> is_break j \<or> is_example j \<or> is_pyexample j \<or> is_skip j \<or>
     returncode j \<notin> {0, 1, 2} \<or> fs (tmp_file_name j) \<noteq> None"

lemma collect_step_ok: "(\<exists>t'. collect_step opt fs t j = Inr t') \<longleftrightarrow> collectable fs j"
  by (auto simp: collect_step_def collectable_def suite_xml_def read_file_def Let_def split: option.split)

lemma collect_loop_ok: "(\<exists>t'. rfold (collect_step opt fs) t js = Inr t') \<longleftrightarrow> (\<forall>j \<in> set js. collectable fs j)"
proof (induction js arbitrary: t)
  case Nil
  then show ?case by simp
next
  case (Cons j js)
  show ?case
    using collect_step_ok [of opt fs t j] Cons.IH by (auto simp: rbind_eq_Inr_iff)
qed

lemma collect_ok: "(\<exists>t. collect opt fs js = Inr t) \<longleftrightarrow> (\<forall>j \<in> set js. collectable fs j)"
  using collect_loop_ok [of opt fs tally_init js] by (auto simp: collect_def rmap_eq_Inr_iff)

text \<open>
  Collecting the results fails exactly when a test suite was run, returned 0, 1 or 2, and left
  no results file; crashes, skipped tests, examples and broken off jobs never stop the report.
\<close>

theorem collect_raises:
  "isl (collect opt fs js) \<longleftrightarrow>
     (\<exists>j \<in> set js. \<not> is_break j \<and> job_kind j = ''TestSuite'' \<and> job_status j \<in> {PASS, FAIL, VALGR} \<and>
        fs (tmp_file_name j) = None)"
proof -
  have "isl (collect opt fs js) \<longleftrightarrow> \<not> (\<exists>t. collect opt fs js = Inr t)"
    by (cases "collect opt fs js") auto
  then show ?thesis
    unfolding collect_ok by (auto simp: collectable_def job_kind_def job_status_def)
qed

definition sample_de :: dispatch_env where
  "sample_de = \<lparr>de_runner = ''r'', de_outdir = ''o'', de_cwd = ''/w'', de_nsc_enabled = False,
     de_enable_examples = True, de_python_bindings = Inl NameError,
     de_programs = [(''ns3-udp-debug'', ''/b/ns3-udp-debug'')], de_scripts = [], de_examples = sample_config\<rparr>"

definition sample_options :: test_options where
  "sample_options = test_option_defaults\<lparr>to_example := ''udp''\<rparr>"

definition no_examples :: example_lists where
  "no_examples = \<lparr>example_tests = [], example_names_original = [], python_tests = []\<rparr>"

text \<open>A test runner that knows one suite, and a process that returns 3.\<close>

definition sample_ask :: "string \<Rightarrow> (int \<times> string) pyres" where
  "sample_ask cmd = Inr (0, ''tcp'' @ [py_newline])"

definition sample_popen :: "string \<Rightarrow> string \<Rightarrow> proc_result pyres" where
  "sample_popen cmd dir = Inr \<lparr>p_code = 3, p_out = [], p_err = [], p_time = 1\<rparr>"

definition sample_job :: job where
  "sample_job = hd (single_example_jobs sample_options sample_de)"

lemma sample_dispatch:
  "dispatch sample_ask (\<lambda>s. Inr True) sample_options sample_de no_examples = Inr [sample_job]"
  by code_simp

lemma sample_completes:
  assumes "\<forall>j \<in> set js. \<not> is_break j" "\<forall>j \<in> set js. \<not> isl (run j)" "0 < n"
  obtains s where "reachable run js n s" "pc s = Finished" "\<not> thread_exit s"
proof -
  have "reachable run js n (pool_init js n)" "\<not> thread_exit (pool_init js n)"
    by (simp_all add: reachable_def pool_init_def)
  with pool_completes [OF assms] that show ?thesis by metis
qed

theorem run_exit_code_witness:
  "\<exists>s t. reachable (job_run example_config sample_popen) [sample_job] 2 s \<and>
     collect sample_options (\<lambda>_. None) (collected s) = Inr t \<and> exit_code t (length [sample_job]) = 1"
proof -
  let ?run = "job_run example_config sample_popen"
  have total: "\<forall>cmd dir. \<not> isl (sample_popen cmd dir)" by (simp add: sample_popen_def)
  have nb: "\<forall>j \<in> set [sample_job]. \<not> is_break j" by code_simp
  have ok: "\<forall>j \<in> set [sample_job]. \<not> isl (?run j)"
    by (metis isl_def job_run_total [OF total] sum.distinct(1))
  obtain s where s: "reachable ?run [sample_job] 2 s" "pc s = Finished" "\<not> thread_exit s"
    by (rule sample_completes [OF nb ok, of 2]) simp
  have "mset (collected s) = {#final_job ?run sample_job#}"
    using uninterrupted_answers [OF s(1) nb ok s(2,3)] by simp
  then have c: "collected s = [final_job ?run sample_job]" by simp
  have "is_example (final_job ?run sample_job)" by code_simp
  then obtain t where t: "collect sample_options (\<lambda>_. None) (collected s) = Inr t"
    using collect_ok [of sample_options "\<lambda>_. None" "collected s"] by (auto simp: c collectable_def)
  have "\<not> is_skip sample_job" by code_simp
  then have "\<not> (\<forall>j \<in> set [sample_job]. is_skip j \<or> process_passes (sample_popen (job_line example_config j) (cwd j)))"
    by (simp add: sample_popen_def process_passes_def)
  with run_exit_code [OF sample_dispatch total s t] s t show ?thesis by auto
qed

theorem run_deterministic_witness:
  "\<exists>s s' t t'. reachable example_run [set_is_skip True (example_job ''a'')] 1 s \<and>
     reachable example_run [set_is_skip True (example_job ''a'')] 3 s' \<and>
     collect sample_options (\<lambda>_. None) (collected s) = Inr t \<and>
     collect sample_options (\<lambda>_. None) (collected s') = Inr t' \<and> summary t 1 = summary t' 1"
proof -
  let ?js = "[set_is_skip True (example_job ''a'')]"
  have nb: "\<forall>j \<in> set ?js. \<not> is_break j" and ok: "\<forall>j \<in> set ?js. \<not> isl (example_run j)"
    and skip: "\<forall>j \<in> set ?js. is_skip j"
    by (simp_all add: example_job_def job_setters Job_def example_run_def)
  obtain s where s: "reachable example_run ?js 1 s" "pc s = Finished" "\<not> thread_exit s"
    by (rule sample_completes [OF nb ok, of 1]) simp
  obtain s' where s': "reachable example_run ?js 3 s'" "pc s' = Finished" "\<not> thread_exit s'"
    by (rule sample_completes [OF nb ok, of 3]) simp
  have c: "collected u = ?js" if "reachable example_run ?js n u" "pc u = Finished" "\<not> thread_exit u" for u n
    using uninterrupted_answers [OF that(1) nb ok that(2,3)] skip by (simp add: final_job_def)
  have "\<exists>t. collect sample_options (\<lambda>_. None) ?js = Inr t"
    unfolding collect_ok using skip by (simp add: collectable_def)
  then obtain t where "collect sample_options (\<lambda>_. None) (collected s) = Inr t"
      "collect sample_options (\<lambda>_. None) (collected s') = Inr t"
    using c [OF s] c [OF s'] by auto
  with run_deterministic [OF nb ok s s' this] s s' show ?thesis by auto
qed

text \<open>The job that fails the collection has no file.\<close>

theorem collect_raises_witness:
  "isl (collect sample_options (\<lambda>_. None) sample_jobs) \<and>
   \<not> isl (collect sample_options [''t.xml'' \<mapsto> []] sample_jobs)"
  unfolding collect_raises
  by (simp add: sample_jobs_def job_setters Job_def job_kind_def job_status_def)

section \<open>Which jobs are dispatched\<close>

lemma remove_listed_filter:
  assumes "distinct suite_list"
  shows "remove_listed suite_list tests = filter (\<lambda>t. t \<notin> set tests) suite_list"
  using assms
proof (induction tests arbitrary: suite_list)
  case Nil
  then show ?case by (simp add: remove_listed_def)
next
  case (Cons t ts)
  have "remove_listed suite_list (t # ts) = remove_listed (filter (\<lambda>x. x \<noteq> t) suite_list) ts"
  proof -
    have "(if t \<in> set suite_list then remove1 t suite_list else suite_list) = filter (\<lambda>x. x \<noteq> t) suite_list"
      using Cons.prems by (auto simp: distinct_remove1_removeAll removeAll_filter_not_eq filter_id_conv
          intro!: filter_True [symmetric] filter_cong)
    then show ?thesis by (simp add: remove_listed_def)
  qed
  with Cons.IH [of "filter (\<lambda>x. x \<noteq> t) suite_list"] Cons.prems show ?case
    by (auto intro: filter_cong)
qed

text \<open>
  Performance tests run only on request: without a single suite and without the performance
  kind, the suites run are those the test runner lists for the kind, in its order, less all that it
  lists as performance tests.
\<close>

theorem no_performance_tests:
  assumes "no_single_test opt" "to_constrain opt \<noteq> ''performance''"
    and "ask (if to_constrain opt \<noteq> [] then '' --print-test-name-list --test-type='' @ to_constrain opt
              else '' --print-test-name-list'') = Inr (rc, suites)"
    and "ask '' --print-test-name-list --test-type=performance'' = Inr (rc', perf)"
    and "distinct (split_all py_newline suites)"
  shows "suites_to_run ask opt =
    Inr (filter (\<lambda>t. t \<notin> set (split_all py_newline perf)) (split_all py_newline suites))"
proof -
  have "select_suites ask opt = Inr (suites, False)"
    using assms(1,3) by (auto simp: select_suites_def no_single_test_def)
  then show ?thesis
    using assms(2,4) remove_listed_filter [OF assms(5)] by (simp add: suites_to_run_def Let_def)
qed

theorem no_performance_tests_witness:
  "suites_to_run (\<lambda>args. Inr (0, if args = '' --print-test-name-list'' then ''a'' @ py_newline # ''slow'' else ''slow''))
     test_option_defaults = Inr [''a'']"
proof -
  let ?ask = "\<lambda>args. Inr (0 :: int, if args = '' --print-test-name-list'' then ''a'' @ py_newline # ''slow'' else ''slow'')"
  have opt: "no_single_test test_option_defaults" "to_constrain test_option_defaults \<noteq> ''performance''"
    by code_simp+
  have ask: "?ask (if to_constrain test_option_defaults \<noteq> [] then '' --print-test-name-list --test-type='' @
      to_constrain test_option_defaults else '' --print-test-name-list'') = Inr (0, ''a'' @ py_newline # ''slow'')"
    "?ask '' --print-test-name-list --test-type=performance'' = Inr (0, ''slow'')"
    by (simp_all add: test_option_defaults_def)
  have s: "split_all py_newline (''a'' @ py_newline # ''slow'') = [''a'', ''slow'']"
    "split_all py_newline ''slow'' = [''slow'']" by code_simp+
  show ?thesis
    using no_performance_tests [OF opt ask] s by simp
qed

text \<open>
  The job of a test suite is skipped exactly in the two documented cases: under valgrind if it
  is on the valgrind list, and without the network simulation cradle if it needs it; it runs that
  suite and no other, and writes its results to a file named after it in the output directory.
\<close>

lemma suite_job_fields:
  "is_skip (suite_job opt de test) = (to_valgrind opt \<and> test \<in> set core_valgrind_skip_tests \<or>
      \<not> de_nsc_enabled de \<and> test \<in> set core_nsc_missing_skip_tests) \<and>
   job_kind (suite_job opt de test) = ''TestSuite'' \<and> display_name (suite_job opt de test) = test \<and>
   tmp_file_name (suite_job opt de test) = path_join (de_outdir de) (test @ ''.xml'') \<and>
   shell_command (suite_job opt de test) = path_join ''utils'' (de_runner de @ '' --test-name='' @ test @
     (if to_multiple opt then [] else '' --stop-on-failure'') @ '' --fullness='' @
     (if to_fullness opt = [] then ''QUICK'' else py_upper (to_fullness opt)))"
  by (simp add: suite_job_def Let_def job_setters Job_def job_kind_def)

text \<open>The job of a listed example.\<close>

definition listed_example_job ::
  "(string \<Rightarrow> bool) \<Rightarrow> test_options \<Rightarrow> dispatch_env \<Rightarrow> string \<times> string \<times> string \<times> string \<Rightarrow> job" where
  "listed_example_job holds opt de e =
     (case e of (name, test, do_run, do_valgrind_run) \<Rightarrow>
      let job = example_base de name test (to_buildpath opt) (set_is_pyexample False (set_is_example True Job))
      in if to_valgrind opt \<and> \<not> holds do_valgrind_run then set_is_skip True job else job)"

lemma rmapM_concat_filter:
  "(\<And>x. x \<in> set xs \<Longrightarrow> f x = Inr (if P x then [g x] else [])) \<Longrightarrow>
     rmap concat (rmapM f xs) = Inr (map g (filter P xs))"
proof -
  assume "\<And>x. x \<in> set xs \<Longrightarrow> f x = Inr (if P x then [g x] else [])"
  then have "rmapM f xs = Inr (map (\<lambda>x. if P x then [g x] else []) xs)" by (rule rmapM_total)
  moreover have "concat (map (\<lambda>x. if P x then [g x] else []) xs) = map g (filter P xs)"
    by (induction xs) auto
  ultimately show ?thesis by simp
qed

text \<open>
  Without a single test, and with the kind left open or set to example, the example jobs are
  exactly the listed examples whose program was built and whose condition holds, in order; under
  valgrind those whose valgrind condition fails are dispatched as skipped; with any other kind,
  or with examples disabled, there are none.
\<close>

theorem examples_dispatched:
  assumes "no_single_test opt" "\<forall>c. ev c = Inr (holds c)"
  shows "example_jobs ev opt de tests = Inr
    (if (to_constrain opt = [] \<or> to_constrain opt = ''example'') \<and> de_enable_examples de
     then map (listed_example_job holds opt de)
       (filter (\<lambda>(name, test, do_run, _). dict_has (de_programs de) (test_program test) \<and> holds do_run) tests)
     else [])"
proof -
  have "example_job_list ev opt de e = Inr
      (if (case e of (name, test, do_run, _) \<Rightarrow> dict_has (de_programs de) (test_program test) \<and> holds do_run)
       then [listed_example_job holds opt de e] else [])" for e
    using assms(2) by (auto simp: example_job_list_def listed_example_job_def Let_def split: prod.split)
  then have "rmap concat (rmapM (example_job_list ev opt de) tests) = Inr (map (listed_example_job holds opt de)
      (filter (\<lambda>(name, test, do_run, _). dict_has (de_programs de) (test_program test) \<and> holds do_run) tests))"
    by (rule rmapM_concat_filter)
  with assms(1) show ?thesis by (simp add: example_jobs_def)
qed

theorem examples_dispatched_witness:
  "rmap (map is_skip) (example_jobs (\<lambda>c. Inr (c = ''True'')) (test_option_defaults\<lparr>to_valgrind := True\<rparr>) sample_de
     [(''a'', ''x/ns3-udp-debug --n=1'', ''True'', ''False''), (''b'', ''x/other'', ''True'', ''True''),
      (''c'', ''x/ns3-udp-debug'', ''False'', ''True'')]) = Inr [True]"
proof -
  let ?opt = "test_option_defaults\<lparr>to_valgrind := True\<rparr>"
  have o: "no_single_test ?opt" by code_simp
  have h: "\<forall>c. (\<lambda>c. Inr (c = ''True'')) c = (Inr ((\<lambda>c. c = ''True'') c) :: bool pyres)" by simp
  have p: "test_program ''x/ns3-udp-debug --n=1'' = ''ns3-udp-debug''" "test_program ''x/other'' = ''other''"
    by code_simp+
  show ?thesis
    using examples_dispatched [OF o h, of sample_de]
    by (simp add: sample_de_def p dict_has_def listed_example_job_def test_option_defaults_def Let_def job_setters)
qed

section \<open>The results file\<close>

text \<open>The tags of a text, and whether every element is closed by its own end tag.\<close>

function tags_of :: "string \<Rightarrow> string list" where
  "tags_of [] = []"
| "tags_of (c # s) =
     (if c = CHR ''<'' then takeWhile (\<lambda>x. x \<noteq> CHR ''>'') s # tags_of (tl (dropWhile (\<lambda>x. x \<noteq> CHR ''>'') s))
      else tags_of s)"
  by pat_completeness auto
termination
proof (relation "measure length")
  show "(tl (dropWhile (\<lambda>x. x \<noteq> CHR ''>'') s), c # s) \<in> measure length" for c s
    using length_dropWhile_le [of "\<lambda>x. x \<noteq> CHR ''>''" s] by (simp add: le_imp_less_Suc)
qed simp_all

fun nested :: "string list \<Rightarrow> string list \<Rightarrow> bool" where
  "nested stack [] = (stack = [])"
| "nested stack (t # ts) =
     (if startswith t ''?'' \<or> (t \<noteq> [] \<and> last t = CHR ''/'') then nested stack ts
      else if startswith t ''/'' then
        (case stack of [] \<Rightarrow> False | s # stack' \<Rightarrow> s = tl t \<and> nested stack' ts)
      else nested (takeWhile (\<lambda>c. c \<noteq> CHR '' '') t # stack) ts)"

lemma tags_text: "CHR ''<'' \<notin> set a \<Longrightarrow> tags_of (a @ s) = tags_of s"
  by (induction a) auto

lemma tags_tag: "CHR ''>'' \<notin> set a \<Longrightarrow> tags_of (CHR ''<'' # a @ CHR ''>'' # s) = a # tags_of s"
proof -
  assume "CHR ''>'' \<notin> set a"
  then have "takeWhile (\<lambda>x. x \<noteq> CHR ''>'') (a @ CHR ''>'' # s) = a"
    "dropWhile (\<lambda>x. x \<noteq> CHR ''>'') (a @ CHR ''>'' # s) = CHR ''>'' # s"
    by (auto intro!: takeWhile_append_stop dropWhile_append_stop)
  then show ?thesis by simp
qed

text \<open>Texts that leave the stack of open elements as it was, and texts that no context repairs.\<close>

definition balanced :: "string \<Rightarrow> bool" where
  "balanced s \<longleftrightarrow> (\<forall>stack r. nested stack (tags_of (s @ r)) = nested stack (tags_of r))"

definition broken :: "string \<Rightarrow> bool" where
  "broken s \<longleftrightarrow> (\<forall>stack r. \<not> nested stack (tags_of (s @ r)))"

definition plain_name :: "job \<Rightarrow> bool" where
  "plain_name j \<longleftrightarrow> CHR ''<'' \<notin> set (display_name j)"

definition crashed_suite :: "job \<Rightarrow> bool" where
  "crashed_suite j \<longleftrightarrow> \<not> is_break j \<and> job_kind j = ''TestSuite'' \<and> job_status j = CRASH"

lemma name_line: "CHR ''<'' \<notin> set n \<Longrightarrow>
    tags_of (ln (''  <Name>'' @ n @ ''</Name>'') @ r) = ''Name'' # ''/Name'' # tags_of r"
  by (simp add: ln_def py_newline_def tags_text)

lemma digits_no_tag: "CHR ''<'' \<notin> set (show_fixed3 r)" "CHR ''>'' \<notin> set (show_fixed3 r)"
proof -
  have "\<not> py_digit (CHR ''<'')" "\<not> py_digit (CHR ''>'')" by (simp_all add: py_digit_def)
  then have "CHR ''<'' \<notin> set (show_nat n)" "CHR ''>'' \<notin> set (show_nat n)" for n
    using show_nat_digits by blast+
  then show "CHR ''<'' \<notin> set (show_fixed3 r)" "CHR ''>'' \<notin> set (show_fixed3 r)"
    by (simp_all add: show_fixed3_def Let_def)
qed

lemma time_line: "tags_of (ln (''  <Time real='' @ quoted (show_fixed3 r) @ ''/>'') @ s) =
    (''Time real='' @ quoted (show_fixed3 r) @ ''/'') # tags_of s"
proof -
  have "CHR ''>'' \<notin> set (''Time real='' @ quoted (show_fixed3 r) @ ''/'')"
    using digits_no_tag by (simp add: quoted_def)
  from tags_tag [OF this, of "py_newline # s"] show ?thesis
    by (simp add: ln_def py_newline_def del: tags_of.simps(2)) (simp add: py_newline_def)
qed

lemma result_line: "tags_of (ln (''  <Result>'' @ show_status st @ ''</Result>'') @ r) = ''Result'' # ''/Result'' # tags_of r"
  by (cases st) (simp_all add: ln_def py_newline_def show_status_def)

lemma open_line: "tags_of (ln ''<Example>'' @ r) = ''Example'' # tags_of r"
  "tags_of (ln ''</Example>'' @ r) = ''/Example'' # tags_of r"
  "tags_of (ln ''<Test>'' @ r) = ''Test'' # tags_of r" "tags_of (ln ''</Test>'' @ r) = ''/Test'' # tags_of r"
  "tags_of (ln ''<Results>'' @ r) = ''Results'' # tags_of r" "tags_of (ln ''</Results>'' @ r) = ''/Results'' # tags_of r"
  "tags_of (ln ''  <Result>SKIP</Result>'' @ r) = ''Result'' # ''/Result'' # tags_of r"
  "tags_of (ln ''  <Result>CRASH</Suite>'' @ r) = ''Result'' # ''/Suite'' # tags_of r"
  by (simp_all add: ln_def py_newline_def)

declare tags_of.simps(2) [simp del]

lemma example_tags:
  assumes "plain_name j"
  shows "tags_of (concat (example_xml j) @ r) =
    ''Example'' # ''Name'' # ''/Name'' # ''Result'' # ''/Result'' #
     (''Time real='' @ quoted (show_fixed3 (elapsed_time j)) @ ''/'') # ''/Example'' # tags_of r"
  unfolding example_xml_def concat.simps append_Nil2 append_assoc
  by (simp only: open_line name_line [OF assms [unfolded plain_name_def]] result_line time_line)

lemma example_balanced: "plain_name j \<Longrightarrow> balanced (concat (example_xml j))"
  by (simp add: balanced_def example_tags)

lemma entry_tags:
  assumes "plain_name j"
  shows "tags_of (concat [ln ''<Test>'', ln (''  <Name>'' @ display_name j @ ''</Name>''),
      ln ''  <Result>SKIP</Result>'', ln ''</Test>''] @ r) =
    ''Test'' # ''Name'' # ''/Name'' # ''Result'' # ''/Result'' # ''/Test'' # tags_of r"
    and "tags_of (concat [ln ''<Test>'', ln (''  <Name>'' @ display_name j @ ''</Name>''),
      ln ''  <Result>CRASH</Suite>'', ln ''</Test>''] @ r) =
    ''Test'' # ''Name'' # ''/Name'' # ''Result'' # ''/Suite'' # ''/Test'' # tags_of r"
  unfolding concat.simps append_Nil2 append_assoc
  by (simp_all only: open_line name_line [OF assms [unfolded plain_name_def]])

text \<open>What one job adds to the results file.\<close>

lemma suite_xml_shape:
  assumes "suite_xml fs j = Inr xs" "plain_name j"
    and "\<forall>s. fs (tmp_file_name j) = Some s \<longrightarrow> balanced s"
  shows "if job_status j = CRASH then broken (concat xs) else balanced (concat xs)"
proof (cases "is_skip j")
  case True
  then have xs: "xs = [ln ''<Test>'', ln (''  <Name>'' @ display_name j @ ''</Name>''),
      ln ''  <Result>SKIP</Result>'', ln ''</Test>'']"
    using assms(1) unfolding suite_xml_def by simp
  have "balanced (concat xs)"
    unfolding balanced_def xs entry_tags(1) [OF assms(2)] by simp
  then show ?thesis using True by (simp add: job_status_def)
next
  case run: False
  show ?thesis
  proof (cases "returncode j = 0 \<or> returncode j = 1 \<or> returncode j = 2")
    case True
    then have "balanced (concat xs)"
      using assms(1,3) run by (auto simp: suite_xml_def read_file_def split: option.splits)
    then show ?thesis using True by (auto simp: job_status_def)
  next
    case False
    then have xs: "xs = [ln ''<Test>'', ln (''  <Name>'' @ display_name j @ ''</Name>''),
        ln ''  <Result>CRASH</Suite>'', ln ''</Test>'']"
      using assms(1) run unfolding suite_xml_def by simp
    have "broken (concat xs)"
      unfolding broken_def xs entry_tags(2) [OF assms(2)] by simp
    then show ?thesis using False run by (simp add: job_status_def)
  qed
qed

lemma balanced_append: "balanced a \<Longrightarrow> balanced b \<Longrightarrow> balanced (a @ b)"
  by (simp add: balanced_def)

lemma broken_append: "balanced a \<or> broken a \<Longrightarrow> broken b \<Longrightarrow> broken (a @ b)" "broken a \<Longrightarrow> broken (a @ b)"
  by (auto simp: balanced_def broken_def)

definition well_formed_inputs :: "files \<Rightarrow> job list \<Rightarrow> bool" where
  "well_formed_inputs fs js \<longleftrightarrow> (\<forall>j \<in> set js. plain_name j \<and>
     (\<forall>s. fs (tmp_file_name j) = Some s \<longrightarrow> balanced s))"

lemma collect_step_shape:
  assumes "collect_step opt fs t j = Inr t'" "plain_name j"
    and "\<forall>s. fs (tmp_file_name j) = Some s \<longrightarrow> balanced s"
  shows "\<exists>xs. concat (xml_results t') = concat (xml_results t) @ xs \<and>
    (if crashed_suite j then broken xs else balanced xs)"
proof (cases "is_break j")
  case True
  with assms(1) show ?thesis
    by (intro exI [of _ "[]"]) (auto simp: collect_step_def crashed_suite_def balanced_def)
next
  case nb: False
  have keep: "xml_results (count_job j t) = xml_results t"
    by (simp add: count_job_def split: status.split)
  show ?thesis
  proof (cases "is_example j \<or> is_pyexample j")
    case True
    with assms(1) nb have "concat (xml_results t') = concat (xml_results t) @ concat (example_xml j)"
      by (auto simp: collect_step_def Let_def keep)
    with True example_balanced [OF assms(2)] show ?thesis
      by (auto simp: crashed_suite_def job_kind_def)
  next
    case False
    with assms(1) nb obtain xs where "suite_xml fs j = Inr xs"
        "concat (xml_results t') = concat (xml_results t) @ concat xs"
      by (auto simp: collect_step_def Let_def keep rmap_eq_Inr_iff)
    with False nb suite_xml_shape [OF this(1) assms(2,3)] show ?thesis
      by (auto simp: crashed_suite_def job_kind_def)
  qed
qed

lemma collect_loop_shape:
  "rfold (collect_step opt fs) t js = Inr t' \<Longrightarrow> well_formed_inputs fs js \<Longrightarrow>
   \<exists>xs. concat (xml_results t') = concat (xml_results t) @ xs \<and>
     (if \<exists>j \<in> set js. crashed_suite j then broken xs else balanced xs)"
proof (induction js arbitrary: t)
  case Nil
  then show ?case by (intro exI [of _ "[]"]) (simp add: balanced_def)
next
  case (Cons j js)
  then obtain t1 where t1: "collect_step opt fs t j = Inr t1" "rfold (collect_step opt fs) t1 js = Inr t'"
    by (auto simp: rbind_eq_Inr_iff)
  obtain xs where xs: "concat (xml_results t1) = concat (xml_results t) @ xs"
      "if crashed_suite j then broken xs else balanced xs"
    using collect_step_shape [OF t1(1)] Cons.prems(2) by (auto simp: well_formed_inputs_def)
  obtain ys where ys: "concat (xml_results t') = concat (xml_results t1) @ ys"
      "if \<exists>j \<in> set js. crashed_suite j then broken ys else balanced ys"
    using Cons.IH [OF t1(2)] Cons.prems(2) by (auto simp: well_formed_inputs_def)
  show ?case
    using xs ys by (intro exI [of _ "xs @ ys"]) (auto intro: balanced_append broken_append split: if_splits)
qed

text \<open>
  C40: the results file is well nested, given test names without tags and well nested results of the
  suites, exactly when no test suite crashed: the entry made up for a crashed suite closes its result
  with \<open></Suite>\<close>, after which no continuation is well nested, so that the requested reports of such a
  run cannot be read back from it.
\<close>

theorem results_nested:
  assumes "collect opt fs js = Inr t" "well_formed_inputs fs js"
  shows "nested [] (tags_of (concat (xml_results t))) \<longleftrightarrow> \<not> (\<exists>j \<in> set js. crashed_suite j)"
proof -
  obtain t1 where t1: "rfold (collect_step opt fs) tally_init js = Inr t1"
      "t = t1\<lparr>xml_results := xml_results t1 @ [ln ''</Results>'']\<rparr>"
    using assms(1) by (auto simp: collect_def rmap_eq_Inr_iff)
  obtain xs where xs: "concat (xml_results t1) = concat (xml_results tally_init) @ xs"
      "if \<exists>j \<in> set js. crashed_suite j then broken xs else balanced xs"
    using collect_loop_shape [OF t1(1) assms(2)] by blast
  have start: "tags_of (concat (xml_results tally_init) @ r) =
      (''?xml version='' @ quoted ''1.0'' @ ''?'') # ''Results'' # tags_of r" for r
    by (simp add: tally_init_def ln_def py_newline_def quoted_def tags_of.simps(2))
  have "tags_of (concat (xml_results t)) =
      (''?xml version='' @ quoted ''1.0'' @ ''?'') # ''Results'' # tags_of (xs @ ln ''</Results>'')"
    using start [of "xs @ ln ''</Results>''"] by (simp add: t1(2) xs(1))
  moreover have "tags_of (ln ''</Results>'') = [''/Results'']"
    using open_line(6) [of "[]"] by simp
  ultimately show ?thesis
    using xs(2) by (cases "\<exists>j \<in> set js. crashed_suite j") (auto simp: broken_def balanced_def)
qed

theorem results_nested_witness:
  "\<exists>t. collect test_option_defaults (\<lambda>_. None) [set_returncode 139 (example_job ''a'')] = Inr t \<and>
     \<not> nested [] (tags_of (concat (xml_results t)))"
proof -
  let ?js = "[set_returncode 139 (example_job ''a'')]"
  have "\<exists>t. collect test_option_defaults (\<lambda>_. None) ?js = Inr t"
    unfolding collect_ok by (simp add: collectable_def job_setters example_job_def)
  then obtain t where t: "collect test_option_defaults (\<lambda>_. None) ?js = Inr t" by blast
  have "well_formed_inputs (\<lambda>_. None) ?js"
    by (simp add: well_formed_inputs_def plain_name_def job_setters example_job_def)
  from results_nested [OF t this] t show ?thesis
    by (auto simp: crashed_suite_def job_kind_def job_status_def job_setters example_job_def Job_def)
qed

text \<open>
  Once waf has run, \<open>--kinds\<close> never gets to its normal end: whatever the test runner answers, the
  run raises instead of printing the kinds, because the text it prints is decoded a second time.
\<close>

theorem kinds_raises:
  assumes "to_kinds opt"
  shows "isl (prepare_run output ask ev opt env None status examples)"
proof -
  have "isl (print_kinds output)"
    by (cases "output '' --print-test-type-list''") (auto simp: print_kinds_def split: prod.split)
  then show ?thesis
    using assms by (cases "print_kinds output")
      (auto simp: prepare_run_def rbind_def split: option.split sum.split prod.split)
qed

theorem kinds_raises_witness:
  "isl (prepare_run sample_ask sample_ask (\<lambda>s. Inr True) (test_option_defaults\<lparr>to_kinds := True\<rparr>)
     (\<lambda>p s. sample_de) None (Some (Inr ([], []))) (Inr no_examples))"
  by (rule kinds_raises) simp

end
