(* ===== verification/WafUtils.thy ===== *)
theory WafUtils
  imports OsPath
begin

text \<open>
  \<open>wutils.py\<close>, which \<open>./waf --run\<close> uses: finding a program among the targets of the build, the
  environment and the argument vector of its process, running it. The objects of the build system
  (targets, options, environment) are records with what the code reads of them; starting a process
  is a parameter. An error carries a short tag instead of the full message.
\<close>

section \<open>Splitting a command line\<close>

text \<open>\<open>shlex.split\<close> in POSIX mode, without comments: the states of the standard library's scanner.\<close>

datatype lex_state = Between | InWord | InQuote char | AfterBackslash "char option"

definition lex_space :: "char \<Rightarrow> bool" where
  "lex_space c \<longleftrightarrow> c = CHR '' '' \<or> c = py_tab \<or> c = CHR 0x0D \<or> c = py_newline"

definition lex_quote :: "char \<Rightarrow> bool" where
  "lex_quote c \<longleftrightarrow> c = CHR 0x27 \<or> c = CHR 0x22"

definition backslash :: char where "backslash = CHR 0x5C"

text \<open>\<open>quoted\<close> tells a quoted empty word from no word.\<close>

fun shlex_scan :: "lex_state \<Rightarrow> bool \<Rightarrow> string \<Rightarrow> string \<Rightarrow> string list pyres" where
  "shlex_scan Between quoted token [] = Inr []"
| "shlex_scan Between quoted token (c # cs) =
     (if lex_space c then shlex_scan Between quoted token cs
      else if c = backslash then shlex_scan (AfterBackslash None) False [] cs
      else if lex_quote c then shlex_scan (InQuote c) False [] cs
      else shlex_scan InWord False [c] cs)"
| "shlex_scan InWord quoted token [] = Inr (if token \<noteq> [] \<or> quoted then [token] else [])"
| "shlex_scan InWord quoted token (c # cs) =
     (if lex_space c then
        (if token \<noteq> [] \<or> quoted then rmap (Cons token) (shlex_scan Between False [] cs) else shlex_scan Between quoted [] cs)
      else if lex_quote c then shlex_scan (InQuote c) quoted token cs
      else if c = backslash then shlex_scan (AfterBackslash None) quoted token cs
      else shlex_scan InWord quoted (token @ [c]) cs)"
| "shlex_scan (InQuote q) quoted token [] = Inl ValueError"
| "shlex_scan (InQuote q) quoted token (c # cs) =
     (if c = q then shlex_scan InWord True token cs
      else if c = backslash \<and> q = CHR 0x22 then shlex_scan (AfterBackslash (Some q)) True token cs
      else shlex_scan (InQuote q) True (token @ [c]) cs)"
| "shlex_scan (AfterBackslash st) quoted token [] = Inl ValueError"
| "shlex_scan (AfterBackslash None) quoted token (c # cs) = shlex_scan InWord quoted (token @ [c]) cs"
| "shlex_scan (AfterBackslash (Some q)) quoted token (c # cs) =
     shlex_scan (InQuote q) quoted (token @ (if c \<noteq> backslash \<and> c \<noteq> q then [backslash] else []) @ [c]) cs"

definition shlex_split :: "string \<Rightarrow> string list pyres" where
  "shlex_split s = shlex_scan Between False [] s"

section \<open>Options and templates\<close>

record waf_program =
  wp_name :: string
  wp_is_ns3_program :: bool
  wp_path :: string
  wp_bld_path :: string
  wp_binary :: string

record waf_env =
  NS3_MODULE_PATH :: "string list"
  NS3_EXECUTABLE_PATH :: "string list"
  VALGRIND :: "string list"
  PYTHON :: "string list"

record waf_context =
  wx_platform :: string
  wx_cwd :: string
  wx_launch_dir :: string
  wx_all_task_gen :: "waf_program list"
  wx_env :: waf_env
  wx_pymoddir :: string
  wx_pyvizdir :: string
  opt_run_valgrind :: bool
  opt_command_template :: string
  opt_cwd_launch :: string
  wx_cwd_launch :: string

definition get_command_template :: "waf_context \<Rightarrow> string list \<Rightarrow> string" where
  "get_command_template wx arguments =
     foldl (\<lambda>cmd arg. cmd @ '' '' @ arg)
       (if opt_command_template wx \<noteq> [] then opt_command_template wx else ''%s'') arguments"

text \<open>\<open>t % (v,)\<close> for a template with \<open>%s\<close> and \<open>%%\<close>; other conversions are not used and taken as errors.\<close>

fun format_s :: "string \<Rightarrow> string list \<Rightarrow> string pyres" where
  "format_s [] vs = (if vs = [] then Inr [] else Inl TypeError)"
| "format_s (c # cs) vs =
     (if c \<noteq> CHR ''%'' then rmap (Cons c) (format_s cs vs)
      else (case cs of
          [] \<Rightarrow> Inl ValueError
        | d # ds \<Rightarrow>
            if d = CHR ''%'' then rmap (Cons d) (format_s ds vs)
            else if d = CHR ''s'' then
              (case vs of [] \<Rightarrow> Inl TypeError | v # vs' \<Rightarrow> rmap (\<lambda>r. v @ r) (format_s ds vs'))
            else Inl ValueError))"

definition double_backslashes :: "string \<Rightarrow> string" where
  "double_backslashes s = concat (map (\<lambda>c. if c = backslash then [backslash, backslash] else [c]) s)"

section \<open>Relative paths\<close>

text \<open>
  The definition for old versions of Python, which splits absolute paths at every slash, and
  \<open>os.path.join\<close> of several components.
\<close>

fun path_join_all :: "string list \<Rightarrow> string" where
  "path_join_all [] = []"
| "path_join_all (p # ps) = foldl path_join p ps"

definition relpath :: "string \<Rightarrow> string \<Rightarrow> string \<Rightarrow> string pyres" where
  "relpath dir path start =
     (if path = [] then Inl ValueError
      else
        (let start_list = split_all (CHR ''/'') (abspath dir start);
             path_list = split_all (CHR ''/'') (abspath dir path);
             i = common_prefix start_list path_list;
             rel_list = replicate (length start_list - i) ''..'' @ drop i path_list
         in Inr (if rel_list = [] then ''.'' else path_join_all rel_list)))"

section \<open>Finding a program\<close>

definition in_launch_dir :: "waf_context \<Rightarrow> waf_program \<Rightarrow> bool" where
  "in_launch_dir wx obj \<longleftrightarrow>
     (let launch_dir = abspath (wx_cwd wx) (wx_launch_dir wx) in
      startswith (wp_path obj) launch_dir \<or> startswith (wp_bld_path obj) launch_dir)"

definition program_names :: "waf_context \<Rightarrow> waf_program \<Rightarrow> string list pyres" where
  "program_names wx obj =
     rmap (\<lambda>rel. [wp_name obj, path_join rel (wp_name obj)])
       (os_relpath (wx_cwd wx) (wp_path obj) (abspath (wx_cwd wx) (wx_launch_dir wx)))"

fun find_in :: "waf_context \<Rightarrow> string \<Rightarrow> waf_program list \<Rightarrow> waf_program pyres" where
  "find_in wx name [] = Inl ValueError"
| "find_in wx name (obj # objs) =
     (if \<not> wp_is_ns3_program obj \<or> \<not> in_launch_dir wx obj then find_in wx name objs
      else rbind (program_names wx obj) (\<lambda>names.
        if name \<in> set names then Inr obj else find_in wx name objs))"

definition find_program :: "waf_context \<Rightarrow> string \<Rightarrow> waf_program pyres" where
  "find_program wx name = find_in wx name (wx_all_task_gen wx)"

section \<open>The environment of a process\<close>

definition pathvar :: "string \<Rightarrow> string" where
  "pathvar platform =
     (if platform = ''linux2'' \<or> platform = ''linux'' then ''LD_LIBRARY_PATH''
      else if platform = ''darwin'' then ''DYLD_LIBRARY_PATH''
      else if platform = ''win32'' \<or> platform = ''cygwin'' then ''PATH''
      else ''LD_LIBRARY_PATH'')"

definition pathsep :: "string \<Rightarrow> string" where
  "pathsep platform = (if platform = ''win32'' then '';'' else '':'')"

text \<open>A list of directories in front of the value of a variable, or alone.\<close>

definition prepend_paths :: "string \<Rightarrow> string list \<Rightarrow> string \<Rightarrow> (string, string) dict \<Rightarrow> (string, string) dict" where
  "prepend_paths sep dirs var env =
     dict_set var (py_join sep (dirs @ (case map_of env var of None \<Rightarrow> [] | Some v \<Rightarrow> [v]))) env"

definition get_proc_env ::
  "waf_context \<Rightarrow> (string, string) dict \<Rightarrow> (string, string) dict option \<Rightarrow> (string, string) dict" where
  "get_proc_env wx environ os_env =
     (let sep = pathsep (wx_platform wx);
          env = foldl (\<lambda>d (k, v). dict_set k v d) environ (case os_env of None \<Rightarrow> [] | Some e \<Rightarrow> e)
      in prepend_paths sep (NS3_EXECUTABLE_PATH (wx_env wx)) ''PATH''
           (prepend_paths sep [wx_pymoddir wx, wx_pyvizdir wx] ''PYTHONPATH''
             (prepend_paths sep (NS3_MODULE_PATH (wx_env wx)) (pathvar (wx_platform wx)) env)))"

section \<open>Running\<close>

text \<open>
  A process is started with an argument vector, an environment and a directory and answers with its
  return code and what it wrote to the error stream (decoded). Starting it may raise.
\<close>

type_synonym popen =
  "string list \<Rightarrow> (string, string) dict \<Rightarrow> string option \<Rightarrow> (int \<times> string) pyres"

text \<open>\<open>for line in stderrdata\<close> takes the characters of the text one by one.\<close>

definition leak_reported :: "string \<Rightarrow> bool" where
  "leak_reported stderrdata \<longleftrightarrow> (\<exists>line\<in>set (map (\<lambda>c. [c]) stderrdata). py_in ''== LEAK SUMMARY'' line)"

text \<open>The name of a signal among the names the module \<open>signal\<close> defines.\<close>

definition signal_name :: "(string \<times> int) list \<Rightarrow> int \<Rightarrow> string option" where
  "signal_name sigs retval =
     (if retval < 0 then
        map_option fst (find (\<lambda>(name, val). length name > 3 \<and> take 3 name = ''SIG'' \<and> name ! 3 \<noteq> CHR ''_'' \<and>
          val = - retval) sigs)
      else None)"

definition check_retval :: "(string \<times> int) list \<Rightarrow> int \<Rightarrow> int pyres" where
  "check_retval sigs retval =
     (if retval \<noteq> 0 then
        (case signal_name sigs retval of
           Some signame \<Rightarrow> Inl (WafError (''terminated with signal '' @ signame))
         | None \<Rightarrow> Inl (WafError (''exited with code '' @ show_int retval)))
      else Inr retval)"

text \<open>Outside valgrind a failing start is turned into a WafError on Windows only.\<close>

definition start_process :: "string \<Rightarrow> (int \<times> string) pyres \<Rightarrow> (int \<times> string) pyres" where
  "start_process platform r =
     (if platform = ''win32'' \<and> r = Inl OSError then Inl (WafError ''raised exception'') else r)"

definition run_argv ::
  "waf_context \<Rightarrow> popen \<Rightarrow> (string \<times> int) list \<Rightarrow> (string, string) dict \<Rightarrow> string list \<Rightarrow> waf_env \<Rightarrow>
   (string, string) dict option \<Rightarrow> string option \<Rightarrow> bool \<Rightarrow> int pyres" where
  "run_argv wx popen sigs environ argv env os_env cwd force_no_valgrind =
     (let proc_env = get_proc_env wx environ os_env in
      if opt_run_valgrind wx \<and> \<not> force_no_valgrind then
        (if opt_command_template wx \<noteq> [] then Inl (WafError ''conflicting options'')
         else if VALGRIND env = [] then Inl (WafError ''valgrind is not installed'')
         else
           rbind (popen ([hd (VALGRIND env), ''--leak-check=full'', ''--show-reachable=yes'', ''--error-exitcode=1''] @ argv)
                    proc_env cwd) (\<lambda>(retval, stderrdata).
             check_retval sigs (if retval = 0 \<and> leak_reported stderrdata then 1 else retval)))
      else rbind (start_process (wx_platform wx) (popen argv proc_env cwd)) (\<lambda>(retval, _). check_retval sigs retval))"

definition found_or_waf_error :: "waf_context \<Rightarrow> string \<Rightarrow> waf_program pyres" where
  "found_or_waf_error wx name =
     (case find_program wx name of Inl ValueError \<Rightarrow> Inl (WafError ''program not found'') | r \<Rightarrow> r)"

definition get_run_program :: "waf_context \<Rightarrow> string \<Rightarrow> string option \<Rightarrow> (string \<times> string list) pyres" where
  "get_run_program wx program_string command_template =
     (if command_template = None \<or> command_template = Some ''%s'' then
        rbind (shlex_split program_string) (\<lambda>argv.
        rbind (py_index argv 0) (\<lambda>program_name.
        rmap (\<lambda>obj. (program_name, wp_binary obj # drop 1 argv)) (found_or_waf_error wx program_name)))
      else
        rbind (found_or_waf_error wx program_string) (\<lambda>obj.
        rbind (format_s (the command_template) [wp_binary obj]) (\<lambda>tmpl.
        rmap (Pair program_string) (shlex_split (double_backslashes tmpl)))))"

definition launch_cwd :: "waf_context \<Rightarrow> string" where
  "launch_cwd wx = (if opt_cwd_launch wx \<noteq> [] then opt_cwd_launch wx else wx_cwd_launch wx)"

definition visual_flag :: "bool \<Rightarrow> string list" where
  "visual_flag visualize =
     (if visualize then [''--SimulatorImplementationType=ns3::VisualSimulatorImpl''] else [])"

definition run_program ::
  "waf_context \<Rightarrow> popen \<Rightarrow> (string \<times> int) list \<Rightarrow> (string, string) dict \<Rightarrow> string \<Rightarrow> waf_env \<Rightarrow>
   string option \<Rightarrow> string option \<Rightarrow> bool \<Rightarrow> int pyres" where
  "run_program wx popen sigs environ program_string env command_template cwd visualize =
     rbind (get_run_program wx program_string command_template) (\<lambda>(_, execvec).
       run_argv wx popen sigs environ (execvec @ visual_flag visualize) env None
         (Some (case cwd of None \<Rightarrow> launch_cwd wx | Some d \<Rightarrow> d)) False)"

definition run_python_program ::
  "waf_context \<Rightarrow> popen \<Rightarrow> (string \<times> int) list \<Rightarrow> (string, string) dict \<Rightarrow> string \<Rightarrow> bool \<Rightarrow> int pyres" where
  "run_python_program wx popen sigs environ program_string visualize =
     rbind (shlex_split program_string) (\<lambda>execvec.
     rbind (py_index (PYTHON (wx_env wx)) 0) (\<lambda>python.
       run_argv wx popen sigs environ ([python] @ execvec @ visual_flag visualize) (wx_env wx) None
         (Some (launch_cwd wx)) False))"

fun uniquify_from :: "'a list \<Rightarrow> 'a list \<Rightarrow> 'a list" where
  "uniquify_from seen [] = []"
| "uniquify_from seen (x # xs) =
     (if x \<notin> set seen then x # uniquify_from (x # seen) xs else uniquify_from seen xs)"

definition uniquify_list :: "'a list \<Rightarrow> 'a list" where
  "uniquify_list seq = uniquify_from [] seq"

section \<open>Command lines\<close>

text \<open>A word between single quotes; a single quote inside is written between double quotes.\<close>

definition quote_char :: "char \<Rightarrow> string" where
  "quote_char c = (if c = CHR 0x27 then [CHR 0x27, CHR 0x22, CHR 0x27, CHR 0x22, CHR 0x27] else [c])"

definition shell_quote :: "string \<Rightarrow> string" where
  "shell_quote w = CHR 0x27 # concat (map quote_char w) @ [CHR 0x27]"

lemma lex_chars [simp]:
  "lex_space (CHR 0x27) = False" "lex_space (CHR 0x22) = False" "lex_quote (CHR 0x27)" "lex_quote (CHR 0x22)"
  "CHR 0x27 \<noteq> backslash" "CHR 0x22 \<noteq> backslash" "lex_space (CHR '' '')"
  by (simp_all add: lex_space_def lex_quote_def backslash_def py_tab_def py_newline_def)
lemma lex_quoted_quote: "shlex_scan (InQuote (CHR 0x27)) q token (CHR 0x27 # CHR 0x22 # CHR 0x27 # CHR 0x22 # CHR 0x27 # cs) = shlex_scan (InQuote (CHR 0x27)) True (token @ [CHR 0x27]) cs"
  by simp
lemma lex_quoted_char: "c \<noteq> CHR 0x27 \<Longrightarrow> shlex_scan (InQuote (CHR 0x27)) q token (c # cs) = shlex_scan (InQuote (CHR 0x27)) True (token @ [c]) cs"
  by simp
lemma lex_quoted:
  "shlex_scan (InQuote (CHR 0x27)) q token (concat (map quote_char w) @ CHR 0x27 # rest) = shlex_scan InWord True (token @ w) rest"
proof (induction w arbitrary: q token)
  case Nil
  show ?case by simp
next
  case (Cons c w)
  then show ?case by (cases "c = CHR 0x27") (simp_all add: quote_char_def lex_quoted_quote lex_quoted_char del: shlex_scan.simps)
qed
lemma lex_word: "shlex_scan Between q token (shell_quote w @ rest) = shlex_scan InWord True w rest"
  using lex_quoted [of False "[]" w rest] by (simp add: shell_quote_def)

lemma lex_words: "shlex_scan Between q token (py_join '' '' (map shell_quote ws)) = Inr ws"
proof (induction ws arbitrary: q token)
  case Nil
  show ?case by simp
next
  case (Cons w ws)
  show ?case
  proof (cases ws)
    case Nil
    then show ?thesis using lex_word [of q token w "[]"] by simp
  next
    case (Cons v vs)
    then have "py_join '' '' (map shell_quote (w # ws)) = shell_quote w @ CHR '' '' # py_join '' '' (map shell_quote ws)"
      by (simp add: py_join_Cons)
    then show ?thesis
      using Cons.IH [of False "[]"] by (simp add: lex_word)
  qed
qed

text \<open>
  C37: a command line of quoted words, whatever characters they contain, runs the program of the
  first word with exactly the other words as its arguments.
\<close>

theorem run_program_words:
  assumes "find_program wx name = Inr obj"
  shows "get_run_program wx (py_join '' '' (map shell_quote (name # args))) None = Inr (name, wp_binary obj # args)"
  using assms lex_words [of False "[]" "name # args"]
  by (simp add: get_run_program_def shlex_split_def found_or_waf_error_def py_index_def py_pos_def)

section \<open>Relative paths\<close>

lemma norm_comps_ok:
  assumes "\<forall>c\<in>set acc. c \<noteq> [] \<and> CHR ''/'' \<notin> set c" and "\<forall>c\<in>set cs. CHR ''/'' \<notin> set c"
  shows "\<forall>c\<in>set (norm_comps a acc cs). c \<noteq> [] \<and> CHR ''/'' \<notin> set c"
  using assms
proof (induction a acc cs rule: norm_comps.induct)
  case (2 absolute acc c cs)
  have tl: "\<forall>x\<in>set (tl acc). x \<noteq> [] \<and> CHR ''/'' \<notin> set x"
    using "2.prems"(1) by (cases acc) simp_all
  have cs: "\<forall>c\<in>set cs. CHR ''/'' \<notin> set c" using "2.prems"(2) by simp
  show ?case
  proof (cases "c = [] \<or> c = ''.''")
    case True
    with "2.IH"(1) [OF True "2.prems"(1) cs] show ?thesis by simp
  next
    case skip: False
    show ?thesis
    proof (cases "c \<noteq> ''..'' \<or> \<not> absolute \<and> acc = [] \<or> acc \<noteq> [] \<and> hd acc = ''..''")
      case True
      have "\<forall>x\<in>set (c # acc). x \<noteq> [] \<and> CHR ''/'' \<notin> set x"
        using "2.prems" skip by simp
      from "2.IH"(2) [OF skip True this cs] show ?thesis using skip True by simp
    next
      case False
      from "2.IH"(3) [OF skip False tl cs] show ?thesis
        by (simp only: norm_comps.simps if_not_P [OF skip] if_not_P [OF False])
    qed
  qed
qed simp

lemma join_not_slash:
  assumes "\<forall>c\<in>set cs. c \<noteq> [] \<and> CHR ''/'' \<notin> set c"
  shows "\<not> startswith (py_join ''/'' cs) ''/''"
proof (cases cs)
  case (Cons c cs')
  with assms obtain x xs where "c = x # xs" "x \<noteq> CHR ''/''" by (cases c) auto
  with Cons show ?thesis by (cases cs') (simp_all add: py_join_Cons)
qed simp

lemma normpath_shape:
  assumes "p \<noteq> []"
  obtains slashes comps where "slashes \<in> {[], ''/'', ''//''}"
    and "normpath p = (if slashes @ py_join ''/'' comps = [] then ''.'' else slashes @ py_join ''/'' comps)"
    and "\<forall>c\<in>set comps. c \<noteq> [] \<and> CHR ''/'' \<notin> set c"
proof
  define slashes :: string where "slashes = (if startswith p ''//'' \<and> \<not> startswith p ''///'' then ''//''
    else if startswith p ''/'' then ''/'' else [])"
  define comps where "comps = norm_comps (slashes \<noteq> []) [] (split_all (CHR ''/'') p)"
  show "slashes \<in> {[], ''/'', ''//''}" by (simp add: slashes_def)
  show "normpath p = (if slashes @ py_join ''/'' comps = [] then ''.'' else slashes @ py_join ''/'' comps)"
    using assms unfolding normpath_def Let_def slashes_def [symmetric] comps_def [symmetric] by (simp only: if_False)
  show "\<forall>c\<in>set comps. c \<noteq> [] \<and> CHR ''/'' \<notin> set c"
    unfolding comps_def by (rule norm_comps_ok) (auto dest: split_all_no_sep)
qed

text \<open>A normalised absolute path, other than the root, splits into a first empty component and its parts.\<close>

lemma abspath_comps:
  assumes "startswith (abspath dir p) ''/''" and "\<not> startswith (abspath dir p) ''//''" and "abspath dir p \<noteq> ''/''"
  shows "split_all (CHR ''/'') (abspath dir p) = [] # path_comps (abspath dir p) \<and>
    path_comps (abspath dir p) \<noteq> [] \<and> (\<forall>c\<in>set (path_comps (abspath dir p)). c \<noteq> [] \<and> CHR ''/'' \<notin> set c)"
proof -
  have "path_join dir p \<noteq> []"
    using assms(1) by (auto simp: abspath_def normpath_def startswith_def)
  then obtain slashes comps where q: "slashes \<in> {[], ''/'', ''//''}"
    "abspath dir p = (if slashes @ py_join ''/'' comps = [] then ''.'' else slashes @ py_join ''/'' comps)"
    and ok: "\<forall>c\<in>set comps. c \<noteq> [] \<and> CHR ''/'' \<notin> set c"
    unfolding abspath_def by (rule normpath_shape)
  with assms(1,2) join_not_slash [OF ok] have eq: "abspath dir p = CHR ''/'' # py_join ''/'' comps"
    by (auto simp: startswith_def split: if_splits)
  with assms(3) have ne: "comps \<noteq> []" by auto
  have "split_all (CHR ''/'') (py_join ''/'' comps) = comps"
    using split_all_join [of comps "CHR ''/''"] ok ne by auto
  then have split: "split_all (CHR ''/'') (abspath dir p) = [] # comps" unfolding eq by simp
  then have "path_comps (abspath dir p) = comps" using ok by (simp add: path_comps_def)
  with split ok ne show ?thesis by simp
qed

lemma path_join_parts:
  assumes "p \<noteq> []" and "last p \<noteq> CHR ''/''" and "\<forall>c\<in>set ws. c \<noteq> [] \<and> CHR ''/'' \<notin> set c"
  shows "foldl path_join p ws = py_join ''/'' (p # ws)"
  using assms
proof (induction ws arbitrary: p)
  case Nil
  show ?case by simp
next
  case (Cons w ws)
  then have w: "w \<noteq> []" "CHR ''/'' \<notin> set w" by simp_all
  then have "\<not> startswith w ''/''" by (cases w) auto
  with Cons.prems have "path_join p w = p @ ''/'' @ w" by (simp add: path_join_def)
  moreover have "last w \<noteq> CHR ''/''" using w by (metis last_in_set)
  then have "last (p @ ''/'' @ w) \<noteq> CHR ''/''" using w(1) by simp
  ultimately show ?case
    using Cons.IH [of "p @ ''/'' @ w"] Cons.prems w by (cases ws) (simp_all add: py_join_Cons)
qed

lemma path_join_all_parts:
  assumes "ws \<noteq> []" and "\<forall>c\<in>set ws. c \<noteq> [] \<and> CHR ''/'' \<notin> set c"
  shows "path_join_all ws = py_join ''/'' ws"
proof (cases ws)
  case (Cons w ws')
  with assms have "w \<noteq> []" "CHR ''/'' \<notin> set w" "\<forall>c\<in>set ws'. c \<noteq> [] \<and> CHR ''/'' \<notin> set c" by simp_all
  moreover from this have "last w \<noteq> CHR ''/''" by (metis last_in_set)
  ultimately show ?thesis using Cons path_join_parts [of w ws'] by simp
qed (use assms in simp)

text \<open>An absolute path other than the root that starts with a single slash.\<close>

definition proper :: "string \<Rightarrow> bool" where
  "proper p \<longleftrightarrow> startswith p ''/'' \<and> \<not> startswith p ''//'' \<and> p \<noteq> ''/''"

text \<open>
  The fallback definition of \<open>relpath\<close> agrees with \<open>os.path.relpath\<close> whenever neither path is
  the root directory.
\<close>

theorem relpath_equiv:
  assumes "proper (abspath dir path)" and "proper (abspath dir start)"
  shows "relpath dir path start = os_relpath dir path start"
proof -
  let ?s = "path_comps (abspath dir start)" and ?p = "path_comps (abspath dir path)"
  note s = abspath_comps [of dir start] and p = abspath_comps [of dir path]
  from assms s p have split: "split_all (CHR ''/'') (abspath dir start) = [] # ?s"
    "split_all (CHR ''/'') (abspath dir path) = [] # ?p"
    and ok: "\<forall>c\<in>set ?s. c \<noteq> [] \<and> CHR ''/'' \<notin> set c" "\<forall>c\<in>set ?p. c \<noteq> [] \<and> CHR ''/'' \<notin> set c"
    by (simp_all add: proper_def)
  define rel where "rel = replicate (length ?s - common_prefix ?s ?p) ''..'' @ drop (common_prefix ?s ?p) ?p"
  have "\<forall>c\<in>set rel. c \<noteq> [] \<and> CHR ''/'' \<notin> set c"
    using ok(2) by (auto simp: rel_def dest: in_set_dropD)
  then have "rel \<noteq> [] \<longrightarrow> path_join_all rel = py_join ''/'' rel"
    using path_join_all_parts by blast
  moreover have "replicate (length ([] # ?s) - Suc (common_prefix ?s ?p)) ''..'' @ drop (Suc (common_prefix ?s ?p)) ([] # ?p) = rel"
    by (simp add: rel_def)
  ultimately show ?thesis
    unfolding relpath_def os_relpath_def Let_def split common_prefix.simps if_P [OF refl] rel_def [symmetric] by simp
qed

theorem relpath_equiv_witness:
  "relpath ''/home/ns3'' ''src/core'' ''build'' = os_relpath ''/home/ns3'' ''src/core'' ''build'' \<and>
   os_relpath ''/home/ns3'' ''src/core'' ''build'' = Inr ''../src/core''"
proof -
  have "proper (abspath ''/home/ns3'' ''src/core'')" "proper (abspath ''/home/ns3'' ''build'')"
    "os_relpath ''/home/ns3'' ''src/core'' ''build'' = Inr ''../src/core''"
    by code_simp+
  with relpath_equiv show ?thesis by blast
qed

text \<open>From the root the fallback climbs once too often.\<close>

lemma relpath_from_root: "relpath ''/'' ''/a'' ''/'' = Inr ''../a'' \<and> os_relpath ''/'' ''/a'' ''/'' = Inr ''a''"
  by code_simp

section \<open>Running\<close>

text \<open>No single character contains the words that announce a leak.\<close>

lemma leak_never_reported: "\<not> leak_reported stderrdata"
proof -
  have "\<not> py_in ''== LEAK SUMMARY'' [c]" for c by (simp add: py_in_iff Cons_eq_append_conv append_eq_Cons_conv)
  then show ?thesis by (auto simp: leak_reported_def)
qed

text \<open>
  A run under valgrind ends normally, with 0, exactly when its process returns 0, whatever leaks
  valgrind has reported on the error stream, and raises WafError for every other return code.
\<close>

theorem valgrind_leaks_unseen:
  assumes "opt_run_valgrind wx" and "opt_command_template wx = []" and "VALGRIND env = v # vs"
    and "popen ([v, ''--leak-check=full'', ''--show-reachable=yes'', ''--error-exitcode=1''] @ argv)
           (get_proc_env wx environ os_env) cwd = Inr (retval, stderrdata)"
  shows "if retval = 0 then run_argv wx popen sigs environ argv env os_env cwd False = Inr 0
    else \<exists>msg. run_argv wx popen sigs environ argv env os_env cwd False = Inl (WafError msg)"
  using assms leak_never_reported by (auto simp: run_argv_def check_retval_def split: option.split)

definition sample_context :: waf_context where
  "sample_context = \<lparr>wx_platform = ''linux'', wx_cwd = ''/ns3'', wx_launch_dir = ''/ns3'',
     wx_all_task_gen = [\<lparr>wp_name = ''first'', wp_is_ns3_program = True, wp_path = ''/ns3/scratch'',
       wp_bld_path = ''/ns3/build/scratch'', wp_binary = ''/ns3/build/scratch/first''\<rparr>],
     wx_env = \<lparr>NS3_MODULE_PATH = [''/ns3/build''], NS3_EXECUTABLE_PATH = [], VALGRIND = [''valgrind''], PYTHON = [''python'']\<rparr>,
     wx_pymoddir = ''/b'', wx_pyvizdir = ''/v'', opt_run_valgrind = True, opt_command_template = [],
     opt_cwd_launch = [], wx_cwd_launch = ''/ns3''\<rparr>"

theorem valgrind_leaks_unseen_witness:
  "run_argv sample_context (\<lambda>argv env cwd. Inr (0, ''== LEAK SUMMARY'')) [] [] [''a''] (wx_env sample_context) None None False = Inr 0"
  using valgrind_leaks_unseen [of sample_context "wx_env sample_context" "''valgrind''" "[]"
    "\<lambda>argv env cwd. Inr (0, ''== LEAK SUMMARY'')" "[''a'']" "[]" None None 0]
  by (simp add: sample_context_def)

theorem run_program_words_witness:
  "get_run_program sample_context (py_join '' '' (map shell_quote [''first'', ''--name=a b''])) None =
     Inr (''first'', [''/ns3/build/scratch/first'', ''--name=a b''])"
proof -
  have "find_program sample_context ''first'' = Inr (hd (wx_all_task_gen sample_context))" by code_simp
  from run_program_words [OF this, of "[''--name=a b'']"] show ?thesis by (simp add: sample_context_def)
qed

section \<open>Duplicates\<close>

lemma uniquify_from_spec:
  "distinct (uniquify_from seen xs) \<and> set (uniquify_from seen xs) = set xs - set seen \<and> subseq (uniquify_from seen xs) xs"
  by (induction xs arbitrary: seen) auto

lemma uniquify_list_spec:
  "distinct (uniquify_list xs) \<and> set (uniquify_list xs) = set xs \<and> subseq (uniquify_list xs) xs"
  using uniquify_from_spec [of "[]" xs] by (simp add: uniquify_list_def)

end
