(* ===== verification/VisBase.thy ===== *)
theory VisBase
  imports OsPath
begin

text \<open>
  \<open>visualizer/base.py\<close>: the traits of network devices, the scale between simulated metres and
  canvas units, and the plugin loader. Floats are the rationals they denote.
\<close>

section \<open>Network device traits\<close>

record device_traits =
  is_wireless :: "bool option"
  is_virtual :: bool

definition NetDeviceTraits :: "bool option \<Rightarrow> bool \<Rightarrow> device_traits pyres" where
  "NetDeviceTraits wireless virt =
     (if virt \<or> wireless \<noteq> None then Inr \<lparr>is_wireless = wireless, is_virtual = virt\<rparr> else Inl AssertionError)"

text \<open>The table, by class name.\<close>

definition netdevice_traits :: "(string, device_traits) dict" where
  "netdevice_traits =
     [(''PointToPointNetDevice'', \<lparr>is_wireless = Some False, is_virtual = False\<rparr>),
      (''CsmaNetDevice'', \<lparr>is_wireless = Some False, is_virtual = False\<rparr>),
      (''WifiNetDevice'', \<lparr>is_wireless = Some True, is_virtual = False\<rparr>),
      (''BridgeNetDevice'', \<lparr>is_wireless = None, is_virtual = True\<rparr>),
      (''LoopbackNetDevice'', \<lparr>is_wireless = Some False, is_virtual = True\<rparr>),
      (''MeshPointDevice'', \<lparr>is_wireless = None, is_virtual = True\<rparr>),
      (''SubscriberStationNetDevice'', \<lparr>is_wireless = Some True, is_virtual = False\<rparr>),
      (''BaseStationNetDevice'', \<lparr>is_wireless = Some True, is_virtual = False\<rparr>),
      (''LteUeNetDevice'', \<lparr>is_wireless = Some True, is_virtual = False\<rparr>),
      (''LteEnbNetDevice'', \<lparr>is_wireless = Some True, is_virtual = False\<rparr>)]"

text \<open>A class that is not registered is assumed wireless, and remembered.\<close>

definition lookup_netdevice_traits ::
  "(string, device_traits) dict \<Rightarrow> string \<Rightarrow> device_traits \<times> (string, device_traits) dict" where
  "lookup_netdevice_traits table cls =
     (case map_of table cls of
        Some t \<Rightarrow> (t, table)
      | None \<Rightarrow> (let t = \<lparr>is_wireless = Some True, is_virtual = False\<rparr> in (t, dict_set cls t table)))"

section \<open>Canvas units\<close>

type_synonym point = "rat \<times> rat"

definition PIXELS_PER_METER :: rat where "PIXELS_PER_METER = 3"

definition transform_distance_simulation_to_canvas :: "rat \<Rightarrow> rat" where
  "transform_distance_simulation_to_canvas d = d * PIXELS_PER_METER"

definition transform_point_simulation_to_canvas :: "rat \<Rightarrow> rat \<Rightarrow> point" where
  "transform_point_simulation_to_canvas x y = (x * PIXELS_PER_METER, y * PIXELS_PER_METER)"

definition transform_distance_canvas_to_simulation :: "rat \<Rightarrow> rat" where
  "transform_distance_canvas_to_simulation d = d / PIXELS_PER_METER"

definition transform_point_canvas_to_simulation :: "rat \<Rightarrow> rat \<Rightarrow> point" where
  "transform_point_canvas_to_simulation x y = (x / PIXELS_PER_METER, y / PIXELS_PER_METER)"

section \<open>Plugins\<close>

text \<open>
  What importing a module of the plugin directory gives: an ImportError, another exception, or a
  module with or without a function \<open>register\<close> (named by the type \<open>'f\<close>).
\<close>

datatype 'f module_import = NotImportable | ImportRaises pyerr | Module "'f option"

record 'f plugin_state =
  ps_plugins :: "'f list"
  ps_modules :: "string list"
  ps_loaded :: bool
  ps_sys_path :: "string list"

definition register_plugin :: "'f \<Rightarrow> string \<Rightarrow> 'f plugin_state \<Rightarrow> 'f plugin_state" where
  "register_plugin f name s =
     s\<lparr>ps_plugins := ps_plugins s @ [f],
       ps_modules := (if name \<in> set (ps_modules s) then ps_modules s else ps_modules s @ [name])\<rparr>"

definition load_plugin :: "(string \<Rightarrow> 'f module_import) \<Rightarrow> 'f plugin_state \<Rightarrow> string \<Rightarrow> 'f plugin_state pyres" where
  "load_plugin imports s filename =
     (let (name, ext) = splitext filename in
      if ext \<noteq> ''.py'' then Inr s
      else (case imports name of
          NotImportable \<Rightarrow> Inr s
        | ImportRaises e \<Rightarrow> Inl e
        | Module None \<Rightarrow> Inr s
        | Module (Some f) \<Rightarrow> Inr (register_plugin f name s)))"

definition load_plugins ::
  "(string \<Rightarrow> 'f module_import) \<Rightarrow> string \<Rightarrow> string list \<Rightarrow> 'f plugin_state \<Rightarrow> 'f plugin_state pyres" where
  "load_plugins imports plugins_dir filenames s =
     (if ps_loaded s then Inr s
      else rmap (\<lambda>s'. s'\<lparr>ps_sys_path := ps_sys_path s\<rparr>)
        (rfold (load_plugin imports) (s\<lparr>ps_loaded := True, ps_sys_path := plugins_dir # ps_sys_path s\<rparr>) filenames))"

text \<open>The functions of the plugin modules of a directory, in the order of the directory.\<close>

definition plugin_functions :: "(string \<Rightarrow> 'f module_import) \<Rightarrow> string list \<Rightarrow> 'f list" where
  "plugin_functions imports filenames =
     concat (map (\<lambda>fn. case splitext fn of (name, ext) \<Rightarrow>
       if ext = ''.py'' then (case imports name of Module (Some f) \<Rightarrow> [f] | _ \<Rightarrow> []) else []) filenames)"

lemma load_plugin_effect:
  assumes "load_plugin imports s fn = Inr t"
  shows "ps_plugins t = ps_plugins s @ plugin_functions imports [fn] \<and> ps_loaded t = ps_loaded s"
  using assms
  by (auto simp: load_plugin_def plugin_functions_def register_plugin_def
      split: prod.splits if_splits module_import.splits option.splits)

lemma load_all_effect:
  "rfold (load_plugin imports) s fns = Inr t \<Longrightarrow>
   ps_plugins t = ps_plugins s @ plugin_functions imports fns \<and> ps_loaded t = ps_loaded s"
proof (induction fns arbitrary: s)
  case Nil
  then show ?case by (simp add: plugin_functions_def)
next
  case (Cons fn fns)
  then obtain u where "load_plugin imports s fn = Inr u" "rfold (load_plugin imports) u fns = Inr t"
    by (auto simp: rbind_eq_Inr_iff)
  with Cons.IH load_plugin_effect show ?case by (fastforce simp: plugin_functions_def)
qed

text \<open>
  Loading the plugins registers the functions of the importable modules of the directory, once
  each and in directory order, restores the module search path, and does nothing the second time.
\<close>

theorem load_plugins_once:
  assumes "load_plugins imports dir fns s = Inr t" and "\<not> ps_loaded s"
  shows "ps_plugins t = ps_plugins s @ plugin_functions imports fns \<and> ps_sys_path t = ps_sys_path s \<and>
    load_plugins imports dir fns' t = Inr t"
proof -
  let ?s = "s\<lparr>ps_loaded := True, ps_sys_path := dir # ps_sys_path s\<rparr>"
  from assms obtain u where u: "rfold (load_plugin imports) ?s fns = Inr u" and t: "t = u\<lparr>ps_sys_path := ps_sys_path s\<rparr>"
    by (auto simp: load_plugins_def rmap_eq_Inr_iff)
  from load_all_effect [OF u] have "ps_plugins u = ps_plugins s @ plugin_functions imports fns" "ps_loaded u" by simp_all
  then show ?thesis by (simp add: t load_plugins_def)
qed

theorem load_plugins_once_witness:
  "\<exists>t. load_plugins (\<lambda>n. if n = ''olsr'' then Module (Some True) else NotImportable) ''plugins'' [''a.txt'', ''olsr.py'', ''x.py'']
      \<lparr>ps_plugins = [], ps_modules = [], ps_loaded = False, ps_sys_path = [''/'']\<rparr> = Inr t \<and>
    ps_plugins t = [True] \<and> ps_sys_path t = [''/'']"
proof -
  let ?imp = "\<lambda>n. if n = ''olsr'' then Module (Some True) else NotImportable"
  let ?s = "\<lparr>ps_plugins = [], ps_modules = [], ps_loaded = False, ps_sys_path = [''/'']\<rparr>"
  have e: "splitext ''a.txt'' = (''a'', ''.txt'')" "splitext ''olsr.py'' = (''olsr'', ''.py'')" "splitext ''x.py'' = (''x'', ''.py'')"
    by code_simp+
  have fs: "plugin_functions ?imp [''a.txt'', ''olsr.py'', ''x.py''] = [True]"
    by (simp add: plugin_functions_def e)
  obtain t where t: "load_plugins ?imp ''plugins'' [''a.txt'', ''olsr.py'', ''x.py''] ?s = Inr t"
    by (simp add: load_plugins_def load_plugin_def e)
  from load_plugins_once [OF t, of "[]"] fs have "ps_plugins t = [True]" "ps_sys_path t = [''/'']" by simp_all
  with t show ?thesis by blast
qed

end
