(* ===== verification/VisWidgets.thy ===== *)
theory VisWidgets
  imports VisBase
begin

text \<open>
  Two widgets of the visualizer: the scaled SVG image of \<open>visualizer/svgitem.py\<close> with its cache of
  files, and the titled container of \<open>visualizer/higcontainer.py\<close>. The natural size of an image and
  the requested sizes of child widgets come from the libraries and are fields and arguments.
\<close>

section \<open>SvgItem\<close>

record svg_item =
  svg_x :: rat
  svg_y :: rat
  svg_sx :: rat
  svg_sy :: rat
  handle_width :: rat
  handle_height :: rat
  svg_width :: rat
  svg_height :: rat
  custom_width :: "rat option"
  custom_height :: "rat option"

definition SvgItem :: "rat \<Rightarrow> rat \<Rightarrow> rat \<Rightarrow> rat \<Rightarrow> svg_item" where
  "SvgItem x y w h =
     \<lparr>svg_x = x, svg_y = y, svg_sx = 1, svg_sy = 1, handle_width = w, handle_height = h,
      svg_width = w, svg_height = h, custom_width = None, custom_height = None\<rparr>"

definition fdiv :: "rat \<Rightarrow> rat \<Rightarrow> rat pyres" where
  "fdiv a b = (if b = 0 then Inl ZeroDivisionError else Inr (a / b))"

definition size_changed :: "svg_item \<Rightarrow> svg_item pyres" where
  "size_changed s =
     (case (custom_width s, custom_height s) of
        (None, None) \<Rightarrow> Inr (s\<lparr>svg_width := handle_width s, svg_height := handle_height s, svg_sx := 1, svg_sy := 1\<rparr>)
      | (Some w, None) \<Rightarrow>
          rmap (\<lambda>k. s\<lparr>svg_width := w, svg_sx := k, svg_sy := k, svg_height := handle_height s * k\<rparr>)
            (fdiv w (handle_width s))
      | (None, Some h) \<Rightarrow>
          rmap (\<lambda>k. s\<lparr>svg_height := h, svg_sy := k, svg_sx := k, svg_width := handle_width s * k\<rparr>)
            (fdiv h (handle_height s))
      | (Some w, Some h) \<Rightarrow>
          rbind (fdiv w (handle_width s)) (\<lambda>kx.
          rmap (\<lambda>ky. s\<lparr>svg_width := w, svg_height := h, svg_sx := kx, svg_sy := ky\<rparr>)
            (fdiv h (handle_height s))))"

definition do_set_property :: "string \<Rightarrow> rat \<Rightarrow> svg_item \<Rightarrow> svg_item pyres" where
  "do_set_property name v s =
     (if name = ''x'' then Inr (s\<lparr>svg_x := v\<rparr>)
      else if name = ''y'' then Inr (s\<lparr>svg_y := v\<rparr>)
      else if name = ''width'' then size_changed (s\<lparr>custom_width := Some v\<rparr>)
      else if name = ''height'' then size_changed (s\<lparr>custom_height := Some v\<rparr>)
      else Inl AttributeError)"

text \<open>Reading the property \<open>width\<close> assigns the natural size first.\<close>

definition do_get_property :: "string \<Rightarrow> svg_item \<Rightarrow> (rat \<times> svg_item) pyres" where
  "do_get_property name s =
     (if name = ''x'' then Inr (svg_x s, s)
      else if name = ''y'' then Inr (svg_y s, s)
      else if name = ''width'' then
        (let s = s\<lparr>svg_width := handle_width s, svg_height := handle_height s\<rparr> in Inr (svg_width s, s))
      else if name = ''height'' then Inr (svg_height s, s)
      else Inl AttributeError)"

text \<open>The translation and scale of the painting, the bounds of the item, and the test for a point.\<close>

definition do_simple_paint :: "svg_item \<Rightarrow> (rat \<times> rat) \<times> (rat \<times> rat)" where
  "do_simple_paint s = ((svg_x s, svg_y s), (svg_sx s, svg_sy s))"

definition do_simple_update :: "svg_item \<Rightarrow> rat \<times> rat \<times> rat \<times> rat" where
  "do_simple_update s = (svg_x s, svg_y s, svg_x s + svg_width s, svg_y s + svg_height s)"

definition do_simple_is_item_at :: "rat \<Rightarrow> rat \<Rightarrow> svg_item \<Rightarrow> bool" where
  "do_simple_is_item_at x y s \<longleftrightarrow>
     \<not> ((x < svg_x s \<or> x > svg_x s + svg_width s) \<or> (y < svg_y s \<or> y > svg_y s + svg_height s))"

text \<open>The files already loaded; loading is a parameter.\<close>

definition rsvg_handle_factory ::
  "(string \<Rightarrow> 'h pyres) \<Rightarrow> string \<Rightarrow> (string, 'h) dict \<Rightarrow> string \<Rightarrow> ('h \<times> (string, 'h) dict) pyres" where
  "rsvg_handle_factory load dir cache base_file_name =
     (case map_of cache base_file_name of
        Some h \<Rightarrow> Inr (h, cache)
      | None \<Rightarrow> rmap (\<lambda>h. (h, dict_set base_file_name h cache))
          (load (path_join (path_join dir ''resource'') base_file_name)))"

text \<open>The painted image fills the bounds: scale times natural size is the size.\<close>

definition svg_ok :: "svg_item \<Rightarrow> bool" where
  "svg_ok s \<longleftrightarrow> svg_width s = svg_sx s * handle_width s \<and> svg_height s = svg_sy s * handle_height s"

lemma size_changed_ok: "size_changed s = Inr t \<Longrightarrow> svg_ok t"
  by (auto simp: size_changed_def svg_ok_def fdiv_def rbind_eq_Inr_iff rmap_eq_Inr_iff
      split: option.splits if_splits)

lemma svg_item_ok: "svg_ok (SvgItem x y w h)"
  by (simp add: SvgItem_def svg_ok_def)

lemma set_property_ok: "svg_ok s \<Longrightarrow> do_set_property name v s = Inr t \<Longrightarrow> svg_ok t"
  by (auto simp: do_set_property_def dest: size_changed_ok split: if_split_asm) (auto simp: svg_ok_def)

lemma get_width_breaks:
  assumes "do_get_property ''width'' s = Inr (v, t)" and "handle_width s \<noteq> 0"
  shows "svg_ok t \<longleftrightarrow> svg_sx s = 1 \<and> (svg_sy s = 1 \<or> handle_height s = 0)"
proof -
  have unit: "h = k * h \<longleftrightarrow> k = 1 \<or> h = 0" for h k :: rat by auto
  have "t = s\<lparr>svg_width := handle_width s, svg_height := handle_height s\<rparr>"
    using assms(1) by (auto simp: do_get_property_def)
  with assms(2) show ?thesis by (auto simp: svg_ok_def unit)
qed

text \<open>
  A new image and every image after a change of its position or size is painted exactly within
  its bounds; and reading its width when it has been scaled breaks this, since the read puts the
  natural size back.
\<close>

theorem svg_bounds:
  "svg_ok (SvgItem x y w h) \<and>
   (\<forall>s name v t. svg_ok s \<and> do_set_property name v s = Inr t \<longrightarrow> svg_ok t) \<and>
   (\<forall>s v t. svg_ok s \<and> handle_width s \<noteq> 0 \<and> do_get_property ''width'' s = Inr (v, t) \<longrightarrow>
      (svg_ok t \<longleftrightarrow> svg_sx s = 1 \<and> (svg_sy s = 1 \<or> handle_height s = 0)))"
  using svg_item_ok set_property_ok get_width_breaks by blast

lemma rsvg_cached:
  assumes "rsvg_handle_factory load dir cache f = Inr (h, cache')"
  shows "rsvg_handle_factory load' dir cache' f = Inr (h, cache')"
  using assms by (auto simp: rsvg_handle_factory_def rmap_eq_Inr_iff split: option.splits)

section \<open>HIGContainer\<close>

record rectangle =
  rx :: int
  ry :: int
  rwidth :: int
  rheight :: int

text \<open>The sizes of the title, the indentation and the child, if there is one.\<close>

definition do_size_request :: "int \<times> int \<Rightarrow> int \<times> int \<Rightarrow> (int \<times> int) option \<Rightarrow> int \<times> int" where
  "do_size_request title_req indent_req child =
     (let child_req = (case child of None \<Rightarrow> (0, 0) | Some r \<Rightarrow> r) in
      (max (fst title_req) (fst indent_req + fst child_req),
       snd title_req + 6 + max (snd child_req) (snd indent_req)))"

text \<open>What the title and the child are given.\<close>

definition do_size_allocate ::
  "int \<times> int \<Rightarrow> int \<times> int \<Rightarrow> bool \<Rightarrow> rectangle \<Rightarrow> rectangle \<times> rectangle option" where
  "do_size_allocate title_req indent_req has_child allocation =
     (let title_alloc = \<lparr>rx = rx allocation, ry = ry allocation,
            rwidth = min (fst title_req) (rwidth allocation), rheight = min (snd title_req) (rheight allocation)\<rparr> in
      (title_alloc,
       if has_child then
         Some \<lparr>rx = rx allocation + fst indent_req, ry = ry allocation + rheight title_alloc + 6,
               rwidth = rwidth allocation - fst indent_req,
               rheight = rheight allocation - 6 - rheight title_alloc\<rparr>
       else None))"

text \<open>The title text and its markup; the escaping of the library is a parameter.\<close>

definition hig_set_property :: "(string \<Rightarrow> string) \<Rightarrow> string \<Rightarrow> string \<Rightarrow> (string \<times> string) pyres" where
  "hig_set_property escape name v =
     (if name = ''title'' then Inr (v, ''<span weight=\"bold\">'' @ escape v @ ''</span>'') else Inl AttributeError)"

definition hig_get_property :: "string \<Rightarrow> 'a \<Rightarrow> 'a pyres" where
  "hig_get_property name title_text = (if name = ''title'' then Inr title_text else Inl AttributeError)"

text \<open>With what it asked for, the container gives its child at least what the child asked for.\<close>

lemma hig_child_fits:
  assumes "do_size_request title_req indent_req (Some child_req) = (w, h)"
    and "rwidth allocation \<ge> w" and "rheight allocation \<ge> h" and "0 \<le> snd child_req" and "0 \<le> snd indent_req"
  shows "\<exists>t c. do_size_allocate title_req indent_req True allocation = (t, Some c) \<and>
    rheight t = snd title_req \<and> fst child_req \<le> rwidth c \<and> snd child_req \<le> rheight c \<and>
    rx c + rwidth c = rx allocation + rwidth allocation \<and> ry c + rheight c = ry allocation + rheight allocation \<and>
    ry t + rheight t \<le> ry c"
  using assms by (auto simp: do_size_request_def do_size_allocate_def Let_def)

end
