(* ===== verification/VisScene.thy ===== *)
theory VisScene
  imports VisWidgets
begin

text \<open>
  The objects on the canvas of \<open>visualizer/core.py\<close>: \<open>Node\<close>, \<open>Channel\<close>, \<open>WiredLink\<close>, their tables in
  \<open>Visualizer\<close>, and \<open>scan_topology\<close>. Objects refer to each other: a link to its two ends, an end to its
  links. The scene holds nodes by index, channels by identity and links by position, and a reference is
  such a key. The simulated network, which the library answers for, is a parameter, and so is the
  layout that graphviz computes.
\<close>

section \<open>Objects\<close>

unbundle bit_operations_syntax

record ellipse =
  el_center :: point
  el_radius :: rat
  el_fill :: int
  el_line_width :: rat
  el_stroke :: string

record label_item =
  lb_text :: string
  lb_pos :: point

record node_view =
  node_index :: nat
  nv_item :: ellipse
  nv_links :: "nat list"
  nv_has_mobility :: "bool option"
  nv_selected :: bool
  nv_highlighted :: bool
  nv_color :: int
  nv_size :: rat
  nv_svg :: "svg_item option"
  nv_align :: point
  nv_label :: "string option"
  nv_label_item :: "label_item option"

definition DEFAULT_NODE_SIZE :: rat where "DEFAULT_NODE_SIZE = 3"

text \<open>The radius, colours and line of a node; the part of \<open>_update_appearance\<close> before the label.\<close>

definition appear :: "node_view \<Rightarrow> node_view" where
  "appear n =
     (let extent = transform_distance_simulation_to_canvas (nv_size n);
          alpha = (if nv_svg n \<noteq> None then 0x80 else 0xff) in
      n\<lparr>nv_item := (nv_item n)\<lparr>el_radius := extent, el_fill := (nv_color n AND 0xffffff00) OR alpha,
           el_line_width := (if nv_selected n then extent * (3 / 10) else extent * (15 / 100)),
           el_stroke := (if nv_highlighted n then ''yellow'' else ''black'')\<rparr>\<rparr>)"

definition Node :: "nat \<Rightarrow> node_view" where
  "Node i = appear
     \<lparr>node_index = i, nv_item = \<lparr>el_center = (0, 0), el_radius = 0, el_fill = 0, el_line_width = 0, el_stroke = []\<rparr>,
      nv_links = [], nv_has_mobility = None, nv_selected = False, nv_highlighted = False, nv_color = 0x808080ff,
      nv_size = DEFAULT_NODE_SIZE, nv_svg = None, nv_align = (0, 0), nv_label = None, nv_label_item = None\<rparr>"

definition node_position :: "node_view \<Rightarrow> point" where
  "node_position n = el_center (nv_item n)"

definition update_svg_position :: "point \<Rightarrow> point \<Rightarrow> svg_item \<Rightarrow> svg_item" where
  "update_svg_position al p s =
     s\<lparr>svg_x := fst p - (1 - fst al) * svg_width s, svg_y := snd p - (1 - snd al) * svg_height s\<rparr>"

text \<open>\<open>set_position\<close> but for the links.\<close>

definition place :: "point \<Rightarrow> node_view \<Rightarrow> node_view" where
  "place p n =
     n\<lparr>nv_item := (nv_item n)\<lparr>el_center := p\<rparr>,
       nv_svg := map_option (update_svg_position (nv_align n) p) (nv_svg n),
       nv_label_item := map_option (\<lambda>l. l\<lparr>lb_pos := (fst p, snd p + nv_size n * 3)\<rparr>) (nv_label_item n)\<rparr>"

text \<open>The label of \<open>_update_appearance\<close>: the item is made when it is first needed.\<close>

definition show_label :: "node_view \<Rightarrow> node_view" where
  "show_label n =
     (case nv_label n of
        None \<Rightarrow> n
      | Some t \<Rightarrow> n\<lparr>nv_label_item := Some
          (case nv_label_item n of None \<Rightarrow> \<lparr>lb_text = t, lb_pos = (0, 0)\<rparr> | Some l \<Rightarrow> l\<lparr>lb_text := t\<rparr>)\<rparr>)"

record channel_view =
  cv_id :: nat
  cv_pos :: point
  cv_links :: "nat list"

definition Channel :: "nat \<Rightarrow> channel_view" where
  "Channel c = \<lparr>cv_id = c, cv_pos = (0, 0), cv_links = []\<rparr>"

text \<open>The second end of a link: a node, a channel, or none yet (for the wireless links of a plugin).\<close>

datatype endpoint = ToNode nat | ToChannel nat

record link =
  l_node1 :: nat
  l_node2 :: "endpoint option"
  l_points :: "(point \<times> point) option"
  l_visible :: bool
  l_wired :: bool

record scene =
  sc_nodes :: "(nat, node_view) dict"
  sc_channels :: "(nat, channel_view) dict"
  sc_links :: "link list"

definition empty_scene :: scene where
  "empty_scene = \<lparr>sc_nodes = [], sc_channels = [], sc_links = []\<rparr>"

section \<open>Positions and links\<close>

text \<open>An end that is not in its table has no position; ends always are (\<open>scene_ok\<close> below).\<close>

definition get_end_position :: "scene \<Rightarrow> endpoint \<Rightarrow> point" where
  "get_end_position sc e =
     (case e of
        ToNode i \<Rightarrow> (case map_of (sc_nodes sc) i of None \<Rightarrow> (0, 0) | Some n \<Rightarrow> node_position n)
      | ToChannel c \<Rightarrow> (case map_of (sc_channels sc) c of None \<Rightarrow> (0, 0) | Some v \<Rightarrow> cv_pos v))"

definition end_links :: "scene \<Rightarrow> endpoint \<Rightarrow> nat list" where
  "end_links sc e =
     (case e of
        ToNode i \<Rightarrow> (case map_of (sc_nodes sc) i of None \<Rightarrow> [] | Some n \<Rightarrow> nv_links n)
      | ToChannel c \<Rightarrow> (case map_of (sc_channels sc) c of None \<Rightarrow> [] | Some v \<Rightarrow> cv_links v))"

definition update_points :: "scene \<Rightarrow> nat \<Rightarrow> scene" where
  "update_points sc k =
     (case l_node2 (sc_links sc ! k) of
        None \<Rightarrow> sc
      | Some e \<Rightarrow> sc\<lparr>sc_links := (sc_links sc)[k := (sc_links sc ! k)\<lparr>l_points :=
          Some (get_end_position sc (ToNode (l_node1 (sc_links sc ! k))), get_end_position sc e)\<rparr>]\<rparr>)"

definition modify_node :: "nat \<Rightarrow> (node_view \<Rightarrow> node_view) \<Rightarrow> scene \<Rightarrow> scene" where
  "modify_node i f sc =
     (case map_of (sc_nodes sc) i of None \<Rightarrow> sc | Some n \<Rightarrow> sc\<lparr>sc_nodes := dict_set i (f n) (sc_nodes sc)\<rparr>)"

definition modify_channel :: "nat \<Rightarrow> (channel_view \<Rightarrow> channel_view) \<Rightarrow> scene \<Rightarrow> scene" where
  "modify_channel c f sc =
     (case map_of (sc_channels sc) c of None \<Rightarrow> sc | Some v \<Rightarrow> sc\<lparr>sc_channels := dict_set c (f v) (sc_channels sc)\<rparr>)"

definition update_links :: "endpoint \<Rightarrow> scene \<Rightarrow> scene" where
  "update_links e sc = foldl update_points sc (end_links sc e)"

definition node_set_position :: "nat \<Rightarrow> point \<Rightarrow> scene \<Rightarrow> scene" where
  "node_set_position i p sc = update_links (ToNode i) (modify_node i (place p) sc)"

definition channel_set_position :: "nat \<Rightarrow> point \<Rightarrow> scene \<Rightarrow> scene" where
  "channel_set_position c p sc = update_links (ToChannel c) (modify_channel c (\<lambda>v. v\<lparr>cv_pos := p\<rparr>) sc)"

definition update_appearance :: "nat \<Rightarrow> scene \<Rightarrow> scene" where
  "update_appearance i sc =
     (let sc' = modify_node i (show_label \<circ> appear) sc in
      case map_of (sc_nodes sc) i of
        None \<Rightarrow> sc
      | Some n \<Rightarrow> if nv_label n = None then sc' else node_set_position i (node_position n) sc')"

text \<open>The setters of a node.\<close>

definition set_label :: "nat \<Rightarrow> string \<Rightarrow> scene \<Rightarrow> scene" where
  "set_label i label sc = update_appearance i (modify_node i (\<lambda>n. n\<lparr>nv_label := Some label\<rparr>) sc)"

definition set_selected :: "nat \<Rightarrow> bool \<Rightarrow> scene \<Rightarrow> scene" where
  "set_selected i v sc = update_appearance i (modify_node i (\<lambda>n. n\<lparr>nv_selected := v\<rparr>) sc)"

definition set_highlighted :: "nat \<Rightarrow> bool \<Rightarrow> scene \<Rightarrow> scene" where
  "set_highlighted i v sc = update_appearance i (modify_node i (\<lambda>n. n\<lparr>nv_highlighted := v\<rparr>) sc)"

definition on_enter_notify_event :: "nat \<Rightarrow> scene \<Rightarrow> scene" where
  "on_enter_notify_event i sc = set_highlighted i True sc"

definition on_leave_notify_event :: "nat \<Rightarrow> scene \<Rightarrow> scene" where
  "on_leave_notify_event i sc = set_highlighted i False sc"

definition set_size :: "nat \<Rightarrow> rat \<Rightarrow> scene \<Rightarrow> scene" where
  "set_size i v sc = update_appearance i (modify_node i (\<lambda>n. n\<lparr>nv_size := v\<rparr>) sc)"

text \<open>A colour by its number, or by the three 16-bit channels that the library parses from a name.\<close>

datatype color_spec = ColorNumber int | ColorChannels int int int

definition color_rgba :: "color_spec \<Rightarrow> int" where
  "color_rgba c =
     (case c of
        ColorNumber v \<Rightarrow> v
      | ColorChannels r g b \<Rightarrow>
          push_bit 24 (drop_bit 8 r) OR push_bit 16 (drop_bit 8 g) OR push_bit 8 (drop_bit 8 b) OR 0xff)"

definition set_color :: "nat \<Rightarrow> color_spec \<Rightarrow> scene \<Rightarrow> scene" where
  "set_color i c sc = update_appearance i (modify_node i (\<lambda>n. n\<lparr>nv_color := color_rgba c\<rparr>) sc)"

text \<open>An image behind the node; \<open>handle\<close> is its natural size.\<close>

definition set_svg_icon :: "nat \<Rightarrow> rat \<times> rat \<Rightarrow> rat option \<Rightarrow> rat option \<Rightarrow> point \<Rightarrow> scene \<Rightarrow> scene pyres" where
  "set_svg_icon i handle width height al sc =
     (if width = None \<and> height = None then Inl ValueError
      else case map_of (sc_nodes sc) i of
          None \<Rightarrow> Inr sc
        | Some n \<Rightarrow>
            (let p = node_position n; s = SvgItem (fst p) (snd p) (fst handle) (snd handle) in
             rbind (case width of None \<Rightarrow> Inr s
                      | Some w \<Rightarrow> do_set_property ''width'' (transform_distance_simulation_to_canvas w) s) (\<lambda>s.
             rmap (\<lambda>s. update_appearance i
                 (modify_node i (\<lambda>n. n\<lparr>nv_svg := Some (update_svg_position al p s), nv_align := al\<rparr>) sc))
               (case height of None \<Rightarrow> Inr s
                  | Some h \<Rightarrow> do_set_property ''height'' (transform_distance_simulation_to_canvas h) s))))"

definition add_link :: "nat \<Rightarrow> nat \<Rightarrow> scene \<Rightarrow> scene" where
  "add_link i k sc = modify_node i (\<lambda>n. n\<lparr>nv_links := nv_links n @ [k]\<rparr>) sc"

definition remove_link :: "nat \<Rightarrow> nat \<Rightarrow> scene \<Rightarrow> scene pyres" where
  "remove_link i k sc =
     (if k \<in> set (end_links sc (ToNode i))
      then Inr (modify_node i (\<lambda>n. n\<lparr>nv_links := remove1 k (nv_links n)\<rparr>) sc)
      else Inl ValueError)"

section \<open>The tables of the visualizer\<close>

definition get_node :: "nat \<Rightarrow> scene \<Rightarrow> scene" where
  "get_node i sc = (if dict_has (sc_nodes sc) i then sc else sc\<lparr>sc_nodes := dict_set i (Node i) (sc_nodes sc)\<rparr>)"

definition get_channel :: "nat \<Rightarrow> scene \<Rightarrow> scene" where
  "get_channel c sc =
     (if dict_has (sc_channels sc) c then sc else sc\<lparr>sc_channels := dict_set c (Channel c) (sc_channels sc)\<rparr>)"

text \<open>\<open>WiredLink\<close> enters the new link at both of its ends.\<close>

definition create_link :: "nat \<Rightarrow> endpoint \<Rightarrow> scene \<Rightarrow> scene" where
  "create_link i e sc =
     (let k = length (sc_links sc);
          sc = sc\<lparr>sc_links := sc_links sc @ [\<lparr>l_node1 = i, l_node2 = Some e, l_points = None, l_visible = True, l_wired = True\<rparr>]\<rparr>;
          sc = add_link i k sc
      in case e of ToNode j \<Rightarrow> add_link j k sc
         | ToChannel c \<Rightarrow> modify_channel c (\<lambda>v. v\<lparr>cv_links := cv_links v @ [k]\<rparr>) sc)"

section \<open>scan_topology\<close>

text \<open>
  The simulated network: the position of a node, if it has a mobility model, and its devices with
  their class and the identity of their channel; the devices of a channel by the node they are on.
\<close>

record sim_device =
  sd_class :: string
  sd_channel :: "nat option"

record sim_node =
  sn_mobility :: "point option"
  sn_devices :: "sim_device list"

record network =
  ns_nodes :: "sim_node list"
  ns_channel :: "nat \<Rightarrow> nat list"

definition mobile :: "network \<Rightarrow> nat \<Rightarrow> bool" where
  "mobile ns i \<longleftrightarrow> i < length (ns_nodes ns) \<and> sn_mobility (ns_nodes ns ! i) \<noteq> None"

text \<open>The property \<open>has_mobility\<close>, which remembers its first answer.\<close>

definition has_mobility :: "network \<Rightarrow> nat \<Rightarrow> scene \<Rightarrow> bool \<times> scene" where
  "has_mobility ns i sc =
     (case map_of (sc_nodes sc) i of
        None \<Rightarrow> (mobile ns i, sc)
      | Some n \<Rightarrow>
          (case nv_has_mobility n of
             Some b \<Rightarrow> (b, sc)
           | None \<Rightarrow> (mobile ns i, modify_node i (\<lambda>n. n\<lparr>nv_has_mobility := Some (mobile ns i)\<rparr>) sc)))"

text \<open>What is put into the graph for the layout.\<close>

datatype graph_cmd = AddNode string | AddEdge string string

definition node_name :: "nat \<Rightarrow> string" where "node_name i = ''Node '' @ show_nat i"
definition channel_name :: "nat \<Rightarrow> string" where "channel_name c = ''Channel '' @ show_nat c"

type_synonym scan_state = "scene \<times> graph_cmd list"

definition scan_neighbour :: "network \<Rightarrow> nat \<Rightarrow> scan_state \<Rightarrow> nat \<Rightarrow> scan_state" where
  "scan_neighbour ns i st j =
     (case st of (sc, g) \<Rightarrow>
      let sc = get_node j sc in
      if j = i then (sc, g)
      else if mobile ns i then (create_link i (ToNode j) (get_node i sc), g)
      else (case has_mobility ns j sc of (m, sc) \<Rightarrow>
        (create_link i (ToNode j) (get_node i sc), if m then g else g @ [AddEdge (node_name i) (node_name j)])))"

definition wired :: "sim_device \<Rightarrow> bool" where
  "wired d \<longleftrightarrow>
     (let t = fst (lookup_netdevice_traits netdevice_traits (sd_class d)) in
      is_wireless t \<noteq> Some True \<and> \<not> is_virtual t)"

text \<open>Channels with more than two devices are represented as nodes of their own (REPRESENT_CHANNELS_AS_NODES is 1).\<close>

definition scan_device :: "network \<Rightarrow> nat \<Rightarrow> scan_state \<Rightarrow> sim_device \<Rightarrow> scan_state pyres" where
  "scan_device ns i st d =
     (if \<not> wired d then Inr st
      else (case sd_channel d of
          None \<Rightarrow> Inl AttributeError
        | Some c \<Rightarrow>
            if length (ns_channel ns c) > 2 then
              (case st of (sc, g) \<Rightarrow>
                Inr (create_link i (ToChannel c) (get_node i (get_channel c sc)),
                     if mobile ns i then g else g @ [AddEdge (node_name i) (channel_name c)]))
            else Inr (foldl (scan_neighbour ns i) st (ns_channel ns c))))"

definition scan_node :: "network \<Rightarrow> scan_state \<Rightarrow> nat \<Rightarrow> scan_state pyres" where
  "scan_node ns st i =
     (case st of (sc, g) \<Rightarrow>
      let sc = get_node i sc;
          st = (case sn_mobility (ns_nodes ns ! i) of
                  Some p \<Rightarrow> (node_set_position i (transform_point_simulation_to_canvas (fst p) (snd p))
                              (set_color i (ColorChannels 0xffff 0 0) sc), g)
                | None \<Rightarrow> (sc, g @ [AddNode (node_name i)]))
      in rfold (scan_device ns i) st (sn_devices (ns_nodes ns ! i)))"

text \<open>
  A name of the graph back to the object it stands for. The layout gives names with positions.
\<close>

definition place_named :: "scene \<Rightarrow> string \<times> point \<Rightarrow> scene pyres" where
  "place_named sc np =
     (case split_all (CHR '' '') (fst np) of
        [node_type, node_id] \<Rightarrow>
          if node_id = [] \<or> \<not> (\<forall>c\<in>set node_id. py_digit c) then Inl ValueError
          else if node_type = ''Node'' then
            (if dict_has (sc_nodes sc) (nat_of_digits node_id) then Inr (node_set_position (nat_of_digits node_id) (snd np) sc)
             else Inl KeyError)
          else if node_type = ''Channel'' then
            (if dict_has (sc_channels sc) (nat_of_digits node_id) then Inr (channel_set_position (nat_of_digits node_id) (snd np) sc)
             else Inl KeyError)
          else Inl UnboundLocalError
      | _ \<Rightarrow> Inl ValueError)"

definition scan_topology :: "network \<Rightarrow> (graph_cmd list \<Rightarrow> (string \<times> point) list) \<Rightarrow> scene \<Rightarrow> scene pyres" where
  "scan_topology ns layout sc =
     rbind (rfold (scan_node ns) (sc, []) [0..<length (ns_nodes ns)]) (\<lambda>(sc, g).
       rfold place_named sc (layout g))"

text \<open>\<open>_update_node_positions\<close>, without the scrolling after a followed node.\<close>

definition update_node_position :: "network \<Rightarrow> scene \<Rightarrow> nat \<Rightarrow> scene" where
  "update_node_position ns sc i =
     (case has_mobility ns i sc of (m, sc) \<Rightarrow>
      if \<not> m then sc
      else (case sn_mobility (ns_nodes ns ! i) of
          None \<Rightarrow> sc
        | Some p \<Rightarrow> node_set_position i (transform_point_simulation_to_canvas (fst p) (snd p)) sc))"

definition update_node_positions :: "network \<Rightarrow> scene \<Rightarrow> scene" where
  "update_node_positions ns sc = foldl (update_node_position ns) sc (dict_keys (sc_nodes sc))"

section \<open>Links follow their ends\<close>

definition end_exists :: "scene \<Rightarrow> endpoint \<Rightarrow> bool" where
  "end_exists sc e \<longleftrightarrow>
     (case e of ToNode i \<Rightarrow> map_of (sc_nodes sc) i \<noteq> None | ToChannel c \<Rightarrow> map_of (sc_channels sc) c \<noteq> None)"

definition current_points :: "scene \<Rightarrow> link \<Rightarrow> endpoint \<Rightarrow> point \<times> point" where
  "current_points sc l e = (get_end_position sc (ToNode (l_node1 l)), get_end_position sc e)"

text \<open>
  A link is listed at its ends (a wireless one at its second end only), and what is drawn of a wired
  link is the line between the present positions of its ends.
\<close>

definition link_ok :: "scene \<Rightarrow> nat \<Rightarrow> link \<Rightarrow> bool" where
  "link_ok sc k l \<longleftrightarrow>
     end_exists sc (ToNode (l_node1 l)) \<and>
     (case l_node2 l of
        None \<Rightarrow> \<not> l_wired l
      | Some e \<Rightarrow> end_exists sc e \<and> k \<in> set (end_links sc e) \<and>
          (l_wired l \<longrightarrow> k \<in> set (end_links sc (ToNode (l_node1 l))) \<and>
             (l_points l = None \<or> l_points l = Some (current_points sc l e))))"

definition scene_ok :: "scene \<Rightarrow> bool" where
  "scene_ok sc \<longleftrightarrow>
     (\<forall>k < length (sc_links sc). link_ok sc k (sc_links sc ! k)) \<and>
     (\<forall>e. \<forall>k\<in>set (end_links sc e). k < length (sc_links sc))"

text \<open>A link as \<open>update_points\<close> leaves it.\<close>

definition refresh :: "scene \<Rightarrow> link \<Rightarrow> link" where
  "refresh sc l = (case l_node2 l of None \<Rightarrow> l | Some e \<Rightarrow> l\<lparr>l_points := Some (current_points sc l e)\<rparr>)"

lemma refresh_keeps [simp]:
  "l_node1 (refresh sc l) = l_node1 l" "l_node2 (refresh sc l) = l_node2 l" "l_wired (refresh sc l) = l_wired l"
  by (simp_all add: refresh_def split: option.split)

lemma refresh_refresh [simp]: "refresh sc (refresh sc l) = refresh sc l"
  by (simp add: refresh_def current_points_def split: option.split)

lemma update_points_refresh: "update_points sc k = sc\<lparr>sc_links := (sc_links sc)[k := refresh sc (sc_links sc ! k)]\<rparr>"
proof (cases "l_node2 (sc_links sc ! k)")
  case None
  then show ?thesis by (simp add: update_points_def refresh_def)
next
  case (Some e)
  then show ?thesis by (simp add: update_points_def refresh_def current_points_def)
qed

lemma links_frame [simp]:
  "get_end_position (sc\<lparr>sc_links := ls\<rparr>) e = get_end_position sc e"
  "end_links (sc\<lparr>sc_links := ls\<rparr>) e = end_links sc e"
  "end_exists (sc\<lparr>sc_links := ls\<rparr>) e = end_exists sc e"
  by (simp_all add: get_end_position_def end_links_def end_exists_def split: endpoint.split)

lemma links_frame' [simp]:
  "current_points (sc\<lparr>sc_links := ls\<rparr>) l e = current_points sc l e"
  "refresh (sc\<lparr>sc_links := ls\<rparr>) l = refresh sc l"
  "link_ok (sc\<lparr>sc_links := ls\<rparr>) k l = link_ok sc k l"
  by (simp_all add: current_points_def refresh_def link_ok_def split: option.split)

lemma refresh_at: "refresh sc (ls[k := refresh sc (ls ! k)] ! x) = refresh sc (ls ! x)"
proof (cases "k < length ls")
  case True
  then show ?thesis by (cases "x = k") simp_all
next
  case False
  then have "ls[k := refresh sc (ls ! k)] = ls" by (intro list_update_beyond) simp
  then show ?thesis by simp
qed

lemma fold_update_points:
  "foldl update_points sc ks =
     sc\<lparr>sc_links := map (\<lambda>j. if j \<in> set ks then refresh sc (sc_links sc ! j) else sc_links sc ! j) [0..<length (sc_links sc)]\<rparr>"
proof (induction ks arbitrary: sc)
  case Nil
  have "map ((!) (sc_links sc)) [0..<length (sc_links sc)] = sc_links sc" by (rule map_nth)
  then show ?case by simp
next
  case (Cons k ks)
  let ?ls = "(sc_links sc)[k := refresh sc (sc_links sc ! k)]"
  have "foldl update_points sc (k # ks) = foldl update_points (sc\<lparr>sc_links := ?ls\<rparr>) ks"
    by (simp add: update_points_refresh)
  also have "\<dots> = sc\<lparr>sc_links := map (\<lambda>j. if j \<in> set ks then refresh sc (?ls ! j) else ?ls ! j) [0..<length (sc_links sc)]\<rparr>"
    by (subst Cons.IH) simp
  also have "\<dots> = sc\<lparr>sc_links := map (\<lambda>j. if j \<in> set (k # ks) then refresh sc (sc_links sc ! j) else sc_links sc ! j)
      [0..<length (sc_links sc)]\<rparr>"
    by (intro arg_cong [where f = "\<lambda>ls. sc\<lparr>sc_links := ls\<rparr>"] map_cong refl)
      (auto simp: refresh_at nth_list_update)
  finally show ?case .
qed

text \<open>
  After one end has moved, refreshing the links it lists brings all links up to date: \<open>sc'\<close> differs from
  a good scene \<open>sc\<close> in the position of \<open>e\<close> at most.
\<close>

lemma update_links_ok:
  assumes ok: "scene_ok sc"
    and same: "sc_links sc' = sc_links sc" "\<And>d. end_links sc' d = end_links sc d" "\<And>d. end_exists sc' d = end_exists sc d"
    and moved: "\<And>d. d \<noteq> e \<Longrightarrow> get_end_position sc' d = get_end_position sc d"
  shows "scene_ok (update_links e sc')"
proof -
  let ?l = "\<lambda>k. sc_links sc ! k" and ?n = "length (sc_links sc)"
  let ?l' = "\<lambda>k. if k \<in> set (end_links sc e) then refresh sc' (?l k) else ?l k"
  have upd: "update_links e sc' = sc'\<lparr>sc_links := map ?l' [0..<?n]\<rparr>"
    using same by (simp add: update_links_def fold_update_points)
  have "link_ok sc' k (?l' k)" if "k < ?n" for k
  proof -
    have lk: "link_ok sc k (?l k)" using ok that by (simp add: scene_ok_def)
    show ?thesis
    proof (cases "l_node2 (?l k)")
      case None
      with lk same(2,3) show ?thesis by (simp add: link_ok_def refresh_def)
    next
      case (Some d)
      have cur: "current_points sc' (?l k) d = current_points sc (?l k) d"
        if "k \<notin> set (end_links sc e)" "l_wired (?l k)"
      proof -
        have "e \<noteq> d" "e \<noteq> ToNode (l_node1 (?l k))" using that lk Some by (auto simp: link_ok_def)
        with moved show ?thesis by (simp add: current_points_def)
      qed
      show ?thesis using lk Some same(2,3) cur
        by (auto simp: link_ok_def refresh_def current_points_def)
    qed
  qed
  moreover have "\<forall>d. \<forall>k\<in>set (end_links sc' d). k < ?n" using ok same(2) by (simp add: scene_ok_def)
  ultimately show ?thesis
    unfolding upd scene_ok_def by (force simp del: if_split)
qed

section \<open>Every operation keeps the scene in order\<close>

lemma modify_node_links [simp]: "sc_links (modify_node i f sc) = sc_links sc"
  "sc_channels (modify_node i f sc) = sc_channels sc"
  by (simp_all add: modify_node_def split: option.split)

lemma modify_node_lookup:
  "map_of (sc_nodes (modify_node i f sc)) j =
     (if j = i then map_option f (map_of (sc_nodes sc) i) else map_of (sc_nodes sc) j)"
  by (simp add: modify_node_def split: option.split)

lemma modify_channel_links [simp]: "sc_links (modify_channel c f sc) = sc_links sc"
  "sc_nodes (modify_channel c f sc) = sc_nodes sc"
  by (simp_all add: modify_channel_def split: option.split)

lemma modify_channel_lookup:
  "map_of (sc_channels (modify_channel c f sc)) j =
     (if j = c then map_option f (map_of (sc_channels sc) c) else map_of (sc_channels sc) j)"
  by (simp add: modify_channel_def split: option.split)

lemma modify_node_ends:
  assumes "\<And>n. nv_links (f n) = nv_links n"
  shows "end_links (modify_node i f sc) d = end_links sc d" "end_exists (modify_node i f sc) d = end_exists sc d"
    "d \<noteq> ToNode i \<Longrightarrow> get_end_position (modify_node i f sc) d = get_end_position sc d"
  using assms
  by (auto simp: end_links_def end_exists_def get_end_position_def modify_node_lookup
      split: endpoint.split option.split)

lemma modify_node_position:
  "(\<And>n. node_position (f n) = node_position n) \<Longrightarrow> get_end_position (modify_node i f sc) d = get_end_position sc d"
  by (auto simp: get_end_position_def modify_node_lookup split: endpoint.split option.split)

lemma scene_ok_cong:
  assumes "scene_ok sc" and "sc_links sc' = sc_links sc" and "\<And>d. end_links sc' d = end_links sc d"
    and "\<And>d. end_exists sc d \<Longrightarrow> end_exists sc' d" and "\<And>d. end_exists sc d \<Longrightarrow> get_end_position sc' d = get_end_position sc d"
  shows "scene_ok sc'"
proof -
  have "link_ok sc' k l" if "link_ok sc k l" for k l
    using that assms(3-5) by (auto simp: link_ok_def current_points_def split: option.splits)
  with assms(1-3) show ?thesis by (simp add: scene_ok_def)
qed

lemma modify_node_ok:
  assumes "scene_ok sc" and "\<And>n. nv_links (f n) = nv_links n" and "\<And>n. node_position (f n) = node_position n"
  shows "scene_ok (modify_node i f sc)"
  using assms(1)
  by (rule scene_ok_cong) (simp_all add: modify_node_ends [OF assms(2)] modify_node_position [OF assms(3)])

lemma node_keeps [simp]:
  "nv_links (place p n) = nv_links n" "nv_links (appear n) = nv_links n" "nv_links (show_label n) = nv_links n"
  "node_position (appear n) = node_position n" "node_position (show_label n) = node_position n"
  "node_position (place p n) = p" "node_index (appear n) = node_index n"
  by (simp_all add: place_def appear_def show_label_def node_position_def Let_def split: option.split)

lemma node_set_position_ok: "scene_ok sc \<Longrightarrow> scene_ok (node_set_position i p sc)"
  unfolding node_set_position_def
  by (erule update_links_ok) (simp_all add: modify_node_ends)

lemma channel_set_position_ok: "scene_ok sc \<Longrightarrow> scene_ok (channel_set_position c p sc)"
  unfolding channel_set_position_def
  by (erule update_links_ok)
     (auto simp: end_links_def end_exists_def get_end_position_def modify_channel_lookup
       split: endpoint.split option.split)

lemma update_appearance_ok: "scene_ok sc \<Longrightarrow> scene_ok (update_appearance i sc)"
  by (auto simp: update_appearance_def Let_def intro!: node_set_position_ok modify_node_ok split: option.split)

lemma setters_ok:
  assumes "scene_ok sc"
  shows "scene_ok (set_label i t sc)" "scene_ok (set_selected i b sc)" "scene_ok (set_highlighted i b sc)"
    "scene_ok (set_size i v sc)" "scene_ok (set_color i c sc)"
  using assms
  by (auto simp: set_label_def set_selected_def set_highlighted_def set_size_def set_color_def node_position_def
      intro!: update_appearance_ok modify_node_ok)

lemma set_svg_icon_ok: "scene_ok sc \<Longrightarrow> set_svg_icon i h w ht al sc = Inr sc' \<Longrightarrow> scene_ok sc'"
  by (auto simp: set_svg_icon_def Let_def rbind_eq_Inr_iff rmap_eq_Inr_iff node_position_def
      intro!: update_appearance_ok modify_node_ok split: if_splits option.splits)

lemma Node_links [simp]: "nv_links (Node i) = []" "node_position (Node i) = (0, 0)"
  by (simp_all add: Node_def node_position_def appear_def Let_def)

lemma get_node_lookup:
  "map_of (sc_nodes (get_node i sc)) j =
     (case map_of (sc_nodes sc) j of Some n \<Rightarrow> Some n | None \<Rightarrow> if j = i then Some (Node i) else None)"
  by (auto simp: get_node_def dict_has_iff split: option.split)

lemma get_node_frame [simp]: "sc_links (get_node i sc) = sc_links sc" "sc_channels (get_node i sc) = sc_channels sc"
  by (simp_all add: get_node_def)

lemma get_channel_lookup:
  "map_of (sc_channels (get_channel c sc)) j =
     (case map_of (sc_channels sc) j of Some n \<Rightarrow> Some n | None \<Rightarrow> if j = c then Some (Channel c) else None)"
  by (auto simp: get_channel_def dict_has_iff split: option.split)

lemma get_channel_frame [simp]: "sc_links (get_channel c sc) = sc_links sc" "sc_nodes (get_channel c sc) = sc_nodes sc"
  by (simp_all add: get_channel_def)

lemma get_node_ok: "scene_ok sc \<Longrightarrow> scene_ok (get_node i sc)"
  by (erule scene_ok_cong)
     (auto simp: end_links_def end_exists_def get_end_position_def get_node_lookup split: endpoint.splits option.splits)

lemma get_channel_ok: "scene_ok sc \<Longrightarrow> scene_ok (get_channel c sc)"
  by (erule scene_ok_cong)
     (auto simp: end_links_def end_exists_def get_end_position_def get_channel_lookup Channel_def
       split: endpoint.splits option.splits)

lemma end_exists_get [simp]:
  "end_exists (get_node i sc) (ToNode i)" "end_exists (get_channel c sc) (ToChannel c)"
  "end_exists sc d \<Longrightarrow> end_exists (get_node i sc) d" "end_exists sc d \<Longrightarrow> end_exists (get_channel c sc) d"
  by (auto simp: end_exists_def get_node_lookup get_channel_lookup split: endpoint.splits option.splits)

text \<open>A new link is listed at both ends under the next free position.\<close>

lemma create_link_effect:
  assumes "e \<noteq> ToNode i"
  shows "sc_links (create_link i e sc) =
      sc_links sc @ [\<lparr>l_node1 = i, l_node2 = Some e, l_points = None, l_visible = True, l_wired = True\<rparr>]"
    "end_exists (create_link i e sc) d = end_exists sc d"
    "get_end_position (create_link i e sc) d = get_end_position sc d"
    "end_links (create_link i e sc) d =
      (if end_exists sc d \<and> (d = ToNode i \<or> d = e) then end_links sc d @ [length (sc_links sc)] else end_links sc d)"
  using assms
  by (auto simp: create_link_def Let_def add_link_def end_exists_def end_links_def get_end_position_def node_position_def
      modify_node_lookup modify_channel_lookup split: endpoint.splits option.splits)

lemma create_link_ok:
  assumes ok: "scene_ok sc" and ends: "end_exists sc (ToNode i)" "end_exists sc e" and ne: "e \<noteq> ToNode i"
  shows "scene_ok (create_link i e sc)"
proof -
  let ?sc = "create_link i e sc" and ?n = "length (sc_links sc)"
  note eff = create_link_effect [OF ne]
  have "link_ok ?sc k (sc_links ?sc ! k)" if "k < Suc ?n" for k
  proof (cases "k = ?n")
    case True
    then show ?thesis using ends ne by (simp add: eff link_ok_def)
  next
    case False
    with that have k: "k < ?n" by simp
    with ok have "link_ok sc k (sc_links sc ! k)" by (simp add: scene_ok_def)
    with k show ?thesis
      by (auto simp: eff link_ok_def current_points_def nth_append split: option.splits)
  qed
  moreover have "\<forall>d. \<forall>k\<in>set (end_links ?sc d). k < Suc ?n"
    using ok by (auto simp: eff scene_ok_def less_Suc_eq)
  ultimately show ?thesis by (simp add: scene_ok_def eff(1))
qed

lemma has_mobility_ok: "scene_ok sc \<Longrightarrow> scene_ok (snd (has_mobility ns i sc))"
  by (auto simp: has_mobility_def node_position_def intro!: modify_node_ok split: option.split)

lemma has_mobility_frame [simp]:
  "sc_links (snd (has_mobility ns i sc)) = sc_links sc"
  "end_exists (snd (has_mobility ns i sc)) d = end_exists sc d"
  by (auto simp: has_mobility_def modify_node_ends split: option.split)

text \<open>The pairs of ends a scan links, in order.\<close>

definition device_links :: "network \<Rightarrow> nat \<Rightarrow> sim_device \<Rightarrow> (nat \<times> endpoint) list" where
  "device_links ns i d =
     (if \<not> wired d then []
      else case sd_channel d of
          None \<Rightarrow> []
        | Some c \<Rightarrow> if length (ns_channel ns c) > 2 then [(i, ToChannel c)]
            else map (\<lambda>j. (i, ToNode j)) (filter (\<lambda>j. j \<noteq> i) (ns_channel ns c)))"

definition node_links :: "network \<Rightarrow> nat \<Rightarrow> (nat \<times> endpoint) list" where
  "node_links ns i = concat (map (device_links ns i) (sn_devices (ns_nodes ns ! i)))"

definition link_ends :: "scene \<Rightarrow> (nat \<times> endpoint option) list" where
  "link_ends sc = map (\<lambda>l. (l_node1 l, l_node2 l)) (sc_links sc)"

definition as_ends :: "(nat \<times> endpoint) list \<Rightarrow> (nat \<times> endpoint option) list" where
  "as_ends = map (\<lambda>(i, e). (i, Some e))"

lemma as_ends_simps [simp]: "as_ends [] = []" "as_ends ((i, e) # ps) = (i, Some e) # as_ends ps"
  "as_ends (ps @ qs) = as_ends ps @ as_ends qs"
  by (simp_all add: as_ends_def)

lemma update_links_ends [simp]: "link_ends (update_links e sc) = link_ends sc"
  by (auto simp: link_ends_def update_links_def fold_update_points intro!: nth_equalityI)

lemma link_ends_frame [simp]:
  "link_ends (modify_node i f sc) = link_ends sc" "link_ends (get_node i sc) = link_ends sc"
  "link_ends (get_channel c sc) = link_ends sc" "link_ends (modify_channel c g sc) = link_ends sc"
  "link_ends (node_set_position i p sc) = link_ends sc" "link_ends (channel_set_position c p sc) = link_ends sc"
  "link_ends (snd (has_mobility ns i sc)) = link_ends sc"
  by (simp_all add: link_ends_def node_set_position_def channel_set_position_def flip: link_ends_def)
     (simp_all add: link_ends_def)

lemma link_ends_appearance [simp]: "link_ends (update_appearance i sc) = link_ends sc"
  by (auto simp: update_appearance_def Let_def split: option.split)

lemma link_ends_create [simp]: "e \<noteq> ToNode i \<Longrightarrow> link_ends (create_link i e sc) = link_ends sc @ [(i, Some e)]"
  by (simp add: link_ends_def create_link_effect)

text \<open>One step of a scan: the scene stays in order, the node scanned stays in it, the links come in order.\<close>

definition scans :: "nat \<Rightarrow> scene \<Rightarrow> scene \<Rightarrow> (nat \<times> endpoint) list \<Rightarrow> bool" where
  "scans i sc sc' ps \<longleftrightarrow>
     (scene_ok sc \<and> end_exists sc (ToNode i) \<longrightarrow>
      scene_ok sc' \<and> end_exists sc' (ToNode i) \<and> link_ends sc' = link_ends sc @ as_ends ps)"

lemma scans_refl: "scans i sc sc []"
  by (simp add: scans_def)

lemma scans_trans: "scans i sc sc' ps \<Longrightarrow> scans i sc' sc'' qs \<Longrightarrow> scans i sc sc'' (ps @ qs)"
  by (auto simp: scans_def)

lemma scans_link:
  assumes "e \<noteq> ToNode i" and "scene_ok sc \<Longrightarrow> scene_ok sc'" and "\<And>d. end_exists sc d \<Longrightarrow> end_exists sc' d"
    and "end_exists sc' e" and "link_ends sc' = link_ends sc"
  shows "scans i sc (create_link i e (get_node i sc')) [(i, e)]"
  using assms by (auto simp: scans_def create_link_effect intro!: create_link_ok get_node_ok)

lemma scan_neighbour_scans:
  "scans i (fst st) (fst (scan_neighbour ns i st j)) (if j \<noteq> i then [(i, ToNode j)] else [])"
proof (cases "j = i")
  case True
  then show ?thesis
    by (cases st) (auto simp: scan_neighbour_def scans_def Let_def intro: get_node_ok)
next
  case False
  obtain sc g where st: "st = (sc, g)" by (cases st)
  have "scans i sc (create_link i (ToNode j) (get_node i (get_node j sc))) [(i, ToNode j)]"
    by (rule scans_link) (use False in \<open>auto intro: get_node_ok\<close>)
  moreover have "scans i sc (create_link i (ToNode j) (get_node i (snd (has_mobility ns j (get_node j sc))))) [(i, ToNode j)]"
    by (rule scans_link) (use False in \<open>auto intro: get_node_ok has_mobility_ok\<close>)
  ultimately show ?thesis
    using False by (auto simp: st scan_neighbour_def Let_def split: prod.split)
qed

lemma scan_neighbours_scans:
  "scans i (fst st) (fst (foldl (scan_neighbour ns i) st js)) (map (\<lambda>j. (i, ToNode j)) (filter (\<lambda>j. j \<noteq> i) js))"
proof (induction js arbitrary: st)
  case Nil
  show ?case by (simp add: scans_refl)
next
  case (Cons j js)
  have "scans i (fst st) (fst (foldl (scan_neighbour ns i) st (j # js)))
      ((if j \<noteq> i then [(i, ToNode j)] else []) @ map (\<lambda>j. (i, ToNode j)) (filter (\<lambda>j. j \<noteq> i) js))"
    using scans_trans [OF scan_neighbour_scans [of i st ns j] Cons.IH [of "scan_neighbour ns i st j"]] by simp
  then show ?case by (cases "j = i") simp_all
qed

lemma scan_device_scans:
  assumes "scan_device ns i st d = Inr st'"
  shows "scans i (fst st) (fst st') (device_links ns i d)"
proof (cases "wired d")
  case False
  with assms show ?thesis by (simp add: scan_device_def device_links_def scans_refl)
next
  case True
  with assms obtain c where c: "sd_channel d = Some c" by (auto simp: scan_device_def split: option.splits)
  show ?thesis
  proof (cases "length (ns_channel ns c) > 2")
    case True
    have "scans i (fst st) (create_link i (ToChannel c) (get_node i (get_channel c (fst st)))) [(i, ToChannel c)]"
      by (rule scans_link) (auto intro: get_channel_ok)
    with True c assms \<open>wired d\<close> show ?thesis
      by (auto simp: scan_device_def device_links_def split: prod.splits)
  next
    case False
    with c assms \<open>wired d\<close> scan_neighbours_scans [of i st ns "ns_channel ns c"] show ?thesis
      by (auto simp: scan_device_def device_links_def)
  qed
qed

lemma scan_devices_scans:
  "rfold (scan_device ns i) st ds = Inr st' \<Longrightarrow> scans i (fst st) (fst st') (concat (map (device_links ns i) ds))"
proof (induction ds arbitrary: st)
  case Nil
  then show ?case by (simp add: scans_refl)
next
  case (Cons d ds)
  then obtain u where "scan_device ns i st d = Inr u" "rfold (scan_device ns i) u ds = Inr st'"
    by (auto simp: rbind_eq_Inr_iff)
  with scans_trans [OF scan_device_scans Cons.IH] show ?case by simp
qed

lemma node_set_position_exists [simp]: "end_exists (node_set_position i p sc) d = end_exists sc d"
  by (simp add: node_set_position_def update_links_def fold_update_points modify_node_ends)

lemma update_appearance_exists [simp]: "end_exists (update_appearance i sc) d = end_exists sc d"
  by (auto simp: update_appearance_def Let_def modify_node_ends split: option.split)

lemma scan_node_effect:
  assumes "scan_node ns (sc, g) i = Inr (sc', g')" and "scene_ok sc"
  shows "scene_ok sc' \<and> link_ends sc' = link_ends sc @ as_ends (node_links ns i)"
proof -
  let ?sc = "get_node i sc"
  obtain st where st: "rfold (scan_device ns i) st (sn_devices (ns_nodes ns ! i)) = Inr (sc', g')"
    and start: "scene_ok (fst st)" "end_exists (fst st) (ToNode i)" "link_ends (fst st) = link_ends sc"
  proof (cases "sn_mobility (ns_nodes ns ! i)")
    case None
    with assms show ?thesis by (intro that [of "(?sc, g @ [AddNode (node_name i)])"])
        (auto simp: scan_node_def Let_def intro: get_node_ok)
  next
    case (Some p)
    let ?moved = "node_set_position i (transform_point_simulation_to_canvas (fst p) (snd p))
      (set_color i (ColorChannels 0xffff 0 0) ?sc)"
    have "scene_ok ?moved" using assms(2) by (intro node_set_position_ok setters_ok get_node_ok)
    moreover have "end_exists ?moved (ToNode i)" "link_ends ?moved = link_ends sc"
      by (simp_all add: set_color_def modify_node_ends)
    ultimately show ?thesis using assms Some by (intro that [of "(?moved, g)"]) (auto simp: scan_node_def Let_def)
  qed
  from scan_devices_scans [OF st] start show ?thesis by (simp add: scans_def node_links_def)
qed

lemma scan_nodes_effect:
  assumes "rfold (scan_node ns) (sc, g) is = Inr (sc', g')" and "scene_ok sc"
  shows "scene_ok sc' \<and> link_ends sc' = link_ends sc @ as_ends (concat (map (node_links ns) is))"
  using assms
proof (induction "is" arbitrary: sc g)
  case Nil
  then show ?case by simp
next
  case (Cons i "is")
  then obtain sc1 g1 where "scan_node ns (sc, g) i = Inr (sc1, g1)" "rfold (scan_node ns) (sc1, g1) is = Inr (sc', g')"
    by (auto simp: rbind_eq_Inr_iff)
  with scan_node_effect Cons show ?case by simp
qed

lemma place_named_effect:
  "place_named sc np = Inr sc' \<Longrightarrow> scene_ok sc \<Longrightarrow> scene_ok sc' \<and> link_ends sc' = link_ends sc"
  by (auto simp: place_named_def node_set_position_ok channel_set_position_ok split: list.splits if_splits)

lemma place_all_effect:
  "rfold place_named sc nps = Inr sc' \<Longrightarrow> scene_ok sc \<Longrightarrow> scene_ok sc' \<and> link_ends sc' = link_ends sc"
  by (erule rfold_invariant [where P = "\<lambda>s. scene_ok s \<and> link_ends s = link_ends sc"])
     (auto dest: place_named_effect)

lemma empty_scene_ok: "scene_ok empty_scene"
  by (simp add: scene_ok_def empty_scene_def end_links_def split: endpoint.split)

text \<open>
  C8: scanning the network creates, node by node and device by device, exactly the links of the wired
  non-virtual devices: one to the channel when it has more than two devices, otherwise one to every
  other node on it (so a point-to-point link appears once from either side); and afterwards every link
  is listed at its ends and drawn, if at all, between their positions.
\<close>

theorem scan_topology_links:
  assumes "scan_topology ns layout empty_scene = Inr sc"
  shows "scene_ok sc \<and> link_ends sc = as_ends (concat (map (node_links ns) [0..<length (ns_nodes ns)]))"
proof -
  note empty_scene_ok
  moreover from assms obtain sc1 g where "rfold (scan_node ns) (empty_scene, []) [0..<length (ns_nodes ns)] = Inr (sc1, g)"
    and "rfold place_named sc1 (layout g) = Inr sc"
    by (auto simp: scan_topology_def rbind_eq_Inr_iff)
  ultimately show ?thesis
    using scan_nodes_effect place_all_effect by (fastforce simp: link_ends_def empty_scene_def)
qed

text \<open>A fixed station with a point-to-point cable to a mobile one, and a cable of three.\<close>

definition sample_net :: network where
  "sample_net =
     \<lparr>ns_nodes = [\<lparr>sn_mobility = None, sn_devices = [\<lparr>sd_class = ''PointToPointNetDevice'', sd_channel = Some 7\<rparr>]\<rparr>,
                 \<lparr>sn_mobility = Some (10, 20), sn_devices = [\<lparr>sd_class = ''PointToPointNetDevice'', sd_channel = Some 7\<rparr>,
                    \<lparr>sd_class = ''CsmaNetDevice'', sd_channel = Some 9\<rparr>]\<rparr>],
      ns_channel = (\<lambda>c. if c = 7 then [0, 1] else [1, 1, 1])\<rparr>"

definition sample_layout :: "graph_cmd list \<Rightarrow> (string \<times> point) list" where
  "sample_layout g = [(''Node 0'', (5, 5)), (''Channel 9'', (1, 2))]"

lemma sample_scan: "\<exists>sc. scan_topology sample_net sample_layout empty_scene = Inr sc"
proof -
  have "(case scan_topology sample_net sample_layout empty_scene of Inl e \<Rightarrow> False | Inr sc \<Rightarrow> True)"
    by code_simp
  then show ?thesis by (cases "scan_topology sample_net sample_layout empty_scene") auto
qed

theorem scan_topology_links_witness:
  "\<exists>sc. scan_topology sample_net sample_layout empty_scene = Inr sc \<and> scene_ok sc \<and>
     link_ends sc = [(0, Some (ToNode 1)), (1, Some (ToNode 0)), (1, Some (ToChannel 9))]"
proof -
  obtain sc where sc: "scan_topology sample_net sample_layout empty_scene = Inr sc" using sample_scan by blast
  have "as_ends (concat (map (node_links sample_net) [0..<length (ns_nodes sample_net)])) =
      [(0, Some (ToNode 1)), (1, Some (ToNode 0)), (1, Some (ToChannel 9))]"
    by code_simp
  with scan_topology_links [OF sc] sc show ?thesis by simp
qed

section \<open>Following the mobility models\<close>

lemma update_node_position_ok: "scene_ok sc \<Longrightarrow> scene_ok (update_node_position ns sc i)"
  using has_mobility_ok [of sc ns i]
  by (auto simp: update_node_position_def node_set_position_ok split: prod.split option.split)

lemma update_node_positions_ok: "scene_ok sc \<Longrightarrow> scene_ok (update_node_positions ns sc)"
  unfolding update_node_positions_def
  by (rule foldl_invariant [where P = scene_ok]) (auto intro: update_node_position_ok)

section \<open>Colours\<close>

lemma keep_color_bits: "(v::int) AND 0xffffff00 = 256 * (v div 256 mod 2 ^ 24)"
proof -
  have m: "(0xffffff00::int) = push_bit 8 (mask 24)" by (simp add: push_bit_eq_mult mask_eq_exp_minus_1)
  have "v AND 0xffffff00 = push_bit 8 (take_bit 24 (drop_bit 8 v))"
    unfolding m by (rule bit_eqI) (auto simp: bit_simps)
  also have "\<dots> = 256 * (v div 256 mod 2 ^ 24)"
    by (simp add: push_bit_eq_mult take_bit_eq_mod drop_bit_eq_div)
  finally show ?thesis .
qed

lemma or_low_byte: "0 \<le> a \<Longrightarrow> a < 256 \<Longrightarrow> (256 * k) OR a = 256 * k + (a::int)"
proof -
  assume a: "0 \<le> a" "a < 256"
  have "a = take_bit 8 a" using a by (simp add: take_bit_eq_mod)
  then have d: "\<not> bit (push_bit 8 k) n \<or> \<not> bit a n" for n by (metis bit_push_bit_iff_int bit_take_bit_iff not_le)
  have "push_bit 8 k AND a = 0"
  proof (rule bit_eqI)
    fix n
    show "bit (push_bit 8 k AND a) n = bit 0 n" using d [of n] by (simp add: bit_and_iff del: bit_push_bit_iff_int)
  qed
  then have "push_bit 8 k + a = push_bit 8 k OR a" by (rule disjunctive_add_eq_or)
  then show "(256 * k) OR a = 256 * k + a" by (simp add: push_bit_eq_mult mult.commute)
qed

text \<open>
  C38: whatever number a colour is, what a node is filled with is a 32-bit colour: the upper three bytes
  are those of the number, and the lowest is the opacity, half when an image stands behind the node.
\<close>

theorem node_fill_color:
  "el_fill (nv_item (appear n)) = 256 * (nv_color n div 256 mod 2 ^ 24) + (if nv_svg n = None then 255 else 128) \<and>
   el_fill (nv_item (appear n)) \<in> {0..<2 ^ 32}"
proof -
  let ?a = "if nv_svg n = None then 255 else 128 :: int"
  have a: "0 \<le> ?a" "?a < 256" by simp_all
  have "el_fill (nv_item (appear n)) = (nv_color n AND 0xffffff00) OR ?a" by (simp add: appear_def Let_def)
  then have "el_fill (nv_item (appear n)) = 256 * (nv_color n div 256 mod 2 ^ 24) + ?a"
    unfolding keep_color_bits or_low_byte [OF a] .
  moreover have "0 \<le> nv_color n div 256 mod 2 ^ 24" "nv_color n div 256 mod 2 ^ 24 < 2 ^ 24"
    by (rule pos_mod_sign, simp, rule pos_mod_bound, simp)
  ultimately show ?thesis using a by auto
qed

end
