(* ===== verification/VisView.thy ===== *)
theory VisView
  imports VisScene
begin

text \<open>
  The view of \<open>visualizer/core.py\<close>: what class \<open>Visualizer\<close> keeps beside the scene (selection, mode,
  samples and arrows, scroll and zoom, drags) and the handlers that change it. The canvas and the
  mathematical functions come from libraries and are parameters. Signals and information windows,
  whose handlers belong to plugins, are recorded in the order they are called.
\<close>

section \<open>What the libraries provide\<close>

text \<open>
  The conversions between canvas points and pixels at a zoom; the values the zoom and scroll
  adjustments keep of what is assigned to them; where a new zoom or a \<open>scroll_to\<close> leaves the scroll.
\<close>

record canvas_lib =
  to_px :: "rat \<Rightarrow> point \<Rightarrow> point"
  from_px :: "rat \<Rightarrow> point \<Rightarrow> point"
  keep_zoom :: "rat \<Rightarrow> rat"
  keep_scroll :: "rat \<Rightarrow> point \<Rightarrow> point"
  rescale :: "rat \<Rightarrow> rat \<Rightarrow> point \<Rightarrow> point"
  scroll_to :: "rat \<Rightarrow> point \<Rightarrow> point"
  line_clipping :: "point \<Rightarrow> point \<Rightarrow> point \<times> point \<Rightarrow> point \<times> point"

record math_lib =
  math_log :: "rat \<Rightarrow> rat"
  math_atan2 :: "rat \<Rightarrow> rat \<Rightarrow> rat"
  pi_over_2 :: rat

section \<open>State\<close>

datatype transmissions_mode = ShowAll | ShowNone | ShowSelected

record sample =
  sm_transmitter :: nat
  sm_receiver :: nat
  sm_bytes :: nat

text \<open>An arrow with its label; the label's text is the rate, on the side where it reads upright.\<close>

record arrow =
  ar_shown :: bool
  ar_width :: rat
  ar_points :: "point \<times> point"
  ar_rate :: rat
  ar_upright :: bool
  ar_label_pos :: point

datatype view_call =
    WindowUpdate nat
  | Emit string
  | NodeMenu nat
  | PushSelected "nat option"

record viz =
  vz_scene :: scene
  vz_selected :: "nat option"
  vz_speed :: rat
  vz_windows :: "nat list"
  vz_tx_arrows :: "arrow list"
  vz_last_tx :: "sample list list"
  vz_drop_arrows :: "arrow list"
  vz_last_drops :: "sample list list"
  vz_stray :: "arrow list"
  vz_mode :: transmissions_mode
  vz_interest :: "nat list"
  vz_panning :: "(point \<times> point) option"
  vz_node_size :: rat
  vz_smoothing :: rat
  vz_period :: rat
  vz_drag :: "(point \<times> point) option"
  vz_follow :: "nat option"
  vz_zoom :: rat
  vz_scroll :: point
  vz_page :: point
  vz_shell :: bool
  vz_ipython :: bool
  vz_calls :: "view_call list"

definition SAMPLE_PERIOD :: rat where "SAMPLE_PERIOD = 1 / 10"
definition DEFAULT_TRANSMISSIONS_MEMORY :: rat where "DEFAULT_TRANSMISSIONS_MEMORY = 5"

text \<open>\<open>__init__\<close> with the adjustments that \<open>create_gui\<close> makes, for \<open>n\<close> nodes and a given page.\<close>

definition Visualizer :: "nat \<Rightarrow> point \<Rightarrow> viz" where
  "Visualizer n page =
     \<lparr>vz_scene = empty_scene, vz_selected = None, vz_speed = 1, vz_windows = [], vz_tx_arrows = [], vz_last_tx = [],
      vz_drop_arrows = [], vz_last_drops = [], vz_stray = [], vz_mode = ShowAll, vz_interest = [0..<n], vz_panning = None,
      vz_node_size = DEFAULT_NODE_SIZE, vz_smoothing = DEFAULT_TRANSMISSIONS_MEMORY * (1 / 10), vz_period = SAMPLE_PERIOD,
      vz_drag = None, vz_follow = None, vz_zoom = 1, vz_scroll = (0, 0), vz_page = page, vz_shell = False,
      vz_ipython = False, vz_calls = []\<rparr>"

section \<open>Selection\<close>

definition selected_list :: "viz \<Rightarrow> nat list" where
  "selected_list v = (case vz_selected v of None \<Rightarrow> [] | Some i \<Rightarrow> [i])"

definition set_show_transmissions_mode :: "nat \<Rightarrow> transmissions_mode \<Rightarrow> viz \<Rightarrow> viz" where
  "set_show_transmissions_mode n mode v =
     v\<lparr>vz_mode := mode,
       vz_interest := (case mode of ShowAll \<Rightarrow> [0..<n] | ShowNone \<Rightarrow> [] | ShowSelected \<Rightarrow> selected_list v)\<rparr>"

text \<open>The radio buttons call it when they become active.\<close>

definition toggled :: "nat \<Rightarrow> transmissions_mode \<Rightarrow> bool \<Rightarrow> viz \<Rightarrow> viz" where
  "toggled n mode active v = (if active then set_show_transmissions_mode n mode v else v)"

text \<open>What may be passed for a node: an object of the simulator, a number, a view of one, None, or anything else.\<close>

datatype node_ref = SimNode nat | NodeNumber int | NodeOf nat | NoNode | OtherObject

definition lookup_view :: "viz \<Rightarrow> int \<Rightarrow> nat pyres" where
  "lookup_view v i = (if i \<ge> 0 \<and> dict_has (sc_nodes (vz_scene v)) (nat i) then Inr (nat i) else Inl KeyError)"

definition resolve_node :: "viz \<Rightarrow> node_ref \<Rightarrow> nat option pyres" where
  "resolve_node v r =
     (case r of
        SimNode i \<Rightarrow> rmap Some (lookup_view v (int i))
      | NodeNumber i \<Rightarrow> rmap Some (lookup_view v i)
      | NodeOf i \<Rightarrow> Inr (Some i)
      | NoNode \<Rightarrow> Inr None
      | OtherObject \<Rightarrow> Inl TypeError)"

text \<open>
  \<open>ipy\<close>: the program runs under IPython. The shell object exists once the shell has been opened. What a
  handler that raises has done so far stays done, so the view it leaves is given beside the exception.
\<close>

definition update_ipython_selected_node :: "bool \<Rightarrow> viz \<Rightarrow> viz \<times> pyerr option" where
  "update_ipython_selected_node ipy v =
     (if \<not> ipy then (v, None)
      else if \<not> vz_ipython v then (v, Some AttributeError)
      else (v\<lparr>vz_calls := vz_calls v @ [PushSelected (vz_selected v)]\<rparr>, None))"

definition mark :: "bool \<Rightarrow> nat option \<Rightarrow> scene \<Rightarrow> scene" where
  "mark b i sc = (case i of None \<Rightarrow> sc | Some i \<Rightarrow> set_selected i b sc)"

definition select_node :: "bool \<Rightarrow> node_ref \<Rightarrow> viz \<Rightarrow> viz \<times> pyerr option" where
  "select_node ipy r v =
     (case resolve_node v r of
        Inl e \<Rightarrow> (v, Some e)
      | Inr node \<Rightarrow>
          if node = vz_selected v then (v, None)
          else (let v = v\<lparr>vz_scene := mark True node (mark False (vz_selected v) (vz_scene v)), vz_selected := node\<rparr>;
                    v = (if vz_mode v = ShowSelected then v\<lparr>vz_interest := selected_list v\<rparr> else v)
                in update_ipython_selected_node ipy v))"

section \<open>Scroll and zoom\<close>

definition set_zoom :: "canvas_lib \<Rightarrow> rat \<Rightarrow> viz \<Rightarrow> viz" where
  "set_zoom L z v =
     (let z' = keep_zoom L z in
      if z' = vz_zoom v then v else v\<lparr>vz_zoom := z', vz_scroll := rescale L (vz_zoom v) z' (vz_scroll v)\<rparr>)"

definition set_scroll :: "canvas_lib \<Rightarrow> point \<Rightarrow> viz \<Rightarrow> viz" where
  "set_scroll L p v = v\<lparr>vz_scroll := keep_scroll L (vz_zoom v) p\<rparr>"

text \<open>The two corners of what is visible, in canvas units.\<close>

definition visible_corners :: "canvas_lib \<Rightarrow> viz \<Rightarrow> point \<times> point" where
  "visible_corners L v =
     (from_px L (vz_zoom v) (vz_scroll v),
      from_px L (vz_zoom v) (fst (vz_scroll v) + fst (vz_page v), snd (vz_scroll v) + snd (vz_page v)))"

definition begin_panning :: "point \<Rightarrow> viz \<Rightarrow> viz" where
  "begin_panning pointer v = v\<lparr>vz_panning := Some (pointer, vz_scroll v)\<rparr>"

definition end_panning :: "viz \<Rightarrow> viz" where
  "end_panning v = (if vz_panning v = None then v else v\<lparr>vz_panning := None\<rparr>)"

definition panning_motion :: "canvas_lib \<Rightarrow> point \<Rightarrow> viz \<Rightarrow> viz pyres" where
  "panning_motion L pointer v =
     (case vz_panning v of
        None \<Rightarrow> Inl AssertionError
      | Some ((mx0, my0), (cx0, cy0)) \<Rightarrow>
          Inr (set_scroll L (cx0 - (fst pointer - mx0), cy0 - (snd pointer - my0)) v))"

definition canvas_button_press :: "nat \<Rightarrow> point \<Rightarrow> viz \<Rightarrow> viz \<times> bool" where
  "canvas_button_press button pointer v = (if button = 2 then (begin_panning pointer v, True) else (v, False))"

definition canvas_button_release :: "nat \<Rightarrow> viz \<Rightarrow> viz \<times> bool" where
  "canvas_button_release button v = (if button = 2 then (end_panning v, True) else (v, False))"

datatype scroll_direction = ScrollUp | ScrollDown | ScrollOther

definition canvas_scroll_event :: "canvas_lib \<Rightarrow> scroll_direction \<Rightarrow> viz \<Rightarrow> viz \<times> bool" where
  "canvas_scroll_event L d v =
     (case d of
        ScrollUp \<Rightarrow> (set_zoom L (vz_zoom v * (125 / 100)) v, True)
      | ScrollDown \<Rightarrow> (set_zoom L (vz_zoom v / (125 / 100)) v, True)
      | ScrollOther \<Rightarrow> (v, False))"

definition center_at :: "canvas_lib \<Rightarrow> point \<Rightarrow> viz \<Rightarrow> viz" where
  "center_at L p v =
     (let q = to_px L (vz_zoom v) p in
      set_scroll L (fst q - fst (vz_page v) / 2, snd q - snd (vz_page v) / 2) v)"

definition center_on_node :: "canvas_lib \<Rightarrow> node_ref \<Rightarrow> viz \<Rightarrow> viz pyres" where
  "center_on_node L r v =
     (if r = NoNode then Inl TypeError
      else rmap (\<lambda>i. case i of None \<Rightarrow> v | Some i \<Rightarrow> center_at L (get_end_position (vz_scene v) (ToNode i)) v)
        (resolve_node v r))"

definition set_follow_node :: "node_ref \<Rightarrow> viz \<Rightarrow> viz pyres" where
  "set_follow_node r v =
     (case r of
        SimNode i \<Rightarrow> rmap (\<lambda>i. v\<lparr>vz_follow := Some i\<rparr>) (lookup_view v (int i))
      | NodeOf i \<Rightarrow> Inr (v\<lparr>vz_follow := Some i\<rparr>)
      | _ \<Rightarrow> Inr (v\<lparr>vz_follow := None\<rparr>))"

text \<open>\<open>_update_node_positions\<close>: the positions of \<open>update_node_position\<close>, and the scroll after the followed node.\<close>

definition follow_position :: "canvas_lib \<Rightarrow> network \<Rightarrow> viz \<Rightarrow> nat \<Rightarrow> viz" where
  "follow_position L ns v i =
     (let moves = fst (has_mobility ns i (vz_scene v)) \<and> mobile ns i;
          v = v\<lparr>vz_scene := update_node_position ns (vz_scene v) i\<rparr>
      in if moves \<and> vz_follow v = Some i then center_at L (get_end_position (vz_scene v) (ToNode i)) v else v)"

definition follow_positions :: "canvas_lib \<Rightarrow> network \<Rightarrow> viz \<Rightarrow> viz" where
  "follow_positions L ns v = foldl (follow_position L ns) v (dict_keys (sc_nodes (vz_scene v)))"

definition positions :: "scene \<Rightarrow> point list" where
  "positions sc = map (\<lambda>kn. node_position (snd kn)) (sc_nodes sc)"

text \<open>\<open>autoscale_view\<close>: the nodes' box, and the zoom and scroll for it.\<close>

definition fit_box :: "canvas_lib \<Rightarrow> rat \<Rightarrow> rat \<Rightarrow> rat \<Rightarrow> rat \<Rightarrow> viz \<Rightarrow> viz" where
  "fit_box L min_x min_y max_x max_y v =
     (let min_px = to_px L (vz_zoom v) (min_x, min_y);
          max_px = to_px L (vz_zoom v) (max_x, max_y);
          new_dx = 3 / 2 * (fst max_px - fst min_px);
          new_dy = 3 / 2 * (snd max_px - snd min_px)
      in if new_dx = 0 \<or> new_dy = 0 then v
         else
           (let v = set_zoom L (min (fst (vz_page v) / new_dx) (snd (vz_page v) / new_dy)) v;
                corners = visible_corners L v;
                width = fst (snd corners) - fst (fst corners);
                height = snd (snd corners) - snd (fst corners)
            in v\<lparr>vz_scroll := scroll_to L (vz_zoom v)
                   ((min_x + max_x) / 2 - width / 2, (min_y + max_y) / 2 - height / 2)\<rparr>))"

definition autoscale_view :: "canvas_lib \<Rightarrow> network \<Rightarrow> viz \<Rightarrow> viz" where
  "autoscale_view L ns v =
     (if sc_nodes (vz_scene v) = [] then v
      else
        (let v = follow_positions L ns v;
             ps = positions (vz_scene v)
         in fit_box L (Min (set (map fst ps))) (Min (set (map snd ps))) (Max (set (map fst ps))) (Max (set (map snd ps))) v))"

section \<open>Samples\<close>

text \<open>The loop \<open>while len(xs) > n: xs.pop(0)\<close>.\<close>

fun keep_last :: "nat \<Rightarrow> 'a list \<Rightarrow> 'a list" where
  "keep_last n xs = (if length xs > n then keep_last n (tl xs) else xs)"

declare keep_last.simps [simp del]

definition smooth_factor :: "viz \<Rightarrow> nat" where
  "smooth_factor v = nat \<lfloor>vz_smoothing v * 10\<rfloor>"

definition do_simulation_periodic_update :: "sample list \<Rightarrow> sample list \<Rightarrow> viz \<Rightarrow> viz" where
  "do_simulation_periodic_update transmissions drops v =
     v\<lparr>vz_last_tx := keep_last (smooth_factor v) (vz_last_tx v @ [transmissions]),
       vz_last_drops := keep_last (smooth_factor v) (vz_last_drops v @ [drops])\<rparr>"

text \<open>Bytes and number of the samples with one key, over all remembered periods.\<close>

definition add_sample :: "(sample \<Rightarrow> 'k) \<Rightarrow> ('k, nat \<times> nat) dict \<Rightarrow> sample \<Rightarrow> ('k, nat \<times> nat) dict" where
  "add_sample key d s =
     (let old = (case map_of d (key s) of None \<Rightarrow> (0, 0) | Some p \<Rightarrow> p) in
      dict_set (key s) (fst old + sm_bytes s, snd old + 1) d)"

definition average :: "(sample \<Rightarrow> 'k) \<Rightarrow> sample list list \<Rightarrow> ('k, nat \<times> nat) dict" where
  "average key sets = foldl (foldl (add_sample key)) [] sets"

definition transmission_key :: "sample \<Rightarrow> nat \<times> nat" where
  "transmission_key s = (sm_transmitter s, sm_receiver s)"

section \<open>Arrows\<close>

definition hide :: "arrow \<Rightarrow> arrow" where "hide a = a\<lparr>ar_shown := False\<rparr>"

definition new_arrow :: arrow where
  "new_arrow = \<lparr>ar_shown = True, ar_width = 2, ar_points = ((0, 0), (0, 0)), ar_rate = 0, ar_upright = True,
     ar_label_pos = (0, 0)\<rparr>"

definition line_width :: "math_lib \<Rightarrow> nat \<Rightarrow> nat \<Rightarrow> rat \<Rightarrow> rat \<Rightarrow> rat pyres" where
  "line_width M bytes count period k =
     (if count = 0 \<or> period = 0 then Inl ZeroDivisionError
      else if of_nat bytes / of_nat count / period \<le> 0 then Inl ValueError
      else Inr (max (1 / 10) (math_log M (of_nat bytes / of_nat count / period) * k)))"

definition kbps :: "nat \<Rightarrow> nat \<Rightarrow> rat \<Rightarrow> rat" where
  "kbps bytes count period = of_nat (bytes * 8) / 1000 / of_nat count / period"

text \<open>The middle of what is visible of a line.\<close>

definition get_label_over_line_position :: "canvas_lib \<Rightarrow> viz \<Rightarrow> point \<times> point \<Rightarrow> point" where
  "get_label_over_line_position L v line =
     (let corners = visible_corners L v;
          clip = line_clipping L (fst corners) (snd corners) line
      in ((fst (fst clip) + fst (snd clip)) / 2, (snd (fst clip) + snd (snd clip)) / 2))"

text \<open>
  The loop over the averages: an arrow is taken from the end of the old ones or made, shown, and
  drawn. An exception leaves it shown, and with those drawn so far out of the old list.
\<close>

fun draw_arrows ::
  "('k \<Rightarrow> scene \<Rightarrow> scene) \<Rightarrow> ('k \<times> (nat \<times> nat) \<Rightarrow> scene \<Rightarrow> arrow \<Rightarrow> arrow pyres) \<Rightarrow>
   ('k \<times> (nat \<times> nat)) list \<Rightarrow> scene \<Rightarrow> arrow list \<Rightarrow> arrow list \<Rightarrow> scene \<times> arrow list \<times> arrow list \<times> pyerr option" where
  "draw_arrows look render [] sc old new = (sc, old, new, None)"
| "draw_arrows look render (kv # kvs) sc old new =
     (let sc = look (fst kv) sc;
          a = (if old = [] then new_arrow else last old)\<lparr>ar_shown := True\<rparr>
      in case render kv sc a of
           Inl e \<Rightarrow> (sc, butlast old, new @ [a], Some e)
         | Inr a' \<Rightarrow> draw_arrows look render kvs sc (butlast old) (new @ [a']))"

definition render_transmission :: "canvas_lib \<Rightarrow> math_lib \<Rightarrow> viz \<Rightarrow> (nat \<times> nat) \<times> (nat \<times> nat) \<Rightarrow> scene \<Rightarrow> arrow \<Rightarrow> arrow pyres" where
  "render_transmission L M v kv sc a =
     (case kv of ((transmitter_id, receiver_id), (rx_bytes, rx_count)) \<Rightarrow>
      rmap (\<lambda>w.
        (let p1 = get_end_position sc (ToNode transmitter_id);
             p2 = get_end_position sc (ToNode receiver_id);
             angle = math_atan2 M (snd p2 - snd p1) (fst p2 - fst p1)
         in a\<lparr>ar_width := w, ar_points := (p1, p2), ar_rate := kbps rx_bytes rx_count (vz_period v),
              ar_upright := (- pi_over_2 M \<le> angle \<and> angle \<le> pi_over_2 M),
              ar_label_pos := get_label_over_line_position L v (p1, p2)\<rparr>))
        (line_width M rx_bytes rx_count (vz_period v) (vz_node_size v / 5)))"

definition look_transmission :: "nat \<times> nat \<Rightarrow> scene \<Rightarrow> scene" where
  "look_transmission key sc = get_node (snd key) (get_node (fst key) sc)"

definition update_transmissions_view :: "canvas_lib \<Rightarrow> math_lib \<Rightarrow> viz \<Rightarrow> viz \<times> pyerr option" where
  "update_transmissions_view L M v =
     (case draw_arrows look_transmission (render_transmission L M v) (average transmission_key (vz_last_tx v))
             (vz_scene v) (map hide (vz_tx_arrows v)) [] of
        (sc, old, new, None) \<Rightarrow> (v\<lparr>vz_scene := sc, vz_tx_arrows := new @ old\<rparr>, None)
      | (sc, old, new, Some e) \<Rightarrow> (v\<lparr>vz_scene := sc, vz_tx_arrows := old, vz_stray := vz_stray v @ new\<rparr>, Some e))"

text \<open>A drop is an arrow from the node to the bottom of the screen.\<close>

definition bottom_edge :: "canvas_lib \<Rightarrow> viz \<Rightarrow> rat" where
  "bottom_edge L v = snd (from_px L (vz_zoom v) (0, snd (vz_scroll v) + snd (vz_page v)))"

definition render_drop :: "canvas_lib \<Rightarrow> math_lib \<Rightarrow> viz \<Rightarrow> nat \<times> (nat \<times> nat) \<Rightarrow> scene \<Rightarrow> arrow \<Rightarrow> arrow pyres" where
  "render_drop L M v kv sc a =
     (case kv of (transmitter_id, (drop_bytes, drop_count)) \<Rightarrow>
      rmap (\<lambda>w.
        (let p1 = get_end_position sc (ToNode transmitter_id);
             p2 = (fst p1, bottom_edge L v)
         in a\<lparr>ar_width := w, ar_points := (p1, p2), ar_rate := kbps drop_bytes drop_count (vz_period v),
              ar_label_pos := ((fst p1 + fst p2) / 2, (snd p1 + snd p2) / 2)\<rparr>))
        (line_width M drop_bytes drop_count (vz_period v) (vz_node_size v / 5)))"

definition update_drops_view :: "canvas_lib \<Rightarrow> math_lib \<Rightarrow> viz \<Rightarrow> viz \<times> pyerr option" where
  "update_drops_view L M v =
     (case draw_arrows get_node (render_drop L M v) (average sm_transmitter (vz_last_drops v))
             (vz_scene v) (map hide (vz_drop_arrows v)) [] of
        (sc, old, new, None) \<Rightarrow> (v\<lparr>vz_scene := sc, vz_drop_arrows := new @ old\<rparr>, None)
      | (sc, old, new, Some e) \<Rightarrow> (v\<lparr>vz_scene := sc, vz_drop_arrows := old, vz_stray := vz_stray v @ new\<rparr>, Some e))"

definition call :: "view_call \<Rightarrow> viz \<Rightarrow> viz" where
  "call c v = v\<lparr>vz_calls := vz_calls v @ [c]\<rparr>"

definition update_view :: "canvas_lib \<Rightarrow> math_lib \<Rightarrow> network \<Rightarrow> viz \<Rightarrow> viz \<times> pyerr option" where
  "update_view L M ns v =
     (let v = follow_positions L ns v;
          v = foldl (\<lambda>v w. call (WindowUpdate w) v) v (vz_windows v)
      in case update_transmissions_view L M v of
           (v, Some e) \<Rightarrow> (v, Some e)
         | (v, None) \<Rightarrow>
             (case update_drops_view L M v of
                (v, Some e) \<Rightarrow> (v, Some e)
              | (v, None) \<Rightarrow> (call (Emit ''update-view'') v, None)))"

section \<open>Dragging a node\<close>

text \<open>\<open>node_drag_motion\<close> gives the position it assigns to the mobility model.\<close>

definition mobility_of :: "network \<Rightarrow> nat \<Rightarrow> point option" where
  "mobility_of ns i = (if i < length (ns_nodes ns) then sn_mobility (ns_nodes ns ! i) else None)"

definition begin_node_drag :: "canvas_lib \<Rightarrow> network \<Rightarrow> point \<Rightarrow> nat \<Rightarrow> viz \<Rightarrow> viz" where
  "begin_node_drag L ns pointer i v =
     (case mobility_of ns i of
        None \<Rightarrow> v
      | Some pos \<Rightarrow> if vz_drag v \<noteq> None then v else v\<lparr>vz_drag := Some (from_px L (vz_zoom v) pointer, pos)\<rparr>)"

definition node_drag_motion :: "canvas_lib \<Rightarrow> network \<Rightarrow> point \<Rightarrow> nat \<Rightarrow> viz \<Rightarrow> viz \<times> point option" where
  "node_drag_motion L ns pointer i v =
     (case (mobility_of ns i, vz_drag v) of
        (Some _, Some ((canvas_x0, canvas_y0), (sim_x0, sim_y0))) \<Rightarrow>
          (let c = from_px L (vz_zoom v) pointer;
               x = sim_x0 + transform_distance_canvas_to_simulation (fst c - canvas_x0);
               y = sim_y0 + transform_distance_canvas_to_simulation (snd c - canvas_y0)
           in (v\<lparr>vz_scene := node_set_position i (transform_point_simulation_to_canvas x y) (vz_scene v)\<rparr>, Some (x, y)))
      | _ \<Rightarrow> (v, None))"

definition end_node_drag :: "viz \<Rightarrow> viz" where
  "end_node_drag v = (if vz_drag v = None then v else v\<lparr>vz_drag := None\<rparr>)"

definition popup_node_menu :: "nat \<Rightarrow> viz \<Rightarrow> viz" where
  "popup_node_menu i v = call (NodeMenu i) v"

text \<open>A handler that ends by \<open>return b\<close> after a call that may raise; \<open>on_root_button_press_event\<close> returns None otherwise.\<close>

definition returning :: "bool \<Rightarrow> viz \<times> pyerr option \<Rightarrow> viz \<times> bool pyres" where
  "returning b r = (fst r, case snd r of None \<Rightarrow> Inr b | Some e \<Rightarrow> Inl e)"

definition on_node_button_press_event ::
  "bool \<Rightarrow> canvas_lib \<Rightarrow> network \<Rightarrow> point \<Rightarrow> nat \<Rightarrow> nat \<Rightarrow> viz \<Rightarrow> viz \<times> bool pyres" where
  "on_node_button_press_event ipy L ns pointer button i v =
     (if button = 1 then returning True (select_node ipy (NodeOf i) v)
      else if button = 3 then (popup_node_menu i v, Inr True)
      else if button = 2 then (begin_node_drag L ns pointer i v, Inr True)
      else (v, Inr False))"

definition on_node_button_release_event :: "nat \<Rightarrow> viz \<Rightarrow> viz \<times> bool" where
  "on_node_button_release_event button v = (if button = 2 then (end_node_drag v, True) else (v, False))"

definition on_root_button_press_event :: "bool \<Rightarrow> nat \<Rightarrow> viz \<Rightarrow> viz \<times> bool pyres" where
  "on_root_button_press_event ipy button v =
     (if button = 1 then returning True (select_node ipy NoNode v) else (v, Inr False))"

section \<open>Windows, controls and tooltips\<close>

definition add_information_window :: "nat \<Rightarrow> viz \<Rightarrow> viz" where
  "add_information_window w v = call (WindowUpdate w) (v\<lparr>vz_windows := vz_windows v @ [w]\<rparr>)"

definition remove_information_window :: "nat \<Rightarrow> viz \<Rightarrow> viz pyres" where
  "remove_information_window w v =
     (if w \<in> set (vz_windows v) then Inr (v\<lparr>vz_windows := remove1 w (vz_windows v)\<rparr>) else Inl ValueError)"

definition node_size_changed :: "rat \<Rightarrow> viz \<Rightarrow> viz" where
  "node_size_changed s v =
     v\<lparr>vz_node_size := s, vz_scene := foldl (\<lambda>sc i. set_size i s sc) (vz_scene v) (dict_keys (sc_nodes (vz_scene v)))\<rparr>"

definition speed_changed :: "rat \<Rightarrow> viz \<Rightarrow> viz" where
  "speed_changed s v = v\<lparr>vz_speed := s, vz_period := SAMPLE_PERIOD * s\<rparr>"

text \<open>The period of the update timer, in milliseconds (speeds are positive).\<close>

definition timer_interval :: "rat \<Rightarrow> nat" where
  "timer_interval speed = nat \<lfloor>SAMPLE_PERIOD / min speed 1 * 1000\<rfloor>"

definition start_shell :: "bool \<Rightarrow> viz \<Rightarrow> viz \<times> pyerr option" where
  "start_shell ipy v =
     (if vz_shell v then (v, None) else update_ipython_selected_node ipy (v\<lparr>vz_shell := True, vz_ipython := True\<rparr>))"

definition on_shell_window_destroy :: "viz \<Rightarrow> viz" where
  "on_shell_window_destroy v = v\<lparr>vz_shell := False\<rparr>"

text \<open>
  The item under the pointer and the items around it, innermost first, each with its object if it
  has one: the tooltip is the first object's. None is a query without an answer.
\<close>

fun tooltip_object :: "'o option list \<Rightarrow> 'o option" where
  "tooltip_object [] = None"
| "tooltip_object (None # items) = tooltip_object items"
| "tooltip_object (Some obj # _) = Some obj"

definition canvas_tooltip_cb :: "canvas_lib \<Rightarrow> (point \<Rightarrow> 'o option list) \<Rightarrow> point \<Rightarrow> viz \<Rightarrow> 'o option" where
  "canvas_tooltip_cb L get_item_at p v =
     tooltip_object (get_item_at (from_px L (vz_zoom v) (fst (vz_scroll v) + fst p, snd (vz_scroll v) + snd p)))"

section \<open>Screenshots\<close>

datatype surface = PSSurface | PDFSurface | SVGSurface

definition lower :: "string \<Rightarrow> string" where
  "lower = map (\<lambda>c. if 65 \<le> (of_char c :: nat) \<and> (of_char c :: nat) \<le> 90 then char_of (of_char c + 32 :: nat) else c)"

datatype screenshot = NoFile | UnknownExtension string | Drawn surface string "point \<times> point" rat

definition take_screenshot :: "canvas_lib \<Rightarrow> string option \<Rightarrow> viz \<Rightarrow> screenshot" where
  "take_screenshot L file v =
     (case file of
        None \<Rightarrow> NoFile
      | Some file_name \<Rightarrow>
          (let extension = lower (snd (splitext file_name)); bounds = visible_corners L v in
           if extension = ''.eps'' then Drawn PSSurface file_name bounds (vz_zoom v)
           else if extension = ''.pdf'' then Drawn PDFSurface file_name bounds (vz_zoom v)
           else if extension = ''.svg'' then Drawn SVGSurface file_name bounds (vz_zoom v)
           else UnknownExtension extension))"

section \<open>Bounds and start\<close>

text \<open>A hook of \<open>set_bounds\<close>: the canvas bounds it will set.\<close>

definition set_bounds_hook :: "rat \<Rightarrow> rat \<Rightarrow> rat \<Rightarrow> rat \<Rightarrow> (point \<times> point) list \<Rightarrow> (point \<times> point) list pyres" where
  "set_bounds_hook x1 y1 x2 y2 hooks =
     (if \<not> x2 > x1 then Inl AssertionError
      else if \<not> y2 > y1 then Inl AssertionError
      else Inr (hooks @ [(transform_point_simulation_to_canvas x1 y1, transform_point_simulation_to_canvas x2 y2)]))"

text \<open>\<open>start\<close>: without the GUI libraries the simulation just runs. The visualizer starts with a scan.\<close>

datatype started = RunsWithoutView | Visualizing viz "string list" "(point \<times> point) list"

definition start ::
  "bool \<Rightarrow> string option \<Rightarrow> (string \<Rightarrow> string module_import) \<Rightarrow> string \<Rightarrow> string list \<Rightarrow> string plugin_state \<Rightarrow>
   network \<Rightarrow> (graph_cmd list \<Rightarrow> (string \<times> point) list) \<Rightarrow> point \<Rightarrow> (point \<times> point) list \<Rightarrow> started pyres" where
  "start running import_error modules plugins_dir filenames ps ns layout page hooks =
     (if running then Inl AssertionError
      else if import_error \<noteq> None then Inr RunsWithoutView
      else rbind (load_plugins modules plugins_dir filenames ps) (\<lambda>ps.
        (let v = Visualizer (length (ns_nodes ns)) page in
         rmap (\<lambda>sc. Visualizing (call (Emit ''topology-scanned'') (v\<lparr>vz_scene := sc\<rparr>)) (ps_plugins ps) hooks)
           (scan_topology ns layout (vz_scene v)))))"

section \<open>Remembered samples\<close>

lemma keep_last_drop: "keep_last n xs = drop (length xs - n) xs"
proof (induction n xs rule: keep_last.induct)
  case (1 n xs)
  show ?case
  proof (cases "length xs > n")
    case True
    then have "length xs - n = Suc (length (tl xs) - n)" by (cases xs) auto
    with 1 True show ?thesis by (simp add: keep_last.simps [of n xs] drop_Suc)
  next
    case False
    then show ?thesis by (simp add: keep_last.simps [of n xs])
  qed
qed

lemma keep_last_length: "length (keep_last n xs) \<le> n"
  by (simp add: keep_last_drop)

lemma keep_last_keep: "keep_last n (keep_last n xs @ ys) = keep_last n (xs @ ys)"
proof -
  define m where "m = length xs - n"
  have e: "length xs + length ys - m - n + m = length xs + length ys - n" by (simp add: m_def)
  have "drop m xs @ ys = drop m (xs @ ys)" by (simp add: m_def)
  then have "keep_last n (keep_last n xs @ ys) = drop (length xs + length ys - m - n + m) (xs @ ys)"
    by (simp only: keep_last_drop flip: m_def) (simp only: drop_drop length_drop length_append m_def)
  then show ?thesis by (simp only: e keep_last_drop length_append)
qed

text \<open>
  A list that a step extends and cuts back to its last elements: after any number of steps it is what
  one cut of the whole history leaves. The clients are the samples of the view and, for each node, the
  statistics of a collector.
\<close>

locale sliding_window =
  fixes enter :: "'s \<Rightarrow> 'x \<Rightarrow> 's"
    and kept_list :: "'s \<Rightarrow> 'a list"
    and sampled :: "'x \<Rightarrow> 'a list"
    and bound :: "'s \<Rightarrow> nat"
  assumes kept_enter:
      "length (kept_list s) \<le> bound s \<Longrightarrow> kept_list (enter s x) = keep_last (bound s) (kept_list s @ sampled x)"
    and bound_enter: "bound (enter s x) = bound s"
begin

lemma kept_run:
  "length (kept_list s) \<le> bound s \<Longrightarrow>
     kept_list (foldl enter s xs) = keep_last (bound s) (kept_list s @ concat (map sampled xs))"
proof (induction xs arbitrary: s)
  case Nil
  then show ?case by (simp add: keep_last_drop)
next
  case (Cons x xs)
  have "length (kept_list (enter s x)) \<le> bound (enter s x)"
    by (simp add: kept_enter [OF Cons.prems] bound_enter keep_last_length)
  from Cons.IH [OF this] show ?case
    by (simp add: bound_enter kept_enter [OF Cons.prems] keep_last_keep)
qed

end

interpretation tx_window: sliding_window "\<lambda>v p. do_simulation_periodic_update (fst p) (snd p) v" vz_last_tx
    "\<lambda>p. [fst p]" smooth_factor
  by unfold_locales (simp_all add: do_simulation_periodic_update_def smooth_factor_def)

interpretation drop_window: sliding_window "\<lambda>v p. do_simulation_periodic_update (fst p) (snd p) v" vz_last_drops
    "\<lambda>p. [snd p]" smooth_factor
  by unfold_locales (simp_all add: do_simulation_periodic_update_def smooth_factor_def)

text \<open>
  However long the simulation runs, the view averages over the samples of the most recent
  periods, as many as the smooth factor says, and over all of them while there are fewer.
\<close>

theorem recent_periods:
  assumes "length (vz_last_tx v) \<le> smooth_factor v" and "length (vz_last_drops v) \<le> smooth_factor v"
  shows "vz_last_tx (foldl (\<lambda>v p. do_simulation_periodic_update (fst p) (snd p) v) v ps) =
      drop (length (vz_last_tx v) + length ps - smooth_factor v) (vz_last_tx v @ map fst ps) \<and>
    vz_last_drops (foldl (\<lambda>v p. do_simulation_periodic_update (fst p) (snd p) v) v ps) =
      drop (length (vz_last_drops v) + length ps - smooth_factor v) (vz_last_drops v @ map snd ps)"
  by (simp add: tx_window.kept_run [OF assms(1)] drop_window.kept_run [OF assms(2)] keep_last_drop concat_map_singleton)

theorem recent_periods_witness:
  "vz_last_tx (foldl (\<lambda>v p. do_simulation_periodic_update (fst p) (snd p) v) (Visualizer 2 (600, 450))
     (replicate 3 ([], []) @ replicate 5 ([\<lparr>sm_transmitter = 0, sm_receiver = 1, sm_bytes = 9\<rparr>], []))) =
   replicate 5 [\<lparr>sm_transmitter = 0, sm_receiver = 1, sm_bytes = 9\<rparr>]"
proof -
  have five: "smooth_factor (Visualizer 2 (600, 450)) = 5"
    by (simp add: smooth_factor_def Visualizer_def DEFAULT_TRANSMISSIONS_MEMORY_def)
  have none: "vz_last_tx (Visualizer 2 (600, 450)) = []" "vz_last_drops (Visualizer 2 (600, 450)) = []"
    by (simp_all add: Visualizer_def)
  show ?thesis
    by (subst recent_periods [THEN conjunct1]) (simp_all add: five none)
qed

lemma add_sample_lookup:
  "map_of (foldl (add_sample key) d ss) k =
     (let mine = filter (\<lambda>s. key s = k) ss; old = (case map_of d k of None \<Rightarrow> (0, 0) | Some p \<Rightarrow> p) in
      if mine = [] then map_of d k else Some (fst old + sum_list (map sm_bytes mine), snd old + length mine))"
  by (induction ss arbitrary: d) (auto simp: add_sample_def Let_def split: option.splits)

lemma average_concat: "average key sets = foldl (add_sample key) [] (concat sets)"
proof -
  have "foldl (foldl f) s xss = foldl f s (concat xss)" for f :: "'x \<Rightarrow> 'y \<Rightarrow> 'x" and s xss
    by (induction xss arbitrary: s) simp_all
  then show ?thesis by (simp add: average_def)
qed

text \<open>
  The averages hold, for exactly the pairs of nodes (or the nodes) that occur in the remembered
  samples, the total of their bytes and the number of their samples.
\<close>

theorem average_totals:
  "map_of (average key sets) k =
     (let mine = filter (\<lambda>s. key s = k) (concat sets) in
      if mine = [] then None else Some (sum_list (map sm_bytes mine), length mine))"
  by (simp add: average_concat add_sample_lookup Let_def)

section \<open>Arrows\<close>

lemma get_node_positions [simp]: "get_end_position (get_node i sc) d = get_end_position sc d"
  by (auto simp: get_end_position_def get_node_lookup split: endpoint.splits option.splits)

lemma look_transmission_positions [simp]: "get_end_position (look_transmission k sc) d = get_end_position sc d"
  by (simp add: look_transmission_def)

text \<open>A round without exception draws one arrow for each average, from the end of the old ones while they last.\<close>

lemma draw_arrows_drawn:
  assumes "draw_arrows look render kvs sc old new = (sc', old', new', None)"
    and "\<And>k sc d. get_end_position (look k sc) d = get_end_position sc d"
  shows "\<exists>drawn. new' = new @ drawn \<and> old' = take (length old - length kvs) old \<and>
    list_all2 (\<lambda>kv a. \<exists>s b. ar_shown b \<and> get_end_position s = get_end_position sc \<and> render kv s b = Inr a) kvs drawn"
  using assms(1)
proof (induction kvs arbitrary: sc old new)
  case Nil
  then show ?case by simp
next
  case (Cons kv kvs)
  let ?sc = "look (fst kv) sc" and ?a = "(if old = [] then new_arrow else last old)\<lparr>ar_shown := True\<rparr>"
  from Cons.prems obtain a where a: "render kv ?sc ?a = Inr a"
    and rest: "draw_arrows look render kvs ?sc (butlast old) (new @ [a]) = (sc', old', new', None)"
    by (auto simp: Let_def split: sum.splits)
  have pos: "get_end_position ?sc = get_end_position sc" by (rule ext) (rule assms(2))
  from Cons.IH [OF rest] obtain drawn where new': "new' = new @ a # drawn"
    and old': "old' = take (length (butlast old) - length kvs) (butlast old)"
    and all: "list_all2 (\<lambda>kv a. \<exists>s b. ar_shown b \<and> get_end_position s = get_end_position sc \<and> render kv s b = Inr a) kvs drawn"
    by (auto simp: pos)
  have "old' = take (length old - length (kv # kvs)) old"
    by (cases old rule: rev_cases) (simp_all add: old')
  moreover have "ar_shown ?a" by simp
  ultimately show ?case using new' all a pos by (intro exI [of _ "a # drawn"]) (auto intro!: exI)
qed

text \<open>\<open>fails\<close> is the exception of a key and its average; the round raises the first.\<close>

lemma draw_arrows_fails:
  assumes "\<And>kv s a. (case render kv s a of Inl e \<Rightarrow> Some e | Inr _ \<Rightarrow> None) = fails kv"
  shows "snd (snd (snd (draw_arrows look render kvs sc old new))) =
    (case dropWhile (\<lambda>kv. fails kv = None) kvs of [] \<Rightarrow> None | kv # _ \<Rightarrow> fails kv)"
proof (induction kvs arbitrary: sc old new)
  case Nil
  then show ?case by simp
next
  case (Cons kv kvs)
  show ?case
  proof (cases "render kv (look (fst kv) sc) ((if old = [] then new_arrow else last old)\<lparr>ar_shown := True\<rparr>)")
    case (Inl e)
    with assms [of kv "look (fst kv) sc" "(if old = [] then new_arrow else last old)\<lparr>ar_shown := True\<rparr>"]
    have "fails kv = Some e" by simp
    with Inl show ?thesis by (simp add: Let_def)
  next
    case (Inr a)
    with assms [of kv "look (fst kv) sc" "(if old = [] then new_arrow else last old)\<lparr>ar_shown := True\<rparr>"]
    have "fails kv = None" by simp
    with Inr Cons.IH show ?thesis by (simp add: Let_def)
  qed
qed

text \<open>
  When the transmissions are drawn without an exception, one arrow is shown for each average, between
  the present positions of the two nodes; the arrows left over are hidden and kept for later.
\<close>

lemma averages_drawn:
  assumes "update_transmissions_view L M v = (v', None)"
  shows "\<exists>drawn. vz_tx_arrows v' =
      drawn @ map hide (take (length (vz_tx_arrows v) - length (average transmission_key (vz_last_tx v))) (vz_tx_arrows v)) \<and>
    list_all2 (\<lambda>((t, r), (bytes, count)) a. ar_shown a \<and>
        ar_width a = max (1 / 10) (math_log M (of_nat bytes / of_nat count / vz_period v) * (vz_node_size v / 5)) \<and>
        ar_rate a = kbps bytes count (vz_period v) \<and>
        ar_points a = (get_end_position (vz_scene v) (ToNode t), get_end_position (vz_scene v) (ToNode r)))
      (average transmission_key (vz_last_tx v)) drawn"
proof -
  let ?avg = "average transmission_key (vz_last_tx v)"
  from assms obtain sc old new where
    d: "draw_arrows look_transmission (render_transmission L M v) ?avg (vz_scene v) (map hide (vz_tx_arrows v)) [] = (sc, old, new, None)"
    and v': "vz_tx_arrows v' = new @ old"
    by (auto simp: update_transmissions_view_def split: prod.splits option.splits)
  from draw_arrows_drawn [OF d] have "old = take (length (vz_tx_arrows v) - length ?avg) (map hide (vz_tx_arrows v))"
    and all: "list_all2 (\<lambda>kv a. \<exists>s b. ar_shown b \<and> get_end_position s = get_end_position (vz_scene v) \<and>
        render_transmission L M v kv s b = Inr a) ?avg new"
    by auto
  moreover have "list_all2 (\<lambda>((t, r), (bytes, count)) a. ar_shown a \<and>
        ar_width a = max (1 / 10) (math_log M (of_nat bytes / of_nat count / vz_period v) * (vz_node_size v / 5)) \<and>
        ar_rate a = kbps bytes count (vz_period v) \<and>
        ar_points a = (get_end_position (vz_scene v) (ToNode t), get_end_position (vz_scene v) (ToNode r))) ?avg new"
    by (rule list_all2_mono [OF all])
       (auto simp: render_transmission_def rmap_eq_Inr_iff Let_def line_width_def split: if_splits)
  ultimately show ?thesis by (intro exI [of _ new]) (simp add: v' take_map)
qed

lemma average_wf: "dict_wf (average key sets)"
  unfolding average_concat
  by (rule foldl_invariant [where P = dict_wf]) (auto simp: add_sample_def Let_def dict_wf_set, simp add: dict_wf_def)

lemma add_sample_set: "\<exists>old. set (add_sample key d s) \<subseteq> insert (key s, fst old + sm_bytes s, snd old + 1) (set d)"
  unfolding add_sample_def Let_def by (rule exI, rule set_dict_set)

lemma average_counts: "kv \<in> set (average key sets) \<Longrightarrow> snd (snd kv) > 0"
proof -
  have "\<forall>kv\<in>set (average key sets). snd (snd kv) > 0"
    unfolding average_concat
  proof (rule foldl_invariant)
    fix d :: "('a, nat \<times> nat) dict" and s
    assume d: "\<forall>kv\<in>set d. snd (snd kv) > 0"
    obtain old where "set (add_sample key d s) \<subseteq> insert (key s, fst old + sm_bytes s, snd old + 1) (set d)"
      using add_sample_set by blast
    with d show "\<forall>kv\<in>set (add_sample key d s). snd (snd kv) > 0" by fastforce
  qed simp
  then show "kv \<in> set (average key sets) \<Longrightarrow> snd (snd kv) > 0" by blast
qed

lemma average_member:
  "(k, bytes, count) \<in> set (average key sets) \<longleftrightarrow> (\<exists>s\<in>set (concat sets). key s = k) \<and>
     bytes = sum_list (map sm_bytes (filter (\<lambda>s. key s = k) (concat sets))) \<and>
     count = length (filter (\<lambda>s. key s = k) (concat sets))"
proof -
  have "(k, bytes, count) \<in> set (average key sets) \<longleftrightarrow> map_of (average key sets) k = Some (bytes, count)"
    using average_wf [of key sets] by (simp add: dict_wf_def)
  then show ?thesis by (auto simp: average_concat add_sample_lookup Let_def filter_empty_conv)
qed

lemma line_width_error:
  assumes "count > 0" and "period > 0"
  shows "(case line_width M bytes count period k of Inl e \<Rightarrow> Some e | Inr _ \<Rightarrow> None) = (if bytes = 0 then Some ValueError else None)"
proof (cases "bytes = 0")
  case False
  then have "\<not> rat_of_nat bytes / rat_of_nat count / period \<le> 0" using assms by (simp only: not_le) simp
  with assms False show ?thesis by (simp only: line_width_def) simp
qed (use assms in \<open>simp add: line_width_def\<close>)

definition silent :: "(sample \<Rightarrow> 'k) \<Rightarrow> sample list list \<Rightarrow> bool" where
  "silent key sets \<longleftrightarrow>
     (\<exists>s\<in>set (concat sets). \<forall>u\<in>set (concat sets). key u = key s \<longrightarrow> sm_bytes u = 0)"

lemma silent_average: "silent key sets \<longleftrightarrow> (\<exists>kv\<in>set (average key sets). fst (snd kv) = 0)"
proof
  assume "silent key sets"
  then obtain s where s: "s \<in> set (concat sets)" "\<forall>u\<in>set (concat sets). key u = key s \<longrightarrow> sm_bytes u = 0"
    by (auto simp: silent_def)
  then have "sum_list (map sm_bytes (filter (\<lambda>u. key u = key s) (concat sets))) = 0" by auto
  with s(1) have "(key s, 0, length (filter (\<lambda>u. key u = key s) (concat sets))) \<in> set (average key sets)"
    by (subst average_member) auto
  then show "\<exists>kv\<in>set (average key sets). fst (snd kv) = 0" by force
next
  assume "\<exists>kv\<in>set (average key sets). fst (snd kv) = 0"
  then obtain k c where "(k, 0, c) \<in> set (average key sets)" by force
  then show "silent key sets" by (subst (asm) average_member) (auto simp: silent_def)
qed

lemma dropWhile_fails:
  "(case dropWhile (\<lambda>kv. f kv = None) kvs of [] \<Rightarrow> None | kv # _ \<Rightarrow> f kv) =
     (if \<exists>kv\<in>set kvs. P kv then Some e else None)"
  if "\<And>kv. kv \<in> set kvs \<Longrightarrow> f kv = (if P kv then Some e else None)"
  using that by (induction kvs) auto

text \<open>
  Drawing the transmissions raises exactly when some pair of nodes has only empty samples: the
  logarithm of a bit rate of zero is a ValueError.
\<close>

theorem transmissions_error:
  assumes "vz_period v > 0"
  shows "snd (update_transmissions_view L M v) =
    (if silent transmission_key (vz_last_tx v) then Some ValueError else None)"
proof -
  let ?fails = "\<lambda>kv :: (nat \<times> nat) \<times> nat \<times> nat. case line_width M (fst (snd kv)) (snd (snd kv)) (vz_period v) (vz_node_size v / 5)
    of Inl e \<Rightarrow> Some e | Inr _ \<Rightarrow> None"
  have "snd (update_transmissions_view L M v) = snd (snd (snd (draw_arrows look_transmission (render_transmission L M v)
      (average transmission_key (vz_last_tx v)) (vz_scene v) (map hide (vz_tx_arrows v)) [])))"
    by (simp add: update_transmissions_view_def split: prod.split option.split)
  also have "\<dots> = (case dropWhile (\<lambda>kv. ?fails kv = None) (average transmission_key (vz_last_tx v)) of [] \<Rightarrow> None | kv # _ \<Rightarrow> ?fails kv)"
    by (rule draw_arrows_fails) (auto simp: render_transmission_def rmap_def rbind_def split: prod.splits sum.splits)
  also have "\<dots> = (if \<exists>kv\<in>set (average transmission_key (vz_last_tx v)). fst (snd kv) = 0 then Some ValueError else None)"
    by (rule dropWhile_fails) (use line_width_error [OF average_counts assms] in blast)
  finally show ?thesis by (simp add: silent_average)
qed

text \<open>The samples of one pair of nodes, over all remembered periods.\<close>

definition pair_samples :: "sample list list \<Rightarrow> nat \<times> nat \<Rightarrow> sample list" where
  "pair_samples sets p = filter (\<lambda>s. sm_transmitter s = fst p \<and> sm_receiver s = snd p) (concat sets)"

text \<open>
  C30: when the sample period is positive and no pair of nodes has only empty samples (drawing raises
  otherwise), the transmissions are drawn without an exception. One arrow is shown for each pair of a
  transmitter and a receiver with a remembered sample, and for no other: between the present positions of
  the two nodes, with the bit rate of the pair's samples, and as thick as the logarithm of their mean
  rate, but not thinner than the minimum. The arrows left over are hidden and kept for later.
\<close>

theorem transmissions_drawn:
  assumes "vz_period v > 0"
    and "\<forall>s\<in>set (concat (vz_last_tx v)). \<exists>u\<in>set (concat (vz_last_tx v)).
      sm_transmitter u = sm_transmitter s \<and> sm_receiver u = sm_receiver s \<and> sm_bytes u > 0"
  shows "\<exists>v' pairs drawn. update_transmissions_view L M v = (v', None) \<and>
    distinct pairs \<and> set pairs = {(sm_transmitter s, sm_receiver s) |s. s \<in> set (concat (vz_last_tx v))} \<and>
    vz_tx_arrows v' = drawn @ map hide (take (length (vz_tx_arrows v) - length pairs) (vz_tx_arrows v)) \<and>
    list_all2 (\<lambda>(t, r) a.
        let ss = pair_samples (vz_last_tx v) (t, r); bytes = rat_of_nat (sum_list (map sm_bytes ss)); n = rat_of_nat (length ss)
        in ar_shown a \<and>
           ar_points a = (get_end_position (vz_scene v) (ToNode t), get_end_position (vz_scene v) (ToNode r)) \<and>
           ar_rate a = 8 * bytes / 1000 / n / vz_period v \<and>
           ar_width a = max (1 / 10) (math_log M (bytes / n / vz_period v) * (vz_node_size v / 5)))
      pairs drawn"
proof -
  let ?avg = "average transmission_key (vz_last_tx v)"
  have "\<not> silent transmission_key (vz_last_tx v)"
    using assms(2) by (fastforce simp: silent_def transmission_key_def)
  then obtain v' where v': "update_transmissions_view L M v = (v', None)"
    using transmissions_error [OF assms(1), of L M] by (cases "update_transmissions_view L M v") auto
  from averages_drawn [OF v'] obtain drawn where arrows: "vz_tx_arrows v' =
        drawn @ map hide (take (length (vz_tx_arrows v) - length ?avg) (vz_tx_arrows v))"
    and drawn: "list_all2 (\<lambda>((t, r), (bytes, count)) a. ar_shown a \<and>
        ar_width a = max (1 / 10) (math_log M (of_nat bytes / of_nat count / vz_period v) * (vz_node_size v / 5)) \<and>
        ar_rate a = kbps bytes count (vz_period v) \<and>
        ar_points a = (get_end_position (vz_scene v) (ToNode t), get_end_position (vz_scene v) (ToNode r))) ?avg drawn"
    by blast
  have of_pair: "kv \<in> set ?avg \<Longrightarrow> fst (snd kv) = sum_list (map sm_bytes (pair_samples (vz_last_tx v) (fst kv))) \<and>
      snd (snd kv) = length (pair_samples (vz_last_tx v) (fst kv))" for kv
    using average_member [of "fst kv" "fst (snd kv)" "snd (snd kv)" transmission_key "vz_last_tx v"]
    by (auto simp: pair_samples_def transmission_key_def prod_eq_iff)
  have "distinct (map fst ?avg)" using average_wf [of transmission_key "vz_last_tx v"] by (simp add: dict_wf_def)
  moreover have "set (map fst ?avg) = {(sm_transmitter s, sm_receiver s) |s. s \<in> set (concat (vz_last_tx v))}"
  proof -
    have "p \<in> set (map fst ?avg) \<longleftrightarrow> p \<in> transmission_key ` set (concat (vz_last_tx v))" for p
      using average_totals [of transmission_key "vz_last_tx v" p] map_of_eq_None_iff [of ?avg p]
      by (simp add: Let_def filter_empty_conv image_iff split: if_splits) metis+
    then have "set (map fst ?avg) = transmission_key ` set (concat (vz_last_tx v))" by blast
    also have "\<dots> = {(sm_transmitter s, sm_receiver s) |s. s \<in> set (concat (vz_last_tx v))}"
      unfolding transmission_key_def image_def by blast
    finally show ?thesis .
  qed
  moreover have "list_all2 (\<lambda>(t, r) a.
        let ss = pair_samples (vz_last_tx v) (t, r); bytes = rat_of_nat (sum_list (map sm_bytes ss)); n = rat_of_nat (length ss)
        in ar_shown a \<and>
           ar_points a = (get_end_position (vz_scene v) (ToNode t), get_end_position (vz_scene v) (ToNode r)) \<and>
           ar_rate a = 8 * bytes / 1000 / n / vz_period v \<and>
           ar_width a = max (1 / 10) (math_log M (bytes / n / vz_period v) * (vz_node_size v / 5))) (map fst ?avg) drawn"
    unfolding list_all2_map1
    by (rule list.rel_mono_strong [OF drawn]) (auto simp: kbps_def Let_def mult.commute dest!: of_pair)
  ultimately show ?thesis
    using v' arrows by (intro exI [of _ v'] exI [of _ "map fst ?avg"] exI [of _ drawn]) simp
qed

text \<open>Two nodes; a canvas of the bounds of \<open>create_gui\<close>, and the limits of its zoom, for a page of 600 by 450.\<close>

definition plain_canvas :: canvas_lib where
  "plain_canvas =
     (let px = (\<lambda>z p. ((fst p + 10000) * z, (snd p + 10000) * z));
          keep = (\<lambda>z p. (max 0 (min (20000 * z - 600) (fst p)), max 0 (min (20000 * z - 450) (snd p)))) in
     \<lparr>to_px = px, from_px = (\<lambda>z p. (fst p / z - 10000, snd p / z - 10000)), keep_zoom = (\<lambda>z. min 10 (max (1 / 100) z)),
      keep_scroll = keep, rescale = (\<lambda>z z' p. keep z' p), scroll_to = (\<lambda>z p. keep z (px z p)),
      line_clipping = (\<lambda>a b l. l)\<rparr>)"

definition plain_math :: math_lib where
  "plain_math = \<lparr>math_log = (\<lambda>x. x), math_atan2 = (\<lambda>y x. 0), pi_over_2 = 1\<rparr>"

definition sample_viz :: "nat \<Rightarrow> viz" where
  "sample_viz bytes = (Visualizer 2 (600, 450))
     \<lparr>vz_last_tx := [[\<lparr>sm_transmitter = 0, sm_receiver = 1, sm_bytes = 100\<rparr>], [\<lparr>sm_transmitter = 1, sm_receiver = 0, sm_bytes = bytes\<rparr>]]\<rparr>"

theorem transmissions_drawn_witness:
  "\<exists>v'. update_transmissions_view plain_canvas plain_math (sample_viz 50) = (v', None) \<and> length (vz_tx_arrows v') = 2"
proof -
  let ?tx = "vz_last_tx (sample_viz 50)"
  have p: "vz_period (sample_viz 50) > 0" by code_simp
  have s: "\<forall>s\<in>set (concat ?tx). \<exists>u\<in>set (concat ?tx). sm_transmitter u = sm_transmitter s \<and> sm_receiver u = sm_receiver s \<and> sm_bytes u > 0"
    by (simp add: sample_viz_def)
  have none: "vz_tx_arrows (sample_viz 50) = []" by code_simp
  from transmissions_drawn [OF p s, of plain_canvas plain_math] obtain v' pairs drawn where
    v': "update_transmissions_view plain_canvas plain_math (sample_viz 50) = (v', None)"
    and pairs: "distinct pairs" "set pairs = {(sm_transmitter s, sm_receiver s) |s. s \<in> set (concat ?tx)}"
    and arrows: "vz_tx_arrows v' = drawn" "length drawn = length pairs"
    unfolding none by (auto dest: list_all2_lengthD)
  have "set pairs = (\<lambda>s. (sm_transmitter s, sm_receiver s)) ` set (concat ?tx)" unfolding pairs(2) by auto
  then have "set pairs = {(0, 1), (1, 0)}" by (simp add: sample_viz_def)
  then have "length pairs = 2" using distinct_card [OF pairs(1)] by simp
  with v' arrows show ?thesis by metis
qed

theorem transmissions_error_witness:
  "snd (update_transmissions_view plain_canvas plain_math (sample_viz 0)) = Some ValueError"
proof -
  have "vz_period (sample_viz 0) > 0" by code_simp
  moreover have "silent transmission_key (vz_last_tx (sample_viz 0))" by code_simp
  ultimately show ?thesis using transmissions_error [of "sample_viz 0" plain_canvas plain_math] by simp
qed

text \<open>The arrow that could not be drawn stays on the canvas, and no later round will hide it.\<close>

lemma stray_arrow: "map ar_shown (vz_stray (fst (update_transmissions_view plain_canvas plain_math (sample_viz 0)))) = [True, True]"
  by code_simp

end
