(* ===== verification/VisWifi.thy ===== *)
theory VisWifi
  imports VisScene
begin

text \<open>
  The plugin \<open>wifi_intrastructure_link.py\<close>: dashed links from wireless stations to their access points.
  A \<open>WifiLink\<close> is a link of the scene that is not wired; it is listed at its access point only.
\<close>

section \<open>WifiLink\<close>

text \<open>
  The constructor's \<open>set_ap(None)\<close> returns at once, so that the new link is not hidden (it has no points
  to draw).
\<close>

definition WifiLink :: "nat \<Rightarrow> scene \<Rightarrow> scene \<times> nat" where
  "WifiLink sta sc =
     (sc\<lparr>sc_links := sc_links sc @ [\<lparr>l_node1 = sta, l_node2 = None, l_points = None, l_visible = True, l_wired = False\<rparr>]\<rparr>,
      length (sc_links sc))"

definition modify_link :: "nat \<Rightarrow> (link \<Rightarrow> link) \<Rightarrow> scene \<Rightarrow> scene" where
  "modify_link k f sc = sc\<lparr>sc_links := (sc_links sc)[k := f (sc_links sc ! k)]\<rparr>"

definition set_ap :: "nat \<Rightarrow> nat option \<Rightarrow> scene \<Rightarrow> scene pyres" where
  "set_ap k ap sc =
     (let old = l_node2 (sc_links sc ! k) in
      if map_option ToNode ap = old then Inr sc
      else rmap (\<lambda>sc.
          (let sc = modify_link k (\<lambda>l. l\<lparr>l_node2 := map_option ToNode ap\<rparr>) sc in
           update_points
             (case ap of
                None \<Rightarrow> modify_link k (\<lambda>l. l\<lparr>l_visible := False\<rparr>) sc
              | Some j \<Rightarrow> modify_link k (\<lambda>l. l\<lparr>l_visible := True\<rparr>) (add_link j k sc)) k))
        (case old of Some (ToNode j) \<Rightarrow> remove_link j k sc | _ \<Rightarrow> Inr sc))"

text \<open>
  A destroyed link has no second end and draws nothing; it stays in its access point's list. Its first
  end, None in the code, is not looked at again, as a link without a second end is not drawn.
\<close>

definition destroy :: "nat \<Rightarrow> scene \<Rightarrow> scene" where
  "destroy k sc = modify_link k (\<lambda>l. l\<lparr>l_node2 := None, l_visible := False\<rparr>) sc"

section \<open>WifiLinkMonitor\<close>

datatype wifi_mac = StaWifiMac | ApWifiMac | OtherMac

record wifi_device =
  wd_dev :: nat
  wd_mac :: wifi_mac
  wd_address :: string

record wifi_monitor =
  wm_access_points :: "(string, nat) dict"
  wm_stations :: "(nat \<times> nat \<times> nat) list"

definition WifiLinkMonitor :: wifi_monitor where
  "WifiLinkMonitor = \<lparr>wm_access_points = [], wm_stations = []\<rparr>"

definition scan_wifi_device :: "nat \<Rightarrow> scene \<times> wifi_monitor \<Rightarrow> wifi_device \<Rightarrow> scene \<times> wifi_monitor" where
  "scan_wifi_device i st d =
     (case wd_mac d of
        StaWifiMac \<Rightarrow>
          (let link = WifiLink i (fst st) in
           (fst link, (snd st)\<lparr>wm_stations := wm_stations (snd st) @ [(wd_dev d, i, snd link)]\<rparr>))
      | ApWifiMac \<Rightarrow> (fst st, (snd st)\<lparr>wm_access_points := dict_set (wd_address d) i (wm_access_points (snd st))\<rparr>)
      | OtherMac \<Rightarrow> st)"

text \<open>\<open>wifi_devices i\<close>: the wireless devices of node \<open>i\<close>, in the order of its devices.\<close>

definition scan_nodes :: "(nat \<Rightarrow> wifi_device list) \<Rightarrow> scene \<times> wifi_monitor \<Rightarrow> scene \<times> wifi_monitor" where
  "scan_nodes wifi_devices st =
     (let sc = foldl (\<lambda>sc (d, i, k). destroy k sc) (fst st) (wm_stations (snd st)) in
      foldl (\<lambda>st i. foldl (scan_wifi_device i) st (wifi_devices i)) (sc, WifiLinkMonitor) (dict_keys (sc_nodes sc)))"

text \<open>What a station reports: None when its link is down, else its BSSID.\<close>

type_synonym station_state = "nat \<Rightarrow> string option"

definition no_bssid :: string where "no_bssid = ''00:00:00:00:00:00''"

text \<open>The access point a station should be linked to; the address may be unknown.\<close>

definition station_ap :: "wifi_monitor \<Rightarrow> string option \<Rightarrow> nat option pyres" where
  "station_ap m b =
     (case b of
        None \<Rightarrow> Inr None
      | Some bssid \<Rightarrow> if bssid = no_bssid then Inr None else rmap Some (dict_getitem (wm_access_points m) bssid))"

text \<open>An exception leaves the stations after it as they are.\<close>

fun update_stations :: "wifi_monitor \<Rightarrow> station_state \<Rightarrow> (nat \<times> nat \<times> nat) list \<Rightarrow> scene \<Rightarrow> scene \<times> pyerr option" where
  "update_stations m bssid [] sc = (sc, None)"
| "update_stations m bssid ((d, i, k) # sts) sc =
     (case rbind (station_ap m (bssid d)) (\<lambda>ap. set_ap k ap sc) of
        Inl e \<Rightarrow> (sc, Some e)
      | Inr sc' \<Rightarrow> update_stations m bssid sts sc')"

definition monitor_update :: "station_state \<Rightarrow> scene \<times> wifi_monitor \<Rightarrow> scene \<times> pyerr option" where
  "monitor_update bssid st = update_stations (snd st) bssid (wm_stations (snd st)) (fst st)"

definition monitor_update_view :: "scene \<times> wifi_monitor \<Rightarrow> scene" where
  "monitor_update_view st = foldl (\<lambda>sc (d, i, k). update_points sc k) (fst st) (wm_stations (snd st))"

section \<open>A link keeps its place in the scene\<close>

lemma modify_link_frame [simp]:
  "get_end_position (modify_link k f sc) e = get_end_position sc e" "end_links (modify_link k f sc) e = end_links sc e"
  "end_exists (modify_link k f sc) e = end_exists sc e" "length (sc_links (modify_link k f sc)) = length (sc_links sc)"
  "sc_nodes (modify_link k f sc) = sc_nodes sc"
  by (simp_all add: modify_link_def)

text \<open>Two scenes with the same nodes, but for the lists of links, and channels.\<close>

definition same_places :: "scene \<Rightarrow> scene \<Rightarrow> bool" where
  "same_places sc sc' \<longleftrightarrow>
     (\<forall>e. get_end_position sc' e = get_end_position sc e) \<and> (\<forall>e. end_exists sc' e = end_exists sc e)"

lemma link_ok_places:
  assumes "same_places sc sc'" and "link_ok sc k l" and "\<And>e. k \<in> set (end_links sc e) \<Longrightarrow> k \<in> set (end_links sc' e)"
  shows "link_ok sc' k l"
  using assms by (auto simp: link_ok_def same_places_def current_points_def split: option.splits)

lemma add_link_effect:
  "same_places sc (add_link j k sc)"
  "end_links (add_link j k sc) e = (if e = ToNode j \<and> end_exists sc e then end_links sc e @ [k] else end_links sc e)"
  "sc_links (add_link j k sc) = sc_links sc"
  by (auto simp: add_link_def same_places_def modify_node_lookup end_exists_def end_links_def get_end_position_def
      node_position_def split: endpoint.splits option.splits)

lemma remove_link_effect:
  assumes "remove_link j k sc = Inr sc'"
  shows "same_places sc sc'" "sc_links sc' = sc_links sc"
    "end_links sc' e = (if e = ToNode j then remove1 k (end_links sc e) else end_links sc e)"
  using assms
  by (auto simp: remove_link_def same_places_def modify_node_lookup end_exists_def end_links_def get_end_position_def
      node_position_def split: endpoint.splits option.splits if_splits)

lemma same_places_refl [simp]: "same_places sc sc"
  by (simp add: same_places_def)

lemma same_places_trans: "same_places a b \<Longrightarrow> same_places b c \<Longrightarrow> same_places a c"
  by (simp add: same_places_def)

lemma same_places_links [simp]: "same_places sc (modify_link k f sc)" "same_places sc (update_points sc k)"
  by (simp_all add: same_places_def update_points_refresh)

text \<open>Replacing one link by another that is in order.\<close>

lemma replace_link_ok:
  assumes ok: "scene_ok sc" and places: "same_places sc sc'" and links: "sc_links sc' = (sc_links sc)[k := l]"
    and k: "k < length (sc_links sc)" and l: "link_ok sc' k l"
    and lists: "\<And>m e. m \<noteq> k \<Longrightarrow> m \<in> set (end_links sc e) \<Longrightarrow> m \<in> set (end_links sc' e)"
    and bound: "\<And>m e. m \<in> set (end_links sc' e) \<Longrightarrow> m \<in> set (end_links sc e) \<or> m = k"
  shows "scene_ok sc'"
proof -
  have "link_ok sc' m (sc_links sc' ! m)" if m: "m < length (sc_links sc')" for m
  proof (cases "m = k")
    case True
    then show ?thesis using l k by (simp add: links)
  next
    case False
    have "link_ok sc m (sc_links sc ! m)" using ok m by (simp add: scene_ok_def links)
    with places have "link_ok sc' m (sc_links sc ! m)" by (rule link_ok_places) (rule lists [OF False])
    then show ?thesis using False by (simp add: links)
  qed
  moreover have "m < length (sc_links sc')" if "m \<in> set (end_links sc' e)" for m e
    using bound [OF that] ok k by (auto simp: scene_ok_def links)
  ultimately show ?thesis by (simp add: scene_ok_def)
qed

text \<open>The old access point forgets the link.\<close>

definition forget :: "nat \<Rightarrow> endpoint option \<Rightarrow> scene \<Rightarrow> scene pyres" where
  "forget k old sc = (case old of Some (ToNode j) \<Rightarrow> remove_link j k sc | _ \<Rightarrow> Inr sc)"

lemma forget_effect:
  assumes "link_ok sc k l"
  obtains r where "forget k (l_node2 l) sc = Inr r" "same_places sc r" "sc_links r = sc_links sc"
    "\<And>m e. m \<in> set (end_links r e) \<Longrightarrow> m \<in> set (end_links sc e)"
    "\<And>m e. m \<noteq> k \<Longrightarrow> m \<in> set (end_links sc e) \<Longrightarrow> m \<in> set (end_links r e)"
proof (cases "\<exists>j. l_node2 l = Some (ToNode j)")
  case True
  then obtain j where j: "l_node2 l = Some (ToNode j)" by blast
  with assms have "k \<in> set (end_links sc (ToNode j))" by (simp add: link_ok_def)
  then obtain r where r: "remove_link j k sc = Inr r" by (simp add: remove_link_def)
  have "m \<in> set (end_links sc e)" if "m \<in> set (end_links r e)" for m e
    using that notin_set_remove1 by (fastforce simp: remove_link_effect(3) [OF r] split: if_splits)
  moreover have "m \<in> set (end_links r e)" if "m \<noteq> k" "m \<in> set (end_links sc e)" for m e
    using that by (auto simp: remove_link_effect(3) [OF r] in_set_remove1)
  ultimately show ?thesis
    using r j remove_link_effect(1,2) [OF r] by (intro that [of r]) (auto simp: forget_def)
next
  case False
  then have "forget k (l_node2 l) sc = Inr sc" by (auto simp: forget_def split: option.split endpoint.split)
  then show ?thesis by (intro that [of sc]) simp_all
qed

lemma set_ap_ok:
  assumes ok: "scene_ok sc" and k: "k < length (sc_links sc)" and wireless: "\<not> l_wired (sc_links sc ! k)"
    and ap: "\<And>j. ap = Some j \<Longrightarrow> end_exists sc (ToNode j)"
  shows "\<exists>sc' l. set_ap k ap sc = Inr sc' \<and> scene_ok sc' \<and> same_places sc sc' \<and> sc_links sc' = (sc_links sc)[k := l] \<and>
    l_node2 l = map_option ToNode ap \<and> \<not> l_wired l"
proof (cases "map_option ToNode ap = l_node2 (sc_links sc ! k)")
  case True
  then show ?thesis using ok wireless by (intro exI [of _ sc] exI [of _ "sc_links sc ! k"]) (simp add: set_ap_def)
next
  case False
  let ?l = "sc_links sc ! k"
  have lk: "link_ok sc k ?l" using ok k by (simp add: scene_ok_def)
  obtain r where r: "forget k (l_node2 ?l) sc = Inr r" "same_places sc r" "sc_links r = sc_links sc"
    and sub: "\<And>m e. m \<in> set (end_links r e) \<Longrightarrow> m \<in> set (end_links sc e)"
    and sup: "\<And>m e. m \<noteq> k \<Longrightarrow> m \<in> set (end_links sc e) \<Longrightarrow> m \<in> set (end_links r e)"
    using forget_effect [OF lk] by blast
  define r1 where "r1 = modify_link k (\<lambda>l. l\<lparr>l_node2 := map_option ToNode ap\<rparr>) r"
  define r2 where "r2 = (case ap of None \<Rightarrow> modify_link k (\<lambda>l. l\<lparr>l_visible := False\<rparr>) r1
      | Some j \<Rightarrow> modify_link k (\<lambda>l. l\<lparr>l_visible := True\<rparr>) (add_link j k r1))"
  define l' where "l' = refresh r2 (?l\<lparr>l_node2 := map_option ToNode ap, l_visible := (ap \<noteq> None)\<rparr>)"
  have res: "set_ap k ap sc = Inr (update_points r2 k)"
    using False r(1) by (cases ap) (simp_all add: set_ap_def Let_def forget_def r2_def r1_def)
  have l2: "sc_links r2 = (sc_links sc)[k := ?l\<lparr>l_node2 := map_option ToNode ap, l_visible := (ap \<noteq> None)\<rparr>]"
    using k r(3) by (cases ap) (simp_all add: r1_def r2_def modify_link_def add_link_effect)
  have links: "sc_links (update_points r2 k) = (sc_links sc)[k := l']"
    using k by (simp add: update_points_refresh l2 l'_def)
  have p1: "same_places sc r1" unfolding r1_def using r(2) same_places_links(1) by (rule same_places_trans)
  have p2: "same_places sc r2"
  proof (cases ap)
    case (Some j)
    have "same_places sc (add_link j k r1)" using p1 add_link_effect(1) by (rule same_places_trans)
    then show ?thesis using same_places_links(1) unfolding r2_def Some option.case by (rule same_places_trans)
  next
    case None
    show ?thesis using p1 same_places_links(1) unfolding r2_def None option.case by (rule same_places_trans)
  qed
  then have places: "same_places sc (update_points r2 k)" using same_places_links(2) by (rule same_places_trans)
  have e2: "end_links (update_points r2 k) e =
      (if \<exists>j. ap = Some j \<and> e = ToNode j then end_links r e @ [k] else end_links r e)" for e
  proof -
    have "end_exists r1 (ToNode j)" if "ap = Some j" for j using ap [OF that] p1 by (simp add: same_places_def)
    then show ?thesis
      by (auto simp: update_points_refresh r2_def add_link_effect r1_def split: option.split)
  qed
  have "link_ok (update_points r2 k) k l'"
    using lk wireless places ap by (cases ap) (auto simp: link_ok_def l'_def same_places_def e2)
  then have "scene_ok (update_points r2 k)"
    by (rule replace_link_ok [OF ok places links k]) (auto simp: e2 dest: sub intro: sup split: if_splits)
  then show ?thesis
    using res places links wireless by (intro exI [of _ "update_points r2 k"] exI [of _ l']) (simp add: l'_def)
qed

section \<open>The monitor\<close>

definition station_links :: "wifi_monitor \<Rightarrow> nat list" where
  "station_links m = map (\<lambda>(d, i, k). k) (wm_stations m)"

definition wireless_links :: "scene \<Rightarrow> nat list \<Rightarrow> bool" where
  "wireless_links sc ks \<longleftrightarrow> (\<forall>k\<in>set ks. k < length (sc_links sc) \<and> \<not> l_wired (sc_links sc ! k))"

definition known_nodes :: "scene \<Rightarrow> (string, nat) dict \<Rightarrow> bool" where
  "known_nodes sc aps \<longleftrightarrow> (\<forall>(a, j)\<in>set aps. end_exists sc (ToNode j))"

definition monitor_ok :: "scene \<Rightarrow> wifi_monitor \<Rightarrow> bool" where
  "monitor_ok sc m \<longleftrightarrow> wireless_links sc (station_links m) \<and> distinct (station_links m) \<and> known_nodes sc (wm_access_points m)"

lemma station_ap_known: "known_nodes sc (wm_access_points m) \<Longrightarrow> station_ap m b = Inr (Some j) \<Longrightarrow> end_exists sc (ToNode j)"
  by (auto simp: station_ap_def known_nodes_def dict_getitem_def rmap_eq_Inr_iff dest: map_of_SomeD
      split: option.splits if_splits)

lemma station_ap_error: "station_ap m b = Inl e \<Longrightarrow> e = KeyError"
  by (auto simp: station_ap_def dict_getitem_def rmap_eq_Inl_iff split: option.splits if_splits)

text \<open>The stations up to the first with an unknown BSSID get their access points.\<close>

lemma update_stations_links:
  assumes "scene_ok sc" and "wireless_links sc (map (\<lambda>(d, i, k). k) sts)" and "distinct (map (\<lambda>(d, i, k). k) sts)"
    and "known_nodes sc (wm_access_points m)"
  shows "\<exists>sc'. update_stations m bssid sts sc =
      (sc', if \<forall>(d, i, k)\<in>set sts. \<not> isl (station_ap m (bssid d)) then None else Some KeyError) \<and>
    scene_ok sc' \<and> same_places sc sc' \<and> map l_wired (sc_links sc') = map l_wired (sc_links sc) \<and>
    (\<forall>k. k \<notin> set (map (\<lambda>(d, i, k). k) sts) \<longrightarrow> sc_links sc' ! k = sc_links sc ! k) \<and>
    ((\<forall>(d, i, k)\<in>set sts. \<not> isl (station_ap m (bssid d))) \<longrightarrow>
      (\<forall>(d, i, k)\<in>set sts. \<forall>ap. station_ap m (bssid d) = Inr ap \<longrightarrow> l_node2 (sc_links sc' ! k) = map_option ToNode ap))"
  using assms
proof (induction sts arbitrary: sc)
  case Nil
  then show ?case by simp
next
  case (Cons st sts)
  obtain d i k where st: "st = (d, i, k)" by (cases st)
  show ?case
  proof (cases "station_ap m (bssid d)")
    case (Inl e)
    then have "e = KeyError" by (rule station_ap_error)
    with Inl Cons.prems show ?thesis by (intro exI [of _ sc]) (simp add: st)
  next
    case (Inr ap)
    have "end_exists sc (ToNode j)" if "ap = Some j" for j using station_ap_known Cons.prems(4) Inr that by blast
    with Cons.prems obtain sc1 l where 1: "set_ap k ap sc = Inr sc1" "scene_ok sc1" "same_places sc sc1"
      and l: "sc_links sc1 = (sc_links sc)[k := l]" "l_node2 l = map_option ToNode ap" "\<not> l_wired l"
      using set_ap_ok [of sc k ap] by (auto simp: wireless_links_def st)
    have "wireless_links sc1 (map (\<lambda>(d, i, k). k) sts)"
      using Cons.prems(2,3) l by (auto simp: wireless_links_def nth_list_update st)
    moreover have "known_nodes sc1 (wm_access_points m)" using Cons.prems(4) 1(3) by (simp add: known_nodes_def same_places_def)
    moreover have "distinct (map (\<lambda>(d, i, k). k) sts)" using Cons.prems(3) by simp
    ultimately obtain sc' where 2: "update_stations m bssid sts sc1 =
        (sc', if \<forall>(d, i, k)\<in>set sts. \<not> isl (station_ap m (bssid d)) then None else Some KeyError)"
      "scene_ok sc'" "same_places sc1 sc'" "map l_wired (sc_links sc') = map l_wired (sc_links sc1)"
      and keep: "\<forall>k. k \<notin> set (map (\<lambda>(d, i, k). k) sts) \<longrightarrow> sc_links sc' ! k = sc_links sc1 ! k"
      and set: "(\<forall>(d, i, k)\<in>set sts. \<not> isl (station_ap m (bssid d))) \<longrightarrow>
        (\<forall>(d, i, k)\<in>set sts. \<forall>ap. station_ap m (bssid d) = Inr ap \<longrightarrow> l_node2 (sc_links sc' ! k) = map_option ToNode ap)"
      using Cons.IH [OF 1(2)] by blast
    have k: "k \<notin> set (map (\<lambda>(d, i, k). k) sts)" "k < length (sc_links sc)"
      using Cons.prems(2,3) by (auto simp: st wireless_links_def)
    have "l_node2 (sc_links sc' ! k) = map_option ToNode ap" using keep k l by simp
    moreover have "map l_wired (sc_links sc1) = map l_wired (sc_links sc)"
      using Cons.prems(2) l by (auto simp: st wireless_links_def intro!: list_update_map_same)
    moreover have "same_places sc sc'" using 1(3) 2(3) by (rule same_places_trans)
    moreover have "\<forall>j. j \<notin> set (map (\<lambda>(d, i, k). k) (st # sts)) \<longrightarrow> sc_links sc' ! j = sc_links sc ! j"
      using keep l(1) by (auto simp: st)
    ultimately show ?thesis using 1 2 l set Inr by (intro exI [of _ sc']) (auto simp: st)
  qed
qed

text \<open>
  C32: after every period each wireless station whose link is up with a known BSSID is linked to that
  access point's node and every other station is linked to none, links being listed at their access
  points as before; an unknown BSSID is a KeyError.
\<close>

theorem stations_follow_access_points:
  assumes "scene_ok sc" and "monitor_ok sc m"
  shows "\<exists>sc' err. monitor_update bssid (sc, m) = (sc', err) \<and> scene_ok sc' \<and> monitor_ok sc' m \<and>
    err = (if \<exists>(d, i, k)\<in>set (wm_stations m). isl (station_ap m (bssid d)) then Some KeyError else None) \<and>
    (err = None \<longrightarrow> (\<forall>(d, i, k)\<in>set (wm_stations m).
       map_option ToNode (projr (station_ap m (bssid d))) = l_node2 (sc_links sc' ! k)))"
proof -
  have ks: "map (\<lambda>(d, i, k). k) (wm_stations m) = station_links m" by (simp add: station_links_def)
  have all: "(\<forall>(d, i, k)\<in>set (wm_stations m). \<not> isl (station_ap m (bssid d))) \<longleftrightarrow>
      \<not> (\<exists>(d, i, k)\<in>set (wm_stations m). isl (station_ap m (bssid d)))" by auto
  obtain sc' where u: "update_stations m bssid (wm_stations m) sc =
      (sc', if \<forall>(d, i, k)\<in>set (wm_stations m). \<not> isl (station_ap m (bssid d)) then None else Some KeyError)"
    and sc': "scene_ok sc'" "same_places sc sc'" "map l_wired (sc_links sc') = map l_wired (sc_links sc)"
    and linked: "(\<forall>(d, i, k)\<in>set (wm_stations m). \<not> isl (station_ap m (bssid d))) \<longrightarrow>
      (\<forall>(d, i, k)\<in>set (wm_stations m). \<forall>ap. station_ap m (bssid d) = Inr ap \<longrightarrow> l_node2 (sc_links sc' ! k) = map_option ToNode ap)"
    using update_stations_links [of sc "wm_stations m" m bssid] assms unfolding ks monitor_ok_def by blast
  have len: "length (sc_links sc') = length (sc_links sc)" using sc'(3) by (rule map_eq_imp_length_eq)
  have "l_wired (sc_links sc' ! k) = l_wired (sc_links sc ! k)" if "k < length (sc_links sc)" for k
    using arg_cong [OF sc'(3), of "\<lambda>l. l ! k"] that len by simp
  then have "monitor_ok sc' m"
    using assms(2) sc'(2) len by (simp add: monitor_ok_def known_nodes_def same_places_def wireless_links_def)
  moreover have "map_option ToNode (projr (station_ap m (bssid d))) = l_node2 (sc_links sc' ! k)"
    if "(d, i, k) \<in> set (wm_stations m)" "\<forall>(d, i, k)\<in>set (wm_stations m). \<not> isl (station_ap m (bssid d))" for d i k
  proof -
    have "\<not> isl (station_ap m (bssid d))" using that by auto
    then obtain ap where "station_ap m (bssid d) = Inr ap" by (cases "station_ap m (bssid d)") auto
    with linked that show ?thesis by fastforce
  qed
  moreover have "monitor_update bssid (sc, m) =
      (sc', if \<exists>(d, i, k)\<in>set (wm_stations m). isl (station_ap m (bssid d)) then Some KeyError else None)"
    using u unfolding all by (simp add: monitor_update_def)
  ultimately show ?thesis using sc' unfolding all by (intro exI [of _ sc'] exI conjI) (auto split: if_splits)
qed

text \<open>The other handlers keep such a state, whether they raise or not.\<close>

lemma monitor_update_ok:
  assumes "scene_ok sc" and "monitor_ok sc m"
  shows "scene_ok (fst (monitor_update bssid (sc, m))) \<and> monitor_ok (fst (monitor_update bssid (sc, m))) m"
proof -
  have ks: "map (\<lambda>(d, i, k). k) (wm_stations m) = station_links m" by (simp add: station_links_def)
  obtain sc' e where u: "update_stations m bssid (wm_stations m) sc = (sc', e)"
    and sc': "scene_ok sc'" "same_places sc sc'" "map l_wired (sc_links sc') = map l_wired (sc_links sc)"
    using update_stations_links [of sc "wm_stations m" m bssid] assms unfolding ks monitor_ok_def by blast
  have len: "length (sc_links sc') = length (sc_links sc)" using sc'(3) by (rule map_eq_imp_length_eq)
  have "l_wired (sc_links sc' ! k) = l_wired (sc_links sc ! k)" if "k < length (sc_links sc)" for k
    using arg_cong [OF sc'(3), of "\<lambda>l. l ! k"] that len by simp
  then have "monitor_ok sc' m"
    using assms(2) sc'(2) len by (simp add: monitor_ok_def known_nodes_def same_places_def wireless_links_def)
  with u sc'(1) show ?thesis by (simp add: monitor_update_def)
qed

lemma update_points_ok:
  assumes "scene_ok sc"
  shows "scene_ok (update_points sc k)"
proof -
  have "link_ok sc k (refresh sc (sc_links sc ! k))" if "k < length (sc_links sc)"
    using assms that by (fastforce simp: scene_ok_def link_ok_def refresh_def current_points_def split: option.splits)
  then have "link_ok sc j ((sc_links sc)[k := refresh sc (sc_links sc ! k)] ! j)" if "j < length (sc_links sc)" for j
    using assms that by (cases "j = k") (simp_all add: scene_ok_def)
  with assms show ?thesis by (auto simp: scene_ok_def update_points_refresh)
qed

lemma monitor_update_view_ok:
  assumes "scene_ok sc" and "monitor_ok sc m"
  shows "scene_ok (monitor_update_view (sc, m)) \<and> monitor_ok (monitor_update_view (sc, m)) m"
proof -
  have step: "monitor_ok (update_points s k) m" if "monitor_ok s m" for s k
  proof -
    have "l_wired (sc_links (update_points s k) ! j) = l_wired (sc_links s ! j)" if "j < length (sc_links s)" for j
      using that by (cases "j = k") (simp_all add: update_points_refresh)
    moreover have "length (sc_links (update_points s k)) = length (sc_links s)" by (simp add: update_points_refresh)
    ultimately show ?thesis
      using that same_places_links(2) [of s k] by (simp add: monitor_ok_def known_nodes_def same_places_def wireless_links_def)
  qed
  show ?thesis
    unfolding monitor_update_view_def
    by (rule foldl_invariant [where P = "\<lambda>s. scene_ok s \<and> monitor_ok s m"]) (use assms in \<open>auto intro: update_points_ok step\<close>)
qed

text \<open>Scanning the nodes, at first and again, gives such a state.\<close>

lemma destroy_ok:
  assumes "scene_ok sc" and "k < length (sc_links sc)" and "\<not> l_wired (sc_links sc ! k)"
  shows "scene_ok (destroy k sc)"
proof -
  let ?l = "(sc_links sc ! k)\<lparr>l_node2 := None, l_visible := False\<rparr>"
  have "link_ok sc k (sc_links sc ! k)" using assms(1,2) by (simp add: scene_ok_def)
  then have "link_ok (destroy k sc) k ?l" using assms(3) by (simp add: link_ok_def destroy_def)
  then show ?thesis
    by (rule replace_link_ok [OF assms(1) _ _ assms(2), rotated 2]) (simp_all add: destroy_def, simp add: modify_link_def)
qed

lemma WifiLink_ok:
  assumes "scene_ok sc" and "end_exists sc (ToNode i)"
  shows "scene_ok (fst (WifiLink i sc))"
proof -
  let ?sc = "fst (WifiLink i sc)"
  have links: "sc_links ?sc = sc_links sc @ [\<lparr>l_node1 = i, l_node2 = None, l_points = None, l_visible = True, l_wired = False\<rparr>]"
    by (simp add: WifiLink_def)
  have ends: "end_links ?sc e = end_links sc e" "end_exists ?sc e = end_exists sc e" "get_end_position ?sc e = get_end_position sc e" for e
    by (simp_all add: WifiLink_def)
  have "link_ok ?sc k (sc_links ?sc ! k)" if "k < length (sc_links ?sc)" for k
  proof (cases "k = length (sc_links sc)")
    case True
    then show ?thesis using assms(2) by (simp add: links link_ok_def ends)
  next
    case False
    then have "link_ok sc k (sc_links sc ! k)" using that assms(1) by (simp add: links scene_ok_def)
    then show ?thesis using False that by (simp add: links nth_append link_ok_def ends current_points_def cong: option.case_cong)
  qed
  moreover have "\<forall>e. \<forall>k\<in>set (end_links ?sc e). k < length (sc_links ?sc)"
    using assms(1) by (force simp: ends links scene_ok_def)
  ultimately show ?thesis by (simp add: scene_ok_def)
qed

definition scanning :: "scene \<Rightarrow> scene \<times> wifi_monitor \<Rightarrow> bool" where
  "scanning sc0 st \<longleftrightarrow> scene_ok (fst st) \<and> monitor_ok (fst st) (snd st) \<and> sc_nodes (fst st) = sc_nodes sc0"

lemma scan_wifi_device_ok:
  assumes "scanning sc0 st" and "i \<in> set (dict_keys (sc_nodes sc0))"
  shows "scanning sc0 (scan_wifi_device i st d)"
proof -
  obtain sc m where st: "st = (sc, m)" by (cases st)
  have i: "end_exists sc (ToNode i)"
    using assms by (auto simp: scanning_def st end_exists_def dict_keys_def map_of_eq_None_iff)
  have new: "k \<noteq> length (sc_links sc)" if "k \<in> set (station_links m)" for k
    using assms(1) that by (auto simp: scanning_def st monitor_ok_def wireless_links_def)
  show ?thesis
  proof (cases "wd_mac d")
    case StaWifiMac
    then show ?thesis using assms(1) WifiLink_ok [OF _ i] new
      by (auto simp: scan_wifi_device_def scanning_def st Let_def WifiLink_def monitor_ok_def wireless_links_def
          station_links_def known_nodes_def nth_append)
  next
    case ApWifiMac
    have "known_nodes sc (dict_set a i (wm_access_points m))" for a
      using assms(1) i set_dict_set by (fastforce simp: scanning_def st monitor_ok_def known_nodes_def)
    with ApWifiMac show ?thesis using assms(1)
      by (simp add: scan_wifi_device_def scanning_def st monitor_ok_def station_links_def)
  next
    case OtherMac
    then show ?thesis using assms(1) by (simp add: scan_wifi_device_def)
  qed
qed

lemma destroys_ok:
  assumes "scene_ok sc" and "wireless_links sc (map (\<lambda>(d, i, k). k) sts)"
  shows "scene_ok (foldl (\<lambda>sc (d, i, k). destroy k sc) sc sts) \<and>
    sc_nodes (foldl (\<lambda>sc (d, i, k). destroy k sc) sc sts) = sc_nodes sc"
  using assms
proof (induction sts arbitrary: sc)
  case (Cons st sts)
  obtain d i k where st: "st = (d, i, k)" by (cases st)
  have "scene_ok (destroy k sc)" using Cons.prems by (intro destroy_ok) (simp_all add: st wireless_links_def)
  moreover have "wireless_links (destroy k sc) (map (\<lambda>(d, i, k). k) sts)"
    using Cons.prems(2) by (auto simp: st wireless_links_def destroy_def modify_link_def nth_list_update)
  ultimately show ?case using Cons.IH [of "destroy k sc"] by (simp add: st) (simp add: destroy_def)
qed simp

lemma scan_nodes_ok:
  assumes "scene_ok sc" and "monitor_ok sc m"
  shows "scene_ok (fst (scan_nodes devs (sc, m))) \<and> monitor_ok (fst (scan_nodes devs (sc, m))) (snd (scan_nodes devs (sc, m)))"
proof -
  let ?sc = "foldl (\<lambda>sc (d, i, k). destroy k sc) sc (wm_stations m)"
  have ks: "map (\<lambda>(d, i, k). k) (wm_stations m) = station_links m" by (simp add: station_links_def)
  have ok: "scene_ok ?sc" using destroys_ok assms unfolding ks monitor_ok_def using ks by metis
  have "scanning ?sc (scan_nodes devs (sc, m))"
    unfolding scan_nodes_def Let_def fst_conv snd_conv
  proof (rule foldl_invariant)
    show "scanning ?sc (?sc, WifiLinkMonitor)"
      using ok by (simp add: scanning_def monitor_ok_def WifiLinkMonitor_def wireless_links_def station_links_def known_nodes_def)
    fix st i assume "scanning ?sc st" "i \<in> set (dict_keys (sc_nodes ?sc))"
    then show "scanning ?sc (foldl (scan_wifi_device i) st (devs i))"
      by (rule_tac foldl_invariant) (auto intro: scan_wifi_device_ok)
  qed
  then show ?thesis by (simp add: scanning_def)
qed

text \<open>A station and an access point.\<close>

definition wifi_scene :: scene where
  "wifi_scene = get_node 1 (get_node 0 empty_scene)"

definition wifi_devs :: "nat \<Rightarrow> wifi_device list" where
  "wifi_devs i = [\<lparr>wd_dev = i, wd_mac = (if i = 0 then StaWifiMac else ApWifiMac), wd_address = ''00:00:00:00:00:02''\<rparr>]"

theorem stations_follow_access_points_witness:
  "\<exists>sc'. monitor_update (\<lambda>_. Some ''00:00:00:00:00:02'') (scan_nodes wifi_devs (wifi_scene, WifiLinkMonitor)) = (sc', None) \<and>
     scene_ok sc' \<and> l_node2 (sc_links sc' ! 0) = Some (ToNode 1)"
proof -
  let ?st = "scan_nodes wifi_devs (wifi_scene, WifiLinkMonitor)"
  let ?b = "\<lambda>_ :: nat. Some ''00:00:00:00:00:02''"
  have start: "scene_ok wifi_scene" "monitor_ok wifi_scene WifiLinkMonitor"
    by (simp_all add: wifi_scene_def get_node_ok empty_scene_ok monitor_ok_def WifiLinkMonitor_def wireless_links_def
        station_links_def known_nodes_def)
  have sts: "wm_stations (snd ?st) = [(0, 0, 0)]" "station_ap (snd ?st) (?b 0) = Inr (Some 1)" by code_simp+
  have "scene_ok (fst ?st)" "monitor_ok (fst ?st) (snd ?st)" using scan_nodes_ok [OF start] by blast+
  from stations_follow_access_points [OF this, of ?b] sts show ?thesis by auto
qed

end
