(* ===== verification/VisEvents.thy ===== *)
theory VisEvents
  imports VisView VisWifi
begin

text \<open>
  What holds of the view while its handlers and those of the wifi plugin run in any order and the
  simulator moves the nodes: the scene stays in order, exactly the selected node looks selected, and the
  simulator reports on the nodes the mode asks for; and what the single gestures do: dragging a node, panning, fitting the view to the nodes.
\<close>

section \<open>Which nodes look selected\<close>

definition sel :: "scene \<Rightarrow> nat \<Rightarrow> bool option" where
  "sel sc j = map_option nv_selected (map_of (sc_nodes sc) j)"

lemma sel_modify [simp]: "(\<And>n. nv_selected (f n) = nv_selected n) \<Longrightarrow> sel (modify_node i f sc) j = sel sc j"
  by (cases "map_of (sc_nodes sc) i") (auto simp: sel_def modify_node_lookup)

lemma sel_links [simp]: "sel (update_links e sc) j = sel sc j" "sel (modify_channel c g sc) j = sel sc j"
  "sel (get_channel c sc) j = sel sc j"
  by (simp_all add: sel_def update_links_def fold_update_points)

lemma selected_keeps [simp]:
  "nv_selected (place p n) = nv_selected n" "nv_selected (appear n) = nv_selected n"
  "nv_selected (show_label n) = nv_selected n" "\<not> nv_selected (Node i)"
  by (simp_all add: place_def appear_def show_label_def Node_def Let_def split: option.split)

lemma sel_moves [simp]: "sel (node_set_position i p sc) j = sel sc j" "sel (channel_set_position c p sc) j = sel sc j"
  by (simp_all add: node_set_position_def channel_set_position_def)

lemma sel_appearance [simp]: "sel (update_appearance i sc) j = sel sc j"
  by (auto simp: update_appearance_def Let_def split: option.split)

lemma sel_setters [simp]:
  "sel (set_label i t sc) j = sel sc j" "sel (set_highlighted i b sc) j = sel sc j"
  "sel (set_size i v sc) j = sel sc j" "sel (set_color i c sc) j = sel sc j"
  by (simp_all add: set_label_def set_highlighted_def set_size_def set_color_def)

lemma sel_selected [simp]:
  "sel (set_selected i b sc) j = (if j = i then map_option (\<lambda>_. b) (sel sc i) else sel sc j)"
proof -
  have "sel (set_selected i b sc) j = sel (modify_node i (\<lambda>n. n\<lparr>nv_selected := b\<rparr>) sc) j"
    by (simp add: set_selected_def)
  also have "\<dots> = (if j = i then map_option (\<lambda>_. b) (sel sc i) else sel sc j)"
    by (cases "map_of (sc_nodes sc) i") (simp_all add: sel_def modify_node_lookup)
  finally show ?thesis .
qed

lemma sel_get_node: "sel (get_node i sc) j = (case sel sc j of None \<Rightarrow> if j = i then Some False else None | Some b \<Rightarrow> Some b)"
  by (auto simp: sel_def get_node_lookup split: option.split)

lemma sel_mobility [simp]: "sel (snd (has_mobility ns i sc)) j = sel sc j"
  by (auto simp: has_mobility_def split: option.split)

lemma sel_create_link [simp]: "sel (create_link i e sc) j = sel sc j"
proof -
  have [simp]: "sel (sc\<lparr>sc_links := ls\<rparr>) j = sel sc j" for ls by (simp add: sel_def)
  show ?thesis by (simp add: create_link_def Let_def add_link_def split: endpoint.split)
qed

lemma sel_update_position [simp]: "sel (update_node_position ns sc i) j = sel sc j"
  by (simp add: update_node_position_def case_prod_unfold split: option.split)

lemma end_exists_sel: "end_exists sc (ToNode i) \<longleftrightarrow> sel sc i \<noteq> None"
  by (simp add: end_exists_def sel_def)

section \<open>The invariant\<close>

text \<open>
  The mode for all nodes asks for the nodes there were when it was set: no fewer than the \<open>n0\<close> of the
  start and no more than the \<open>n\<close> of now, so all of them when the simulation creates no nodes.
\<close>

definition interest_ok :: "nat \<Rightarrow> nat \<Rightarrow> viz \<Rightarrow> bool" where
  "interest_ok n0 n v \<longleftrightarrow>
     (case vz_mode v of
        ShowAll \<Rightarrow> \<exists>m. n0 \<le> m \<and> m \<le> n \<and> vz_interest v = [0..<m]
      | ShowNone \<Rightarrow> vz_interest v = []
      | ShowSelected \<Rightarrow> vz_interest v = selected_list v)"

definition selection_ok :: "viz \<Rightarrow> bool" where
  "selection_ok v \<longleftrightarrow>
     (\<forall>j b. sel (vz_scene v) j = Some b \<longrightarrow> b = (vz_selected v = Some j)) \<and>
     (\<forall>i. vz_selected v = Some i \<longrightarrow> sel (vz_scene v) i \<noteq> None)"

definition view_ok :: "nat \<Rightarrow> nat \<Rightarrow> viz \<Rightarrow> bool" where
  "view_ok n0 n v \<longleftrightarrow> scene_ok (vz_scene v) \<and> selection_ok v \<and> interest_ok n0 n v"

lemma view_ok_more: "view_ok n0 n v \<Longrightarrow> n \<le> n' \<Longrightarrow> view_ok n0 n' v"
  by (auto simp: view_ok_def interest_ok_def split: transmissions_mode.splits)

text \<open>The same links, wired and not, and no node lost; it is all the wifi plugin relies on.\<close>

definition wiring :: "scene \<Rightarrow> bool list" where
  "wiring sc = map l_wired (sc_links sc)"

definition rewired :: "scene \<Rightarrow> scene \<Rightarrow> bool" where
  "rewired sc sc' \<longleftrightarrow> wiring sc' = wiring sc \<and> (\<forall>j. sel sc j \<noteq> None \<longrightarrow> sel sc' j \<noteq> None)"

lemma rewired_refl [simp, intro]: "rewired sc sc"
  by (simp add: rewired_def)

lemma rewired_monitor:
  assumes "rewired sc sc'" and "monitor_ok sc m"
  shows "monitor_ok sc' m"
proof -
  have len: "length (sc_links sc') = length (sc_links sc)"
    using assms(1) map_eq_imp_length_eq by (auto simp: rewired_def wiring_def)
  have "l_wired (sc_links sc' ! k) = l_wired (sc_links sc ! k)" if "k < length (sc_links sc)" for k
    using assms(1) that len nth_map [of k "sc_links sc" l_wired] nth_map [of k "sc_links sc'" l_wired]
    by (simp add: rewired_def wiring_def)
  then show ?thesis
    using assms len unfolding monitor_ok_def wireless_links_def known_nodes_def end_exists_sel rewired_def by fastforce
qed

lemma wiring_frame [simp]:
  "wiring (modify_node i f sc) = wiring sc" "wiring (update_links e sc) = wiring sc" "wiring (get_node i sc) = wiring sc"
proof -
  show "wiring (modify_node i f sc) = wiring sc" "wiring (get_node i sc) = wiring sc" by (simp_all add: wiring_def)
  show "wiring (update_links e sc) = wiring sc"
    by (auto simp: wiring_def update_links_def fold_update_points intro!: nth_equalityI split: if_splits)
qed

lemma wiring_ops [simp]:
  "wiring (node_set_position i p sc) = wiring sc" "wiring (snd (has_mobility ns i sc)) = wiring sc"
  "wiring (update_node_position ns sc i) = wiring sc" "wiring (update_appearance i sc) = wiring sc"
  by (auto simp: node_set_position_def has_mobility_def update_node_position_def update_appearance_def Let_def
      split: option.split prod.split)

lemma wiring_setters [simp]:
  "wiring (set_label i t sc) = wiring sc" "wiring (set_highlighted i b sc) = wiring sc" "wiring (set_selected i b sc) = wiring sc"
  "wiring (set_size i v sc) = wiring sc" "wiring (set_color i c sc) = wiring sc"
  by (simp_all add: set_label_def set_highlighted_def set_selected_def set_size_def set_color_def)

text \<open>Two views that agree but for the scene, which keeps its order and who is selected, new nodes apart.\<close>

definition keeps :: "scene \<Rightarrow> scene \<Rightarrow> bool" where
  "keeps sc sc' \<longleftrightarrow> (scene_ok sc \<longrightarrow> scene_ok sc') \<and> wiring sc' = wiring sc \<and>
     (\<forall>j. sel sc' j = sel sc j \<or> sel sc j = None \<and> sel sc' j = Some False)"

lemma keeps_rewired: "keeps sc sc' \<Longrightarrow> rewired sc sc'"
  unfolding keeps_def rewired_def by (metis option.distinct(1))

lemma keeps_refl [simp, intro]: "keeps sc sc"
  by (simp add: keeps_def)

lemma keeps_trans: "keeps a b \<Longrightarrow> keeps b c \<Longrightarrow> keeps a c"
  unfolding keeps_def by metis

lemma keeps_foldl: "(\<And>sc x. keeps sc (f sc x)) \<Longrightarrow> keeps sc (foldl f sc xs)"
  by (induction xs arbitrary: sc) (auto intro: keeps_trans)

lemma keeps_ops [intro]:
  "keeps sc (node_set_position i p sc)" "keeps sc (set_highlighted i b sc)" "keeps sc (set_size i s sc)"
  "keeps sc (update_node_position ns sc i)" "keeps sc (get_node i sc)" "keeps sc (set_label i txt sc)" "keeps sc (set_color i c sc)"
  by (auto simp: keeps_def sel_get_node node_set_position_ok setters_ok update_node_position_ok get_node_ok split: option.split)

lemma view_ok_cong:
  assumes "view_ok n0 n v" and "keeps (vz_scene v) (vz_scene v')" and "vz_selected v' = vz_selected v"
    and "vz_mode v' = vz_mode v" and "vz_interest v' = vz_interest v"
  shows "view_ok n0 n v'"
proof -
  have "selection_ok v'"
    unfolding selection_ok_def
  proof (intro conjI allI impI)
    fix j b assume b: "sel (vz_scene v') j = Some b"
    from assms(1) have ok: "selection_ok v" by (simp add: view_ok_def)
    from assms(2) have "sel (vz_scene v') j = sel (vz_scene v) j \<or> sel (vz_scene v) j = None \<and> sel (vz_scene v') j = Some False"
      by (simp add: keeps_def)
    with b ok assms(3) show "b = (vz_selected v' = Some j)" unfolding selection_ok_def by (metis option.inject)
  next
    fix i assume "vz_selected v' = Some i"
    with assms(1,3) have "sel (vz_scene v) i \<noteq> None" by (simp add: view_ok_def selection_ok_def)
    moreover from assms(2) have "sel (vz_scene v') i = sel (vz_scene v) i \<or> sel (vz_scene v) i = None \<and> sel (vz_scene v') i = Some False"
      by (simp add: keeps_def)
    ultimately show "sel (vz_scene v') i \<noteq> None" by auto
  qed
  with assms show ?thesis by (simp add: view_ok_def keeps_def interest_ok_def selected_list_def cong: transmissions_mode.case_cong)
qed

text \<open>Handlers that leave the selection and the mode alone.\<close>

definition quiet :: "viz \<Rightarrow> viz \<Rightarrow> bool" where
  "quiet v v' \<longleftrightarrow> keeps (vz_scene v) (vz_scene v') \<and> vz_selected v' = vz_selected v \<and> vz_mode v' = vz_mode v \<and>
     vz_interest v' = vz_interest v"

lemma quiet_ok: "quiet v v' \<Longrightarrow> view_ok n0 n v \<Longrightarrow> view_ok n0 n v'"
  by (auto simp: quiet_def intro: view_ok_cong)

lemma quiet_rewired: "quiet v v' \<Longrightarrow> rewired (vz_scene v) (vz_scene v')"
  by (simp add: quiet_def keeps_rewired)

lemma quiet_refl [simp, intro]: "quiet v v"
  by (simp add: quiet_def)

lemma quiet_trans: "quiet a b \<Longrightarrow> quiet b c \<Longrightarrow> quiet a c"
  unfolding quiet_def by (metis keeps_trans)

lemma quiet_foldl: "(\<And>v x. quiet v (f v x)) \<Longrightarrow> quiet v (foldl f v xs)"
  by (induction xs arbitrary: v) (auto intro: quiet_trans)

lemma quiet_simple [intro]:
  fixes v :: viz
  shows "quiet v (set_scroll L p v)" "quiet v (set_zoom L z v)" "quiet v (begin_panning p v)" "quiet v (end_panning v)"
  "quiet v (call c v)" "quiet v (do_simulation_periodic_update t d v)" "quiet v (end_node_drag v)"
  "quiet v (begin_node_drag L ns p i v)" "quiet v (add_information_window w v)" "quiet v (speed_changed s v)"
  "quiet v (on_shell_window_destroy v)" "quiet v (popup_node_menu i v)"
  by (auto simp: quiet_def set_scroll_def set_zoom_def begin_panning_def end_panning_def call_def Let_def
      do_simulation_periodic_update_def end_node_drag_def begin_node_drag_def add_information_window_def
      speed_changed_def on_shell_window_destroy_def popup_node_menu_def split: option.split)

lemma quiet_center [intro]: "quiet v (center_at L p v)"
  by (auto simp: center_at_def Let_def)

lemma quiet_results:
  "panning_motion L p v = Inr v' \<Longrightarrow> quiet v v'"
  "center_on_node L r v = Inr v' \<Longrightarrow> quiet v v'"
  "set_follow_node r v = Inr v' \<Longrightarrow> quiet v v'"
  "remove_information_window w v = Inr v' \<Longrightarrow> quiet v v'"
  by (auto simp: panning_motion_def center_on_node_def set_follow_node_def remove_information_window_def
      rmap_eq_Inr_iff
      split: option.splits prod.splits if_splits node_ref.splits) (auto simp: quiet_def)

lemma quiet_shell: "quiet v (fst (start_shell ipy v))"
  by (simp add: start_shell_def update_ipython_selected_node_def quiet_def)

lemma quiet_follow: "quiet v (follow_positions L ns v)"
  unfolding follow_positions_def
proof (rule quiet_foldl)
  fix v :: viz and i
  let ?u = "v\<lparr>vz_scene := update_node_position ns (vz_scene v) i\<rparr>"
  have "quiet v ?u" by (auto simp: quiet_def)
  then show "quiet v (follow_position L ns v i)" unfolding follow_position_def Let_def by (auto intro: quiet_trans)
qed

lemma quiet_node_drag: "quiet v (fst (node_drag_motion L ns p i v))"
  by (auto simp: node_drag_motion_def Let_def quiet_def split: option.split prod.split)

lemma quiet_autoscale: "quiet v (autoscale_view L ns v)"
proof -
  have scroll: "quiet u (w\<lparr>vz_scroll := p\<rparr>)" if "quiet u w" for u w :: viz and p
    using that by (simp add: quiet_def)
  show ?thesis
    by (auto simp: autoscale_view_def fit_box_def Let_def intro!: scroll intro: quiet_follow quiet_trans [OF quiet_follow])
qed

lemma draw_arrows_keeps:
  assumes "\<And>k sc. keeps sc (look k sc)"
  shows "keeps sc (fst (draw_arrows look render kvs sc old new))"
proof (induction kvs arbitrary: sc old new)
  case (Cons kv kvs)
  then show ?case using assms [of sc "fst kv"] by (auto simp: Let_def intro: keeps_trans split: sum.split)
qed simp

lemma quiet_transmissions: "quiet v (fst (update_transmissions_view L M v))"
proof -
  let ?d = "draw_arrows look_transmission (render_transmission L M v) (average transmission_key (vz_last_tx v)) (vz_scene v)
    (map hide (vz_tx_arrows v)) []"
  have "keeps sc (look_transmission k sc)" for k sc
    unfolding look_transmission_def by (rule keeps_trans [OF keeps_ops(5) keeps_ops(5)])
  then have "keeps (vz_scene v) (fst ?d)" by (rule draw_arrows_keeps)
  then show ?thesis by (auto simp: update_transmissions_view_def quiet_def split: prod.split option.split)
qed

lemma quiet_drops: "quiet v (fst (update_drops_view L M v))"
proof -
  let ?d = "draw_arrows get_node (render_drop L M v) (average sm_transmitter (vz_last_drops v)) (vz_scene v)
    (map hide (vz_drop_arrows v)) []"
  have "keeps (vz_scene v) (fst ?d)" by (rule draw_arrows_keeps) auto
  then show ?thesis by (auto simp: update_drops_view_def quiet_def split: prod.split option.split)
qed

lemma quiet_update_view: "quiet v (fst (update_view L M ns v))"
proof -
  let ?u = "foldl (\<lambda>v w. call (WindowUpdate w) v) (follow_positions L ns v) (vz_windows (follow_positions L ns v))"
  have u: "quiet v ?u" by (rule quiet_trans [OF quiet_follow quiet_foldl]) auto
  obtain v1 e1 where 1: "update_transmissions_view L M ?u = (v1, e1)" by force
  with quiet_transmissions [of ?u L M] u have q1: "quiet v v1" by (auto intro: quiet_trans)
  obtain v2 e2 where 2: "update_drops_view L M v1 = (v2, e2)" by force
  with quiet_drops [of v1 L M] q1 have q2: "quiet v v2" by (auto intro: quiet_trans)
  then have q3: "quiet v (call (Emit ''update-view'') v2)" by (auto intro: quiet_trans)
  from 1 2 q1 q2 q3 show ?thesis by (simp add: update_view_def Let_def split: option.split)
qed

lemma quiet_node_size: "quiet v (node_size_changed s v)"
  unfolding quiet_def node_size_changed_def by (auto intro: keeps_foldl)

section \<open>Selecting\<close>

lemma mark_ok [intro]: "scene_ok sc \<Longrightarrow> scene_ok (mark b i sc)"
  by (auto simp: mark_def setters_ok split: option.split)

lemma sel_mark: "sel (mark b i sc) j = (if i = Some j then map_option (\<lambda>_. b) (sel sc j) else sel sc j)"
  by (auto simp: mark_def split: option.split)

lemma lookup_view_sel: "lookup_view v i = Inr j \<Longrightarrow> sel (vz_scene v) j \<noteq> None"
  by (auto simp: lookup_view_def dict_has_iff sel_def split: if_splits)

lemma resolve_node_sel:
  assumes "resolve_node v r = Inr (Some i)" and "\<And>j. r = NodeOf j \<Longrightarrow> sel (vz_scene v) j \<noteq> None"
  shows "sel (vz_scene v) i \<noteq> None"
  using assms by (auto simp: resolve_node_def rmap_eq_Inr_iff dest: lookup_view_sel split: node_ref.splits)

lemma select_view_ok:
  assumes ok: "view_ok n0 n v" and node: "\<And>i. node = Some i \<Longrightarrow> sel (vz_scene v) i \<noteq> None"
    and v': "vz_scene v' = mark True node (mark False (vz_selected v) (vz_scene v))" "vz_selected v' = node"
      "vz_mode v' = vz_mode v" "vz_interest v' = (if vz_mode v = ShowSelected then selected_list v' else vz_interest v)"
  shows "view_ok n0 n v'"
proof -
  have "scene_ok (vz_scene v')" using ok by (auto simp: v' view_ok_def)
  moreover have "selection_ok v'"
    using ok node by (auto simp: selection_ok_def view_ok_def v' sel_mark split: if_splits)
  moreover have "interest_ok n0 n v'"
    using ok by (auto simp: interest_ok_def view_ok_def v' split: transmissions_mode.split)
  ultimately show ?thesis by (simp add: view_ok_def)
qed

text \<open>Selecting leaves the view in order also when it raises after the selection has changed.\<close>

lemma select_node_ok:
  assumes ok: "view_ok n0 n v" and r: "\<And>j. r = NodeOf j \<Longrightarrow> sel (vz_scene v) j \<noteq> None"
  shows "view_ok n0 n (fst (select_node ipy r v))"
proof (cases "resolve_node v r")
  case (Inl e)
  with ok show ?thesis by (simp add: select_node_def)
next
  case (Inr node)
  show ?thesis
  proof (cases "node = vz_selected v")
    case True
    with Inr ok show ?thesis by (simp add: select_node_def)
  next
    case False
    let ?v = "fst (select_node ipy r v)"
    have eqs: "vz_scene ?v = mark True node (mark False (vz_selected v) (vz_scene v))" "vz_selected ?v = node"
      "vz_mode ?v = vz_mode v" "vz_interest ?v = (if vz_mode v = ShowSelected then selected_list ?v else vz_interest v)"
      using False Inr by (simp_all add: select_node_def update_ipython_selected_node_def Let_def selected_list_def)
    have "sel (vz_scene v) i \<noteq> None" if "node = Some i" for i
      by (rule resolve_node_sel) (use Inr that r in auto)
    then show ?thesis by (rule select_view_ok [OF ok _ eqs])
  qed
qed

lemma mark_rewired [simp]: "wiring (mark b i sc) = wiring sc" "sel (mark b i sc) j = None \<longleftrightarrow> sel sc j = None"
  by (auto simp: mark_def split: option.split)

lemma select_node_rewired: "rewired (vz_scene v) (vz_scene (fst (select_node ipy r v)))"
  by (auto simp: select_node_def update_ipython_selected_node_def Let_def rewired_def simp del: not_None_eq split: sum.split)

lemma set_mode_ok: "n0 \<le> n \<Longrightarrow> view_ok n0 n v \<Longrightarrow> view_ok n0 n (set_show_transmissions_mode n m v)"
  by (auto simp: view_ok_def selection_ok_def interest_ok_def set_show_transmissions_mode_def selected_list_def
      split: transmissions_mode.split)

section \<open>The wifi plugin\<close>

lemma sel_wifi [simp]:
  "sel (add_link i k sc) j = sel sc j" "sel (modify_link k f sc) j = sel sc j" "sel (update_points sc k) j = sel sc j"
  "sel (destroy k sc) j = sel sc j" "sel (fst (WifiLink i sc)) j = sel sc j"
  by (simp_all add: add_link_def) (simp_all add: sel_def update_points_refresh destroy_def WifiLink_def)

lemma sel_set_ap: "set_ap k ap sc = Inr sc' \<Longrightarrow> sel sc' j = sel sc j"
  by (auto simp: set_ap_def Let_def rmap_eq_Inr_iff remove_link_def split: if_splits option.splits endpoint.splits)

lemma sel_monitor_update: "sel (fst (monitor_update bssid (sc, m))) j = sel sc j"
proof -
  have "sel (fst (update_stations m bssid sts sc)) j = sel sc j" for sts
    by (induction m bssid sts sc rule: update_stations.induct)
       (auto simp: rbind_eq_Inr_iff sel_set_ap split: sum.split)
  then show ?thesis by (simp add: monitor_update_def)
qed

lemma sel_monitor_view: "sel (monitor_update_view (sc, m)) j = sel sc j"
  unfolding monitor_update_view_def
  by (rule foldl_invariant [where P = "\<lambda>s. sel s j = sel sc j"]) auto

lemma sel_scan_nodes: "sel (fst (scan_nodes devs (sc, m))) j = sel sc j"
proof -
  let ?d = "foldl (\<lambda>sc (d, i, k). destroy k sc) sc (wm_stations m)"
  have d: "sel ?d j = sel sc j"
    by (rule foldl_invariant [where P = "\<lambda>s. sel s j = sel sc j"]) auto
  have step: "sel (fst (scan_wifi_device i st x)) j = sel (fst st) j" for i st x
    by (simp add: scan_wifi_device_def Let_def split: wifi_mac.split)
  have "sel (fst (foldl (scan_wifi_device i) st xs)) j = sel (fst st) j" for i st xs
    by (induction xs arbitrary: st) (simp_all add: step)
  then have "sel (fst (foldl (\<lambda>st i. foldl (scan_wifi_device i) st (devs i)) st is)) j = sel (fst st) j" for st "is"
    by (induction "is" arbitrary: st) simp_all
  then show ?thesis by (simp add: scan_nodes_def Let_def d)
qed

section \<open>Reachable views\<close>

text \<open>
  The whole state: the simulated network, the view, and what the wifi plugin keeps. The simulator moves
  nodes, and may create some, between any two handlers.
\<close>

record world =
  w_net :: network
  w_viz :: viz
  w_wifi :: wifi_monitor

definition World :: "network \<Rightarrow> viz \<Rightarrow> world" where
  "World ns v = \<lparr>w_net = ns, w_viz = v, w_wifi = WifiLinkMonitor\<rparr>"

text \<open>\<open>SetPosition\<close> of the node's mobility model.\<close>

definition set_mobility :: "nat \<Rightarrow> point \<Rightarrow> network \<Rightarrow> network" where
  "set_mobility i p ns = ns\<lparr>ns_nodes := (ns_nodes ns)[i := (ns_nodes ns ! i)\<lparr>sn_mobility := Some p\<rparr>]\<rparr>"

text \<open>The view a handler leaves behind that raises before it changes anything.\<close>

definition left_by :: "viz \<Rightarrow> viz pyres \<Rightarrow> viz" where
  "left_by v r = (case r of Inl e \<Rightarrow> v | Inr v' \<Rightarrow> v')"

text \<open>A handler of \<open>Visualizer\<close> or of a node: \<open>p\<close> is the pointer; \<open>ipy\<close> is true from when IPython runs.\<close>

inductive handler :: "canvas_lib \<Rightarrow> math_lib \<Rightarrow> network \<Rightarrow> viz \<Rightarrow> viz \<Rightarrow> bool" for L M ns v where
  Select: "\<forall>j. r = NodeOf j \<longrightarrow> dict_has (sc_nodes (vz_scene v)) j \<Longrightarrow> handler L M ns v (fst (select_node ipy r v))"
| Mode: "handler L M ns v (toggled (length (ns_nodes ns)) m active v)"
| Periodic: "handler L M ns v (do_simulation_periodic_update t d v)"
| View: "handler L M ns v (fst (update_view L M ns v))"
| ViewWindow: "handler L M ns v (foldl (\<lambda>v w. call (WindowUpdate w) v) (follow_positions L ns v) (take k (vz_windows v)))"
| Fit: "handler L M ns v (autoscale_view L ns v)"
| Enter: "handler L M ns v (v\<lparr>vz_scene := on_enter_notify_event i (vz_scene v)\<rparr>)"
| Leave: "handler L M ns v (v\<lparr>vz_scene := on_leave_notify_event i (vz_scene v)\<rparr>)"
| Press: "dict_has (sc_nodes (vz_scene v)) i \<Longrightarrow> handler L M ns v (fst (on_node_button_press_event ipy L ns p b i v))"
| Release: "handler L M ns v (fst (on_node_button_release_event b v))"
| RootPress: "handler L M ns v (fst (on_root_button_press_event ipy b v))"
| CanvasPress: "handler L M ns v (fst (canvas_button_press b p v))"
| CanvasRelease: "handler L M ns v (fst (canvas_button_release b v))"
| Pan: "handler L M ns v (left_by v (panning_motion L p v))"
| Wheel: "handler L M ns v (fst (canvas_scroll_event L dir v))"
| Zoom: "handler L M ns v (set_zoom L z v)"
| Center: "handler L M ns v (left_by v (center_on_node L r v))"
| Follow: "handler L M ns v (left_by v (set_follow_node r v))"
| NodeSize: "handler L M ns v (node_size_changed s v)"
| Speed: "handler L M ns v (speed_changed s v)"
| AddWindow: "handler L M ns v (add_information_window w v)"
| RemoveWindow: "handler L M ns v (left_by v (remove_information_window w v))"
| Shell: "handler L M ns v (fst (start_shell ipy v))"
| CloseShell: "handler L M ns v (on_shell_window_destroy v)"
| Label: "handler L M ns v (v\<lparr>vz_scene := set_label i txt (vz_scene v)\<rparr>)"
| Color: "handler L M ns v (v\<lparr>vz_scene := set_color i c (vz_scene v)\<rparr>)"

text \<open>
  The steps of the whole: a handler, the simulator, a drag that moves the node and its mobility model,
  and the three handlers of the wifi plugin, which may leave an exception too.
\<close>

inductive view_step :: "canvas_lib \<Rightarrow> math_lib \<Rightarrow> world \<Rightarrow> world \<Rightarrow> bool" for L M where
  Handle: "handler L M (w_net w) (w_viz w) v \<Longrightarrow> view_step L M w (w\<lparr>w_viz := v\<rparr>)"
| Simulate: "length (ns_nodes (w_net w)) \<le> length (ns_nodes ns) \<Longrightarrow> view_step L M w (w\<lparr>w_net := ns\<rparr>)"
| Drag: "node_drag_motion L (w_net w) p i (w_viz w) = (v, moved) \<Longrightarrow>
    view_step L M w (w\<lparr>w_viz := v,
      w_net := (case moved of None \<Rightarrow> w_net w | Some q \<Rightarrow> set_mobility i q (w_net w))\<rparr>)"
| WifiScan: "scan_nodes devs (vz_scene (w_viz w), w_wifi w) = (sc, m) \<Longrightarrow>
    view_step L M w (w\<lparr>w_viz := (w_viz w)\<lparr>vz_scene := sc\<rparr>, w_wifi := m\<rparr>)"
| WifiPeriodic: "view_step L M w
    (w\<lparr>w_viz := (w_viz w)\<lparr>vz_scene := fst (monitor_update bssid (vz_scene (w_viz w), w_wifi w))\<rparr>\<rparr>)"
| WifiView: "view_step L M w
    (w\<lparr>w_viz := (w_viz w)\<lparr>vz_scene := monitor_update_view (vz_scene (w_viz w), w_wifi w)\<rparr>\<rparr>)"

definition world_ok :: "nat \<Rightarrow> world \<Rightarrow> bool" where
  "world_ok n0 w \<longleftrightarrow> view_ok n0 (length (ns_nodes (w_net w))) (w_viz w) \<and> monitor_ok (vz_scene (w_viz w)) (w_wifi w)"

lemma left_by_quiet: "(\<And>v'. r = Inr v' \<Longrightarrow> quiet v v') \<Longrightarrow> quiet v (left_by v r)"
  by (cases r) (auto simp: left_by_def)

lemma press_ok:
  assumes ok: "view_ok n0 n v" and i: "sel (vz_scene v) i \<noteq> None"
  shows "view_ok n0 n (fst (on_node_button_press_event ipy L ns p b i v)) \<and>
    rewired (vz_scene v) (vz_scene (fst (on_node_button_press_event ipy L ns p b i v)))"
proof (cases "b = 1")
  case True
  have "view_ok n0 n (fst (select_node ipy (NodeOf i) v))" "rewired (vz_scene v) (vz_scene (fst (select_node ipy (NodeOf i) v)))"
    using select_node_ok [OF ok, of "NodeOf i" ipy] i by (auto intro: select_node_rewired)
  with True show ?thesis by (simp add: on_node_button_press_event_def returning_def)
next
  case False
  then have "quiet v (fst (on_node_button_press_event ipy L ns p b i v))" by (auto simp: on_node_button_press_event_def)
  then show ?thesis using ok by (simp add: quiet_ok quiet_rewired)
qed

lemma root_press_ok:
  assumes "view_ok n0 n v"
  shows "view_ok n0 n (fst (on_root_button_press_event ipy b v)) \<and>
    rewired (vz_scene v) (vz_scene (fst (on_root_button_press_event ipy b v)))"
  using select_node_ok [OF assms, of NoNode] select_node_rewired [of v ipy NoNode] assms
  by (auto simp: on_root_button_press_event_def returning_def)

lemma quiet_buttons [intro]:
  fixes v :: viz
  shows "quiet v (fst (on_node_button_release_event b v))" "quiet v (fst (canvas_button_press b p v))"
    "quiet v (fst (canvas_button_release b v))" "quiet v (fst (canvas_scroll_event L dir v))"
    "quiet v (v\<lparr>vz_scene := on_enter_notify_event i (vz_scene v)\<rparr>)" "quiet v (v\<lparr>vz_scene := on_leave_notify_event i (vz_scene v)\<rparr>)"
    "quiet v (v\<lparr>vz_scene := set_label i txt (vz_scene v)\<rparr>)" "quiet v (v\<lparr>vz_scene := set_color i c (vz_scene v)\<rparr>)"
  by (auto simp: on_node_button_release_event_def canvas_button_press_def canvas_button_release_def canvas_scroll_event_def
      split: scroll_direction.split)
     (auto simp: quiet_def on_enter_notify_event_def on_leave_notify_event_def)

lemma handler_ok:
  assumes "handler L M ns v v'" and ok: "view_ok n0 (length (ns_nodes ns)) v" and n0: "n0 \<le> length (ns_nodes ns)"
  shows "view_ok n0 (length (ns_nodes ns)) v' \<and> rewired (vz_scene v) (vz_scene v')"
proof -
  have by_quiet: ?thesis if "quiet v v'" using that ok by (simp add: quiet_ok quiet_rewired)
  from assms(1) show ?thesis
  proof cases
    case (Select r ipy)
    then show ?thesis using select_node_ok [OF ok, of r] select_node_rewired by (auto simp: dict_has_iff sel_def)
  next
    case (Mode m active)
    then show ?thesis using ok n0 by (simp add: toggled_def set_mode_ok, simp add: set_show_transmissions_mode_def)
  next
    case (Press i ipy p b)
    then show ?thesis using press_ok [OF ok, of i] by (auto simp: dict_has_iff sel_def)
  next
    case (RootPress ipy b)
    then show ?thesis using root_press_ok [OF ok] by simp
  next
    case (ViewWindow k)
    then show ?thesis by (intro by_quiet) (auto intro: quiet_trans [OF quiet_follow quiet_foldl])
  qed (rule by_quiet, blast intro: left_by_quiet quiet_results quiet_shell quiet_update_view quiet_autoscale quiet_node_size)+
qed

lemma wifi_world_ok:
  assumes "world_ok n0 w" and "scene_ok sc" and "monitor_ok sc m" and "\<And>j. sel sc j = sel (vz_scene (w_viz w)) j"
  shows "world_ok n0 (w\<lparr>w_viz := (w_viz w)\<lparr>vz_scene := sc\<rparr>, w_wifi := m\<rparr>)"
proof -
  have "view_ok n0 (length (ns_nodes (w_net w))) ((w_viz w)\<lparr>vz_scene := sc\<rparr>)"
    using assms(1,2) unfolding world_ok_def view_ok_def selection_ok_def interest_ok_def
    by (simp add: assms(4) selected_list_def cong: transmissions_mode.case_cong)
  with assms(3) show ?thesis by (simp add: world_ok_def)
qed

lemma view_step_ok:
  assumes "view_step L M w w'" and ok: "world_ok n0 w \<and> n0 \<le> length (ns_nodes (w_net w))"
  shows "world_ok n0 w' \<and> n0 \<le> length (ns_nodes (w_net w'))"
proof -
  from ok have v: "view_ok n0 (length (ns_nodes (w_net w))) (w_viz w)" and m: "monitor_ok (vz_scene (w_viz w)) (w_wifi w)"
    and n0: "n0 \<le> length (ns_nodes (w_net w))" and sc: "scene_ok (vz_scene (w_viz w))"
    by (simp_all add: world_ok_def view_ok_def)
  from assms(1) show ?thesis
  proof cases
    case (Handle v')
    from handler_ok [OF Handle(2) v n0] have "rewired (vz_scene (w_viz w)) (vz_scene v')" ..
    then have "monitor_ok (vz_scene v') (w_wifi w)" using m by (rule rewired_monitor)
    with handler_ok [OF Handle(2) v n0] n0 Handle(1) show ?thesis by (simp add: world_ok_def)
  next
    case (Simulate ns)
    with v m n0 show ?thesis by (simp add: world_ok_def view_ok_more)
  next
    case (Drag p i v' moved)
    have "quiet (w_viz w) v'" using quiet_node_drag [of "w_viz w" L "w_net w" p i] Drag(2) by simp
    then have "view_ok n0 (length (ns_nodes (w_net w))) v'" "rewired (vz_scene (w_viz w)) (vz_scene v')"
      using v by (simp_all add: quiet_ok quiet_rewired)
    moreover from this(2) m have "monitor_ok (vz_scene v') (w_wifi w)" by (rule rewired_monitor)
    ultimately show ?thesis using Drag n0
      by (simp add: world_ok_def set_mobility_def split: option.split)
  next
    case (WifiScan devs sc' m')
    from scan_nodes_ok [OF sc m, of devs] WifiScan(2) have "scene_ok sc'" "monitor_ok sc' m'" by simp_all
    moreover have "sel sc' j = sel (vz_scene (w_viz w)) j" for j using sel_scan_nodes [of devs _ _ j] WifiScan(2) by (metis fst_conv)
    ultimately have "world_ok n0 w'" using ok WifiScan(1) by (simp add: wifi_world_ok)
    then show ?thesis using WifiScan(1) n0 by simp
  next
    case (WifiPeriodic bssid)
    let ?sc = "fst (monitor_update bssid (vz_scene (w_viz w), w_wifi w))"
    have "scene_ok ?sc" "monitor_ok ?sc (w_wifi w)" using monitor_update_ok [OF sc m, of bssid] by simp_all
    then have "world_ok n0 (w\<lparr>w_viz := (w_viz w)\<lparr>vz_scene := ?sc\<rparr>, w_wifi := w_wifi w\<rparr>)"
      using ok by (intro wifi_world_ok) (simp_all add: sel_monitor_update)
    then show ?thesis using WifiPeriodic n0 by simp
  next
    case WifiView
    let ?sc = "monitor_update_view (vz_scene (w_viz w), w_wifi w)"
    have "scene_ok ?sc" "monitor_ok ?sc (w_wifi w)" using monitor_update_view_ok [OF sc m] by simp_all
    then have "world_ok n0 (w\<lparr>w_viz := (w_viz w)\<lparr>vz_scene := ?sc\<rparr>, w_wifi := w_wifi w\<rparr>)"
      using ok by (intro wifi_world_ok) (simp_all add: sel_monitor_view)
    then show ?thesis using WifiView n0 by simp
  qed
qed

section \<open>The first view\<close>

definition unselected :: "scene \<Rightarrow> bool" where
  "unselected sc \<longleftrightarrow> (\<forall>j. sel sc j \<noteq> Some True)"

lemma unselected_ops [intro]:
  assumes "unselected sc"
  shows "unselected (get_node i sc)" "unselected (get_channel c sc)" "unselected (create_link i e sc)"
    "unselected (snd (has_mobility ns i sc))" "unselected (node_set_position i p sc)" "unselected (channel_set_position c p sc)"
    "unselected (set_color i k sc)"
  using assms by (auto simp: unselected_def sel_get_node split: option.split)

lemma unselected_neighbour: "unselected (fst st) \<Longrightarrow> unselected (fst (scan_neighbour ns i st j))"
  by (auto simp: scan_neighbour_def Let_def case_prod_unfold)

lemma unselected_device: "scan_device ns i st d = Inr st' \<Longrightarrow> unselected (fst st) \<Longrightarrow> unselected (fst st')"
  by (auto simp: scan_device_def case_prod_unfold intro!: unselected_ops
      foldl_invariant [where P = "\<lambda>st. unselected (fst st)"] unselected_neighbour split: if_splits option.splits)

lemma unselected_scan_node: "scan_node ns st i = Inr st' \<Longrightarrow> unselected (fst st) \<Longrightarrow> unselected (fst st')"
  unfolding scan_node_def Let_def case_prod_unfold
  by (erule rfold_invariant [where P = "\<lambda>st. unselected (fst st)"])
     (auto intro!: unselected_ops intro: unselected_device split: option.split)

lemma unselected_place: "place_named sc np = Inr sc' \<Longrightarrow> unselected sc \<Longrightarrow> unselected sc'"
  by (auto simp: place_named_def split: list.splits if_splits)

lemma unselected_scan: "scan_topology ns layout empty_scene = Inr sc \<Longrightarrow> unselected sc"
proof -
  assume "scan_topology ns layout empty_scene = Inr sc"
  then obtain st where st: "rfold (scan_node ns) (empty_scene, []) [0..<length (ns_nodes ns)] = Inr st"
    and sc: "rfold place_named (fst st) (layout (snd st)) = Inr sc"
    by (auto simp: scan_topology_def rbind_eq_Inr_iff)
  have "unselected (fst st)"
    by (rule rfold_invariant [OF st, where P = "\<lambda>st. unselected (fst st)"])
       (simp add: unselected_def sel_def empty_scene_def, rule unselected_scan_node)
  then show "unselected sc"
    by (rule rfold_invariant [OF sc]) (auto intro: unselected_place)
qed

lemma scan_scene_ok: "scan_topology ns layout empty_scene = Inr sc \<Longrightarrow> scene_ok sc"
proof -
  assume "scan_topology ns layout empty_scene = Inr sc"
  then obtain sc1 g where "rfold (scan_node ns) (empty_scene, []) [0..<length (ns_nodes ns)] = Inr (sc1, g)"
    and "rfold place_named sc1 (layout g) = Inr sc"
    by (auto simp: scan_topology_def rbind_eq_Inr_iff)
  with scan_nodes_effect empty_scene_ok place_all_effect show "scene_ok sc" by metis
qed

lemma start_ok:
  assumes "start run err mods dir files ps ns layout page hooks = Inr (Visualizing v fs hs)"
  shows "world_ok (length (ns_nodes ns)) (World ns v)"
proof -
  from assms obtain sc where sc: "scan_topology ns layout empty_scene = Inr sc"
    and v: "v = call (Emit ''topology-scanned'') ((Visualizer (length (ns_nodes ns)) page)\<lparr>vz_scene := sc\<rparr>)"
    by (auto simp: start_def rbind_eq_Inr_iff rmap_eq_Inr_iff Let_def Visualizer_def split: if_splits)
  have "monitor_ok sc' WifiLinkMonitor" for sc'
    by (simp add: monitor_ok_def WifiLinkMonitor_def wireless_links_def station_links_def known_nodes_def)
  with scan_scene_ok [OF sc] unselected_scan [OF sc] show ?thesis
    by (auto simp: v world_ok_def World_def view_ok_def selection_ok_def unselected_def interest_ok_def call_def Visualizer_def)
qed

interpretation handlers: transition_invariant "view_step L M" "\<lambda>w. world_ok n0 w \<and> n0 \<le> length (ns_nodes (w_net w))"
  for L M n0
  by unfold_locales (rule view_step_ok)

text \<open>
  C7: whatever runs after the start, in whatever order, and with an exception or without: the handlers of
  the visualizer and of its nodes, those of the wifi plugin (the other plugins do not touch the scene),
  node drags, and between them the simulator, which moves nodes and may create some. Every link stays
  listed at its ends and drawn between their positions, exactly the selected node looks selected and is a
  node of the scene, and the simulator reports on no node, on the selected one, or on all that there were
  when this mode was set, as the mode says. The links of the wifi plugin stay wireless links of the scene.
\<close>

theorem view_consistent:
  assumes "start run err mods dir files ps ns layout page hooks = Inr (Visualizing v0 fs hs)"
    and "(view_step L M)\<^sup>*\<^sup>* (World ns v0) w"
  shows "view_ok (length (ns_nodes ns)) (length (ns_nodes (w_net w))) (w_viz w) \<and> monitor_ok (vz_scene (w_viz w)) (w_wifi w)"
  using handlers.reached [OF assms(2), of "length (ns_nodes ns)"] start_ok [OF assms(1)] by (simp add: world_ok_def World_def)

definition no_plugins :: "string plugin_state" where
  "no_plugins = \<lparr>ps_plugins = [], ps_modules = [], ps_loaded = False, ps_sys_path = []\<rparr>"

definition sample_start :: "started pyres" where
  "sample_start = start False None (\<lambda>_. NotImportable) ''plugins'' [] no_plugins sample_net sample_layout (600, 450) []"

text \<open>The simulator moves a node, the view follows, and under IPython without a shell a selection raises.\<close>

definition moved_net :: network where
  "moved_net = set_mobility 1 (30, 40) sample_net"

theorem view_consistent_witness:
  "\<exists>v0 fs hs v e. sample_start = Inr (Visualizing v0 fs hs) \<and>
     select_node True (NodeNumber 1) (fst (update_view plain_canvas plain_math moved_net v0)) = (v, Some e) \<and>
     vz_selected v = Some 1 \<and> get_end_position (vz_scene v) (ToNode 1) = (90, 120) \<and> view_ok 2 2 v"
proof -
  let ?view = "\<lambda>v0. fst (update_view plain_canvas plain_math moved_net v0)"
  have "(case sample_start of Inr (Visualizing v0 _ _) \<Rightarrow>
      (case select_node True (NodeNumber 1) (?view v0) of
         (v, Some e) \<Rightarrow> vz_selected v = Some 1 \<and> get_end_position (vz_scene v) (ToNode 1) = (90, 120) | _ \<Rightarrow> False) | _ \<Rightarrow> False)"
    by code_simp
  then obtain v0 fs hs v e where s: "sample_start = Inr (Visualizing v0 fs hs)"
    "select_node True (NodeNumber 1) (?view v0) = (v, Some e)" "vz_selected v = Some 1"
    "get_end_position (vz_scene v) (ToNode 1) = (90, 120)"
    by (auto split: sum.splits started.splits prod.splits option.splits)
  let ?w = "\<lambda>ns v. \<lparr>w_net = ns, w_viz = v, w_wifi = WifiLinkMonitor\<rparr>"
  note step = rtranclp.rtrancl_into_rtrancl
  have two: "length (ns_nodes sample_net) = 2" "length (ns_nodes moved_net) = 2"
    by (simp_all add: moved_net_def set_mobility_def sample_net_def)
  have "view_step plain_canvas plain_math (?w sample_net v0) (?w moved_net v0)"
    using Simulate [of "?w sample_net v0" moved_net] two by simp
  moreover have "view_step plain_canvas plain_math (?w moved_net v0) (?w moved_net (?view v0))"
    using Handle [OF View, of plain_canvas plain_math "?w moved_net v0"] by simp
  moreover have "view_step plain_canvas plain_math (?w moved_net (?view v0)) (?w moved_net v)"
    using Handle [OF Select, of "NodeNumber 1" "?w moved_net (?view v0)" plain_canvas plain_math True] s(2) by simp
  ultimately have "(view_step plain_canvas plain_math)\<^sup>*\<^sup>* (World sample_net v0) (?w moved_net v)"
    unfolding World_def by (meson converse_rtranclp_into_rtranclp rtranclp.rtrancl_refl)
  with view_consistent [OF s(1) [unfolded sample_start_def]] two have "view_ok 2 2 v" by fastforce
  with s show ?thesis by blast
qed

section \<open>Gestures\<close>

text \<open>
  What is documented of the canvas, for its bounds \<open>lo\<close> to \<open>hi\<close> and the size of the visible page: the
  zoom adjustment keeps an assigned value between its limits 0.01 and 10; where the whole canvas is no
  smaller than the page, pixels count from the corner \<open>lo\<close> and are scaled by the zoom (a smaller canvas is
  centred in the page); and \<open>scroll_to\<close> puts its point into the upper left corner when the page from there
  lies within the bounds.
\<close>

definition page_fits :: "point \<Rightarrow> point \<Rightarrow> point \<Rightarrow> rat \<Rightarrow> bool" where
  "page_fits lo hi page z \<longleftrightarrow> fst page \<le> (fst hi - fst lo) * z \<and> snd page \<le> (snd hi - snd lo) * z"

definition page_within :: "point \<Rightarrow> point \<Rightarrow> point \<Rightarrow> rat \<Rightarrow> point \<Rightarrow> bool" where
  "page_within lo hi page z p \<longleftrightarrow>
     fst lo \<le> fst p \<and> fst p + fst page / z \<le> fst hi \<and> snd lo \<le> snd p \<and> snd p + snd page / z \<le> snd hi"

definition canvas_laws :: "canvas_lib \<Rightarrow> point \<Rightarrow> point \<Rightarrow> point \<Rightarrow> bool" where
  "canvas_laws L lo hi page \<longleftrightarrow>
     (\<forall>z. keep_zoom L z = min 10 (max (1 / 100) z)) \<and>
     (\<forall>z>0. page_fits lo hi page z \<longrightarrow>
        (\<forall>p. to_px L z p = ((fst p - fst lo) * z, (snd p - snd lo) * z) \<and>
             from_px L z p = (fst p / z + fst lo, snd p / z + snd lo) \<and>
             (page_within lo hi page z p \<longrightarrow> from_px L z (scroll_to L z p) = p)))"

lemma canvas_law:
  assumes "canvas_laws L lo hi page"
  shows "keep_zoom L z = min 10 (max (1 / 100) z)"
    "z > 0 \<Longrightarrow> page_fits lo hi page z \<Longrightarrow> to_px L z p = ((fst p - fst lo) * z, (snd p - snd lo) * z)"
    "z > 0 \<Longrightarrow> page_fits lo hi page z \<Longrightarrow> from_px L z p = (fst p / z + fst lo, snd p / z + snd lo)"
    "z > 0 \<Longrightarrow> page_fits lo hi page z \<Longrightarrow> page_within lo hi page z p \<Longrightarrow> from_px L z (scroll_to L z p) = p"
  using assms by (cases p, simp_all add: canvas_laws_def)+

text \<open>A page within the bounds fits.\<close>

lemma page_within_fits: "z > 0 \<Longrightarrow> page_within lo hi page z p \<Longrightarrow> page_fits lo hi page z"
  by (simp add: page_within_def page_fits_def pos_divide_le_eq [symmetric])

text \<open>
  Dragging a node moves it on the canvas by as much as the pointer has moved since the drag
  began, from where the mobility model had it then, and assigns the same position to the model.
\<close>

theorem drag_follows_pointer:
  assumes "canvas_laws L lo hi page" and "vz_zoom v > 0" and "page_fits lo hi page (vz_zoom v)" and "vz_drag v = None"
    and "mobility_of ns i = Some pos" and "sel (vz_scene v) i \<noteq> None"
  shows "(let v' = fst (node_drag_motion L ns p i (begin_node_drag L ns p0 i v));
              model = snd (node_drag_motion L ns p i (begin_node_drag L ns p0 i v));
              start = transform_point_simulation_to_canvas (fst pos) (snd pos)
          in get_end_position (vz_scene v') (ToNode i) =
               (fst start + (fst p - fst p0) / vz_zoom v, snd start + (snd p - snd p0) / vz_zoom v) \<and>
             (\<exists>x y. model = Some (x, y) \<and> get_end_position (vz_scene v') (ToNode i) = transform_point_simulation_to_canvas x y))"
proof -
  have place: "get_end_position (node_set_position i q (vz_scene v)) (ToNode i) = q" for q
    using assms(6)
    by (auto simp: node_set_position_def get_end_position_def update_links_def fold_update_points modify_node_lookup sel_def)
  note law = canvas_law(3) [OF assms(1-3)]
  show ?thesis using assms(4,5)
    by (cases pos) (simp add: begin_node_drag_def node_drag_motion_def Let_def place law transform_point_simulation_to_canvas_def
        transform_distance_canvas_to_simulation_def PIXELS_PER_METER_def ring_distribs diff_divide_distrib add_divide_distrib)
qed

lemma visible_corners_law:
  "canvas_laws L lo hi page \<Longrightarrow> vz_zoom v > 0 \<Longrightarrow> page_fits lo hi page (vz_zoom v) \<Longrightarrow>
   visible_corners L v = (from_px L (vz_zoom v) (vz_scroll v),
     (fst (from_px L (vz_zoom v) (vz_scroll v)) + fst (vz_page v) / vz_zoom v,
      snd (from_px L (vz_zoom v) (vz_scroll v)) + snd (vz_page v) / vz_zoom v))"
  by (simp add: visible_corners_def canvas_law(3) add_divide_distrib)

lemma set_zoom_keeps [simp]:
  "vz_zoom (set_zoom L z v) = keep_zoom L z" "vz_page (set_zoom L z v) = vz_page v" "vz_scene (set_zoom L z v) = vz_scene v"
  by (simp_all add: set_zoom_def Let_def)

lemma center_at_keeps [simp]: "vz_zoom (center_at L p v) = vz_zoom v" "vz_page (center_at L p v) = vz_page v"
  by (simp_all add: center_at_def set_scroll_def Let_def)

lemma follow_positions_keeps [simp]:
  "vz_zoom (follow_positions L ns v) = vz_zoom v" "vz_page (follow_positions L ns v) = vz_page v"
proof -
  have "vz_zoom (foldl (follow_position L ns) v js) = vz_zoom v \<and> vz_page (foldl (follow_position L ns) v js) = vz_page v" for js
    by (induction js arbitrary: v) (simp_all add: follow_position_def Let_def)
  then show "vz_zoom (follow_positions L ns v) = vz_zoom v" "vz_page (follow_positions L ns v) = vz_page v"
    by (simp_all add: follow_positions_def)
qed

text \<open>A window of the given width around the middle of some numbers holds them all when it is as wide as they are apart.\<close>

lemma centred_window:
  fixes xs :: "rat set"
  assumes "finite xs" and "x \<in> xs" and "Max xs - Min xs \<le> w"
  shows "(Min xs + Max xs) / 2 - w / 2 \<le> x" "x \<le> (Min xs + Max xs) / 2 - w / 2 + w"
proof -
  have "Min xs \<le> x" "x \<le> Max xs" using assms by auto
  with assms(3) show "(Min xs + Max xs) / 2 - w / 2 \<le> x" "x \<le> (Min xs + Max xs) / 2 - w / 2 + w" by (simp_all add: field_simps)
qed

lemma fits_page:
  fixes d :: rat
  assumes "0 < z" and "z \<le> a / (3 / 2 * d)" and "0 < d"
  shows "d \<le> a / z"
proof -
  have "3 / 2 * (d * z) \<le> a" using assms by (simp add: pos_le_divide_eq mult_ac)
  moreover have "0 < d * z" using assms by simp
  ultimately have "d * z \<le> a" by linarith
  then show ?thesis using assms(1) by (simp add: pos_le_divide_eq)
qed

lemma spread_pos:
  fixes xs :: "rat set"
  assumes "finite xs" and "x \<in> xs" and "y \<in> xs" and "x \<noteq> y"
  shows "Max xs - Min xs > 0"
proof -
  have "Min xs \<le> x" "Min xs \<le> y" "x \<le> Max xs" "y \<le> Max xs" using assms by auto
  with assms(4) show ?thesis by linarith
qed

lemma fit_box_shows:
  fixes z :: rat
  assumes L: "canvas_laws L lo hi (vz_page v)" and z1: "vz_zoom v = 1" and page: "fst (vz_page v) > 0" "snd (vz_page v) > 0"
    and fits: "page_fits lo hi (vz_page v) 1" and d: "x1 - x0 > 0" "y1 - y0 > 0"
    and z: "z = min (fst (vz_page v) / (3 / 2 * (x1 - x0))) (snd (vz_page v) / (3 / 2 * (y1 - y0)))" "1 / 100 \<le> z"
    and corner: "corner = ((x0 + x1) / 2 - fst (vz_page v) / min 10 z / 2, (y0 + y1) / 2 - snd (vz_page v) / min 10 z / 2)"
    and within: "page_within lo hi (vz_page v) (min 10 z) corner"
  shows "visible_corners L (fit_box L x0 y0 x1 y1 v) =
      (corner, fst corner + fst (vz_page v) / min 10 z, snd corner + snd (vz_page v) / min 10 z) \<and>
    x1 - x0 \<le> fst (vz_page v) / min 10 z \<and> y1 - y0 \<le> snd (vz_page v) / min 10 z"
proof -
  define k where "k = min 10 z"
  define u where "u = set_zoom L z v"
  have k: "0 < k" "k \<le> z" using z(2) by (simp_all add: k_def)
  have kz: "keep_zoom L z = k" using z(2) by (simp add: canvas_law(1) [OF L] k_def)
  have u: "vz_zoom u = k" "vz_page u = vz_page v" by (simp_all add: u_def kz)
  note kfits = page_within_fits [OF k(1) within [folded k_def]]
  have fit: "fit_box L x0 y0 x1 y1 v = u\<lparr>vz_scroll := scroll_to L k corner\<rparr>"
  proof -
    have px: "fst (to_px L (vz_zoom v) (x1, y1)) - fst (to_px L (vz_zoom v) (x0, y0)) = x1 - x0"
      "snd (to_px L (vz_zoom v) (x1, y1)) - snd (to_px L (vz_zoom v) (x0, y0)) = y1 - y0"
      by (simp_all add: z1 canvas_law(2) [OF L _ fits])
    have c: "fst (snd (visible_corners L u)) - fst (fst (visible_corners L u)) = fst (vz_page v) / k"
      "snd (snd (visible_corners L u)) - snd (fst (visible_corners L u)) = snd (vz_page v) / k"
      using k kfits by (simp_all add: visible_corners_law [OF L] u)
    show ?thesis
      using d by (simp only: fit_box_def Let_def px flip: z(1)) (simp add: c u corner k_def [symmetric] flip: u_def)
  qed
  have "x1 - x0 \<le> fst (vz_page v) / k" "y1 - y0 \<le> snd (vz_page v) / k"
    using fits_page [OF k(1) _ d(1), of "fst (vz_page v)"] fits_page [OF k(1) _ d(2), of "snd (vz_page v)"] k(2) unfolding z(1)
    by simp_all
  then show ?thesis
    using k kfits within by (simp add: fit visible_corners_law [OF L] u canvas_law(4) [OF L] flip: k_def)
qed

text \<open>
  C34: fitting the view at zoom 1, where it starts, makes every node visible, provided that the nodes are
  not all in one row or column, that the zoom that shows one and a half times their distances is not
  below the least zoom 0.01, and that the page around the middle of the nodes at this zoom (or at the
  greatest, 10) lies within the bounds of the canvas.
\<close>

theorem autoscale_shows_nodes:
  fixes L ns v
  defines "ps \<equiv> set (positions (vz_scene (autoscale_view L ns v)))"
  defines "x0 \<equiv> Min (fst ` ps)" and "x1 \<equiv> Max (fst ` ps)" and "y0 \<equiv> Min (snd ` ps)" and "y1 \<equiv> Max (snd ` ps)"
  defines "z \<equiv> min (fst (vz_page v) / (3 / 2 * (x1 - x0))) (snd (vz_page v) / (3 / 2 * (y1 - y0)))"
  assumes "canvas_laws L lo hi (vz_page v)" and "vz_zoom v = 1" and "fst (vz_page v) > 0" and "snd (vz_page v) > 0"
    and "page_fits lo hi (vz_page v) 1"
    and "p \<in> ps" and "\<exists>a\<in>ps. \<exists>b\<in>ps. fst a \<noteq> fst b" and "\<exists>a\<in>ps. \<exists>b\<in>ps. snd a \<noteq> snd b"
    and "1 / 100 \<le> z"
    and "page_within lo hi (vz_page v) (min 10 z)
      ((x0 + x1) / 2 - fst (vz_page v) / min 10 z / 2, (y0 + y1) / 2 - snd (vz_page v) / min 10 z / 2)"
  shows "(let corners = visible_corners L (autoscale_view L ns v) in
     fst (fst corners) \<le> fst p \<and> fst p \<le> fst (snd corners) \<and> snd (fst corners) \<le> snd p \<and> snd p \<le> snd (snd corners))"
proof -
  define u where "u = follow_positions L ns v"
  have u: "vz_page u = vz_page v" "vz_zoom u = vz_zoom v" by (simp_all add: u_def)
  have "sc_nodes (vz_scene v) \<noteq> []"
    using \<open>p \<in> ps\<close> by (auto simp: ps_def autoscale_view_def positions_def split: if_splits)
  then obtain a0 a1 b0 b1 where fit: "autoscale_view L ns v = fit_box L a0 b0 a1 b1 u"
    and ab: "a0 = Min (fst ` set (positions (vz_scene u)))" "a1 = Max (fst ` set (positions (vz_scene u)))"
      "b0 = Min (snd ` set (positions (vz_scene u)))" "b1 = Max (snd ` set (positions (vz_scene u)))"
    by (simp add: autoscale_view_def Let_def u_def)
  have "vz_scene (autoscale_view L ns v) = vz_scene u" by (simp add: fit fit_box_def Let_def)
  then have box: "autoscale_view L ns v = fit_box L x0 y0 x1 y1 u"
    by (simp add: fit ab x0_def x1_def y0_def y1_def ps_def)
  have fin: "finite (fst ` ps)" "finite (snd ` ps)" by (simp_all add: ps_def)
  have p: "fst p \<in> fst ` ps" "snd p \<in> snd ` ps" using \<open>p \<in> ps\<close> by auto
  have d: "x1 - x0 > 0" "y1 - y0 > 0"
    using assms(13,14) spread_pos fin unfolding x0_def x1_def y0_def y1_def by blast+
  let ?c = "((x0 + x1) / 2 - fst (vz_page v) / min 10 z / 2, (y0 + y1) / 2 - snd (vz_page v) / min 10 z / 2)"
  have "visible_corners L (fit_box L x0 y0 x1 y1 u) = (?c, fst ?c + fst (vz_page v) / min 10 z, snd ?c + snd (vz_page v) / min 10 z) \<and>
    x1 - x0 \<le> fst (vz_page v) / min 10 z \<and> y1 - y0 \<le> snd (vz_page v) / min 10 z"
    by (rule fit_box_shows [of L lo hi u, unfolded u, OF assms(7-11) d z_def [THEN meta_eq_to_obj_eq] assms(15) refl assms(16)])
  then show ?thesis
    using centred_window [OF fin(1) p(1), of "fst (vz_page v) / min 10 z"]
      centred_window [OF fin(2) p(2), of "snd (vz_page v) / min 10 z"]
    by (simp add: box x0_def x1_def y0_def y1_def)
qed

text \<open>Three nodes around a corner.\<close>

definition corner_viz :: viz where
  "corner_viz = (Visualizer 0 (600, 450))\<lparr>vz_scene :=
     node_set_position 0 (0, 0) (get_node 0 (node_set_position 1 (30, 0) (get_node 1
       (node_set_position 2 (0, 60) (get_node 2 empty_scene)))))\<rparr>"

lemma keep_corner:
  fixes z :: rat
  assumes "z > 0" and "- 10000 \<le> x" and "x + page / z \<le> 10000"
  shows "max 0 (min (20000 * z - page) ((x + 10000) * z)) / z - 10000 = x"
proof -
  have "page / z \<le> 10000 - x" using assms(3) by simp
  then have "page \<le> (10000 - x) * z" using assms(1) by (simp add: pos_divide_le_eq)
  then have "(x + 10000) * z \<le> 20000 * z - page" by (simp add: algebra_simps)
  moreover have "0 \<le> (x + 10000) * z" using assms by simp
  ultimately show ?thesis using assms(1) by (simp add: min_absorb2 max_absorb2)
qed

lemma plain_canvas_laws: "canvas_laws plain_canvas (- 10000, - 10000) (10000, 10000) (600, 450)"
  using keep_corner by (auto simp: canvas_laws_def plain_canvas_def Let_def page_within_def)

theorem autoscale_shows_nodes_witness:
  "visible_corners plain_canvas (autoscale_view plain_canvas \<lparr>ns_nodes = [], ns_channel = (\<lambda>_. [])\<rparr> corner_viz) =
     ((- 45, - 15), (75, 75)) \<and> fst (fst ((- 45, - 15), (75, 75)) :: point) \<le> 30"
proof -
  let ?ns = "\<lparr>ns_nodes = [], ns_channel = (\<lambda>_. [])\<rparr>"
  let ?v = "autoscale_view plain_canvas ?ns corner_viz"
  have c: "visible_corners plain_canvas ?v = ((- 45, - 15), (75, 75))" by code_simp
  have ps: "set (positions (vz_scene ?v)) = {(0, 60), (30, 0), (0, 0)}" by code_simp
  have z: "vz_zoom corner_viz = 1" "vz_page corner_viz = (600, 450)" by code_simp+
  have L: "canvas_laws plain_canvas (- 10000, - 10000) (10000, 10000) (vz_page corner_viz)"
    using plain_canvas_laws by (simp add: z)
  from autoscale_shows_nodes [OF L z(1), of "(30, 0)" ?ns, unfolded ps z(2)] c
  show ?thesis by (simp add: page_fits_def page_within_def Let_def)
qed

theorem drag_follows_pointer_witness:
  "get_end_position (vz_scene (fst (node_drag_motion plain_canvas sample_net (7, 9) 1
      (begin_node_drag plain_canvas sample_net (5, 5) 1 corner_viz)))) (ToNode 1) = (32, 64)"
proof -
  have a: "vz_zoom corner_viz > 0" "page_fits (- 10000, - 10000) (10000, 10000) (600, 450) (vz_zoom corner_viz)"
    "vz_drag corner_viz = None" "mobility_of sample_net 1 = Some (10, 20)"
    "sel (vz_scene corner_viz) 1 \<noteq> None" "vz_zoom corner_viz = 1"
    "transform_point_simulation_to_canvas 10 20 = (30, 60)"
    by code_simp+
  show ?thesis
    using drag_follows_pointer [OF plain_canvas_laws a(1-5), of "(7, 9)" "(5, 5)"] by (simp add: Let_def a)
qed

text \<open>
  At another zoom the fit is off by that zoom, as the nodes' distances are measured in the pixels of
  the old zoom: here the view is made twice too large. And nodes that are further apart than the canvas
  is wide are not all shown: its bounds do not grow with the topology.
\<close>

lemma autoscale_measures_old_zoom:
  "visible_corners plain_canvas (autoscale_view plain_canvas \<lparr>ns_nodes = [], ns_channel = (\<lambda>_. [])\<rparr>
     (corner_viz\<lparr>vz_zoom := 1 / 2\<rparr>)) = ((- 15, 15 / 2), (45, 105 / 2))"
  by code_simp

lemma autoscale_outside_bounds:
  "fst (snd (visible_corners plain_canvas (autoscale_view plain_canvas \<lparr>ns_nodes = [], ns_channel = (\<lambda>_. [])\<rparr>
     (corner_viz\<lparr>vz_scene := node_set_position 1 (12000, 0) (vz_scene corner_viz)\<rparr>)))) < 12000"
  by code_simp

section \<open>The update timer\<close>

lemma timer_interval_bounds:
  assumes "1 / 100 \<le> s"
  shows "100 \<le> timer_interval s \<and> timer_interval s \<le> 10000"
proof -
  let ?m = "min s 1"
  have m: "1 / 100 \<le> ?m" "?m \<le> 1" using assms by auto
  have "100 \<le> SAMPLE_PERIOD / ?m * 1000" "SAMPLE_PERIOD / ?m * 1000 \<le> 10000"
    using m by (simp_all add: SAMPLE_PERIOD_def field_simps)
  then have "100 \<le> \<lfloor>SAMPLE_PERIOD / ?m * 1000\<rfloor>" "\<lfloor>SAMPLE_PERIOD / ?m * 1000\<rfloor> \<le> 10000"
    by (simp_all add: le_floor_iff floor_le_iff)
  then show ?thesis unfolding timer_interval_def by linarith
qed

end
