(* ===== verification/VisHud.thy ===== *)
theory VisHud
  imports VisView
begin

text \<open>
  \<open>visualizer/hud.py\<close>: the axes over the canvas, the division of an interval into ticks, and the
  labels, which are kept and reused. \<open>math.log10\<close> is a parameter.
\<close>

section \<open>Divisions\<close>

definition rint :: "rat \<Rightarrow> int" where
  "rint x = \<lfloor>x + 1 / 2\<rfloor>"

definition pow10 :: "int \<Rightarrow> rat" where
  "pow10 n = (if n \<ge> 0 then 10 ^ nat n else 1 / 10 ^ nat (- n))"

text \<open>
  The body of the loop: \<open>d\<close> is \<open>dx_over_ndiv\<close>, \<open>n\<close> the loop's counter; the number of divisions is
  carried along.
\<close>

definition divide_once :: "(rat \<Rightarrow> rat) \<Rightarrow> rat \<Rightarrow> rat \<Rightarrow> rat \<Rightarrow> nat \<Rightarrow> rat \<times> rat \<times> rat \<Rightarrow> rat \<times> rat \<times> rat" where
  "divide_once log10 xi xf d n st =
     (let dv = pow10 (rint (log10 d));
          dv = (if \<bar>dv / 2 - d\<bar> < \<bar>dv - d\<bar> then dv / 2
                 else if \<bar>dv * 2 - d\<bar> < \<bar>dv - d\<bar> then dv * 2 else dv);
          x0 = dv * of_int \<lceil>xi / dv\<rceil> - dv;
          text_width = (xf - xi) / 5 / 2;
          ndiv = (if n > 1 then of_int (rint ((xf - xi) / text_width)) else snd (snd st))
      in (x0, dv, ndiv))"

definition compute_divisions :: "(rat \<Rightarrow> rat) \<Rightarrow> rat \<Rightarrow> rat \<Rightarrow> (rat \<times> rat) pyres" where
  "compute_divisions log10 xi xf =
     (if \<not> xf > xi then Inl AssertionError
      else (case foldl (\<lambda>st n. divide_once log10 xi xf ((xf - xi) / 5) n st) (0, 0, 5) [0..<5] of
              (x0, dv, ndiv) \<Rightarrow> Inr (x0, dv)))"

text \<open>The loop \<open>while x < x_end: ...; x += div\<close>, which need not end; the ticks it visits.\<close>

partial_function (option) ticks :: "rat \<Rightarrow> rat \<Rightarrow> rat \<Rightarrow> rat list option" where
  "ticks x x_end step = (if x < x_end then Option.bind (ticks (x + step) x_end step) (\<lambda>l. Some (x # l)) else Some [])"

section \<open>Axes\<close>

record axis_label =
  al_shown :: bool
  al_number :: rat
  al_point :: point

record axes =
  ax_visible :: bool
  ax_hline :: "(point \<times> point) list"
  ax_vline :: "(point \<times> point) list"
  ax_labels :: "axis_label list"

definition hide_label :: "axis_label \<Rightarrow> axis_label" where "hide_label l = l\<lparr>al_shown := False\<rparr>"

definition set_visible :: "bool \<Rightarrow> axes \<Rightarrow> axes" where
  "set_visible b ax = (if b then ax\<lparr>ax_visible := True\<rparr> else ax\<lparr>ax_visible := False, ax_labels := map hide_label (ax_labels ax)\<rparr>)"

text \<open>\<open>get_label\<close>: the first unused label, or a new one; it is then given its number and place.\<close>

definition get_label :: "axis_label list \<times> axis_label list \<Rightarrow> rat \<times> point \<Rightarrow> axis_label list \<times> axis_label list" where
  "get_label st np =
     (case fst st of
        [] \<Rightarrow> ([], snd st @ [\<lparr>al_shown = True, al_number = fst np, al_point = snd np\<rparr>])
      | l # unused \<Rightarrow> (unused, snd st @ [l\<lparr>al_shown := True, al_number := fst np, al_point := snd np\<rparr>]))"

definition h_ticks :: "rat \<Rightarrow> rat \<Rightarrow> rat list \<Rightarrow> (rat \<times> point) list" where
  "h_ticks yc offset xs = map (\<lambda>x. (x, (PIXELS_PER_METER * x, yc - offset))) xs"

definition v_ticks :: "rat \<Rightarrow> rat \<Rightarrow> rat list \<Rightarrow> (rat \<times> point) list" where
  "v_ticks xc offset ys = map (\<lambda>y. (y, (xc + offset, PIXELS_PER_METER * y))) ys"

text \<open>The lines and labels for the ticks of a view; \<open>zoom\<close> is the value of its zoom adjustment.\<close>

definition draw_axes :: "canvas_lib \<Rightarrow> rat \<Rightarrow> viz \<Rightarrow> rat list \<Rightarrow> rat list \<Rightarrow> axes \<Rightarrow> axes" where
  "draw_axes L zoom v xs ys ax =
     (let labels = map hide_label (ax_labels ax);
          offset = 10 / zoom;
          corners = visible_corners L v;
          x1 = fst (fst corners); y1 = snd (fst corners); x2 = fst (snd corners); y2 = snd (snd corners);
          line_width = 5 / zoom;
          yc = y2 - line_width / 2; xc = x1 + line_width / 2;
          st = foldl get_label (labels, []) (h_ticks yc offset xs @ v_ticks xc offset ys)
      in ax\<lparr>
           ax_hline := ((x1, yc), (x2, yc)) #
             map (\<lambda>x. ((PIXELS_PER_METER * x, yc - offset), (PIXELS_PER_METER * x, yc))) xs,
           ax_vline := ((xc, y1), (xc, y2)) #
             map (\<lambda>y. ((xc, PIXELS_PER_METER * y), (xc + offset, PIXELS_PER_METER * y))) ys,
           ax_labels := snd st @ fst st\<rparr>)"

text \<open>
  \<open>update_view\<close>: None when a loop does not end; the assertion of \<open>compute_divisions\<close> is the exception.
  \<open>zoom\<close> is None until \<open>create_gui\<close> has made the zoom adjustment, and nothing is drawn before.
\<close>

definition axes_update_view :: "(rat \<Rightarrow> rat) \<Rightarrow> canvas_lib \<Rightarrow> rat option \<Rightarrow> viz \<Rightarrow> axes \<Rightarrow> axes pyres option" where
  "axes_update_view log10 L zoom v ax =
     (case zoom of None \<Rightarrow> Some (Inr ax) | Some z \<Rightarrow>
      let corners = visible_corners L v;
          sim_x1 = fst (fst corners) / PIXELS_PER_METER; sim_x2 = fst (snd corners) / PIXELS_PER_METER;
          sim_y1 = snd (fst corners) / PIXELS_PER_METER; sim_y2 = snd (snd corners) / PIXELS_PER_METER
      in case compute_divisions log10 sim_x1 sim_x2 of
           Inl e \<Rightarrow> Some (Inl e)
         | Inr (x0, xdiv) \<Rightarrow>
             (case ticks x0 sim_x2 xdiv of
                None \<Rightarrow> None
              | Some xs \<Rightarrow>
                  (case compute_divisions log10 sim_y1 sim_y2 of
                     Inl e \<Rightarrow> Some (Inl e)
                   | Inr (y0, ydiv) \<Rightarrow> map_option (\<lambda>ys. Inr (draw_axes L z v xs ys ax)) (ticks y0 sim_y2 ydiv))))"

text \<open>The adjustments' signals, and \<open>__init__\<close>.\<close>

definition on_adjustment :: "(rat \<Rightarrow> rat) \<Rightarrow> canvas_lib \<Rightarrow> rat option \<Rightarrow> viz \<Rightarrow> axes \<Rightarrow> axes pyres option" where
  "on_adjustment log10 L zoom v ax = (if ax_visible ax then axes_update_view log10 L zoom v ax else Some (Inr ax))"

definition no_axes :: axes where
  "no_axes = \<lparr>ax_visible = True, ax_hline = [], ax_vline = [], ax_labels = []\<rparr>"

definition Axes :: "(rat \<Rightarrow> rat) \<Rightarrow> canvas_lib \<Rightarrow> rat option \<Rightarrow> viz \<Rightarrow> axes pyres option" where
  "Axes log10 L zoom v = axes_update_view log10 L zoom v no_axes"

text \<open>\<open>create_gui\<close> makes the axes before the zoom.\<close>

lemma Axes_first [simp]: "Axes log10 L None v = Some (Inr no_axes)"
  by (simp add: Axes_def axes_update_view_def)

section \<open>The ticks\<close>

text \<open>A positive step reaches the end: the ticks are the multiples of the step before it.\<close>

lemma ticks_end:
  assumes "step > 0"
  shows "ticks x x_end step = Some (map (\<lambda>i. x + of_nat i * step) [0..<nat \<lceil>(x_end - x) / step\<rceil>])"
proof (induction "nat \<lceil>(x_end - x) / step\<rceil>" arbitrary: x)
  case 0
  then have "\<not> x < x_end" using assms by (simp add: ceiling_le_iff divide_le_0_iff)
  with 0 show ?case by (simp add: ticks.simps [of x])
next
  case (Suc m)
  then have "\<lceil>(x_end - x) / step\<rceil> > 0" by linarith
  then have lt: "x < x_end" using assms by (simp add: zero_less_divide_iff)
  have m: "m = nat \<lceil>(x_end - (x + step)) / step\<rceil>"
  proof -
    have "(x_end - (x + step)) / step = (x_end - x) / step - 1" using assms by (simp add: field_simps)
    then show ?thesis using Suc(2) by simp
  qed
  have "map (\<lambda>i. x + of_nat i * step) [0..<Suc m] = x # map (\<lambda>i. x + step + of_nat i * step) [0..<m]"
  proof -
    have "[0..<Suc m] = 0 # map Suc [0..<m]" by (simp add: upt_conv_Cons map_Suc_upt del: upt_Suc)
    then show ?thesis by (simp add: algebra_simps del: upt_Suc)
  qed
  with lt Suc(1) [OF m] m [symmetric] show ?case unfolding Suc(2) [symmetric] by (simp add: ticks.simps [of x])
qed

text \<open>The five rounds all compute the same division.\<close>

lemma divide_once_same: "fst (divide_once log10 xi xf d n st) = fst (divide_once log10 xi xf d 0 st')"
  "fst (snd (divide_once log10 xi xf d n st)) = fst (snd (divide_once log10 xi xf d 0 st'))"
  by (simp_all add: divide_once_def Let_def)

text \<open>
  The loop that looks for the best division by iterating five times is no search: every round
  computes the division of the first, as the number of divisions it updates is not used again.
\<close>

theorem compute_divisions_once:
  "compute_divisions log10 xi xf =
     (if \<not> xf > xi then Inl AssertionError
      else (case divide_once log10 xi xf ((xf - xi) / 5) 0 (0, 0, 5) of (x0, dv, ndiv) \<Rightarrow> Inr (x0, dv)))"
proof -
  have five: "[0..<5] = [0, 1, 2, 3, 4::nat]" by (simp add: upt_rec)
  show ?thesis
    by (auto simp: compute_divisions_def five case_prod_unfold intro: divide_once_same)
qed

text \<open>
  What the code needs of the logarithm: rounded, it is the power of ten that is nearest in ratio; the
  bounds are squared as the limits between two powers are irrational.
\<close>

definition log10_law :: "(rat \<Rightarrow> rat) \<Rightarrow> bool" where
  "log10_law log10 \<longleftrightarrow>
     (\<forall>y>0. pow10 (rint (log10 y)) ^ 2 / 10 \<le> y ^ 2 \<and> y ^ 2 < pow10 (rint (log10 y)) ^ 2 * 10)"

lemma pow10_pos: "pow10 n > 0"
  by (simp add: pow10_def)

lemma square_less: "(a::rat) ^ 2 < b ^ 2 \<Longrightarrow> 0 \<le> b \<Longrightarrow> a < b"
  by (rule power_less_imp_less_base)

lemma nearest_step:
  fixes y p :: rat
  assumes "p > 0" and "y > 0" and "p ^ 2 / 10 \<le> y ^ 2" and "y ^ 2 < p ^ 2 * 10"
    and q: "q = (if \<bar>p / 2 - y\<bar> < \<bar>p - y\<bar> then p / 2 else if \<bar>p * 2 - y\<bar> < \<bar>p - y\<bar> then p * 2 else p)"
  shows "q > 0 \<and> 3 * q < 5 * y \<and> 5 * y < 8 * q"
proof -
  have "(3 / 10 * p) ^ 2 < y ^ 2"
  proof -
    have "(3 / 10 * p) ^ 2 < p ^ 2 / 10" using assms(1) by (simp add: power2_eq_square)
    with assms(3) show ?thesis by linarith
  qed
  then have lo: "3 / 10 * p < y" by (rule square_less) (use assms(2) in simp)
  have "y ^ 2 < (16 / 5 * p) ^ 2"
  proof -
    have "p ^ 2 * 10 < (16 / 5 * p) ^ 2" using assms(1) by (simp add: power2_eq_square)
    with assms(4) show ?thesis by linarith
  qed
  then have hi: "y < 16 / 5 * p" by (rule square_less) (use assms(1) in simp)
  show ?thesis using lo hi assms(1,2) unfolding q by (simp add: abs_if split: if_splits)
qed

text \<open>
  The division of an interval starts at a multiple of the step less than one step before it and the
  interval holds between three and eight steps, each one, two or five times a power of ten.
\<close>

definition round_step :: "rat \<Rightarrow> bool" where
  "round_step d \<longleftrightarrow> (\<exists>k. d \<in> {pow10 k, pow10 k * 2, pow10 k / 2})"

lemma compute_divisions_bounds:
  assumes "log10_law log10" and "xf > xi"
  shows "\<exists>c step. compute_divisions log10 xi xf = Inr (step * of_int c, step) \<and> step > 0 \<and> round_step step \<and>
    step * of_int c < xi \<and> xi \<le> step * of_int c + step \<and> 3 * step < xf - xi \<and> xf - xi < 8 * step"
proof -
  define y where "y = (xf - xi) / 5"
  define p where "p = pow10 (rint (log10 y))"
  define q where "q = (if \<bar>p / 2 - y\<bar> < \<bar>p - y\<bar> then p / 2 else if \<bar>p * 2 - y\<bar> < \<bar>p - y\<bar> then p * 2 else p)"
  define x0 where "x0 = q * of_int \<lceil>xi / q\<rceil> - q"
  have y: "y > 0" "xf - xi = 5 * y" using assms(2) by (simp_all add: y_def)
  have q: "q > 0 \<and> 3 * q < 5 * y \<and> 5 * y < 8 * q"
    by (rule nearest_step [OF _ y(1) _ _ q_def]) (use assms(1) y(1) pow10_pos in \<open>auto simp: log10_law_def p_def\<close>)
  have "compute_divisions log10 xi xf = Inr (x0, q)"
  proof -
    have five: "[0..<5] = [0, 1, 2, 3, 4::nat]" by (simp add: upt_rec)
    have one: "fst (divide_once log10 xi xf y n st) = x0" "fst (snd (divide_once log10 xi xf y n st)) = q" for n st
      by (simp_all add: divide_once_def Let_def flip: p_def q_def x0_def)
    show ?thesis using assms(2) by (simp add: compute_divisions_def five case_prod_unfold one flip: y_def)
  qed
  moreover have "x0 < xi" "xi \<le> x0 + q"
  proof -
    have "of_int \<lceil>xi / q\<rceil> < xi / q + 1" "xi / q \<le> of_int \<lceil>xi / q\<rceil>" by linarith+
    then have "q * of_int \<lceil>xi / q\<rceil> < q * (xi / q + 1)" "q * (xi / q) \<le> q * of_int \<lceil>xi / q\<rceil>"
      using q by (simp_all only: mult_less_cancel_left_pos mult_le_cancel_left_pos)
    moreover have "q * (xi / q) = xi" using q by simp
    ultimately have "q * of_int \<lceil>xi / q\<rceil> < xi + q" "xi \<le> q * of_int \<lceil>xi / q\<rceil>" by (simp_all only: distrib_left mult_1_right)
    then show "x0 < xi" "xi \<le> x0 + q" by (simp_all add: x0_def distrib_left)
  qed
  moreover have "x0 = q * of_int (\<lceil>xi / q\<rceil> - 1)" by (simp add: x0_def algebra_simps)
  moreover have "round_step q" unfolding round_step_def q_def p_def by auto
  ultimately show ?thesis using q y by (intro exI [of _ "\<lceil>xi / q\<rceil> - 1"] exI [of _ q]) simp
qed

section \<open>The labels\<close>

lemma get_label_eq:
  "get_label st np = (tl (fst st), snd st @ [\<lparr>al_shown = True, al_number = fst np, al_point = snd np\<rparr>])"
proof -
  have "l\<lparr>al_shown := True, al_number := n, al_point := p\<rparr> = \<lparr>al_shown = True, al_number = n, al_point = p\<rparr>"
    for l :: axis_label and n p
    by (cases l) simp
  then show ?thesis by (cases "fst st") (simp_all add: get_label_def)
qed

lemma get_labels:
  "snd (foldl get_label st nps) @ fst (foldl get_label st nps) =
     snd st @ map (\<lambda>np. \<lparr>al_shown = True, al_number = fst np, al_point = snd np\<rparr>) nps @ drop (length nps) (fst st)"
  by (induction nps arbitrary: st) (simp_all add: get_label_eq drop_Suc)

text \<open>
  The marks of an axis that shows what lies between \<open>a\<close> and \<open>b\<close>: the multiples of a round step, from the
  last before \<open>a\<close> to the last before \<open>b\<close>.
\<close>

definition axis_marks :: "rat \<Rightarrow> rat \<Rightarrow> rat list \<Rightarrow> bool" where
  "axis_marks a b xs \<longleftrightarrow>
     (\<exists>step c. round_step step \<and> xs = map (\<lambda>i. step * of_int (c + int i)) [0..<length xs] \<and>
        step * of_int c < a \<and> a \<le> step * of_int (c + 1) \<and>
        step * of_int (c + int (length xs) - 1) < b \<and> b \<le> step * of_int (c + int (length xs)))"

lemma axis_ticks:
  assumes "log10_law log10" and "x1 < x2"
  shows "\<exists>x0 step xs. compute_divisions log10 x1 x2 = Inr (x0, step) \<and> ticks x0 x2 step = Some xs \<and>
    axis_marks x1 x2 xs \<and> 4 \<le> length xs \<and> length xs \<le> 9"
proof -
  obtain c step where d: "compute_divisions log10 x1 x2 = Inr (step * of_int c, step)" and step: "step > 0" "round_step step"
    and x0: "step * of_int c < x1" "x1 \<le> step * of_int c + step" and n: "3 * step < x2 - x1" "x2 - x1 < 8 * step"
    using compute_divisions_bounds [OF assms] by blast
  define m where "m = \<lceil>(x2 - step * of_int c) / step\<rceil>"
  define xs where "xs = map (\<lambda>i. step * of_int c + of_nat i * step) [0..<nat m]"
  have "3 < (x2 - step * of_int c) / step" "(x2 - step * of_int c) / step \<le> 9"
    using step x0 n by (simp_all add: pos_less_divide_eq pos_divide_le_eq)
  then have m: "4 \<le> m" "m \<le> 9" by (simp_all add: m_def le_ceiling_iff ceiling_le_iff)
  then have len: "int (length xs) = m" "4 \<le> length xs" "length xs \<le> 9" by (simp_all add: xs_def)
  have "of_int m - 1 < (x2 - step * of_int c) / step" "(x2 - step * of_int c) / step \<le> of_int m"
    unfolding m_def by linarith+
  then have "(of_int m - 1) * step < x2 - step * of_int c" "x2 - step * of_int c \<le> of_int m * step"
    by (simp_all only: pos_less_divide_eq [OF step(1)] pos_divide_le_eq [OF step(1)])
  then have "step * of_int (c + m - 1) < x2" "x2 \<le> step * of_int (c + m)"
    by (simp_all add: algebra_simps)
  moreover have "xs = map (\<lambda>i. step * of_int (c + int i)) [0..<length xs]"
    by (simp add: xs_def algebra_simps)
  ultimately have "axis_marks x1 x2 xs"
    unfolding axis_marks_def using step(2) x0 len(1)
    by (intro exI [of _ step] exI [of _ c]) (simp add: algebra_simps)
  moreover have "ticks (step * of_int c) x2 step = Some xs" using ticks_end [OF step(1)] by (simp add: xs_def m_def)
  ultimately show ?thesis using d len by blast
qed

lemma draw_axes_labels:
  "ax_labels (draw_axes L z v xs ys ax) =
     map (\<lambda>x. \<lparr>al_shown = True, al_number = x,
       al_point = (PIXELS_PER_METER * x, snd (snd (visible_corners L v)) - 5 / z / 2 - 10 / z)\<rparr>) xs @
     map (\<lambda>y. \<lparr>al_shown = True, al_number = y,
       al_point = (fst (fst (visible_corners L v)) + 5 / z / 2 + 10 / z, PIXELS_PER_METER * y)\<rparr>) ys @
     drop (length xs + length ys) (map hide_label (ax_labels ax))"
  by (simp only: draw_axes_def Let_def axes.select_convs axes.update_convs get_labels) (simp add: h_ticks_def v_ticks_def)

text \<open>
  C35: once there is a zoom, for a visible area of positive width and height, redrawing the axes ends. On
  either axis four to nine marks are labelled: the multiples of a step of one, two or five times a power of
  ten, in metres, from the last before the visible area to the last in it. The labels of the horizontal
  axis stand above the lower edge of the area at their marks, those of the vertical axis beside its left
  edge, and the labels that were used before and are not needed are hidden.
\<close>

theorem axes_update_view_labels:
  assumes "log10_law log10" and "visible_corners L v = ((x1, y1), (x2, y2))" and "x1 < x2" and "y1 < y2"
  shows "\<exists>ax' xs ys. axes_update_view log10 L (Some z) v ax = Some (Inr ax') \<and>
    axis_marks (x1 / PIXELS_PER_METER) (x2 / PIXELS_PER_METER) xs \<and> 4 \<le> length xs \<and> length xs \<le> 9 \<and>
    axis_marks (y1 / PIXELS_PER_METER) (y2 / PIXELS_PER_METER) ys \<and> 4 \<le> length ys \<and> length ys \<le> 9 \<and>
    ax_labels ax' =
      map (\<lambda>x. \<lparr>al_shown = True, al_number = x, al_point = (PIXELS_PER_METER * x, y2 - 5 / z / 2 - 10 / z)\<rparr>) xs @
      map (\<lambda>y. \<lparr>al_shown = True, al_number = y, al_point = (x1 + 5 / z / 2 + 10 / z, PIXELS_PER_METER * y)\<rparr>) ys @
      drop (length xs + length ys) (map hide_label (ax_labels ax))"
proof -
  have "x1 / PIXELS_PER_METER < x2 / PIXELS_PER_METER" "y1 / PIXELS_PER_METER < y2 / PIXELS_PER_METER"
    using assms(3,4) by (simp_all add: PIXELS_PER_METER_def divide_strict_right_mono)
  then obtain x0 xstep xs y0 ystep ys where
    x: "compute_divisions log10 (x1 / PIXELS_PER_METER) (x2 / PIXELS_PER_METER) = Inr (x0, xstep)"
      "ticks x0 (x2 / PIXELS_PER_METER) xstep = Some xs"
      "axis_marks (x1 / PIXELS_PER_METER) (x2 / PIXELS_PER_METER) xs" "4 \<le> length xs" "length xs \<le> 9" and
    y: "compute_divisions log10 (y1 / PIXELS_PER_METER) (y2 / PIXELS_PER_METER) = Inr (y0, ystep)"
      "ticks y0 (y2 / PIXELS_PER_METER) ystep = Some ys"
      "axis_marks (y1 / PIXELS_PER_METER) (y2 / PIXELS_PER_METER) ys" "4 \<le> length ys" "length ys \<le> 9"
    using axis_ticks [OF assms(1)] by meson
  have "axes_update_view log10 L (Some z) v ax = Some (Inr (draw_axes L z v xs ys ax))"
    by (simp add: axes_update_view_def Let_def assms(2) x(1,2) y(1,2))
  with x(3-5) y(3-5) show ?thesis
    by (intro exI [of _ "draw_axes L z v xs ys ax"] exI [of _ xs] exI [of _ ys]) (simp add: draw_axes_labels assms(2))
qed

text \<open>A logarithm that satisfies the law.\<close>

definition sample_log10 :: "rat \<Rightarrow> rat" where
  "sample_log10 y = of_int \<lfloor>log 10 (real_of_rat y) + 1 / 2\<rfloor>"

lemma pow10_powr: "real_of_rat (pow10 n) = 10 powr of_int n"
proof (cases "n \<ge> 0")
  case True
  then show ?thesis by (simp add: pow10_def of_rat_power flip: powr_realpow)
next
  case False
  then show ?thesis by (simp add: pow10_def of_rat_divide of_rat_power powr_minus_divide flip: powr_realpow)
qed

lemma sample_log10_law: "log10_law sample_log10"
  unfolding log10_law_def
proof (intro allI impI)
  fix y :: rat assume y: "y > 0"
  define l where "l = log 10 (real_of_rat y)"
  define n where "n = \<lfloor>l + 1 / 2\<rfloor>"
  have n: "rint (sample_log10 y) = n" by (simp add: rint_def sample_log10_def n_def l_def) (simp add: floor_eq_iff)
  have l: "real_of_rat y = 10 powr l" using y by (simp add: l_def)
  have dbl: "10 powr (2 * x) = 10 powr x * 10 powr x" for x :: real by (simp only: mult_2 powr_add)
  have y2: "real_of_rat (y ^ 2) = 10 powr (2 * l)" by (simp only: power2_eq_square of_rat_mult l dbl)
  have lo: "real_of_rat (pow10 n ^ 2 / 10) = 10 powr (2 * of_int n - 1)"
    by (simp add: of_rat_divide of_rat_mult pow10_powr power2_eq_square powr_diff dbl)
  have hi: "real_of_rat (pow10 n ^ 2 * 10) = 10 powr (2 * of_int n + 1)"
    by (simp add: of_rat_mult pow10_powr power2_eq_square powr_add dbl)
  have "of_int n \<le> l + 1 / 2" "l + 1 / 2 < of_int n + 1" unfolding n_def by linarith+
  then have "real_of_rat (pow10 n ^ 2 / 10) \<le> real_of_rat (y ^ 2)" "real_of_rat (y ^ 2) < real_of_rat (pow10 n ^ 2 * 10)"
    unfolding y2 lo hi by simp_all
  then show "pow10 (rint (sample_log10 y)) ^ 2 / 10 \<le> y ^ 2 \<and> y ^ 2 < pow10 (rint (sample_log10 y)) ^ 2 * 10"
    unfolding n of_rat_less_eq of_rat_less by blast
qed

theorem axes_update_view_labels_witness:
  "\<exists>ax'. axes_update_view sample_log10 plain_canvas (Some 1) (Visualizer 2 (600, 450)) no_axes = Some (Inr ax') \<and>
     8 \<le> length (ax_labels ax') \<and> length (ax_labels ax') \<le> 18"
proof -
  have c: "visible_corners plain_canvas (Visualizer 2 (600, 450)) = ((- 10000, - 10000), (- 9400, - 9550))" by code_simp
  have "ax_labels no_axes = []" by (simp add: no_axes_def)
  with axes_update_view_labels [OF sample_log10_law c, of 1 no_axes] show ?thesis by fastforce
qed

end
