(* ===== verification/VisSim.thy ===== *)
theory VisSim
  imports VisView "HOL-Library.Multiset"
begin

text \<open>
  The two threads of \<open>visualizer/core.py\<close>: \<open>SimulationThread.run\<close> and the GTK main loop with
  \<open>update_view_timeout\<close>, \<open>update_model\<close>, \<open>_quit\<close>, the update timer and the play button. They share the
  lock, the event \<open>go\<close> and a few fields. A step is a statement of either thread that the other can see;
  handlers run when the main loop is idle or while \<open>update_view_timeout\<close> iterates it, so the calls of
  the GUI thread form a stack.
\<close>

section \<open>State\<close>

datatype sim_pc = Testing | Waiting | Clearing | Checking | Locking | Running | Releasing | Ended

datatype owner = Sim | Gui

text \<open>
  A call in progress: \<open>update_view_timeout\<close> of a timer as it polls for the lock, as it iterates the main
  loop because the simulator has it, and while and after it has the lock, with the messages it has taken; a handler that waits for the lock or has it (\<open>update_model\<close>, tooltips,
  drags, the setting of the nodes of interest); \<open>_quit\<close> at its assignment, at \<open>go.set\<close> and at \<open>join\<close>.
\<close>

datatype frame =
    Trying nat
  | Iterating nat
  | Viewing nat "string list"
  | Acting nat "string list"
  | Blocking
  | Holding
  | QuitFlag
  | QuitGo
  | Joining

record sim =
  sp :: sim_pc
  frames :: "frame list"
  lock :: "owner option"
  go :: bool
  quit :: bool
  target_time :: rat
  now :: rat
  pause_messages :: "string list"
  updates :: nat
  sources :: "nat list"
  timeout_id :: "nat option"
  next_id :: nat
  playing :: bool
  main_quit :: bool
  produced :: "string list"
  shown :: "string list"
  lost :: "string list"

text \<open>The last three fields only record the messages of the simulator, those shown in dialogs and those dropped.\<close>

definition SimulationThread :: sim where
  "SimulationThread =
     \<lparr>sp = Testing, frames = [], lock = None, go = False, quit = False, target_time = 0, now = 0, pause_messages = [],
      updates = 0, sources = [], timeout_id = None, next_id = 1, playing = False, main_quit = False,
      produced = [], shown = [], lost = []\<rparr>"

section \<open>The simulation thread\<close>

text \<open>
  \<open>run_until now target\<close> is the simulator: its clock after the run and the pause messages. None is a
  thread that waits or has ended.
\<close>

definition sim_step :: "(rat \<Rightarrow> rat \<Rightarrow> rat \<times> string list) \<Rightarrow> sim \<Rightarrow> sim option" where
  "sim_step run_until s =
     (case sp s of
        Testing \<Rightarrow> Some (s\<lparr>sp := if quit s then Ended else Waiting\<rparr>)
      | Waiting \<Rightarrow> if go s then Some (s\<lparr>sp := Clearing\<rparr>) else None
      | Clearing \<Rightarrow> Some (s\<lparr>go := False, sp := Checking\<rparr>)
      | Checking \<Rightarrow> Some (s\<lparr>sp := if quit s then Ended else Locking\<rparr>)
      | Locking \<Rightarrow> if lock s = None then Some (s\<lparr>lock := Some Sim, sp := Running\<rparr>) else None
      | Running \<Rightarrow>
          (let r = run_until (now s) (target_time s) in
           Some (s\<lparr>now := fst r, pause_messages := pause_messages s @ snd r, produced := produced s @ snd r,
                   updates := Suc (updates s), sp := Releasing\<rparr>))
      | Releasing \<Rightarrow> Some (s\<lparr>lock := None, sp := Testing\<rparr>)
      | Ended \<Rightarrow> None)"

section \<open>Timers and the play button\<close>

definition source_remove :: "nat option \<Rightarrow> sim \<Rightarrow> sim" where
  "source_remove i s = (case i of None \<Rightarrow> s | Some i \<Rightarrow> s\<lparr>sources := removeAll i (sources s)\<rparr>)"

definition start_update_timer :: "sim \<Rightarrow> sim" where
  "start_update_timer s =
     (let s = source_remove (timeout_id s) s in
      s\<lparr>sources := sources s @ [next_id s], timeout_id := Some (next_id s), next_id := Suc (next_id s)\<rparr>)"

definition on_play_button_toggled :: "sim \<Rightarrow> sim" where
  "on_play_button_toggled s = (if playing s then start_update_timer s else source_remove (timeout_id s) s)"

text \<open>Setting the button's state calls the handler when the state changes.\<close>

definition set_active :: "bool \<Rightarrow> sim \<Rightarrow> sim" where
  "set_active b s = (if playing s = b then s else on_play_button_toggled (s\<lparr>playing := b\<rparr>))"

section \<open>update_view_timeout\<close>

text \<open>With the lock, which it polls for: it takes the messages.\<close>

definition begin_view :: "nat \<Rightarrow> frame list \<Rightarrow> sim \<Rightarrow> sim" where
  "begin_view i fs s = s\<lparr>lock := Some Gui, frames := Viewing i (pause_messages s) # fs, pause_messages := []\<rparr>"

definition end_view :: "rat \<Rightarrow> nat \<Rightarrow> string list \<Rightarrow> frame list \<Rightarrow> sim \<Rightarrow> sim" where
  "end_view sample_period i ms fs s = s\<lparr>target_time := now s + sample_period, lock := None, frames := Acting i ms # fs\<rparr>"

text \<open>An exception of \<open>update_view\<close> leaves the handler, which removes its timer.\<close>

definition fail_view :: "nat \<Rightarrow> string list \<Rightarrow> frame list \<Rightarrow> sim \<Rightarrow> sim" where
  "fail_view i ms fs s = s\<lparr>lock := None, frames := fs, sources := removeAll i (sources s), lost := lost s @ ms\<rparr>"

definition finish_timeout :: "nat \<Rightarrow> string list \<Rightarrow> frame list \<Rightarrow> sim \<Rightarrow> sim" where
  "finish_timeout i ms fs s =
     (let s = (if ms = [] then s else set_active False (s\<lparr>shown := shown s @ ms\<rparr>)) in
      if \<not> playing s then s\<lparr>timeout_id := None, sources := removeAll i (sources s), frames := fs\<rparr>
      else s\<lparr>go := True, frames := fs\<rparr>)"

section \<open>Quitting\<close>

definition begin_quit :: "sim \<Rightarrow> sim" where
  "begin_quit s = (source_remove (timeout_id s) s)\<lparr>timeout_id := None, frames := QuitFlag # frames s\<rparr>"

definition quit_step :: "sim \<Rightarrow> sim option" where
  "quit_step s =
     (case frames s of
        QuitFlag # fs \<Rightarrow> Some (s\<lparr>quit := True, frames := QuitGo # fs\<rparr>)
      | QuitGo # fs \<Rightarrow> Some (s\<lparr>go := True, frames := Joining # fs\<rparr>)
      | Joining # fs \<Rightarrow> if sp s = Ended then Some (s\<lparr>main_quit := True, frames := fs\<rparr>) else None
      | _ \<Rightarrow> None)"

section \<open>Both threads\<close>

text \<open>The main loop dispatches events when it is idle, or when it is iterated; no timer within itself.\<close>

definition interactive :: "sim \<Rightarrow> bool" where
  "interactive s = (case frames s of [] \<Rightarrow> \<not> main_quit s | Iterating _ # _ \<Rightarrow> True | _ \<Rightarrow> False)"

fun frame_source :: "frame \<Rightarrow> nat option" where
  "frame_source (Trying i) = Some i"
| "frame_source (Iterating i) = Some i"
| "frame_source (Viewing i _) = Some i"
| "frame_source (Acting i _) = Some i"
| "frame_source _ = None"

inductive vis_step :: "(rat \<Rightarrow> rat \<Rightarrow> rat \<times> string list) \<Rightarrow> sim \<Rightarrow> sim \<Rightarrow> bool" for run_until where
  Simulate: "sim_step run_until s = Some s' \<Longrightarrow> vis_step run_until s s'"
| Timer: "interactive s \<Longrightarrow> i \<in> set (sources s) \<Longrightarrow> Some i \<notin> frame_source ` set (frames s) \<Longrightarrow>
    vis_step run_until s (s\<lparr>frames := Trying i # frames s\<rparr>)"
| Poll: "frames s = Trying i # fs \<Longrightarrow> lock s \<noteq> None \<Longrightarrow> vis_step run_until s (s\<lparr>frames := Iterating i # fs\<rparr>)"
| Again: "frames s = Iterating i # fs \<Longrightarrow> vis_step run_until s (s\<lparr>frames := Trying i # fs\<rparr>)"
| BeginView: "frames s = Trying i # fs \<Longrightarrow> lock s = None \<Longrightarrow> vis_step run_until s (begin_view i fs s)"
| EndView: "frames s = Viewing i ms # fs \<Longrightarrow> vis_step run_until s (end_view period i ms fs s)"
| FailView: "frames s = Viewing i ms # fs \<Longrightarrow> vis_step run_until s (fail_view i ms fs s)"
| Act: "frames s = Acting i ms # fs \<Longrightarrow> vis_step run_until s (finish_timeout i ms fs s)"
| Update: "interactive s \<Longrightarrow> updates s > 0 \<Longrightarrow>
    vis_step run_until s (s\<lparr>updates := updates s - 1, frames := Blocking # frames s\<rparr>)"
| Handle: "interactive s \<Longrightarrow> vis_step run_until s (s\<lparr>frames := Blocking # frames s\<rparr>)"
| Acquire: "frames s = Blocking # fs \<Longrightarrow> lock s = None \<Longrightarrow> vis_step run_until s (s\<lparr>lock := Some Gui, frames := Holding # fs\<rparr>)"
| Release: "frames s = Holding # fs \<Longrightarrow> vis_step run_until s (s\<lparr>lock := None, frames := fs\<rparr>)"
| Toggle: "interactive s \<Longrightarrow> vis_step run_until s (set_active b s)"
| Speed: "interactive s \<Longrightarrow> vis_step run_until s (start_update_timer s)"
| Quit: "interactive s \<Longrightarrow> vis_step run_until s (begin_quit s)"
| QuitStep: "quit_step s = Some s' \<Longrightarrow> vis_step run_until s s'"

inductive_cases vis_stepE: "vis_step run_until s s'"

section \<open>The lock\<close>

definition sim_inside :: "sim \<Rightarrow> bool" where
  "sim_inside s \<longleftrightarrow> sp s \<in> {Running, Releasing}"

definition gui_inside :: "sim \<Rightarrow> bool" where
  "gui_inside s \<longleftrightarrow> (case frames s of Viewing _ _ # _ \<Rightarrow> True | Holding # _ \<Rightarrow> True | _ \<Rightarrow> False)"

definition is_iterating :: "frame \<Rightarrow> bool" where
  "is_iterating f \<longleftrightarrow> (case f of Iterating _ \<Rightarrow> True | _ \<Rightarrow> False)"

text \<open>
  The lock is held exactly by the thread that is inside; below the newest call there are only calls
  that iterate the main loop; and a GUI thread that joins has set the flag and the event.
\<close>

definition lock_ok :: "sim \<Rightarrow> bool" where
  "lock_ok s \<longleftrightarrow> (lock s = Some Sim \<longleftrightarrow> sim_inside s) \<and> (lock s = Some Gui \<longleftrightarrow> gui_inside s)"

definition calls_ok :: "sim \<Rightarrow> bool" where
  "calls_ok s \<longleftrightarrow> (\<forall>f\<in>set (tl (frames s)). is_iterating f)"

definition quit_ok :: "sim \<Rightarrow> bool" where
  "quit_ok s \<longleftrightarrow>
     (case frames s of QuitGo # _ \<Rightarrow> quit s | Joining # _ \<Rightarrow> quit s \<and> (sp s = Waiting \<longrightarrow> go s) | _ \<Rightarrow> True)"

definition sim_ok :: "sim \<Rightarrow> bool" where
  "sim_ok s \<longleftrightarrow> lock_ok s \<and> calls_ok s \<and> quit_ok s"

lemma removed_frames [simp]:
  "frames (source_remove i s) = frames s" "lock (source_remove i s) = lock s" "sp (source_remove i s) = sp s"
  "quit (source_remove i s) = quit s" "go (source_remove i s) = go s"
  "frames (start_update_timer s) = frames s" "lock (start_update_timer s) = lock s" "sp (start_update_timer s) = sp s"
  "quit (start_update_timer s) = quit s" "go (start_update_timer s) = go s"
  by (simp_all add: source_remove_def start_update_timer_def Let_def split: option.split)

lemma active_frames [simp]:
  "frames (set_active b s) = frames s" "lock (set_active b s) = lock s" "sp (set_active b s) = sp s"
  "quit (set_active b s) = quit s" "go (set_active b s) = go s"
  by (simp_all add: set_active_def on_play_button_toggled_def)

lemma sim_step_frames: "sim_step R s = Some s' \<Longrightarrow> frames s' = frames s \<and> quit s' = quit s"
  by (cases "sp s") (auto simp: sim_step_def Let_def split: if_splits)

lemma gui_inside_frames: "frames s' = frames s \<Longrightarrow> gui_inside s' = gui_inside s"
  by (simp add: gui_inside_def)

lemma sim_step_lock: "sim_step R s = Some s' \<Longrightarrow> lock_ok s \<Longrightarrow> lock_ok s'"
  using gui_inside_frames [of s' s] sim_step_frames [of R s s']
  by (cases "sp s") (auto simp: sim_step_def lock_ok_def sim_inside_def Let_def split: if_splits)

lemma sim_step_quit: "sim_step R s = Some s' \<Longrightarrow> quit s \<Longrightarrow> sp s = Waiting \<longrightarrow> go s \<Longrightarrow> sp s' = Waiting \<longrightarrow> go s'"
  by (cases "sp s") (auto simp: sim_step_def Let_def split: if_splits)

lemma sim_step_ok:
  assumes "sim_step R s = Some s'" and "sim_ok s"
  shows "sim_ok s'"
proof -
  have "quit_ok s'"
    using assms sim_step_frames [OF assms(1)] sim_step_quit [OF assms(1)]
    by (simp add: sim_ok_def quit_ok_def split: list.splits frame.splits)
  moreover have "calls_ok s'" using assms sim_step_frames [OF assms(1)] by (simp add: sim_ok_def calls_ok_def)
  ultimately show ?thesis using assms sim_step_lock by (simp add: sim_ok_def)
qed

text \<open>A new call is made from an idle or iterated main loop, and the call below it goes on when it ends.\<close>

lemma push_ok:
  assumes "interactive s" and "sim_ok s" and "f \<in> {Blocking, QuitFlag, Trying i}"
    and "frames s' = f # frames s" "lock s' = lock s" "sp s' = sp s"
  shows "sim_ok s'"
proof -
  have g: "\<not> gui_inside s" using assms(1) by (auto simp: interactive_def gui_inside_def split: list.splits frame.splits)
  have g': "\<not> gui_inside s'" "quit_ok s'" using assms(3,4)
    by (auto simp: gui_inside_def quit_ok_def is_iterating_def split: frame.splits)
  have "\<forall>f\<in>set (frames s). is_iterating f"
    using assms(1,2)
    by (cases "frames s") (auto simp: interactive_def sim_ok_def calls_ok_def is_iterating_def split: frame.splits)
  with g g' assms(2,4-) show ?thesis by (simp add: sim_ok_def lock_ok_def calls_ok_def sim_inside_def)
qed

lemma release_ok:
  assumes "lock_ok s" and "sp s' = sp s" and "\<not> gui_inside s'" and "lock s' = (if lock s = Some Gui then None else lock s)"
  shows "lock_ok s'"
proof -
  have "sim_inside s' = sim_inside s" using assms(2) by (simp add: sim_inside_def)
  moreover have "lock s' \<noteq> Some Gui" "lock s' = Some Sim \<longleftrightarrow> lock s = Some Sim" using assms(4) by simp_all
  ultimately show ?thesis using assms(1,3) unfolding lock_ok_def by blast
qed

lemma top_ok:
  assumes "frames s = f # fs" and "sim_ok s" and "frames s' = g # fs" "sp s' = sp s"
    and lock: "lock s' = (if gui_inside s' then Some Gui else if lock s = Some Gui then None else lock s)"
    and free: "gui_inside s' \<Longrightarrow> lock s \<noteq> Some Sim" and "quit_ok s'"
  shows "sim_ok s'"
proof -
  have inside: "sim_inside s' = sim_inside s" using assms(4) by (simp add: sim_inside_def)
  have a: "sim_inside s \<longleftrightarrow> lock s = Some Sim" using assms(2) by (simp add: sim_ok_def lock_ok_def)
  have "lock_ok s'"
  proof (cases "gui_inside s'")
    case True
    then have "lock s' = Some Gui" "\<not> sim_inside s'" using lock free a inside by simp_all
    with True show ?thesis by (simp add: lock_ok_def)
  next
    case False
    with assms(2,4) lock show ?thesis by - (rule release_ok [of s], simp_all add: sim_ok_def)
  qed
  moreover have "calls_ok s'" using assms(1-3) by (simp add: sim_ok_def calls_ok_def)
  ultimately show ?thesis using assms(7) by (simp add: sim_ok_def)
qed

lemma pop_ok:
  assumes "frames s = f # fs" and "sim_ok s" and "frames s' = fs" "sp s' = sp s"
    and "lock s' = (if lock s = Some Gui then None else lock s)"
  shows "sim_ok s'"
proof -
  have fs: "\<forall>f\<in>set fs. is_iterating f" using assms(1,2) by (simp add: sim_ok_def calls_ok_def)
  have "\<not> gui_inside s' \<and> quit_ok s' \<and> calls_ok s'"
  proof (cases fs)
    case Nil
    then show ?thesis by (simp add: gui_inside_def quit_ok_def calls_ok_def assms(3))
  next
    case (Cons g gs)
    with fs obtain i where "g = Iterating i" by (cases g) (auto simp: is_iterating_def)
    with fs Cons show ?thesis by (simp add: gui_inside_def quit_ok_def calls_ok_def assms(3))
  qed
  moreover from this assms(2,4,5) have "lock_ok s'" by - (rule release_ok [of s], simp_all add: sim_ok_def)
  ultimately show ?thesis by (simp add: sim_ok_def)
qed

lemma same_ok:
  assumes "sim_ok s" and "frames s' = frames s" "lock s' = lock s" "sp s' = sp s" "quit s' = quit s" "go s' = go s"
  shows "sim_ok s'"
  using assms gui_inside_frames [OF assms(2)]
  by (simp add: sim_ok_def lock_ok_def calls_ok_def quit_ok_def sim_inside_def cong: list.case_cong frame.case_cong)

lemma finish_frames [simp]: "frames (finish_timeout i ms fs s) = fs" "lock (finish_timeout i ms fs s) = lock s" "sp (finish_timeout i ms fs s) = sp s"
  by (simp_all add: finish_timeout_def Let_def)

lemma gui_inside_simps [simp]:
  "frames s = f # fs \<Longrightarrow> gui_inside s = (case f of Viewing _ _ \<Rightarrow> True | Holding \<Rightarrow> True | _ \<Rightarrow> False)"
  by (simp add: gui_inside_def)

lemma outside_free: "sim_ok s \<Longrightarrow> \<not> gui_inside s \<Longrightarrow> lock s \<noteq> Some Gui"
  by (simp add: sim_ok_def lock_ok_def)

lemma quit_step_ok:
  assumes "quit_step s = Some s'" and ok: "sim_ok s"
  shows "sim_ok s'"
proof (cases "frames s")
  case (Cons f fs)
  note free = outside_free [OF ok]
  from assms(1) Cons consider "f = QuitFlag" "s' = s\<lparr>quit := True, frames := QuitGo # fs\<rparr>"
    | "f = QuitGo" "s' = s\<lparr>go := True, frames := Joining # fs\<rparr>"
    | "f = Joining" "s' = s\<lparr>main_quit := True, frames := fs\<rparr>"
    by (auto simp: quit_step_def split: frame.splits if_splits)
  then show ?thesis
  proof cases
    case 1
    then show ?thesis using Cons free by (intro top_ok [OF Cons ok]) (auto simp: quit_ok_def)
  next
    case 2
    moreover from this ok Cons have "quit s" by (simp add: sim_ok_def quit_ok_def)
    ultimately show ?thesis using Cons free by (intro top_ok [OF Cons ok]) (auto simp: quit_ok_def)
  next
    case 3
    then show ?thesis using Cons free by (intro pop_ok [OF Cons ok]) auto
  qed
qed (use assms in \<open>simp add: quit_step_def\<close>)

lemma vis_step_ok:
  assumes "vis_step R s s'" and ok: "sim_ok s"
  shows "sim_ok s'"
  using assms(1)
proof (cases rule: vis_step.cases)
  case Simulate
  then show ?thesis using ok by (rule sim_step_ok)
next
  case (Timer i)
  then show ?thesis by (intro push_ok [OF _ ok, where f = "Trying i" and i = i]) simp_all
next
  case (Poll i fs)
  then show ?thesis using outside_free [OF ok] by (intro top_ok [OF Poll(2) ok]) (simp_all add: quit_ok_def)
next
  case (Again i fs)
  then show ?thesis using outside_free [OF ok] by (intro top_ok [OF Again(2) ok]) (simp_all add: quit_ok_def)
next
  case (BeginView i fs)
  then show ?thesis by (intro top_ok [OF BeginView(2) ok]) (simp_all add: begin_view_def quit_ok_def)
next
  case (EndView i ms fs period)
  then show ?thesis using ok
    by (intro top_ok [OF EndView(2) ok]) (simp_all add: end_view_def quit_ok_def sim_ok_def lock_ok_def)
next
  case (FailView i ms fs)
  then show ?thesis using ok by (intro pop_ok [OF FailView(2) ok]) (simp_all add: fail_view_def sim_ok_def lock_ok_def)
next
  case (Act i ms fs)
  then show ?thesis using outside_free [OF ok] by (intro pop_ok [OF Act(2) ok]) simp_all
next
  case Update
  then show ?thesis by (intro push_ok [OF _ ok, where f = Blocking]) simp_all
next
  case Handle
  then show ?thesis by (intro push_ok [OF _ ok, where f = Blocking]) simp_all
next
  case (Acquire fs)
  then show ?thesis by (intro top_ok [OF Acquire(2) ok]) (simp_all add: quit_ok_def)
next
  case (Release fs)
  then show ?thesis using ok by (intro pop_ok [OF Release(2) ok]) (simp_all add: sim_ok_def lock_ok_def)
next
  case (Toggle b)
  then show ?thesis by (intro same_ok [OF ok]) simp_all
next
  case Speed
  then show ?thesis by (intro same_ok [OF ok]) simp_all
next
  case Quit
  then show ?thesis by (intro push_ok [OF _ ok, where f = QuitFlag]) (simp_all add: begin_quit_def)
next
  case QuitStep
  then show ?thesis using ok by (rule quit_step_ok)
qed

interpretation threads: transition_invariant "vis_step R" sim_ok for R
  by unfold_locales (rule vis_step_ok)

lemma SimulationThread_ok: "sim_ok SimulationThread"
  by (simp add: sim_ok_def lock_ok_def calls_ok_def quit_ok_def sim_inside_def gui_inside_def SimulationThread_def)

lemma reachable_ok: "(vis_step R)\<^sup>*\<^sup>* SimulationThread s \<Longrightarrow> sim_ok s"
  using SimulationThread_ok by (rule threads.reached [rotated])

text \<open>
  C5: in every state the two threads can reach, at most one of them is between the acquisition of the
  lock and its release: the view never looks at the model while the simulator runs.
\<close>

theorem mutual_exclusion:
  assumes "(vis_step R)\<^sup>*\<^sup>* SimulationThread s"
  shows "\<not> (sim_inside s \<and> gui_inside s)"
  using reachable_ok [OF assms] by (auto simp: sim_ok_def lock_ok_def)

section \<open>Concrete runs\<close>

datatype sim_move =
    MSim
  | MTimer nat
  | MTop
  | MFail
  | MUpdate
  | MHandle
  | MToggle bool
  | MSpeed
  | MQuit

text \<open>The step a move stands for; \<open>MTop\<close> continues the newest call.\<close>

definition move :: "(rat \<Rightarrow> rat \<Rightarrow> rat \<times> string list) \<Rightarrow> sim_move \<Rightarrow> sim \<Rightarrow> sim option" where
  "move R m s =
     (case m of
        MSim \<Rightarrow> sim_step R s
      | MTimer i \<Rightarrow> if interactive s \<and> i \<in> set (sources s) \<and> Some i \<notin> frame_source ` set (frames s)
                   then Some (s\<lparr>frames := Trying i # frames s\<rparr>) else None
      | MTop \<Rightarrow>
          (case frames s of
             Trying i # fs \<Rightarrow> Some (if lock s = None then begin_view i fs s else s\<lparr>frames := Iterating i # fs\<rparr>)
           | Iterating i # fs \<Rightarrow> Some (s\<lparr>frames := Trying i # fs\<rparr>)
           | Viewing i ms # fs \<Rightarrow> Some (end_view SAMPLE_PERIOD i ms fs s)
           | Acting i ms # fs \<Rightarrow> Some (finish_timeout i ms fs s)
           | Blocking # fs \<Rightarrow> if lock s = None then Some (s\<lparr>lock := Some Gui, frames := Holding # fs\<rparr>) else None
           | Holding # fs \<Rightarrow> Some (s\<lparr>lock := None, frames := fs\<rparr>)
           | _ \<Rightarrow> quit_step s)
      | MFail \<Rightarrow> (case frames s of Viewing i ms # fs \<Rightarrow> Some (fail_view i ms fs s) | _ \<Rightarrow> None)
      | MUpdate \<Rightarrow> if interactive s \<and> updates s > 0 then Some (s\<lparr>updates := updates s - 1, frames := Blocking # frames s\<rparr>) else None
      | MHandle \<Rightarrow> if interactive s then Some (s\<lparr>frames := Blocking # frames s\<rparr>) else None
      | MToggle b \<Rightarrow> if interactive s then Some (set_active b s) else None
      | MSpeed \<Rightarrow> if interactive s then Some (start_update_timer s) else None
      | MQuit \<Rightarrow> if interactive s then Some (begin_quit s) else None)"

lemma move_top: "move R MTop s = Some s' \<Longrightarrow> vis_step R s s'"
proof (cases "frames s")
  case (Cons f fs)
  then show "move R MTop s = Some s' \<Longrightarrow> vis_step R s s'"
    by (cases f) (auto simp: move_def intro: vis_step.intros split: if_splits)
qed (simp add: move_def quit_step_def)

lemma move_step: "move R m s = Some s' \<Longrightarrow> vis_step R s s'"
proof (cases m)
  case MFail
  then show "move R m s = Some s' \<Longrightarrow> vis_step R s s'"
    by (auto simp: move_def intro: vis_step.intros split: list.splits frame.splits)
next
  case MTop
  then show "move R m s = Some s' \<Longrightarrow> vis_step R s s'" using move_top by simp
qed (auto simp: move_def intro: vis_step.intros simp del: One_nat_def split: if_splits)

fun moves :: "(rat \<Rightarrow> rat \<Rightarrow> rat \<times> string list) \<Rightarrow> sim_move list \<Rightarrow> sim \<Rightarrow> sim option" where
  "moves R [] s = Some s"
| "moves R (m # ms) s = Option.bind (move R m s) (moves R ms)"

lemma moves_steps: "moves R ms s = Some s' \<Longrightarrow> (vis_step R)\<^sup>*\<^sup>* s s'"
proof (induction ms arbitrary: s)
  case (Cons m ms)
  then obtain u where "move R m s = Some u" "moves R ms u = Some s'" by (auto split: bind_splits)
  with Cons.IH move_step show ?case by (meson converse_rtranclp_into_rtranclp)
qed simp

lemma moves_reach:
  "(case moves R ms s of Some s' \<Rightarrow> P s' | None \<Rightarrow> False) \<Longrightarrow> \<exists>s'. (vis_step R)\<^sup>*\<^sup>* s s' \<and> P s'"
  by (cases "moves R ms s") (auto dest: moves_steps)

text \<open>A simulator that reaches its target, with a message when it starts at zero.\<close>

definition sample_run_until :: "rat \<Rightarrow> rat \<Rightarrow> rat \<times> string list" where
  "sample_run_until t target = (max t target, if t = 0 then [''paused''] else [])"

abbreviation play_moves :: "sim_move list" where
  "play_moves \<equiv> [MSpeed, MToggle True, MTimer 2, MTop, MTop, MTop, MSim, MSim, MSim, MSim, MSim]"

theorem mutual_exclusion_witness:
  "\<exists>s. moves sample_run_until play_moves SimulationThread = Some s \<and> sim_inside s \<and> \<not> gui_inside s"
proof -
  have "(case moves sample_run_until play_moves SimulationThread of Some s \<Rightarrow> sim_inside s | None \<Rightarrow> False)"
    by code_simp
  then obtain s where s: "moves sample_run_until play_moves SimulationThread = Some s" "sim_inside s"
    by (auto split: option.splits)
  with mutual_exclusion [OF moves_steps [OF s(1)]] show ?thesis by blast
qed

section \<open>Quitting\<close>

text \<open>How many steps the simulation thread has left once the flag is set.\<close>

definition sim_rank :: "sim_pc \<Rightarrow> nat" where
  "sim_rank pc = (case pc of Ended \<Rightarrow> 0 | Testing \<Rightarrow> 1 | Checking \<Rightarrow> 1 | Releasing \<Rightarrow> 2 | Clearing \<Rightarrow> 2 | Running \<Rightarrow> 3
     | Waiting \<Rightarrow> 3 | Locking \<Rightarrow> 4)"

lemma sim_rank_step: "sim_step R s = Some s' \<Longrightarrow> quit s \<Longrightarrow> sim_rank (sp s') < sim_rank (sp s)"
  by (cases "sp s") (auto simp: sim_step_def sim_rank_def Let_def split: if_splits)

lemma sim_enabled:
  assumes "sim_ok s" and "frames s = Joining # fs" and "sp s \<noteq> Ended"
  shows "\<exists>s'. sim_step R s = Some s'"
proof -
  have "sp s = Waiting \<longrightarrow> go s" "lock s \<noteq> Some Gui" "lock s = Some Sim \<longleftrightarrow> sim_inside s"
    using assms(1,2) by (auto simp: sim_ok_def quit_ok_def lock_ok_def)
  moreover have "lock s = None" if "lock s \<noteq> Some Gui" "lock s \<noteq> Some Sim"
    using that by (cases "lock s") (metis owner.exhaust)+
  ultimately show ?thesis using assms(3) by (cases "sp s") (auto simp: sim_step_def sim_inside_def Let_def)
qed

lemma joining_step:
  assumes "vis_step R s s'" and "frames s = Joining # fs"
  shows "sim_step R s = Some s' \<or> sp s = Ended \<and> s' = s\<lparr>main_quit := True, frames := fs\<rparr>"
  using assms by (cases rule: vis_step.cases) (auto simp: interactive_def quit_step_def split: if_splits)

text \<open>
  C6: quitting never hangs. When the GUI thread joins the simulation thread, some step is possible;
  every step is either one of the simulation thread, which has fewer left then, or, once that has ended,
  the return from \<open>join\<close>.
\<close>

theorem quit_returns:
  assumes "(vis_step R)\<^sup>*\<^sup>* SimulationThread s" and "frames s = Joining # fs"
  shows "(\<exists>s'. vis_step R s s') \<and>
    (\<forall>s'. vis_step R s s' \<longrightarrow>
       (if sp s = Ended then main_quit s' \<and> frames s' = fs
        else frames s' = frames s \<and> sim_rank (sp s') < sim_rank (sp s)))"
proof
  have ok: "sim_ok s" by (rule reachable_ok [OF assms(1)])
  show "\<exists>s'. vis_step R s s'"
  proof (cases "sp s = Ended")
    case True
    with assms(2) have "quit_step s = Some (s\<lparr>main_quit := True, frames := fs\<rparr>)" by (simp add: quit_step_def)
    then show ?thesis by (blast intro: QuitStep)
  next
    case False
    with sim_enabled [OF ok assms(2)] show ?thesis by (blast intro: Simulate)
  qed
  have "quit s" using ok assms(2) by (simp add: sim_ok_def quit_ok_def)
  show "\<forall>s'. vis_step R s s' \<longrightarrow> (if sp s = Ended then main_quit s' \<and> frames s' = fs
      else frames s' = frames s \<and> sim_rank (sp s') < sim_rank (sp s))"
  proof (intro allI impI)
    fix s' assume "vis_step R s s'"
    then consider "sim_step R s = Some s'" | "sp s = Ended" "s' = s\<lparr>main_quit := True, frames := fs\<rparr>"
      using joining_step [OF _ assms(2)] by blast
    then show "if sp s = Ended then main_quit s' \<and> frames s' = fs
      else frames s' = frames s \<and> sim_rank (sp s') < sim_rank (sp s)"
    proof cases
      case 1
      moreover from 1 have "sp s \<noteq> Ended" by (auto simp: sim_step_def)
      ultimately show ?thesis using sim_rank_step [OF _ \<open>quit s\<close>] sim_step_frames by simp
    next
      case 2
      then show ?thesis by simp
    qed
  qed
qed

theorem quit_returns_witness:
  "\<exists>s. moves sample_run_until (play_moves @ [MQuit, MTop, MTop]) SimulationThread = Some s \<and> frames s = [Joining] \<and>
     (\<exists>s'. vis_step sample_run_until s s')"
proof -
  have "(case moves sample_run_until (play_moves @ [MQuit, MTop, MTop]) SimulationThread of
      Some s \<Rightarrow> frames s = [Joining] | None \<Rightarrow> False)"
    by code_simp
  then obtain s where s: "moves sample_run_until (play_moves @ [MQuit, MTop, MTop]) SimulationThread = Some s" "frames s = [Joining]"
    by (auto split: option.splits)
  with quit_returns [OF moves_steps [OF s(1)] s(2)] show ?thesis by blast
qed

section \<open>Messages\<close>

fun frame_messages :: "frame \<Rightarrow> string list" where
  "frame_messages (Viewing _ ms) = ms"
| "frame_messages (Acting _ ms) = ms"
| "frame_messages _ = []"

definition accounted :: "sim \<Rightarrow> string multiset" where
  "accounted s = mset (shown s) + mset (lost s) + mset (pause_messages s) + mset (concat (map frame_messages (frames s)))"

lemma timers_messages [simp]:
  "produced (source_remove i s) = produced s" "shown (source_remove i s) = shown s" "lost (source_remove i s) = lost s"
  "pause_messages (source_remove i s) = pause_messages s"
  "produced (start_update_timer s) = produced s" "shown (start_update_timer s) = shown s" "lost (start_update_timer s) = lost s"
  "pause_messages (start_update_timer s) = pause_messages s"
  "produced (set_active b s) = produced s" "shown (set_active b s) = shown s" "lost (set_active b s) = lost s"
  "pause_messages (set_active b s) = pause_messages s"
  by (simp_all add: source_remove_def start_update_timer_def set_active_def on_play_button_toggled_def Let_def split: option.split)

lemma sim_step_messages: "sim_step R s = Some s' \<Longrightarrow> mset (produced s) = accounted s \<Longrightarrow> mset (produced s') = accounted s'"
  by (cases "sp s") (auto simp: sim_step_def accounted_def Let_def split: if_splits)

lemma finish_messages:
  "frames s = Acting i ms # fs \<Longrightarrow> mset (produced s) = accounted s \<Longrightarrow>
   mset (produced (finish_timeout i ms fs s)) = accounted (finish_timeout i ms fs s)"
  by (simp add: finish_timeout_def accounted_def Let_def)

lemma vis_step_messages:
  assumes "vis_step R s s'" and "mset (produced s) = accounted s"
  shows "mset (produced s') = accounted s'"
  using assms
proof (cases rule: vis_step.cases)
  case Simulate
  then show ?thesis using assms(2) by (rule sim_step_messages)
next
  case (Act i ms fs)
  then show ?thesis using assms(2) by (simp add: finish_messages)
next
  case QuitStep
  then show ?thesis using assms(2) by (auto simp: quit_step_def accounted_def split: list.splits frame.splits if_splits)
qed (simp_all add: accounted_def begin_view_def end_view_def fail_view_def begin_quit_def)

interpretation pauses: transition_invariant "vis_step R" "\<lambda>s. mset (produced s) = accounted s" for R
  by unfold_locales (rule vis_step_messages)

text \<open>
  C22: every message with which the simulator pauses is accounted for exactly once: shown in a dialog,
  about to be shown, waiting for the next view, or lost because that view raised an exception.
\<close>

theorem messages_accounted:
  assumes "(vis_step R)\<^sup>*\<^sup>* SimulationThread s"
  shows "mset (produced s) = mset (shown s) + mset (lost s) + mset (pause_messages s) +
    mset (concat (map frame_messages (frames s)))"
proof -
  have "mset (produced SimulationThread) = accounted SimulationThread"
    by (simp add: accounted_def SimulationThread_def)
  with assms have "mset (produced s) = accounted s" by (rule pauses.reached)
  then show ?thesis by (simp add: accounted_def)
qed

theorem messages_accounted_witness:
  "\<exists>s. moves sample_run_until (play_moves @ [MSim, MSim, MTimer 2, MTop, MTop, MTop]) SimulationThread = Some s \<and>
     mset (shown s) = {#''paused''#} \<and> \<not> playing s"
proof -
  let ?ms = "play_moves @ [MSim, MSim, MTimer 2, MTop, MTop, MTop]"
  have "(case moves sample_run_until ?ms SimulationThread of
      Some s \<Rightarrow> produced s = [''paused''] \<and> lost s = [] \<and> pause_messages s = [] \<and> frames s = [] \<and> \<not> playing s | None \<Rightarrow> False)"
    by code_simp
  then obtain s where s: "moves sample_run_until ?ms SimulationThread = Some s" "produced s = [''paused'']" "lost s = []"
    "pause_messages s = []" "frames s = []" "\<not> playing s"
    by (auto split: option.splits)
  with messages_accounted [OF moves_steps [OF s(1)]] show ?thesis by simp
qed

section \<open>Timers\<close>

text \<open>
  Two timers can be live: pausing and changing the speed while \<open>update_view_timeout\<close> iterates the main
  loop starts a timer whose number the handler then forgets, so that playing again starts another.
\<close>

lemma two_timers:
  "\<exists>s. (vis_step sample_run_until)\<^sup>*\<^sup>* SimulationThread s \<and> playing s \<and> sources s = [3, 4]"
proof -
  let ?ms = "play_moves @ [MTimer 2, MTop, MToggle False, MSpeed, MTop, MSim, MSim, MTop, MTop, MTop, MToggle True]"
  have "(case moves sample_run_until ?ms SimulationThread of Some s \<Rightarrow> playing s \<and> sources s = [3, 4] | None \<Rightarrow> False)"
    by code_simp
  then show ?thesis by (rule moves_reach)
qed

text \<open>Pausing leaves the number of the removed timer in place.\<close>

lemma stale_timer:
  "\<exists>s. (vis_step sample_run_until)\<^sup>*\<^sup>* SimulationThread s \<and> timeout_id s = Some 2 \<and> sources s = []"
proof -
  let ?ms = "[MSpeed, MToggle True, MToggle False]"
  have "(case moves sample_run_until ?ms SimulationThread of Some s \<Rightarrow> timeout_id s = Some 2 \<and> sources s = [] | None \<Rightarrow> False)"
    by code_simp
  then show ?thesis by (rule moves_reach)
qed

text \<open>An exception of the view stops the timer, while the button still shows that the simulation plays.\<close>

lemma silent_stop:
  "\<exists>s. (vis_step sample_run_until)\<^sup>*\<^sup>* SimulationThread s \<and> playing s \<and> sources s = []"
proof -
  let ?ms = "[MSpeed, MToggle True, MTimer 2, MTop, MFail]"
  have "(case moves sample_run_until ?ms SimulationThread of Some s \<Rightarrow> playing s \<and> sources s = [] | None \<Rightarrow> False)"
    by code_simp
  then show ?thesis by (rule moves_reach)
qed

end
