(* ===== verification/VisPlugins.thy ===== *)
theory VisPlugins
  imports VisView
begin

text \<open>
  The plugins of \<open>visualizer/plugins\<close> that show a node's data in a window (\<open>interface_statistics.py\<close>,
  \<open>show_last_packets.py\<close>, \<open>ipv4_routing_table.py\<close>, \<open>olsr.py\<close>), and the tooltip of a node. A window's
  table is the list of its rows. What the simulator reports is an argument; the text of addresses,
  times and packets is the simulator's.
\<close>

section \<open>Interface statistics\<close>

record if_stats =
  transmittedPackets :: int
  transmittedBytes :: int
  receivedPackets :: int
  receivedBytes :: int

definition NODE_STATISTICS_MEMORY :: nat where "NODE_STATISTICS_MEMORY = 10"

text \<open>The statistics of the last periods by node; the interfaces' counters of a period in order.\<close>

type_synonym collector = "(nat, if_stats list list) dict"

definition collect_stats :: "collector \<Rightarrow> nat \<times> if_stats list \<Rightarrow> collector" where
  "collect_stats c s =
     (let raw = (case map_of c (fst s) of None \<Rightarrow> [] | Some l \<Rightarrow> l) in
      dict_set (fst s) (keep_last NODE_STATISTICS_MEMORY (raw @ [snd s])) c)"

definition simulation_periodic_update :: "collector \<Rightarrow> (nat \<times> if_stats list) list \<Rightarrow> collector" where
  "simulation_periodic_update c nodes_statistics = foldl collect_stats c nodes_statistics"

record net_dev_stats =
  out_now :: if_stats
  txPacketRate :: rat
  rxPacketRate :: rat
  txBitRate :: rat
  rxBitRate :: rat

definition rates :: "rat \<Rightarrow> if_stats \<Rightarrow> if_stats \<Rightarrow> net_dev_stats" where
  "rates k old s =
     \<lparr>out_now = s,
      txPacketRate = of_int (transmittedPackets s - transmittedPackets old) / k,
      rxPacketRate = of_int (receivedPackets s - receivedPackets old) / k,
      txBitRate = of_int ((transmittedBytes s - transmittedBytes old) * 8) / k,
      rxBitRate = of_int ((receivedBytes s - receivedBytes old) * 8) / k\<rparr>"

definition interface_rate :: "rat \<Rightarrow> if_stats list \<Rightarrow> nat \<times> if_stats \<Rightarrow> net_dev_stats pyres" where
  "interface_rate k first is =
     (if fst is \<ge> length first then Inl IndexError
      else if k = 0 then Inl ZeroDivisionError
      else Inr (rates k (first ! fst is) (snd is)))"

definition get_interface_statistics :: "rat \<Rightarrow> nat \<Rightarrow> collector \<Rightarrow> net_dev_stats list pyres" where
  "get_interface_statistics sample_period nodeId c =
     (case map_of c nodeId of
        None \<Rightarrow> Inr []
      | Some raw \<Rightarrow>
          if length raw < NODE_STATISTICS_MEMORY then Inr []
          else if length raw \<noteq> NODE_STATISTICS_MEMORY then Inl AssertionError
          else rmapM (interface_rate (sample_period * of_nat (NODE_STATISTICS_MEMORY - 1)) (raw ! 0))
                 (enumerate 0 (last raw)))"

text \<open>The name of an interface, or a default with its number.\<close>

definition interface_name :: "string \<Rightarrow> nat \<Rightarrow> string" where
  "interface_name name i = (if name = [] then ''(interface '' @ show_nat i @ '')'' else name)"

text \<open>The rows of \<open>ShowInterfaceStatistics.update\<close>; \<open>names\<close> are the names of the node's devices.\<close>

definition statistics_rows :: "string list \<Rightarrow> net_dev_stats list \<Rightarrow> (string \<times> net_dev_stats) list" where
  "statistics_rows names stats_list = map (\<lambda>(i, s). (interface_name (names ! i) i, s)) (enumerate 0 stats_list)"

section \<open>Last packets\<close>

record packet_sample =
  ps_time :: string
  ps_device :: "(string \<times> nat) option"
  ps_size :: nat
  ps_contents :: string

definition packet_row :: "packet_sample \<Rightarrow> string list" where
  "packet_row s =
     [ps_time s, (case ps_device s of None \<Rightarrow> ''(unknown)'' | Some (name, ifindex) \<Rightarrow> interface_name name ifindex),
      show_nat (ps_size s), ps_contents s]"

definition packet_list_update :: "packet_sample list \<Rightarrow> string list list" where
  "packet_list_update packets = map packet_row packets"

text \<open>
  The types that may be filtered for: the registered ones below \<open>Header\<close> or \<open>Trailer\<close>. The loop over
  the parents need not end; None is a loop that does not.
\<close>

partial_function (option) type_is_good :: "('t \<Rightarrow> 't option) \<Rightarrow> 't list \<Rightarrow> 't \<Rightarrow> bool option" where
  "type_is_good parent roots t =
     (if t \<in> set roots then Some True
      else (case parent t of None \<Rightarrow> Some False | Some p \<Rightarrow> type_is_good parent roots p))"

definition packet_filter_types :: "('t \<Rightarrow> 't option) \<Rightarrow> 't list \<Rightarrow> 't list \<Rightarrow> 't list" where
  "packet_filter_types parent roots registered =
     filter (\<lambda>t. type_is_good parent roots t = Some True \<and> t \<notin> set roots) registered"

record 't capture_options =
  cap_and :: bool
  cap_num :: nat
  cap_headers :: "'t list"

definition update_capture_options :: "bool \<Rightarrow> ('t \<times> bool) list \<Rightarrow> 't capture_options" where
  "update_capture_options op_and filters =
     \<lparr>cap_and = op_and, cap_num = 100, cap_headers = map fst (filter snd filters)\<rparr>"

definition sel_all_cb :: "('t \<times> bool) list \<Rightarrow> ('t \<times> bool) list" where
  "sel_all_cb filters = map (\<lambda>c. (fst c, True)) filters"

definition sel_none_cb :: "('t \<times> bool) list \<Rightarrow> ('t \<times> bool) list" where
  "sel_none_cb filters = map (\<lambda>c. (fst c, False)) filters"

section \<open>Routing tables\<close>

text \<open>A route with the name of its device, None for the loopback one.\<close>

record route =
  rt_dest :: string
  rt_next :: string
  rt_interface :: nat
  rt_device :: "string option"
  rt_hops :: nat

definition route_interface :: "route \<Rightarrow> string" where
  "route_interface r = (case rt_device r of None \<Rightarrow> ''lo'' | Some name \<Rightarrow> interface_name name (rt_interface r))"

datatype routing_protocol =
    Ipv4StaticRouting "route list"
  | Ipv4GlobalRouting "route list"
  | Ipv4ListRouting "(routing_protocol \<times> int) list"
  | OtherRouting

definition listed_protocol :: "routing_protocol \<times> int \<Rightarrow> (route list \<times> string \<times> int) list" where
  "listed_protocol rp =
     (case fst rp of
        Ipv4StaticRouting rs \<Rightarrow> [(rs, ''static'', snd rp)]
      | Ipv4GlobalRouting rs \<Rightarrow> [(rs, ''global'', snd rp)]
      | _ \<Rightarrow> [])"

definition routing_protocols :: "routing_protocol \<Rightarrow> (route list \<times> string \<times> int) list" where
  "routing_protocols r =
     (case r of
        Ipv4StaticRouting rs \<Rightarrow> [(rs, ''static'', 0)]
      | Ipv4ListRouting rps \<Rightarrow> concat (map listed_protocol rps)
      | _ \<Rightarrow> [])"

type_synonym ipv4_row = "string \<times> string \<times> string \<times> string \<times> int"

text \<open>
  \<open>ShowIpv4RoutingTable.update\<close>, for the routing protocol of the node's IPv4 stack if it has one: the
  rows stay as they are when there is no protocol it knows.
\<close>

definition ipv4_table_update :: "routing_protocol option option \<Rightarrow> ipv4_row list \<Rightarrow> ipv4_row list pyres" where
  "ipv4_table_update ipv4 rows =
     (case ipv4 of
        None \<Rightarrow> Inl AttributeError
      | Some None \<Rightarrow> Inr rows
      | Some (Some r) \<Rightarrow>
          if routing_protocols r = [] then Inr rows
          else Inr (concat (map (\<lambda>(rs, type_string, prio).
              map (\<lambda>rt. (rt_dest rt, rt_next rt, route_interface rt, type_string, prio)) rs) (routing_protocols r))))"

type_synonym olsr_row = "string \<times> string \<times> string \<times> nat"

definition olsr_table_update :: "route list option \<Rightarrow> olsr_row list \<Rightarrow> olsr_row list" where
  "olsr_table_update olsr rows =
     (case olsr of
        None \<Rightarrow> rows
      | Some rs \<Rightarrow> map (\<lambda>rt. (rt_dest rt, rt_next rt, route_interface rt, rt_hops rt)) rs)"

text \<open>The entries the plugins add to a node's menu.\<close>

definition node_menu :: "bool \<Rightarrow> string list" where
  "node_menu has_olsr =
     [''Show Interface Statistics'', ''Show IPv4 Routing Table''] @ (if has_olsr then [''Show OLSR Routing Table''] else []) @
     [''Show Last Packets'']"

section \<open>Tooltips\<close>

record device_info =
  di_name :: string
  di_type :: string
  di_ipv4 :: "(string \<times> string) list option"
  di_ipv6 :: "(string \<times> string) list option"
  di_mac :: string

record node_info =
  ni_index :: nat
  ni_name :: string
  ni_extra :: "string list"
  ni_mobility :: "string option"
  ni_devices :: "device_info list"

definition addresses_line :: "string \<Rightarrow> (string \<times> string) list option \<Rightarrow> string list" where
  "addresses_line kind addrs =
     (case addrs of
        None \<Rightarrow> []
      | Some l \<Rightarrow> [''    <b>'' @ kind @ '' Addresses:</b> '' @ py_join ''; '' (map (\<lambda>(a, m). a @ ''/'' @ m) l)])"

definition device_lines :: "nat \<times> device_info \<Rightarrow> string list" where
  "device_lines d =
     [[], ''  <u>NetDevice '' @ show_nat (fst d) @ '':</u>''] @
     (if di_name (snd d) = [] then [] else [''    <b>Name:</b> '' @ di_name (snd d)]) @
     [''    <b>Type:</b> '' @ di_type (snd d)] @
     addresses_line ''IPv4'' (di_ipv4 (snd d)) @ addresses_line ''IPv6'' (di_ipv6 (snd d)) @
     [''    <b>MAC Address:</b> '' @ di_mac (snd d)]"

text \<open>\<open>Node.tooltip_query\<close>; \<open>ni_extra\<close> are the lines that the handlers of the signal append.\<close>

definition tooltip_query :: "node_info \<Rightarrow> string" where
  "tooltip_query n =
     py_join [py_newline]
       ([''<b><u>Node '' @ show_nat (ni_index n) @ ''</u></b>'' @ (if ni_name n = [] then [] else '' <b>('' @ ni_name n @ '')</b>''), []] @
        ni_extra n @
        (case ni_mobility n of None \<Rightarrow> [] | Some t \<Rightarrow> [''  <b>Mobility Model</b>: '' @ t]) @
        concat (map device_lines (enumerate 0 (ni_devices n))))"

section \<open>Statistics over the whole run\<close>

text \<open>All reports on one node, oldest first.\<close>

definition history :: "nat \<Rightarrow> (nat \<times> if_stats list) list list \<Rightarrow> if_stats list list" where
  "history i periods = map snd (filter (\<lambda>s. fst s = i) (concat periods))"

lemma collect_stats_lookup:
  "map_of (collect_stats c s) i =
     (if i = fst s then Some (keep_last NODE_STATISTICS_MEMORY ((case map_of c i of None \<Rightarrow> [] | Some l \<Rightarrow> l) @ [snd s]))
      else map_of c i)"
  by (simp add: collect_stats_def Let_def)

definition collected :: "nat \<Rightarrow> collector \<Rightarrow> if_stats list list" where
  "collected i c = (case map_of c i of None \<Rightarrow> [] | Some l \<Rightarrow> l)"

interpretation node_window: sliding_window collect_stats "collected i"
    "\<lambda>s. if fst s = i then [snd s] else []" "\<lambda>c. NODE_STATISTICS_MEMORY" for i
  by unfold_locales (auto simp: collected_def collect_stats_lookup keep_last_drop)

lemma collected_history:
  "collected i (foldl simulation_periodic_update [] periods) = keep_last NODE_STATISTICS_MEMORY (history i periods)"
proof -
  have "foldl simulation_periodic_update c periods = foldl collect_stats c (concat periods)" for c
    by (induction periods arbitrary: c) (simp_all add: simulation_periodic_update_def)
  moreover have "concat (map (\<lambda>s. if fst s = i then [snd s] else []) ss) = map snd (filter (\<lambda>s. fst s = i) ss)"
    for ss :: "(nat \<times> if_stats list) list"
    by (induction ss) auto
  moreover have "collected i [] = []" by (simp add: collected_def)
  ultimately show ?thesis using node_window.kept_run [of i "[]" "concat periods"] by (simp add: history_def)
qed

lemma statistics_of_collected:
  "get_interface_statistics period i c =
     (let raw = collected i c in
      if length raw < 10 then Inr []
      else if length raw \<noteq> 10 then Inl AssertionError
      else rmapM (interface_rate (period * 9) (raw ! 0)) (enumerate 0 (last raw)))"
  by (simp add: get_interface_statistics_def collected_def NODE_STATISTICS_MEMORY_def split: option.split)

text \<open>
  C33: although the collector keeps ten periods only, it reports what the whole history gives: nothing
  before the tenth report, and then the present counters with the rates since nine periods before; its
  assertion on the number of kept periods never fails.
\<close>

theorem interface_statistics_history:
  "get_interface_statistics period i (foldl simulation_periodic_update [] periods) =
     (let h = history i periods in
      if length h < 10 then Inr []
      else rmapM (interface_rate (period * 9) (h ! (length h - 10))) (enumerate 0 (last h)))"
  by (auto simp: statistics_of_collected collected_history keep_last_drop Let_def NODE_STATISTICS_MEMORY_def last_drop)

text \<open>
  When the parents of a type end somewhere, the search among them ends, and it finds the types
  that derive from a header or trailer.
\<close>

theorem type_is_good_iff:
  assumes "wf {(p, t). parent t = Some p}"
  shows "type_is_good parent roots t = Some (\<exists>r\<in>set roots. (t, r) \<in> {(t, p). parent t = Some p}\<^sup>*)"
  using assms
proof (induction t rule: wf_induct_rule)
  case (less t)
  have step: "(t, r) \<in> {(t, p). parent t = Some p}\<^sup>* \<longleftrightarrow> t = r \<or> (\<exists>p. parent t = Some p \<and> (p, r) \<in> {(t, p). parent t = Some p}\<^sup>*)" for r
    by (auto elim: converse_rtranclE intro: converse_rtrancl_into_rtrancl)
  show ?case
  proof (cases "t \<in> set roots")
    case True
    then show ?thesis by (auto simp: type_is_good.simps [of parent roots t])
  next
    case False
    show ?thesis
    proof (cases "parent t")
      case None
      with False show ?thesis unfolding step by (auto simp: type_is_good.simps [of parent roots t])
    next
      case (Some p)
      then have "type_is_good parent roots p = Some (\<exists>r\<in>set roots. (p, r) \<in> {(t, p). parent t = Some p}\<^sup>*)"
        by (intro less) simp
      with False Some show ?thesis unfolding step by (auto simp: type_is_good.simps [of parent roots t])
    qed
  qed
qed

theorem type_is_good_iff_witness:
  "type_is_good (\<lambda>t. if t = (2::nat) then Some 1 else if t = 1 then Some 0 else None) [1] 2 = Some True"
proof -
  let ?p = "\<lambda>t. if t = (2::nat) then Some 1 else if t = 1 then Some (0::nat) else None"
  have "{(p, t). ?p t = Some p} \<subseteq> measure (\<lambda>t. t)" by (auto split: if_splits)
  then have "wf {(p, t). ?p t = Some p}" by (rule wf_subset [OF wf_measure])
  moreover have "(2, 1) \<in> {(t, p). ?p t = Some p}\<^sup>*" by (rule r_into_rtrancl) simp
  ultimately show ?thesis using type_is_good_iff [of ?p "[1]" 2] by simp
qed

text \<open>A change of the speed while ten periods are kept: their rates are computed with the new period.\<close>

lemma rates_use_new_period:
  "rates (k * 2) old s = (rates k old s)\<lparr>txPacketRate := txPacketRate (rates k old s) / 2, rxPacketRate := rxPacketRate (rates k old s) / 2,
     txBitRate := txBitRate (rates k old s) / 2, rxBitRate := rxBitRate (rates k old s) / 2\<rparr>"
  by (simp add: rates_def)

end
