(* ===== verification/ShellCmd.thy ===== *)
theory ShellCmd
  imports WafUtils
begin

text \<open>
  \<open>waf-tools/shellcmd.py\<close>: the command lines that build rules may use. \<open>Pipeline.parse\<close> turns the
  words of a line into commands, changes of directory and the operators between them, one word at a
  time. The theorems characterise what it produces: the lines in normal form.
\<close>

section \<open>Nodes of a pipeline\<close>

text \<open>What \<open>stdout\<close> and \<open>stderr\<close> of a command are set to: the constants \<open>PIPE\<close> and \<open>STDOUT\<close>, or a file.\<close>

datatype out_target = OutPipe | OutStdout | OutFile string

record command =
  cm_name :: string
  cm_argv :: "string list"
  cm_stdin :: "string option"
  cm_stdout :: "out_target option"
  cm_stderr :: "out_target option"
  cm_env_vars :: "(string, string) dict option"

datatype shell_node = Command command | Chdir "string option" | Pipe | And | Or

definition new_command :: "string \<Rightarrow> command" where
  "new_command name =
     \<lparr>cm_name = name, cm_argv = [name], cm_stdin = None, cm_stdout = None, cm_stderr = None, cm_env_vars = None\<rparr>"

text \<open>\<open>get_abbreviated_command\<close>: the class \<open>And\<close> is tested twice and \<open>Or\<close> never, so \<open>||\<close> is left out.\<close>

definition abbreviated :: "shell_node \<Rightarrow> string list" where
  "abbreviated n =
     (case n of
        Command c \<Rightarrow> [cm_name c]
      | Chdir d \<Rightarrow> [''cd '' @ (case d of None \<Rightarrow> ''None'' | Some p \<Rightarrow> p)]
      | Pipe \<Rightarrow> [''|'']
      | And \<Rightarrow> [''&&'']
      | Or \<Rightarrow> [])"

definition get_abbreviated_command :: "shell_node list \<Rightarrow> string" where
  "get_abbreviated_command p = py_join '' '' (concat (map abbreviated p))"

section \<open>Parsing\<close>

text \<open>
  The pattern \<open>^([a-zA-Z0-9_]+)=(\S+)$\<close>; the last anchor also matches before a final newline.
\<close>

definition name_char :: "char \<Rightarrow> bool" where
  "name_char c \<longleftrightarrow>
     (let n = of_char c :: nat in 97 \<le> n \<and> n \<le> 122 \<or> 65 \<le> n \<and> n \<le> 90 \<or> py_digit c \<or> c = CHR ''_'')"

definition match_env_var :: "string \<Rightarrow> (string \<times> string) option" where
  "match_env_var token =
     (let name = takeWhile name_char token;
          rest = drop (length name) token;
          text = (if rest \<noteq> [] \<and> last rest = py_newline then butlast rest else rest)
      in if name \<noteq> [] \<and> startswith text ''='' \<and> tl text \<noteq> [] \<and> list_all (\<lambda>c. \<not> py_space c) (tl text)
         then Some (name, tl text) else None)"

datatype parse_state = BEGIN | COMMAND | CHDIR | STDERR | STDOUT | STDIN

record parser =
  pp_state :: parse_state
  pp_current :: "shell_node option"
  pp_pipeline :: "shell_node list"
  pp_env :: "(string, string) dict"

definition commit_command :: "parser \<Rightarrow> parser pyres" where
  "commit_command p =
     (case pp_current p of
        None \<Rightarrow> Inl AssertionError
      | Some n \<Rightarrow> Inr (p\<lparr>pp_pipeline := pp_pipeline p @ [n], pp_current := None\<rparr>))"

text \<open>The branches that read or set an attribute only commands have, or only changes of directory.\<close>

definition on_command :: "parser \<Rightarrow> (command \<Rightarrow> command pyres) \<Rightarrow> parser pyres" where
  "on_command p f =
     (case pp_current p of
        Some (Command c) \<Rightarrow> rmap (\<lambda>c. p\<lparr>pp_current := Some (Command c)\<rparr>) (f c)
      | _ \<Rightarrow> Inl AttributeError)"

definition on_chdir :: "parser \<Rightarrow> (string option \<Rightarrow> string option pyres) \<Rightarrow> parser pyres" where
  "on_chdir p f =
     (case pp_current p of
        Some (Chdir d) \<Rightarrow> rmap (\<lambda>d. p\<lparr>pp_current := Some (Chdir d)\<rparr>) (f d)
      | _ \<Rightarrow> Inl AttributeError)"

definition end_command :: "shell_node \<Rightarrow> parser \<Rightarrow> parser pyres" where
  "end_command operator p =
     rmap (\<lambda>p. p\<lparr>pp_pipeline := pp_pipeline p @ [operator], pp_state := BEGIN\<rparr>) (commit_command p)"

definition set_stdin :: "string \<Rightarrow> command \<Rightarrow> command pyres" where
  "set_stdin f c = (if cm_stdin c \<noteq> None then Inl AssertionError else Inr (c\<lparr>cm_stdin := Some f\<rparr>))"

definition set_stdout :: "out_target \<Rightarrow> command \<Rightarrow> command pyres" where
  "set_stdout t c = (if cm_stdout c \<noteq> None then Inl AssertionError else Inr (c\<lparr>cm_stdout := Some t\<rparr>))"

definition set_stderr :: "out_target \<Rightarrow> command \<Rightarrow> command pyres" where
  "set_stderr t c = (if cm_stderr c \<noteq> None then Inl AssertionError else Inr (c\<lparr>cm_stderr := Some t\<rparr>))"

definition parse_begin :: "parser \<Rightarrow> string \<Rightarrow> parser pyres" where
  "parse_begin p token =
     (case match_env_var token of
        Some (k, v) \<Rightarrow> Inr (p\<lparr>pp_env := dict_set k v (pp_env p)\<rparr>)
      | None \<Rightarrow>
          if pp_current p \<noteq> None then Inl AssertionError
          else if token = ''cd'' then
            (if pp_env p \<noteq> [] then Inl AssertionError
             else Inr (p\<lparr>pp_current := Some (Chdir None), pp_state := CHDIR\<rparr>))
          else
            Inr (p\<lparr>pp_current := Some (Command ((new_command token)
                     \<lparr>cm_env_vars := (if pp_env p \<noteq> [] then Some (pp_env p) else None)\<rparr>)),
                   pp_env := [], pp_state := COMMAND\<rparr>))"

definition parse_command :: "parser \<Rightarrow> string \<Rightarrow> parser pyres" where
  "parse_command p token =
     (if token = ''>'' then Inr (p\<lparr>pp_state := STDOUT\<rparr>)
      else if token = ''2>'' then Inr (p\<lparr>pp_state := STDERR\<rparr>)
      else if token = ''2>&1'' then on_command p (set_stderr OutStdout)
      else if token = ''<'' then Inr (p\<lparr>pp_state := STDIN\<rparr>)
      else if token = ''|'' then rbind (on_command p (set_stdout OutPipe)) (end_command Pipe)
      else if token = ''&&'' then end_command And p
      else if token = ''||'' then end_command Or p
      else on_command p (\<lambda>c. Inr (c\<lparr>cm_argv := cm_argv c @ [token]\<rparr>)))"

definition parse_token :: "parser \<Rightarrow> string \<Rightarrow> parser pyres" where
  "parse_token p token =
     (case pp_state p of
        BEGIN \<Rightarrow> parse_begin p token
      | COMMAND \<Rightarrow> parse_command p token
      | CHDIR \<Rightarrow>
          if token = ''&&'' then end_command And p
          else on_chdir p (\<lambda>d. if d \<noteq> None then Inl AssertionError else Inr (Some token))
      | STDOUT \<Rightarrow> rmap (\<lambda>p. p\<lparr>pp_state := COMMAND\<rparr>) (on_command p (set_stdout (OutFile token)))
      | STDERR \<Rightarrow> rmap (\<lambda>p. p\<lparr>pp_state := COMMAND\<rparr>) (on_command p (set_stderr (OutFile token)))
      | STDIN \<Rightarrow> rmap (\<lambda>p. p\<lparr>pp_state := COMMAND\<rparr>) (on_command p (set_stdin token)))"

definition start_parser :: parser where
  "start_parser = \<lparr>pp_state = BEGIN, pp_current = None, pp_pipeline = [], pp_env = []\<rparr>"

definition parse_tokens :: "string list \<Rightarrow> shell_node list pyres" where
  "parse_tokens tokens = rmap pp_pipeline (rbind (rfold parse_token start_parser tokens) commit_command)"

text \<open>A line is given as text or as the list of its words.\<close>

datatype command_line = Line string | Words "string list"

definition parse :: "command_line \<Rightarrow> shell_node list pyres" where
  "parse line = (case line of Words ws \<Rightarrow> parse_tokens ws | Line s \<Rightarrow> rbind (shlex_split s) parse_tokens)"

lemma parse_sample:
  "parse (Line ''./foo.py 2>&1 < xxx | cat && ls'') =
     Inr [Command ((new_command ''./foo.py'')\<lparr>cm_stderr := Some OutStdout, cm_stdin := Some ''xxx'', cm_stdout := Some OutPipe\<rparr>),
          Pipe, Command (new_command ''cat''), And, Command (new_command ''ls'')]"
  by code_simp

section \<open>What parsing produces\<close>

text \<open>
  The lines in normal form: variables, words, then the redirections; commands and changes of directory
  in turn with operators, a change of directory only before \<open>&&\<close> or last.
\<close>

definition var_word :: "string \<times> string \<Rightarrow> string" where
  "var_word kv = fst kv @ ''='' @ snd kv"

definition shell_words :: "string set" where
  "shell_words = {''>'', ''2>'', ''2>&1'', ''<'', ''|'', ''&&'', ''||''}"

definition redirections :: "command \<Rightarrow> string list" where
  "redirections c =
     (case cm_stdin c of None \<Rightarrow> [] | Some f \<Rightarrow> [''<'', f]) @
     (case cm_stdout c of Some (OutFile f) \<Rightarrow> [''>'', f] | _ \<Rightarrow> []) @
     (case cm_stderr c of Some (OutFile f) \<Rightarrow> [''2>'', f] | Some OutStdout \<Rightarrow> [''2>&1''] | _ \<Rightarrow> [])"

definition vars_of :: "command \<Rightarrow> (string, string) dict" where
  "vars_of c = (case cm_env_vars c of None \<Rightarrow> [] | Some vs \<Rightarrow> vs)"

fun render_node :: "shell_node \<Rightarrow> string list" where
  "render_node (Command c) = map var_word (vars_of c) @ cm_argv c @ redirections c"
| "render_node (Chdir d) = ''cd'' # (case d of None \<Rightarrow> [] | Some p \<Rightarrow> [p])"
| "render_node Pipe = [''|'']"
| "render_node And = [''&&'']"
| "render_node Or = [''||'']"

definition render :: "shell_node list \<Rightarrow> string list" where
  "render p = concat (map render_node p)"

definition is_var :: "string \<times> string \<Rightarrow> bool" where
  "is_var kv \<longleftrightarrow> match_env_var (var_word kv) = Some kv"

definition wf_command :: "command \<Rightarrow> bool" where
  "wf_command c \<longleftrightarrow>
     cm_argv c \<noteq> [] \<and> hd (cm_argv c) = cm_name c \<and> match_env_var (cm_name c) = None \<and> cm_name c \<noteq> ''cd'' \<and>
     list_all (\<lambda>w. w \<notin> shell_words) (tl (cm_argv c)) \<and>
     cm_stdout c \<noteq> Some OutStdout \<and> cm_stderr c \<noteq> Some OutPipe \<and>
     cm_env_vars c \<noteq> Some [] \<and> dict_wf (vars_of c) \<and> list_all is_var (vars_of c)"

definition wf_last :: "shell_node \<Rightarrow> bool" where
  "wf_last n \<longleftrightarrow>
     (case n of
        Command c \<Rightarrow> wf_command c \<and> cm_stdout c \<noteq> Some OutPipe
      | Chdir d \<Rightarrow> d \<noteq> Some ''&&''
      | _ \<Rightarrow> False)"

definition wf_step :: "shell_node \<Rightarrow> shell_node \<Rightarrow> bool" where
  "wf_step n operator \<longleftrightarrow>
     (case n of
        Command c \<Rightarrow> wf_command c \<and>
          (if cm_stdout c = Some OutPipe then operator = Pipe else operator \<in> {And, Or})
      | Chdir d \<Rightarrow> d \<noteq> Some ''&&'' \<and> operator = And
      | _ \<Rightarrow> False)"

fun wf_prefix :: "shell_node list \<Rightarrow> bool" where
  "wf_prefix [] = True"
| "wf_prefix [n] = False"
| "wf_prefix (n # operator # p) = (wf_step n operator \<and> wf_prefix p)"

definition wf_pipeline :: "shell_node list \<Rightarrow> bool" where
  "wf_pipeline p \<longleftrightarrow> p \<noteq> [] \<and> wf_prefix (butlast p) \<and> wf_last (last p)"

lemma wf_prefix_snoc: "wf_prefix (p @ [n, operator]) \<longleftrightarrow> wf_prefix p \<and> wf_step n operator"
proof (induction p rule: wf_prefix.induct)
  case (2 m)
  have "\<not> wf_prefix [m, n, operator]" by simp
  then show ?case by simp
qed auto

text \<open>The state between two words.\<close>

definition parser_ok :: "parser \<Rightarrow> bool" where
  "parser_ok p \<longleftrightarrow>
     wf_prefix (pp_pipeline p) \<and>
     (case pp_state p of
        BEGIN \<Rightarrow> pp_current p = None \<and> dict_wf (pp_env p) \<and> list_all is_var (pp_env p)
      | CHDIR \<Rightarrow> (\<exists>d. pp_current p = Some (Chdir d) \<and> wf_last (Chdir d)) \<and> pp_env p = []
      | _ \<Rightarrow> (\<exists>c. pp_current p = Some (Command c) \<and> wf_last (Command c)) \<and> pp_env p = [])"

lemma match_env_var_is_var:
  assumes "match_env_var token = Some kv"
  shows "is_var kv"
proof -
  obtain n v where kv: "kv = (n, v)" and n: "n = takeWhile name_char token" "n \<noteq> []"
    and v: "v \<noteq> []" "list_all (\<lambda>c. \<not> py_space c) v"
    using assms unfolding match_env_var_def Let_def by (auto split: if_splits)
  have eq: "\<not> name_char (CHR ''='')" by (simp add: name_char_def py_digit_def)
  have "\<forall>c \<in> set n. name_char c" by (auto simp: n(1) dest: set_takeWhileD)
  then have tw: "takeWhile name_char (n @ CHR ''='' # v) = n" by (simp add: takeWhile_append eq)
  have "last v \<noteq> py_newline"
    using v by (auto simp: list_all_iff py_space_def py_newline_def)
  then show ?thesis
    using n(2) v by (simp add: kv is_var_def var_word_def match_env_var_def Let_def tw startswith_iff)
qed

lemma parse_begin_ok:
  assumes "parser_ok p" "pp_state p = BEGIN"
  shows "(\<exists>q. parse_begin p t = Inr q \<and> parser_ok q) \<or> parse_begin p t = Inl AssertionError"
proof (cases "match_env_var t")
  case None
  have dict: "dict_wf ([] :: (string, string) dict)" by (simp add: dict_wf_def)
  show ?thesis
    using assms None dict
    by (auto simp: parse_begin_def parser_ok_def wf_last_def wf_command_def new_command_def vars_of_def)
next
  case (Some kv)
  then have "is_var kv" by (rule match_env_var_is_var)
  moreover have "list_all is_var (dict_set (fst kv) (snd kv) (pp_env p))"
    using assms calculation set_dict_set [of "fst kv" "snd kv" "pp_env p"]
    by (auto simp: parser_ok_def list_all_iff)
  ultimately show ?thesis
    using assms Some by (auto simp: parse_begin_def parser_ok_def dict_wf_set split: prod.split)
qed

definition ok_or_assertion :: "parser pyres \<Rightarrow> bool" where
  "ok_or_assertion r \<longleftrightarrow> (case r of Inr q \<Rightarrow> parser_ok q | Inl e \<Rightarrow> e = AssertionError)"

lemma commands_wf:
  assumes "wf_last (Command c)"
  shows "wf_last (Command (c\<lparr>cm_stdin := Some f\<rparr>))"
    and "wf_last (Command (c\<lparr>cm_stdout := Some (OutFile f)\<rparr>))"
    and "wf_last (Command (c\<lparr>cm_stderr := Some (OutFile f)\<rparr>))"
    and "wf_last (Command (c\<lparr>cm_stderr := Some OutStdout\<rparr>))"
    and "t \<notin> shell_words \<Longrightarrow> wf_last (Command (c\<lparr>cm_argv := cm_argv c @ [t]\<rparr>))"
    and "wf_step (Command (c\<lparr>cm_stdout := Some OutPipe\<rparr>)) Pipe"
    and "wf_step (Command c) And" and "wf_step (Command c) Or"
  using assms by (auto simp: wf_last_def wf_step_def wf_command_def vars_of_def)

lemma end_command_ok:
  assumes "pp_current p = Some n" "wf_step n operator" "wf_prefix (pp_pipeline p)" "pp_env p = []"
  shows "ok_or_assertion (end_command operator p)"
  using assms
  by (simp add: ok_or_assertion_def end_command_def commit_command_def parser_ok_def wf_prefix_snoc dict_wf_def)

lemma parse_command_ok:
  assumes "parser_ok p" "pp_state p = COMMAND"
  shows "ok_or_assertion (parse_command p t)"
proof -
  from assms obtain c where c: "pp_current p = Some (Command c)" "wf_last (Command c)"
    and p: "wf_prefix (pp_pipeline p)" "pp_env p = []"
    by (auto simp: parser_ok_def)
  note wf = commands_wf [OF c(2)]
  have pipe: "ok_or_assertion (rbind (on_command p (set_stdout OutPipe)) (end_command Pipe))"
  proof (cases "cm_stdout c")
    case None
    then show ?thesis using c p wf(6)
      by (simp add: on_command_def set_stdout_def) (rule end_command_ok, simp_all)
  qed (simp add: on_command_def set_stdout_def c ok_or_assertion_def)
  have words: "ok_or_assertion (on_command p (\<lambda>c. Inr (c\<lparr>cm_argv := cm_argv c @ [t]\<rparr>)))" if "t \<notin> shell_words"
    using assms c p wf(5) [OF that] by (simp add: on_command_def ok_or_assertion_def parser_ok_def)
  have err: "ok_or_assertion (on_command p (set_stderr OutStdout))"
    using assms c p wf(4) by (simp add: on_command_def set_stderr_def ok_or_assertion_def parser_ok_def)
  have next_state: "ok_or_assertion (Inr (p\<lparr>pp_state := s\<rparr>))" if "s \<in> {STDOUT, STDERR, STDIN}" for s
    using that assms by (auto simp: ok_or_assertion_def parser_ok_def)
  have ops: "ok_or_assertion (end_command And p)" "ok_or_assertion (end_command Or p)"
    using end_command_ok [OF c(1) wf(7) p] end_command_ok [OF c(1) wf(8) p] by simp_all
  show ?thesis
    unfolding parse_command_def using pipe words err next_state ops by (auto simp: shell_words_def)
qed

lemma parse_token_ok:
  assumes "parser_ok p"
  shows "ok_or_assertion (parse_token p t)"
proof (cases "pp_state p")
  case BEGIN
  then show ?thesis using parse_begin_ok [OF assms BEGIN, of t]
    by (auto simp: parse_token_def ok_or_assertion_def)
next
  case COMMAND
  then show ?thesis using parse_command_ok [OF assms COMMAND, of t] by (simp add: parse_token_def)
next
  case CHDIR
  with assms obtain d where d: "pp_current p = Some (Chdir d)" "wf_last (Chdir d)"
    and p: "wf_prefix (pp_pipeline p)" "pp_env p = []"
    by (auto simp: parser_ok_def)
  have "wf_step (Chdir d) And" using d(2) by (simp add: wf_last_def wf_step_def)
  from end_command_ok [OF d(1) this p] CHDIR d p show ?thesis
    by (auto simp: parse_token_def on_chdir_def ok_or_assertion_def parser_ok_def wf_last_def)
next
  case STDERR
  then show ?thesis using assms
    by (auto simp: parse_token_def on_command_def set_stderr_def ok_or_assertion_def parser_ok_def commands_wf)
next
  case STDOUT
  then show ?thesis using assms
    by (auto simp: parse_token_def on_command_def set_stdout_def ok_or_assertion_def parser_ok_def commands_wf)
next
  case STDIN
  then show ?thesis using assms
    by (auto simp: parse_token_def on_command_def set_stdin_def ok_or_assertion_def parser_ok_def commands_wf)
qed

lemma parse_tokens_ok: "parser_ok p \<Longrightarrow> ok_or_assertion (rfold parse_token p ts)"
proof (induction ts arbitrary: p)
  case Nil
  then show ?case by (simp add: ok_or_assertion_def)
next
  case (Cons t ts)
  from parse_token_ok [OF Cons.prems, of t] show ?case
    by (cases "parse_token p t") (auto simp: ok_or_assertion_def intro: Cons.IH [unfolded ok_or_assertion_def])
qed

lemma start_parser_ok: "parser_ok start_parser"
  by (simp add: parser_ok_def start_parser_def dict_wf_def)

text \<open>At the end of the words: a current node is the last of a pipeline in normal form.\<close>

lemma parser_ok_last:
  "parser_ok p \<Longrightarrow> pp_current p = Some n \<Longrightarrow> wf_last n"
  by (cases "pp_state p") (auto simp: parser_ok_def)

lemma parse_tokens_result:
  "case parse_tokens ts of Inr p \<Rightarrow> wf_pipeline p | Inl e \<Rightarrow> e = AssertionError"
proof (cases "rfold parse_token start_parser ts")
  case (Inl e)
  then show ?thesis using parse_tokens_ok [OF start_parser_ok, of ts] by (simp add: parse_tokens_def ok_or_assertion_def)
next
  case (Inr p)
  then have "parser_ok p" using parse_tokens_ok [OF start_parser_ok, of ts] by (simp add: ok_or_assertion_def)
  then show ?thesis using Inr parser_ok_last [of p]
    by (auto simp: parse_tokens_def commit_command_def wf_pipeline_def parser_ok_def split: option.split)
qed

section \<open>Parsing what was printed\<close>

lemma dict_set_new: "k \<notin> fst ` set d \<Longrightarrow> dict_set k v d = d @ [(k, v)]"
  by (induction d) auto

lemma parse_vars:
  assumes "list_all is_var vs" "dict_wf (d @ vs)"
  shows "rfold parse_token \<lparr>pp_state = BEGIN, pp_current = None, pp_pipeline = pl, pp_env = d\<rparr> (map var_word vs) =
    Inr \<lparr>pp_state = BEGIN, pp_current = None, pp_pipeline = pl, pp_env = d @ vs\<rparr>"
  using assms
proof (induction vs arbitrary: d)
  case Nil
  then show ?case by simp
next
  case (Cons kv vs)
  obtain k v where kv: "kv = (k, v)" by (cases kv)
  have "k \<notin> fst ` set d" using Cons.prems(2) by (auto simp: dict_wf_def kv)
  then show ?case using Cons.prems Cons.IH [of "d @ [(k, v)]"]
    by (simp add: kv is_var_def parse_token_def parse_begin_def dict_set_new)
qed

lemma parse_name:
  assumes "match_env_var t = None" "t \<noteq> ''cd''"
  shows "parse_token \<lparr>pp_state = BEGIN, pp_current = None, pp_pipeline = pl, pp_env = vs\<rparr> t =
    Inr \<lparr>pp_state = COMMAND, pp_current = Some (Command ((new_command t)\<lparr>cm_env_vars := (if vs = [] then None else Some vs)\<rparr>)),
         pp_pipeline = pl, pp_env = []\<rparr>"
  using assms by (simp add: parse_token_def parse_begin_def)

lemma parse_args:
  assumes "list_all (\<lambda>w. w \<notin> shell_words) ws"
  shows "rfold parse_token \<lparr>pp_state = COMMAND, pp_current = Some (Command c), pp_pipeline = pl, pp_env = []\<rparr> ws =
    Inr \<lparr>pp_state = COMMAND, pp_current = Some (Command (c\<lparr>cm_argv := cm_argv c @ ws\<rparr>)), pp_pipeline = pl, pp_env = []\<rparr>"
  using assms
proof (induction ws arbitrary: c)
  case Nil
  then show ?case by simp
next
  case (Cons w ws)
  then have "parse_token \<lparr>pp_state = COMMAND, pp_current = Some (Command c), pp_pipeline = pl, pp_env = []\<rparr> w =
      Inr \<lparr>pp_state = COMMAND, pp_current = Some (Command (c\<lparr>cm_argv := cm_argv c @ [w]\<rparr>)), pp_pipeline = pl, pp_env = []\<rparr>"
    by (simp add: parse_token_def parse_command_def on_command_def shell_words_def)
  then show ?case using Cons by simp
qed

lemma parse_redirections:
  assumes "cm_stdout c \<noteq> Some OutStdout" "cm_stderr c \<noteq> Some OutPipe"
  shows "rfold parse_token \<lparr>pp_state = COMMAND,
        pp_current = Some (Command (c\<lparr>cm_stdin := None, cm_stdout := None, cm_stderr := None\<rparr>)), pp_pipeline = pl, pp_env = []\<rparr>
      (redirections c) =
    Inr \<lparr>pp_state = COMMAND, pp_current = Some (Command (c\<lparr>cm_stdout := (if cm_stdout c = Some OutPipe then None else cm_stdout c)\<rparr>)),
         pp_pipeline = pl, pp_env = []\<rparr>"
  using assms
  by (cases c)
    (auto simp: redirections_def parse_token_def parse_command_def on_command_def set_stdin_def set_stdout_def set_stderr_def
      split: option.splits out_target.splits)

definition unpiped :: "command \<Rightarrow> command" where
  "unpiped c = c\<lparr>cm_stdout := (if cm_stdout c = Some OutPipe then None else cm_stdout c)\<rparr>"

lemma parse_command_words:
  assumes "wf_command c"
  shows "rfold parse_token \<lparr>pp_state = BEGIN, pp_current = None, pp_pipeline = pl, pp_env = []\<rparr> (render_node (Command c)) =
    Inr \<lparr>pp_state = COMMAND, pp_current = Some (Command (unpiped c)), pp_pipeline = pl, pp_env = []\<rparr>"
proof -
  obtain ws where argv: "cm_argv c = cm_name c # ws" and ws: "list_all (\<lambda>w. w \<notin> shell_words) ws"
    using assms by (cases "cm_argv c") (auto simp: wf_command_def)
  let ?b = "(new_command (cm_name c))\<lparr>cm_env_vars := (if vars_of c = [] then None else Some (vars_of c))\<rparr>"
  have "?b\<lparr>cm_argv := cm_argv ?b @ ws\<rparr> = c\<lparr>cm_stdin := None, cm_stdout := None, cm_stderr := None\<rparr>"
    using assms argv by (cases c) (auto simp: new_command_def vars_of_def wf_command_def split: option.splits)
  then show ?thesis
    using assms parse_vars [of "vars_of c" "[]" pl] parse_name [of "cm_name c" pl "vars_of c"] parse_args [OF ws, of ?b pl]
      parse_redirections [of c pl]
    by (simp add: argv rfold_append wf_command_def unpiped_def)
qed

lemma parse_chdir_words:
  assumes "d \<noteq> Some ''&&''"
  shows "rfold parse_token \<lparr>pp_state = BEGIN, pp_current = None, pp_pipeline = pl, pp_env = []\<rparr> (render_node (Chdir d)) =
    Inr \<lparr>pp_state = CHDIR, pp_current = Some (Chdir d), pp_pipeline = pl, pp_env = []\<rparr>"
proof -
  have "match_env_var ''cd'' = None" by code_simp
  then show ?thesis using assms
    by (simp add: parse_token_def parse_begin_def on_chdir_def split: option.split)
qed

lemma parse_operator:
  assumes "wf_step n operator"
  shows "rfold parse_token \<lparr>pp_state = BEGIN, pp_current = None, pp_pipeline = pl, pp_env = []\<rparr> (render_node n @ render_node operator) =
    Inr \<lparr>pp_state = BEGIN, pp_current = None, pp_pipeline = pl @ [n, operator], pp_env = []\<rparr>"
proof (cases n)
  case (Command c)
  with assms have "wf_command c" by (simp add: wf_step_def)
  note parse_command_words [OF this, of pl]
  then show ?thesis using assms Command
    by (cases c)
      (auto simp: wf_step_def rfold_append unpiped_def parse_token_def parse_command_def on_command_def set_stdout_def
        end_command_def commit_command_def split: if_splits simp del: render_node.simps(1))
next
  case (Chdir d)
  with assms have "d \<noteq> Some ''&&''" by (simp add: wf_step_def)
  note parse_chdir_words [OF this, of pl]
  then show ?thesis using assms Chdir
    by (simp add: wf_step_def rfold_append parse_token_def end_command_def commit_command_def del: render_node.simps(2))
qed (use assms in \<open>simp_all add: wf_step_def\<close>)

lemma parse_prefix:
  "wf_prefix p \<Longrightarrow>
   rfold parse_token \<lparr>pp_state = BEGIN, pp_current = None, pp_pipeline = pl, pp_env = []\<rparr> (render p) =
     Inr \<lparr>pp_state = BEGIN, pp_current = None, pp_pipeline = pl @ p, pp_env = []\<rparr>"
proof (induction p arbitrary: pl rule: wf_prefix.induct)
  case 1
  then show ?case by (simp add: render_def)
next
  case (3 n operator p)
  have "render (n # operator # p) = (render_node n @ render_node operator) @ render p" by (simp add: render_def)
  with 3 show ?case by (simp only: rfold_append [of _ _ _ "render p"]) (simp add: parse_operator)
qed simp

lemma parse_render: "wf_pipeline p \<Longrightarrow> parse_tokens (render p) = Inr p"
proof -
  assume p: "wf_pipeline p"
  then have whole: "butlast p @ [last p] = p" by (simp add: wf_pipeline_def)
  have "render (butlast p @ [last p]) = render (butlast p) @ render_node (last p)" by (simp add: render_def)
  then have split: "render p = render (butlast p) @ render_node (last p)" by (simp only: whole)
  note prefix = parse_prefix [of "butlast p" "[]"]
  show ?thesis
  proof (cases "last p")
    case (Command c)
    with p have "wf_command c" "unpiped c = c" by (auto simp: wf_pipeline_def wf_last_def unpiped_def)
    then show ?thesis using p prefix whole Command
      by (simp add: parse_tokens_def start_parser_def split rfold_append wf_pipeline_def parse_command_words commit_command_def
          del: render_node.simps)
  next
    case (Chdir d)
    with p have "d \<noteq> Some ''&&''" by (auto simp: wf_pipeline_def wf_last_def)
    then show ?thesis using p prefix whole Chdir
      by (simp add: parse_tokens_def start_parser_def split rfold_append wf_pipeline_def parse_chdir_words commit_command_def
          del: render_node.simps)
  qed (use p in \<open>simp_all add: wf_pipeline_def wf_last_def\<close>)
qed

text \<open>
  C18: parsing the words of a line ends with an \<open>AssertionError\<close> or with a pipeline in normal form, each
  pipeline in normal form comes from some line, and printing it and parsing the words gives it back.
\<close>

theorem parse_normal_form:
  "(case parse (Words ts) of Inr p \<Rightarrow> wf_pipeline p \<and> parse (Words (render p)) = Inr p | Inl e \<Rightarrow> e = AssertionError) \<and>
   (wf_pipeline q \<longleftrightarrow> (\<exists>us. parse (Words us) = Inr q))"
proof
  show "case parse (Words ts) of Inr p \<Rightarrow> wf_pipeline p \<and> parse (Words (render p)) = Inr p | Inl e \<Rightarrow> e = AssertionError"
    using parse_tokens_result [of ts] by (auto simp: parse_def parse_render split: sum.splits)
  show "wf_pipeline q \<longleftrightarrow> (\<exists>us. parse (Words us) = Inr q)"
  proof
    show "wf_pipeline q \<Longrightarrow> \<exists>us. parse (Words us) = Inr q" by (auto simp: parse_def dest: parse_render)
    assume "\<exists>us. parse (Words us) = Inr q"
    then obtain us where "parse_tokens us = Inr q" by (auto simp: parse_def)
    with parse_tokens_result [of us] show "wf_pipeline q" by simp
  qed
qed

end
