(* ===== verification/ShellRun.thy ===== *)
theory ShellRun
  imports ShellCmd
begin

text \<open>
  \<open>Pipeline.run\<close> of \<open>waf-tools/shellcmd.py\<close>: it opens the files, starts the processes of a line and
  waits for them. Files and processes are those of an environment that may answer according to
  everything done before; the history of what \<open>run\<close> did is its state. The text printed in verbose mode
  is not modelled, the error it raises is.
\<close>

section \<open>Running\<close>

text \<open>
  What a process is connected to: a file that was opened, the null device, a new pipe, the read end of
  the pipe of an earlier process (by number), or its own standard output.
\<close>

datatype stream = Opened string | DevNull | NewPipe | ReadEnd nat | SameAsStdout

record popen_args =
  pa_argv :: "string list"
  pa_stdin :: "stream option"
  pa_stdout :: "stream option"
  pa_stderr :: "stream option"
  pa_env :: "(string, string) dict option"
  pa_cwd :: "string option"

text \<open>What \<open>run\<close> does outside itself. A process is known by its place among those started.\<close>

datatype shell_event = Open string bool | Start popen_args | Wait nat | Close stream

type_synonym history = "shell_event list"

definition started :: "history \<Rightarrow> popen_args list" where
  "started h = concat (map (\<lambda>e. case e of Start a \<Rightarrow> [a] | _ \<Rightarrow> []) h)"

text \<open>The environment: each answer may depend on the whole history.\<close>

record os_env =
  os_open_ok :: "history \<Rightarrow> string \<Rightarrow> bool \<Rightarrow> bool"
  os_start_ok :: "history \<Rightarrow> popen_args \<Rightarrow> bool"
  os_status :: "history \<Rightarrow> nat \<Rightarrow> int"
  os_environ :: "(string, string) dict"

definition open_file :: "os_env \<Rightarrow> string \<Rightarrow> bool \<Rightarrow> (history, stream) act" where
  "open_file E f writing h =
     (if os_open_ok E h f writing then (Inr (Opened f), h @ [Open f writing]) else (Inl OSError, h))"

definition open_out_file :: "os_env \<Rightarrow> string \<Rightarrow> (history, stream) act" where
  "open_out_file E f = (if f \<in> {''NUL:'', ''/dev/null''} then aret DevNull else open_file E f True)"

definition popen :: "os_env \<Rightarrow> popen_args \<Rightarrow> (history, nat) act" where
  "popen E a h = (if os_start_ok E h a then (Inr (length (started h)), h @ [Start a]) else (Inl OSError, h))"

definition wait_for :: "os_env \<Rightarrow> nat \<Rightarrow> (history, int) act" where
  "wait_for E i h = (Inr (os_status E h i), h @ [Wait i])"

text \<open>A process and the arguments it was started with; its attribute \<open>stdout\<close>.\<close>

type_synonym proc = "nat \<times> popen_args"

definition proc_stdout :: "proc \<Rightarrow> stream option" where
  "proc_stdout p = (if pa_stdout (snd p) = Some NewPipe then Some (ReadEnd (fst p)) else None)"

text \<open>The loop over the return values ends at the first that is not zero.\<close>

fun first_failure :: "int list \<Rightarrow> int list \<Rightarrow> int" where
  "first_failure retvals [] = 0"
| "first_failure retvals (r # rs) = (if r \<noteq> 0 then last retvals else first_failure retvals rs)"

definition exec_piped_commands :: "os_env \<Rightarrow> proc list \<Rightarrow> (history, int) act" where
  "exec_piped_commands E commands =
     abind (amapM (\<lambda>p. wait_for E (fst p)) commands) (\<lambda>retvals. aret (first_failure retvals retvals))"

definition close_all :: "stream list \<Rightarrow> (history, unit) act" where
  "close_all files = afor files (\<lambda>f. awhen (f \<noteq> DevNull) (amodify (\<lambda>h. h @ [Close f])))"

text \<open>The streams of a command, each with the files it adds to those to be closed.\<close>

datatype run_position = Begin | InPipe

definition stdin_of :: "os_env \<Rightarrow> run_position \<Rightarrow> proc list \<Rightarrow> command \<Rightarrow> (history, stream option \<times> stream list) act" where
  "stdin_of E pos piped c =
     (if pos = InPipe then (if piped = [] then araise IndexError else aret (proc_stdout (last piped), []))
      else (case cm_stdin c of
              Some f \<Rightarrow> abind (open_file E f False) (\<lambda>s. aret (Some s, [s]))
            | None \<Rightarrow> aret (None, [])))"

definition stdout_of :: "os_env \<Rightarrow> command \<Rightarrow> (history, stream option \<times> stream list) act" where
  "stdout_of E c =
     (case cm_stdout c of
        None \<Rightarrow> aret (None, [])
      | Some OutPipe \<Rightarrow> aret (Some NewPipe, [])
      | Some OutStdout \<Rightarrow> araise TypeError
      | Some (OutFile f) \<Rightarrow> abind (open_out_file E f) (\<lambda>s. aret (Some s, [s])))"

definition stderr_of :: "os_env \<Rightarrow> command \<Rightarrow> (history, stream option \<times> stream list) act" where
  "stderr_of E c =
     (case cm_stderr c of
        None \<Rightarrow> aret (None, [])
      | Some OutPipe \<Rightarrow> aret (Some NewPipe, [])
      | Some OutStdout \<Rightarrow> aret (Some SameAsStdout, [])
      | Some (OutFile f) \<Rightarrow> abind (open_out_file E f) (\<lambda>s. aret (Some s, [s])))"

definition env_of :: "os_env \<Rightarrow> command \<Rightarrow> (string, string) dict option" where
  "env_of E c =
     (case cm_env_vars c of
        None \<Rightarrow> None
      | Some vs \<Rightarrow> if vs = [] then None else Some (foldl (\<lambda>d (k, v). dict_set k v d) (os_environ E) vs))"

definition start_command ::
    "os_env \<Rightarrow> string \<Rightarrow> run_position \<Rightarrow> proc list \<Rightarrow> stream list \<Rightarrow> command \<Rightarrow> (history, proc list \<times> stream list) act" where
  "start_command E cwd pos piped files c =
     abind (stdin_of E pos piped c) (\<lambda>(i, fs1).
     abind (stdout_of E c) (\<lambda>(ou, fs2).
     abind (stderr_of E c) (\<lambda>(er, fs3).
       let a = \<lparr>pa_argv = cm_argv c, pa_stdin = i, pa_stdout = ou, pa_stderr = er, pa_env = env_of E c,
                pa_cwd = (if cwd = ''.'' then None else Some cwd)\<rparr> in
       abind (popen E a) (\<lambda>n. aret (piped @ [(n, a)], files @ fs1 @ fs2 @ fs3)))))"

definition finish_commands :: "os_env \<Rightarrow> proc list \<Rightarrow> stream list \<Rightarrow> (history, int) act" where
  "finish_commands E piped files =
     abind (exec_piped_commands E piped) (\<lambda>r. aseq (close_all files) (aret r))"

text \<open>
  The loop of \<open>run\<close>. In verbose mode the messages about \<open>&&\<close> and \<open>||\<close> read the variable \<open>retval\<close>, which
  only the last command assigns.
\<close>

fun run_nodes ::
    "os_env \<Rightarrow> bool \<Rightarrow> string \<Rightarrow> run_position \<Rightarrow> proc list \<Rightarrow> stream list \<Rightarrow> shell_node list \<Rightarrow> (history, int option) act" where
  "run_nodes E verbose cwd pos piped files [] = aret None"
| "run_nodes E verbose cwd pos piped files (Chdir d # nodes) =
     (case nodes of
        [] \<Rightarrow> araise IndexError
      | next_op # nodes' \<Rightarrow>
          if next_op \<noteq> And then araise AssertionError
          else (case d of
              None \<Rightarrow> araise AttributeError
            | Some p \<Rightarrow> run_nodes E verbose (path_join cwd p) pos piped files nodes'))"
| "run_nodes E verbose cwd pos piped files (Command c # nodes) =
     abind (start_command E cwd pos piped files c) (\<lambda>(piped, files).
       (case nodes of
          [] \<Rightarrow> abind (finish_commands E piped files) (\<lambda>r. aret (Some r))
        | Pipe # nodes' \<Rightarrow> run_nodes E verbose cwd InPipe piped files nodes'
        | Or # nodes' \<Rightarrow>
            abind (finish_commands E piped files) (\<lambda>r.
              if verbose then araise UnboundLocalError
              else if r = 0 then aret (Some r)
              else run_nodes E verbose cwd Begin [] [] nodes')
        | And # nodes' \<Rightarrow>
            abind (finish_commands E piped files) (\<lambda>r.
              if verbose then araise UnboundLocalError
              else if r \<noteq> 0 then aret (Some r)
              else run_nodes E verbose cwd Begin [] [] nodes')
        | _ # nodes' \<Rightarrow> run_nodes E verbose cwd pos piped files nodes'))"
| "run_nodes E verbose cwd pos piped files (_ # nodes) = araise AssertionError"

definition run_pipeline :: "os_env \<Rightarrow> bool \<Rightarrow> shell_node list \<Rightarrow> (history, int option) act" where
  "run_pipeline E verbose p = run_nodes E verbose ''.'' Begin [] [] p"

section \<open>What running does\<close>



text \<open>Processes that succeed or fail by their name.\<close>

definition sample_env :: os_env where
  "sample_env = \<lparr>os_open_ok = \<lambda>h f w. True, os_start_ok = \<lambda>h a. True,
     os_status = \<lambda>h i. (if pa_argv (started h ! i) = [''false''] then 1 else 0), os_environ = []\<rparr>"

section \<open>Files and processes are cleaned up\<close>

definition opened :: "history \<Rightarrow> stream list" where
  "opened h = concat (map (\<lambda>e. case e of Open f _ \<Rightarrow> [Opened f] | _ \<Rightarrow> []) h)"

definition closed :: "history \<Rightarrow> stream list" where
  "closed h = concat (map (\<lambda>e. case e of Close s \<Rightarrow> [s] | _ \<Rightarrow> []) h)"

definition waited :: "history \<Rightarrow> nat list" where
  "waited h = concat (map (\<lambda>e. case e of Wait i \<Rightarrow> [i] | _ \<Rightarrow> []) h)"

lemma history_append [simp]:
  "started (h @ t) = started h @ started t" "opened (h @ t) = opened h @ opened t"
  "closed (h @ t) = closed h @ closed t" "waited (h @ t) = waited h @ waited t"
  by (simp_all add: started_def opened_def closed_def waited_def)

lemma history_simps [simp]:
  "started [] = []" "opened [] = []" "closed [] = []" "waited [] = []"
  "started (Start a # h) = a # started h" "started (Open f w # h) = started h" "started (Wait i # h) = started h"
  "started (Close s # h) = started h" "opened (Start a # h) = opened h" "opened (Open f w # h) = Opened f # opened h"
  "opened (Wait i # h) = opened h" "opened (Close s # h) = opened h" "closed (Start a # h) = closed h"
  "closed (Open f w # h) = closed h" "closed (Wait i # h) = closed h" "closed (Close s # h) = s # closed h"
  "waited (Start a # h) = waited h" "waited (Open f w # h) = waited h" "waited (Wait i # h) = i # waited h"
  "waited (Close s # h) = waited h"
  by (simp_all add: started_def opened_def closed_def waited_def)

text \<open>A stretch of history that only opens files, those among the streams that are not the null device.\<close>

definition opens :: "history \<Rightarrow> stream list \<Rightarrow> bool" where
  "opens t fs \<longleftrightarrow> opened t = filter (\<lambda>f. f \<noteq> DevNull) fs \<and> started t = [] \<and> closed t = [] \<and> waited t = []"

lemma stdin_opens: "stdin_of E pos piped c h = (Inr (i, fs), h') \<Longrightarrow> \<exists>t. h' = h @ t \<and> opens t fs"
  by (auto simp: stdin_of_def opens_def open_file_def aret_apply araise_apply elim!: abind_cases split: if_splits option.splits)

lemma open_out_opens: "open_out_file E f h = (Inr s, h') \<Longrightarrow> \<exists>t. h' = h @ t \<and> opens t [s]"
  by (auto simp: open_out_file_def opens_def open_file_def aret_apply split: if_splits)

lemma stdout_opens: "stdout_of E c h = (Inr (i, fs), h') \<Longrightarrow> \<exists>t. h' = h @ t \<and> opens t fs"
  using open_out_opens
  by (fastforce simp: stdout_of_def opens_def aret_apply araise_apply elim!: abind_cases split: option.splits out_target.splits)

lemma stderr_opens: "stderr_of E c h = (Inr (i, fs), h') \<Longrightarrow> \<exists>t. h' = h @ t \<and> opens t fs"
  using open_out_opens
  by (fastforce simp: stderr_of_def opens_def aret_apply araise_apply elim!: abind_cases split: option.splits out_target.splits)

text \<open>What running leaves to do, and what it has done when it returns a status.\<close>

definition cleaned :: "history \<Rightarrow> proc list \<Rightarrow> stream list \<Rightarrow> history \<Rightarrow> bool" where
  "cleaned h piped files h' \<longleftrightarrow>
     (\<exists>t. h' = h @ t \<and> closed t = filter (\<lambda>f. f \<noteq> DevNull) files @ opened t \<and>
          waited t = map fst piped @ [length (started h)..<length (started h')])"

lemma start_command_effect:
  assumes "start_command E cwd pos piped files c h = (Inr (p, f), h')"
  shows "\<exists>t a fs. h' = h @ t \<and> p = piped @ [(length (started h), a)] \<and> f = files @ fs \<and>
    opened t = filter (\<lambda>f. f \<noteq> DevNull) fs \<and> closed t = [] \<and> waited t = [] \<and> started t = [a]"
proof -
  from assms obtain i fs1 h1 ou fs2 h2 er fs3 h3 n a where
    s: "stdin_of E pos piped c h = (Inr (i, fs1), h1)" "stdout_of E c h1 = (Inr (ou, fs2), h2)"
    "stderr_of E c h2 = (Inr (er, fs3), h3)" "popen E a h3 = (Inr n, h')"
    and r: "p = piped @ [(n, a)]" "f = files @ fs1 @ fs2 @ fs3"
    by (auto simp: start_command_def Let_def aret_apply elim!: abind_cases)
  from stdin_opens [OF s(1)] stdout_opens [OF s(2)] stderr_opens [OF s(3)]
  obtain t1 t2 t3 where t: "h1 = h @ t1" "h2 = h1 @ t2" "h3 = h2 @ t3" "opens t1 fs1" "opens t2 fs2" "opens t3 fs3"
    by blast
  from s(4) have "n = length (started h3)" "h' = h3 @ [Start a]" by (auto simp: popen_def split: if_splits)
  with t r show ?thesis
    by (intro exI [of _ "t1 @ t2 @ t3 @ [Start a]"] exI [of _ a] exI [of _ "fs1 @ fs2 @ fs3"]) (simp add: opens_def)
qed

lemma close_all_effect: "close_all files h = (Inr (), h @ map Close (filter (\<lambda>f. f \<noteq> DevNull) files))"
  by (induction files arbitrary: h) (simp_all add: close_all_def aret_apply act_step amodify_apply)

lemma wait_all_effect: "\<exists>rs. amapM (\<lambda>p. wait_for E (fst p)) ps h = (Inr rs, h @ map (\<lambda>p. Wait (fst p)) ps)"
proof (induction ps arbitrary: h)
  case Nil
  then show ?case by (simp add: aret_apply)
next
  case (Cons p ps)
  obtain rs where "amapM (\<lambda>p. wait_for E (fst p)) ps (h @ [Wait (fst p)]) = (Inr rs, (h @ [Wait (fst p)]) @ map (\<lambda>p. Wait (fst p)) ps)"
    using Cons.IH by blast
  moreover have "wait_for E (fst p) h = (Inr (os_status E h (fst p)), h @ [Wait (fst p)])" by (simp add: wait_for_def)
  ultimately show ?case by (simp add: act_step aret_apply)
qed

lemma finish_effect:
  assumes "finish_commands E piped files h = (r, h')"
  shows "h' = h @ map (\<lambda>p. Wait (fst p)) piped @ map Close (filter (\<lambda>f. f \<noteq> DevNull) files)"
proof -
  obtain rs where "amapM (\<lambda>p. wait_for E (fst p)) piped h = (Inr rs, h @ map (\<lambda>p. Wait (fst p)) piped)"
    using wait_all_effect by blast
  then show ?thesis using assms
    by (auto simp: finish_commands_def exec_piped_commands_def act_step aret_apply close_all_effect)
qed

lemma waits_only [simp]:
  "started (map (\<lambda>p. Wait (fst p)) ps) = []" "opened (map (\<lambda>p. Wait (fst p)) ps) = []"
  "closed (map (\<lambda>p. Wait (fst p)) ps) = []" "waited (map (\<lambda>p. Wait (fst p)) ps) = map fst ps"
  by (induction ps) simp_all

lemma closes_only [simp]:
  "started (map Close ss) = []" "opened (map Close ss) = []" "closed (map Close ss) = ss" "waited (map Close ss) = []"
  by (induction ss) simp_all

text \<open>Finishing after a command, alone or with the groups after it.\<close>

lemma cleaned_finish:
  assumes "start_command E cwd pos piped files c h = (Inr (p, f), h1)" and "finish_commands E p f h1 = (r, h2)"
  shows "cleaned h piped files h2"
    and "cleaned h2 [] [] h3 \<Longrightarrow> cleaned h piped files h3"
proof -
  obtain t a fs where t: "h1 = h @ t" "p = piped @ [(length (started h), a)]" "f = files @ fs"
    "opened t = filter (\<lambda>f. f \<noteq> DevNull) fs" "closed t = []" "waited t = []" "started t = [a]"
    using start_command_effect [OF assms(1)] by blast
  note h2 = finish_effect [OF assms(2)]
  show "cleaned h piped files h2"
    unfolding cleaned_def by (rule exI [of _ "drop (length h) h2"]) (simp add: h2 t)
  assume "cleaned h2 [] [] h3"
  then obtain u where u: "h3 = h2 @ u" "closed u = opened u" "waited u = [length (started h2)..<length (started h3)]"
    by (auto simp: cleaned_def)
  then show "cleaned h piped files h3"
    unfolding cleaned_def
    by (intro exI [of _ "drop (length h) h3"]) (simp add: h2 t upt_conv_Cons del: upt_Suc)
qed

lemma cleaned_continue:
  assumes "start_command E cwd pos piped files c h = (Inr (p, f), h1)" and "cleaned h1 p f h2"
  shows "cleaned h piped files h2"
proof -
  obtain t a fs where t: "h1 = h @ t" "p = piped @ [(length (started h), a)]" "f = files @ fs"
    "opened t = filter (\<lambda>f. f \<noteq> DevNull) fs" "closed t = []" "waited t = []" "started t = [a]"
    using start_command_effect [OF assms(1)] by blast
  from assms(2) obtain u where u: "h2 = h1 @ u" "closed u = filter (\<lambda>f. f \<noteq> DevNull) f @ opened u"
    "waited u = map fst p @ [length (started h1)..<length (started h2)]"
    by (auto simp: cleaned_def)
  then show ?thesis
    unfolding cleaned_def by (intro exI [of _ "t @ u"]) (simp add: t upt_conv_Cons del: upt_Suc)
qed

lemma run_nodes_cleaned:
  "run_nodes E v cwd pos piped files nodes h = (Inr (Some r), h') \<Longrightarrow> cleaned h piped files h'"
proof (induction E v cwd pos piped files nodes arbitrary: h rule: run_nodes.induct)
  case (1 E v cwd pos piped files)
  then show ?case by (simp add: aret_apply)
next
  case (2 E v cwd pos piped files d nodes)
  then show ?case by (auto simp: araise_apply split: list.splits if_splits option.splits)
next
  case (3 E v cwd pos piped files c nodes)
  obtain p f h1 where s: "start_command E cwd pos piped files c h = (Inr (p, f), h1)"
    and "(case nodes of
          [] \<Rightarrow> abind (finish_commands E p f) (\<lambda>r. aret (Some r))
        | Pipe # nodes' \<Rightarrow> run_nodes E v cwd InPipe p f nodes'
        | Or # nodes' \<Rightarrow> abind (finish_commands E p f) (\<lambda>r. if v then araise UnboundLocalError
              else if r = 0 then aret (Some r) else run_nodes E v cwd Begin [] [] nodes')
        | And # nodes' \<Rightarrow> abind (finish_commands E p f) (\<lambda>r. if v then araise UnboundLocalError
              else if r \<noteq> 0 then aret (Some r) else run_nodes E v cwd Begin [] [] nodes')
        | _ # nodes' \<Rightarrow> run_nodes E v cwd pos p f nodes') h1 = (Inr (Some r), h')"
    using 3(6) unfolding run_nodes.simps by (auto elim!: abind_cases)
  note run = this(2)
  show ?case
  proof (cases nodes)
    case Nil
    with run show ?thesis by (auto simp: aret_apply intro: cleaned_finish(1) [OF s] elim!: abind_cases)
  next
    case (Cons n ns)
    show ?thesis
    proof (cases n)
      case Pipe
      with run Cons have "cleaned h1 p f h'" using 3(3) by simp
      then show ?thesis by (rule cleaned_continue [OF s])
    next
      case And
      with run Cons obtain q h2 where q: "finish_commands E p f h1 = (Inr q, h2)"
        and "(if v then araise UnboundLocalError else if q \<noteq> 0 then aret (Some q) else run_nodes E v cwd Begin [] [] ns) h2 =
          (Inr (Some r), h')"
        by (auto elim!: abind_cases)
      then have "h' = h2 \<or> cleaned h2 [] [] h'" using 3(4) Cons And by (auto simp: aret_apply araise_apply split: if_splits)
      then show ?thesis using cleaned_finish [OF s q] by auto
    next
      case Or
      with run Cons obtain q h2 where q: "finish_commands E p f h1 = (Inr q, h2)"
        and "(if v then araise UnboundLocalError else if q = 0 then aret (Some q) else run_nodes E v cwd Begin [] [] ns) h2 =
          (Inr (Some r), h')"
        by (auto elim!: abind_cases)
      then have "h' = h2 \<or> cleaned h2 [] [] h'" using 3(5) Cons Or by (auto simp: aret_apply araise_apply split: if_splits)
      then show ?thesis using cleaned_finish [OF s q] by auto
    next
      case (Command c')
      with run Cons have "cleaned h1 p f h'" using 3(1) by simp
      then show ?thesis by (rule cleaned_continue [OF s])
    next
      case (Chdir d)
      with run Cons have "cleaned h1 p f h'" using 3(2) by simp
      then show ?thesis by (rule cleaned_continue [OF s])
    qed
  qed
qed (simp_all add: araise_apply)

text \<open>
  C12: when \<open>run\<close> returns a status, it has closed the files it opened, in order and each once, and has
  waited once for each process it started, in order; the null device is never closed.
\<close>

theorem run_cleans_up:
  assumes "run_pipeline E verbose p h = (Inr (Some r), h')"
  shows "\<exists>t. h' = h @ t \<and> closed t = opened t \<and> waited t = [length (started h)..<length (started h')]"
  using run_nodes_cleaned [OF assms [unfolded run_pipeline_def]] by (simp add: cleaned_def)

theorem run_cleans_up_witness:
  "\<exists>p h'. parse (Line ''cat < in 2> /dev/null | sort > out && ls'') = Inr p \<and>
     run_pipeline sample_env False p [] = (Inr (Some 0), h') \<and>
     closed h' = [Opened ''in'', Opened ''out''] \<and> waited h' = [0, 1, 2]"
proof -
  let ?p = "parse (Line ''cat < in 2> /dev/null | sort > out && ls'')"
  have "(case ?p of Inl e \<Rightarrow> False | Inr p \<Rightarrow>
      (case run_pipeline sample_env False p [] of (x, h') \<Rightarrow>
         x = Inr (Some 0) \<and> opened h' = [Opened ''in'', Opened ''out''] \<and> length (started h') = 3))"
    by code_simp
  then obtain p h' where p: "?p = Inr p" and r: "run_pipeline sample_env False p [] = (Inr (Some 0), h')"
    and o1: "opened h' = [Opened ''in'', Opened ''out'']" and n: "length (started h') = 3"
    by (auto split: sum.splits prod.splits)
  have "closed h' = opened h' \<and> waited h' = [0..<3]" using run_cleans_up [OF r] n by auto
  moreover have "[0..<3] = [0, 1, 2 :: nat]" by code_simp
  ultimately show ?thesis using p r o1 by auto
qed

section \<open>A line as a shell reads it\<close>

text \<open>
  The reference: a line is a list of items joined by \<open>&&\<close> and \<open>||\<close>, which bind equally and are read from
  the left. An item changes the directory or is a pipeline of commands, and a command has assignments,
  words and redirections: its output goes into the pipe when another command follows, and its errors to
  a file or to where its output goes.
\<close>

datatype shell_err = ErrFile string | ErrToOutput

record shell_command =
  sh_vars :: "(string, string) dict"
  sh_argv :: "string list"
  sh_in :: "string option"
  sh_out :: "string option"
  sh_err :: "shell_err option"

datatype shell_item = Cd string | Commands "shell_command list"

type_synonym shell_line = "shell_item \<times> (shell_node \<times> shell_item) list"

definition null_device :: "string \<Rightarrow> bool" where
  "null_device f \<longleftrightarrow> f \<in> {''NUL:'', ''/dev/null''}"

definition out_stream :: "string \<Rightarrow> stream" where
  "out_stream f = (if null_device f then DevNull else Opened f)"

definition out_opens :: "string \<Rightarrow> history" where
  "out_opens f = (if null_device f then [] else [Open f True])"

text \<open>The files of a command, opened in the order input, output, errors.\<close>

definition sh_opens :: "shell_command \<Rightarrow> history" where
  "sh_opens c =
     (case sh_in c of None \<Rightarrow> [] | Some f \<Rightarrow> [Open f False]) @
     (case sh_out c of None \<Rightarrow> [] | Some f \<Rightarrow> out_opens f) @
     (case sh_err c of Some (ErrFile f) \<Rightarrow> out_opens f | _ \<Rightarrow> [])"

text \<open>\<open>before\<close>: the process before it in the pipeline; \<open>pipes\<close>: whether one follows.\<close>

definition sh_process :: "os_env \<Rightarrow> string \<Rightarrow> nat option \<Rightarrow> bool \<Rightarrow> shell_command \<Rightarrow> popen_args" where
  "sh_process E dir before pipes c =
     \<lparr>pa_argv = sh_argv c,
      pa_stdin = (case before of Some n \<Rightarrow> Some (ReadEnd n) | None \<Rightarrow> map_option Opened (sh_in c)),
      pa_stdout = (if pipes then Some NewPipe else map_option out_stream (sh_out c)),
      pa_stderr = (case sh_err c of None \<Rightarrow> None | Some ErrToOutput \<Rightarrow> Some SameAsStdout | Some (ErrFile f) \<Rightarrow> Some (out_stream f)),
      pa_env = (if sh_vars c = [] then None else Some (foldl (\<lambda>d (k, v). dict_set k v d) (os_environ E) (sh_vars c))),
      pa_cwd = (if dir = ''.'' then None else Some dir)\<rparr>"

fun sh_pipeline :: "os_env \<Rightarrow> string \<Rightarrow> nat option \<Rightarrow> shell_command list \<Rightarrow> history \<Rightarrow> history" where
  "sh_pipeline E dir before [] h = h"
| "sh_pipeline E dir before (c # cs) h =
     sh_pipeline E dir (Some (length (started h))) cs (h @ sh_opens c @ [Start (sh_process E dir before (cs \<noteq> []) c)])"

text \<open>
  What an item does: its status, the directory after it, and the history. A pipeline waits for all its
  processes and then closes its files; its status is that of the last process.
\<close>

fun run_item :: "os_env \<Rightarrow> shell_item \<Rightarrow> string \<times> history \<Rightarrow> int \<times> string \<times> history" where
  "run_item E (Cd d) (dir, h) = (0, path_join dir d, h)"
| "run_item E (Commands cs) (dir, h) =
     (let h' = sh_pipeline E dir None cs h; ps = [length (started h)..<length (started h')] in
      (os_status E (h' @ map Wait (butlast ps)) (last ps), dir,
       h' @ map Wait ps @ map Close (opened (drop (length h) h'))))"

definition sh_next :: "os_env \<Rightarrow> int \<times> string \<times> history \<Rightarrow> shell_node \<times> shell_item \<Rightarrow> int \<times> string \<times> history" where
  "sh_next E st x = (if (fst st = 0) = (fst x = And) then run_item E (snd x) (snd st) else st)"

definition shell_run :: "os_env \<Rightarrow> shell_line \<Rightarrow> history \<Rightarrow> int \<times> string \<times> history" where
  "shell_run E l h = foldl (sh_next E) (run_item E (fst l) (''.'', h)) (snd l)"

text \<open>The nodes that stand for a line.\<close>

definition code_command :: "bool \<Rightarrow> shell_command \<Rightarrow> command" where
  "code_command pipes c =
     \<lparr>cm_name = hd (sh_argv c), cm_argv = sh_argv c, cm_stdin = sh_in c,
      cm_stdout = (if pipes then Some OutPipe else map_option OutFile (sh_out c)),
      cm_stderr = map_option (\<lambda>e. case e of ErrFile f \<Rightarrow> OutFile f | ErrToOutput \<Rightarrow> OutStdout) (sh_err c),
      cm_env_vars = (if sh_vars c = [] then None else Some (sh_vars c))\<rparr>"

fun pipe_nodes :: "shell_command list \<Rightarrow> shell_node list" where
  "pipe_nodes [] = []"
| "pipe_nodes [c] = [Command (code_command False c)]"
| "pipe_nodes (c # cs) = Command (code_command True c) # Pipe # pipe_nodes cs"

fun item_nodes :: "shell_item \<Rightarrow> shell_node list" where
  "item_nodes (Cd d) = [Chdir (Some d)]"
| "item_nodes (Commands cs) = pipe_nodes cs"

definition rest_nodes :: "(shell_node \<times> shell_item) list \<Rightarrow> shell_node list" where
  "rest_nodes xs = concat (map (\<lambda>(operator, it). operator # item_nodes it) xs)"

definition line_nodes :: "shell_line \<Rightarrow> shell_node list" where
  "line_nodes l = item_nodes (fst l) @ rest_nodes (snd l)"

lemma rest_nodes_simps [simp]: "rest_nodes [] = []" "rest_nodes ((operator, it) # xs) = operator # item_nodes it @ rest_nodes xs"
  by (simp_all add: rest_nodes_def)











lemma opened_out_opens [simp]: "opened (out_opens f) = filter (\<lambda>s. s \<noteq> DevNull) [out_stream f]" "started (out_opens f) = []"
  by (simp_all add: out_opens_def out_stream_def)













definition words :: "string list \<Rightarrow> shell_command" where
  "words ws = \<lparr>sh_vars = [], sh_argv = ws, sh_in = None, sh_out = None, sh_err = None\<rparr>"



text \<open>
  With both operators the two differ: \<open>false && b || c\<close> does not run \<open>c\<close>. And the order of redirections is
  lost: the errors of \<open>a 2>&1 > f\<close> go to the file as well, where a shell leaves them on the terminal.
\<close>

lemma mixed_operators:
  "let l = (Commands [words [''false'']], [(And, Commands [words [''b'']]), (Or, Commands [words [''c'']])]) in
   fst (run_pipeline sample_env False (line_nodes l) []) = Inr (Some 1) \<and>
   map pa_argv (started (snd (run_pipeline sample_env False (line_nodes l) []))) = [[''false'']] \<and>
   fst (shell_run sample_env l []) = 0 \<and>
   map pa_argv (started (snd (snd (shell_run sample_env l [])))) = [[''false''], [''c'']]"
  by code_simp

lemma redirection_order: "parse (Line ''a 2>&1 > f'') = parse (Line ''a > f 2>&1'')"
  by code_simp

text \<open>In verbose mode no line with an operator after a pipeline returns a status.\<close>

definition raises :: "(history, int option) act \<Rightarrow> bool" where
  "raises m \<longleftrightarrow> (\<forall>h. isl (fst (m h)))"

lemma raises_bind: "(\<And>x. raises (f x)) \<Longrightarrow> raises (abind m f)"
  by (auto simp: raises_def abind_def split: sum.split prod.split)

lemma verbose_operator_raises:
  assumes "cs \<noteq> []" "operator \<in> {And, Or}"
  shows "raises (run_nodes E True cwd pos piped files (pipe_nodes cs @ operator # nodes))"
  using assms(1)
proof (induction cs arbitrary: pos piped files rule: pipe_nodes.induct)
  case (2 c)
  show ?case using assms(2)
    by (auto simp: case_prod_unfold araise_apply raises_def [of "araise _"] intro!: raises_bind)
next
  case (3 c c' cs)
  then show ?case by (auto simp: case_prod_unfold intro!: raises_bind)
qed simp

section \<open>Errors of a run\<close>

definition run_errors :: "bool \<Rightarrow> shell_node list \<Rightarrow> pyerr set" where
  "run_errors verbose p =
     {OSError} \<union> (if \<exists>d. last p = Chdir d then {IndexError} else {}) \<union>
     (if Chdir None \<in> set p then {AttributeError} else {}) \<union>
     (if verbose \<and> (And \<in> set p \<or> Or \<in> set p) then {UnboundLocalError} else {})"

lemma hoare_open: "hoare (\<lambda>_. True) (open_file E f w) (\<lambda>_ _. True) (\<lambda>e _. e = OSError)"
  by (rule hoareI) (auto simp: open_file_def split: if_splits)

lemma hoare_open_out: "hoare (\<lambda>_. True) (open_out_file E f) (\<lambda>_ _. True) (\<lambda>e _. e = OSError)"
  by (auto simp: open_out_file_def intro: hoare_ret hoare_open)

lemma hoare_start_command:
  assumes "cm_stdout c \<noteq> Some OutStdout" "pos = InPipe \<Longrightarrow> piped \<noteq> []"
  shows "hoare (\<lambda>_. True) (start_command E cwd pos piped files c) (\<lambda>r _. fst r \<noteq> []) (\<lambda>e _. e = OSError)"
proof -
  have i: "hoare (\<lambda>_. True) (stdin_of E pos piped c) (\<lambda>_ _. True) (\<lambda>e _. e = OSError)"
    using assms(2) by (auto simp: stdin_of_def intro!: hoare_ret hoare_bind [OF hoare_open] split: option.split)
  have o1: "hoare (\<lambda>_. True) (stdout_of E c) (\<lambda>_ _. True) (\<lambda>e _. e = OSError)"
    using assms(1) by (auto simp: stdout_of_def intro!: hoare_ret hoare_bind [OF hoare_open_out] split: option.split out_target.split)
  have e: "hoare (\<lambda>_. True) (stderr_of E c) (\<lambda>_ _. True) (\<lambda>e _. e = OSError)"
    by (auto simp: stderr_of_def intro!: hoare_ret hoare_bind [OF hoare_open_out] split: option.split out_target.split)
  have p: "hoare (\<lambda>_. True) (popen E a) (\<lambda>_ _. True) (\<lambda>e _. e = OSError)" for a
    by (rule hoareI) (auto simp: popen_def split: if_splits)
  show ?thesis
    unfolding start_command_def Let_def case_prod_unfold
    by (rule hoare_bind [OF i], rule hoare_bind [OF o1], rule hoare_bind [OF e], rule hoare_bind [OF p], rule hoare_ret) simp
qed

lemma hoare_finish: "hoare (\<lambda>_. True) (finish_commands E piped files) (\<lambda>_ _. True) (\<lambda>_ _. False)"
proof (rule hoareI)
  fix h e t
  assume "finish_commands E piped files h = (Inl e, t)"
  moreover obtain rs where "amapM (\<lambda>p. wait_for E (fst p)) piped h = (Inr rs, h @ map (\<lambda>p. Wait (fst p)) piped)"
    using wait_all_effect by blast
  ultimately show False
    by (simp add: finish_commands_def exec_piped_commands_def act_step aret_apply close_all_effect)
qed simp

text \<open>What running needs of a pipeline: weaker than normal form, and kept when words are replaced.\<close>

fun runs_alone :: "shell_node \<Rightarrow> bool" where
  "runs_alone (Command c) = (cm_stdout c \<noteq> Some OutStdout)"
| "runs_alone (Chdir d) = True"
| "runs_alone _ = False"

fun runnable :: "shell_node list \<Rightarrow> bool" where
  "runnable [] = False"
| "runnable [n] = runs_alone n"
| "runnable (n # operator # p) =
     (runs_alone n \<and> (case n of Chdir d \<Rightarrow> operator = And | _ \<Rightarrow> operator \<in> {Pipe, And, Or}) \<and> runnable p)"

lemma wf_runnable: "wf_pipeline p \<Longrightarrow> runnable p"
proof (induction p rule: runnable.induct)
  case 1
  then show ?case by (simp add: wf_pipeline_def)
next
  case (2 n)
  then show ?case by (cases n) (auto simp: wf_pipeline_def wf_last_def wf_command_def)
next
  case (3 n operator p)
  then have "p \<noteq> []" by (auto simp: wf_pipeline_def)
  with 3 have "wf_step n operator" "runnable p" by (auto simp: wf_pipeline_def)
  then show ?case by (cases n) (auto simp: wf_step_def wf_command_def split: if_splits)
qed

definition run_correct :: "bool \<Rightarrow> shell_node list \<Rightarrow> (history, int option) act \<Rightarrow> bool" where
  "run_correct verbose p m \<longleftrightarrow> hoare (\<lambda>_. True) m (\<lambda>r _. r \<noteq> None) (\<lambda>e _. e \<in> run_errors verbose p)"

lemma run_correct_mono:
  "run_correct verbose q m \<Longrightarrow> run_errors verbose q \<subseteq> run_errors verbose p \<Longrightarrow> run_correct verbose p m"
  unfolding run_correct_def by (erule hoare_post) auto

lemma run_errors_rest: "p \<noteq> [] \<Longrightarrow> run_errors v p \<subseteq> run_errors v (n # operator # p)"
  by (auto simp: run_errors_def)

text \<open>Finishing a group before an operator that does not stop.\<close>

lemma run_correct_operator:
  assumes "run_correct v p m" and "v \<Longrightarrow> UnboundLocalError \<in> run_errors v p"
  shows "run_correct v p (abind (finish_commands E piped files)
    (\<lambda>r. if v then araise UnboundLocalError else if b r then aret (Some r) else m))"
  unfolding run_correct_def
proof (rule hoare_bind)
  show "hoare (\<lambda>_. True) (finish_commands E piped files) (\<lambda>_ _. True) (\<lambda>e _. e \<in> run_errors v p)"
    by (rule hoare_post [OF hoare_finish]) simp_all
  show "hoare (\<lambda>_. True) (if v then araise UnboundLocalError else if b r then aret (Some r) else m)
      (\<lambda>r _. r \<noteq> None) (\<lambda>e _. e \<in> run_errors v p)" for r
    using assms by (cases v; cases "b r") (auto simp: run_correct_def intro: hoare_raise hoare_ret)
qed

lemma run_nodes_correct:
  "runnable p \<Longrightarrow> (pos = InPipe \<Longrightarrow> piped \<noteq> []) \<Longrightarrow> run_correct v p (run_nodes E v cwd pos piped files p)"
proof (induction p arbitrary: cwd pos piped files rule: runnable.induct)
  case 1
  then show ?case by simp
next
  case (2 n)
  then have n: "runs_alone n" by simp
  show ?case
  proof (cases n)
    case (Command c)
    with n have "cm_stdout c \<noteq> Some OutStdout" by simp
    from hoare_start_command [OF this 2(2)] show ?thesis
      unfolding run_correct_def Command run_nodes.simps
      by (rule hoare_bind [OF hoare_post]) (auto simp: run_errors_def case_prod_unfold intro!: hoare_bind [OF hoare_post [OF hoare_finish]] hoare_ret)
  next
    case (Chdir d)
    then show ?thesis by (auto simp: run_correct_def run_errors_def intro: hoare_raise)
  qed (use n in simp_all)
next
  case (3 n operator p)
  then have "p \<noteq> []" by auto
  from 3 have wf: "runs_alone n" "runnable p" by simp_all
  note sub = run_correct_mono [OF _ run_errors_rest [OF \<open>p \<noteq> []\<close>]]
  show ?case
  proof (cases n)
    case (Command c)
    with 3 have c: "cm_stdout c \<noteq> Some OutStdout" and o1: "operator \<in> {Pipe, And, Or}"
      by simp_all
    have rest: "run_correct v (n # operator # p) (run_nodes E v cwd pos' ps fs p)" if "pos' = InPipe \<Longrightarrow> ps \<noteq> []" for pos' ps fs
      by (rule sub) (rule 3(1) [OF wf(2) that])
    have unbound: "v \<Longrightarrow> operator \<noteq> Pipe \<Longrightarrow> UnboundLocalError \<in> run_errors v (n # operator # p)"
      using o1 by (auto simp: run_errors_def)
    show ?thesis
      unfolding run_correct_def Command run_nodes.simps
    proof (rule hoare_bind)
      show "hoare (\<lambda>_. True) (start_command E cwd pos piped files c) (\<lambda>r _. fst r \<noteq> [])
          (\<lambda>e _. e \<in> run_errors v (Command c # operator # p))"
        by (rule hoare_post [OF hoare_start_command [OF c 3(3)]]) (simp_all add: run_errors_def)
      fix x :: "proc list \<times> stream list"
      obtain ps fs where x: "x = (ps, fs)" by (cases x)
      show "hoare (\<lambda>_. fst x \<noteq> []) (case x of (piped, files) \<Rightarrow>
          (case operator # p of
            [] \<Rightarrow> abind (finish_commands E piped files) (\<lambda>r. aret (Some r))
          | Pipe # nodes' \<Rightarrow> run_nodes E v cwd InPipe piped files nodes'
          | Or # nodes' \<Rightarrow> abind (finish_commands E piped files) (\<lambda>r. if v then araise UnboundLocalError
                else if r = 0 then aret (Some r) else run_nodes E v cwd Begin [] [] nodes')
          | And # nodes' \<Rightarrow> abind (finish_commands E piped files) (\<lambda>r. if v then araise UnboundLocalError
                else if r \<noteq> 0 then aret (Some r) else run_nodes E v cwd Begin [] [] nodes')
          | _ # nodes' \<Rightarrow> run_nodes E v cwd pos piped files nodes'))
        (\<lambda>r _. r \<noteq> None) (\<lambda>e _. e \<in> run_errors v (Command c # operator # p))"
      proof (cases "ps = []")
        case True
        then show ?thesis by (simp add: hoare_def x)
      next
        case False
        have "run_correct v (n # operator # p) (abind (finish_commands E ps fs) (\<lambda>r. if v then araise UnboundLocalError
            else if b r then aret (Some r) else run_nodes E v cwd Begin [] [] p))" if "operator \<noteq> Pipe" for b
          using rest [of Begin "[]" "[]"] unbound that by (intro run_correct_operator) simp_all
        from this [of "\<lambda>r. r = 0"] this [of "\<lambda>r. r \<noteq> 0"] rest [of InPipe ps fs] False o1 show ?thesis
          by (auto simp: x Command run_correct_def)
      qed
    qed
  next
    case (Chdir d)
    with 3 have "operator = And" by simp
    have rest: "run_correct v (n # operator # p) (run_nodes E v cwd' pos piped files p)" for cwd'
      by (rule sub) (rule 3(1) [OF wf(2) 3(3)])
    show ?thesis
    proof (cases d)
      case None
      then show ?thesis using Chdir \<open>operator = And\<close>
        by (simp add: run_correct_def) (rule hoare_raise, simp add: run_errors_def)
    next
      case (Some x)
      then show ?thesis using rest Chdir \<open>operator = And\<close> by simp
    qed
  qed (use wf in simp_all)
qed

lemma runnable_outcome:
  assumes "runnable p"
  shows "case fst (run_pipeline E verbose p h) of Inr r \<Rightarrow> r \<noteq> None | Inl e \<Rightarrow> e \<in> run_errors verbose p"
proof -
  have "run_correct verbose p (run_nodes E verbose ''.'' Begin [] [] p)" using assms by (rule run_nodes_correct) simp
  then have "case run_nodes E verbose ''.'' Begin [] [] p h of (Inr r, t) \<Rightarrow> r \<noteq> None | (Inl e, t) \<Rightarrow> e \<in> run_errors verbose p"
    by (simp add: run_correct_def hoare_def del: not_None_eq)
  then show ?thesis by (auto simp: run_pipeline_def split: sum.splits prod.splits)
qed

text \<open>
  C31: a line that was parsed runs to a status or ends with one of few errors: a file or a program that
  cannot be opened; a change of directory at the end of the line; \<open>cd\<close> without a directory; and, in
  verbose mode, the unbound \<open>retval\<close> at the first \<open>&&\<close> or \<open>||\<close>. The assertions of \<open>run\<close> hold.
\<close>

theorem run_outcome:
  assumes "parse line = Inr p"
  shows "case fst (run_pipeline E verbose p h) of Inr r \<Rightarrow> r \<noteq> None | Inl e \<Rightarrow> e \<in> run_errors verbose p"
proof -
  obtain ts where "parse_tokens ts = Inr p"
    using assms by (auto simp: parse_def rbind_eq_Inr_iff split: command_line.splits)
  with parse_tokens_result [of ts] have "runnable p" by (simp add: wf_runnable)
  then show ?thesis by (rule runnable_outcome)
qed

theorem run_outcome_witness:
  "\<exists>p. parse (Line ''./build 2>&1 | tee log && cd'') = Inr p \<and>
     (case fst (run_pipeline sample_env False p []) of Inr r \<Rightarrow> r \<noteq> None | Inl e \<Rightarrow> e \<in> {OSError, IndexError, AttributeError}) \<and>
     fst (run_pipeline sample_env False p []) = Inl IndexError"
proof -
  have "(case parse (Line ''./build 2>&1 | tee log && cd'') of Inl e \<Rightarrow> False | Inr p \<Rightarrow>
      fst (run_pipeline sample_env False p []) = Inl IndexError \<and> last p = Chdir None)"
    by code_simp
  then obtain p where p: "parse (Line ''./build 2>&1 | tee log && cd'') = Inr p" "last p = Chdir None"
    "fst (run_pipeline sample_env False p []) = Inl IndexError"
    by (auto split: sum.splits)
  from run_outcome [OF p(1), where E = sample_env and verbose = False and h = "[]"] p show ?thesis
    by (auto simp: run_errors_def)
qed

end
