(* ===== verification/WafCommand.thy ===== *)
theory WafCommand
  imports ShellRun
begin

text \<open>
  \<open>waf-tools/command.py\<close>: the build task that runs a command line. References to sources, targets and
  variables are replaced in the words of the parsed line, never in the line itself. Evaluating the
  Python text of a reference and the nodes of the build tree are parameters.
\<close>

section \<open>References\<close>

record build_node =
  nd_srcpath :: string
  nd_bldpath :: string
  nd_bld_abspath :: string

text \<open>The value of a reference: a node, the list of inputs or outputs itself, another list, a text, \<open>None\<close>, or else.\<close>

datatype ref_value =
    NodeValue build_node
  | Inputs
  | Outputs
  | ListValue "ref_value list"
  | TextValue string
  | NoneValue
  | OtherValue

record command_task =
  ct_inputs :: "build_node list"
  ct_outputs :: "build_node list"
  ct_eval :: "string \<Rightarrow> ref_value pyres"

text \<open>What \<open>repl\<close> returns must be a text, or \<open>None\<close>, which \<open>re.sub\<close> takes for the empty text.\<close>

definition text_of :: "ref_value \<Rightarrow> string pyres" where
  "text_of v = (case v of TextValue s \<Rightarrow> Inr s | NoneValue \<Rightarrow> Inr [] | _ \<Rightarrow> Inl TypeError)"

definition repl :: "command_task \<Rightarrow> string \<Rightarrow> string \<Rightarrow> string pyres" where
  "repl t var code =
     rbind (ct_eval t (var @ code)) (\<lambda>result.
       case result of
         NodeValue n \<Rightarrow>
           if var = ''TGT'' then Inr (nd_bld_abspath n)
           else if var = ''SRC'' then Inr (nd_srcpath n)
           else Inl ValueError
       | Inputs \<Rightarrow> if length (ct_inputs t) = 1 then Inr (nd_srcpath (ct_inputs t ! 0)) else Inl ValueError
       | Outputs \<Rightarrow> if length (ct_outputs t) = 1 then Inr (nd_bld_abspath (ct_outputs t ! 0)) else Inl ValueError
       | ListValue vs \<Rightarrow> if length vs \<noteq> 1 then Inl AssertionError else text_of (vs ! 0)
       | v \<Rightarrow> text_of v)"

text \<open>
  The pattern \<open>\$\{(\w+)(.*?)\}\<close> after its opening brace: the variable, the code up to the first closing
  brace on the line, and the rest.
\<close>

definition match_subst :: "string \<Rightarrow> (string \<times> string \<times> string) option" where
  "match_subst s =
     (let var = takeWhile name_char s;
          body = drop (length var) s;
          code = takeWhile (\<lambda>c. c \<noteq> CHR ''}'' \<and> c \<noteq> py_newline) body;
          rest = drop (length code) body
      in if var \<noteq> [] \<and> startswith rest ''}'' then Some (var, code, tl rest) else None)"

lemma match_subst_shorter: "match_subst s = Some (var, code, rest) \<Longrightarrow> length rest < length s"
  by (auto simp: match_subst_def Let_def startswith_iff split: if_splits dest!: arg_cong [of "drop _ _" _ length])

function subst_arg :: "command_task \<Rightarrow> string \<Rightarrow> string pyres" where
  "subst_arg t [] = Inr []"
| "subst_arg t (c # cs) =
     (if c = CHR ''$'' \<and> startswith cs ''$'' then rmap (Cons (CHR ''$'')) (subst_arg t (tl cs))
      else if c = CHR ''$'' \<and> startswith cs ''{'' then
        (case match_subst (tl cs) of
           None \<Rightarrow> rmap (Cons c) (subst_arg t cs)
         | Some (var, code, rest) \<Rightarrow> rbind (repl t var code) (\<lambda>s. rmap (\<lambda>r. s @ r) (subst_arg t rest)))
      else rmap (Cons c) (subst_arg t cs))"
  by pat_completeness auto

termination
  by (relation "measure (\<lambda>(t, s). length s)")
    (auto simp: startswith_iff dest!: match_subst_shorter)

section \<open>The task\<close>

definition subst_out :: "command_task \<Rightarrow> out_target option \<Rightarrow> out_target option pyres" where
  "subst_out t o1 =
     (case o1 of Some (OutFile f) \<Rightarrow> rmap (\<lambda>f. Some (OutFile f)) (subst_arg t f) | _ \<Rightarrow> Inr o1)"

definition subst_command :: "command_task \<Rightarrow> command \<Rightarrow> command pyres" where
  "subst_command t c =
     rbind (case cm_stdin c of None \<Rightarrow> Inr None | Some f \<Rightarrow> rmap Some (subst_arg t f)) (\<lambda>i.
     rbind (subst_out t (cm_stdout c)) (\<lambda>ou.
     rbind (subst_out t (cm_stderr c)) (\<lambda>er.
     rbind (rmapM (subst_arg t) (cm_argv c)) (\<lambda>argv.
     rbind (case cm_env_vars c of
              None \<Rightarrow> Inr None
            | Some vs \<Rightarrow> rmap Some (rmapM (\<lambda>(k, v). rmap (Pair k) (subst_arg t v)) vs)) (\<lambda>vars.
       Inr (c\<lparr>cm_stdin := i, cm_stdout := ou, cm_stderr := er, cm_argv := argv, cm_env_vars := vars\<rparr>))))))"

definition subst_node :: "command_task \<Rightarrow> shell_node \<Rightarrow> shell_node pyres" where
  "subst_node t n =
     (case n of
        Command c \<Rightarrow> rmap Command (subst_command t c)
      | Chdir None \<Rightarrow> Inl TypeError
      | Chdir (Some d) \<Rightarrow> rmap (\<lambda>d. Chdir (Some d)) (subst_arg t d)
      | _ \<Rightarrow> Inr n)"

definition command_run :: "os_env \<Rightarrow> bool \<Rightarrow> command_task \<Rightarrow> command_line \<Rightarrow> (history, int option) act" where
  "command_run E verbose t line =
     abind (alift (rbind (parse line) (rmapM (subst_node t)))) (run_pipeline E verbose)"

text \<open>The text shown for a task.\<close>

definition command_str :: "command_task \<Rightarrow> command_line \<Rightarrow> string pyres" where
  "command_str t line =
     rmap (\<lambda>p. ''command ('' @ get_abbreviated_command p @ ''): '' @ py_join '' '' (map nd_bldpath (ct_inputs t)) @
        (if ct_outputs t \<noteq> [] then '' -> '' else []) @ py_join '' '' (map nd_bldpath (ct_outputs t)) @ [py_newline])
       (parse line)"

section \<open>Properties\<close>

definition dollars :: "string \<Rightarrow> string" where
  "dollars s = concat (map (\<lambda>c. if c = CHR ''$'' then ''$$'' else [c]) s)"

lemma subst_none:
  "subst_arg \<lparr>ct_inputs = [], ct_outputs = [], ct_eval = \<lambda>s. Inr NoneValue\<rparr> ''a${X}b'' = Inr ''ab''"
  by code_simp

text \<open>
  A word in which each dollar is doubled stands for itself, whatever the variables are.
\<close>

theorem subst_dollars: "subst_arg t (dollars s) = Inr s"
  by (induction s) (auto simp: dollars_def)

text \<open>Replacing references changes words, not the structure of the line: a value is never read as an operator.\<close>

fun same_target :: "out_target option \<Rightarrow> out_target option \<Rightarrow> bool" where
  "same_target (Some (OutFile f)) (Some (OutFile g)) = True"
| "same_target a b = (a = b)"

fun same_form :: "shell_node \<Rightarrow> shell_node \<Rightarrow> bool" where
  "same_form (Command c) (Command d) =
     (length (cm_argv d) = length (cm_argv c) \<and> (cm_stdin d = None \<longleftrightarrow> cm_stdin c = None) \<and>
      same_target (cm_stdout c) (cm_stdout d) \<and> same_target (cm_stderr c) (cm_stderr d) \<and>
      map fst (vars_of d) = map fst (vars_of c))"
| "same_form (Chdir d) (Chdir e) = (d \<noteq> None \<and> e \<noteq> None)"
| "same_form m n = (m = n)"

lemma rmapM_all2: "rmapM f xs = Inr ys \<Longrightarrow> list_all2 (\<lambda>x y. f x = Inr y) xs ys"
  by (induction xs arbitrary: ys) (auto simp: rbind_eq_Inr_iff rmap_eq_Inr_iff)

lemma subst_out_form:
  "subst_out t o1 = Inr o2 \<Longrightarrow> same_target o1 o2"
  by (auto simp: subst_out_def rmap_eq_Inr_iff split: option.splits out_target.splits)

lemma subst_vars_form:
  "rmapM (\<lambda>(k, v). rmap (Pair k) (subst_arg t v)) vs = Inr ws \<Longrightarrow> map fst ws = map fst vs"
  by (induction vs arbitrary: ws) (auto simp: rbind_eq_Inr_iff rmap_eq_Inr_iff)

lemma subst_command_form:
  assumes "subst_command t c = Inr d"
  shows "same_form (Command c) (Command d)"
proof -
  obtain i ou er argv vars where
    i: "(case cm_stdin c of None \<Rightarrow> Inr None | Some f \<Rightarrow> rmap Some (subst_arg t f)) = Inr i"
    and o: "subst_out t (cm_stdout c) = Inr ou" "subst_out t (cm_stderr c) = Inr er"
    and argv: "rmapM (subst_arg t) (cm_argv c) = Inr argv"
    and vars: "(case cm_env_vars c of None \<Rightarrow> Inr None
      | Some vs \<Rightarrow> rmap Some (rmapM (\<lambda>(k, v). rmap (Pair k) (subst_arg t v)) vs)) = Inr vars"
    and d: "d = c\<lparr>cm_stdin := i, cm_stdout := ou, cm_stderr := er, cm_argv := argv, cm_env_vars := vars\<rparr>"
    using assms unfolding subst_command_def rbind_eq_Inr_iff by auto
  have "length argv = length (cm_argv c)"
    using list_all2_lengthD [OF rmapM_all2 [OF argv]] by simp
  moreover have "i = None \<longleftrightarrow> cm_stdin c = None"
    using i by (auto simp: rmap_eq_Inr_iff split: option.splits)
  moreover have "map fst (vars_of d) = map fst (vars_of c)"
    using vars by (auto simp: d vars_of_def rmap_eq_Inr_iff dest!: subst_vars_form split: option.splits)
  ultimately show ?thesis
    using subst_out_form [OF o(1)] subst_out_form [OF o(2)] by (simp add: d)
qed

lemma subst_node_form: "subst_node t n = Inr m \<Longrightarrow> same_form n m"
  by (cases n) (auto simp: subst_node_def rmap_eq_Inr_iff simp del: same_form.simps(1) intro: subst_command_form split: option.splits)

lemma subst_nodes_form: "rmapM (subst_node t) p = Inr q \<Longrightarrow> list_all2 same_form p q"
  by (drule rmapM_all2, erule list_all2_mono) (rule subst_node_form)

lemma same_form_runs:
  "same_form n m \<Longrightarrow> runs_alone m \<longleftrightarrow> runs_alone n"
proof -
  have "same_target a b \<Longrightarrow> b = Some OutStdout \<longleftrightarrow> a = Some OutStdout" for a b
    by (cases "(a, b)" rule: same_target.cases) auto
  then show "same_form n m \<Longrightarrow> runs_alone m \<longleftrightarrow> runs_alone n"
    by (cases n; cases m) auto
qed

lemma same_form_operator: "same_form n m \<Longrightarrow> n \<in> {Pipe, And, Or} \<or> m \<in> {Pipe, And, Or} \<Longrightarrow> m = n"
  by (cases n; cases m) auto

lemma same_form_runnable: "list_all2 same_form p q \<Longrightarrow> runnable p \<Longrightarrow> runnable q"
proof (induction p arbitrary: q rule: runnable.induct)
  case (2 n)
  then show ?case by (auto simp: list_all2_Cons1 same_form_runs)
next
  case (3 n operator p)
  then obtain m op' r where q: "q = m # op' # r" "same_form n m" "same_form operator op'" "list_all2 same_form p r"
    by (auto simp: list_all2_Cons1)
  then have "op' = operator" using 3(3) by (intro same_form_operator) (auto split: shell_node.splits)
  with 3 q show ?case by (cases n; cases m) (auto simp: same_form_runs dest: same_form_runs)
qed simp

lemma same_form_errors:
  assumes "list_all2 same_form p q" "p \<noteq> []"
  shows "run_errors v q \<subseteq> run_errors v p"
proof -
  from assms have len: "length q = length p" and nth: "\<And>i. i < length p \<Longrightarrow> same_form (p ! i) (q ! i)"
    by (auto simp: list_all2_conv_all_nth)
  have "same_form (last p) (last q)" using assms(2) len nth [of "length p - 1"]
    by (cases "q = []") (simp_all add: last_conv_nth)
  then have "\<exists>d. last q = Chdir d \<Longrightarrow> \<exists>d. last p = Chdir d"
    by (cases "last p"; cases "last q") auto
  moreover have "Chdir None \<notin> set q"
  proof
    assume "Chdir None \<in> set q"
    then obtain i where "i < length p" "q ! i = Chdir None" using len by (auto simp: in_set_conv_nth)
    with nth [of i] show False by (cases "p ! i") auto
  qed
  moreover have "operator \<in> set q \<Longrightarrow> operator \<in> set p" if "operator \<in> {And, Or}" for operator
  proof -
    assume "operator \<in> set q"
    then obtain i where i: "i < length p" "q ! i = operator" using len by (auto simp: in_set_conv_nth)
    with nth [of i] that have "p ! i = operator" using same_form_operator [of "p ! i" "q ! i"] by auto
    with i show ?thesis by (metis nth_mem)
  qed
  ultimately show ?thesis by (auto simp: run_errors_def)
qed

text \<open>
  C24: the task runs the pipeline of its line with the references replaced in its words. A value is
  never read as an operator or redirection, and the only errors of the run are those of the line.
\<close>

theorem command_run_outcome:
  assumes "parse line = Inr p" and "rmapM (subst_node t) p = Inr q"
  shows "command_run E verbose t line h = run_pipeline E verbose q h \<and> list_all2 same_form p q \<and>
    (case fst (command_run E verbose t line h) of Inr r \<Rightarrow> r \<noteq> None | Inl e \<Rightarrow> e \<in> run_errors verbose p)"
proof -
  have run: "command_run E verbose t line h = run_pipeline E verbose q h"
    by (simp add: command_run_def assms act_step alift_apply)
  obtain ts where "parse_tokens ts = Inr p"
    using assms(1) by (auto simp: parse_def rbind_eq_Inr_iff split: command_line.splits)
  with parse_tokens_result [of ts] have "runnable p" by (simp add: wf_runnable)
  moreover have form: "list_all2 same_form p q" using assms(2) by (rule subst_nodes_form)
  ultimately have "runnable q" by (simp add: same_form_runnable)
  moreover have "run_errors verbose q \<subseteq> run_errors verbose p"
    using form \<open>runnable p\<close> by (intro same_form_errors) auto
  ultimately show ?thesis
    using runnable_outcome [of q verbose E h] run form by (auto split: sum.splits)
qed

definition sample_task :: command_task where
  "sample_task = \<lparr>ct_inputs = [\<lparr>nd_srcpath = ''a;|b'', nd_bldpath = ''a'', nd_bld_abspath = ''/b/a''\<rparr>], ct_outputs = [],
     ct_eval = \<lambda>s. if s = ''SRC'' then Inr Inputs else Inl NameError\<rparr>"

theorem command_run_outcome_witness:
  "\<exists>p q. parse (Line ''cat ${SRC} $$x | wc'') = Inr p \<and> rmapM (subst_node sample_task) p = Inr q \<and>
     render q = [''cat'', ''a;|b'', ''$x'', ''|'', ''wc''] \<and>
     command_run sample_env False sample_task (Line ''cat ${SRC} $$x | wc'') [] = run_pipeline sample_env False q []"
proof -
  have "(case parse (Line ''cat ${SRC} $$x | wc'') of Inl e \<Rightarrow> False | Inr p \<Rightarrow>
      (case rmapM (subst_node sample_task) p of Inl e \<Rightarrow> False | Inr q \<Rightarrow> render q = [''cat'', ''a;|b'', ''$x'', ''|'', ''wc'']))"
    by code_simp
  then obtain p q where p: "parse (Line ''cat ${SRC} $$x | wc'') = Inr p" and q: "rmapM (subst_node sample_task) p = Inr q"
    and r: "render q = [''cat'', ''a;|b'', ''$x'', ''|'', ''wc'']"
    by (auto split: sum.splits)
  from command_run_outcome [OF p q, where E = sample_env and verbose = False and h = "[]"] p q r show ?thesis by blast
qed

end
