(* ===== verification/TopSort.thy ===== *)
theory TopSort
  imports PyCore
begin

text \<open>
  \<open>bindings/python/topsort.py\<close>: the order in which the binding scanner treats the modules. The function
  \<open>topsort\<close> counts the parents of each element and takes an element once its count is zero; the
  theorem says that it returns exactly when the pairs have no cycle, and then in an order of
  dependency. The other functions of the file are in \<open>TopLevels\<close> and \<open>FindCycles\<close>.
\<close>

section \<open>Counting parents\<close>

definition add_pair :: "('a, int) dict \<times> ('a, 'a list) dict \<Rightarrow> 'a \<times> 'a \<Rightarrow> (('a, int) dict \<times> ('a, 'a list) dict) pyres" where
  "add_pair st pair =
     (case st of (num_parents, children) \<Rightarrow> case pair of (parent, child) \<Rightarrow>
        let num_parents = (if dict_has num_parents parent then num_parents else dict_set parent 0 num_parents);
            num_parents = (if dict_has num_parents child then num_parents else dict_set child 0 num_parents)
        in rbind (dict_getitem num_parents child) (\<lambda>n.
          Inr (dict_set child (n + 1) num_parents,
               dict_set parent ((case map_of children parent of None \<Rightarrow> [] | Some cs \<Rightarrow> cs) @ [child]) children)))"

definition count_parents :: "('a \<times> 'a) list \<Rightarrow> (('a, int) dict \<times> ('a, 'a list) dict) pyres" where
  "count_parents pairlist = rfold add_pair ([], []) pairlist"

section \<open>Taking elements without parents\<close>

definition knock_down :: "('a, int) dict \<times> 'a list \<Rightarrow> 'a \<Rightarrow> (('a, int) dict \<times> 'a list) pyres" where
  "knock_down st child =
     (case st of (num_parents, answer) \<Rightarrow>
        rbind (dict_getitem num_parents child) (\<lambda>n.
          Inr (dict_set child (n - 1) num_parents, if n - 1 = 0 then answer @ [child] else answer)))"

definition visit ::
    "'a \<Rightarrow> 'a list \<Rightarrow> ('a, int) dict \<Rightarrow> ('a, 'a list) dict \<Rightarrow> ('a list \<times> ('a, int) dict \<times> ('a, 'a list) dict) pyres" where
  "visit parent pending num_parents children =
     (if \<not> dict_has num_parents parent then Inl KeyError
      else
        (let num_parents = dict_del parent num_parents in
         case map_of children parent of
           None \<Rightarrow> Inr (pending, num_parents, children)
         | Some cs \<Rightarrow>
             rmap (\<lambda>(num_parents, pending). (pending, num_parents, dict_del parent children))
               (rfold knock_down (num_parents, pending) cs)))"

text \<open>
  The loop \<open>for parent in answer\<close>, during which the list grows: the list is \<open>visited @ pending\<close>, the
  parts before and after the position of the loop.
\<close>

lemma length_dict_set: "length (dict_set k v d) = (if dict_has d k then length d else Suc (length d))"
  by (induction d) (auto simp: dict_has_def rev_image_eqI)

lemma rbind_return: "rbind m Inr = m"
  by (cases m) simp_all

lemma knock_down_length: "knock_down (np, pend) c = Inr (np', pend') \<Longrightarrow> length np' = length np"
  by (auto simp: knock_down_def dict_getitem_def length_dict_set dict_has_iff split: option.splits)

lemma knock_downs_length: "rfold knock_down (np, pend) cs = Inr (np', pend') \<Longrightarrow> length np' = length np"
proof (induction cs arbitrary: np pend)
  case Nil
  then show ?case by simp
next
  case (Cons c cs)
  then obtain np1 pend1 where "knock_down (np, pend) c = Inr (np1, pend1)" "rfold knock_down (np1, pend1) cs = Inr (np', pend')"
    by (auto simp: rbind_eq_Inr_iff)
  with Cons.IH show ?case by (metis knock_down_length)
qed

lemma visit_shorter: "visit p pend np ch = Inr (pend', np', ch') \<Longrightarrow> length np' < length np"
proof -
  have "length (dict_del p np) < length np" if "dict_has np p"
  proof -
    from that obtain v where "(p, v) \<in> set np" by (auto simp: dict_has_def)
    then show ?thesis unfolding dict_del_def by (rule length_filter_less) simp
  qed
  then show "visit p pend np ch = Inr (pend', np', ch') \<Longrightarrow> length np' < length np"
    by (auto simp: visit_def Let_def rmap_eq_Inr_iff dest!: knock_downs_length split: if_splits option.splits)
qed

function topsort_loop ::
    "'a list \<Rightarrow> 'a list \<Rightarrow> ('a, int) dict \<Rightarrow> ('a, 'a list) dict \<Rightarrow> ('a list \<times> ('a, int) dict) pyres" where
  "topsort_loop visited [] num_parents children = Inr (visited, num_parents)"
| "topsort_loop visited (parent # pending) num_parents children =
     (case visit parent pending num_parents children of
        Inl e \<Rightarrow> Inl e
      | Inr (pending, num_parents, children) \<Rightarrow> topsort_loop (visited @ [parent]) pending num_parents children)"
  by pat_completeness auto

termination
  by (relation "measure (\<lambda>(visited, pending, num_parents, children). length num_parents)") (auto dest: visit_shorter)

definition CycleError :: pyerr where
  "CycleError = PyException ''CycleError''"

definition topsort :: "('a \<times> 'a) list \<Rightarrow> 'a list pyres" where
  "topsort pairlist =
     rbind (count_parents pairlist) (\<lambda>(num_parents, children).
     rbind (topsort_loop [] (map fst (filter (\<lambda>p. snd p = 0) num_parents)) num_parents children) (\<lambda>(answer, num_parents).
       if num_parents \<noteq> [] then Inl CycleError else Inr answer))"

lemma topsort_samples:
  "topsort [(1, 2), (3, 4), (5, 6), (1, 3), (1, 5), (1, 6), (2, 5)] = Inr [1, 2, 3, 5, 4, 6 :: nat]"
  "topsort [(1, 2), (2, 3), (3, 2 :: nat)] = Inl CycleError"
  by code_simp+

section \<open>What is counted\<close>

definition elements :: "('a \<times> 'a) list \<Rightarrow> 'a set" where
  "elements pairs = fst ` set pairs \<union> snd ` set pairs"

text \<open>The pairs that lead to an element from parents not visited, and the children of an element.\<close>

definition open_parents :: "('a \<times> 'a) list \<Rightarrow> 'a set \<Rightarrow> 'a \<Rightarrow> nat" where
  "open_parents pairs visited x = length (filter (\<lambda>e. snd e = x \<and> fst e \<notin> visited) pairs)"

definition children_of :: "('a \<times> 'a) list \<Rightarrow> 'a \<Rightarrow> 'a list" where
  "children_of pairs p = map snd (filter (\<lambda>e. fst e = p) pairs)"

definition listed_children :: "('a \<times> 'a) list \<Rightarrow> 'a \<Rightarrow> 'a list option" where
  "listed_children pairs p = (let cs = children_of pairs p in if cs = [] then None else Some cs)"

definition counted :: "('a \<times> 'a) list \<Rightarrow> 'a set \<Rightarrow> ('a, int) dict \<Rightarrow> bool" where
  "counted pairs visited np \<longleftrightarrow> dict_wf np \<and>
     (\<forall>x. map_of np x = (if x \<in> elements pairs - visited then Some (int (open_parents pairs visited x)) else None))"

lemma map_of_fst: "(map_of d x = None) = (x \<notin> fst ` set d)"
  by (simp add: map_of_eq_None_iff)

lemma add_pair_counted:
  assumes "counted pairs {} np" "\<And>p. map_of ch p = listed_children pairs p"
  shows "\<exists>np' ch'. add_pair (np, ch) e = Inr (np', ch') \<and> counted (pairs @ [e]) {} np' \<and>
    (\<forall>p. map_of ch' p = listed_children (pairs @ [e]) p)"
proof -
  obtain p c where e: "e = (p, c)" by (cases e)
  define np1 where "np1 = (if dict_has np p then np else dict_set p 0 np)"
  define np2 where "np2 = (if dict_has np1 c then np1 else dict_set c 0 np1)"
  have none: "open_parents pairs {} x = 0" if "x \<notin> elements pairs" for x
    using that by (force simp: open_parents_def elements_def filter_empty_conv)
  have np2: "map_of np2 x = (if x \<in> insert p (insert c (elements pairs)) then Some (int (open_parents pairs {} x)) else None)" for x
    using assms(1) none by (auto simp: np2_def np1_def dict_has_iff counted_def split: if_splits)
  have wf2: "dict_wf np2" using assms(1) by (simp add: np2_def np1_def counted_def dict_wf_set)
  have "add_pair (np, ch) e = rbind (dict_getitem np2 c) (\<lambda>n. Inr (dict_set c (n + 1) np2,
      dict_set p ((case map_of ch p of None \<Rightarrow> [] | Some cs \<Rightarrow> cs) @ [c]) ch))"
    unfolding add_pair_def e prod.case Let_def np1_def np2_def ..
  then have "add_pair (np, ch) e = Inr (dict_set c (int (open_parents pairs {} c) + 1) np2,
      dict_set p ((case map_of ch p of None \<Rightarrow> [] | Some cs \<Rightarrow> cs) @ [c]) ch)"
    using np2 [of c] by (simp add: dict_getitem_def)
  moreover have "counted (pairs @ [e]) {} (dict_set c (int (open_parents pairs {} c) + 1) np2)"
    using np2 wf2 by (auto simp: counted_def e elements_def open_parents_def dict_wf_set)
  moreover have "map_of (dict_set p ((case map_of ch p of None \<Rightarrow> [] | Some cs \<Rightarrow> cs) @ [c]) ch) q = listed_children (pairs @ [e]) q" for q
    using assms(2) by (auto simp: listed_children_def children_of_def e Let_def)
  ultimately show ?thesis by blast
qed

lemma count_parents_counted:
  "\<exists>np ch. count_parents pairs = Inr (np, ch) \<and> counted pairs {} np \<and> (\<forall>p. map_of ch p = listed_children pairs p)"
proof (induction pairs rule: rev_induct)
  case Nil
  then show ?case by (simp add: count_parents_def counted_def dict_wf_def elements_def listed_children_def children_of_def)
next
  case (snoc e pairs)
  then obtain np ch where "count_parents pairs = Inr (np, ch)" "counted pairs {} np" "\<And>p. map_of ch p = listed_children pairs p"
    by blast
  with add_pair_counted [of pairs np ch e] show ?case by (simp add: count_parents_def rfold_append rbind_return)
qed

section \<open>Knocking down the children of an element\<close>

text \<open>An element is appended when its last open parent goes, so at most once.\<close>

lemma knock_downs:
  assumes "\<And>x. x \<in> set cs \<Longrightarrow> \<exists>n. map_of np x = Some n \<and> int (count_list cs x) \<le> n"
  shows "\<exists>np' new. rfold knock_down (np, pend) cs = Inr (np', pend @ new) \<and>
    (\<forall>x. map_of np' x = map_option (\<lambda>n. n - int (count_list cs x)) (map_of np x)) \<and>
    (dict_wf np \<longrightarrow> dict_wf np') \<and> distinct new \<and> set new = {x \<in> set cs. map_of np x = Some (int (count_list cs x))}"
  using assms
proof (induction cs arbitrary: np pend)
  case Nil
  then show ?case by (simp add: option.map_ident)
next
  case (Cons c cs)
  obtain n where n: "map_of np c = Some n" "int (count_list (c # cs) c) \<le> n" using Cons.prems [of c] by auto
  let ?np = "dict_set c (n - 1) np"
  have step: "knock_down (np, pend) c = Inr (?np, if n - 1 = 0 then pend @ [c] else pend)"
    using n by (simp add: knock_down_def dict_getitem_def)
  have "\<exists>m. map_of ?np x = Some m \<and> int (count_list cs x) \<le> m" if "x \<in> set cs" for x
    using Cons.prems [of x] that n by (cases "x = c") auto
  from Cons.IH [OF this, of "if n - 1 = 0 then pend @ [c] else pend"] obtain np' new where
    rest: "rfold knock_down (?np, if n - 1 = 0 then pend @ [c] else pend) cs = Inr (np', (if n - 1 = 0 then pend @ [c] else pend) @ new)"
    and np': "\<And>x. map_of np' x = map_option (\<lambda>n. n - int (count_list cs x)) (map_of ?np x)"
    and wf: "dict_wf ?np \<longrightarrow> dict_wf np'" and new: "distinct new" "set new = {x \<in> set cs. map_of ?np x = Some (int (count_list cs x))}"
    by blast
  let ?new = "(if n - 1 = 0 then [c] else []) @ new"
  have once: "c \<notin> set cs" if "n = 1"
    using n(2) that by (simp add: count_list_0_iff)
  have "set ?new = {x \<in> set (c # cs). map_of np x = Some (int (count_list (c # cs) x))}"
  proof (rule set_eqI)
    fix x
    show "x \<in> set ?new \<longleftrightarrow> x \<in> {x \<in> set (c # cs). map_of np x = Some (int (count_list (c # cs) x))}"
      using n once by (cases "x = c"; cases "c \<in> set cs") (auto simp: new(2) count_list_0_iff)
  qed
  moreover have "distinct ?new" using new once by auto
  moreover have "map_of np' x = map_option (\<lambda>n. n - int (count_list (c # cs) x)) (map_of np x)" for x
    using np' [of x] n by (cases "x = c") auto
  ultimately show ?case using step rest wf
    by (intro exI [of _ np'] exI [of _ ?new]) (auto simp: dict_wf_set)
qed

section \<open>The loop\<close>

text \<open>Before the position of the loop every element comes after its parents.\<close>

definition in_order :: "('a \<times> 'a) list \<Rightarrow> 'a list \<Rightarrow> bool" where
  "in_order pairs xs \<longleftrightarrow> list_all (\<lambda>(p, c). c \<in> set xs \<longrightarrow> p \<in> set (takeWhile (\<lambda>x. x \<noteq> c) xs)) pairs"

definition loop_ok :: "('a \<times> 'a) list \<Rightarrow> 'a list \<Rightarrow> 'a list \<Rightarrow> ('a, int) dict \<Rightarrow> ('a, 'a list) dict \<Rightarrow> bool" where
  "loop_ok pairs visited pending np ch \<longleftrightarrow>
     distinct (visited @ pending) \<and> set visited \<subseteq> elements pairs \<and> counted pairs (set visited) np \<and>
     set pending = {x \<in> elements pairs - set visited. open_parents pairs (set visited) x = 0} \<and>
     (\<forall>p. p \<notin> set visited \<longrightarrow> map_of ch p = listed_children pairs p) \<and> in_order pairs visited"

lemma open_parents_visit:
  assumes "p \<notin> V"
  shows "open_parents pairs V x = open_parents pairs (insert p V) x + count_list (children_of pairs p) x"
proof (induction pairs)
  case Nil
  then show ?case by (simp add: open_parents_def children_of_def)
next
  case (Cons e pairs)
  then show ?case using assms
    by (cases "fst e = p"; cases "snd e = x"; cases "fst e \<in> V") (simp_all add: open_parents_def children_of_def)
qed

lemma open_parents_zero: "open_parents pairs V x = 0 \<longleftrightarrow> (\<forall>p. (p, x) \<in> set pairs \<longrightarrow> p \<in> V)"
  by (auto simp: open_parents_def filter_empty_conv)

lemma in_order_snoc:
  assumes "in_order pairs xs" "x \<notin> set xs" "open_parents pairs (set xs) x = 0"
  shows "in_order pairs (xs @ [x])"
proof -
  have parents: "q \<in> set xs" if "(q, x) \<in> set pairs" for q
    using assms(3) that by (simp add: open_parents_zero)
  have last: "takeWhile (\<lambda>y. y \<noteq> x) (xs @ [x]) = xs"
    using assms(2) by (intro takeWhile_append_stop) auto
  have earlier: "takeWhile (\<lambda>y. y \<noteq> c) (xs @ [x]) = takeWhile (\<lambda>y. y \<noteq> c) xs" if "c \<in> set xs" for c
    using that by (intro takeWhile_append1) auto
  show ?thesis
    unfolding in_order_def list_all_iff
  proof (rule ballI)
    fix e
    assume e: "e \<in> set pairs"
    obtain q c where qc: "e = (q, c)" by (cases e)
    have "q \<in> set (takeWhile (\<lambda>y. y \<noteq> c) (xs @ [x]))" if "c \<in> set (xs @ [x])"
    proof (cases "c \<in> set xs")
      case True
      then show ?thesis using assms(1) e by (auto simp: earlier in_order_def list_all_iff qc)
    next
      case False
      with that have "c = x" by simp
      then show ?thesis using parents e qc by (simp add: last)
    qed
    then show "case e of (p, c) \<Rightarrow> c \<in> set (xs @ [x]) \<longrightarrow> p \<in> set (takeWhile (\<lambda>y. y \<noteq> c) (xs @ [x]))"
      unfolding qc prod.case by blast
  qed
qed

lemma loop_step:
  assumes ok: "loop_ok pairs visited (p # pending) np ch"
  shows "\<exists>pending' np' ch'. visit p pending np ch = Inr (pending', np', ch') \<and> loop_ok pairs (visited @ [p]) pending' np' ch'"
proof -
  let ?V = "set visited" and ?cs = "children_of pairs p"
  have p: "p \<notin> ?V" "p \<in> elements pairs" "open_parents pairs ?V p = 0"
    and d: "distinct (visited @ p # pending)" and sub: "?V \<subseteq> elements pairs"
    and np: "\<And>x. map_of np x = (if x \<in> elements pairs - ?V then Some (int (open_parents pairs ?V x)) else None)" "dict_wf np"
    and pend: "insert p (set pending) = {x \<in> elements pairs - ?V. open_parents pairs ?V x = 0}"
    and ch: "\<And>q. q \<notin> ?V \<Longrightarrow> map_of ch q = listed_children pairs q" and ord: "in_order pairs visited"
    using ok by (auto simp: loop_ok_def counted_def)
  note sp = open_parents_visit [OF p(1), of pairs]
  have fresh: "c \<in> elements pairs - insert p ?V" if "c \<in> set ?cs" for c
  proof -
    from that have e: "(p, c) \<in> set pairs" by (auto simp: children_of_def)
    then have "c \<notin> ?V" using ord p(1) by (auto simp: in_order_def list_all_iff dest!: set_takeWhileD)
    moreover have "c \<noteq> p" using e p by (auto simp: open_parents_zero)
    ultimately show ?thesis using e by (force simp: elements_def)
  qed
  have "\<exists>n. map_of (dict_del p np) x = Some n \<and> int (count_list ?cs x) \<le> n" if "x \<in> set ?cs" for x
    using fresh [OF that] sp [of x] by (simp add: np(1))
  from knock_downs [OF this, of pending] obtain np' new where
    run: "rfold knock_down (dict_del p np, pending) ?cs = Inr (np', pending @ new)"
    and np': "\<And>x. map_of np' x = map_option (\<lambda>n. n - int (count_list ?cs x)) (map_of (dict_del p np) x)"
    and wf: "dict_wf np'" and new: "distinct new"
      "set new = {x \<in> set ?cs. map_of (dict_del p np) x = Some (int (count_list ?cs x))}"
    using dict_wf_del [OF np(2)] by blast
  have count': "counted pairs (insert p ?V) np'"
    unfolding counted_def using wf by (auto simp: np' np(1) sp)
  have new_set: "set new = {x \<in> elements pairs - insert p ?V. x \<in> set ?cs \<and> open_parents pairs (insert p ?V) x = 0}"
    using fresh by (auto simp: new(2) np(1) sp)
  have pos: "0 < open_parents pairs ?V x" if "x \<in> set ?cs" for x
    using sp [of x] that by (metis add_is_0 count_list_0_iff gr0I)
  have same: "open_parents pairs (insert p ?V) x = open_parents pairs ?V x" if "x \<notin> set ?cs" for x
    using sp [of x] that by (simp add: count_list_0_iff)
  have pend_set: "set pending = {x \<in> elements pairs - ?V. open_parents pairs ?V x = 0} - {p}"
    using pend d by auto
  have pend': "set (pending @ new) = {x \<in> elements pairs - insert p ?V. open_parents pairs (insert p ?V) x = 0}"
  proof (rule set_eqI)
    fix x
    show "x \<in> set (pending @ new) \<longleftrightarrow> x \<in> {x \<in> elements pairs - insert p ?V. open_parents pairs (insert p ?V) x = 0}"
      using pos [of x] same [of x] by (cases "x \<in> set ?cs") (auto simp: pend_set new_set)
  qed
  have dist: "distinct ((visited @ [p]) @ pending @ new)"
    using d new(1) by (auto simp: pend_set new_set dest: pos)
  have ok': "loop_ok pairs (visited @ [p]) (pending @ new) np' ch'"
    if "\<And>q. q \<notin> insert p ?V \<Longrightarrow> map_of ch' q = listed_children pairs q" for ch'
    unfolding loop_ok_def using dist sub p pend' count' in_order_snoc [OF ord p(1,3)] that by simp
  have has: "dict_has np p" using np(1) [of p] p by (simp add: dict_has_iff)
  show ?thesis
  proof (cases "?cs = []")
    case True
    then have "visit p pending np ch = Inr (pending, dict_del p np, ch)"
      using has ch [OF p(1)] by (simp add: visit_def Let_def listed_children_def)
    moreover from True run have "np' = dict_del p np" "new = []" by simp_all
    ultimately show ?thesis using ok' [of ch] ch by auto
  next
    case False
    then have "visit p pending np ch = Inr (pending @ new, np', dict_del p ch)"
      using has ch [OF p(1)] run by (simp add: visit_def Let_def listed_children_def)
    then show ?thesis using ok' [of "dict_del p ch"] ch by auto
  qed
qed

lemma loop_result:
  "loop_ok pairs visited pending np ch \<Longrightarrow>
   \<exists>ans np' ch'. topsort_loop visited pending np ch = Inr (ans, np') \<and> loop_ok pairs ans [] np' ch'"
proof (induction visited pending np ch rule: topsort_loop.induct)
  case (1 visited np ch)
  then show ?case by auto
next
  case (2 visited p pending np ch)
  obtain pending' np' ch' where v: "visit p pending np ch = Inr (pending', np', ch')"
    and "loop_ok pairs (visited @ [p]) pending' np' ch'"
    using loop_step [OF 2(2)] by blast
  with 2(1) [OF v refl refl] show ?case by simp
qed

text \<open>When the loop ends with elements left, each of them has a parent among them.\<close>

lemma elements_finite: "finite (elements pairs)"
  by (simp add: elements_def)

lemma left_over_cyclic:
  assumes "\<And>x. x \<in> R \<Longrightarrow> \<exists>p\<in>R. (p, x) \<in> set pairs" "R \<noteq> {}"
  shows "\<not> acyclic (set pairs)"
proof
  assume "acyclic (set pairs)"
  then have "wf (set pairs)" by (rule finite_acyclic_wf [OF finite_set])
  moreover obtain r where "r \<in> R" using assms(2) by blast
  ultimately obtain x where "x \<in> R" "\<And>y. (y, x) \<in> set pairs \<Longrightarrow> y \<notin> R"
    by (rule wfE_min) auto
  with assms(1) show False by blast
qed

lemma in_order_acyclic:
  assumes "in_order pairs xs" "elements pairs \<subseteq> set xs"
  shows "acyclic (set pairs)"
proof -
  define pos where "pos x = length (takeWhile (\<lambda>y. y \<noteq> x) xs)" for x
  have "pos p < pos c" if "(p, c) \<in> set pairs" for p c
  proof -
    have "c \<in> set xs" using that assms(2) by (force simp: elements_def)
    with that assms(1) have "p \<in> set (takeWhile (\<lambda>y. y \<noteq> c) xs)" by (auto simp: in_order_def list_all_iff)
    then obtain ys zs where c: "takeWhile (\<lambda>y. y \<noteq> c) xs = ys @ p # zs" by (auto simp: in_set_conv_decomp)
    define rest where "rest = dropWhile (\<lambda>y. y \<noteq> c) xs"
    have xs: "xs = ys @ p # zs @ rest" unfolding rest_def
      by (metis append.assoc append_Cons c takeWhile_dropWhile_id)
    have "pos p \<le> length ys"
      unfolding pos_def xs by (induction ys) auto
    then show ?thesis by (simp add: pos_def [of c] c)
  qed
  then have "set pairs \<subseteq> measure pos" by auto
  then show ?thesis by (meson wf_acyclic wf_measure wf_subset)
qed

text \<open>
  C9: \<open>topsort\<close> ends: with each element once and after its parents when the pairs have no cycle, and with
  a \<open>CycleError\<close>, never another exception, when they have one.
\<close>

theorem topsort_correct:
  "case topsort pairs of
     Inr xs \<Rightarrow> acyclic (set pairs) \<and> distinct xs \<and> set xs = elements pairs \<and> in_order pairs xs
   | Inl e \<Rightarrow> e = CycleError \<and> \<not> acyclic (set pairs)"
proof -
  obtain np ch where c: "count_parents pairs = Inr (np, ch)" "counted pairs {} np" "\<And>p. map_of ch p = listed_children pairs p"
    using count_parents_counted by blast
  let ?start = "map fst (filter (\<lambda>p. snd p = 0) np)"
  have wf: "dict_wf np" using c(2) by (simp add: counted_def)
  have "set ?start = {x \<in> elements pairs. open_parents pairs {} x = 0}"
  proof (rule set_eqI)
    fix x
    have "x \<in> set ?start \<longleftrightarrow> map_of np x = Some 0"
      using wf by (force simp: dict_wf_def map_of_eq_Some_iff)
    then show "x \<in> set ?start \<longleftrightarrow> x \<in> {x \<in> elements pairs. open_parents pairs {} x = 0}"
      using c(2) by (auto simp: counted_def)
  qed
  moreover have "distinct ?start" using wf by (simp add: dict_wf_def distinct_map_filter)
  ultimately have "loop_ok pairs [] ?start np ch"
    using c by (simp add: loop_ok_def in_order_def list_all_iff)
  from loop_result [OF this] obtain ans np' ch' where
    r: "topsort_loop [] ?start np ch = Inr (ans, np')" and ok: "loop_ok pairs ans [] np' ch'"
    by blast
  have t: "topsort pairs = (if np' \<noteq> [] then Inl CycleError else Inr ans)"
    by (simp add: topsort_def c r)
  have keys: "map_of np' x = None \<longleftrightarrow> x \<notin> elements pairs - set ans" for x
    using ok by (auto simp: loop_ok_def counted_def)
  show ?thesis
  proof (cases "np' = []")
    case True
    with keys have "elements pairs \<subseteq> set ans" by auto
    with ok in_order_acyclic show ?thesis by (auto simp: t True loop_ok_def)
  next
    case False
    then obtain k v d where "np' = (k, v) # d" by (cases np') auto
    with keys [of k] have "elements pairs - set ans \<noteq> {}" by auto
    moreover have "\<exists>p\<in>elements pairs - set ans. (p, x) \<in> set pairs" if "x \<in> elements pairs - set ans" for x
    proof -
      from that ok have "open_parents pairs (set ans) x \<noteq> 0" by (auto simp: loop_ok_def)
      then obtain q where "(q, x) \<in> set pairs" "q \<notin> set ans" by (auto simp: open_parents_zero)
      then show ?thesis by (force simp: elements_def)
    qed
    ultimately have "\<not> acyclic (set pairs)" by (intro left_over_cyclic)
    with False show ?thesis by (simp add: t)
  qed
qed

end
