(* ===== verification/BindScan.thy ===== *)
theory BindScan
  imports TopSort WafUtils "HOL-Library.List_Lexorder" "HOL-Library.Char_ord"
begin

text \<open>
  The scanners that generate the Python bindings: \<open>bindings/python/ns3modulescan.py\<close> and
  \<open>ns3modulescan-modular.py\<close>. Modelled are the path of a header inside \<open>ns3\<close>, the sections of the
  output and their order, the table of annotations, and the hook that annotates each definition the C++
  parser reports. The parser, the declarations it reports and the files are parameters.
\<close>

section \<open>The path of a header\<close>

text \<open>\<open>os.path.split\<close>.\<close>

definition slashes :: "string \<Rightarrow> bool" where
  "slashes s \<longleftrightarrow> list_all (\<lambda>c. c = CHR ''/'') s"

definition path_split :: "string \<Rightarrow> string \<times> string" where
  "path_split p =
     (let tail = basename p; head = take (length p - length tail) p
      in (if slashes head then head else rev (dropWhile (\<lambda>c. c = CHR ''/'') (rev head)), tail))"

lemma path_split_samples:
  "path_split ''build/ns3//x.h'' = (''build/ns3'', ''x.h'') \<and> path_split ''/'' = (''/'', '''') \<and>
   path_split ''x.h'' = ('''', ''x.h'')"
  by code_simp

text \<open>\<open>os.path.join(*l)\<close> needs an argument.\<close>

definition join_args :: "string list \<Rightarrow> string pyres" where
  "join_args l = (if l = [] then Inl TypeError else Inr (path_join_all l))"

text \<open>The first scanner's loop, which only ends when the head becomes empty.\<close>

partial_function (option) relative_path_from :: "string \<Rightarrow> string list \<Rightarrow> string pyres option" where
  "relative_path_from head l =
     (if head = [] then Some (Inl AssertionError)
      else if snd (path_split head) = ''ns3'' then Some (join_args l)
      else relative_path_from (fst (path_split head)) (snd (path_split head) # l))"

definition get_ns3_relative_path :: "string \<Rightarrow> string pyres option" where
  "get_ns3_relative_path path = relative_path_from path []"

text \<open>The modular scanner's loop also ends when the head stays the same.\<close>

lemma path_split_length: "length (fst (path_split p)) \<le> length p - length (basename p)"
  using length_dropWhile_le [of "\<lambda>c. c = CHR ''/''" "rev (take (length p - length (basename p)) p)"]
  by (auto simp: path_split_def Let_def)

lemma rstrip_prefix: "\<exists>t. h = rev (dropWhile P (rev h)) @ t"
proof
  have "rev h = takeWhile P (rev h) @ dropWhile P (rev h)" by simp
  then show "h = rev (dropWhile P (rev h)) @ rev (takeWhile P (rev h))"
    by (metis rev_append rev_rev_ident)
qed

lemma path_split_prefix: "\<exists>t. p = fst (path_split p) @ t"
proof -
  obtain h where h: "h = take (length p - length (basename p)) p" by simp
  obtain t where t: "h = rev (dropWhile (\<lambda>c. c = CHR ''/'') (rev h)) @ t" using rstrip_prefix by blast
  have p: "p = h @ drop (length p - length (basename p)) p" by (simp add: h)
  have "fst (path_split p) = (if slashes h then h else rev (dropWhile (\<lambda>c. c = CHR ''/'') (rev h)))"
    by (simp add: path_split_def Let_def h)
  with p t show ?thesis by (metis append.assoc)
qed

lemma path_split_shorter: "fst (path_split p) \<noteq> p \<Longrightarrow> length (fst (path_split p)) < length p"
proof -
  assume ne: "fst (path_split p) \<noteq> p"
  obtain t where t: "p = fst (path_split p) @ t" using path_split_prefix by blast
  with ne have "t \<noteq> []" by auto
  then have "length (fst (path_split p)) < length (fst (path_split p) @ t)" by simp
  then show ?thesis by (simp flip: t)
qed

function modular_path_from :: "string \<Rightarrow> string list \<Rightarrow> string pyres" where
  "modular_path_from head l =
     (if head = [] then Inl AssertionError
      else if fst (path_split head) = head then Inl ValueError
      else if snd (path_split head) = ''ns3'' then join_args l
      else modular_path_from (fst (path_split head)) (snd (path_split head) # l))"
  by pat_completeness auto

termination
  by (relation "measure (\<lambda>(head, l). length head)") (auto intro: path_split_shorter)

declare modular_path_from.simps [simp del]

definition modular_relative_path :: "string \<Rightarrow> string option pyres" where
  "modular_relative_path path =
     (if path = [] then Inr None else rmap Some (modular_path_from path []))"

text \<open>The last component and what stands before it.\<close>

lemma basename_parts:
  "CHR ''/'' \<notin> set (basename p)"
  "take (length p - length (basename p)) p @ basename p = p"
  "take (length p - length (basename p)) p = [] \<or> last (take (length p - length (basename p)) p) = CHR ''/''"
proof -
  let ?q = "\<lambda>c. c \<noteq> CHR ''/''"
  have b: "basename p = rev (takeWhile ?q (rev p))" by (simp add: basename_def)
  have "rev p = takeWhile ?q (rev p) @ dropWhile ?q (rev p)" by simp
  then have p: "p = rev (dropWhile ?q (rev p)) @ basename p" by (metis b rev_append rev_rev_ident)
  then have t: "take (length p - length (basename p)) p = rev (dropWhile ?q (rev p))"
    by (metis append_eq_conv_conj length_append add_diff_cancel_right')
  show "CHR ''/'' \<notin> set (basename p)" by (auto simp: b dest: set_takeWhileD)
  show "take (length p - length (basename p)) p @ basename p = p" using p t by simp
  show "take (length p - length (basename p)) p = [] \<or> last (take (length p - length (basename p)) p) = CHR ''/''"
    using hd_dropWhile [of ?q "rev p"] by (cases "dropWhile ?q (rev p) = []") (simp_all add: t last_rev)
qed

text \<open>A head that stays the same is a root: it has no last component.\<close>

lemma path_split_same: "fst (path_split p) = p \<Longrightarrow> snd (path_split p) = []"
proof -
  assume "fst (path_split p) = p"
  with path_split_length [of p] have "length p \<le> length p - length (basename p)" by simp
  then have "basename p = [] \<or> p = []" by (cases "basename p"; cases p) auto
  moreover have "basename [] = []" by (simp add: basename_def)
  ultimately show ?thesis by (auto simp: path_split_def Let_def)
qed

text \<open>At a root the first loop never ends.\<close>

lemma stuck_at_root:
  assumes "relative_path_from head l = Some r"
  shows "head = [] \<or> fst (path_split head) \<noteq> head"
proof (rule relative_path_from.raw_induct [OF _ assms, where P = "\<lambda>head l r. head = [] \<or> fst (path_split head) \<noteq> head"])
  fix rec head l r
  assume IH: "\<And>head l r. rec head l = Some r \<Longrightarrow> head = [] \<or> fst (path_split head) \<noteq> head"
    and body: "(if head = [] then Some (Inl AssertionError)
      else if snd (path_split head) = ''ns3'' then Some (join_args l)
      else rec (fst (path_split head)) (snd (path_split head) # l)) = Some r"
  show "head = [] \<or> fst (path_split head) \<noteq> head"
  proof (rule ccontr)
    assume "\<not> ?thesis"
    then have h: "head \<noteq> []" "fst (path_split head) = head" by simp_all
    with body path_split_same [OF h(2)] have "rec head ([] # l) = Some r" by simp
    with IH h show False by blast
  qed
qed

lemma paths_agree:
  "relative_path_from head l = (if modular_path_from head l = Inl ValueError then None else Some (modular_path_from head l))"
proof (induction head l rule: modular_path_from.induct)
  case (1 head l)
  consider "head = []" | "head \<noteq> []" "fst (path_split head) = head"
    | "head \<noteq> []" "fst (path_split head) \<noteq> head" "snd (path_split head) = ''ns3''"
    | "head \<noteq> []" "fst (path_split head) \<noteq> head" "snd (path_split head) \<noteq> ''ns3''"
    by blast
  then show ?case
  proof cases
    case 2
    have "relative_path_from head l = None"
      using stuck_at_root [of head l] 2 by (cases "relative_path_from head l") auto
    then show ?thesis using 2 by (simp add: modular_path_from.simps [of head l])
  next
    case 4
    then show ?thesis using 1
      by (simp add: modular_path_from.simps [of head l] relative_path_from.simps [of head l])
  qed (simp_all add: modular_path_from.simps [of head l] modular_path_from.simps [of "[]" l]
      relative_path_from.simps [of head l] relative_path_from.simps [of "[]" l] join_args_def)
qed

text \<open>The components of a path that are not empty.\<close>

abbreviation path_names :: "string \<Rightarrow> string set" where
  "path_names p \<equiv> set (path_comps p)"

lemma path_names_eq: "path_names p = set (split_all (CHR ''/'') p) - {[]}"
  by (auto simp: path_comps_def)

lemma path_names_append: "path_names (a @ CHR ''/'' # b) = path_names a \<union> path_names b"
  by (auto simp: path_names_eq split_all_sep)

lemma path_names_Nil [simp]: "path_names [] = {}"
  by (simp add: path_comps_def)

lemma split_all_word: "c \<notin> set w \<Longrightarrow> split_all c w = [w]"
  by (induction w) auto

lemma path_names_word: "CHR ''/'' \<notin> set w \<Longrightarrow> path_names w = {w} - {[]}"
  by (simp add: path_names_eq split_all_word)

lemma path_names_rstrip: "path_names (rev (dropWhile (\<lambda>c. c = CHR ''/'') (rev h))) = path_names h"
proof (induction h rule: rev_induct)
  case (snoc c h)
  then show ?case using path_names_append [of h "[]"] by auto
qed simp

lemma path_names_split:
  "path_names p = path_names (fst (path_split p)) \<union> ({snd (path_split p)} - {[]})"
proof -
  define tail where "tail = basename p"
  define head where "head = take (length p - length tail) p"
  have tail: "CHR ''/'' \<notin> set tail" and p: "p = head @ tail" and head: "head = [] \<or> last head = CHR ''/''"
    using basename_parts [of p] by (simp_all add: tail_def head_def)
  have "path_names (head @ tail) = path_names head \<union> path_names tail"
  proof (cases head rule: rev_cases)
    case (snoc h c)
    then show ?thesis using head path_names_append [of h tail] path_names_append [of h "[]"] by simp
  qed simp
  then have "path_names p = path_names head \<union> path_names tail" by (simp flip: p)
  moreover have "path_names (fst (path_split p)) = path_names head"
    by (simp add: path_split_def Let_def path_names_rstrip flip: tail_def head_def)
  moreover have "snd (path_split p) = tail" by (simp add: path_split_def Let_def tail_def)
  ultimately show ?thesis using tail by (simp add: path_names_word)
qed

lemma absolute_split: "startswith (fst (path_split p)) ''/'' \<longleftrightarrow> startswith p ''/''"
proof -
  define tail where "tail = basename p"
  define head where "head = take (length p - length tail) p"
  have tail: "CHR ''/'' \<notin> set tail" and p: "p = head @ tail" and head: "head = [] \<or> last head = CHR ''/''"
    using basename_parts [of p] by (simp_all add: tail_def head_def)
  have fst: "fst (path_split p) = (if slashes head then head else rev (dropWhile (\<lambda>c. c = CHR ''/'') (rev head)))"
    by (simp add: path_split_def Let_def flip: tail_def head_def)
  show ?thesis
  proof (cases head)
    case Nil
    have "startswith (head @ tail) ''/'' \<longleftrightarrow> False" using tail Nil by (cases tail) auto
    then have "\<not> startswith p ''/''" by (simp flip: p)
    then show ?thesis using fst Nil by (simp add: slashes_def)
  next
    case (Cons c cs)
    define stripped where "stripped = rev (dropWhile (\<lambda>c. c = CHR ''/'') (rev head))"
    have "\<exists>t. head = stripped @ t" unfolding stripped_def by (rule rstrip_prefix)
    moreover have "\<not> slashes head \<Longrightarrow> stripped \<noteq> []"
      by (auto simp: stripped_def slashes_def list_all_iff dropWhile_eq_Nil_conv)
    moreover have "fst (path_split p) = (if slashes head then head else stripped)" by (simp add: fst stripped_def)
    ultimately have "fst (path_split p) \<noteq> []" "\<exists>t. head = fst (path_split p) @ t"
      using Cons by (cases "slashes head"; simp)+
    then have "startswith (fst (path_split p)) ''/'' \<longleftrightarrow> startswith (head @ tail) ''/''"
      by (cases "fst (path_split p)") auto
    then show ?thesis by (simp flip: p)
  qed
qed

lemma root_split: "p \<noteq> [] \<Longrightarrow> fst (path_split p) = p \<Longrightarrow> startswith p ''/'' \<and> path_names p = {}"
proof -
  assume ne: "p \<noteq> []" and same: "fst (path_split p) = p"
  then have b: "basename p = []" using path_split_same [OF same] by (simp add: path_split_def Let_def)
  then have p: "last p = CHR ''/''" using basename_parts [of p] ne by simp
  have "slashes p"
  proof (rule ccontr)
    assume "\<not> slashes p"
    then have s: "rev (dropWhile (\<lambda>c. c = CHR ''/'') (rev p)) = p" using same b by (simp add: path_split_def Let_def)
    obtain r where r: "p = r @ [CHR ''/'']" using p ne by (metis append_butlast_last_id)
    have "length p = length (dropWhile (\<lambda>c. c = CHR ''/'') (rev p))" using arg_cong [OF s, of length] by simp
    also have "\<dots> = length (dropWhile (\<lambda>c. c = CHR ''/'') (rev r))" by (simp add: r)
    also have "length (dropWhile (\<lambda>c. c = CHR ''/'') (rev r)) \<le> length r"
      using length_dropWhile_le [of "\<lambda>c. c = CHR ''/''" "rev r"] by simp
    finally show False by (simp add: r)
  qed
  then have all: "set p \<subseteq> {CHR ''/''}" by (auto simp: slashes_def list_all_iff)
  then have "path_names p = {}"
    using path_names_rstrip [of p] by (simp add: dropWhile_eq_Nil_conv [THEN iffD2] subset_iff)
  with all ne show ?thesis by (cases p) auto
qed

lemma modular_path_error:
  "modular_path_from head l = Inl ValueError \<longleftrightarrow> startswith head ''/'' \<and> ''ns3'' \<notin> path_names head"
proof (induction head l rule: modular_path_from.induct)
  case (1 head l)
  show ?case
  proof (cases "head = [] \<or> fst (path_split head) = head")
    case True
    then show ?thesis using root_split [of head]
      by (auto simp: modular_path_from.simps [of head l] modular_path_from.simps [of "[]" l])
  next
    case False
    then show ?thesis
      using 1 path_names_split [of head] absolute_split [of head]
      by (auto simp: modular_path_from.simps [of head l] join_args_def)
  qed
qed

text \<open>
  C26: on a path that is not empty the modular scanner's function is the first scanner's, made total: where
  the first one loops forever, which is exactly on an absolute path with no component \<open>ns3\<close>, the modular one
  raises a \<open>ValueError\<close>; elsewhere both return the same path or raise the same exception. On the empty path the
  first raises an \<open>AssertionError\<close> and the modular one returns \<open>None\<close>.
\<close>

theorem relative_path_total:
  "(get_ns3_relative_path path = None \<longleftrightarrow> startswith path ''/'' \<and> ''ns3'' \<notin> path_names path) \<and>
   modular_relative_path path =
    (if path = [] then Inr None
     else case get_ns3_relative_path path of None \<Rightarrow> Inl ValueError | Some r \<Rightarrow> rmap Some r) \<and>
   get_ns3_relative_path [] = Some (Inl AssertionError)"
proof (intro conjI)
  show "get_ns3_relative_path path = None \<longleftrightarrow> startswith path ''/'' \<and> ''ns3'' \<notin> path_names path"
    by (simp add: get_ns3_relative_path_def paths_agree modular_path_error)
  show "modular_relative_path path =
    (if path = [] then Inr None
     else case get_ns3_relative_path path of None \<Rightarrow> Inl ValueError | Some r \<Rightarrow> rmap Some r)"
    by (cases "modular_path_from path [] = Inl ValueError")
      (simp_all add: modular_relative_path_def get_ns3_relative_path_def paths_agree)
  show "get_ns3_relative_path [] = Some (Inl AssertionError)"
    by (simp add: get_ns3_relative_path_def paths_agree modular_path_from.simps)
qed

theorem relative_path_total_witness:
  "get_ns3_relative_path ''/usr/include/stdio.h'' = None \<and>
   modular_relative_path ''/usr/include/stdio.h'' = Inl ValueError \<and>
   get_ns3_relative_path ''build/ns3/node.h'' = Some (Inr ''node.h'') \<and>
   modular_relative_path ''build/ns3/node.h'' = Inr (Some ''node.h'')"
proof -
  have "startswith ''/usr/include/stdio.h'' ''/'' \<and> ''ns3'' \<notin> path_names ''/usr/include/stdio.h''" by code_simp
  then have "get_ns3_relative_path ''/usr/include/stdio.h'' = None"
    and "modular_relative_path ''/usr/include/stdio.h'' = Inl ValueError"
    using relative_path_total [of "''/usr/include/stdio.h''"] by simp_all
  moreover have m: "modular_relative_path ''build/ns3/node.h'' = Inr (Some ''node.h'')" by code_simp
  then have "get_ns3_relative_path ''build/ns3/node.h'' = Some (Inr ''node.h'')"
    using relative_path_total [of "''build/ns3/node.h''"]
    by (auto simp: rmap_eq_Inr_iff split: option.splits)
  ultimately show ?thesis using m by blast
qed

section \<open>Annotations\<close>

datatype annotation = AnnNone | AnnTrue | AnnText string | AnnParams "(string, (string, string) dict) dict"

type_synonym annotation_dict = "(string, annotation) dict"

definition dict_update :: "('k, 'v) dict \<Rightarrow> ('k, 'v) dict \<Rightarrow> ('k, 'v) dict" where
  "dict_update d e = foldl (\<lambda>d (k, v). dict_set k v d) d e"

definition type_annotations :: "(string, annotation_dict) dict" where
  "type_annotations =
   [
       (''::ns3::AttributeChecker'',
         [(''automatic_type_narrowing'', AnnText ''true''), (''allow_subclassing'', AnnText ''false'')]),
       (''::ns3::AttributeValue'',
         [(''automatic_type_narrowing'', AnnText ''true''), (''allow_subclassing'', AnnText ''false'')]),
       (''::ns3::CommandLine'',
         [(''allow_subclassing'', AnnText ''true'')]),
       (''::ns3::NscTcpL4Protocol'',
         [(''ignore'', AnnText ''true'')]),
       (''ns3::RandomVariable::RandomVariable(ns3::RandomVariableBase const & variable) [constructor]'',
         [(''ignore'', AnnNone)]),
       (''ns3::RandomVariableBase * ns3::RandomVariable::Peek() const [member function]'',
         [(''ignore'', AnnNone)]),
       (''void ns3::RandomVariable::GetSeed(uint32_t * seed) const [member function]'',
         [(''params'', AnnParams [(''seed'', [(''direction'', ''out''), (''array_length'', ''6'')])])]),
       (''bool ns3::TypeId::LookupAttributeByName(std::string name, ns3::TypeId::AttributeInformation * info) const [member function]'',
         [(''params'', AnnParams [(''info'', [(''transfer_ownership'', ''false'')])])]),
       (''static bool ns3::TypeId::LookupByNameFailSafe(std::string name, ns3::TypeId * tid) [member function]'',
         [(''ignore'', AnnNone)]),
       (''bool ns3::TraceSourceAccessor::ConnectWithoutContext(ns3::ObjectBase * obj, ns3::CallbackBase const & cb) const [member function]'',
         [(''params'', AnnParams [(''obj'', [(''transfer_ownership'', ''false'')])])]),
       (''bool ns3::TraceSourceAccessor::Connect(ns3::ObjectBase * obj, std::string context, ns3::CallbackBase const & cb) const [member function]'',
         [(''params'', AnnParams [(''obj'', [(''transfer_ownership'', ''false'')])])]),
       (''bool ns3::TraceSourceAccessor::DisconnectWithoutContext(ns3::ObjectBase * obj, ns3::CallbackBase const & cb) const [member function]'',
         [(''params'', AnnParams [(''obj'', [(''transfer_ownership'', ''false'')])])]),
       (''bool ns3::TraceSourceAccessor::Disconnect(ns3::ObjectBase * obj, std::string context, ns3::CallbackBase const & cb) const [member function]'',
         [(''params'', AnnParams [(''obj'', [(''transfer_ownership'', ''false'')])])]),
       (''bool ns3::AttributeAccessor::Set(ns3::ObjectBase * object, ns3::AttributeValue const & value) const [member function]'',
         [(''params'', AnnParams [(''object'', [(''transfer_ownership'', ''false'')])])]),
       (''ns3::EmpiricalVariable::EmpiricalVariable(ns3::RandomVariableBase const & variable) [constructor]'',
         [(''ignore'', AnnNone)]),
       (''static ns3::AttributeList * ns3::AttributeList::GetGlobal() [member function]'',
         [(''caller_owns_return'', AnnText ''false'')]),
       (''void ns3::CommandLine::Parse(int argc, char * * argv) const [member function]'',
         [(''ignore'', AnnNone)]),
       (''extern void ns3::PythonCompleteConstruct(ns3::Ptr<ns3::Object> object, ns3::TypeId typeId, ns3::AttributeList const & attributes) [free function]'',
         [(''ignore'', AnnNone)]),
       (''ns3::Ptr<ns3::Ipv4RoutingProtocol> ns3::Ipv4ListRouting::GetRoutingProtocol(uint32_t index, int16_t & priority) const [member function]'',
         [(''params'', AnnParams [(''priority'', [(''direction'', ''out'')])])]),
       (''ns3::Ipv4RoutingTableEntry * ns3::GlobalRouter::GetInjectedRoute(uint32_t i) [member function]'',
         [(''params'', AnnParams [(''return'', [(''caller_owns_return'', ''false'')])])]),
       (''ns3::Ipv4RoutingTableEntry * ns3::Ipv4GlobalRouting::GetRoute(uint32_t i) const [member function]'',
         [(''params'', AnnParams [(''return'', [(''caller_owns_return'', ''false'')])])]),
       (''::ns3::TestCase'',
         [(''ignore'', AnnText ''true'')]),
       (''::ns3::TestRunner'',
         [(''ignore'', AnnText ''true'')]),
       (''::ns3::TestSuite'',
         [(''ignore'', AnnText ''true'')])]"

datatype decl_kind =
    ClassDecl
  | EnumDecl
  | FreeFunction
  | MemberFunction
  | Constructor
  | OtherCall
  | OtherDecl

text \<open>
  What the hooks read of a definition. \<open>dc_template_files\<close> are the files of the declarations of the
  template parameters, where they have one.
\<close>

record decl =
  dc_kind :: decl_kind
  dc_file :: string
  dc_text :: string
  dc_name :: string
  dc_parent :: string
  dc_decl_string :: string
  dc_template_args :: "string list"
  dc_defaults :: "string option list"
  dc_is_instance :: bool
  dc_template_files :: "string option list"

text \<open>What the hooks change: the table, the two dictionaries of the parser, the default values of the arguments.\<close>

record annotations =
  an_table :: "(string, annotation_dict) dict"
  an_global :: annotation_dict
  an_params :: "(string, (string, string) dict) dict"
  an_defaults :: "string option list"

definition annotate :: "string \<Rightarrow> annotation \<Rightarrow> annotations \<Rightarrow> annotations" where
  "annotate k v a = a\<lparr>an_global := dict_set k v (an_global a)\<rparr>"

definition annotate_member :: "decl \<Rightarrow> annotations \<Rightarrow> annotations" where
  "annotate_member d a =
     (let get_object = dc_kind d = MemberFunction \<and> dc_parent d = ''Object'' \<and> dc_name d = ''GetObject'';
          simulator = dc_kind d = MemberFunction \<and> dc_parent d = ''Simulator'';
          a = (if get_object \<and> dc_template_args d = [''ns3::Object'']
               then annotate ''template_instance_names'' (AnnText ''ns3::Object=>GetObject'') a else a);
          a = (if simulator \<and> startswith (dc_name d) ''Schedule'' then annotate ''ignore'' AnnNone a else a)
      in if simulator \<and> dc_name d = ''Run'' then annotate ''ignore'' AnnTrue a else a)"

definition fix_default :: "string option \<Rightarrow> string option" where
  "fix_default v =
     (case v of
        None \<Rightarrow> None
      | Some s \<Rightarrow>
          Some (if s = ''ns3::MilliSeconds( )'' then ''ns3::MilliSeconds(0)''
                else if s = ''ns3::Seconds( )'' then ''ns3::Seconds(0)'' else s))"

definition is_call :: "decl_kind \<Rightarrow> bool" where
  "is_call k \<longleftrightarrow> k \<in> {FreeFunction, MemberFunction, Constructor, OtherCall}"

definition fix_defaults :: "decl \<Rightarrow> annotations \<Rightarrow> annotations" where
  "fix_defaults d a = (if is_call (dc_kind d) then a\<lparr>an_defaults := map fix_default (dc_defaults d)\<rparr> else a)"

text \<open>The classes that are annotated by the form of their name, after which the hook returns.\<close>

definition class_special :: "string \<Rightarrow> annotation_dict option" where
  "class_special s =
     (if startswith s ''::ns3::SimpleRefCount<'' then
        Some [(''incref_method'', AnnText ''Ref''), (''decref_method'', AnnText ''Unref''),
              (''peekref_method'', AnnText ''GetReferenceCount''), (''automatic_type_narrowing'', AnnText ''true'')]
      else if startswith s ''::ns3::Callback<'' \<or> startswith s ''::ns3::TracedCallback<'' \<or> startswith s ''::ns3::Ptr<''
      then Some [(''ignore'', AnnNone)]
      else None)"

definition annotate_class :: "decl \<Rightarrow> annotations \<Rightarrow> annotations" where
  "annotate_class d a =
     (case class_special (dc_decl_string d) of
        Some kvs \<Rightarrow> a\<lparr>an_global := dict_update (an_global a) kvs\<rparr>
      | None \<Rightarrow>
          (case map_of (an_table a) (dc_decl_string d) of
             None \<Rightarrow> a
           | Some kvs \<Rightarrow> a\<lparr>an_global := dict_update (an_global a) kvs\<rparr>))"

text \<open>The annotations of a function: the entry \<open>params\<close> is moved out of the table itself.\<close>

definition annotate_function :: "decl \<Rightarrow> annotations \<Rightarrow> annotations" where
  "annotate_function d a =
     (case map_of (an_table a) (dc_text d) of
        None \<Rightarrow> a
      | Some kvs \<Rightarrow>
          (case map_of kvs ''params'' of
             Some (AnnParams ps) \<Rightarrow>
               a\<lparr>an_params := dict_update (an_params a) ps,
                 an_table := dict_set (dc_text d) (dict_del ''params'' kvs) (an_table a),
                 an_global := dict_update (an_global a) (dict_del ''params'' kvs)\<rparr>
           | _ \<Rightarrow> a\<lparr>an_global := dict_update (an_global a) kvs\<rparr>))"

definition hook_body :: "string \<Rightarrow> decl \<Rightarrow> annotations \<Rightarrow> annotations" where
  "hook_body header d a =
     (let a = annotate ''pygen_comment'' (AnnText (header @ '': '' @ dc_text d)) a;
          a = fix_defaults d (annotate_member d a)
      in if dc_kind d = ClassDecl then annotate_class d a
         else if dc_kind d = FreeFunction \<and> dc_name d = ''PeekPointer'' then annotate ''ignore'' AnnNone a
         else if dc_kind d \<in> {FreeFunction, MemberFunction, Constructor} then annotate_function d a
         else a)"

definition pre_scan_hook :: "decl \<Rightarrow> annotations \<Rightarrow> annotations pyres option" where
  "pre_scan_hook d a = map_option (rmap (\<lambda>header. hook_body header d a)) (get_ns3_relative_path (dc_file d))"

section \<open>The hook of the modular scanner\<close>

definition underscored :: "string \<Rightarrow> string" where
  "underscored s = map (\<lambda>c. if c = CHR ''-'' then CHR ''_'' else c) s"

text \<open>The modules of the template parameters that have a declaration inside \<open>ns3\<close>.\<close>

fun template_modules :: "(string, string) dict \<Rightarrow> string option list \<Rightarrow> string list pyres" where
  "template_modules hm [] = Inr []"
| "template_modules hm (None # fs) = template_modules hm fs"
| "template_modules hm (Some f # fs) =
     (case modular_relative_path f of
        Inl e \<Rightarrow> if e = ValueError then template_modules hm fs else Inl e
      | Inr None \<Rightarrow> Inl KeyError
      | Inr (Some h) \<Rightarrow> rbind (dict_getitem hm h) (\<lambda>m. rmap (Cons m) (template_modules hm fs)))"

text \<open>The module a class is taken to belong to.\<close>

definition class_module :: "(string, string) dict \<Rightarrow> string \<Rightarrow> decl \<Rightarrow> string \<Rightarrow> string pyres" where
  "class_module hm own d definition_module =
     (if dc_is_instance d
      then rmap (\<lambda>ms. if own \<in> set ms then own else definition_module) (template_modules hm (dc_template_files d))
      else Inr definition_module)"

definition modular_body :: "(string, string) dict \<Rightarrow> string \<Rightarrow> string \<Rightarrow> string \<Rightarrow> decl \<Rightarrow> annotations \<Rightarrow> annotations pyres" where
  "modular_body hm own definition_module header d a =
     (let quote = [CHR 0x27];
          a = annotate ''pygen_comment''
                (AnnText (header @ '' (module '' @ quote @ definition_module @ quote @ ''): '' @ dc_text d)) a;
          a = fix_defaults d (annotate_member d a)
      in if dc_kind d = ClassDecl then
           rmap (\<lambda>dm. annotate_class d
             (if dm \<noteq> own then annotate ''import_from_module'' (AnnText (''ns.'' @ underscored dm)) a else a))
             (class_module hm own d definition_module)
         else if dc_kind d = EnumDecl then
           Inr (if definition_module \<noteq> own
                then annotate ''import_from_module'' (AnnText (''ns.'' @ definition_module)) a else a)
         else if dc_kind d = FreeFunction \<and> (definition_module \<noteq> own \<or> dc_name d = ''PeekPointer'') then
           Inr (annotate ''ignore'' AnnNone a)
         else if dc_kind d \<in> {FreeFunction, MemberFunction, Constructor} then Inr (annotate_function d a)
         else Inr a)"

definition modular_hook :: "(string, string) dict \<Rightarrow> string \<Rightarrow> decl \<Rightarrow> annotations \<Rightarrow> annotations pyres" where
  "modular_hook hm own d a =
     (case modular_relative_path (dc_file d) of
        Inl e \<Rightarrow> if e = ValueError then Inr a else Inl e
      | Inr None \<Rightarrow> Inr a
      | Inr (Some header) \<Rightarrow>
          if header = [] then Inr a
          else rbind (dict_getitem hm header) (\<lambda>m. modular_body hm own m header d a))"

section \<open>Sections of the output\<close>

text \<open>A module with its dependencies and headers.\<close>

type_synonym modules = "(string, string list \<times> string list) dict"

record scan_plan =
  sp_sections :: "(string \<times> string \<times> string option) list"
  sp_headers_map :: "(string, string) dict"
  sp_precedences :: "(string, int) dict"

definition module_graph :: "modules \<Rightarrow> (string \<times> string) list" where
  "module_graph ns3_modules =
     concat (map (\<lambda>m. map (\<lambda>dep. (dep, m)) (case map_of ns3_modules m of None \<Rightarrow> [] | Some dh \<Rightarrow> sort (fst dh)))
       (sort (dict_keys ns3_modules)))"

definition section_name :: "string \<Rightarrow> string" where
  "section_name m = ''ns3_module_'' @ underscored m"

definition dirname :: "string \<Rightarrow> string" where
  "dirname p = fst (path_split p)"

definition add_section :: "string \<Rightarrow> modules \<Rightarrow> scan_plan \<Rightarrow> nat \<times> string \<Rightarrow> scan_plan pyres" where
  "add_section pygen_file_name ns3_modules s pm =
     (case pm of (prec, m) \<Rightarrow>
        let name = section_name m;
            s = s\<lparr>sp_sections := sp_sections s @ [(name, path_join (dirname pygen_file_name) (name @ ''.py''), Some (name @ ''__local''))]\<rparr>
        in rbind (dict_getitem ns3_modules m) (\<lambda>dh.
             Inr (s\<lparr>sp_headers_map := foldl (\<lambda>hm h. dict_set h name hm) (sp_headers_map s) (snd dh),
                    sp_precedences := dict_set name (int prec) (sp_precedences s)\<rparr>)))"

definition plan_scan :: "string \<Rightarrow> modules \<Rightarrow> scan_plan pyres" where
  "plan_scan pygen_file_name ns3_modules =
     rbind (topsort (module_graph ns3_modules)) (\<lambda>ms.
       rfold (add_section pygen_file_name ns3_modules)
         \<lparr>sp_sections = [(''__main__'', pygen_file_name, None)], sp_headers_map = [], sp_precedences = []\<rparr>
         (enumerate 0 ms))"

definition classify :: "scan_plan \<Rightarrow> string \<Rightarrow> string" where
  "classify s file_name = (case map_of (sp_headers_map s) (basename file_name) of None \<Rightarrow> ''__main__'' | Some n \<Rightarrow> n)"

definition get_section_precedence :: "scan_plan \<Rightarrow> string \<Rightarrow> int pyres" where
  "get_section_precedence s name =
     (if name = ''__main__'' then Inr (- 1) else dict_getitem (sp_precedences s) name)"

section \<open>Properties of the plan\<close>

lemma add_sections_precedence:
  assumes "rfold (add_section f ns) s (enumerate n ms) = Inr s'" "distinct ms" "inj_on section_name (set ms)"
  shows "(\<forall>i < length ms. map_of (sp_precedences s') (section_name (ms ! i)) = Some (int (n + i))) \<and>
    (\<forall>name. name \<notin> section_name ` set ms \<longrightarrow> map_of (sp_precedences s') name = map_of (sp_precedences s) name)"
  using assms
proof (induction ms arbitrary: n s)
  case Nil
  then show ?case by simp
next
  case (Cons m ms)
  from Cons.prems(1) obtain t where t: "add_section f ns s (n, m) = Inr t"
    and rest: "rfold (add_section f ns) t (enumerate (Suc n) ms) = Inr s'"
    by (auto simp: rbind_eq_Inr_iff)
  have prec: "sp_precedences t = dict_set (section_name m) (int n) (sp_precedences s)"
    using t by (auto simp: add_section_def Let_def rbind_eq_Inr_iff)
  have m: "section_name m \<notin> section_name ` set ms"
    using Cons.prems(2,3) by (auto dest: inj_onD)
  from Cons.IH [OF rest] Cons.prems(2,3)
  have later: "\<And>i. i < length ms \<Longrightarrow> map_of (sp_precedences s') (section_name (ms ! i)) = Some (int (Suc n + i))"
    and other: "\<And>name. name \<notin> section_name ` set ms \<Longrightarrow> map_of (sp_precedences s') name = map_of (sp_precedences t) name"
    by simp_all
  show ?case
  proof (intro conjI allI impI)
    fix i
    assume "i < length (m # ms)"
    then show "map_of (sp_precedences s') (section_name ((m # ms) ! i)) = Some (int (n + i))"
      using other [OF m] later [of "i - 1"] by (cases i) (simp_all add: prec)
  next
    fix name
    assume "name \<notin> section_name ` set (m # ms)"
    then show "map_of (sp_precedences s') name = map_of (sp_precedences s) name"
      using other [of name] by (simp add: prec)
  qed
qed

lemma add_sections_error:
  "rfold (add_section f ns) s (enumerate n ms) = Inl e \<Longrightarrow> e = KeyError \<and> (\<exists>m \<in> set ms. map_of ns m = None)"
proof (induction ms arbitrary: n s)
  case (Cons m ms)
  then show ?case
    by (cases "map_of ns m") (auto simp: add_section_def Let_def dict_getitem_def)
qed simp

lemma takeWhile_before:
  "p \<in> set (takeWhile (\<lambda>x. x \<noteq> c) xs) \<Longrightarrow> c \<in> set xs \<Longrightarrow> \<exists>i j. i < j \<and> j < length xs \<and> xs ! i = p \<and> xs ! j = c"
proof -
  assume p: "p \<in> set (takeWhile (\<lambda>x. x \<noteq> c) xs)" and c: "c \<in> set xs"
  let ?j = "length (takeWhile (\<lambda>x. x \<noteq> c) xs)"
  have "dropWhile (\<lambda>x. x \<noteq> c) xs \<noteq> []" using c by auto
  then have "?j < length xs"
    by (metis takeWhile_dropWhile_id length_append length_greater_0_conv less_add_same_cancel1)
  moreover from this have "xs ! ?j = c" by (metis (mono_tags, lifting) nth_length_takeWhile)
  moreover from p obtain i where "i < ?j" "xs ! i = p"
    by (metis in_set_conv_nth takeWhile_nth)
  ultimately show ?thesis by blast
qed

definition depends :: "modules \<Rightarrow> string \<Rightarrow> string \<Rightarrow> bool" where
  "depends ns m d \<longleftrightarrow> (case map_of ns m of None \<Rightarrow> False | Some dh \<Rightarrow> d \<in> set (fst dh))"

lemma module_graph_depends: "(d, m) \<in> set (module_graph ns) \<longleftrightarrow> depends ns m d"
proof -
  have "m \<in> set (dict_keys ns) \<longleftrightarrow> map_of ns m \<noteq> None"
    by (auto simp: dict_keys_def map_of_eq_None_iff)
  then show ?thesis by (force simp: module_graph_def depends_def split: option.splits)
qed

text \<open>
  C23: planning the sections of the bindings fails only for a cycle of dependencies or an unknown
  dependency; otherwise a module's section comes after those of its dependencies and after the main one.
\<close>

theorem plan_scan_order:
  assumes "inj_on section_name (elements (module_graph ns))"
  shows "case plan_scan f ns of
      Inl e \<Rightarrow> e = CycleError \<and> \<not> acyclic {(d, m). depends ns m d} \<or> e = KeyError \<and> (\<exists>m d. depends ns m d \<and> map_of ns d = None)
    | Inr s \<Rightarrow> \<forall>m d. depends ns m d \<longrightarrow>
        (\<exists>k i j. get_section_precedence s ''__main__'' = Inr k \<and> get_section_precedence s (section_name d) = Inr i \<and>
          get_section_precedence s (section_name m) = Inr j \<and> k < i \<and> i < j)"
proof -
  let ?g = "module_graph ns" and ?s0 = "\<lparr>sp_sections = [(''__main__'', f, None)], sp_headers_map = [], sp_precedences = []\<rparr>"
  have pairs: "set ?g = {(d, m). depends ns m d}" by (auto simp: module_graph_depends)
  show ?thesis
  proof (cases "topsort ?g")
    case (Inl e)
    with topsort_correct [of ?g] show ?thesis by (simp add: plan_scan_def pairs)
  next
    case (Inr ms)
    with topsort_correct [of ?g] have ms: "distinct ms" "set ms = elements ?g" "in_order ?g ms" by simp_all
    show ?thesis
    proof (cases "rfold (add_section f ns) ?s0 (enumerate 0 ms)")
      case (Inl e)
      from add_sections_error [OF this] obtain x where "e = KeyError" "x \<in> elements ?g" "map_of ns x = None"
        by (auto simp: ms)
      moreover from this(2,3) have "\<exists>m. depends ns m x"
        by (auto simp: elements_def pairs) (auto simp: depends_def)
      ultimately show ?thesis using Inl \<open>topsort ?g = Inr ms\<close> by (auto simp: plan_scan_def)
    next
      case (Inr s)
      from add_sections_precedence [OF this ms(1)] assms
      have prec: "\<And>i. i < length ms \<Longrightarrow> map_of (sp_precedences s) (section_name (ms ! i)) = Some (int i)"
        by (simp add: ms)
      have main: "section_name m \<noteq> ''__main__''" for m by (simp add: section_name_def)
      have "\<exists>k i j. get_section_precedence s ''__main__'' = Inr k \<and> get_section_precedence s (section_name d) = Inr i \<and>
          get_section_precedence s (section_name m) = Inr j \<and> k < i \<and> i < j" if "depends ns m d" for m d
      proof -
        from that have e: "(d, m) \<in> set ?g" by (simp add: pairs)
        then have "m \<in> set ms" by (force simp: ms elements_def)
        with e ms(3) have "d \<in> set (takeWhile (\<lambda>x. x \<noteq> m) ms)" by (auto simp: in_order_def list_all_iff)
        from takeWhile_before [OF this \<open>m \<in> set ms\<close>] obtain i j where "i < j" "j < length ms" "ms ! i = d" "ms ! j = m"
          by blast
        with prec [of i] prec [of j] show ?thesis
          by (auto simp: get_section_precedence_def main dict_getitem_def)
      qed
      then show ?thesis using Inr \<open>topsort ?g = Inr ms\<close> by (simp add: plan_scan_def)
    qed
  qed
qed

definition sample_modules :: modules where
  "sample_modules =
     [(''wifi'', ([''network'', ''core''], [''wifi-phy.h''])), (''core'', ([], [''object.h''])),
      (''network'', ([''core''], [''node.h''])), (''stats'', ([], [''gnuplot.h'']))]"

theorem plan_scan_order_witness:
  "\<exists>s. plan_scan ''out/all.py'' sample_modules = Inr s \<and>
     map fst (sp_sections s) = [''__main__'', ''ns3_module_core'', ''ns3_module_network'', ''ns3_module_wifi''] \<and>
     (\<exists>i j. get_section_precedence s (section_name ''network'') = Inr i \<and> get_section_precedence s (section_name ''wifi'') = Inr j \<and> i < j)"
proof -
  have "(case plan_scan ''out/all.py'' sample_modules of Inl e \<Rightarrow> False | Inr s \<Rightarrow>
      map fst (sp_sections s) = [''__main__'', ''ns3_module_core'', ''ns3_module_network'', ''ns3_module_wifi''])"
    by code_simp
  then obtain s where s: "plan_scan ''out/all.py'' sample_modules = Inr s"
    "map fst (sp_sections s) = [''__main__'', ''ns3_module_core'', ''ns3_module_network'', ''ns3_module_wifi'']"
    by (auto split: sum.splits)
  have "elements (module_graph sample_modules) = {''core'', ''network'', ''wifi''}" by code_simp
  then have "inj_on section_name (elements (module_graph sample_modules))"
    by (simp add: section_name_def underscored_def)
  from plan_scan_order [OF this, of "''out/all.py''"] s
  have "\<forall>m d. depends sample_modules m d \<longrightarrow>
      (\<exists>k i j. get_section_precedence s ''__main__'' = Inr k \<and> get_section_precedence s (section_name d) = Inr i \<and>
        get_section_precedence s (section_name m) = Inr j \<and> k < i \<and> i < j)"
    by simp
  moreover have "depends sample_modules ''wifi'' ''network''" by code_simp
  ultimately have "\<exists>i j. get_section_precedence s (section_name ''network'') = Inr i \<and>
      get_section_precedence s (section_name ''wifi'') = Inr j \<and> i < j"
    by blast
  with s show ?thesis by (intro exI [of _ s]) simp
qed

text \<open>A module without dependencies on which nothing depends is in no pair, so it gets no section.\<close>

lemma isolated_module_lost:
  "(case plan_scan ''out/all.py'' sample_modules of Inl e \<Rightarrow> False | Inr s \<Rightarrow>
      classify s ''build/ns3/gnuplot.h'' = ''__main__'' \<and> classify s ''build/ns3/node.h'' = ''ns3_module_network'')"
  by code_simp

section \<open>Properties of the hooks\<close>

text \<open>The parameters of a function are taken from the table once: a second definition with the same text has none.\<close>

lemma hook_params_once:
  assumes "map_of (an_table a) (dc_text d) = Some kvs" "map_of kvs ''params'' = Some (AnnParams ps)"
    and "dc_kind d \<in> {MemberFunction, Constructor}"
  shows "an_params (hook_body h d a) = dict_update (an_params a) ps"
    and "an_params (hook_body h d (hook_body h d a)) = an_params (hook_body h d a)"
proof -
  let ?b = "fix_defaults d (annotate_member d (annotate ''pygen_comment'' (AnnText (h @ '': '' @ dc_text d)) a))"
  have keep: "an_table (annotate_member d x) = an_table x" "an_params (annotate_member d x) = an_params x"
    "an_table (fix_defaults d x) = an_table x" "an_params (fix_defaults d x) = an_params x"
    "an_table (annotate k v x) = an_table x" "an_params (annotate k v x) = an_params x" for x k v
    by (simp_all add: annotate_member_def fix_defaults_def annotate_def Let_def)
  have body: "hook_body h d x = annotate_function d (fix_defaults d (annotate_member d (annotate ''pygen_comment'' (AnnText (h @ '': '' @ dc_text d)) x)))" for x
    using assms(3) by (auto simp: hook_body_def Let_def)
  show "an_params (hook_body h d a) = dict_update (an_params a) ps"
    using assms(1,2) by (simp add: body annotate_function_def keep)
  have "map_of (an_table (hook_body h d a)) (dc_text d) = Some (dict_del ''params'' kvs)"
    using assms(1,2) by (simp add: body annotate_function_def keep)
  then have "an_params (annotate_function d (fix_defaults d (annotate_member d (annotate ''pygen_comment'' (AnnText (h @ '': '' @ dc_text d)) (hook_body h d a))))) =
      an_params (hook_body h d a)"
    by (simp add: annotate_function_def keep)
  then show "an_params (hook_body h d (hook_body h d a)) = an_params (hook_body h d a)" by (simp only: body)
qed

definition sample_enum :: decl where
  "sample_enum = \<lparr>dc_kind = EnumDecl, dc_file = ''build/ns3/lte-common.h'', dc_text = ''E'', dc_name = ''E'', dc_parent = [],
     dc_decl_string = ''::ns3::E'', dc_template_args = [], dc_defaults = [], dc_is_instance = False, dc_template_files = []\<rparr>"

text \<open>For an enumeration of another module the dash in the module's name is kept, for a class it is replaced.\<close>

lemma enum_import_dash:
  "let a = \<lparr>an_table = type_annotations, an_global = [], an_params = [], an_defaults = []\<rparr>;
       imported = (\<lambda>d. rmap (\<lambda>b. map_of (an_global b) ''import_from_module'')
         (modular_hook [(''lte-common.h'', ''point-to-point'')] ''mmwave'' d a))
   in imported sample_enum = Inr (Some (AnnText ''ns.point-to-point'')) \<and>
      imported (sample_enum\<lparr>dc_kind := ClassDecl\<rparr>) = Inr (Some (AnnText ''ns.point_to_point''))"
  by code_simp

end
