(* ===== verification/FlowStats.thy ===== *)
theory FlowStats
  imports TestXml PyNum
begin

text \<open>
  \<open>src/flow-monitor/examples/flowmon-parse-results.py\<close>: it reads the XML output of the flow monitor and
  prints, for each flow, its addresses, bit rates, delay and loss. Floats are exact, and \<open>%.2f\<close> is a
  parameter. An attribute of an object that the code has not set yet is \<open>None\<close>.
\<close>

section \<open>Reading numbers\<close>

text \<open>\<open>int\<close> and \<open>long\<close> of a text: blanks around, a sign, digits.\<close>

definition py_int_text :: "string \<Rightarrow> int pyres" where
  "py_int_text s =
     (let t = py_strip s; signed = t \<noteq> [] \<and> hd t \<in> {CHR ''+'', CHR ''-''}; ds = (if signed then tl t else t)
      in if ds = [] \<or> \<not> list_all py_digit ds then Inl ValueError
         else Inr (if signed \<and> hd t = CHR ''-'' then - int (nat_of_digits ds) else int (nat_of_digits ds)))"

text \<open>\<open>float\<close> of a text: digits with a point and an exponent, no infinity and no NaN.\<close>

definition py_float_text :: "string \<Rightarrow> rat pyres" where
  "py_float_text s =
     (let t = py_strip s; signed = t \<noteq> [] \<and> hd t \<in> {CHR ''+'', CHR ''-''}; u = (if signed then tl t else t);
          whole = takeWhile py_digit u; r1 = dropWhile py_digit u;
          frac = (if startswith r1 ''.'' then takeWhile py_digit (tl r1) else []);
          r2 = (if startswith r1 ''.'' then dropWhile py_digit (tl r1) else r1);
          m = of_nat (nat_of_digits (whole @ frac)) / 10 ^ length frac;
          v = (if signed \<and> hd t = CHR ''-'' then - m else m)
      in if whole = [] \<and> frac = [] then Inl ValueError
         else if r2 = [] then Inr v
         else if hd r2 \<in> {CHR ''e'', CHR ''E''} then
           rbind (if tl r2 \<noteq> [] \<and> py_space (hd (tl r2)) then Inl ValueError else py_int_text (tl r2)) (\<lambda>e.
             Inr (if 0 \<le> e then v * 10 ^ nat e else v / 10 ^ nat (- e)))
         else Inl ValueError)"

lemma number_samples:
  "py_int_text '' -12 '' = Inr (- 12) \<and> py_float_text ''1.25e1'' = Inr (25 / 2) \<and> py_float_text ''-3'' = Inr (- 3) \<and>
   py_int_text ''1.5'' = Inl ValueError"
  by code_simp

text \<open>\<open>el.get (key)\<close> where a text is needed, and such a text without its last four characters.\<close>

definition attr_text :: "xml \<Rightarrow> string \<Rightarrow> string pyres" where
  "attr_text el key = (case map_of (x_attrs el) key of None \<Rightarrow> Inl TypeError | Some s \<Rightarrow> Inr s)"

definition but_four :: "string \<Rightarrow> string" where
  "but_four s = take (length s - 4) s"

definition int_attr :: "xml \<Rightarrow> string \<Rightarrow> int pyres" where
  "int_attr el key = rbind (attr_text el key) py_int_text"

definition float_attr :: "xml \<Rightarrow> string \<Rightarrow> rat pyres" where
  "float_attr el key = rbind (attr_text el key) py_float_text"

definition time_attr :: "xml \<Rightarrow> string \<Rightarrow> int pyres" where
  "time_attr el key = rbind (attr_text el key) (\<lambda>s. py_int_text (but_four s))"

definition endswith :: "string \<Rightarrow> string \<Rightarrow> bool" where
  "endswith s p \<longleftrightarrow> length p \<le> length s \<and> drop (length s - length p) s = p"

definition parse_time_ns :: "string \<Rightarrow> int pyres" where
  "parse_time_ns tm = (if endswith tm ''ns'' then py_int_text (but_four tm) else Inl ValueError)"

section \<open>Flows\<close>

record five_tuple =
  ft_sourceAddress :: "string option"
  ft_destinationAddress :: "string option"
  ft_protocol :: int
  ft_sourcePort :: int
  ft_destinationPort :: int

definition FiveTuple :: "xml \<Rightarrow> five_tuple pyres" where
  "FiveTuple el =
     rbind (int_attr el ''sourcePort'') (\<lambda>sp.
     rbind (int_attr el ''destinationPort'') (\<lambda>dp.
     rbind (int_attr el ''protocol'') (\<lambda>pr.
       Inr \<lparr>ft_sourceAddress = map_of (x_attrs el) ''sourceAddress'',
            ft_destinationAddress = map_of (x_attrs el) ''destinationAddress'',
            ft_protocol = pr, ft_sourcePort = sp, ft_destinationPort = dp\<rparr>)))"

type_synonym histogram = "(rat \<times> rat \<times> int) list"

definition Histogram :: "xml \<Rightarrow> histogram pyres" where
  "Histogram el =
     rmapM (\<lambda>b.
       rbind (float_attr b ''start'') (\<lambda>s.
       rbind (float_attr b ''width'') (\<lambda>w.
       rbind (int_attr b ''count'') (\<lambda>c. Inr (s, w, c))))) (x_findall el ''bin'')"

record probe_flow_stats =
  pf_probeId :: int
  pf_packets :: int
  pf_bytes :: int
  pf_delayFromFirstProbe :: rat

record flow =
  fl_flowId :: int
  fl_delayMean :: "rat option"
  fl_packetLossRatio :: "rat option"
  fl_rxBitrate :: "rat option"
  fl_txBitrate :: "rat option"
  fl_fiveTuple :: "five_tuple option"
  fl_packetSizeMean :: "rat option"
  fl_probe_stats :: "probe_flow_stats list"
  fl_hopCount :: rat
  fl_interruptions :: "histogram option"
  fl_rx_duration :: rat

definition duration :: "xml \<Rightarrow> string \<Rightarrow> string \<Rightarrow> rat pyres" where
  "duration el later earlier =
     rbind (time_attr el later) (\<lambda>b. rbind (time_attr el earlier) (\<lambda>a. Inr (of_int (b - a) / 10 ^ 9)))"

definition bitrate :: "xml \<Rightarrow> string \<Rightarrow> rat \<Rightarrow> rat option pyres" where
  "bitrate el key seconds =
     (if seconds > 0 then rmap (\<lambda>b. Some (of_int (b * 8) / seconds)) (int_attr el key) else Inr None)"

definition loss_ratio :: "int \<Rightarrow> rat \<Rightarrow> rat option pyres" where
  "loss_ratio rxPackets lost =
     (if rxPackets = 0 then Inr None
      else if of_int rxPackets + lost = 0 then Inl ZeroDivisionError
      else Inr (Some (lost / (of_int rxPackets + lost))))"

definition Flow :: "xml \<Rightarrow> flow pyres" where
  "Flow el =
     rbind (int_attr el ''flowId'') (\<lambda>flowId.
     rbind (int_attr el ''rxPackets'') (\<lambda>rxPackets.
     rbind (int_attr el ''txPackets'') (\<lambda>txPackets.
     rbind (duration el ''timeLastTxPacket'' ''timeFirstTxPacket'') (\<lambda>tx_duration.
     rbind (duration el ''timeLastRxPacket'' ''timeFirstRxPacket'') (\<lambda>rx_duration.
     rbind (if rxPackets \<noteq> 0 then rmap (\<lambda>t. t / of_int rxPackets + 1) (float_attr el ''timesForwarded'')
            else Inr (- 1000)) (\<lambda>hopCount.
     rbind (if rxPackets \<noteq> 0 then
              rbind (rbind (attr_text el ''delaySum'') (\<lambda>s. py_float_text (but_four s))) (\<lambda>d.
              rmap (\<lambda>b. (Some (d / of_int rxPackets / 10 ^ 9), Some (b / of_int rxPackets))) (float_attr el ''rxBytes''))
            else Inr (None, None)) (\<lambda>(delayMean, packetSizeMean).
     rbind (bitrate el ''rxBytes'' rx_duration) (\<lambda>rxBitrate.
     rbind (bitrate el ''txBytes'' tx_duration) (\<lambda>txBitrate.
     rbind (float_attr el ''lostPackets'') (\<lambda>lost.
     rbind (loss_ratio rxPackets lost) (\<lambda>packetLossRatio.
     rbind (case x_find el ''flowInterruptionsHistogram'' of None \<Rightarrow> Inr None | Some h \<Rightarrow> rmap Some (Histogram h)) (\<lambda>hist.
       Inr \<lparr>fl_flowId = flowId, fl_delayMean = delayMean, fl_packetLossRatio = packetLossRatio, fl_rxBitrate = rxBitrate,
            fl_txBitrate = txBitrate, fl_fiveTuple = None, fl_packetSizeMean = packetSizeMean, fl_probe_stats = [],
            fl_hopCount = hopCount, fl_interruptions = hist, fl_rx_duration = rx_duration\<rparr>))))))))))))"

section \<open>A simulation\<close>

text \<open>The flows, and the map from an identifier to the flow object: its position in the list.\<close>

definition modify_flow :: "(int, nat) dict \<Rightarrow> int \<Rightarrow> (flow \<Rightarrow> flow) \<Rightarrow> flow list \<Rightarrow> flow list pyres" where
  "modify_flow flow_map flowId f flows = rmap (\<lambda>i. flows[i := f (flows ! i)]) (dict_getitem flow_map flowId)"

definition read_flow :: "flow list \<times> (int, nat) dict \<Rightarrow> xml \<Rightarrow> (flow list \<times> (int, nat) dict) pyres" where
  "read_flow st el =
     rmap (\<lambda>f. (fst st @ [f], dict_set (fl_flowId f) (length (fst st)) (snd st))) (Flow el)"

definition classified :: "xml \<Rightarrow> (int \<times> five_tuple) pyres" where
  "classified el = rbind (int_attr el ''flowId'') (\<lambda>i. rmap (Pair i) (FiveTuple el))"

definition classify_flow :: "(int, nat) dict \<Rightarrow> flow list \<Rightarrow> xml \<Rightarrow> flow list pyres" where
  "classify_flow fm flows el =
     rbind (classified el) (\<lambda>(flowId, t). modify_flow fm flowId (\<lambda>f. f\<lparr>fl_fiveTuple := Some t\<rparr>) flows)"

definition probed :: "int \<Rightarrow> xml \<Rightarrow> (int \<times> probe_flow_stats) pyres" where
  "probed probeId stats =
     rbind (int_attr stats ''flowId'') (\<lambda>flowId.
     rbind (int_attr stats ''packets'') (\<lambda>packets.
     rbind (int_attr stats ''bytes'') (\<lambda>bytes.
     rbind (if packets > 0 then
              rbind (attr_text stats ''delayFromFirstProbeSum'') (\<lambda>s.
                rmap (\<lambda>d. of_int d / of_int packets) (parse_time_ns s))
            else Inr 0) (\<lambda>delay.
       Inr (flowId, \<lparr>pf_probeId = probeId, pf_packets = packets, pf_bytes = bytes, pf_delayFromFirstProbe = delay\<rparr>)))))"

definition probe_flow :: "(int, nat) dict \<Rightarrow> int \<Rightarrow> flow list \<Rightarrow> xml \<Rightarrow> flow list pyres" where
  "probe_flow fm probeId flows stats =
     rbind (probed probeId stats) (\<lambda>(flowId, s).
       modify_flow fm flowId (\<lambda>f. f\<lparr>fl_probe_stats := fl_probe_stats f @ [s]\<rparr>) flows)"

definition read_probe :: "(int, nat) dict \<Rightarrow> flow list \<Rightarrow> xml \<Rightarrow> flow list pyres" where
  "read_probe fm flows probe =
     rbind (int_attr probe ''index'') (\<lambda>probeId. rfold (probe_flow fm probeId) flows (x_findall probe ''FlowStats''))"

text \<open>\<open>findall\<close> with a path of two tags.\<close>

definition x_findall2 :: "xml \<Rightarrow> string \<Rightarrow> string \<Rightarrow> xml list" where
  "x_findall2 el a b = concat (map (\<lambda>k. x_findall k b) (x_findall el a))"

definition Simulation :: "xml \<Rightarrow> flow list pyres" where
  "Simulation el =
     (case x_findall el ''Ipv4FlowClassifier'' of
        [classifier] \<Rightarrow>
          rbind (rfold read_flow ([], []) (x_findall2 el ''FlowStats'' ''Flow'')) (\<lambda>(flows, flow_map).
          rbind (rfold (classify_flow flow_map) flows (x_findall classifier ''Flow'')) (\<lambda>flows.
            rfold (read_probe flow_map) flows (x_findall2 el ''FlowProbes'' ''FlowProbe'')))
      | _ \<Rightarrow> Inl ValueError)"

section \<open>The program\<close>

text \<open>The events of \<open>iterparse\<close>.\<close>

datatype parse_event = StartEvent xml | EndEvent xml

definition read_event :: "int \<times> flow list list \<Rightarrow> parse_event \<Rightarrow> (int \<times> flow list list) pyres" where
  "read_event st ev =
     (case ev of
        StartEvent e \<Rightarrow> Inr (fst st + 1, snd st)
      | EndEvent e \<Rightarrow>
          (let level = fst st - 1 in
           if level = 0 \<and> x_tag e = ''FlowMonitor'' then rmap (\<lambda>s. (level, snd st @ [s])) (Simulation e)
           else Inr (level, snd st)))"

definition show_value :: "string \<Rightarrow> string \<Rightarrow> (rat \<Rightarrow> string) \<Rightarrow> rat \<Rightarrow> rat option \<Rightarrow> string" where
  "show_value label unit fmt scale v =
     py_tab # label @ '': '' @ (case v of None \<Rightarrow> ''None'' | Some x \<Rightarrow> fmt (x * scale) @ unit)"

definition protocol_name :: "int \<Rightarrow> string pyres" where
  "protocol_name p = dict_getitem [(6, ''TCP''), (17, ''UDP'')] p"

definition flow_lines :: "(rat \<Rightarrow> string) \<Rightarrow> flow \<Rightarrow> string list pyres" where
  "flow_lines fmt f =
     (case fl_fiveTuple f of
        None \<Rightarrow> Inl AttributeError
      | Some t \<Rightarrow> rmap (\<lambda>proto.
          [''FlowID: '' @ show_int (fl_flowId f) @ '' ('' @ proto @ '' '' @ show_opt (ft_sourceAddress t) @ ''/'' @
             show_int (ft_sourcePort t) @ '' --> '' @ show_opt (ft_destinationAddress t) @ ''/'' @
             show_int (ft_destinationPort t) @ '')'',
           show_value ''TX bitrate'' '' kbit/s'' fmt (1 / 1000) (fl_txBitrate f),
           show_value ''RX bitrate'' '' kbit/s'' fmt (1 / 1000) (fl_rxBitrate f),
           show_value ''Mean Delay'' '' ms'' fmt 1000 (fl_delayMean f),
           show_value ''Packet Loss Ratio'' '' %'' fmt 100 (fl_packetLossRatio f)]) (protocol_name (ft_protocol t)))"

definition flow_main :: "(rat \<Rightarrow> string) \<Rightarrow> parse_event list \<Rightarrow> string list pyres" where
  "flow_main fmt events =
     rbind (rfold read_event (0, []) events) (\<lambda>(level, sim_list).
       rmap concat (rmapM (flow_lines fmt) (concat sim_list)))"

section \<open>Properties\<close>

text \<open>Times as the simulator prints them, with one decimal; any other number of decimals is misread.\<close>

lemma parse_time_printed: "parse_time_ns (CHR ''+'' # show_nat n @ ''.0ns'') = Inr (int n)"
proof -
  let ?s = "CHR ''+'' # show_nat n @ ''.0ns''"
  have four: "but_four ?s = CHR ''+'' # show_nat n" by (simp add: but_four_def)
  have ends: "endswith ?s ''ns''" by (simp add: endswith_def)
  have digits: "list_all py_digit (show_nat n)" by (auto simp: list_all_iff intro: show_nat_digits)
  have no_space: "\<not> py_space c" if "py_digit c" for c
    using that by (auto simp: py_digit_def py_space_def)
  have last: "\<not> py_space (last (show_nat n))" using digits no_space by (simp add: list_all_iff)
  have "py_strip (CHR ''+'' # show_nat n) = CHR ''+'' # show_nat n"
    using last by (cases "show_nat n" rule: rev_cases) (simp_all add: py_strip_def py_lstrip_def py_space_def)
  then show ?thesis using digits by (simp add: parse_time_ns_def ends four py_int_text_def Let_def)
qed

lemma parse_time_truncates: "parse_time_ns ''+1000ns'' = Inr 10"
  by code_simp

text \<open>What a flow reports is in range: loss between 0 and 1, no negative rates, no less than one hop.\<close>

lemma loss_ratio_range:
  "loss_ratio rx lost = Inr (Some r) \<Longrightarrow> 0 \<le> rx \<Longrightarrow> 0 \<le> lost \<Longrightarrow> 0 \<le> r \<and> r < 1"
proof -
  assume l: "loss_ratio rx lost = Inr (Some r)" "0 \<le> rx" "0 \<le> lost"
  then have rx: "0 < rx" and r: "r = lost / (rat_of_int rx + lost)"
    by (auto simp: loss_ratio_def split: if_splits)
  from rx l(3) have "0 < rat_of_int rx + lost" by (simp add: add_pos_nonneg)
  with rx l(3) show ?thesis by (simp add: r divide_less_eq)
qed

text \<open>Updates of flows through the map.\<close>

definition apply_update :: "(int, nat) dict \<Rightarrow> nat \<Rightarrow> flow \<Rightarrow> int \<times> (flow \<Rightarrow> flow) \<Rightarrow> flow" where
  "apply_update fm i f ku = (if map_of fm (fst ku) = Some i then snd ku f else f)"

definition in_flows :: "(int, nat) dict \<Rightarrow> flow list \<Rightarrow> bool" where
  "in_flows fm flows \<longleftrightarrow> (\<forall>k i. map_of fm k = Some i \<longrightarrow> i < length flows)"

lemma modify_flows:
  assumes "rfold (\<lambda>flows x. rbind (dec x) (\<lambda>d. modify_flow fm (key d) (upd d) flows)) flows xs = Inr flows'"
    and "in_flows fm flows"
  shows "\<exists>ds. rmapM dec xs = Inr ds \<and> (\<forall>d\<in>set ds. map_of fm (key d) \<noteq> None) \<and> length flows' = length flows \<and>
    (\<forall>i<length flows. flows' ! i = foldl (apply_update fm i) (flows ! i) (map (\<lambda>d. (key d, upd d)) ds))"
  using assms
proof (induction xs arbitrary: flows)
  case Nil
  then show ?case by simp
next
  case (Cons x xs)
  from Cons.prems(1) obtain d k where d: "dec x = Inr d" "map_of fm (key d) = Some k"
    and rest: "rfold (\<lambda>flows x. rbind (dec x) (\<lambda>d. modify_flow fm (key d) (upd d) flows)) (flows[k := upd d (flows ! k)]) xs = Inr flows'"
    by (auto simp: rbind_eq_Inr_iff modify_flow_def rmap_eq_Inr_iff dict_getitem_def split: option.splits)
  from Cons.IH [OF rest] Cons.prems(2) obtain ds where ds: "rmapM dec xs = Inr ds" "\<forall>d\<in>set ds. map_of fm (key d) \<noteq> None"
    "length flows' = length flows"
    "\<forall>i<length flows. flows' ! i = foldl (apply_update fm i) (flows[k := upd d (flows ! k)] ! i) (map (\<lambda>d. (key d, upd d)) ds)"
    by (auto simp: in_flows_def)
  have "k < length flows" using Cons.prems(2) d(2) by (simp add: in_flows_def)
  then have "flows[k := upd d (flows ! k)] ! i = apply_update fm i (flows ! i) (key d, upd d)" if "i < length flows" for i
    using that d(2) by (auto simp: apply_update_def)
  with d ds show ?case by (intro exI [of _ "d # ds"]) auto
qed

text \<open>An identifier stands for the last flow that has it.\<close>

definition last_with :: "flow list \<Rightarrow> nat \<Rightarrow> bool" where
  "last_with fs i \<longleftrightarrow> fl_flowId (fs ! i) \<notin> fl_flowId ` set (drop (Suc i) fs)"

lemma read_flows:
  "rfold read_flow ([], []) els = Inr (fs, fm) \<Longrightarrow>
   rmapM Flow els = Inr fs \<and>
   (\<forall>k i. map_of fm k = Some i \<longleftrightarrow> i < length fs \<and> fl_flowId (fs ! i) = k \<and> last_with fs i)"
proof (induction els arbitrary: fs fm rule: rev_induct)
  case Nil
  then show ?case by simp
next
  case (snoc el els)
  from snoc.prems obtain st where st: "rfold read_flow ([], []) els = Inr st" "read_flow st el = Inr (fs, fm)"
    by (auto simp: rfold_append rbind_eq_Inr_iff)
  obtain gs gm where "st = (gs, gm)" by (cases st)
  with st obtain f where gs: "rfold read_flow ([], []) els = Inr (gs, gm)" and f: "Flow el = Inr f"
    and fs: "fs = gs @ [f]" "fm = dict_set (fl_flowId f) (length gs) gm"
    by (auto simp: read_flow_def [of "(gs, gm)"] rmap_eq_Inr_iff)
  note IH = snoc.IH [OF gs]
  have "map_of fm k = Some i \<longleftrightarrow> i < length fs \<and> fl_flowId (fs ! i) = k \<and> last_with fs i" for k i
  proof (cases "i < length gs")
    case True
    then show ?thesis using IH by (auto simp: fs last_with_def nth_append)
  next
    case False
    then show ?thesis using IH by (auto simp: fs last_with_def nth_append)
  qed
  moreover have "rmapM Flow (els @ [el]) = Inr (gs @ [f])"
    using IH f by (auto simp: rmapM_append)
  ultimately show ?case by (simp add: fs)
qed

text \<open>What the other parts of the output say of the flow at a position.\<close>

definition of_flow :: "flow list \<Rightarrow> nat \<Rightarrow> (int \<times> 'd) list \<Rightarrow> 'd list" where
  "of_flow bases i ds = (if last_with bases i then map snd (filter (\<lambda>d. fst d = fl_flowId (bases ! i)) ds) else [])"

definition complete_flow :: "flow list \<Rightarrow> (int \<times> five_tuple) list \<Rightarrow> (int \<times> probe_flow_stats) list \<Rightarrow> nat \<Rightarrow> flow" where
  "complete_flow bases tuples stats i =
     (bases ! i)\<lparr>fl_fiveTuple := (if of_flow bases i tuples = [] then fl_fiveTuple (bases ! i) else Some (last (of_flow bases i tuples))),
                fl_probe_stats := fl_probe_stats (bases ! i) @ of_flow bases i stats\<rparr>"

definition probe_stats :: "xml \<Rightarrow> (int \<times> probe_flow_stats) list pyres" where
  "probe_stats probe = rbind (int_attr probe ''index'') (\<lambda>probeId. rmapM (probed probeId) (x_findall probe ''FlowStats''))"

lemma apply_tuples:
  assumes "\<And>k. map_of fm k = Some i \<longleftrightarrow> k = fl_flowId (bases ! i) \<and> last_with bases i"
  shows "foldl (apply_update fm i) f (map (\<lambda>d. (fst d, fl_fiveTuple_update (\<lambda>_. Some (snd d)))) ds) =
    f\<lparr>fl_fiveTuple := (if of_flow bases i ds = [] then fl_fiveTuple f else Some (last (of_flow bases i ds)))\<rparr>"
  using assms by (induction ds rule: rev_induct) (auto simp: apply_update_def of_flow_def)

lemma apply_stats:
  assumes "\<And>k. map_of fm k = Some i \<longleftrightarrow> k = fl_flowId (bases ! i) \<and> last_with bases i"
  shows "foldl (apply_update fm i) f (map (\<lambda>d. (fst d, \<lambda>f. f\<lparr>fl_probe_stats := fl_probe_stats f @ [snd d]\<rparr>)) ds) =
    f\<lparr>fl_probe_stats := fl_probe_stats f @ of_flow bases i ds\<rparr>"
  using assms by (induction ds rule: rev_induct) (auto simp: apply_update_def of_flow_def)

lemma read_probes:
  assumes "rfold (read_probe fm) flows probes = Inr flows'" and "in_flows fm flows"
  shows "\<exists>dss. rmapM probe_stats probes = Inr dss \<and> length flows' = length flows \<and>
    (\<forall>i<length flows. flows' ! i = foldl (apply_update fm i) (flows ! i)
      (map (\<lambda>d. (fst d, \<lambda>f. f\<lparr>fl_probe_stats := fl_probe_stats f @ [snd d]\<rparr>)) (concat dss)))"
  using assms
proof (induction probes arbitrary: flows)
  case Nil
  then show ?case by simp
next
  case (Cons probe probes)
  from Cons.prems(1) obtain i flows1 where i: "int_attr probe ''index'' = Inr i"
    and one: "rfold (probe_flow fm i) flows (x_findall probe ''FlowStats'') = Inr flows1"
    and rest: "rfold (read_probe fm) flows1 probes = Inr flows'"
    by (auto simp: read_probe_def [of fm flows probe] rbind_eq_Inr_iff)
  have "probe_flow fm i = (\<lambda>flows x. rbind (probed i x) (\<lambda>d. modify_flow fm (fst d) (\<lambda>f. f\<lparr>fl_probe_stats := fl_probe_stats f @ [snd d]\<rparr>) flows))"
    by (simp add: fun_eq_iff probe_flow_def case_prod_unfold)
  from modify_flows [OF one [unfolded this] Cons.prems(2)] obtain ds where ds: "rmapM (probed i) (x_findall probe ''FlowStats'') = Inr ds"
    "length flows1 = length flows" "\<forall>j<length flows. flows1 ! j = foldl (apply_update fm j) (flows ! j)
      (map (\<lambda>d. (fst d, \<lambda>f. f\<lparr>fl_probe_stats := fl_probe_stats f @ [snd d]\<rparr>)) ds)"
    by blast
  from Cons.IH [OF rest] Cons.prems(2) ds(2) obtain dss where "rmapM probe_stats probes = Inr dss" "length flows' = length flows1"
    "\<forall>i<length flows1. flows' ! i = foldl (apply_update fm i) (flows1 ! i)
      (map (\<lambda>d. (fst d, \<lambda>f. f\<lparr>fl_probe_stats := fl_probe_stats f @ [snd d]\<rparr>)) (concat dss))"
    by (auto simp: in_flows_def)
  with ds i show ?case by (intro exI [of _ "ds # dss"]) (simp add: probe_stats_def [of probe])
qed

text \<open>
  C25: reading the output gives the flows in the order of the file, each with the numbers of its own
  element; the last flow of an identifier gets the addresses of the last entry of the classifier for it
  and the reports of all probes on it, in order.
\<close>

theorem simulation_flows:
  assumes "Simulation el = Inr flows"
  shows "\<exists>classifier bases tuples stats. x_findall el ''Ipv4FlowClassifier'' = [classifier] \<and>
    rmapM Flow (x_findall2 el ''FlowStats'' ''Flow'') = Inr bases \<and>
    rmapM classified (x_findall classifier ''Flow'') = Inr tuples \<and>
    rmap concat (rmapM probe_stats (x_findall2 el ''FlowProbes'' ''FlowProbe'')) = Inr stats \<and>
    flows = map (complete_flow bases tuples stats) [0..<length bases]"
proof -
  obtain classifier bases fm flows1 where c: "x_findall el ''Ipv4FlowClassifier'' = [classifier]"
    and r: "rfold read_flow ([], []) (x_findall2 el ''FlowStats'' ''Flow'') = Inr (bases, fm)"
    and t: "rfold (classify_flow fm) bases (x_findall classifier ''Flow'') = Inr flows1"
    and p: "rfold (read_probe fm) flows1 (x_findall2 el ''FlowProbes'' ''FlowProbe'') = Inr flows"
    using assms by (auto simp: Simulation_def rbind_eq_Inr_iff split: list.splits)
  from read_flows [OF r] have bases: "rmapM Flow (x_findall2 el ''FlowStats'' ''Flow'') = Inr bases"
    and fm: "\<And>k i. map_of fm k = Some i \<longleftrightarrow> i < length bases \<and> fl_flowId (bases ! i) = k \<and> last_with bases i"
    by blast+
  have eq: "classify_flow fm = (\<lambda>flows x. rbind (classified x) (\<lambda>d. modify_flow fm (fst d) (fl_fiveTuple_update (\<lambda>_. Some (snd d))) flows))"
    by (simp add: fun_eq_iff classify_flow_def case_prod_unfold)
  have "in_flows fm bases" using fm by (simp add: in_flows_def)
  from modify_flows [OF t [unfolded eq] this] obtain tuples where
    tuples: "rmapM classified (x_findall classifier ''Flow'') = Inr tuples" "length flows1 = length bases"
    "\<And>i. i < length bases \<Longrightarrow> flows1 ! i = foldl (apply_update fm i) (bases ! i) (map (\<lambda>d. (fst d, fl_fiveTuple_update (\<lambda>_. Some (snd d)))) tuples)"
    by blast
  have "in_flows fm flows1" using fm tuples(2) by (simp add: in_flows_def)
  from read_probes [OF p this] obtain dss where
    stats: "rmapM probe_stats (x_findall2 el ''FlowProbes'' ''FlowProbe'') = Inr dss" "length flows = length bases"
    "\<And>i. i < length bases \<Longrightarrow> flows ! i = foldl (apply_update fm i) (flows1 ! i)
      (map (\<lambda>d. (fst d, \<lambda>f. f\<lparr>fl_probe_stats := fl_probe_stats f @ [snd d]\<rparr>)) (concat dss))"
    unfolding tuples(2) by blast
  have "flows ! i = complete_flow bases tuples (concat dss) i" if i: "i < length bases" for i
  proof -
    have own: "map_of fm k = Some i \<longleftrightarrow> k = fl_flowId (bases ! i) \<and> last_with bases i" for k
      using fm i by auto
    show ?thesis
      by (simp add: stats(3) [OF i] tuples(3) [OF i] apply_tuples [OF own] apply_stats [OF own] complete_flow_def)
  qed
  then have "flows = map (complete_flow bases tuples (concat dss)) [0..<length bases]"
    using stats(2) by (intro nth_equalityI) simp_all
  with c bases tuples(1) stats(1) show ?thesis by auto
qed

definition sample_flow :: "string \<Rightarrow> xml" where
  "sample_flow i =
     Elem ''Flow'' [(''flowId'', i), (''rxPackets'', ''3''), (''txPackets'', ''4''), (''timeFirstTxPacket'', ''+0.0ns''),
       (''timeLastTxPacket'', ''+1.0ns''), (''timeFirstRxPacket'', ''+0.0ns''), (''timeLastRxPacket'', ''+2.0ns''),
       (''timesForwarded'', ''3''), (''delaySum'', ''+6.0ns''), (''rxBytes'', ''30''), (''txBytes'', ''40''), (''lostPackets'', ''1'')] None []"

definition sample_output :: xml where
  "sample_output = Elem ''FlowMonitor'' [] None
     [Elem ''FlowStats'' [] None [sample_flow ''1'', sample_flow ''2''],
      Elem ''Ipv4FlowClassifier'' [] None
        [Elem ''Flow'' [(''flowId'', ''2''), (''sourceAddress'', ''10.1.1.1''), (''destinationAddress'', ''10.1.1.2''), (''protocol'', ''17''),
           (''sourcePort'', ''9''), (''destinationPort'', ''80'')] None []],
      Elem ''FlowProbes'' [] None
        [Elem ''FlowProbe'' [(''index'', ''0'')] None [Elem ''FlowStats'' [(''flowId'', ''2''), (''packets'', ''0''), (''bytes'', ''0'')] None []]]]"

theorem simulation_flows_witness:
  "\<exists>flows bases tuples stats. Simulation sample_output = Inr flows \<and> flows = map (complete_flow bases tuples stats) [0..<2] \<and>
     map fl_packetLossRatio flows = [Some (1 / 4), Some (1 / 4)] \<and> map fl_rxBitrate flows = [Some 120000000000, Some 120000000000] \<and>
     map (map_option ft_destinationPort \<circ> fl_fiveTuple) flows = [None, Some 80]"
proof -
  have "(case Simulation sample_output of Inl e \<Rightarrow> False | Inr flows \<Rightarrow> length flows = 2 \<and>
     map fl_packetLossRatio flows = [Some (1 / 4), Some (1 / 4)] \<and> map fl_rxBitrate flows = [Some 120000000000, Some 120000000000] \<and>
     map (map_option ft_destinationPort \<circ> fl_fiveTuple) flows = [None, Some 80])"
    by code_simp
  then obtain flows where f: "Simulation sample_output = Inr flows" "length flows = 2"
    "map fl_packetLossRatio flows = [Some (1 / 4), Some (1 / 4)]" "map fl_rxBitrate flows = [Some 120000000000, Some 120000000000]"
    "map (map_option ft_destinationPort \<circ> fl_fiveTuple) flows = [None, Some 80]"
    by (auto split: sum.splits)
  from simulation_flows [OF f(1)] obtain bases tuples stats where m: "flows = map (complete_flow bases tuples stats) [0..<length bases]"
    by blast
  with f(2) have "length bases = 2" by (metis length_map length_upt diff_zero)
  with f m show ?thesis by metis
qed

text \<open>A flow the classifier does not list ends the program.\<close>

lemma unclassified_flow_raises:
  "flow_main (\<lambda>x. ''?'') [StartEvent sample_output, EndEvent sample_output] = Inl AttributeError"
  by code_simp

end
