(* ===== verification/CreateModule.thy ===== *)
theory CreateModule
  imports ModuleTemplates Prelude
begin

text \<open>
  \<open>src/create-module.py\<close>: it creates the directory of a new module and its files, from templates. A path
  is the list of its components; the disk is a map from paths. Texts are ASCII.
\<close>

section \<open>Formatting with a dictionary\<close>

text \<open>\<open>template % dict\<close> with the conversions \<open>%(key)s\<close>, \<open>%(key)r\<close> and \<open>%%\<close>, character by character.\<close>

datatype piece = Chr char | Ref string char

definition prepend :: "piece \<Rightarrow> piece list pyres \<Rightarrow> piece list pyres" where
  "prepend p r = rmap (Cons p) r"

lemma dropWhile_shorter: "dropWhile P s = p # k # r \<Longrightarrow> length r < length s"
  using length_dropWhile_le [of P s] by simp

function pieces :: "string \<Rightarrow> piece list pyres" where
  "pieces [] = Inr []"
| "pieces (c # s) =
     (if c \<noteq> CHR ''%'' then prepend (Chr c) (pieces s)
      else case s of
          [] \<Rightarrow> Inl ValueError
        | d # s1 \<Rightarrow>
            if d = CHR ''%'' then prepend (Chr d) (pieces s1)
            else if d = CHR ''('' then
              case dropWhile (\<lambda>x. x \<noteq> CHR '')'') s1 of
                p # k # s2 \<Rightarrow>
                  if k \<in> {CHR ''s'', CHR ''r''}
                  then prepend (Ref (takeWhile (\<lambda>x. x \<noteq> CHR '')'') s1) k) (pieces s2)
                  else Inl ValueError
              | _ \<Rightarrow> Inl ValueError
            else Inl ValueError)"
  by pat_completeness auto

termination
  by (relation "measure length") (auto dest: dropWhile_shorter)

text \<open>\<open>repr\<close> of a text without quotes, backslashes and control characters.\<close>

definition py_repr :: "string \<Rightarrow> string" where
  "py_repr s = CHR 0x27 # s @ [CHR 0x27]"

definition render :: "(string, string) dict \<Rightarrow> piece \<Rightarrow> string pyres" where
  "render d p =
     (case p of
        Chr c \<Rightarrow> Inr [c]
      | Ref key k \<Rightarrow> rmap (if k = CHR ''r'' then py_repr else id) (dict_getitem d key))"

definition py_format :: "string \<Rightarrow> (string, string) dict \<Rightarrow> string pyres" where
  "py_format template d = rbind (pieces template) (\<lambda>ps. rmap concat (rmapM (render d) ps))"

lemma format_samples:
  "py_format ''a%(X)s%%-%(X)r'' [(''X'', ''b'')] = Inr (''ab%-'' @ py_repr ''b'')"
  by code_simp


section \<open>Names\<close>

definition py_upper :: "char \<Rightarrow> char" where
  "py_upper c = (if 97 \<le> (of_char c :: nat) \<and> (of_char c :: nat) \<le> 122 then char_of (of_char c - 32 :: nat) else c)"

definition py_lower :: "char \<Rightarrow> char" where
  "py_lower c = (if 65 \<le> (of_char c :: nat) \<and> (of_char c :: nat) \<le> 90 then char_of (of_char c + 32 :: nat) else c)"

definition py_letter :: "char \<Rightarrow> bool" where
  "py_letter c \<longleftrightarrow> (65 \<le> (of_char c :: nat) \<and> (of_char c :: nat) \<le> 90) \<or> (97 \<le> (of_char c :: nat) \<and> (of_char c :: nat) \<le> 122)"

definition isalnum :: "string \<Rightarrow> bool" where
  "isalnum w \<longleftrightarrow> w \<noteq> [] \<and> list_all (\<lambda>c. py_letter c \<or> py_digit c) w"

fun capitalize :: "string \<Rightarrow> string" where
  "capitalize [] = []"
| "capitalize (c # w) = py_upper c # map py_lower w"

definition valid_name :: "string \<Rightarrow> bool" where
  "valid_name modname \<longleftrightarrow> False \<notin> set (map isalnum (split_all CHR ''-'' modname))"

definition capitalized :: "string \<Rightarrow> string" where
  "capitalized modname = concat (map capitalize (split_all CHR ''-'' modname))"

definition compound :: "string \<Rightarrow> string" where
  "compound modname = (let words = split_all CHR ''-'' modname in concat ([hd words] @ map capitalize (tl words)))"

definition guard_name :: "string \<Rightarrow> string" where
  "guard_name modname = map (\<lambda>c. py_upper (if c = CHR ''-'' then CHR ''_'' else c)) modname"

section \<open>The disk\<close>

datatype node = DirNode | FileNode string

type_synonym disk = "string list \<Rightarrow> node option"

text \<open>\<open>os.mkdir\<close>, \<open>open (path, "wt")\<close>, and the text that is there after \<open>write\<close> and \<open>close\<close>.\<close>

definition mkdir :: "string list \<Rightarrow> (disk, unit) act" where
  "mkdir p d = (if d p \<noteq> None \<or> d (butlast p) \<noteq> Some DirNode then (Inl OSError, d) else (Inr (), d(p \<mapsto> DirNode)))"

definition open_wt :: "string list \<Rightarrow> (disk, unit) act" where
  "open_wt p d = (if d p = Some DirNode \<or> d (butlast p) \<noteq> Some DirNode then (Inl OSError, d) else (Inr (), d(p \<mapsto> FileNode [])))"

definition write_file :: "string list \<Rightarrow> string \<Rightarrow> (string, string) dict \<Rightarrow> (disk, unit) act" where
  "write_file p template values =
     aseq (open_wt p) (abind (alift (py_format template values)) (\<lambda>t. amodify (\<lambda>d. d(p \<mapsto> FileNode t))))"

section \<open>The program\<close>

definition module_values :: "string \<Rightarrow> (string, string) dict" where
  "module_values modname = [(''MODULE'', modname)]"

definition guard_values :: "string \<Rightarrow> string \<Rightarrow> (string, string) dict" where
  "guard_values modname ending = module_values modname @ [(''INCLUDE_GUARD'', guard_name modname @ ending)]"

definition test_values :: "string \<Rightarrow> (string, string) dict" where
  "test_values modname = module_values modname @ [(''CAPITALIZED'', capitalized modname), (''COMPOUND'', compound modname)]"

definition create_module :: "string list \<Rightarrow> string \<Rightarrow> (disk, unit) act list" where
  "create_module moduledir modname =
     (let M = module_values modname in
      [mkdir moduledir,
       write_file (moduledir @ [''wscript'']) WSCRIPT_TEMPLATE M,
       mkdir (moduledir @ [''model'']),
       write_file (moduledir @ [''model'', modname @ ''.cc'']) MODEL_CC_TEMPLATE M,
       write_file (moduledir @ [''model'', modname @ ''.h'']) MODEL_H_TEMPLATE (guard_values modname ''_H''),
       mkdir (moduledir @ [''test'']),
       write_file (moduledir @ [''test'', modname @ ''-test-suite.cc'']) TEST_CC_TEMPLATE (test_values modname),
       mkdir (moduledir @ [''helper'']),
       write_file (moduledir @ [''helper'', modname @ ''-helper.cc'']) HELPER_CC_TEMPLATE M,
       write_file (moduledir @ [''helper'', modname @ ''-helper.h'']) HELPER_H_TEMPLATE (guard_values modname ''_HELPER_H''),
       mkdir (moduledir @ [''examples'']),
       write_file (moduledir @ [''examples'', ''wscript'']) EXAMPLES_WSCRIPT_TEMPLATE M,
       write_file (moduledir @ [''examples'', modname @ ''-example.cc'']) EXAMPLE_CC_TEMPLATE M,
       mkdir (moduledir @ [''doc'']),
       write_file (moduledir @ [''doc'', modname @ ''.rst'']) DOC_RST_TEMPLATE M])"

definition create_main :: "string list \<Rightarrow> string list \<Rightarrow> (disk, int) act" where
  "create_main here args d =
     (case args of
        [arg] \<Rightarrow>
          (let modname = map py_lower arg; moduledir = here @ [modname] in
           if \<not> valid_name modname then aret 2 d
           else if CHR ''/'' \<in> set modname then araise AssertionError d
           else if d moduledir \<noteq> None then aret 2 d
           else aseq (afor (create_module moduledir modname) id) (aret 0) d)
      | _ \<Rightarrow> aret 1 d)"

section \<open>Formatting succeeds\<close>

lemma prepend_eq_Inr_iff [simp]: "prepend p r = Inr ps \<longleftrightarrow> (\<exists>qs. r = Inr qs \<and> ps = p # qs)"
  by (auto simp: prepend_def rmap_eq_Inr_iff)

lemma key_end:
  "dropWhile (\<lambda>x. x \<noteq> CHR '')'') s = p # r \<Longrightarrow>
   dropWhile (\<lambda>x. x \<noteq> CHR '')'') (s @ b) = p # r @ b \<and> takeWhile (\<lambda>x. x \<noteq> CHR '')'') (s @ b) = takeWhile (\<lambda>x. x \<noteq> CHR '')'') s"
  by (induction s) (auto split: if_splits)

lemma pieces_append:
  "pieces a = Inr ps \<Longrightarrow> pieces b = Inr qs \<Longrightarrow> pieces (a @ b) = Inr (ps @ qs)"
proof (induction a arbitrary: ps rule: pieces.induct)
  case 1
  then show ?case by simp
next
  case (2 c s)
  show ?case
  proof (cases "c = CHR ''%''")
    case False
    with 2 show ?thesis by auto
  next
    case percent: True
    with "2.prems" obtain d s1 where s: "s = d # s1" by (auto split: list.splits)
    show ?thesis
    proof (cases "d = CHR ''%''")
      case True
      with 2 percent s show ?thesis by auto
    next
      case False
      with "2.prems"(1) percent s obtain p k s2 rs where d: "d = CHR ''(''"
        and "dropWhile (\<lambda>x. x \<noteq> CHR '')'') s1 = p # k # s2" "k \<in> {CHR ''s'', CHR ''r''}" "pieces s2 = Inr rs"
        and "ps = Ref (takeWhile (\<lambda>x. x \<noteq> CHR '')'') s1) k # rs"
        by (auto split: list.splits if_splits)
      moreover from this have "pieces (s2 @ b) = Inr (rs @ qs)"
        using "2.IH"(3) [OF _ s False d] percent "2.prems"(2) by blast
      ultimately show ?thesis using percent False s key_end [of s1 p "k # s2" b] by auto
    qed
  qed
qed

text \<open>A line whose references are in the dictionary.\<close>

definition ref_ok :: "string list \<Rightarrow> piece \<Rightarrow> bool" where
  "ref_ok keys p = (case p of Chr c \<Rightarrow> True | Ref key k \<Rightarrow> key \<in> set keys)"

definition line_ok :: "string list \<Rightarrow> string \<Rightarrow> bool" where
  "line_ok keys l = (case pieces l of Inl e \<Rightarrow> False | Inr ps \<Rightarrow> list_all (ref_ok keys) ps)"

lemma ref_ok_Chr [simp]: "ref_ok keys (Chr c)"
  by (simp add: ref_ok_def)

lemma lines_ok:
  "list_all (line_ok keys) ls \<Longrightarrow> \<exists>ps. pieces (lines_text ls) = Inr ps \<and> list_all (ref_ok keys) ps"
proof (induction ls)
  case Nil
  then show ?case by (simp add: lines_text_def)
next
  case (Cons l ls)
  then obtain ps qs where "pieces l = Inr ps" "pieces (lines_text ls) = Inr qs" "list_all (ref_ok keys) (ps @ qs)"
    by (auto simp: line_ok_def split: sum.splits)
  moreover have "pieces [py_newline] = Inr [Chr py_newline]" by (simp add: py_newline_def)
  ultimately have "pieces ((l @ [py_newline]) @ lines_text ls) = Inr ((ps @ [Chr py_newline]) @ qs)"
    by (intro pieces_append)
  with \<open>list_all (ref_ok keys) (ps @ qs)\<close> show ?case
    by (auto simp: lines_text_def)
qed

lemma render_ok: "ref_ok (dict_keys d) p \<Longrightarrow> \<exists>t. render d p = Inr t"
  by (auto simp: ref_ok_def render_def dict_getitem_def dict_keys_def rmap_def map_of_eq_None_iff split: piece.splits option.splits)

lemma format_ok:
  assumes "list_all (line_ok keys) ls" "set keys \<subseteq> set (dict_keys d)"
  shows "\<exists>t. py_format (lines_text ls) d = Inr t"
proof -
  obtain ps where ps: "pieces (lines_text ls) = Inr ps" "list_all (ref_ok keys) ps"
    using lines_ok [OF assms(1)] by blast
  from ps(2) assms(2) have "\<exists>ts. rmapM (render d) ps = Inr ts"
  proof (induction ps)
    case (Cons p ps)
    then have "ref_ok (dict_keys d) p" by (auto simp: ref_ok_def split: piece.splits)
    with Cons show ?case using render_ok [of d p] by auto
  qed simp
  with ps(1) show ?thesis by (auto simp: py_format_def)
qed

lemma template_formats:
  "''MODULE'' \<in> set (dict_keys d) \<Longrightarrow> \<exists>t. py_format WSCRIPT_TEMPLATE d = Inr t"
  "''MODULE'' \<in> set (dict_keys d) \<Longrightarrow> \<exists>t. py_format MODEL_CC_TEMPLATE d = Inr t"
  "''INCLUDE_GUARD'' \<in> set (dict_keys d) \<Longrightarrow> \<exists>t. py_format MODEL_H_TEMPLATE d = Inr t"
  "''MODULE'' \<in> set (dict_keys d) \<Longrightarrow> \<exists>t. py_format HELPER_CC_TEMPLATE d = Inr t"
  "{''MODULE'', ''INCLUDE_GUARD''} \<subseteq> set (dict_keys d) \<Longrightarrow> \<exists>t. py_format HELPER_H_TEMPLATE d = Inr t"
  "''MODULE'' \<in> set (dict_keys d) \<Longrightarrow> \<exists>t. py_format EXAMPLES_WSCRIPT_TEMPLATE d = Inr t"
  "''MODULE'' \<in> set (dict_keys d) \<Longrightarrow> \<exists>t. py_format EXAMPLE_CC_TEMPLATE d = Inr t"
  "{''MODULE'', ''CAPITALIZED'', ''COMPOUND''} \<subseteq> set (dict_keys d) \<Longrightarrow> \<exists>t. py_format TEST_CC_TEMPLATE d = Inr t"
  "''MODULE'' \<in> set (dict_keys d) \<Longrightarrow> \<exists>t. py_format DOC_RST_TEMPLATE d = Inr t"
  unfolding WSCRIPT_TEMPLATE_def MODEL_CC_TEMPLATE_def MODEL_H_TEMPLATE_def HELPER_CC_TEMPLATE_def HELPER_H_TEMPLATE_def
    EXAMPLES_WSCRIPT_TEMPLATE_def EXAMPLE_CC_TEMPLATE_def TEST_CC_TEMPLATE_def DOC_RST_TEMPLATE_def
  by (rule format_ok [where keys = "[''MODULE'']"] format_ok [where keys = "[''INCLUDE_GUARD'']"]
        format_ok [where keys = "[''MODULE'', ''INCLUDE_GUARD'']"] format_ok [where keys = "[''MODULE'', ''CAPITALIZED'', ''COMPOUND'']"],
      code_simp, simp; fail)+

section \<open>What is created\<close>

definition filled :: "string \<Rightarrow> (string, string) dict \<Rightarrow> node" where
  "filled template d = FileNode (case py_format template d of Inl e \<Rightarrow> [] | Inr t \<Rightarrow> t)"

text \<open>The directory of a module: relative paths and what is there.\<close>

definition module_tree :: "string \<Rightarrow> (string list \<times> node) list" where
  "module_tree m =
     (let M = module_values m in
      [([], DirNode), ([''wscript''], filled WSCRIPT_TEMPLATE M),
       ([''model''], DirNode), ([''model'', m @ ''.cc''], filled MODEL_CC_TEMPLATE M),
       ([''model'', m @ ''.h''], filled MODEL_H_TEMPLATE (guard_values m ''_H'')),
       ([''test''], DirNode), ([''test'', m @ ''-test-suite.cc''], filled TEST_CC_TEMPLATE (test_values m)),
       ([''helper''], DirNode), ([''helper'', m @ ''-helper.cc''], filled HELPER_CC_TEMPLATE M),
       ([''helper'', m @ ''-helper.h''], filled HELPER_H_TEMPLATE (guard_values m ''_HELPER_H'')),
       ([''examples''], DirNode), ([''examples'', ''wscript''], filled EXAMPLES_WSCRIPT_TEMPLATE M),
       ([''examples'', m @ ''-example.cc''], filled EXAMPLE_CC_TEMPLATE M),
       ([''doc''], DirNode), ([''doc'', m @ ''.rst''], filled DOC_RST_TEMPLATE M)])"

definition disk_wf :: "disk \<Rightarrow> bool" where
  "disk_wf d \<longleftrightarrow> (\<forall>p x. d (p @ [x]) \<noteq> None \<longrightarrow> d p = Some DirNode)"

lemma nothing_below:
  assumes "disk_wf d" "d p = None" shows "d (p @ q) = None"
proof (induction q rule: rev_induct)
  case Nil
  then show ?case using assms(2) by simp
next
  case (snoc x q)
  then show ?case using assms(1) [unfolded disk_wf_def, rule_format, of "p @ q" x] by fastforce
qed

lemma mkdir_new:
  "d p = None \<Longrightarrow> d (butlast p) = Some DirNode \<Longrightarrow> mkdir p d = (Inr (), d(p \<mapsto> DirNode))"
  by (simp add: mkdir_def)

lemma write_new:
  assumes "d p = None" "d (butlast p) = Some DirNode" "\<exists>t. py_format template v = Inr t"
  shows "write_file p template v d = (Inr (), d(p \<mapsto> filled template v))"
  using assms by (auto simp: write_file_def open_wt_def act_step alift_apply amodify_apply filled_def)

lemmas module_formats =
  template_formats(1, 2, 4, 6, 7, 9) [of "module_values m"] template_formats(3, 5) [of "guard_values m e"]
  template_formats(8) [of "test_values m"] for m e

lemma values_keys [simp]:
  "dict_keys (module_values m) = [''MODULE'']" "dict_keys (guard_values m e) = [''MODULE'', ''INCLUDE_GUARD'']"
  "dict_keys (test_values m) = [''MODULE'', ''CAPITALIZED'', ''COMPOUND'']"
  by (simp_all add: dict_keys_def module_values_def guard_values_def test_values_def)

lemma create_module_run:
  assumes "d p = Some DirNode" "\<And>q. d (p @ m # q) = None"
  shows "afor (create_module (p @ [m]) m) id d =
    (Inr (), foldl (\<lambda>d (q, n). d(p @ m # q \<mapsto> n)) d (module_tree m))"
  using assms
  by (simp add: create_module_def module_tree_def Let_def act_step mkdir_new write_new module_formats butlast_append aret_apply)

lemma in_split_all: "c \<in> set s \<Longrightarrow> c = sep \<or> (\<exists>w\<in>set (split_all sep s). c \<in> set w)"
  by (induction s) (auto split: list.splits)

lemma valid_name_chars: "valid_name m \<Longrightarrow> c \<in> set m \<Longrightarrow> c = CHR ''-'' \<or> py_letter c \<or> py_digit c"
  using in_split_all [of c m "CHR ''-''"] by (auto simp: valid_name_def isalnum_def list_all_iff)

lemma valid_name_no_slash: "valid_name m \<Longrightarrow> CHR ''/'' \<notin> set m"
  using valid_name_chars [of m "CHR ''/''"] by (auto simp: py_letter_def py_digit_def)

lemma updates_lookup:
  "distinct (map fst t) \<Longrightarrow>
   foldl (\<lambda>d (q, n). d(p @ m # q \<mapsto> n)) d t r =
     (if \<exists>q\<in>fst ` set t. r = p @ m # q then map_of t (drop (Suc (length p)) r) else d r)"
  by (induction t arbitrary: d) auto

lemma wscript_not_example: "''wscript'' \<noteq> m @ ''-example.cc''" "m @ ''-example.cc'' \<noteq> ''wscript''"
  by (auto dest!: arg_cong [where f = length])

lemma module_tree_distinct: "distinct (map fst (module_tree m))"
  by (simp add: module_tree_def Let_def wscript_not_example)

section \<open>What the build files name\<close>

text \<open>The quoted texts of a Python file without escapes, and of a template before it is filled in.\<close>

fun odds :: "'a list \<Rightarrow> 'a list" where
  "odds (x # y # xs) = y # odds xs"
| "odds xs = []"

definition quoted :: "string \<Rightarrow> string list" where
  "quoted t = odds (split_all CHR 0x27 t)"

fun split_pieces :: "piece list \<Rightarrow> piece list list" where
  "split_pieces [] = [[]]"
| "split_pieces (Chr c # ps) =
     (if c = CHR 0x27 then [] # split_pieces ps
      else case split_pieces ps of [] \<Rightarrow> [[Chr c]] | w # ws \<Rightarrow> (Chr c # w) # ws)"
| "split_pieces (Ref key k # ps) =
     (if k = CHR ''r'' then [] # [Ref key CHR ''s''] # split_pieces ps
      else case split_pieces ps of [] \<Rightarrow> [[Ref key k]] | w # ws \<Rightarrow> (Ref key k # w) # ws)"

definition fill :: "(string, string) dict \<Rightarrow> piece \<Rightarrow> string" where
  "fill d p = (case render d p of Inl e \<Rightarrow> [] | Inr t \<Rightarrow> t)"

lemma split_all_append:
  "c \<notin> set w \<Longrightarrow> split_all c (w @ s) = (case split_all c s of [] \<Rightarrow> [w] | v # vs \<Rightarrow> (w @ v) # vs)"
  by (induction w) (auto split: list.splits)

lemma split_pieces_fill:
  assumes "\<And>k v. map_of d k = Some v \<Longrightarrow> CHR 0x27 \<notin> set v" and "list_all (ref_ok (dict_keys d)) ps"
  shows "split_all CHR 0x27 (concat (map (fill d) ps)) = map (\<lambda>seg. concat (map (fill d) seg)) (split_pieces ps)"
  using assms(2)
proof (induction ps rule: split_pieces.induct)
  case 1
  then show ?case by simp
next
  case (2 c ps)
  then show ?case by (auto simp: fill_def render_def split: list.splits)
next
  case (3 key k ps)
  then obtain v where v: "map_of d key = Some v" "CHR 0x27 \<notin> set v"
    using assms(1) [of key] by (auto simp: ref_ok_def dict_keys_def map_of_eq_None_iff) (metis image_eqI fst_conv map_of_eq_None_iff not_None_eq)
  with 3 show ?case
    by (auto simp: fill_def render_def dict_getitem_def py_repr_def split_all_append split: list.splits)
qed

lemma format_fill:
  assumes "pieces t = Inr ps" "list_all (ref_ok (dict_keys d)) ps"
  shows "py_format t d = Inr (concat (map (fill d) ps))"
proof -
  from assms(2) have "rmapM (render d) ps = Inr (map (fill d) ps)"
  proof (induction ps)
    case (Cons p ps)
    with render_ok [of d p] show ?case by (auto simp: fill_def)
  qed simp
  with assms(1) show ?thesis by (simp add: py_format_def)
qed

lemma wscript_pieces:
  "(case pieces WSCRIPT_TEMPLATE of Inl e \<Rightarrow> False | Inr ps \<Rightarrow> list_all (ref_ok [''MODULE'']) ps \<and>
      odds (split_pieces ps) =
        [map Chr ''stdint.h'', map Chr ''HAVE_STDINT_H'', [Ref ''MODULE'' CHR ''s''], map Chr ''core'',
         map Chr ''model/'' @ Ref ''MODULE'' CHR ''s'' # map Chr ''.cc'',
         map Chr ''helper/'' @ Ref ''MODULE'' CHR ''s'' # map Chr ''-helper.cc'',
         [Ref ''MODULE'' CHR ''s''], map Chr ''test/'' @ Ref ''MODULE'' CHR ''s'' # map Chr ''-test-suite.cc'',
         map Chr ''ns3header'', [Ref ''MODULE'' CHR ''s''],
         map Chr ''model/'' @ Ref ''MODULE'' CHR ''s'' # map Chr ''.h'',
         map Chr ''helper/'' @ Ref ''MODULE'' CHR ''s'' # map Chr ''-helper.h'', map Chr ''examples''])"
  by code_simp

lemma examples_pieces:
  "(case pieces EXAMPLES_WSCRIPT_TEMPLATE of Inl e \<Rightarrow> False | Inr ps \<Rightarrow> list_all (ref_ok [''MODULE'']) ps \<and>
      odds (split_pieces ps) =
        [Ref ''MODULE'' CHR ''s'' # map Chr ''-example'', [Ref ''MODULE'' CHR ''s''],
         Ref ''MODULE'' CHR ''s'' # map Chr ''-example.cc''])"
  by code_simp

lemma odds_map: "odds (map f xs) = map f (odds xs)"
  by (induction xs rule: odds.induct) auto

lemma quoted_format:
  assumes "case pieces t of Inl e \<Rightarrow> False | Inr ps \<Rightarrow> list_all (ref_ok [''MODULE'']) ps \<and> odds (split_pieces ps) = segs"
    and "CHR 0x27 \<notin> set m"
  shows "\<exists>text. py_format t (module_values m) = Inr text \<and>
    quoted text = map (\<lambda>seg. concat (map (fill (module_values m)) seg)) segs"
proof -
  obtain ps where ps: "pieces t = Inr ps" "list_all (ref_ok (dict_keys (module_values m))) ps" "odds (split_pieces ps) = segs"
    using assms(1) by (auto split: sum.splits)
  have "CHR 0x27 \<notin> set v" if "map_of (module_values m) k = Some v" for k v
    using that assms(2) by (auto simp: module_values_def split: if_splits)
  from split_pieces_fill [OF this ps(2)] show ?thesis
    by (simp add: format_fill [OF ps(1,2)] quoted_def odds_map ps(3))
qed

lemma fill_values [simp]:
  "fill d (Chr c) = [c]" "fill (module_values m) (Ref ''MODULE'' CHR ''s'') = m"
  by (simp_all add: fill_def render_def module_values_def dict_getitem_def)

lemma wscript_sources:
  assumes "valid_name m" "map_of (module_tree m) [''wscript''] = Some (FileNode t)" "s \<in> set (quoted t)" "CHR ''/'' \<in> set s"
  shows "\<exists>t'. map_of (module_tree m) (split_all CHR ''/'' s) = Some (FileNode t')"
proof -
  have m: "CHR ''/'' \<notin> set m" "CHR 0x27 \<notin> set m"
    using valid_name_chars [OF assms(1), of "CHR 0x27"] valid_name_no_slash [OF assms(1)] by (auto simp: py_letter_def py_digit_def)
  from quoted_format [OF wscript_pieces m(2)] assms(2)
  have q: "quoted t = [''stdint.h'', ''HAVE_STDINT_H'', m, ''core'', ''model/'' @ m @ ''.cc'', ''helper/'' @ m @ ''-helper.cc'', m,
    ''test/'' @ m @ ''-test-suite.cc'', ''ns3header'', m, ''model/'' @ m @ ''.h'', ''helper/'' @ m @ ''-helper.h'', ''examples'']"
    by (auto simp: module_tree_def Let_def filled_def)
  show ?thesis using assms(3,4) m(1)
    by (auto simp: q split_all_append module_tree_def Let_def filled_def)
qed

lemma example_sources:
  assumes "valid_name m" "map_of (module_tree m) [''examples'', ''wscript''] = Some (FileNode t)"
  shows "quoted t = [m @ ''-example'', m, m @ ''-example.cc''] \<and>
    (\<exists>t'. map_of (module_tree m) [''examples'', m @ ''-example.cc''] = Some (FileNode t'))"
proof -
  have m: "CHR 0x27 \<notin> set m"
    using valid_name_chars [OF assms(1), of "CHR 0x27"] by (auto simp: py_letter_def py_digit_def)
  from quoted_format [OF examples_pieces m] assms(2) show ?thesis
    by (auto simp: module_tree_def Let_def filled_def wscript_not_example)
qed

text \<open>
  C27: the program creates the directory of a module with valid name, exactly the files of the
  tree in it with their templates filled in, and nothing else; it returns 0. Every path that the build
  file quotes is one of the files created.
\<close>

theorem create_main_result:
  assumes "disk_wf d" and "d here = Some DirNode" and "d (here @ [map py_lower arg]) = None" and "valid_name (map py_lower arg)"
  shows "\<exists>d'. create_main here [arg] d = (Inr 0, d') \<and>
    (\<forall>q. d' (here @ map py_lower arg # q) = map_of (module_tree (map py_lower arg)) q) \<and>
    (\<forall>r. (\<forall>q. r \<noteq> here @ map py_lower arg # q) \<longrightarrow> d' r = d r) \<and>
    (\<forall>t s. d' (here @ map py_lower arg # [''wscript'']) = Some (FileNode t) \<and> s \<in> set (quoted t) \<and> CHR ''/'' \<in> set s \<longrightarrow>
      (\<exists>t'. d' (here @ map py_lower arg # split_all CHR ''/'' s) = Some (FileNode t')))"
proof -
  define m where "m = map py_lower arg"
  define d' where "d' = foldl (\<lambda>d (q, n). d(here @ m # q \<mapsto> n)) d (module_tree m)"
  have new: "d (here @ m # q) = None" for q
    using nothing_below [OF assms(1,3), of q] by (simp add: m_def)
  have run: "create_main here [arg] d = (Inr 0, d')"
    using assms(4) new [of "[]"] create_module_run [OF assms(2) new] valid_name_no_slash [of m]
    by (simp add: create_main_def Let_def act_step aret_apply flip: m_def d'_def)
  have tree: "d' (here @ m # q) = map_of (module_tree m) q" for q
    unfolding d'_def updates_lookup [OF module_tree_distinct] using new [of q]
    by (auto simp: map_of_eq_None_iff dest!: map_of_SomeD) (metis map_of_eq_None_iff)
  have "d' r = d r" if "\<forall>q. r \<noteq> here @ m # q" for r
    unfolding d'_def updates_lookup [OF module_tree_distinct] using that by simp
  moreover have "valid_name m" using assms(4) by (simp add: m_def)
  ultimately show ?thesis
    using run wscript_sources [of m] unfolding m_def [symmetric] by (auto simp: tree)
qed

definition sample_disk :: disk where
  "sample_disk = [[] \<mapsto> DirNode, [''src''] \<mapsto> DirNode, [''src'', ''lte''] \<mapsto> DirNode]"

theorem create_main_result_witness:
  "\<exists>d'. create_main [''src''] [''LTE-x''] sample_disk = (Inr 0, d') \<and> d' [''src'', ''lte-x'', ''doc''] = Some DirNode \<and>
    d' [''src'', ''lte''] = Some DirNode \<and> d' [''src'', ''lte'', ''doc''] = None"
proof -
  have name: "map py_lower ''LTE-x'' = ''lte-x''" "valid_name ''lte-x''" by code_simp+
  have "disk_wf sample_disk" by (auto simp: disk_wf_def sample_disk_def split: if_splits)
  from create_main_result [OF this, of "[''src'']" "''LTE-x''", unfolded name(1)] name(2)
  obtain d' where "create_main [''src''] [''LTE-x''] sample_disk = (Inr 0, d')"
    "\<forall>q. d' ([''src''] @ ''lte-x'' # q) = map_of (module_tree ''lte-x'') q"
    "\<forall>r. (\<forall>q. r \<noteq> [''src''] @ ''lte-x'' # q) \<longrightarrow> d' r = sample_disk r"
    by (auto simp: sample_disk_def)
  then show ?thesis
    by (intro exI [of _ d']) (auto simp: sample_disk_def module_tree_def Let_def dest: spec [of _ "[''doc'']"])
qed

text \<open>
  The helper of a module and the module of the name with \<open>-helper\<close> share header and include guard; a
  name that starts with a digit gives classes that are no C++ identifiers.
\<close>

lemma helper_collides:
  "valid_name m \<Longrightarrow> valid_name (m @ ''-helper'') \<and> (m @ ''-helper'') @ ''.h'' = m @ ''-helper.h'' \<and>
   map_of (guard_values (m @ ''-helper'') ''_H'') ''INCLUDE_GUARD'' = map_of (guard_values m ''_HELPER_H'') ''INCLUDE_GUARD''"
proof -
  assume "valid_name m"
  moreover have "split_all CHR ''-'' (m @ ''-helper'') = split_all CHR ''-'' m @ [''helper'']"
    using split_all_sep [of "CHR ''-''" m "''helper''"] by simp
  moreover have "isalnum ''helper''" by code_simp
  moreover have "guard_name ''-helper'' = ''_HELPER''" by code_simp
  then have "guard_name (m @ ''-helper'') = guard_name m @ ''_HELPER''" by (simp add: guard_name_def)
  ultimately show ?thesis by (simp add: valid_name_def guard_values_def module_values_def)
qed

lemma digit_name: "valid_name ''3gpp'' \<and> capitalized ''3gpp'' = ''3gpp''"
  by code_simp

text \<open>A bad name, a module that exists and a wrong number of arguments change nothing.\<close>

lemma create_main_refused:
  assumes "length args \<noteq> 1 \<or> \<not> valid_name (map py_lower (hd args)) \<or> d (here @ [map py_lower (hd args)]) \<noteq> None"
  shows "create_main here args d = (Inr (if length args = 1 then 2 else 1), d)"
  using assms by (auto simp: create_main_def Let_def aret_apply split: list.splits dest: valid_name_no_slash)

end
