(* ===== verification/CompilerFlags.thy ===== *)
theory CompilerFlags
  imports PyCore
begin

text \<open>
  \<open>waf-tools/cflags.py\<close>: the flags of the compilers for the profiles of the build. The environment of waf
  is a parameter: what it has for a variable, a list of texts, and \<open>append_value\<close>, which adds to it. A
  result of \<open>None\<close> is the value \<open>None\<close>.
\<close>

section \<open>Traits\<close>

record compiler_traits =
  ct_warnings_flags :: "string list list"
  ct_optimization :: "int \<Rightarrow> string list option"
  ct_debug :: "int \<Rightarrow> (string list \<times> string list) option"

text \<open>The loop over the levels of warnings, which stops when there are no more.\<close>

fun warnings_loop :: "string list list \<Rightarrow> nat list \<Rightarrow> string list \<Rightarrow> string list" where
  "warnings_loop flags [] warnings = warnings"
| "warnings_loop flags (l # ls) warnings =
     (if l < length flags then warnings_loop flags ls (warnings @ flags ! l) else warnings)"

definition get_warnings_flags :: "compiler_traits \<Rightarrow> int \<Rightarrow> string list" where
  "get_warnings_flags c level = warnings_loop (ct_warnings_flags c) [0..<nat level] []"

definition gcc_optimization :: "int \<Rightarrow> string list option" where
  "gcc_optimization level =
     (if level = 0 then Some [''-O0''] else if level = 1 then Some [''-O'']
      else if level = 2 then Some [''-O2''] else if level = 3 then Some [''-O3''] else None)"

definition gcc_debug :: "int \<Rightarrow> (string list \<times> string list) option" where
  "gcc_debug level =
     (if level = 0 then Some ([''-g0''], [''NDEBUG'']) else if level = 1 then Some ([''-g''], [])
      else if level \<ge> 2 then Some ([''-ggdb'', ''-g3''], [''_DEBUG'']) else None)"

definition GccTraits :: compiler_traits where
  "GccTraits = \<lparr>ct_warnings_flags = [[''-Wall''], [''-Werror''], [''-Wextra'']],
     ct_optimization = gcc_optimization, ct_debug = gcc_debug\<rparr>"

definition IccTraits :: compiler_traits where
  "IccTraits = \<lparr>ct_warnings_flags = [[], [], [''-Wall'']],
     ct_optimization = gcc_optimization, ct_debug = gcc_debug\<rparr>"

definition msvc_optimization :: "int \<Rightarrow> string list option" where
  "msvc_optimization level =
     (if level = 0 then Some [''/Od''] else if level = 1 then Some []
      else if level = 2 then Some [''/O2''] else if level = 3 then Some [''/Ox''] else None)"

definition msvc_debug :: "int \<Rightarrow> (string list \<times> string list) option" where
  "msvc_debug level =
     (if level = 0 then Some ([], [''NDEBUG'']) else if level = 1 then Some ([''/ZI'', ''/RTC1''], [])
      else if level \<ge> 2 then Some ([''/ZI'', ''/RTC1''], [''_DEBUG'']) else None)"

definition MsvcTraits :: compiler_traits where
  "MsvcTraits = \<lparr>ct_warnings_flags = [[''/W2''], [''/WX''], [''/Wall'']],
     ct_optimization = msvc_optimization, ct_debug = msvc_debug\<rparr>"

definition compiler_mapping :: "(string, compiler_traits) dict" where
  "compiler_mapping =
     [(''gcc'', GccTraits), (''g++'', GccTraits), (''msvc'', MsvcTraits), (''icc'', IccTraits),
      (''icpc'', IccTraits), (''clang'', GccTraits), (''clang++'', GccTraits)]"

text \<open>Levels of optimization, warnings and debugging.\<close>

definition profiles :: "(string, int \<times> int \<times> int) dict" where
  "profiles = [(''default'', 2, 1, 1), (''debug'', 0, 2, 3), (''release'', 3, 1, 0)]"

definition default_profile :: string where
  "default_profile = ''default''"

text \<open>The choices of the option, when the assertion on the default holds.\<close>

definition profile_choices :: "string list pyres" where
  "profile_choices = (if dict_has profiles default_profile then Inr (dict_keys profiles) else Inl AssertionError)"

section \<open>Configuration\<close>

definition traits_of :: "string option \<Rightarrow> compiler_traits option" where
  "traits_of cc = (case cc of None \<Rightarrow> None | Some c \<Rightarrow> map_of compiler_mapping c)"

definition or_else :: "'a option \<Rightarrow> 'a option \<Rightarrow> 'a option" where
  "or_else a b = (case a of None \<Rightarrow> b | Some x \<Rightarrow> a)"

text \<open>\<open>append_value\<close> of \<open>None\<close> is an error.\<close>

definition append_flags :: "(string \<Rightarrow> string list \<Rightarrow> 'e \<Rightarrow> 'e) \<Rightarrow> string \<Rightarrow> string list option \<Rightarrow> 'e \<Rightarrow> 'e pyres" where
  "append_flags append_value var flags env =
     (case flags of None \<Rightarrow> Inl TypeError | Some fs \<Rightarrow> Inr (append_value var fs env))"

definition set_flags ::
  "(string \<Rightarrow> string list \<Rightarrow> 'e \<Rightarrow> 'e) \<Rightarrow> string \<Rightarrow> string \<Rightarrow> string list option \<Rightarrow> string list \<times> string list \<Rightarrow>
   string list \<Rightarrow> 'e \<Rightarrow> 'e pyres" where
  "set_flags append_value flags_var defines_var optimizations dbg warnings env =
     rbind (append_flags append_value flags_var optimizations env) (\<lambda>env.
     rbind (append_flags append_value flags_var (Some (fst dbg)) env) (\<lambda>env.
     rbind (append_flags append_value flags_var (Some warnings) env) (\<lambda>env.
       append_flags append_value defines_var (Some (snd dbg)) env)))"

text \<open>The environment and whether the warning about unknown compilers was given.\<close>

definition configure ::
  "('e \<Rightarrow> string \<Rightarrow> string list) \<Rightarrow> (string \<Rightarrow> string list \<Rightarrow> 'e \<Rightarrow> 'e) \<Rightarrow> string option \<Rightarrow> string option \<Rightarrow> string \<Rightarrow>
   'e \<Rightarrow> ('e \<times> bool) pyres" where
  "configure getvar append_value cc cxx build_profile env =
     (if cc = None \<and> cxx = None then Inl (WafError ''neither COMPILER_CC nor COMPILER_CXX are defined'')
      else case or_else (traits_of cc) (traits_of cxx) of
        None \<Rightarrow> Inr (env, True)
      | Some compiler \<Rightarrow>
          rbind (dict_getitem profiles build_profile) (\<lambda>(opt_level, warn_level, dbg_level).
          (let optimizations = ct_optimization compiler opt_level
           in case ct_debug compiler dbg_level of
                None \<Rightarrow> Inl TypeError
              | Some dbg \<Rightarrow>
                  (let warnings = get_warnings_flags compiler warn_level
                   in rbind (if cc \<noteq> None \<and> getvar env ''CCFLAGS'' = []
                             then set_flags append_value ''CCFLAGS'' ''CCDEFINES'' optimizations dbg warnings env else Inr env) (\<lambda>env.
                      rbind (if cxx \<noteq> None \<and> getvar env ''CXXFLAGS'' = []
                             then set_flags append_value ''CXXFLAGS'' ''CXXDEFINES'' optimizations dbg warnings env else Inr env) (\<lambda>env.
                        Inr (env, False)))))))"

section \<open>Properties\<close>

text \<open>Warnings are cumulative: the flags of all levels below the given one.\<close>

lemma warnings_cumulative: "get_warnings_flags c level = concat (take (nat level) (ct_warnings_flags c))"
proof -
  have "warnings_loop flags [i..<n] ws = ws @ concat (take (n - i) (drop i flags))" for flags i n ws
  proof (induction "n - i" arbitrary: i ws)
    case (Suc k)
    then have "[i..<n] = i # [Suc i..<n]" "n - i = Suc (n - Suc i)" by (simp_all add: upt_conv_Cons)
    with Suc show ?case by (auto simp: Cons_nth_drop_Suc [symmetric])
  qed simp
  from this [of "ct_warnings_flags c" 0 "nat level" "[]"] show ?thesis by (simp add: get_warnings_flags_def)
qed

text \<open>The flags and definitions of a compiler under a profile.\<close>

definition flags_for :: "compiler_traits \<Rightarrow> string \<Rightarrow> (string list \<times> string list) option" where
  "flags_for c profile =
     (case map_of profiles profile of
        None \<Rightarrow> None
      | Some (opt, warn, dbg) \<Rightarrow>
          (case (ct_optimization c opt, ct_debug c dbg) of
             (Some fs, Some (gs, defs)) \<Rightarrow> Some (fs @ gs @ concat (take (nat warn) (ct_warnings_flags c)), defs)
           | _ \<Rightarrow> None))"

lemma gcc_flags:
  "map (\<lambda>p. flags_for GccTraits (fst p)) profiles =
     [Some ([''-O2'', ''-g'', ''-Wall''], []), Some ([''-O0'', ''-ggdb'', ''-g3'', ''-Wall'', ''-Werror''], [''_DEBUG'']),
      Some ([''-O3'', ''-g0'', ''-Wall''], [''NDEBUG''])]"
  by code_simp

lemma profile_choices_keys: "profile_choices = Inr (map fst profiles)"
  by code_simp

lemma flags_for_known:
  "c \<in> snd ` set compiler_mapping \<Longrightarrow> p \<in> fst ` set profiles \<Longrightarrow> \<exists>fs defs. flags_for c p = Some (fs, defs) \<and> fs \<noteq> []"
  by (auto simp: compiler_mapping_def profiles_def flags_for_def GccTraits_def IccTraits_def MsvcTraits_def
      gcc_optimization_def gcc_debug_def msvc_optimization_def msvc_debug_def)

text \<open>What the flags and definitions of one language become.\<close>

definition configured ::
  "('e \<Rightarrow> string \<Rightarrow> string list) \<Rightarrow> 'e \<Rightarrow> string option \<Rightarrow> string list \<times> string list \<Rightarrow> string \<Rightarrow> string \<Rightarrow> string \<Rightarrow>
   string list" where
  "configured getvar env compiler fd flags_var defines_var var =
     getvar env var @
       (if compiler \<noteq> None \<and> getvar env flags_var = [] then
          if var = flags_var then fst fd else if var = defines_var then snd fd else []
        else [])"

lemma configure_flags:
  assumes law: "\<And>e v fs w. getvar (append_value v fs e) w = getvar e w @ (if w = v then fs else [])"
    and known: "or_else (traits_of cc) (traits_of cxx) = Some c" "flags_for c p = Some fd"
  shows "\<exists>env'. configure getvar append_value cc cxx p env = Inr (env', False) \<and>
    (\<forall>var. getvar env' var =
      (if var \<in> {''CCFLAGS'', ''CCDEFINES''} then configured getvar env cc fd ''CCFLAGS'' ''CCDEFINES'' var
       else configured getvar env cxx fd ''CXXFLAGS'' ''CXXDEFINES'' var))"
proof -
  obtain opt warn dbg os gs defs where p: "dict_getitem profiles p = Inr (opt, warn, dbg)"
    "ct_optimization c opt = Some os" "ct_debug c dbg = Some (gs, defs)"
    "fd = (os @ gs @ get_warnings_flags c warn, defs)"
    using known(2) by (auto simp: flags_for_def dict_getitem_def warnings_cumulative split: option.splits prod.splits)
  have "cc \<noteq> None \<or> cxx \<noteq> None"
    using known(1) by (cases cc; cases cxx) (auto simp: or_else_def traits_of_def)
  then show ?thesis using known(1) p
    by (auto simp: configure_def set_flags_def append_flags_def configured_def law Let_def)
qed

text \<open>Variables that the user has set are left alone, and so are those of an earlier run.\<close>

lemma configure_twice:
  assumes law: "\<And>e v fs w. getvar (append_value v fs e) w = getvar e w @ (if w = v then fs else [])"
    and known: "or_else (traits_of cc) (traits_of cxx) = Some c" "p \<in> fst ` set profiles"
    and run: "configure getvar append_value cc cxx p env = Inr (env', b)"
  shows "\<exists>env''. configure getvar append_value cc cxx p env' = Inr (env'', b) \<and> (\<forall>var. getvar env'' var = getvar env' var)"
proof -
  have "c \<in> snd ` set compiler_mapping"
    using known(1) by (auto simp: or_else_def traits_of_def split: option.splits dest!: map_of_SomeD intro: rev_image_eqI)
  then obtain fs defs where fd: "flags_for c p = Some (fs, defs)" "fs \<noteq> []"
    using flags_for_known [OF _ known(2)] by blast
  note conf = configure_flags [OF law known(1) fd(1)]
  from conf [of env] run have one: "b = False" "getvar env' var =
      (if var \<in> {''CCFLAGS'', ''CCDEFINES''} then configured getvar env cc (fs, defs) ''CCFLAGS'' ''CCDEFINES'' var
       else configured getvar env cxx (fs, defs) ''CXXFLAGS'' ''CXXDEFINES'' var)" for var
    by auto
  have "cc = None \<or> getvar env' ''CCFLAGS'' \<noteq> []" "cxx = None \<or> getvar env' ''CXXFLAGS'' \<noteq> []"
    using fd(2) by (auto simp: one(2) configured_def)
  then have "configured getvar env' cc (fs, defs) ''CCFLAGS'' ''CCDEFINES'' var = getvar env' var"
    "configured getvar env' cxx (fs, defs) ''CXXFLAGS'' ''CXXDEFINES'' var = getvar env' var" for var
    by (auto simp: configured_def)
  with conf [of env'] one(1) show ?thesis by auto
qed

text \<open>
  One set of flags is used for both languages: that of the C compiler when it is known, also when the
  C++ compiler is of another kind.
\<close>

lemma mixed_compilers:
  "\<exists>env'. configure (\<lambda>e v. e v) (\<lambda>v fs e. e(v := e v @ fs)) (Some ''gcc'') (Some ''icpc'') ''release'' (\<lambda>v. []) = Inr (env', False) \<and>
     ''-Wall'' \<in> set (env' ''CXXFLAGS'') \<and> ''-Wall'' \<notin> set (get_warnings_flags IccTraits 1)"
proof -
  have "''-Wall'' \<notin> set (get_warnings_flags IccTraits 1)" by code_simp
  moreover have "or_else (traits_of (Some ''gcc'')) (traits_of (Some ''icpc'')) = Some GccTraits"
    by (simp add: or_else_def traits_of_def compiler_mapping_def)
  moreover have "flags_for GccTraits ''release'' = Some ([''-O3'', ''-g0'', ''-Wall''], [''NDEBUG''])" by code_simp
  ultimately show ?thesis
    using configure_flags [of "\<lambda>e v. e v" "\<lambda>v fs e. e(v := e v @ fs)" "Some ''gcc''" "Some ''icpc''" GccTraits "''release''"
        "([''-O3'', ''-g0'', ''-Wall''], [''NDEBUG''])" "\<lambda>v. []"]
    by (fastforce simp: configured_def)
qed

lemma configure_unknown:
  "traits_of cc = None \<Longrightarrow> traits_of cxx = None \<Longrightarrow> cc \<noteq> None \<or> cxx \<noteq> None \<Longrightarrow>
   configure getvar append_value cc cxx p env = Inr (env, True)"
  by (auto simp: configure_def or_else_def)

end
