(* ===== verification/VisShell.thy ===== *)
theory VisShell
  imports PyCore
begin

text \<open>
  \<open>src/visualizer/visualizer/ipython_view.py\<close>: the shell of the visualizer. IPython is a parameter, a record
  of actions on its own state and on the text it has written to \<open>cout\<close>. What the widget does to its text
  buffer is the list of calls it makes; the positions of the cursor, of the other end of the selection
  and of the mark \<open>line_start\<close>, and the text of the current line, are read from the buffer.
\<close>

section \<open>Completion\<close>

text \<open>\<open>complete_sep.split\<close>: blanks, braces, brackets and parentheses separate.\<close>

definition complete_sep :: "char \<Rightarrow> bool" where
  "complete_sep c \<longleftrightarrow> py_space c \<or> c \<in> set ''{}[]()''"

fun split_at :: "(char \<Rightarrow> bool) \<Rightarrow> string \<Rightarrow> string list" where
  "split_at sep [] = [[]]"
| "split_at sep (c # s) =
     (if sep c then [] # split_at sep s
      else case split_at sep s of [] \<Rightarrow> [[c]] | w # ws \<Rightarrow> (c # w) # ws)"

fun commonPrefix_from :: "nat list \<Rightarrow> string \<Rightarrow> string \<Rightarrow> string" where
  "commonPrefix_from [] str1 str2 = str1"
| "commonPrefix_from (i # is) str1 str2 =
     (if \<not> startswith str2 (take (i + 1) str1) then take i str1 else commonPrefix_from is str1 str2)"

definition commonPrefix :: "string \<Rightarrow> string \<Rightarrow> string" where
  "commonPrefix str1 str2 = commonPrefix_from [0..<length str1] str1 str2"

text \<open>\<open>possibilities\<close> is false only if it is \<open>None\<close>.\<close>

definition complete :: "(string \<Rightarrow> (string \<times> string list) option) \<Rightarrow> string \<Rightarrow> (string \<times> string list) pyres" where
  "complete ip_complete line =
     (let word = last (split_at complete_sep line);
          possibilities = (if word \<noteq> [] then ip_complete word else Some ([], []))
      in case possibilities of
           None \<Rightarrow> Inl TypeError
         | Some (t, ps) \<Rightarrow>
             (case ps of
                [] \<Rightarrow> Inr (line, ps)
              | p # ps' \<Rightarrow>
                  (let pre = foldl commonPrefix p ps'
                   in Inr (take (length line - length word) line @ (if pre \<noteq> [] then pre else [last line]), ps))))"

section \<open>Writing to the buffer\<close>

definition esc :: char where
  "esc = CHR 0x1B"

text \<open>
  A match of \<open>color_pat\<close> at the beginning of a text: the group and the rest. \<open>color_split\<close> is its \<open>split\<close>:
  the text before the first match, then the group of each match and the text after it.
\<close>

definition match_code :: "string \<Rightarrow> (string \<times> string) option" where
  "match_code s =
     (let s1 = (if startswith s [CHR 0x01] then tl s else s)
      in if startswith s1 [esc, CHR ''['']
         then (let body = drop 2 s1; code = takeWhile (\<lambda>c. c \<noteq> CHR ''m'' \<and> c \<noteq> py_newline) body;
                   after = dropWhile (\<lambda>c. c \<noteq> CHR ''m'' \<and> c \<noteq> py_newline) body
               in if startswith after ''m''
                  then Some (code, if startswith (tl after) [CHR 0x02] then drop 2 after else tl after)
                  else None)
         else None)"

lemma match_code_shorter: "match_code s = Some (code, r) \<Longrightarrow> length r < length s"
proof -
  assume m: "match_code s = Some (code, r)"
  define s1 where "s1 = (if startswith s [CHR 0x01] then tl s else s)"
  have "startswith s1 [esc, CHR ''['']"
    using m by (simp add: match_code_def Let_def flip: s1_def split: if_splits)
  then obtain t where s1: "s1 = esc # CHR ''['' # t" by (auto simp: startswith_iff)
  define after where "after = dropWhile (\<lambda>c. c \<noteq> CHR ''m'' \<and> c \<noteq> py_newline) t"
  have "r = tl after \<or> r = drop 2 after"
    using m s1 by (auto simp: match_code_def Let_def after_def simp flip: s1_def split: if_splits)
  moreover have "length after \<le> length t" by (simp add: after_def length_dropWhile_le)
  moreover have "length s1 \<le> length s" by (simp add: s1_def)
  ultimately show ?thesis using s1 by auto
qed

function color_split :: "string \<Rightarrow> string \<times> (string \<times> string) list" where
  "color_split s =
     (case match_code s of
        Some (code, r) \<Rightarrow> (case color_split r of (t, ts) \<Rightarrow> ([], (code, t) # ts))
      | None \<Rightarrow> (case s of [] \<Rightarrow> ([], []) | c # r \<Rightarrow> (case color_split r of (t, ts) \<Rightarrow> (c # t, ts))))"
  by pat_completeness auto

termination
  by (relation "measure length") (auto dest: match_code_shorter)

declare color_split.simps [simp del]

text \<open>The loop over the tags, with the position of the first segment equal to the tag.\<close>

fun index_of :: "'a \<Rightarrow> 'a list \<Rightarrow> nat option" where
  "index_of x [] = None"
| "index_of x (y # ys) = (if x = y then Some 0 else map_option Suc (index_of x ys))"

fun tagged_segments :: "string list \<Rightarrow> string list \<Rightarrow> (string \<times> string) list pyres" where
  "tagged_segments [] segments = Inr []"
| "tagged_segments (tag # tags) segments =
     (case index_of tag segments of
        None \<Rightarrow> Inl ValueError
      | Some i \<Rightarrow>
          if i + 1 < length segments
          then rmap (Cons (segments ! (i + 1), tag)) (tagged_segments tags (take i segments @ drop (i + 1) segments))
          else Inl IndexError)"

datatype call =
    InsertEnd string
  | InsertEndTagged string string
  | ProtectWritten
  | ProtectLine
  | DeleteLine
  | MoveLineStart
  | CursorToEnd
  | Indent nat
  | ScrollToEnd

definition write_text :: "string \<Rightarrow> bool \<Rightarrow> call list pyres" where
  "write_text t editable =
     (let (segment, pairs) = color_split t; segments = concat (map (\<lambda>(g, u). [g, u]) pairs) in
      rmap (\<lambda>ts. InsertEnd segment # map (\<lambda>(u, g). InsertEndTagged u g) ts @
                   (if editable then [] else [ProtectWritten]) @ [ScrollToEnd])
        (tagged_segments (map fst pairs) segments))"

definition show_prompt :: "string \<Rightarrow> call list pyres" where
  "show_prompt prompt = rmap (\<lambda>cs. cs @ [MoveLineStart]) (write_text prompt False)"

definition change_line :: "string \<Rightarrow> call list pyres" where
  "change_line t = rmap (\<lambda>cs. DeleteLine # cs) (write_text t True)"

definition show_returned :: "string \<Rightarrow> nat option \<Rightarrow> string \<Rightarrow> call list pyres" where
  "show_returned prompt indent t =
     rbind (write_text (py_newline # t) False) (\<lambda>a.
     rbind (if t \<noteq> [] then write_text [py_newline] False else Inr []) (\<lambda>b.
     rmap (\<lambda>c. ProtectLine # a @ b @ c @ [MoveLineStart, CursorToEnd] @ (case indent of None \<Rightarrow> [] | Some n \<Rightarrow> [Indent n]))
       (show_prompt prompt)))"

section \<open>The shell\<close>

text \<open>IPython, on its own state and the text in \<open>cout\<close>.\<close>

type_synonym 'ip io = "'ip \<times> string"

record 'ip ipython =
  ip_prompt :: "bool \<Rightarrow> ('ip io, string) act"
  ip_pre_prompt_hook :: "('ip io, unit) act"
  ip_autoindent :: "'ip \<Rightarrow> bool"
  ip_do_indent :: "'ip \<Rightarrow> bool"
  ip_set_do_indent :: "bool \<Rightarrow> 'ip \<Rightarrow> 'ip"
  ip_indent_spaces :: "'ip \<Rightarrow> nat"
  ip_showtraceback :: "('ip io, unit) act"
  ip_write :: "string \<Rightarrow> ('ip io, unit) act"
  ip_reset :: "('ip io, unit) act"
  ip_push :: "string \<Rightarrow> ('ip io, unit) act"
  ip_accepts_more :: "('ip io, bool) act"
  ip_syntax_error :: "'ip \<Rightarrow> bool"
  ip_edit_syntax_error :: "('ip io, unit) act"
  ip_source_reset :: "('ip io, string) act"
  ip_run_cell :: "string \<Rightarrow> ('ip io, unit) act"
  ip_history :: "'ip \<Rightarrow> string list"
  ip_complete :: "'ip \<Rightarrow> string \<Rightarrow> (string \<times> string list) option"

datatype stream = Process | Shell_io

datatype idle = Write string bool | ShowPrompt string | ChangeLine string | ShowReturned string

record 'ip shell =
  sh_io :: "'ip io"
  sh_iter_more :: bool
  sh_history_level :: int
  sh_prompt :: string
  sh_interrupt :: bool
  sh_stdout :: stream
  sh_stdin :: stream
  sh_idle :: "idle list"
  sh_calls :: "call list"

definition on_io :: "('ip io, 'a) act \<Rightarrow> ('ip shell, 'a) act" where
  "on_io m s = (case m (sh_io s) of (r, io) \<Rightarrow> (r, s\<lparr>sh_io := io\<rparr>))"

definition agets :: "('s \<Rightarrow> 'a) \<Rightarrow> ('s, 'a) act" where
  "agets f s = (Inr (f s), s)"

text \<open>\<open>try\<close> with a handler and an \<open>else\<close> branch.\<close>

definition atry :: "('s, 'a) act \<Rightarrow> (pyerr \<Rightarrow> ('s, 'b) act) \<Rightarrow> ('a \<Rightarrow> ('s, 'b) act) \<Rightarrow> ('s, 'b) act" where
  "atry m h k s = (case m s of (Inl e, t) \<Rightarrow> h e t | (Inr x, t) \<Rightarrow> k x t)"

abbreviation set_do_indent :: "'ip ipython \<Rightarrow> bool \<Rightarrow> ('ip shell, unit) act" where
  "set_do_indent ip b \<equiv> amodify (sh_io_update (apfst (ip_set_do_indent ip b)))"

text \<open>\<open>raw_input\<close>, with the current line of the buffer.\<close>

definition raw_input :: "string \<Rightarrow> ('ip shell, string) act" where
  "raw_input line =
     abind (agets sh_interrupt) (\<lambda>interrupt.
       if interrupt then aseq (amodify (sh_interrupt_update (\<lambda>_. False))) (araise (PyException ''KeyboardInterrupt''))
       else aret line)"

definition set_prompt :: "'ip ipython \<Rightarrow> bool \<Rightarrow> ('ip shell, unit) act" where
  "set_prompt ip again = abind (on_io (ip_prompt ip again)) (\<lambda>p. amodify (sh_prompt_update (\<lambda>_. p)))"

text \<open>A line has been read: it is pushed, and when the input is complete it is run.\<close>

definition accept_line :: "'ip ipython \<Rightarrow> string \<Rightarrow> ('ip shell, unit) act" where
  "accept_line ip line =
     aseq (on_io (ip_push ip line)) (abind (on_io (ip_accepts_more ip)) (\<lambda>again.
     aseq (amodify (sh_iter_more_update (\<lambda>_. again))) (aseq (set_prompt ip again)
     (abind (agets (\<lambda>s. ip_syntax_error ip (fst (sh_io s)))) (\<lambda>err.
     aseq (if err then on_io (ip_edit_syntax_error ip) else aret ())
       (if \<not> again
        then abind (on_io (ip_source_reset ip)) (\<lambda>source.
             aseq (on_io (ip_run_cell ip source)) (set_do_indent ip False))
        else set_do_indent ip True))))))"

definition read_line :: "'ip ipython \<Rightarrow> string \<Rightarrow> ('ip shell, unit) act" where
  "read_line ip line =
     atry (raw_input line)
       (\<lambda>e. if e = PyException ''KeyboardInterrupt''
             then aseq (on_io (ip_write ip (py_newline # ''KeyboardInterrupt'' @ [py_newline]))) (on_io (ip_reset ip))
             else on_io (ip_showtraceback ip))
       (accept_line ip)"

definition continue_prompt :: "'ip ipython \<Rightarrow> ('ip shell, unit) act" where
  "continue_prompt ip =
     aseq (atry (set_prompt ip True) (\<lambda>e. on_io (ip_showtraceback ip)) aret)
       (abind (agets (\<lambda>s. ip_autoindent ip (fst (sh_io s)))) (\<lambda>b. if b then set_do_indent ip True else aret ()))"

definition execute :: "'ip ipython \<Rightarrow> string \<Rightarrow> ('ip shell, unit) act" where
  "execute ip line =
     aseq (amodify (sh_history_level_update (\<lambda>_. 0)))
     (abind (agets sh_stdout) (\<lambda>orig_stdout. aseq (amodify (sh_stdout_update (\<lambda>_. Shell_io)))
     (abind (agets sh_stdin) (\<lambda>orig_stdin. aseq (amodify (sh_stdin_update (\<lambda>_. Shell_io)))
     (abind (agets sh_iter_more) (\<lambda>again. aseq (set_prompt ip again)
     (aseq (on_io (ip_pre_prompt_hook ip))
     (aseq (if again then continue_prompt ip else aret ())
     (aseq (read_line ip line)
     (amodify (\<lambda>s. s\<lparr>sh_stdout := orig_stdout, sh_stdin := orig_stdin\<rparr>)))))))))))"

definition strip_newlines :: "string \<Rightarrow> string" where
  "strip_newlines s = rev (dropWhile (\<lambda>c. c = py_newline) (rev (dropWhile (\<lambda>c. c = py_newline) s)))"

definition getHistory :: "'ip ipython \<Rightarrow> 'ip shell \<Rightarrow> string" where
  "getHistory ip s =
     (case py_index (ip_history ip (fst (sh_io s))) (sh_history_level s) of Inl e \<Rightarrow> [] | Inr t \<Rightarrow> strip_newlines t)"

definition historyBack :: "'ip ipython \<Rightarrow> 'ip shell \<Rightarrow> string \<times> 'ip shell" where
  "historyBack ip s =
     (let s1 = s\<lparr>sh_history_level := sh_history_level s - 1\<rparr>;
          s2 = (if getHistory ip s1 = [] then s1\<lparr>sh_history_level := sh_history_level s1 + 1\<rparr> else s1)
      in (getHistory ip s2, s2))"

definition historyForward :: "'ip ipython \<Rightarrow> 'ip shell \<Rightarrow> string \<times> 'ip shell" where
  "historyForward ip s =
     (let s1 = (if sh_history_level s < 0 then s\<lparr>sh_history_level := sh_history_level s + 1\<rparr> else s)
      in (getHistory ip s1, s1))"

definition post :: "idle \<Rightarrow> ('ip shell, unit) act" where
  "post i = amodify (\<lambda>s. s\<lparr>sh_idle := sh_idle s @ [i]\<rparr>)"

definition processLine :: "'ip ipython \<Rightarrow> string \<Rightarrow> ('ip shell, unit) act" where
  "processLine ip line =
     aseq (execute ip line) (abind (agets (snd \<circ> sh_io)) (\<lambda>rv.
     aseq (post (ShowReturned (strip_newlines rv))) (amodify (sh_io_update (apsnd (\<lambda>_. []))))))"

section \<open>Keys\<close>

datatype key = Home | Left | Return | Up | Down | Tab | KeyC | OtherKey

record key_event =
  keyval :: key
  control :: bool
  alt :: bool
  shift :: bool
  key_string :: string

text \<open>What the handler sees of the buffer; \<open>bf_left_editable\<close>: the position before the cursor is editable.\<close>

record buffer =
  bf_insert :: nat
  bf_selection :: nat
  bf_start :: nat
  bf_left_editable :: bool
  bf_line :: string

definition onKeyPressExtend :: "'ip ipython \<Rightarrow> string \<Rightarrow> key_event \<Rightarrow> ('ip shell, bool option) act" where
  "onKeyPressExtend ip line ev =
     (if control ev \<and> keyval ev = KeyC
      then aseq (amodify (sh_interrupt_update (\<lambda>_. True))) (aseq (processLine ip line) (aret (Some True)))
      else case keyval ev of
        Return \<Rightarrow> aseq (processLine ip line) (aret (Some True))
      | Up \<Rightarrow> (\<lambda>s. case historyBack ip s of (t, s1) \<Rightarrow> aseq (post (ChangeLine t)) (aret (Some True)) s1)
      | Down \<Rightarrow> (\<lambda>s. case historyForward ip s of (t, s1) \<Rightarrow> aseq (post (ChangeLine t)) (aret (Some True)) s1)
      | Tab \<Rightarrow>
          if py_strip line = [] then aret (Some False)
          else abind (\<lambda>s. alift (complete (ip_complete ip (fst (sh_io s))) line) s) (\<lambda>(completed, possibilities).
            aseq (awhen (length possibilities > 1)
                    (aseq (post (Write [py_newline] False))
                    (aseq (afor possibilities (\<lambda>symbol. post (Write (symbol @ [py_newline]) False)))
                      (abind (agets sh_prompt) (\<lambda>p. post (ShowPrompt p))))))
            (aseq (if completed \<noteq> [] then post (ChangeLine completed)
                   else if length possibilities > 1 then post (ChangeLine line) else araise UnboundLocalError)
              (aret (Some True))))
      | _ \<Rightarrow> aret None)"

text \<open>The marks of the buffer after the handler, with its result and the shell.\<close>

definition onKeyPress :: "'ip ipython \<Rightarrow> buffer \<Rightarrow> key_event \<Rightarrow> 'ip shell \<Rightarrow> (bool option pyres \<times> 'ip shell) \<times> buffer" where
  "onKeyPress ip b ev s =
     (let extend = onKeyPressExtend ip (bf_line b) ev s; start = bf_start b in
      if keyval ev = Home then
        (if control ev \<or> alt ev then (extend, b)
         else if shift ev then ((Inr (Some True), s), b\<lparr>bf_insert := start\<rparr>)
         else ((Inr (Some True), s), b\<lparr>bf_insert := start, bf_selection := start\<rparr>))
      else if keyval ev = Left then
        (if \<not> bf_left_editable b then ((Inr (Some True), s), b) else (extend, b))
      else if key_string ev = [] then (extend, b)
      else if start \<le> bf_insert b \<and> start \<le> bf_selection b then (extend, b)
      else if start > bf_insert b \<and> start > bf_selection b then (extend, b\<lparr>bf_insert := start, bf_selection := start\<rparr>)
      else if bf_insert b < bf_selection b then (extend, b\<lparr>bf_insert := start\<rparr>)
      else if bf_insert b > bf_selection b then (extend, b\<lparr>bf_selection := start\<rparr>)
      else (extend, b))"

text \<open>
  The main loop takes the next call that waits. An exception ends only that call; what it has done to the
  buffer before is left out.
\<close>

definition idle_calls :: "'ip ipython \<Rightarrow> 'ip shell \<Rightarrow> idle \<Rightarrow> call list pyres" where
  "idle_calls ip s i =
     (case i of
        Write t editable \<Rightarrow> write_text t editable
      | ShowPrompt p \<Rightarrow> show_prompt p
      | ChangeLine t \<Rightarrow> change_line t
      | ShowReturned t \<Rightarrow>
          show_returned (sh_prompt s)
            (if ip_do_indent ip (fst (sh_io s)) then Some (ip_indent_spaces ip (fst (sh_io s))) else None) t)"

definition run_idle :: "'ip ipython \<Rightarrow> 'ip shell \<Rightarrow> 'ip shell" where
  "run_idle ip s =
     (case sh_idle s of
        [] \<Rightarrow> s
      | i # is \<Rightarrow>
          (let s1 = s\<lparr>sh_idle := is\<rparr>
           in case idle_calls ip s i of Inl e \<Rightarrow> s1 | Inr cs \<Rightarrow> s1\<lparr>sh_calls := sh_calls s1 @ cs\<rparr>))"

section \<open>Completion extends the line\<close>

lemma commonPrefix_loop:
  assumes "i \<le> length a" "prefix (take i a) b"
  shows "prefix (commonPrefix_from [i..<length a] a b) a \<and> prefix (commonPrefix_from [i..<length a] a b) b \<and>
    (\<forall>q. prefix q a \<and> prefix q b \<longrightarrow> prefix q (commonPrefix_from [i..<length a] a b))"
  using assms
proof (induction "length a - i" arbitrary: i)
  case 0
  then show ?case by simp
next
  case (Suc n)
  then have list: "[i..<length a] = i # [Suc i..<length a]" by (simp add: upt_conv_Cons)
  show ?case
  proof (cases "startswith b (take (i + 1) a)")
    case True
    then have "prefix (take (Suc i) a) b" by (auto simp: startswith_iff prefix_def)
    with Suc.hyps Suc.prems True show ?thesis by (simp add: list)
  next
    case False
    have "prefix q (take i a)" if q: "prefix q a" "prefix q b" for q
    proof -
      from q(1) have "q = take (length q) a" by (auto simp: prefix_def)
      moreover have "length q \<le> i"
      proof (rule ccontr)
        assume "\<not> length q \<le> i"
        then have "prefix (take (i + 1) a) q" using \<open>q = take (length q) a\<close>
          by (metis Suc_eq_plus1 Suc_leI linorder_not_le min.absorb1 take_is_prefix take_take)
        with q(2) False show False by (auto simp: startswith_iff prefix_def)
      qed
      ultimately show ?thesis by (metis min.absorb1 take_is_prefix take_take)
    qed
    with False Suc.prems show ?thesis by (simp add: list take_is_prefix)
  qed
qed

lemma commonPrefix_iff: "prefix q (commonPrefix a b) \<longleftrightarrow> prefix q a \<and> prefix q b"
  using commonPrefix_loop [of 0 a b] unfolding commonPrefix_def by (auto dest: prefix_order.trans)

lemma reduce_prefix: "prefix q (foldl commonPrefix p ps) \<longleftrightarrow> (\<forall>x\<in>set (p # ps). prefix q x)"
  by (induction ps arbitrary: p) (auto simp: commonPrefix_iff)

lemma reduce_longest: "foldl commonPrefix p ps = Longest_common_prefix (set (p # ps))"
proof (rule prefix_order.antisym)
  show "prefix (foldl commonPrefix p ps) (Longest_common_prefix (set (p # ps)))"
    using reduce_prefix [of "foldl commonPrefix p ps" p ps] by (intro Longest_common_prefix_max_prefix) auto
  show "prefix (Longest_common_prefix (set (p # ps))) (foldl commonPrefix p ps)"
    unfolding reduce_prefix using Longest_common_prefix_prefix by blast
qed

lemma split_at_nonempty [simp]: "split_at sep s \<noteq> []"
  by (induction s) (auto split: list.splits)

lemma split_at_two: "x \<in> set s \<Longrightarrow> sep x \<Longrightarrow> 1 < length (split_at sep s)"
proof (induction s)
  case (Cons c s)
  then show ?case
    by (cases "split_at sep s") (auto dest: arg_cong [where f = length])
qed simp

lemma split_at_last:
  "\<exists>b. s = b @ last (split_at sep s) \<and> (b = [] \<or> sep (last b)) \<and> (\<forall>c\<in>set (last (split_at sep s)). \<not> sep c)"
proof (induction s)
  case Nil
  then show ?case by simp
next
  case (Cons c s)
  then obtain b where b: "s = b @ last (split_at sep s)" "b = [] \<or> sep (last b)" "\<forall>c\<in>set (last (split_at sep s)). \<not> sep c"
    by blast
  obtain w ws where ws: "split_at sep s = w # ws" by (cases "split_at sep s") auto
  show ?case
  proof (cases "sep c")
    case True
    with b ws show ?thesis by (intro exI [of _ "c # b"]) auto
  next
    case sep: False
    show ?thesis
    proof (cases "ws = []")
      case True
      with ws have w: "last (split_at sep s) = w" by simp
      have "b = []"
      proof (rule ccontr)
        assume "b \<noteq> []"
        with b(2) have "\<exists>x\<in>set s. sep x" using b(1) by (metis in_set_conv_decomp last_in_set Un_iff set_append)
        then obtain x where "x \<in> set s" "sep x" by blast
        from split_at_two [of x s sep, OF this] show False using ws True by simp
      qed
      with b sep ws True show ?thesis by (intro exI [of _ "[]"]) simp
    next
      case False
      then have "b \<noteq> []"
      proof -
        assume "ws \<noteq> []"
        have "split_at sep s = [s]" if "\<forall>x\<in>set s. \<not> sep x" for s
          using that by (induction s) auto
        with ws \<open>ws \<noteq> []\<close> b show ?thesis by fastforce
      qed
      with b sep ws False show ?thesis by (intro exI [of _ "c # b"]) simp
    qed
  qed
qed

text \<open>
  C28: a completion replaces the last word of the line by the longest common prefix of the
  possibilities IPython gives for it, or by the last character when they share none. It never shortens
  the line when all possibilities begin with the word.
\<close>

theorem complete_correct:
  assumes "complete ipc line = Inr (completed, ps)" and "ps \<noteq> []"
  shows "\<exists>before word t. line = before @ word \<and> word \<noteq> [] \<and> (\<forall>c\<in>set word. \<not> complete_sep c) \<and>
    (before = [] \<or> complete_sep (last before)) \<and> ipc word = Some (t, ps) \<and>
    completed = before @ (let p = Longest_common_prefix (set ps) in if p \<noteq> [] then p else [last line]) \<and>
    ((\<forall>p\<in>set ps. prefix word p) \<longrightarrow> prefix line completed)"
proof -
  define word where "word = last (split_at complete_sep line)"
  obtain before where before: "line = before @ word" "before = [] \<or> complete_sep (last before)" "\<forall>c\<in>set word. \<not> complete_sep c"
    using split_at_last [of line complete_sep] unfolding word_def by blast
  from assms obtain t p ps' where ps: "word \<noteq> []" "ipc word = Some (t, ps)" "ps = p # ps'"
    and completed: "completed = take (length line - length word) line @
      (if foldl commonPrefix p ps' \<noteq> [] then foldl commonPrefix p ps' else [last line])"
    by (auto simp: complete_def Let_def simp flip: word_def split: option.splits list.splits if_splits)
  have eq: "completed = before @ (let p = Longest_common_prefix (set ps) in if p \<noteq> [] then p else [last line])"
    unfolding completed reduce_longest ps(3) Let_def before(1) by simp
  have "prefix line completed" if "\<forall>p\<in>set ps. prefix word p"
  proof -
    have "prefix word (Longest_common_prefix (set ps))"
      using that ps(3) by (intro Longest_common_prefix_max_prefix) auto
    with ps(1) before(1) show ?thesis unfolding eq by (auto simp: Let_def)
  qed
  with before ps(1,2) eq show ?thesis by blast
qed

theorem complete_correct_witness:
  "complete (\<lambda>w. if w = ''sy'' then Some (w, [''sys'', ''sysconf'']) else None) ''f(sy'' = Inr (''f(sys'', [''sys'', ''sysconf'']) \<and>
   (\<exists>before word. ''f(sy'' = before @ word \<and> (before = [] \<or> complete_sep (last before)) \<and> word \<noteq> [])"
proof -
  let ?ip = "\<lambda>w. if w = ''sy'' then Some (w, [''sys'', ''sysconf'']) else None"
  have c: "complete ?ip ''f(sy'' = Inr (''f(sys'', [''sys'', ''sysconf''])" by code_simp
  from complete_correct [OF c] c show ?thesis by blast
qed

text \<open>The word is lost when the possibilities share no character.\<close>

lemma completion_loses_word:
  "complete (\<lambda>w. Some (w, [''time'', ''%time''])) ''x = tim'' = Inr (''x = m'', [''time'', ''%time''])"
  by code_simp

section \<open>Typing goes behind the prompt\<close>

text \<open>
  When a key that gives text is passed on, both ends of the selection are behind the prompt; an
  end that was there stays where it was.
\<close>

theorem typing_behind_prompt:
  assumes "onKeyPress ip b ev s = (r, b')" and "key_string ev \<noteq> []" and "keyval ev \<notin> {Home, Left}"
  shows "b' = b\<lparr>bf_insert := max (bf_start b) (bf_insert b), bf_selection := max (bf_start b) (bf_selection b)\<rparr> \<and>
    bf_start b' \<le> bf_insert b' \<and> bf_start b' \<le> bf_selection b'"
  using assms by (cases b) (auto simp: onKeyPress_def Let_def max_def split: if_splits)

section \<open>Coloured text\<close>

text \<open>
  The segments are written in order with the tag of the code before them, unless a text is equal to
  one of the codes after it.
\<close>

lemma index_of_skip: "x \<notin> set ys \<Longrightarrow> index_of x (ys @ x # zs) = Some (length ys)"
  by (induction ys) auto

lemma tagged_segments_pairs:
  assumes "\<forall>t\<in>set ds. t \<notin> fst ` set pairs" "\<forall>i<length pairs. \<forall>j<length pairs. i < j \<longrightarrow> snd (pairs ! i) \<noteq> fst (pairs ! j)"
  shows "tagged_segments (map fst pairs) (ds @ concat (map (\<lambda>(g, u). [g, u]) pairs)) = Inr (map prod.swap pairs)"
  using assms
proof (induction pairs arbitrary: ds)
  case Nil
  then show ?case by simp
next
  case (Cons p pairs)
  obtain g u where p: "p = (g, u)" by (cases p)
  have "u \<noteq> fst (pairs ! j)" if "j < length pairs" for j
    using Cons.prems(2) [rule_format, of 0 "Suc j"] that p by simp
  then have "u \<notin> fst ` set pairs" by (metis fst_conv image_iff in_set_conv_nth)
  then have "tagged_segments (map fst pairs) ((ds @ [u]) @ concat (map (\<lambda>(g, u). [g, u]) pairs)) = Inr (map prod.swap pairs)"
    using Cons.prems(1) Cons.prems(2) [rule_format, of "Suc _" "Suc _"] by (intro Cons.IH) auto
  moreover have "index_of g (ds @ g # u # concat (map (\<lambda>(g, u). [g, u]) pairs)) = Some (length ds)"
    using Cons.prems(1) p by (intro index_of_skip) auto
  ultimately show ?case by (simp add: p nth_append)
qed

lemma write_text_segments:
  assumes "color_split t = (segment, pairs)"
    and "\<forall>i<length pairs. \<forall>j<length pairs. i < j \<longrightarrow> snd (pairs ! i) \<noteq> fst (pairs ! j)"
  shows "write_text t editable = Inr (InsertEnd segment # map (\<lambda>(g, u). InsertEndTagged u g) pairs @
    (if editable then [] else [ProtectWritten]) @ [ScrollToEnd])"
  using tagged_segments_pairs [OF _ assms(2), of "[]"] assms(1)
  by (simp add: write_text_def Let_def split_beta o_def comp_def prod.swap_def)

text \<open>A coloured 0 followed by a reset hides the text after it: the tag of the reset is found in the text.\<close>

lemma coloured_zero:
  "write_text (esc # ''[1;36m0'' @ esc # ''[0m!'') False =
     Inr [InsertEnd [], InsertEndTagged ''0'' ''1;36'', InsertEndTagged ''0'' ''0'', ProtectWritten, ScrollToEnd]"
  by (simp add: write_text_def color_split.simps match_code_def startswith_def esc_def py_newline_def Let_def)

section \<open>History\<close>

definition history_ok :: "'ip ipython \<Rightarrow> 'ip shell \<Rightarrow> bool" where
  "history_ok ip s \<longleftrightarrow> sh_history_level s \<le> 0 \<and>
     (\<forall>k. sh_history_level s \<le> k \<and> k < 0 \<longrightarrow> getHistory ip (s\<lparr>sh_history_level := k\<rparr>) \<noteq> [])"

text \<open>One step back: to an entry with text, or nowhere.\<close>

lemma historyBack_cases:
  assumes "history_ok ip s"
  obtains (stay) "historyBack ip s = (getHistory ip s, s)"
    | (older) s1 where "s1 = s\<lparr>sh_history_level := sh_history_level s - 1\<rparr>" "getHistory ip s1 \<noteq> []" "historyBack ip s = (getHistory ip s1, s1)"
      "history_ok ip s1"
proof (cases "getHistory ip (s\<lparr>sh_history_level := sh_history_level s - 1\<rparr>) = []")
  case True
  then show ?thesis by (intro stay) (simp add: historyBack_def Let_def)
next
  case False
  let ?s1 = "s\<lparr>sh_history_level := sh_history_level s - 1\<rparr>"
  have "getHistory ip (s\<lparr>sh_history_level := k\<rparr>) \<noteq> []" if "sh_history_level s - 1 \<le> k" "k < 0" for k
    using that assms False by (cases "k = sh_history_level s - 1") (auto simp: history_ok_def)
  then have "history_ok ip ?s1" using assms by (simp add: history_ok_def)
  with False show ?thesis by (intro older [of ?s1]) (simp_all add: historyBack_def Let_def)
qed

lemma history_ok_start: "sh_history_level s = 0 \<Longrightarrow> history_ok ip s"
  by (auto simp: history_ok_def)

lemma history_ok_forward: "history_ok ip s \<Longrightarrow> history_ok ip (snd (historyForward ip s))"
  by (auto simp: history_ok_def historyForward_def Let_def)

text \<open>A step forward undoes a step back that went somewhere.\<close>

lemma history_forward_back:
  assumes "history_ok ip s" and "historyBack ip s = (t, s1)" and "s1 \<noteq> s"
  shows "historyForward ip s1 = (getHistory ip s, s)"
  using assms(1)
proof (cases rule: historyBack_cases)
  case stay
  with assms(2,3) show ?thesis by simp
next
  case (older s2)
  with assms(1,2) show ?thesis by (auto simp: historyForward_def Let_def history_ok_def)
qed

section \<open>Running a line\<close>

text \<open>What IPython leaves alone: the streams, the calls that wait and the place in the history.\<close>

definition frame :: "'ip shell \<Rightarrow> stream \<times> stream \<times> idle list \<times> int" where
  "frame s = (sh_stdout s, sh_stdin s, sh_idle s, sh_history_level s)"

definition keeps :: "('ip shell, 'a) act \<Rightarrow> bool" where
  "keeps m \<longleftrightarrow> (\<forall>x. hoare (\<lambda>s. frame s = x) m (\<lambda>_ s. frame s = x) (\<lambda>_ s. frame s = x))"

lemma atry_cases:
  assumes "atry m h k s = (r, t)"
  obtains (raised) e s' where "m s = (Inl e, s')" "h e s' = (r, t)" | (returned) x s' where "m s = (Inr x, s')" "k x s' = (r, t)"
  using assms by (cases "m s") (auto simp: atry_def split: sum.splits)

lemma hoare_try:
  "hoare P m R F \<Longrightarrow> (\<And>x. hoare (R x) (k x) Q E) \<Longrightarrow> (\<And>e. hoare (F e) (h e) Q E) \<Longrightarrow> hoare P (atry m h k) Q E"
  by (rule hoareI) (erule atry_cases; blast dest: hoareD hoareE)+

named_theorems keeps_rules \<open>actions that keep the frame\<close>

lemma keeps_io [keeps_rules]: "keeps (on_io m)"
  by (auto simp: keeps_def hoare_def on_io_def frame_def split: prod.splits sum.splits)

lemma keeps_gets [keeps_rules]: "keeps (agets f)"
  by (auto simp: keeps_def hoare_def agets_def)

lemma keeps_ret [keeps_rules]: "keeps (aret x)" "keeps (araise e)"
  by (auto simp: keeps_def intro: hoare_ret hoare_raise)

lemma keeps_bind [keeps_rules]: "keeps m \<Longrightarrow> (\<And>x. keeps (f x)) \<Longrightarrow> keeps (abind m f)"
  unfolding keeps_def by (blast intro: hoare_bind)

lemma keeps_seq [keeps_rules]: "keeps m \<Longrightarrow> keeps n \<Longrightarrow> keeps (aseq m n)"
  unfolding aseq_def by (rule keeps_bind)

lemma keeps_try [keeps_rules]: "keeps m \<Longrightarrow> (\<And>e. keeps (h e)) \<Longrightarrow> (\<And>x. keeps (k x)) \<Longrightarrow> keeps (atry m h k)"
  unfolding keeps_def by (blast intro: hoare_try)

lemma keeps_if [keeps_rules]: "keeps m \<Longrightarrow> keeps n \<Longrightarrow> keeps (if b then m else n)"
  by simp

lemma keeps_modify [keeps_rules]: "(\<And>s. frame (f s) = frame s) \<Longrightarrow> keeps (amodify f)"
  by (simp add: keeps_def hoare_modify)

lemma keeps_line: "keeps (set_prompt ip again)" "keeps (continue_prompt ip)" "keeps (read_line ip line)"
proof -
  show p: "keeps (set_prompt ip again)" for again
    unfolding set_prompt_def by (intro keeps_rules) (simp add: frame_def)
  show "keeps (continue_prompt ip)"
    unfolding continue_prompt_def by (intro keeps_rules p) (simp add: frame_def)
  show "keeps (read_line ip line)"
    unfolding read_line_def accept_line_def raw_input_def by (intro keeps_rules p) (simp_all add: frame_def)
qed

lemma first_step: "abind (agets f) k s = k (f s) s" "aseq (amodify g) n s = n (g s)"
  by (simp_all add: act_step agets_def amodify_apply)

lemma keepsD: "keeps m \<Longrightarrow> hoare (\<lambda>s. frame s = x) m (\<lambda>_ s. frame s = x) (\<lambda>_ s. frame s = x)"
  unfolding keeps_def by blast

text \<open>Running a line puts the streams of the process back, except when IPython raises.\<close>

lemma execute_frame:
  assumes "execute ip line s = (r, t)"
  shows "frame t = (case r of Inl e \<Rightarrow> (Shell_io, Shell_io, sh_idle s, 0) | Inr u \<Rightarrow> (sh_stdout s, sh_stdin s, sh_idle s, 0))"
proof -
  let ?during = "\<lambda>t. frame t = (Shell_io, Shell_io, sh_idle s, 0)"
  define body where "body = aseq (set_prompt ip (sh_iter_more s)) (aseq (on_io (ip_pre_prompt_hook ip))
    (aseq (if sh_iter_more s then continue_prompt ip else aret ()) (aseq (read_line ip line)
      (amodify (\<lambda>t. t\<lparr>sh_stdout := sh_stdout s, sh_stdin := sh_stdin s\<rparr>)))))"
  have restore: "hoare ?during (amodify (\<lambda>t. t\<lparr>sh_stdout := sh_stdout s, sh_stdin := sh_stdin s\<rparr>))
      (\<lambda>_ t. frame t = (sh_stdout s, sh_stdin s, sh_idle s, 0)) (\<lambda>_. ?during)"
    by (rule hoare_modify) (simp add: frame_def)
  have h: "hoare ?during body (\<lambda>_ t. frame t = (sh_stdout s, sh_stdin s, sh_idle s, 0)) (\<lambda>_. ?during)"
    unfolding body_def by (intro hoare_seq [OF keepsD] restore keeps_line keeps_io keeps_if keeps_ret)
  define s1 where "s1 = s\<lparr>sh_history_level := 0, sh_stdout := Shell_io, sh_stdin := Shell_io\<rparr>"
  have "body s1 = (r, t)"
    using assms by (simp add: execute_def body_def s1_def first_step)
  moreover have "?during s1" by (simp add: s1_def frame_def)
  ultimately show ?thesis
    using hoareD [OF h, of s1 _ t] hoareE [OF h, of s1 _ t] by (auto split: sum.split)
qed

text \<open>
  After a line the output of IPython is posted to the buffer and \<open>cout\<close> is empty; an exception of
  IPython leaves \<open>sys.stdout\<close> with the shell and shows nothing.
\<close>

lemma processLine_result:
  assumes "processLine ip line s = (r, t)"
  shows "case r of
      Inl e \<Rightarrow> sh_stdout t = Shell_io \<and> sh_idle t = sh_idle s
    | Inr u \<Rightarrow> sh_stdout t = sh_stdout s \<and> sh_stdin t = sh_stdin s \<and> snd (sh_io t) = [] \<and> history_ok ip t \<and>
        (\<exists>out. sh_idle t = sh_idle s @ [ShowReturned (strip_newlines out)])"
proof -
  obtain q t1 where run: "execute ip line s = (q, t1)" by (cases "execute ip line s")
  note f = execute_frame [OF run]
  show ?thesis
  proof (cases q)
    case (Inl e)
    with run assms have "r = Inl e" "t = t1" by (auto simp: processLine_def act_step)
    with f Inl show ?thesis by (simp add: frame_def)
  next
    case (Inr u)
    with run assms have "r = Inr ()" "t = t1\<lparr>sh_idle := sh_idle t1 @ [ShowReturned (strip_newlines (snd (sh_io t1)))],
        sh_io := (fst (sh_io t1), [])\<rparr>"
      by (auto simp: processLine_def act_step agets_def post_def amodify_apply apsnd_def map_prod_def split: prod.splits)
    with f Inr show ?thesis by (auto simp: frame_def intro: history_ok_start)
  qed
qed

definition sample_ip :: "string list ipython" where
  "sample_ip = \<lparr>ip_prompt = (\<lambda>b. aret (if b then ''...'' else ''>'')), ip_pre_prompt_hook = aret (), ip_autoindent = (\<lambda>h. False),
     ip_do_indent = (\<lambda>h. False), ip_set_do_indent = (\<lambda>b h. h), ip_indent_spaces = (\<lambda>h. 0), ip_showtraceback = aret (),
     ip_write = (\<lambda>t. aret ()), ip_reset = aret (), ip_push = (\<lambda>t. amodify (\<lambda>(h, out). (h @ [t], out))), ip_accepts_more = aret False,
     ip_syntax_error = (\<lambda>h. False), ip_edit_syntax_error = aret (), ip_source_reset = (\<lambda>(h, out). (Inr (last h), (h, out))),
     ip_run_cell = (\<lambda>t. amodify (\<lambda>(h, out). (h, out @ t))), ip_history = (\<lambda>h. h), ip_complete = (\<lambda>h w. None)\<rparr>"

definition sample_shell :: "string list shell" where
  "sample_shell = \<lparr>sh_io = ([''''], ''''), sh_iter_more = False, sh_history_level = 0, sh_prompt = '''', sh_interrupt = False,
     sh_stdout = Process, sh_stdin = Process, sh_idle = [], sh_calls = []\<rparr>"

lemma sample_line:
  "case processLine sample_ip ''ab'' sample_shell of (r, t) \<Rightarrow> r = Inr () \<and> sh_idle t = [ShowReturned ''ab''] \<and>
     sh_calls (run_idle sample_ip t) =
       [ProtectLine, InsertEnd (py_newline # ''ab''), ProtectWritten, ScrollToEnd, InsertEnd [py_newline], ProtectWritten, ScrollToEnd,
        InsertEnd ''>'', ProtectWritten, ScrollToEnd, MoveLineStart, MoveLineStart, CursorToEnd] \<and>
     fst (historyBack sample_ip t) = ''ab''"
  by code_simp

theorem typing_behind_prompt_witness:
  "\<exists>b'. snd (onKeyPress sample_ip \<lparr>bf_insert = 2, bf_selection = 7, bf_start = 5, bf_left_editable = False, bf_line = ''''\<rparr>
       \<lparr>keyval = OtherKey, control = False, alt = False, shift = False, key_string = ''a''\<rparr> sample_shell) = b' \<and>
     bf_insert b' = 5 \<and> bf_selection b' = 7"
  using typing_behind_prompt [of sample_ip "\<lparr>bf_insert = 2, bf_selection = 7, bf_start = 5, bf_left_editable = False, bf_line = ''''\<rparr>"
      "\<lparr>keyval = OtherKey, control = False, alt = False, shift = False, key_string = ''a''\<rparr>" sample_shell]
  by (simp add: prod_eq_iff)

text \<open>The handler of the tabulator never reads an unset \<open>slice\<close>.\<close>

lemma completed_nonempty: "complete ipc line = Inr (completed, ps) \<Longrightarrow> line \<noteq> [] \<Longrightarrow> completed \<noteq> []"
  by (auto simp: complete_def Let_def split: option.splits list.splits if_splits)

end
