(* ===== verification/TopLevels.thy ===== *)
theory TopLevels
  imports TopSort
begin

text \<open>
  \<open>topsort_levels\<close> and \<open>topsort_levels_core\<close> of \<open>bindings/python/topsort.py\<close>. A generator is the list of what it
  yields, with how it ends.
\<close>

section \<open>One level\<close>

definition decrement :: "('a, int) dict \<Rightarrow> 'a \<Rightarrow> ('a, int) dict pyres" where
  "decrement num_parents child = rmap (\<lambda>n. dict_set child (n - 1) num_parents) (dict_getitem num_parents child)"

definition drop_parent :: "('a, int) dict \<times> ('a, 'a list) dict \<Rightarrow> 'a \<Rightarrow> (('a, int) dict \<times> ('a, 'a list) dict) pyres" where
  "drop_parent st level_parent =
     (case st of (num_parents, children) \<Rightarrow>
        if \<not> dict_has num_parents level_parent then Inl KeyError
        else
          (let num_parents = dict_del level_parent num_parents in
           case map_of children level_parent of
             None \<Rightarrow> Inr (num_parents, children)
           | Some cs \<Rightarrow> rmap (\<lambda>np. (np, dict_del level_parent children)) (rfold decrement num_parents cs)))"

definition level_of :: "('a, int) dict \<Rightarrow> 'a list" where
  "level_of num_parents = map fst (filter (\<lambda>p. snd p = 0) num_parents)"

lemma decrement_length: "decrement np c = Inr np' \<Longrightarrow> length np' = length np"
  by (auto simp: decrement_def rmap_eq_Inr_iff dict_getitem_def length_dict_set dict_has_iff split: option.splits)

lemma decrements_length: "rfold decrement np cs = Inr np' \<Longrightarrow> length np' = length np"
  by (induction cs arbitrary: np) (auto simp: rbind_eq_Inr_iff dest!: decrement_length)

lemma drop_parent_shorter: "drop_parent (np, ch) p = Inr (np', ch') \<Longrightarrow> length np' < length np"
proof -
  assume run: "drop_parent (np, ch) p = Inr (np', ch')"
  then have "dict_has np p" by (auto simp: drop_parent_def split: if_splits)
  then have "length (dict_del p np) < length np"
    by (auto simp: dict_del_def dict_has_def intro!: length_filter_less)
  with run show ?thesis
    by (auto simp: drop_parent_def Let_def rmap_eq_Inr_iff dest!: decrements_length split: if_splits option.splits)
qed

lemma drop_parents_shorter:
  "rfold drop_parent (np, ch) (p # ps) = Inr (np', ch') \<Longrightarrow> length np' < length np"
proof (induction ps arbitrary: p np ch)
  case Nil
  then show ?case by (auto simp: rbind_eq_Inr_iff dest: drop_parent_shorter)
next
  case (Cons q ps)
  then obtain np1 ch1 where one: "drop_parent (np, ch) p = Inr (np1, ch1)" and rest: "rfold drop_parent (np1, ch1) (q # ps) = Inr (np', ch')"
    by (auto simp: rbind_eq_Inr_iff)
  from drop_parent_shorter [OF one] Cons.IH [OF rest] show ?case by simp
qed

section \<open>All levels\<close>

text \<open>The levels that are yielded, and \<open>CycleError\<close> when elements are left at the end.\<close>

function topsort_levels_core :: "('a, int) dict \<Rightarrow> ('a, 'a list) dict \<Rightarrow> 'a list list \<times> unit pyres" where
  "topsort_levels_core num_parents children =
     (let level_parents = level_of num_parents in
      if level_parents = [] then ([], if num_parents \<noteq> [] then Inl CycleError else Inr ())
      else case rfold drop_parent (num_parents, children) level_parents of
             Inl e \<Rightarrow> ([level_parents], Inl e)
           | Inr (num_parents, children) \<Rightarrow>
               (case topsort_levels_core num_parents children of (levels, r) \<Rightarrow> (level_parents # levels, r)))"
  by pat_completeness auto

termination
proof (relation "measure (\<lambda>(np, ch). length np)")
  fix np :: "('a, int) dict" and ch :: "('a, 'a list) dict" and level st np' ch'
  assume "level = level_of np" "level \<noteq> []" "rfold drop_parent (np, ch) level = Inr st" "(np', ch') = st"
  then show "((np', ch'), (np, ch)) \<in> measure (\<lambda>(np, ch). length np)"
    using drop_parents_shorter [of np ch "hd level" "tl level" np' ch'] by auto
qed simp

declare topsort_levels_core.simps [simp del]

definition topsort_levels :: "('a \<times> 'a) list \<Rightarrow> ('a list list \<times> unit pyres) pyres" where
  "topsort_levels pairlist = rmap (\<lambda>(num_parents, children). topsort_levels_core num_parents children) (count_parents pairlist)"

lemma topsort_levels_samples:
  "topsort_levels [(1, 2), (3, 4), (5, 6), (1, 3), (1, 5), (1, 6), (2, 5 :: nat)] = Inr ([[1], [2, 3], [4, 5], [6]], Inr ())"
  "topsort_levels [(1, 2), (2, 3), (3, 4), (4, 3 :: nat)] = Inr ([[1], [2]], Inl CycleError)"
  by code_simp+

section \<open>Dropping the elements of a level\<close>

lemma decrements_knock_downs: "rfold decrement np cs = rmap fst (rfold knock_down (np, pending) cs)"
proof (induction cs arbitrary: np pending)
  case Nil
  then show ?case by simp
next
  case (Cons c cs)
  show ?case
    by (cases "dict_getitem np c") (auto simp: decrement_def [of np c] knock_down_def [of "(np, pending)" c] Cons.IH)
qed

lemma drop_parent_counted:
  assumes "counted pairs W np" "p \<in> elements pairs - W" "map_of ch p = listed_children pairs p"
    and later: "\<And>c. (p, c) \<in> set pairs \<Longrightarrow> c \<notin> insert p W"
  shows "\<exists>np' ch'. drop_parent (np, ch) p = Inr (np', ch') \<and> counted pairs (insert p W) np' \<and> (\<forall>q. q \<noteq> p \<longrightarrow> map_of ch' q = map_of ch q)"
proof -
  let ?cs = "children_of pairs p"
  have np: "\<And>x. map_of np x = (if x \<in> elements pairs - W then Some (int (open_parents pairs W x)) else None)" "dict_wf np"
    using assms(1) by (auto simp: counted_def)
  note sp = open_parents_visit [of p W pairs]
  have "\<exists>n. map_of (dict_del p np) x = Some n \<and> int (count_list ?cs x) \<le> n" if "x \<in> set ?cs" for x
  proof -
    from that have "(p, x) \<in> set pairs" by (auto simp: children_of_def)
    then have "x \<in> elements pairs - insert p W" using later by (force simp: elements_def)
    then show ?thesis using sp [of x] assms(2) by (simp add: np(1))
  qed
  from knock_downs [OF this, of "[]"] obtain np' new where
    run: "rfold knock_down (dict_del p np, []) ?cs = Inr (np', [] @ new)"
    and np': "\<And>x. map_of np' x = map_option (\<lambda>n. n - int (count_list ?cs x)) (map_of (dict_del p np) x)" and wf: "dict_wf np'"
    using dict_wf_del [OF np(2)] by blast
  have dec: "rfold decrement (dict_del p np) ?cs = Inr np'" by (simp add: decrements_knock_downs [of _ _ "[]"] run)
  have c: "counted pairs (insert p W) np'"
    unfolding counted_def using wf assms(2) by (auto simp: np' np(1) sp)
  have has: "dict_has np p" using np(1) [of p] assms(2) by (simp add: dict_has_iff)
  show ?thesis
  proof (cases "?cs = []")
    case True
    with dec have "np' = dict_del p np" by simp
    with True has assms(3) c show ?thesis by (auto simp: drop_parent_def Let_def listed_children_def)
  next
    case False
    with has assms(3) c dec show ?thesis by (auto simp: drop_parent_def Let_def listed_children_def)
  qed
qed

lemma drop_level_counted:
  assumes "counted pairs W np" "distinct L" "set L \<subseteq> elements pairs - W" "\<And>p. p \<notin> W \<Longrightarrow> map_of ch p = listed_children pairs p"
    and closed: "\<And>p c. (p, c) \<in> set pairs \<Longrightarrow> c \<in> W \<union> set L \<Longrightarrow> p \<notin> set L"
  shows "\<exists>np' ch'. rfold drop_parent (np, ch) L = Inr (np', ch') \<and> counted pairs (W \<union> set L) np' \<and>
    (\<forall>p. p \<notin> W \<union> set L \<longrightarrow> map_of ch' p = listed_children pairs p)"
  using assms
proof (induction L arbitrary: W np ch)
  case Nil
  then show ?case by auto
next
  case (Cons p L)
  have p: "p \<in> elements pairs - W" using Cons.prems(3) by simp
  have "c \<notin> insert p W" if "(p, c) \<in> set pairs" for c
    using Cons.prems(5) [OF that] by auto
  with drop_parent_counted [OF Cons.prems(1) p Cons.prems(4)] p obtain np1 ch1 where
    one: "drop_parent (np, ch) p = Inr (np1, ch1)" "counted pairs (insert p W) np1" "\<And>q. q \<noteq> p \<Longrightarrow> map_of ch1 q = map_of ch q"
    by blast
  have "\<exists>np' ch'. rfold drop_parent (np1, ch1) L = Inr (np', ch') \<and> counted pairs (insert p W \<union> set L) np' \<and>
      (\<forall>q. q \<notin> insert p W \<union> set L \<longrightarrow> map_of ch' q = listed_children pairs q)"
    using Cons.prems one by (intro Cons.IH) auto
  with one(1) show ?case by auto
qed

section \<open>Depth\<close>

text \<open>An element at depth \<open>k\<close> ends a chain of \<open>k\<close> pairs, but none of \<open>k + 1\<close>.\<close>

definition shallow :: "('a \<times> 'a) list \<Rightarrow> nat \<Rightarrow> 'a set" where
  "shallow pairs k = {x \<in> elements pairs. \<nexists>y. (y, x) \<in> set pairs ^^ k}"

definition at_depth :: "('a \<times> 'a) list \<Rightarrow> nat \<Rightarrow> 'a set" where
  "at_depth pairs k = {x \<in> elements pairs. (\<exists>y. (y, x) \<in> set pairs ^^ k) \<and> (\<nexists>y. (y, x) \<in> set pairs ^^ Suc k)}"

lemma shallow_0: "shallow pairs 0 = {}"
  by (auto simp: shallow_def)

lemma no_chain_Suc: "(\<nexists>y. (y, x) \<in> R ^^ Suc k) \<longleftrightarrow> (\<forall>p. (p, x) \<in> R \<longrightarrow> (\<nexists>y. (y, p) \<in> R ^^ k))"
  by (auto elim: relpow_Suc_E intro: relpow_Suc_I)

lemma parent_element: "(p, x) \<in> set pairs \<Longrightarrow> p \<in> elements pairs"
  by (force simp: elements_def)

lemma at_depth_open: "at_depth pairs k = {x \<in> elements pairs - shallow pairs k. open_parents pairs (shallow pairs k) x = 0}"
  unfolding at_depth_def no_chain_Suc by (auto simp: shallow_def open_parents_zero parent_element)

lemma shallow_Suc: "shallow pairs (Suc k) = shallow pairs k \<union> at_depth pairs k"
proof -
  have "\<exists>y. (y, x) \<in> R ^^ k" if "(z, x) \<in> R ^^ Suc k" for z x :: 'a and R
    using relpow_Suc_E2 [OF that] by blast
  then show ?thesis by (auto simp: shallow_def at_depth_def simp del: relpow.simps)
qed

lemma shallow_closed: "(p, c) \<in> set pairs \<Longrightarrow> c \<in> shallow pairs (Suc k) \<Longrightarrow> p \<in> shallow pairs k"
  using no_chain_Suc [where x = c and R = "set pairs" and k = k] by (auto simp: shallow_def parent_element simp del: relpow.simps)

lemma cyclic_deep: "(x, x) \<in> R\<^sup>+ \<Longrightarrow> \<exists>y. (y, x) \<in> R ^^ k"
proof (induction k arbitrary: x)
  case 0
  then show ?case by auto
next
  case (Suc k)
  from Suc.prems obtain z where z: "(x, z) \<in> R\<^sup>*" "(z, x) \<in> R" by (meson tranclD2)
  then have "(z, z) \<in> R\<^sup>+" by (meson rtrancl_into_trancl2)
  from Suc.IH [OF this] z(2) show ?case by (auto intro: relpow_Suc_I)
qed

lemma shallow_acyclic: "elements pairs \<subseteq> shallow pairs k \<Longrightarrow> acyclic (set pairs)"
proof (rule acyclicI, intro allI notI)
  fix x
  assume all: "elements pairs \<subseteq> shallow pairs k" and x: "(x, x) \<in> (set pairs)\<^sup>+"
  from x obtain z where "(z, x) \<in> set pairs" by (meson tranclD2)
  then have "x \<in> elements pairs" by (force simp: elements_def)
  with all cyclic_deep [OF x, of k] show False by (auto simp: shallow_def)
qed

section \<open>The levels are the depths\<close>

lemma levels_core_depths:
  assumes "counted pairs (shallow pairs k) np" "\<And>p. p \<notin> shallow pairs k \<Longrightarrow> map_of ch p = listed_children pairs p"
  shows "\<exists>levels r. topsort_levels_core np ch = (levels, r) \<and>
    (\<forall>i<length levels. distinct (levels ! i) \<and> levels ! i \<noteq> [] \<and> set (levels ! i) = at_depth pairs (k + i)) \<and>
    r = (if acyclic (set pairs) then Inr () else Inl CycleError) \<and>
    (acyclic (set pairs) \<longrightarrow> shallow pairs (k + length levels) = elements pairs)"
  using assms
proof (induction np ch arbitrary: k rule: topsort_levels_core.induct)
  case (1 np ch)
  let ?L = "level_of np"
  have np: "map_of np x = (if x \<in> elements pairs - shallow pairs k then Some (int (open_parents pairs (shallow pairs k) x)) else None)" for x
    using 1(2) by (simp add: counted_def)
  have wf: "dict_wf np" using 1(2) by (simp add: counted_def)
  have L: "set ?L = at_depth pairs k" "distinct ?L"
  proof -
    have zero: "x \<in> set ?L \<longleftrightarrow> map_of np x = Some 0" for x
      using wf unfolding dict_wf_def by (simp add: map_of_eq_Some_iff level_of_def image_iff)
    show "set ?L = at_depth pairs k" by (simp add: at_depth_open set_eq_iff zero np)
    show "distinct ?L" using wf unfolding level_of_def dict_wf_def by (rule distinct_map_filter)
  qed
  note run = topsort_levels_core.simps [of np ch]
  show ?case
  proof (cases "?L = []")
    case True
    then have none: "at_depth pairs k = {}" using L(1) by simp
    have stop: "topsort_levels_core np ch = ([], if np \<noteq> [] then Inl CycleError else Inr ())" using True by (subst run) simp
    have empty: "np = [] \<longleftrightarrow> elements pairs \<subseteq> shallow pairs k"
    proof
      assume "np = []"
      then have "x \<notin> elements pairs - shallow pairs k" for x using np [of x] by (metis map_of.simps(1) option.distinct(1))
      then show "elements pairs \<subseteq> shallow pairs k" by blast
    next
      assume "elements pairs \<subseteq> shallow pairs k"
      then have "map_of np x = None" for x using np [of x] by auto
      then have "map_of np = Map.empty" by blast
      then show "np = []" by simp
    qed
    show ?thesis
    proof (cases "np = []")
      case True
      with empty shallow_acyclic [of pairs k] have "acyclic (set pairs)" "shallow pairs k = elements pairs"
        by (auto simp: shallow_def)
      with True stop show ?thesis by auto
    next
      case False
      have "\<not> acyclic (set pairs)"
      proof (rule left_over_cyclic)
        show "elements pairs - shallow pairs k \<noteq> {}" using False empty by auto
        show "\<exists>p\<in>elements pairs - shallow pairs k. (p, x) \<in> set pairs" if "x \<in> elements pairs - shallow pairs k" for x
          using that none unfolding at_depth_open by (auto simp: open_parents_zero dest: parent_element)
      qed
      with False stop show ?thesis by auto
    qed
  next
    case False
    have "set ?L \<subseteq> elements pairs - shallow pairs k" by (auto simp: L(1) at_depth_open)
    moreover have "p \<notin> set ?L" if "(p, c) \<in> set pairs" "c \<in> shallow pairs k \<union> set ?L" for p c
      using shallow_closed [OF that(1)] that(2) by (auto simp: L(1) shallow_Suc at_depth_open)
    ultimately obtain np' ch' where drop: "rfold drop_parent (np, ch) ?L = Inr (np', ch')"
      and c: "counted pairs (shallow pairs k \<union> set ?L) np'" "\<And>p. p \<notin> shallow pairs k \<union> set ?L \<Longrightarrow> map_of ch' p = listed_children pairs p"
      using drop_level_counted [OF 1(2) L(2) _ 1(3)] by blast
    have next_level: "shallow pairs k \<union> set ?L = shallow pairs (Suc k)" by (simp add: L(1) shallow_Suc)
    from 1(1) [OF refl False drop refl c [unfolded next_level]] obtain levels r where
      rest: "topsort_levels_core np' ch' = (levels, r)"
        "\<forall>i<length levels. distinct (levels ! i) \<and> levels ! i \<noteq> [] \<and> set (levels ! i) = at_depth pairs (Suc k + i)"
        "r = (if acyclic (set pairs) then Inr () else Inl CycleError)"
        "acyclic (set pairs) \<longrightarrow> shallow pairs (Suc k + length levels) = elements pairs"
      by blast
    have "distinct ((?L # levels) ! i) \<and> (?L # levels) ! i \<noteq> [] \<and> set ((?L # levels) ! i) = at_depth pairs (k + i)"
      if "i < length (?L # levels)" for i
      using that rest(2) L False by (cases i) auto
    moreover have "topsort_levels_core np ch = (?L # levels, r)"
      using False drop rest(1) by (simp add: run Let_def)
    ultimately show ?thesis using rest(3,4) by auto
  qed
qed

text \<open>
  C11: \<open>topsort_levels\<close> yields the elements by depth: the level of number \<open>k\<close> is not empty and has, once each, the
  elements that end a chain of \<open>k\<close> pairs and none of \<open>k + 1\<close>. When the pairs have no cycle it ends after
  all elements, otherwise with a \<open>CycleError\<close>.
\<close>

theorem topsort_levels_correct:
  "\<exists>levels. topsort_levels pairs = Inr (levels, if acyclic (set pairs) then Inr () else Inl CycleError) \<and>
     list_all (\<lambda>(k, level). distinct level \<and> level \<noteq> [] \<and> set level = at_depth pairs k) (enumerate 0 levels) \<and>
     (if acyclic (set pairs) then set (concat levels) = elements pairs else set (concat levels) \<subset> elements pairs)"
proof -
  obtain np ch where c: "count_parents pairs = Inr (np, ch)" "counted pairs {} np" "\<And>p. map_of ch p = listed_children pairs p"
    using count_parents_counted by blast
  obtain levels r where l: "topsort_levels_core np ch = (levels, r)"
    "\<forall>i<length levels. distinct (levels ! i) \<and> levels ! i \<noteq> [] \<and> set (levels ! i) = at_depth pairs i"
    "r = (if acyclic (set pairs) then Inr () else Inl CycleError)"
    "acyclic (set pairs) \<longrightarrow> shallow pairs (length levels) = elements pairs"
    using levels_core_depths [of pairs 0 np ch] c(2,3) by (auto simp: shallow_0)
  have "shallow pairs n = (\<Union>i<n. at_depth pairs i)" for n
    by (induction n) (auto simp: shallow_0 shallow_Suc lessThan_Suc)
  then have all: "set (concat levels) = shallow pairs (length levels)"
    using l(2) by (fastforce simp: in_set_conv_nth)
  have "elements pairs \<noteq> shallow pairs (length levels)" if "\<not> acyclic (set pairs)"
    using shallow_acyclic [of pairs "length levels"] that by auto
  moreover have "shallow pairs (length levels) \<subseteq> elements pairs" by (auto simp: shallow_def)
  ultimately have "if acyclic (set pairs) then set (concat levels) = elements pairs else set (concat levels) \<subset> elements pairs"
    using l(4) unfolding all by auto
  moreover have "topsort_levels pairs = Inr (levels, if acyclic (set pairs) then Inr () else Inl CycleError)"
    by (simp add: topsort_levels_def c(1) l(1,3))
  moreover have "list_all (\<lambda>(k, level). distinct level \<and> level \<noteq> [] \<and> set level = at_depth pairs k) (enumerate 0 levels)"
    using l(2) by (auto simp: list_all_length nth_enumerate_eq)
  ultimately show ?thesis by blast
qed

end
