(* ===== verification/FindCycles.thy ===== *)
theory FindCycles
  imports PyCore "HOL-Library.Multiset"
begin

text \<open>
  \<open>find_cycles\<close> of \<open>bindings/python/topsort.py\<close> and \<open>is_rotated\<close> of \<open>bindings/python/rad_util.py\<close>. The search
  keeps a stack of paths without repeated nodes. The theorem says that it ends and yields each cycle of
  the graph once, up to the node it starts with.
\<close>

section \<open>Rotations\<close>

definition is_rotated :: "'a list \<Rightarrow> 'a list \<Rightarrow> bool pyres" where
  "is_rotated seq1 seq2 =
     (if length seq1 \<noteq> length seq2 then Inr False
      else rmap (\<lambda>head_item.
        let start_indexes = filter (\<lambda>index1. seq1 ! index1 = head_item) [0..<length seq1];
            double_seq1 = seq1 @ seq1
        in list_ex (\<lambda>index1. take (length seq1) (drop index1 double_seq1) = seq2) start_indexes) (py_index seq2 0))"

section \<open>The search\<close>

text \<open>The state of the search: \<open>cycles\<close>, \<open>paths\<close> with the top of the stack at the end, \<open>visited_nodes\<close>.\<close>

type_synonym 'a search = "'a list list \<times> 'a list list \<times> 'a list"

text \<open>The test for duplicates stops at the first cycle of which the new one is a rotation.\<close>

fun is_duplicate :: "'a list list \<Rightarrow> 'a list \<Rightarrow> bool pyres" where
  "is_duplicate [] cycle = Inr False"
| "is_duplicate (other_cycle # cycles) cycle =
     rbind (is_rotated other_cycle cycle) (\<lambda>b. if b then Inr True else is_duplicate cycles cycle)"

definition visit_child :: "'a list \<Rightarrow> 'a search \<Rightarrow> 'a \<Rightarrow> 'a search pyres" where
  "visit_child path st child =
     (case st of (cycles, paths, visited_nodes) \<Rightarrow>
        if child \<in> set path
        then (let cycle = dropWhile (\<lambda>x. x \<noteq> child) path
              in rmap (\<lambda>dup. (if dup then cycles else cycles @ [cycle], paths, visited_nodes)) (is_duplicate cycles cycle))
        else Inr (cycles, paths @ [path @ [child]], child # visited_nodes))"

lemma visit_children_paths:
  "rfold (visit_child path) (cycles, paths, visited) children = Inr (cycles', paths', visited') \<Longrightarrow>
   paths' = paths @ map (\<lambda>c. path @ [c]) (filter (\<lambda>c. c \<notin> set path) children) \<and>
   set visited' = set visited \<union> (set children - set path)"
proof (induction children arbitrary: cycles paths visited)
  case Nil
  then show ?case by simp
next
  case (Cons c children)
  show ?case
  proof (cases "c \<in> set path")
    case True
    with Cons.prems obtain cycles1 where "rfold (visit_child path) (cycles1, paths, visited) children = Inr (cycles', paths', visited')"
      by (auto simp: rbind_eq_Inr_iff visit_child_def [of path "(cycles, paths, visited)" c] rmap_eq_Inr_iff Let_def)
    from Cons.IH [OF this] True show ?thesis by auto
  next
    case False
    with Cons.prems have "rfold (visit_child path) (cycles, paths @ [path @ [c]], c # visited) children = Inr (cycles', paths', visited')"
      by (simp add: visit_child_def [of path "(cycles, paths, visited)" c])
    from Cons.IH [OF this] False show ?thesis by auto
  qed
qed

definition child_nodes :: "('a, 'a list) dict \<Rightarrow> 'a set" where
  "child_nodes parent_children = (\<Union>p\<in>set parent_children. set (snd p))"

text \<open>A path is replaced by longer ones: fewer nodes are left to add to each of them.\<close>

definition path_measure :: "('a, 'a list) dict \<Rightarrow> 'a list list \<Rightarrow> nat multiset" where
  "path_measure g paths = mset (map (\<lambda>p. card (child_nodes g - set p)) paths)"

lemma shorter_paths:
  assumes "map_of g (last path) = Some children"
  shows "(path_measure g (paths @ map (\<lambda>c. path @ [c]) (filter (\<lambda>c. c \<notin> set path) children)), path_measure g (paths @ [path])) \<in> mult less_than"
proof -
  have fin: "finite (child_nodes g)" by (simp add: child_nodes_def)
  have "card (child_nodes g - set (path @ [c])) < card (child_nodes g - set path)" if "c \<in> set children" "c \<notin> set path" for c
  proof (rule psubset_card_mono)
    have "c \<in> child_nodes g" using map_of_SomeD [OF assms] that(1) by (force simp: child_nodes_def)
    with that(2) show "child_nodes g - set (path @ [c]) \<subset> child_nodes g - set path" by auto
  qed (simp add: fin)
  then have "(path_measure g paths + path_measure g (map (\<lambda>c. path @ [c]) (filter (\<lambda>c. c \<notin> set path) children)),
      path_measure g paths + {#card (child_nodes g - set path)#}) \<in> mult less_than"
    by (intro one_step_implies_mult) (auto simp: path_measure_def)
  then show ?thesis by (simp add: path_measure_def)
qed

lemma fewer_paths: "(path_measure g paths, path_measure g (paths @ [path])) \<in> mult less_than"
  using one_step_implies_mult [of "{#card (child_nodes g - set path)#}" "{#}" less_than "path_measure g paths"]
  by (simp add: path_measure_def)

function search_paths :: "('a, 'a list) dict \<Rightarrow> 'a search \<Rightarrow> ('a list list \<times> 'a list) pyres" where
  "search_paths parent_children (cycles, paths, visited_nodes) =
     (if paths = [] then Inr (cycles, visited_nodes)
      else
        let path = last paths; paths = butlast paths in
        case map_of parent_children (last path) of
          None \<Rightarrow> search_paths parent_children (cycles, paths, visited_nodes)
        | Some children \<Rightarrow>
            (case rfold (visit_child path) (cycles, paths, visited_nodes) children of
               Inl e \<Rightarrow> Inl e
             | Inr st \<Rightarrow> search_paths parent_children st))"
  by pat_completeness auto

termination
proof (relation "inv_image (mult less_than) (\<lambda>(g, cycles, paths, visited). path_measure g paths)")
  show "wf (inv_image (mult less_than) (\<lambda>(g, cycles, paths, visited). path_measure g paths))"
    by (intro wf_inv_image wf_mult wf_less_than)
next
  fix g :: "('a, 'a list) dict" and cycles paths :: "'a list list" and visited path ps
  assume "paths \<noteq> []" "path = last paths" "ps = butlast paths"
  then have "paths = ps @ [path]" by simp
  with fewer_paths [of g ps path]
  show "((g, cycles, ps, visited), (g, cycles, paths, visited)) \<in> inv_image (mult less_than) (\<lambda>(g, cycles, paths, visited). path_measure g paths)"
    by simp
next
  fix g :: "('a, 'a list) dict" and cycles paths :: "'a list list" and visited path ps children and st :: "'a search"
  assume paths: "paths \<noteq> []" "path = last paths" "ps = butlast paths" "map_of g (last path) = Some children"
    and run: "rfold (visit_child path) (cycles, ps, visited) children = Inr st"
  obtain cy ps' vs where st: "st = (cy, ps', vs)" by (cases st)
  have "paths = ps @ [path]" using paths(1-3) by simp
  with shorter_paths [OF paths(4), of ps] visit_children_paths [OF run [unfolded st]]
  show "((g, st), (g, cycles, paths, visited)) \<in> inv_image (mult less_than) (\<lambda>(g, cycles, paths, visited). path_measure g paths)"
    by (simp add: st)
qed

declare search_paths.simps [simp del]

definition find_from :: "('a, 'a list) dict \<Rightarrow> 'a list list \<times> 'a list \<Rightarrow> 'a \<Rightarrow> ('a list list \<times> 'a list) pyres" where
  "find_from parent_children st parent =
     (case st of (cycles, visited_nodes) \<Rightarrow>
        if parent \<in> set visited_nodes then Inr st
        else search_paths parent_children (cycles, [[parent]], visited_nodes))"

text \<open>All that the generator yields.\<close>

definition find_cycles :: "('a, 'a list) dict \<Rightarrow> 'a list list pyres" where
  "find_cycles parent_children = rmap fst (rfold (find_from parent_children) ([], []) (dict_keys parent_children))"

lemma find_cycles_samples:
  "find_cycles [(''A'', [''B'']), (''B'', [''C'']), (''C'', [''B'', ''D'']), (''D'', [])] = Inr [[''B'', ''C'']]"
  "find_cycles [(1, [2, 3]), (2, [4]), (3, [4]), (4 :: nat, [1, 2])] = Inr [[1, 3, 4], [4, 2], [1, 2, 4]]"
  by code_simp+
section \<open>Rotations found by comparison\<close>

definition rotation :: "'a list \<Rightarrow> 'a list \<Rightarrow> bool" where
  "rotation a b \<longleftrightarrow> (\<exists>n. b = rotate n a)"

lemma is_rotated_iff:
  assumes "b \<noteq> []"
  shows "is_rotated a b = Inr (rotation a b)"
proof (cases "length a = length b")
  case False
  then show ?thesis by (auto simp: is_rotated_def rotation_def)
next
  case True
  have turn: "take (length a) (drop i (a @ a)) = rotate i a" if "i < length a" for i
    using that by (simp add: rotate_drop_take)
  have "(\<exists>i<length a. a ! i = b ! 0 \<and> take (length a) (drop i (a @ a)) = b) \<longleftrightarrow> rotation a b"
  proof
    assume "rotation a b"
    then obtain n where "b = rotate n a" by (auto simp: rotation_def)
    then have b: "b = rotate (n mod length a) a" by (simp add: rotate_conv_mod [symmetric])
    have less: "n mod length a < length a" using assms True by simp
    have "a ! (n mod length a) = b ! 0"
      unfolding b using less by (subst nth_rotate) auto
    moreover have "take (length a) (drop (n mod length a) (a @ a)) = b" using turn [OF less] b by metis
    ultimately show "\<exists>i<length a. a ! i = b ! 0 \<and> take (length a) (drop i (a @ a)) = b" using less by blast
  next
    assume "\<exists>i<length a. a ! i = b ! 0 \<and> take (length a) (drop i (a @ a)) = b"
    then obtain i where "i < length a" "take (length a) (drop i (a @ a)) = b" by blast
    with turn show "rotation a b" by (auto simp: rotation_def)
  qed
  moreover have "py_index b 0 = Inr (b ! 0)"
    using assms by (cases b) (simp_all add: py_index_def py_pos_def)
  ultimately show ?thesis
    using True by (simp add: is_rotated_def Let_def list_ex_iff Bex_def conj_ac del: drop_append take_append)
qed

lemma rotation_refl: "rotation a a"
  unfolding rotation_def by (rule exI [of _ 0]) simp

lemma rotation_sym: "rotation a b \<Longrightarrow> rotation b a"
proof -
  assume "rotation a b"
  then obtain n where n: "b = rotate n a" by (auto simp: rotation_def)
  have "rotate (length a - n mod length a) (rotate (n mod length a) a) = a"
    by (cases "a = []") (simp_all add: rotate_rotate less_imp_le)
  then have "a = rotate (length a - n mod length a) b"
    by (simp add: n rotate_conv_mod [symmetric])
  then show ?thesis by (auto simp: rotation_def)
qed

text \<open>A cycle that is found, up to its first node.\<close>

definition represented :: "'a list list \<Rightarrow> 'a list \<Rightarrow> bool" where
  "represented cycles c \<longleftrightarrow> (\<exists>d\<in>set cycles. rotation d c)"

lemma is_duplicate_iff: "c \<noteq> [] \<Longrightarrow> is_duplicate cycles c = Inr (represented cycles c)"
  by (induction cycles) (auto simp: is_rotated_iff represented_def)

section \<open>Cycles of the graph\<close>

definition edge :: "('a, 'a list) dict \<Rightarrow> 'a \<Rightarrow> 'a \<Rightarrow> bool" where
  "edge g p c \<longleftrightarrow> (\<exists>cs. map_of g p = Some cs \<and> c \<in> set cs)"

definition simple_path :: "('a, 'a list) dict \<Rightarrow> 'a list \<Rightarrow> bool" where
  "simple_path g xs \<longleftrightarrow> xs \<noteq> [] \<and> distinct xs \<and> successively (edge g) xs"

definition is_cycle :: "('a, 'a list) dict \<Rightarrow> 'a list \<Rightarrow> bool" where
  "is_cycle g xs \<longleftrightarrow> simple_path g xs \<and> edge g (last xs) (hd xs)"

text \<open>The cycle that a child on the path closes.\<close>

abbreviation closed_by :: "'a list \<Rightarrow> 'a \<Rightarrow> 'a list" where
  "closed_by path c \<equiv> dropWhile (\<lambda>x. x \<noteq> c) path"

lemma closed_by_split: "c \<notin> set a \<Longrightarrow> closed_by (a @ c # b) c = c # b"
  by (induction a) auto

lemma closed_by_cycle:
  assumes "simple_path g path" "edge g (last path) c" "c \<in> set path"
  shows "is_cycle g (closed_by path c)"
proof -
  obtain a b where p: "path = a @ c # b" "c \<notin> set a" by (meson assms(3) split_list_first)
  with assms show ?thesis
    by (auto simp: is_cycle_def simple_path_def closed_by_split successively_append_iff)
qed

section \<open>One path\<close>

definition found :: "('a, 'a list) dict \<Rightarrow> 'a list list \<Rightarrow> bool" where
  "found g cycles \<longleftrightarrow> (\<forall>c\<in>set cycles. is_cycle g c) \<and> sorted_wrt (\<lambda>a b. \<not> rotation a b) cycles"

lemma visit_children_cycles:
  assumes "simple_path g path" "\<forall>c\<in>set children. edge g (last path) c" "found g cycles"
  shows "\<exists>cycles' paths' visited'. rfold (visit_child path) (cycles, paths, visited) children = Inr (cycles', paths', visited') \<and>
    found g cycles' \<and> set cycles \<subseteq> set cycles' \<and> (\<forall>c\<in>set children \<inter> set path. represented cycles' (closed_by path c))"
  using assms(2,3)
proof (induction children arbitrary: cycles paths visited)
  case Nil
  then show ?case by auto
next
  case (Cons c children)
  show ?case
  proof (cases "c \<in> set path")
    case False
    then have "visit_child path (cycles, paths, visited) c = Inr (cycles, paths @ [path @ [c]], c # visited)"
      by (simp add: visit_child_def [of path "(cycles, paths, visited)" c])
    with Cons.IH [of cycles "paths @ [path @ [c]]" "c # visited"] Cons.prems False show ?thesis by auto
  next
    case True
    let ?c = "closed_by path c"
    have cyc: "is_cycle g ?c" using closed_by_cycle assms(1) Cons.prems(1) True by auto
    then have ne: "?c \<noteq> []" by (simp add: is_cycle_def simple_path_def)
    define cycles1 where "cycles1 = (if represented cycles ?c then cycles else cycles @ [?c])"
    have step: "visit_child path (cycles, paths, visited) c = Inr (cycles1, paths, visited)"
      using True by (simp add: visit_child_def [of path "(cycles, paths, visited)" c] Let_def is_duplicate_iff [OF ne] cycles1_def)
    have "found g cycles1" using Cons.prems(2) cyc
      by (auto simp: found_def cycles1_def sorted_wrt_append represented_def)
    with Cons.IH [of cycles1 paths visited] Cons.prems(1) obtain cycles' paths' visited' where
      rest: "rfold (visit_child path) (cycles1, paths, visited) children = Inr (cycles', paths', visited')"
      "found g cycles'" "set cycles1 \<subseteq> set cycles'" "\<forall>c\<in>set children \<inter> set path. represented cycles' (closed_by path c)"
      by auto
    have "represented cycles1 ?c" by (auto simp: cycles1_def represented_def rotation_refl)
    then have "represented cycles' ?c" using rest(3) by (auto simp: represented_def)
    moreover have "set cycles \<subseteq> set cycles'" using rest(3) by (auto simp: cycles1_def split: if_splits)
    ultimately show ?thesis using step rest by auto
  qed
qed

section \<open>All paths from a node\<close>

text \<open>Every way on from a path of the stack closes only cycles that are found.\<close>

definition explored :: "('a, 'a list) dict \<Rightarrow> 'a list list \<Rightarrow> 'a list \<Rightarrow> bool" where
  "explored g cycles path \<longleftrightarrow>
     (\<forall>q c. simple_path g (path @ q) \<and> edge g (last (path @ q)) c \<and> c \<in> set (path @ q) \<longrightarrow> represented cycles (closed_by (path @ q) c))"

lemma explored_children:
  assumes "\<And>c. c \<in> set children - set path \<Longrightarrow> explored g cycles (path @ [c])"
    and "\<And>c. edge g (last path) c \<longleftrightarrow> c \<in> set children"
    and "\<And>c. c \<in> set children \<inter> set path \<Longrightarrow> represented cycles (closed_by path c)" and "path \<noteq> []"
  shows "explored g cycles path"
  unfolding explored_def
proof (intro allI impI)
  fix q c
  assume q: "simple_path g (path @ q) \<and> edge g (last (path @ q)) c \<and> c \<in> set (path @ q)"
  show "represented cycles (closed_by (path @ q) c)"
  proof (cases q)
    case Nil
    with q assms(2,3) show ?thesis by auto
  next
    case (Cons d r)
    with q assms(4) have "edge g (last path) d" "d \<notin> set path"
      by (auto simp: simple_path_def successively_append_iff)
    with assms(1,2) have "explored g cycles (path @ [d])" by auto
    with q Cons show ?thesis by (simp add: explored_def)
  qed
qed

lemma explored_mono: "explored g cycles path \<Longrightarrow> set cycles \<subseteq> set cycles' \<Longrightarrow> explored g cycles' path"
  unfolding explored_def represented_def by blast

lemma search_paths_explores:
  assumes "\<forall>p\<in>set paths. simple_path g p \<and> hd p = s" "found g cycles"
  shows "\<exists>cycles' visited'. search_paths g (cycles, paths, visited) = Inr (cycles', visited') \<and>
    found g cycles' \<and> set cycles \<subseteq> set cycles' \<and> (\<forall>p\<in>set paths. explored g cycles' p) \<and>
    (\<forall>v\<in>set visited'. v \<in> set visited \<or> (\<exists>p. simple_path g p \<and> hd p = s \<and> last p = v))"
  using assms
proof (induction g "(cycles, paths, visited)" arbitrary: cycles paths visited rule: search_paths.induct)
  case (1 g cycles paths visited)
  note run = search_paths.simps [of g cycles paths visited]
  show ?case
  proof (cases "paths = []")
    case True
    then have "search_paths g (cycles, paths, visited) = Inr (cycles, visited)" by (subst run) simp
    with 1(4) True show ?thesis by auto
  next
    case False
    define path ps where "path = last paths" and "ps = butlast paths"
    have paths: "paths = ps @ [path]" using False by (simp add: path_def ps_def)
    with 1(3) have path: "simple_path g path" "hd path = s" and rest: "\<forall>p\<in>set ps. simple_path g p \<and> hd p = s" by auto
    have ne: "path \<noteq> []" using path(1) by (simp add: simple_path_def)
    show ?thesis
    proof (cases "map_of g (last path)")
      case None
      with False have eq: "search_paths g (cycles, paths, visited) = search_paths g (cycles, ps, visited)"
        by (simp add: run path_def ps_def Let_def)
      have "explored g cycles' path" for cycles'
        using explored_children [of "[]" path g cycles'] None ne by (simp add: edge_def)
      moreover have "set paths = insert path (set ps)" by (simp add: paths)
      ultimately show ?thesis using 1(1) [OF False path_def ps_def None rest 1(4)] unfolding eq by simp
    next
      case (Some children)
      have e: "edge g (last path) c \<longleftrightarrow> c \<in> set children" for c using Some by (auto simp: edge_def)
      obtain cycles1 paths1 visited1 where one: "rfold (visit_child path) (cycles, ps, visited) children = Inr (cycles1, paths1, visited1)"
        and f1: "found g cycles1" "set cycles \<subseteq> set cycles1" "\<forall>c\<in>set children \<inter> set path. represented cycles1 (closed_by path c)"
        using visit_children_cycles [OF path(1) _ 1(4), of children ps visited] e by auto
      note p1 = visit_children_paths [OF one]
      have longer: "simple_path g (path @ [c]) \<and> hd (path @ [c]) = s" if "c \<in> set children - set path" for c
        using that path e ne by (auto simp: simple_path_def successively_append_iff)
      with p1 rest have ok1: "\<forall>p\<in>set paths1. simple_path g p \<and> hd p = s" by auto
      have eq: "search_paths g (cycles, paths, visited) = search_paths g (cycles1, paths1, visited1)"
        using False Some one by (simp add: run path_def ps_def Let_def)
      from 1(2) [OF False path_def ps_def Some one ok1 f1(1)] obtain cycles' visited' where
        two: "search_paths g (cycles1, paths1, visited1) = Inr (cycles', visited')" "found g cycles'" "set cycles1 \<subseteq> set cycles'"
          "\<forall>p\<in>set paths1. explored g cycles' p"
          "\<forall>v\<in>set visited'. v \<in> set visited1 \<or> (\<exists>p. simple_path g p \<and> hd p = s \<and> last p = v)"
        by blast
      have "explored g cycles' path"
      proof (rule explored_children [OF _ e _ ne])
        show "explored g cycles' (path @ [c])" if "c \<in> set children - set path" for c
          using two(4) p1 that by auto
        show "represented cycles' (closed_by path c)" if "c \<in> set children \<inter> set path" for c
          using f1(3) two(3) that by (auto simp: represented_def)
      qed
      then have "\<forall>p\<in>set paths. explored g cycles' p" using two(4) p1 by (auto simp: paths)
      moreover have "v \<in> set visited \<or> (\<exists>p. simple_path g p \<and> hd p = s \<and> last p = v)" if v: "v \<in> set visited'" for v
      proof -
        have "\<exists>p. simple_path g p \<and> hd p = s \<and> last p = v" if "v \<in> set children - set path"
          using longer [OF that] by (intro exI [of _ "path @ [v]"]) simp
        with two(5) v p1 show ?thesis by auto
      qed
      ultimately show ?thesis using two(1-3) f1(2) by (auto simp: eq)
    qed
  qed
qed

section \<open>All nodes\<close>

text \<open>From a node that is explored all cycles through the nodes reached from it are found.\<close>

lemma cycle_from:
  assumes "is_cycle g c" "u \<in> set c"
  shows "\<exists>a b. c = a @ u # b \<and> simple_path g (u # b @ a) \<and> edge g (last (u # b @ a)) u \<and> rotation (u # b @ a) c"
proof -
  obtain a b where c: "c = a @ u # b" using assms(2) by (meson split_list)
  have "rotate (length (u # b)) (u # b @ a) = c" using rotate_append [of "u # b" a] unfolding c by (simp only: append_Cons)
  then have "rotation (u # b @ a) c" unfolding rotation_def by metis
  moreover have "simple_path g (u # b @ a) \<and> edge g (last (u # b @ a)) u"
  proof (cases a rule: rev_cases)
    case Nil
    with assms(1) c show ?thesis by (simp add: is_cycle_def)
  next
    case (snoc a' x)
    with assms(1) c have d: "distinct (u # b @ a)" and s: "successively (edge g) (u # b)" "successively (edge g) a" "edge g x u"
      and l: "edge g (last (u # b)) (hd a)"
      by (auto simp: is_cycle_def simple_path_def successively_append_iff hd_append)
    have "successively (edge g) ((u # b) @ a)" using s l by (simp only: successively_append_iff) simp
    with d s(3) snoc show ?thesis by (simp add: simple_path_def)
  qed
  ultimately show ?thesis using c by blast
qed

lemma represented_rotation: "represented cycles c \<Longrightarrow> rotation c d \<Longrightarrow> represented cycles d"
  unfolding represented_def rotation_def by (metis rotate_rotate)

lemma reached_cycle_found:
  assumes cyc: "is_cycle g c" and v: "v \<in> set c" and p: "simple_path g p" "hd p = s" "last p = v" and e: "explored g cycles [s]"
  shows "represented cycles c"
proof -
  have "\<exists>u\<in>set p. u \<in> set c" using v p by (metis last_in_set simple_path_def)
  from split_list_first_prop [OF this] obtain as u bs where
    split: "p = as @ u # bs" "u \<in> set c" "\<forall>x\<in>set as. x \<notin> set c"
    by blast
  obtain a b where ab: "c = a @ u # b" "simple_path g (u # b @ a)" "edge g (last (u # b @ a)) u" "rotation (u # b @ a) c"
    using cycle_from [OF cyc split(2)] by blast
  let ?q = "as @ u # b @ a"
  have "simple_path g ?q"
    using p(1) ab(2) split by (auto simp: simple_path_def successively_append_iff ab(1) successively_Cons)
  moreover have "last ?q = last (u # b @ a)" "u \<in> set ?q" by simp_all
  moreover obtain q where q: "?q = [s] @ q"
    using p(2) split(1) by (cases as) auto
  ultimately have "represented cycles (closed_by ?q u)"
    using e ab(3) unfolding explored_def q by metis
  moreover have "closed_by ?q u = u # b @ a"
    using p(1) split(1) by (intro closed_by_split) (auto simp: simple_path_def)
  ultimately have "represented cycles (u # b @ a)" by simp
  then show ?thesis using ab(4) by (rule represented_rotation)
qed

text \<open>What holds after some of the nodes have been tried as a start.\<close>

definition searched :: "('a, 'a list) dict \<Rightarrow> 'a list \<Rightarrow> 'a list list \<times> 'a list \<Rightarrow> bool" where
  "searched g tried st \<longleftrightarrow> found g (fst st) \<and>
     (\<forall>v\<in>set tried \<union> set (snd st). \<exists>s p. explored g (fst st) [s] \<and> simple_path g p \<and> hd p = s \<and> last p = v)"

lemma find_from_searched:
  assumes "searched g tried st"
  shows "\<exists>st'. find_from g st k = Inr st' \<and> searched g (tried @ [k]) st'"
proof -
  obtain cycles visited where st: "st = (cycles, visited)" by (cases st)
  show ?thesis
  proof (cases "k \<in> set visited")
    case True
    with assms show ?thesis by (auto simp: find_from_def st searched_def)
  next
    case False
    have start: "simple_path g [k]" by (simp add: simple_path_def)
    with assms have "\<forall>p\<in>set [[k]]. simple_path g p \<and> hd p = k" "found g cycles" by (auto simp: searched_def st)
    from search_paths_explores [OF this, of visited] obtain cycles' visited' where
      run: "search_paths g (cycles, [[k]], visited) = Inr (cycles', visited')" "found g cycles'" "set cycles \<subseteq> set cycles'"
        "explored g cycles' [k]"
      and v: "\<And>v. v \<in> set visited' \<Longrightarrow> v \<in> set visited \<or> (\<exists>p. simple_path g p \<and> hd p = k \<and> last p = v)"
      by auto
    have old: "\<exists>s p. explored g cycles' [s] \<and> simple_path g p \<and> hd p = s \<and> last p = v" if "v \<in> set tried \<union> set visited" for v
      using assms that explored_mono [OF _ run(3)] unfolding searched_def st fst_conv snd_conv by blast
    have new: "\<exists>s p. explored g cycles' [s] \<and> simple_path g p \<and> hd p = s \<and> last p = v"
      if "\<exists>p. simple_path g p \<and> hd p = k \<and> last p = v" for v
      using that run(4) by blast
    have "\<exists>p. simple_path g p \<and> hd p = k \<and> last p = k" using start by (intro exI [of _ "[k]"]) simp
    with old new v run(2) have "searched g (tried @ [k]) (cycles', visited')"
      unfolding searched_def fst_conv snd_conv by (metis Un_iff set_append empty_iff insert_iff list.set)
    with False run(1) show ?thesis by (simp add: find_from_def st)
  qed
qed

lemma find_all_searched:
  assumes "searched g tried st"
  shows "\<exists>st'. rfold (find_from g) st ks = Inr st' \<and> searched g (tried @ ks) st'"
  using assms
proof (induction ks arbitrary: tried st)
  case Nil
  then show ?case by simp
next
  case (Cons k ks)
  from find_from_searched [OF Cons.prems] obtain st1 where "find_from g st k = Inr st1" "searched g (tried @ [k]) st1" by blast
  with Cons.IH [of "tried @ [k]" st1] show ?case by simp
qed

text \<open>
  C10: the search for cycles ends without an exception. It yields only cycles of the graph, no two of
  them rotations of each other, and every cycle of the graph is a rotation of one it yields.
\<close>

theorem find_cycles_correct:
  "\<exists>cycles. find_cycles g = Inr cycles \<and> (\<forall>c\<in>set cycles. is_cycle g c) \<and> sorted_wrt (\<lambda>a b. \<not> rotation a b) cycles \<and>
     (\<forall>c. is_cycle g c \<longrightarrow> (\<exists>d\<in>set cycles. rotation d c))"
proof -
  have "searched g [] ([], [])" by (simp add: searched_def found_def)
  from find_all_searched [OF this, of "dict_keys g"] obtain cycles visited where
    run: "rfold (find_from g) ([], []) (dict_keys g) = Inr (cycles, visited)" and s: "searched g (dict_keys g) (cycles, visited)"
    by auto
  have "represented cycles c" if c: "is_cycle g c" for c
  proof -
    have ne: "c \<noteq> []" and e: "edge g (last c) (hd c)" using c by (auto simp: is_cycle_def simple_path_def)
    then have "last c \<in> set (dict_keys g)" by (auto simp: edge_def dict_keys_def dest!: map_of_SomeD intro: rev_image_eqI)
    with s obtain t p where "explored g cycles [t]" "simple_path g p" "hd p = t" "last p = last c"
      unfolding searched_def fst_conv snd_conv by blast
    with reached_cycle_found [OF c last_in_set [OF ne]] show ?thesis by blast
  qed
  with s run show ?thesis by (auto simp: find_cycles_def searched_def found_def represented_def)
qed

theorem find_cycles_correct_witness:
  "\<exists>cycles. find_cycles [(''A'', [''B'']), (''B'', [''C'']), (''C'', [''B'', ''D''])] = Inr cycles \<and>
     is_cycle [(''A'', [''B'']), (''B'', [''C'']), (''C'', [''B'', ''D''])] [''C'', ''B''] \<and>
     (\<exists>d\<in>set cycles. rotation d [''C'', ''B''])"
proof -
  let ?g = "[(''A'', [''B'']), (''B'', [''C'']), (''C'', [''B'', ''D''])]"
  have "is_cycle ?g [''C'', ''B'']" by (simp add: is_cycle_def simple_path_def edge_def)
  with find_cycles_correct [of ?g] show ?thesis by blast
qed

end
