(* ===== verification/RadBits.thy ===== *)
theory RadBits
  imports PyCore
begin

text \<open>
  The functions on binary numbers of \<open>bindings/python/rad_util.py\<close>. Python's integers are \<open>int\<close>; \<open>hex\<close> is
  modelled without the suffix of long integers, which the code removes.
\<close>

unbundle bit_operations_syntax

section \<open>Texts of binary digits\<close>

definition hex_chr :: "nat \<Rightarrow> char" where
  "hex_chr d = (if d < 10 then digit_chr d else char_of (87 + d))"

fun hex_text :: "nat \<Rightarrow> string" where
  "hex_text n = (if n < 16 then [hex_chr n] else hex_text (n div 16) @ [hex_chr (n mod 16)])"

declare hex_text.simps [simp del]

definition py_hex :: "int \<Rightarrow> string" where
  "py_hex i = (if i < 0 then ''-0x'' else ''0x'') @ hex_text (nat \<bar>i\<bar>)"

definition hex2bin :: "(char, string) dict" where
  "hex2bin =
     [(CHR ''0'', ''0000''), (CHR ''1'', ''0001''), (CHR ''2'', ''0010''), (CHR ''3'', ''0011''),
      (CHR ''4'', ''0100''), (CHR ''5'', ''0101''), (CHR ''6'', ''0110''), (CHR ''7'', ''0111''),
      (CHR ''8'', ''1000''), (CHR ''9'', ''1001''), (CHR ''a'', ''1010''), (CHR ''b'', ''1011''),
      (CHR ''c'', ''1100''), (CHR ''d'', ''1101''), (CHR ''e'', ''1110''), (CHR ''f'', ''1111'')]"

definition int2bin :: "int \<Rightarrow> int \<Rightarrow> string pyres" where
  "int2bin i n =
     rbind (rmap concat (rmapM (dict_getitem hex2bin) (drop 2 (py_hex i)))) (\<lambda>result.
       if CHR ''1'' \<in> set (py_slice result 0 (- n)) then Inl ValueError
       else (let result = py_slice result (- n) (int (length result))
             in Inr (replicate (nat (n - int (length result))) CHR ''0'' @ result)))"

text \<open>
  \<open>int(bin_string, 2)\<close>: blanks around the numeral, a sign and a prefix \<open>0b\<close> are allowed, and then there
  must be digits.
\<close>

definition bits_value :: "string \<Rightarrow> int" where
  "bits_value s = foldl (\<lambda>v c. 2 * v + (if c = CHR ''1'' then 1 else 0)) 0 s"

definition unprefixed :: "string \<Rightarrow> string" where
  "unprefixed s = (if startswith s ''0b'' \<or> startswith s ''0B'' then drop 2 s else s)"

definition bin2int :: "string \<Rightarrow> int pyres" where
  "bin2int bin_string =
     (let s = py_strip bin_string;
          negative = startswith s ''-'';
          digits = unprefixed (if startswith s ''-'' \<or> startswith s ''+'' then tl s else s)
      in if digits = [] \<or> \<not> set digits \<subseteq> set ''01'' then Inl ValueError
         else Inr (if negative then - bits_value digits else bits_value digits))"

definition lsb :: "int \<Rightarrow> nat \<Rightarrow> int" where
  "lsb x n = x AND (2 ^ n - 1)"

definition gray_encode :: "int \<Rightarrow> int" where
  "gray_encode i = i XOR drop_bit 1 i"

lemma binary_samples:
  "int2bin 123 8 = Inr ''01111011'' \<and> int2bin 15 2 = Inl ValueError \<and> int2bin 0 8 = Inr ''00000000'' \<and>
   bin2int ''0101'' = Inr 5 \<and> bin2int '' -0b11 '' = Inr (- 3) \<and> bin2int '''' = Inl ValueError \<and> lsb 13 3 = 5"
  by code_simp

text \<open>With a width of 0 the slices are the whole text, and nothing is cut off or refused.\<close>

lemma width_zero: "int2bin 5 0 = Inr ''0101''"
  by code_simp

lemma negative_raises: "int2bin (- 1) 8 = Inl KeyError"
  by code_simp

section \<open>Counting\<close>

text \<open>One step of the counter: the inner loop of \<open>binary_range\<close>.\<close>

function count_step :: "nat \<Rightarrow> nat \<Rightarrow> string \<Rightarrow> nat list \<Rightarrow> string \<times> nat list" where
  "count_step bits i v toggle =
     (if i < bits \<and> toggle ! i = 1
      then (if v ! i = CHR ''0'' then count_step bits (i + 1) (v[i := CHR ''1'']) (toggle[i + 1 := 0])
            else count_step bits (i + 1) (v[i := CHR ''0'']) (toggle[i + 1 := 1]))
      else (v, toggle))"
  by pat_completeness auto

termination
  by (relation "measure (\<lambda>(bits, i, v, toggle). bits - i)") auto

declare count_step.simps [simp del]

partial_function (option) count_from :: "nat \<Rightarrow> string \<Rightarrow> nat list \<Rightarrow> string list option" where
  "count_from bits v toggle =
     (if toggle ! bits = 1 then Some []
      else Option.bind
             (count_from bits (fst (count_step bits 0 v (1 # replicate bits 0)))
                (snd (count_step bits 0 v (1 # replicate bits 0))))
             (\<lambda>l. Some (rev v # l)))"

declare count_from.simps [code]

definition binary_range :: "nat \<Rightarrow> string list option" where
  "binary_range bits = count_from bits (replicate bits CHR ''0'') (1 # replicate bits 0)"

lemma binary_range_samples: "binary_range 2 = Some [''00'', ''01'', ''10'', ''11''] \<and> binary_range 0 = Some []"
  by code_simp


section \<open>The digits of a number\<close>

definition bit_chr :: "bool \<Rightarrow> char" where
  "bit_chr b = (if b then CHR ''1'' else CHR ''0'')"

text \<open>The \<open>w\<close> lowest binary digits of \<open>n\<close>, the highest of them first.\<close>

fun bin_text :: "nat \<Rightarrow> nat \<Rightarrow> string" where
  "bin_text 0 n = []"
| "bin_text (Suc w) n = bin_text w (n div 2) @ [bit_chr (odd n)]"

lemma length_bin_text [simp]: "length (bin_text w n) = w"
  by (induction w arbitrary: n) auto

lemma bin_text_append: "bin_text (a + b) n = bin_text a (n div 2 ^ b) @ bin_text b n"
  by (induction b arbitrary: n) (simp_all add: div_mult2_eq)

lemma bin_text_zero: "n = 0 \<Longrightarrow> bin_text w n = replicate w CHR ''0''"
  by (induction w arbitrary: n) (simp_all add: bit_chr_def replicate_append_same)

lemma mod_double: "n mod 2 ^ Suc w = 2 * (n div 2 mod 2 ^ w) + n mod (2 :: nat)"
  by (simp add: mod_mult2_eq)

lemma bin_text_mod: "bin_text w (n mod 2 ^ w) = bin_text w n"
proof (induction w arbitrary: n)
  case 0
  then show ?case by simp
next
  case (Suc w)
  have "n mod 2 ^ Suc w div 2 = n div 2 mod 2 ^ w" "odd (n mod 2 ^ Suc w) = odd n"
    unfolding mod_double by (simp_all add: odd_iff_mod_2_eq_one)
  then show ?case by (simp add: Suc del: power_Suc)
qed

lemma one_in_bin_text: "CHR ''1'' \<in> set (bin_text w n) \<longleftrightarrow> n mod 2 ^ w \<noteq> 0"
proof (induction w arbitrary: n)
  case 0
  then show ?case by simp
next
  case (Suc w)
  show ?case
    unfolding mod_double by (auto simp: Suc bit_chr_def odd_iff_mod_2_eq_one)
qed

lemma bits_value_bin_text: "bits_value (bin_text w n) = int (n mod 2 ^ w)"
proof (induction w arbitrary: n)
  case 0
  then show ?case by (simp add: bits_value_def)
next
  case (Suc w)
  have "bits_value (bin_text (Suc w) n) = 2 * bits_value (bin_text w (n div 2)) + (if odd n then 1 else 0)"
    by (simp add: bits_value_def bit_chr_def)
  then show ?case
    unfolding mod_double by (simp add: Suc odd_iff_mod_2_eq_one)
qed

lemma set_bin_text: "set (bin_text w n) \<subseteq> set ''01''"
  by (induction w arbitrary: n) (auto simp: bit_chr_def)

lemma hex2bin_chr: "d < 16 \<Longrightarrow> dict_getitem hex2bin (hex_chr d) = Inr (bin_text 4 d)"
proof -
  assume "d < 16"
  moreover have "\<forall>d\<in>set [0..<16]. dict_getitem hex2bin (hex_chr d) = Inr (bin_text 4 d)"
    by code_simp
  ultimately show ?thesis by simp
qed

lemma rmapM_append_Inr:
  "rmapM f xs = Inr ys \<Longrightarrow> rmapM f (xs @ [x]) = rmap (\<lambda>y. ys @ [y]) (f x)"
  by (induction xs arbitrary: ys) (auto simp: rbind_eq_Inr_iff rmap_eq_Inr_iff rmap_def rbind_assoc)

text \<open>A numeral of hexadecimal digits, each replaced by its four binary digits.\<close>

lemma hex_text_bits:
  "\<exists>ws. rmapM (dict_getitem hex2bin) (hex_text n) = Inr ws \<and> concat ws = bin_text (4 * length (hex_text n)) n \<and>
     n < 16 ^ length (hex_text n)"
proof (induction n rule: hex_text.induct)
  case (1 n)
  show ?case
  proof (cases "n < 16")
    case True
    then have "hex_text n = [hex_chr n]"
      by (subst hex_text.simps) simp
    with True show ?thesis
      by (intro exI [of _ "[bin_text 4 n]"]) (simp add: hex2bin_chr del: bin_text.simps)
  next
    case False
    let ?k = "length (hex_text (n div 16))"
    from 1 [OF False] obtain ws where ws: "rmapM (dict_getitem hex2bin) (hex_text (n div 16)) = Inr ws"
      "concat ws = bin_text (4 * ?k) (n div 16)" "n div 16 < 16 ^ ?k"
      by blast
    have unroll: "hex_text n = hex_text (n div 16) @ [hex_chr (n mod 16)]"
      using False by (subst hex_text.simps) simp
    have tail: "bin_text 4 (n mod 16) = bin_text 4 n"
      using bin_text_mod [of 4 n] by simp
    have joined: "concat (ws @ [bin_text 4 (n mod 16)]) = bin_text (4 * length (hex_text n)) n"
      using ws(2) tail bin_text_append [of "4 * ?k" 4 n] by (simp add: unroll add.commute)
    have "n < 16 ^ length (hex_text n)"
      using ws(3) by (simp add: unroll)
    with joined show ?thesis
      using rmapM_append_Inr [OF ws(1), of "hex_chr (n mod 16)"]
      by (simp add: unroll hex2bin_chr)
  qed
qed


section \<open>\<open>int2bin\<close>\<close>

lemma slice_before: "0 < k \<Longrightarrow> py_slice xs 0 (- int k) = take (length xs - k) xs"
  by (simp add: py_slice_def py_clamp_def Let_def nat_minus_as_int)

lemma slice_behind: "0 < k \<Longrightarrow> py_slice xs (- int k) (int (length xs)) = drop (length xs - k) xs"
  by (simp add: py_slice_def py_clamp_def Let_def nat_minus_as_int)

lemma fitted_bits:
  assumes "m < 2 ^ L" and "0 < k"
  shows "(if CHR ''1'' \<in> set (take (L - k) (bin_text L m)) then Inl ValueError
          else Inr (replicate (k - min L k) CHR ''0'' @ drop (L - k) (bin_text L m))) =
    (if m < 2 ^ k then Inr (bin_text k m) else Inl ValueError)"
proof (cases "k \<le> L")
  case True
  then have split: "bin_text L m = bin_text (L - k) (m div 2 ^ k) @ bin_text k m"
    using bin_text_append [of "L - k" k m] by simp
  have "m div 2 ^ k < 2 ^ (L - k)"
    using assms(1) True by (simp add: less_mult_imp_div_less power_add [symmetric])
  then have "CHR ''1'' \<in> set (bin_text (L - k) (m div 2 ^ k)) \<longleftrightarrow> \<not> m < 2 ^ k"
    by (simp add: one_in_bin_text div_eq_0_iff)
  with split True show ?thesis by simp
next
  case False
  then have "(2 :: nat) ^ L \<le> 2 ^ k" by (intro power_increasing) auto
  from less_le_trans [OF assms(1) this] assms(1) have small: "m < 2 ^ k" "m div 2 ^ L = 0" by simp_all
  have "bin_text k m = replicate (k - L) CHR ''0'' @ bin_text L m"
    using bin_text_append [of "k - L" L m] False small(2) by (simp add: bin_text_zero)
  with False small(1) show ?thesis by (simp add: min_def)
qed

text \<open>
  Every number from 0 on has its text of exactly \<open>n\<close> digits when it fits, and the refusal is exact.
\<close>

theorem int2bin_correct:
  assumes "0 \<le> i" and "0 < n"
  shows "int2bin i n = (if i < 2 ^ nat n then Inr (bin_text (nat n) (nat i)) else Inl ValueError)"
proof -
  define m k where "m = nat i" and "k = nat n"
  then have im: "i = int m" "n = int k" "0 < k" using assms by auto
  obtain ws where ws: "rmapM (dict_getitem hex2bin) (hex_text m) = Inr ws"
    "concat ws = bin_text (4 * length (hex_text m)) m" "m < 16 ^ length (hex_text m)"
    using hex_text_bits by blast
  let ?L = "4 * length (hex_text m)"
  have "(16 :: nat) ^ length (hex_text m) = 2 ^ ?L" by (simp add: power_mult)
  with ws(3) have small: "m < 2 ^ ?L" by simp
  have digits: "rmap concat (rmapM (dict_getitem hex2bin) (drop 2 (py_hex i))) = Inr (bin_text ?L m)"
    by (simp add: py_hex_def im ws(1,2))
  have width: "nat (n - int (length (drop (?L - k) (bin_text ?L m)))) = k - min ?L k"
    using im by auto
  have "int2bin i n = (if CHR ''1'' \<in> set (take (?L - k) (bin_text ?L m)) then Inl ValueError
     else Inr (replicate (k - min ?L k) CHR ''0'' @ drop (?L - k) (bin_text ?L m)))"
    unfolding int2bin_def digits rbind_Inr Let_def
    using slice_before [OF im(3), of "bin_text ?L m"] slice_behind [OF im(3), of "bin_text ?L m"] width im(2)
    by simp
  also have "\<dots> = (if m < 2 ^ k then Inr (bin_text k m) else Inl ValueError)"
    by (rule fitted_bits [OF small im(3)])
  also have "m < 2 ^ k \<longleftrightarrow> i < 2 ^ nat n"
    unfolding im nat_int using of_nat_less_iff [of m "2 ^ k", where 'a = int] by simp
  finally show ?thesis
    unfolding im nat_int .
qed

text \<open>Reading the digits back gives the number.\<close>

lemma bin2int_bin_text:
  assumes "0 < k"
  shows "bin2int (bin_text k m) = Inr (int (m mod 2 ^ k))"
proof -
  have chars: "c \<in> set (bin_text k m) \<Longrightarrow> c = CHR ''0'' \<or> c = CHR ''1''" for c
    using set_bin_text [of k m] by auto
  then have solid: "\<not> py_space c" if "c \<in> set (bin_text k m)" for c
    using that by (auto simp: py_space_def)
  then have "dropWhile py_space xs = xs" if "set xs = set (bin_text k m)" for xs
    using that by (cases xs) auto
  then have strip: "py_strip (bin_text k m) = bin_text k m"
    by (simp add: py_strip_def)
  obtain c r where cr: "bin_text k m = c # r" using assms by (metis length_bin_text list.exhaust list.size(3) not_gr_zero)
  have plain: "\<not> startswith (c # r) ''-''" "\<not> startswith (c # r) ''+''"
    using chars cr by fastforce+
  have bare: "unprefixed (c # r) = c # r"
    using chars unfolding cr by (cases r) (fastforce simp: unprefixed_def)+
  show ?thesis
    using set_bin_text [of k m] strip plain bare bits_value_bin_text [of k m]
    unfolding bin2int_def cr by (simp add: Let_def)
qed

theorem bits_roundtrip:
  assumes "0 \<le> i" and "0 < n" and "i < 2 ^ nat n"
  shows "rbind (int2bin i n) bin2int = Inr i"
  using assms by (simp add: int2bin_correct bin2int_bin_text nat_less_iff flip: of_nat_mod)


section \<open>\<open>lsb\<close> and the Gray code\<close>

lemma lsb_mod: "lsb x n = x mod 2 ^ n"
  by (simp add: lsb_def take_bit_eq_mod [symmetric] take_bit_eq_mask mask_eq_exp_minus_1)

lemma xor_shifted: "(a XOR drop_bit 1 a) XOR (b XOR drop_bit 1 b) = (a XOR b) XOR drop_bit 1 (a XOR (b :: int))"
  by (rule bit_eqI) (auto simp: bit_simps)

lemma xor_next: "\<exists>k. int n XOR (int n + 1) = mask (Suc k)"
proof (induction n rule: less_induct)
  case (less n)
  show ?case
  proof (cases "even n")
    case True
    have "int n XOR (int n + 1) = 1 + 2 * (int n div 2 XOR (int n + 1) div 2)"
      using True by (subst xor_rec) simp
    with True have "int n XOR (int n + 1) = mask (Suc 0)"
      by simp
    then show ?thesis ..
  next
    case False
    then have halves: "int n div 2 = int (n div 2)" "(int n + 1) div 2 = int (n div 2) + 1"
      by (auto elim: oddE)
    from False have "n div 2 < n" by (cases n) auto
    with less obtain k where k: "int (n div 2) XOR (int (n div 2) + 1) = mask (Suc k)" by blast
    have "int n XOR (int n + 1) = 1 + 2 * (int n div 2 XOR (int n + 1) div 2)"
      using False by (subst xor_rec) simp
    then have "int n XOR (int n + 1) = mask (Suc (Suc k))"
      unfolding halves k by (simp add: mask_eq_exp_minus_1)
    then show ?thesis ..
  qed
qed

lemma mask_shifted: "mask (Suc k) XOR drop_bit 1 (mask (Suc k)) = (2 ^ k :: int)"
  by (rule bit_eqI) (auto simp: bit_simps)

text \<open>The codes of two neighbours differ in exactly one bit, and no code occurs twice.\<close>

theorem gray_neighbours:
  assumes "0 \<le> i"
  shows "\<exists>k. gray_encode i XOR gray_encode (i + 1) = 2 ^ k"
proof -
  from assms obtain n where n: "i = int n" using nonneg_int_cases by blast
  from xor_next [of n] obtain k where k: "int n XOR (int n + 1) = mask (Suc k)" by blast
  have "gray_encode i XOR gray_encode (i + 1) = 2 ^ k"
    unfolding gray_encode_def n xor_shifted k by (rule mask_shifted)
  then show ?thesis ..
qed

theorem gray_distinct:
  assumes "0 \<le> i" "0 \<le> j" and "gray_encode i = gray_encode j"
  shows "i = j"
proof -
  define x where "x = i XOR j"
  have "(i XOR j) XOR drop_bit 1 (i XOR j) = 0"
    using assms(3) unfolding gray_encode_def xor_shifted [symmetric] by simp
  then have "x XOR drop_bit 1 x = 0" by (simp add: x_def)
  then have "x = drop_bit 1 x"
    by (metis xor.right_neutral xor.assoc xor_self_eq xor.left_neutral)
  then have "x = x div 2" by (simp add: drop_bit_eq_div)
  moreover have "0 \<le> x" using assms(1,2) by (simp add: x_def)
  ultimately have "x = 0" by arith
  then show ?thesis
    unfolding x_def by (metis xor.assoc xor.right_neutral xor_self_eq)
qed

section \<open>\<open>binary_range\<close>\<close>

text \<open>Counting up by one on the digits, the lowest of them first.\<close>

fun carry :: "string \<Rightarrow> string" where
  "carry [] = []"
| "carry (c # v) = (if c = CHR ''0'' then CHR ''1'' # v else CHR ''0'' # carry v)"

lemma count_step_carry:
  assumes "length v = bits" "length t = Suc bits" "i \<le> bits" "t ! i = 1" "\<And>j. i < j \<Longrightarrow> j \<le> bits \<Longrightarrow> t ! j = 0"
  shows "fst (count_step bits i v t) = take i v @ carry (drop i v) \<and>
     (snd (count_step bits i v t) ! bits = 1 \<longleftrightarrow> CHR ''0'' \<notin> set (drop i v))"
  using assms
proof (induction bits i v t rule: count_step.induct)
  case (1 bits i v t)
  show ?case
  proof (cases "i < bits")
    case False
    with "1.prems" show ?thesis by (subst (1 2) count_step.simps) simp
  next
    case True
    then have here: "drop i v = v ! i # drop (Suc i) v"
      using "1.prems"(1) by (simp add: Cons_nth_drop_Suc)
    show ?thesis
    proof (cases "v ! i = CHR ''0''")
      case zero: True
      have "count_step bits i v t = count_step bits (i + 1) (v[i := CHR ''1'']) (t[i + 1 := 0])"
        using True zero "1.prems"(4) by (subst count_step.simps) simp
      also have "\<dots> = (v[i := CHR ''1''], t[i + 1 := 0])"
        using True "1.prems"(2) by (subst count_step.simps) simp
      finally have stop: "count_step bits i v t = (v[i := CHR ''1''], t[i + 1 := 0])" .
      have "t[i + 1 := 0] ! bits = 0"
        using True "1.prems"(2) "1.prems"(5) [of bits] by (cases "bits = i + 1") simp_all
      then show ?thesis
        unfolding stop using True zero "1.prems"(1) here by (simp add: upd_conv_take_nth_drop)
    next
      case one: False
      have "count_step bits i v t = count_step bits (i + 1) (v[i := CHR ''0'']) (t[i + 1 := 1])"
        using True one "1.prems"(4) by (subst count_step.simps) simp
      moreover have "fst (count_step bits (i + 1) (v[i := CHR ''0'']) (t[i + 1 := 1])) =
          take (i + 1) (v[i := CHR ''0'']) @ carry (drop (i + 1) (v[i := CHR ''0''])) \<and>
        (snd (count_step bits (i + 1) (v[i := CHR ''0'']) (t[i + 1 := 1])) ! bits = 1 \<longleftrightarrow>
         CHR ''0'' \<notin> set (drop (i + 1) (v[i := CHR ''0''])))"
        using True one "1.prems" by (intro "1.IH"(2)) auto
      ultimately show ?thesis
        using True one "1.prems"(1) here by (simp add: take_Suc_conv_app_nth take_update_swap list_update_append)
    qed
  qed
qed

lemma carry_bin_text: "rev (carry (rev (bin_text w n))) = bin_text w (n + 1)"
proof (induction w arbitrary: n)
  case 0
  then show ?case by simp
next
  case (Suc w)
  have "odd n \<Longrightarrow> (n + 1) div 2 = n div 2 + 1" "even n \<Longrightarrow> (n + 1) div 2 = n div 2" by presburger+
  then show ?case using Suc [of "n div 2"] by (cases "even n") (simp_all add: bit_chr_def)
qed

lemma zero_in_bin_text: "n < 2 ^ w \<Longrightarrow> CHR ''0'' \<in> set (bin_text w n) \<longleftrightarrow> n + 1 < 2 ^ w"
proof (induction w arbitrary: n)
  case 0
  then show ?case by simp
next
  case (Suc w)
  then have "n div 2 < 2 ^ w" by simp
  from Suc.IH [OF this] have ih: "CHR ''0'' \<in> set (bin_text w (n div 2)) \<longleftrightarrow> n div 2 + 1 < 2 ^ w" .
  have "n + 1 < 2 * 2 ^ w \<longleftrightarrow> even n \<or> n div 2 + 1 < 2 ^ w"
    using Suc.prems by (simp; presburger)
  with ih show ?case by (auto simp: bit_chr_def)
qed

lemma count_from_correct:
  assumes "m < 2 ^ bits" and "toggle ! bits \<noteq> 1"
  shows "count_from bits (rev (bin_text bits m)) toggle = Some (map (bin_text bits) [m ..< 2 ^ bits])"
  using assms
proof (induction "2 ^ bits - m" arbitrary: m toggle rule: less_induct)
  case less
  let ?st = "count_step bits 0 (rev (bin_text bits m)) (1 # replicate bits 0)"
  have st: "fst ?st = carry (rev (bin_text bits m))"
    "snd ?st ! bits = 1 \<longleftrightarrow> CHR ''0'' \<notin> set (bin_text bits m)"
    using count_step_carry [of "rev (bin_text bits m)" bits "1 # replicate bits 0" 0] by (auto simp: nth_Cons')
  have v': "fst ?st = rev (bin_text bits (m + 1))"
    unfolding st(1) using carry_bin_text [of bits m] by (metis rev_rev_ident)
  have unroll: "[m ..< 2 ^ bits] = m # [m + 1 ..< 2 ^ bits]"
    using less.prems(1) by (simp add: upt_conv_Cons)
  have "count_from bits (fst ?st) (snd ?st) = Some (map (bin_text bits) [m + 1 ..< 2 ^ bits])"
  proof (cases "m + 1 < 2 ^ bits")
    case True
    then have "snd ?st ! bits \<noteq> 1" using st(2) zero_in_bin_text [OF less.prems(1)] by simp
    with True less.hyps [of "m + 1"] show ?thesis unfolding v' by simp
  next
    case False
    then have "snd ?st ! bits = 1" using st(2) zero_in_bin_text [OF less.prems(1)] by simp
    then show ?thesis using False by (subst count_from.simps) simp
  qed
  then show ?case
    using less.prems(2) unfolding unroll by (subst count_from.simps) simp
qed

text \<open>
  The loop ends, and its list has every text of \<open>bits\<close> digits, in the order of the numbers. For width 0 the
  flag that ends the loop is set before it starts, and the one text of width 0 is missing.
\<close>

theorem binary_range_correct:
  "binary_range bits = Some (if bits = 0 then [] else map (bin_text bits) [0 ..< 2 ^ bits])"
proof (cases bits)
  case 0
  then show ?thesis by (simp add: binary_range_def count_from.simps)
next
  case (Suc b)
  then have "(1 # replicate bits 0 :: nat list) ! bits \<noteq> 1" by (simp add: nth_Cons' del: replicate_Suc)
  moreover have "rev (bin_text bits 0) = replicate bits CHR ''0''" by (simp only: bin_text_zero rev_replicate)
  ultimately show ?thesis
    using count_from_correct [of 0 bits "1 # replicate bits 0"] Suc
    by (simp add: binary_range_def del: replicate_Suc bin_text.simps)
qed

end
