(* ===== verification/RadUtil.thy ===== *)
theory RadUtil
  imports PyNum "HOL-Library.Multiset"
begin

text \<open>
  The functions on numbers, sequences and dictionaries of \<open>bindings/python/rad_util.py\<close>. A value that may be an
  integer or a float is a \<open>pynum\<close>; \<open>gcf\<close> and \<open>lcm\<close> are modelled on integers.
\<close>

section \<open>Common factors and fractions\<close>

function gcf_loop :: "int \<Rightarrow> int \<Rightarrow> int" where
  "gcf_loop result remainder =
     (if remainder \<noteq> 0 then gcf_loop remainder (result mod remainder) else result)"
  by pat_completeness auto

termination
  by (relation "measure (\<lambda>(result, remainder). nat \<bar>remainder\<bar>)") (auto simp: abs_mod_less)

declare gcf_loop.simps [simp del]

definition gcf :: "int \<Rightarrow> int \<Rightarrow> int" where
  "gcf a b = \<bar>gcf_loop (max a b) (min a b)\<bar>"

definition lcm_rad :: "int \<Rightarrow> int \<Rightarrow> int" where
  "lcm_rad a b = (let denom = gcf a b in if denom = 0 then 0 else a * (b div denom))"

definition reduce_fraction :: "int \<times> int \<Rightarrow> (int \<times> int) pyres" where
  "reduce_fraction fraction =
     (let (numerator, denominator) = fraction; common_factor = \<bar>gcf numerator denominator\<bar>
      in if common_factor = 0 then Inl ZeroDivisionError
         else Inr (numerator div common_factor, denominator div common_factor))"

lemma gcf_loop_gcd: "\<bar>gcf_loop a b\<bar> = gcd a b"
  by (induction a b rule: gcf_loop.induct) (subst gcf_loop.simps, simp add: gcd_red_int [symmetric] gcd.commute)

theorem gcf_gcd: "gcf a b = gcd a b"
  unfolding gcf_def gcf_loop_gcd by (auto simp: max_def min_def gcd.commute)

text \<open>The value has the sign of the product of the arguments.\<close>

theorem lcm_rad_correct: "lcm_rad a b = sgn (a * b) * lcm a b"
proof (cases "a = 0 \<or> b = 0")
  case True
  then show ?thesis by (auto simp: lcm_rad_def gcf_gcd)
next
  case False
  have "sgn (a * b) * lcm a b * gcd a b = sgn (a * b) * \<bar>a * b\<bar>"
    by (simp only: mult.assoc lcm_mult_gcd) (simp add: abs_mult)
  also have "\<dots> = a * b" by (rule sgn_mult_abs)
  finally have "a * b div gcd a b = sgn (a * b) * lcm a b"
    using False by (metis gcd_eq_0_iff nonzero_mult_div_cancel_right)
  with False show ?thesis
    by (simp add: lcm_rad_def gcf_gcd div_mult_swap)
qed

lemma lcm_negative: "lcm_rad (- 2) 3 = - 6"
  by code_simp

theorem reduce_fraction_correct:
  assumes "n \<noteq> 0 \<or> d \<noteq> 0"
  shows "\<exists>n' d'. reduce_fraction (n, d) = Inr (n', d') \<and> coprime n' d' \<and> n * d' = n' * d"
proof -
  have pos: "gcd n d \<noteq> 0" using assms by auto
  have "n * (d div gcd n d) = n div gcd n d * d"
    by (simp add: div_mult_swap dvd_div_mult mult.commute)
  with pos assms show ?thesis
    by (intro exI [of _ "n div gcd n d"] exI [of _ "d div gcd n d"])
      (simp add: reduce_fraction_def gcf_gcd div_gcd_coprime Let_def)
qed

lemma reduce_zero: "reduce_fraction (0, 0) = Inl ZeroDivisionError"
  by code_simp

section \<open>Permutations\<close>

definition insert_at :: "nat \<Rightarrow> 'a \<Rightarrow> 'a list \<Rightarrow> 'a list" where
  "insert_at i x xs = take i xs @ x # drop i xs"

fun permutations :: "'a list \<Rightarrow> 'a list list" where
  "permutations (item # y # ys) =
     concat (map (\<lambda>sub_list. map (\<lambda>i. insert_at i item sub_list) [0 ..< length (item # y # ys)])
       (permutations (y # ys)))"
| "permutations input_list = [input_list]"

lemma permutations_sample:
  "permutations ''abc'' = [''abc'', ''bac'', ''bca'', ''acb'', ''cab'', ''cba'']"
  by code_simp

lemma mset_insert_at [simp]: "mset (insert_at i x xs) = add_mset x (mset xs)"
  unfolding insert_at_def by (metis append_take_drop_id mset.simps(2) mset_append union_mset_add_mset_right)

theorem permutations_correct: "set (permutations xs) = {ys. mset ys = mset xs}"
proof (induction xs rule: permutations.induct)
  case (1 item y ys)
  have "zs \<in> set (permutations (item # y # ys))" if eq: "mset zs = mset (item # y # ys)" for zs
  proof -
    from eq have "item \<in> set zs" by (metis list.set_intros(1) mset_eq_setD)
    then obtain a b where zs: "zs = a @ item # b" by (auto simp: in_set_conv_decomp)
    with eq have sub: "mset (a @ b) = mset (y # ys)" by simp
    then have "length a \<le> length (y # ys)" by (metis le_add1 length_append mset_eq_length)
    then have "length a \<in> set [0 ..< length (item # y # ys)]" by (simp del: upt_Suc)
    moreover have "zs = insert_at (length a) item (a @ b)" by (simp add: zs insert_at_def)
    ultimately show ?thesis using 1 sub unfolding permutations.simps by fastforce
  qed
  moreover have "mset zs = mset (item # y # ys)" if "zs \<in> set (permutations (item # y # ys))" for zs
    using that 1 by auto
  ultimately show ?case by blast
qed auto

theorem permutations_count: "length (permutations xs) = fact (length xs)"
proof (induction xs rule: permutations.induct)
  case (1 item y ys)
  have "length (permutations (item # y # ys)) = length (permutations (y # ys)) * length (item # y # ys)"
    by (simp add: length_concat comp_def sum_list_triv)
  with 1 show ?case by (simp add: algebra_simps)
qed auto

section \<open>Common ends of two texts\<close>

function prefix_loop :: "'a list \<Rightarrow> 'a list \<Rightarrow> nat \<Rightarrow> nat \<Rightarrow> 'a list" where
  "prefix_loop s1 s2 common_len i =
     (if i < common_len \<and> s1 ! i = s2 ! i then s1 ! i # prefix_loop s1 s2 common_len (i + 1) else [])"
  by pat_completeness auto

termination
  by (relation "measure (\<lambda>(s1, s2, common_len, i). common_len - i)") auto

function suffix_loop :: "'a list \<Rightarrow> 'a list \<Rightarrow> nat \<Rightarrow> nat \<Rightarrow> 'a list" where
  "suffix_loop s1 s2 common_len i =
     (if i < common_len + 1 \<and> s1 ! (length s1 - i) = s2 ! (length s2 - i)
      then s1 ! (length s1 - i) # suffix_loop s1 s2 common_len (i + 1) else [])"
  by pat_completeness auto

termination
  by (relation "measure (\<lambda>(s1, s2, common_len, i). common_len + 1 - i)") auto

declare prefix_loop.simps [simp del] suffix_loop.simps [simp del]

definition find_common_fixes :: "'a list \<Rightarrow> 'a list \<Rightarrow> 'a list \<times> 'a list" where
  "find_common_fixes s1 s2 =
     (let common_len = min (length s1) (length s2)
      in (prefix_loop s1 s2 common_len 0, rev (suffix_loop s1 s2 common_len 1)))"

lemma fixes_samples:
  "find_common_fixes ''abcelephantdef'' ''abccowdef'' = (''abc'', ''def'') \<and>
   find_common_fixes ''aa'' ''aaa'' = (''aa'', ''aa'')"
  by code_simp

text \<open>What two lists have in common at the front.\<close>

fun shared_front :: "'a list \<Rightarrow> 'a list \<Rightarrow> 'a list" where
  "shared_front (x # xs) (y # ys) = (if x = y then x # shared_front xs ys else [])"
| "shared_front xs ys = []"

lemma shared_front_prefix: "prefix (shared_front xs ys) xs \<and> prefix (shared_front xs ys) ys"
  by (induction xs ys rule: shared_front.induct) auto

lemma shared_front_longest: "prefix q xs \<Longrightarrow> prefix q ys \<Longrightarrow> prefix q (shared_front xs ys)"
  by (induction xs ys arbitrary: q rule: shared_front.induct) (auto simp: prefix_Cons)

lemma prefix_loop_front:
  "prefix_loop s1 s2 (min (length s1) (length s2)) i = shared_front (drop i s1) (drop i s2)"
proof (induction s1 s2 "min (length s1) (length s2)" i rule: prefix_loop.induct)
  case (1 s1 s2 i)
  show ?case
  proof (cases "i < min (length s1) (length s2)")
    case True
    then have "drop i s1 = s1 ! i # drop (i + 1) s1" "drop i s2 = s2 ! i # drop (i + 1) s2"
      by (simp_all add: Cons_nth_drop_Suc)
    with True 1 show ?thesis by (subst prefix_loop.simps) simp
  next
    case False
    then have "drop i s1 = [] \<or> drop i s2 = []" by auto
    then have "shared_front (drop i s1) (drop i s2) = []" by (auto elim: shared_front.elims)
    with False show ?thesis by (subst prefix_loop.simps) auto
  qed
qed

lemma suffix_loop_front:
  "suffix_loop s1 s2 (min (length s1) (length s2)) (i + 1) = shared_front (drop i (rev s1)) (drop i (rev s2))"
proof (induction "min (length s1) (length s2) - i" arbitrary: i rule: less_induct)
  case less
  show ?case
  proof (cases "i < min (length s1) (length s2)")
    case True
    then have "drop i (rev s1) = s1 ! (length s1 - (i + 1)) # drop (i + 1) (rev s1)"
      "drop i (rev s2) = s2 ! (length s2 - (i + 1)) # drop (i + 1) (rev s2)"
      by (simp_all add: Cons_nth_drop_Suc [symmetric] rev_nth)
    moreover have "suffix_loop s1 s2 (min (length s1) (length s2)) (i + 1 + 1) =
        shared_front (drop (i + 1) (rev s1)) (drop (i + 1) (rev s2))"
      using True by (intro less) auto
    ultimately show ?thesis using True by (subst suffix_loop.simps) simp
  next
    case False
    then have "drop i (rev s1) = [] \<or> drop i (rev s2) = []" by auto
    then have "shared_front (drop i (rev s1)) (drop i (rev s2)) = []" by (auto elim: shared_front.elims)
    with False show ?thesis by (subst suffix_loop.simps) auto
  qed
qed

text \<open>The prefix and the suffix are common to both texts, and every common one is a part of them.\<close>

theorem find_common_fixes_correct:
  assumes "find_common_fixes s1 s2 = (p, q)"
  shows "prefix u s1 \<and> prefix u s2 \<longleftrightarrow> prefix u p" "suffix u s1 \<and> suffix u s2 \<longleftrightarrow> suffix u q"
proof -
  have p: "p = shared_front s1 s2" and q: "q = rev (shared_front (rev s1) (rev s2))"
    using assms prefix_loop_front [of s1 s2 0] suffix_loop_front [of s1 s2 0]
    by (auto simp: find_common_fixes_def Let_def)
  show "prefix u s1 \<and> prefix u s2 \<longleftrightarrow> prefix u p"
    unfolding p using shared_front_prefix [of s1 s2] shared_front_longest by (metis prefix_order.trans)
  show "suffix u s1 \<and> suffix u s2 \<longleftrightarrow> suffix u q"
    unfolding q suffix_to_prefix rev_rev_ident
    using shared_front_prefix [of "rev s1" "rev s2"] shared_front_longest by (metis prefix_order.trans)
qed


section \<open>Duplicates, dictionaries and command lines\<close>

text \<open>
  \<open>uniquify\<close>: with \<open>preserve_order\<close> the first occurrences, for items that can be hashed with the help of a
  dictionary; otherwise the keys of a dictionary, in the order \<open>key_order\<close> of the interpreter. Items that cannot
  be hashed are compared one by one, in the order of the sequence in both cases.
\<close>

fun fresh_items :: "('a, int) dict \<Rightarrow> 'a list \<Rightarrow> 'a list" where
  "fresh_items d [] = []"
| "fresh_items d (x # seq) = (if dict_has d x then fresh_items d seq else x # fresh_items (dict_set x 0 d) seq)"

definition uniquify :: "('a list \<Rightarrow> 'a list) \<Rightarrow> bool \<Rightarrow> bool \<Rightarrow> 'a list \<Rightarrow> 'a list" where
  "uniquify key_order hashable preserve_order seq =
     (if hashable
      then (if preserve_order then fresh_items [] seq
            else key_order (dict_keys (foldl (\<lambda>d x. dict_set x (0 :: int) d) [] seq)))
      else foldl (\<lambda>result x. if x \<notin> set result then result @ [x] else result) [] seq)"

definition reverse_dict :: "('k, 'v) dict \<Rightarrow> ('v, 'k) dict" where
  "reverse_dict d = foldl (\<lambda>result (key, v). dict_set v key result) [] d"

text \<open>The values of the command line: an option with a text or without one, and the list of the arguments.\<close>

datatype argval = Given "string option" | Arguments "string list"

fun get_args_loop :: "(string, argval) dict \<Rightarrow> string list \<Rightarrow> string list \<Rightarrow> (string, argval) dict \<times> string list" where
  "get_args_loop d args [] = (d, args)"
| "get_args_loop d args (arg # argv) =
     (if startswith arg ''-''
      then (let parts = split_all CHR ''='' (dropWhile (\<lambda>c. c = CHR ''-'') arg)
            in get_args_loop
                 (dict_set (hd parts) (Given (if length parts = 2 then Some (parts ! 1) else None)) d) args argv)
      else get_args_loop d (args @ [arg]) argv)"

definition get_args :: "string list \<Rightarrow> (string, argval) dict" where
  "get_args argv = (let (d, args) = get_args_loop [] [] argv in dict_set ''args'' (Arguments args) d)"

lemma command_samples:
  "get_args [''--size=3'', ''in'', ''-v'', ''out''] =
     [(''size'', Given (Some ''3'')), (''v'', Given None), (''args'', Arguments [''in'', ''out''])]"
  "reverse_dict [(''a'', 1 :: int), (''b'', 2)] = [(1, ''a''), (2, ''b'')]"
  by code_simp+

text \<open>A value with an equals sign in it is dropped, and an option called \<open>args\<close> is overwritten.\<close>

lemma equals_lost: "get_args [''--define=x=1'', ''--args=y''] = [(''define'', Given None), (''args'', Arguments [])]"
  by code_simp

lemma slow_is_fast:
  "(\<And>x. dict_has d x \<longleftrightarrow> x \<in> set r) \<Longrightarrow>
   foldl (\<lambda>result x. if x \<notin> set result then result @ [x] else result) r seq = r @ fresh_items d seq"
proof (induction seq arbitrary: r d)
  case Nil
  then show ?case by simp
next
  case (Cons x seq)
  have "dict_has (dict_set x 0 d) y \<longleftrightarrow> y \<in> set (r @ [x])" for y
    using Cons.prems by (auto simp: dict_has_def dict_set_keys)
  from Cons.IH [OF this] Cons.IH [OF Cons.prems] Cons.prems show ?case by auto
qed

lemma first_occurrences:
  "foldl (\<lambda>result x. if x \<notin> set result then result @ [x] else result) [] seq = rev (remdups (rev seq))"
  by (induction seq rule: rev_induct) auto

text \<open>
  With \<open>preserve_order\<close> the first occurrence of every item is kept, by both algorithms; without it, for items
  that can be hashed, every item is listed once in some order.
\<close>

theorem uniquify_order:
  "uniquify key_order hashable True seq = rev (remdups (rev seq))"
proof -
  have "fresh_items [] seq = rev (remdups (rev seq))"
    using slow_is_fast [of "[]" "[]" seq] first_occurrences [of seq] by (simp add: dict_has_def)
  then show ?thesis by (simp add: uniquify_def first_occurrences)
qed

theorem uniquify_any_order:
  assumes "\<And>ks. mset (key_order ks) = mset ks"
  shows "mset (uniquify key_order hashable preserve_order seq) = mset_set (set seq)"
proof (cases "hashable \<and> \<not> preserve_order")
  case True
  let ?d = "foldl (\<lambda>d x. dict_set x (0 :: int) d) [] seq"
  have "dict_wf ?d"
    by (rule foldl_invariant) (auto simp: dict_wf_def intro: dict_wf_set [unfolded dict_wf_def])
  moreover have "fst ` set (foldl (\<lambda>d x. dict_set x (0 :: int) d) d0 seq) = fst ` set d0 \<union> set seq" for d0
    by (induction seq arbitrary: d0) (auto simp: dict_set_keys)
  from this [of "[]"] have "set (dict_keys ?d) = set seq" by (simp add: dict_keys_def)
  ultimately have "mset (dict_keys ?d) = mset_set (set seq)"
    by (metis dict_keys_def dict_wf_def mset_set_set)
  with True assms show ?thesis by (simp add: uniquify_def)
next
  case False
  then have "uniquify key_order hashable preserve_order seq = uniquify key_order hashable True seq"
    by (auto simp: uniquify_def)
  then show ?thesis
    unfolding uniquify_order using mset_set_set [of "rev (remdups (rev seq))"] by simp
qed

text \<open>Reversing twice gives the dictionary back when no value occurs twice.\<close>

lemma dict_set_appends: "k \<notin> fst ` set d \<Longrightarrow> dict_set k v d = d @ [(k, v)]"
  by (induction d) auto

lemma reverse_dict_swap:
  assumes "distinct (map snd d)"
  shows "reverse_dict d = map (\<lambda>(k, v). (v, k)) d"
  using assms
proof (induction d rule: rev_induct)
  case Nil
  then show ?case by (simp add: reverse_dict_def)
next
  case (snoc p d)
  obtain k v where p: "p = (k, v)" by (cases p)
  have "reverse_dict (d @ [p]) = dict_set v k (reverse_dict d)"
    by (simp add: reverse_dict_def p)
  moreover have "v \<notin> fst ` set (map (\<lambda>(k, v). (v, k)) d)"
    using snoc.prems p by (force simp: image_iff)
  ultimately show ?case using snoc by (simp add: dict_set_appends p)
qed

theorem reverse_dict_involution:
  assumes "dict_wf d" and "distinct (map snd d)"
  shows "reverse_dict (reverse_dict d) = d"
proof -
  have "map snd (map (\<lambda>(k, v). (v, k)) d) = map fst d" by (simp add: case_prod_beta comp_def)
  then show ?thesis
    using assms by (simp add: reverse_dict_swap dict_wf_def case_prod_beta comp_def)
qed

text \<open>What \<open>reverse_dict\<close> gives for a value is a key that has it.\<close>

theorem reverse_dict_sound:
  assumes "map_of (reverse_dict d) v = Some k"
  shows "(k, v) \<in> set d"
proof -
  have "map_of (foldl (\<lambda>result (key, v). dict_set v key result) r d) v = Some k \<Longrightarrow>
      map_of r v = Some k \<or> (k, v) \<in> set d" for r
  proof (induction d arbitrary: r)
    case (Cons p d)
    obtain x y where "p = (x, y)" by (cases p)
    with Cons.IH [of "dict_set y x r"] Cons.prems show ?case by (auto split: if_splits)
  qed simp
  from this [of "[]"] assms show ?thesis by (simp add: reverse_dict_def)
qed


section \<open>Grids, quantiles and areas\<close>

text \<open>\<open>result = ((int(value / grid) + add_one) * grid)\<close>; \<open>add_one\<close> is unset in two of the modes on the grid.\<close>

definition round_grid :: "pynum \<Rightarrow> pynum \<Rightarrow> int \<Rightarrow> pynum pyres" where
  "round_grid value grid mode =
     rbind (nmod value grid) (\<lambda>off_grid.
     rbind (ndiv grid (PFloat 2)) (\<lambda>half.
     rbind (if mode = 0 then Inr (if nle half off_grid then 1 else 0)
            else if mode = 1 \<and> nval off_grid \<noteq> 0 then Inr 1
            else if mode = - 1 \<and> nval off_grid \<noteq> 0 then Inr 0
            else Inl UnboundLocalError) (\<lambda>add_one.
     rmap (\<lambda>q. nmul (PInt (nint q + add_one)) grid) (ndiv value grid))))"

lemma grid_samples:
  "round_grid (PFloat 7.5) (PInt 5) 0 = Inr (PInt 10) \<and> round_grid (PFloat 7.5) (PInt 5) (- 1) = Inr (PInt 5) \<and>
   round_grid (PFloat 7.3) (PInt 5) 1 = Inr (PInt 10)"
  by code_simp

lemma grid_faults:
  "round_grid (PInt 10) (PInt 5) 1 = Inl UnboundLocalError \<and> round_grid (PFloat (- 7.5)) (PInt 5) (- 1) = Inr (PInt (- 5)) \<and>
   round_grid (PFloat (- 9)) (PInt 5) 0 = Inr (PInt (- 5))"
  by code_simp

text \<open>\<open>l[i]\<close> for a Python index, the list sorted.\<close>

definition quantile :: "pynum list \<Rightarrow> pynum \<Rightarrow> pynum pyres" where
  "quantile l p =
     (let l_sort = sort_key nval l;
          n = int (length l);
          r = nadd (PInt 1) (nmul (PInt (n - 1)) p);
          i = nint r;
          f = nsub r (PInt i)
      in if i < n
         then rbind (py_index l_sort (i - 1)) (\<lambda>x.
              rmap (\<lambda>y. nadd (nmul (nsub (PInt 1) f) x) (nmul f y)) (py_index l_sort i))
         else py_index l_sort (i - 1))"

definition trim :: "pynum list \<Rightarrow> pynum list pyres" where
  "trim l =
     (let l_sort = sort_key nval l; index = int (length l div 2)
      in rbind (if even (length l)
                then rbind (py_index l_sort index) (\<lambda>a.
                     rbind (py_index l_sort (index - 1)) (\<lambda>b. ndiv (nfloat (nadd a b)) (PInt 2)))
                else py_index l_sort index) (\<lambda>median.
         rbind (quantile l_sort (PFloat 0.25)) (\<lambda>q1.
         rbind (quantile l_sort (PFloat 0.75)) (\<lambda>q3.
           let iqr_extra = nmul (nsub q3 q1) (PFloat 1.5)
           in Inr (filter (\<lambda>x. nle (nsub q1 iqr_extra) x \<and> nle x (nadd q3 iqr_extra)) l_sort)))))"

lemma trim_samples:
  "quantile [PInt 4, PInt 1, PInt 3, PInt 2] (PFloat 0.25) = Inr (PFloat 1.75)"
  "rmap (map nval) (trim (map PInt [3, 90, 1, 2, 4])) = Inr [1, 2, 3, 4]"
  "trim [] = Inl IndexError"
  by code_simp+

text \<open>
  The caller's list holds the scaled integers afterwards, and the closing point.
\<close>

definition scaled :: "int \<Rightarrow> pynum \<times> pynum \<Rightarrow> int \<times> int" where
  "scaled precision pt = (nint (nmul (fst pt) (PInt precision)), nint (nmul (snd pt) (PInt precision)))"

definition close_polygon :: "(int \<times> int) list \<Rightarrow> (int \<times> int) list" where
  "close_polygon pts = (if last pts \<noteq> hd pts then pts @ [hd pts] else pts)"

definition double_area :: "(int \<times> int) list \<Rightarrow> int" where
  "double_area pts =
     foldl (\<lambda>area i. area + fst (pts ! (i + 1)) * snd (pts ! i) - snd (pts ! (i + 1)) * fst (pts ! i))
       0 [0 ..< length pts - 1]"

definition polygon_area :: "(pynum \<times> pynum) list \<Rightarrow> int \<Rightarrow> rat pyres \<times> (pynum \<times> pynum) list" where
  "polygon_area points_list precision =
     (let pts = map (scaled precision) points_list;
          points = close_polygon pts;
          boxed = map (\<lambda>(x, y). (PInt x, PInt y))
      in if points_list = [] then (Inl IndexError, [])
         else if precision = 0 then (Inl ZeroDivisionError, boxed points)
         else (Inr (of_int \<bar>double_area points div 2\<bar> / of_int (precision\<^sup>2)), boxed points))"

abbreviation int_points :: "(int \<times> int) list \<Rightarrow> (pynum \<times> pynum) list" where
  "int_points \<equiv> map (\<lambda>(x, y). (PInt x, PInt y))"

lemma area_samples:
  "fst (polygon_area (int_points [(0, 0), (0, 1), (1, 1), (1, 2), (2, 2), (2, 0), (0, 0)]) 100) = Inr 3"
  "fst (polygon_area (int_points [(0, 0), (0, 1), (1, 0)]) 1) = Inr 0"
  "fst (polygon_area (int_points [(0, 0), (1, 0), (0, 1)]) 1) = Inr 1"
  by code_simp+

text \<open>An arithmetic progression; \<open>None\<close> is a loop that does not end.\<close>

partial_function (option) progression :: "rat \<Rightarrow> rat \<Rightarrow> rat \<Rightarrow> rat list option" where
  "progression cur stop step =
     (if cur < stop then Option.bind (progression (cur + step) stop step) (\<lambda>l. Some (cur # l)) else Some [])"

declare progression.simps [code]

definition float_range :: "rat \<Rightarrow> rat option \<Rightarrow> rat option \<Rightarrow> rat list option" where
  "float_range start stop step =
     (let (start, stop) = (case stop of None \<Rightarrow> (0, start) | Some s \<Rightarrow> (start, s));
          step = (case step of None \<Rightarrow> 1 | Some s \<Rightarrow> s)
      in progression start stop step)"

lemma range_samples: "float_range 3 None None = Some [0, 1, 2] \<and> float_range 1 (Some 2) (Some 0.5) = Some [1, 1.5]"
  by code_simp

text \<open>\<open>zip(*matrix)\<close> stops at the shortest row.\<close>

definition transpose_rad :: "'a list list \<Rightarrow> 'a list list" where
  "transpose_rad matrix =
     (if matrix = [] then []
      else map (\<lambda>j. map (\<lambda>row. row ! j) matrix) [0 ..< Min (set (map length matrix))])"

lemma transpose_samples:
  "transpose_rad [''abc'', ''def''] = [''ad'', ''be'', ''cf''] \<and> transpose_rad [''abc'', ''d''] = [''ad'']"
  by code_simp


section \<open>What these functions compute\<close>

text \<open>The progression has every value below \<open>stop\<close>; with a step that does not rise the loop never ends.\<close>

lemma progression_empty: "\<not> cur < stop \<Longrightarrow> progression cur stop step = Some []"
  by (simp add: progression.simps)

lemma progression_count:
  "0 < step \<Longrightarrow> stop \<le> cur + of_nat n * step \<Longrightarrow> (\<And>k. k < n \<Longrightarrow> cur + of_nat k * step < stop) \<Longrightarrow>
   progression cur stop step = Some (map (\<lambda>k. cur + of_nat k * step) [0 ..< n])"
proof (induction n arbitrary: cur)
  case 0
  then show ?case by (simp add: progression_empty)
next
  case (Suc n)
  have "progression (cur + step) stop step = Some (map (\<lambda>k. cur + step + of_nat k * step) [0 ..< n])"
  proof (rule Suc.IH [OF Suc.prems(1)])
    show "stop \<le> cur + step + of_nat n * step" using Suc.prems(2) by (simp add: algebra_simps)
    show "cur + step + of_nat k * step < stop" if "k < n" for k
      using Suc.prems(3) [of "Suc k"] that by (simp add: algebra_simps)
  qed
  moreover have "[0 ..< Suc n] = 0 # map Suc [0 ..< n]" by (simp only: map_Suc_upt upt_conv_Cons)
  ultimately show ?case
    using Suc.prems(3) [of 0] by (subst progression.simps) (simp add: comp_def algebra_simps)
qed

theorem float_range_correct:
  assumes "0 < step"
  shows "float_range start (Some stop) (Some step) =
    Some (map (\<lambda>k. start + of_nat k * step) [0 ..< nat \<lceil>(stop - start) / step\<rceil>])"
proof -
  let ?n = "nat \<lceil>(stop - start) / step\<rceil>"
  have "stop \<le> start + of_nat ?n * step"
  proof -
    have "(stop - start) / step \<le> of_nat ?n" by linarith
    then show ?thesis using assms by (simp add: pos_divide_le_eq algebra_simps)
  qed
  moreover have "start + of_nat k * step < stop" if "k < ?n" for k
  proof -
    from that have "of_nat k < (stop - start) / step" by (simp add: zless_nat_eq_int_zless less_ceiling_iff)
    then show ?thesis using assms by (simp add: pos_less_divide_eq algebra_simps)
  qed
  ultimately show ?thesis
    using assms by (simp add: float_range_def progression_count)
qed

lemma progression_endless:
  assumes "step \<le> 0"
  shows "progression cur stop step = Some l \<Longrightarrow> stop \<le> cur"
proof (induction l arbitrary: cur)
  case Nil
  then show ?case by (subst (asm) progression.simps) (auto split: if_splits bind_splits)
next
  case (Cons x l)
  then have "cur < stop \<Longrightarrow> progression (cur + step) stop step = Some l"
    by (subst (asm) (2) progression.simps) (auto split: if_splits bind_splits)
  with Cons.IH [of "cur + step"] assms show ?case by (cases "cur < stop") auto
qed

theorem float_range_endless:
  assumes "step \<le> 0" and "start < stop"
  shows "float_range start (Some stop) (Some step) = None"
  using progression_endless [OF assms(1), of start stop] assms(2)
  by (cases "progression start stop step") (auto simp: float_range_def)

text \<open>A matrix with rows of one length, transposed twice.\<close>

theorem transpose_involution:
  assumes "matrix \<noteq> []" and "\<And>row. row \<in> set matrix \<Longrightarrow> length row = n" and "0 < n"
  shows "transpose_rad (transpose_rad matrix) = matrix"
proof -
  have "set (map length matrix) = {n}" using assms(1,2) by (cases matrix) auto
  then have once: "transpose_rad matrix = map (\<lambda>j. map (\<lambda>row. row ! j) matrix) [0 ..< n]"
    using assms(1) by (simp add: transpose_rad_def)
  have "set (map length (transpose_rad matrix)) = {length matrix}" "transpose_rad matrix \<noteq> []"
    using assms(3) by (auto simp: once)
  then have "transpose_rad (transpose_rad matrix) =
      map (\<lambda>i. map (\<lambda>col. col ! i) (transpose_rad matrix)) [0 ..< length matrix]"
    by (simp only: transpose_rad_def [of "transpose_rad matrix"] if_False Min_singleton)
  also have "\<dots> = map (\<lambda>i. map (\<lambda>j. matrix ! i ! j) [0 ..< n]) [0 ..< length matrix]"
    by (simp add: once comp_def)
  also have "\<dots> = map (\<lambda>i. matrix ! i) [0 ..< length matrix]"
    using assms(2) by (intro map_cong refl) (metis atLeastLessThan_iff map_nth nth_mem set_upt)
  finally show ?thesis by (simp add: map_nth)
qed


text \<open>The quantile is defined for every list with a value, and lies between two of its values.\<close>

lemma sorted_nth_between:
  assumes "i < length l"
  shows "\<exists>x\<in>set l. sort_key nval l ! i = x"
  using assms by (metis length_sort nth_mem set_sort)

theorem quantile_within:
  assumes "l \<noteq> []" and "0 \<le> nval p" and "nval p \<le> 1"
  shows "\<exists>x\<in>set l. \<exists>y\<in>set l. \<exists>q. quantile l p = Inr q \<and> nval x \<le> nval q \<and> nval q \<le> nval y"
proof -
  define s n where "s = sort_key nval l" and "n = int (length l)"
  define r where "r = nadd (PInt 1) (nmul (PInt (n - 1)) p)"
  define i where "i = nint r"
  have n: "1 \<le> n" using assms(1) by (cases l) (auto simp: n_def)
  have r: "nval r = 1 + of_int (n - 1) * nval p" by (simp add: r_def)
  have "0 \<le> of_int (n - 1) * nval p" using n assms(2) by simp
  moreover have "of_int (n - 1) * nval p \<le> of_int (n - 1)"
    using n assms(3) by (intro mult_left_le) auto
  ultimately have low: "1 \<le> nval r" and high: "nval r \<le> of_int n" by (simp_all add: r)
  have i: "i = \<lfloor>nval r\<rfloor>" using low by (simp add: i_def nint_eq)
  have bounds: "1 \<le> i" "i \<le> n" using low high by (simp_all add: i le_floor_iff floor_le_iff)
  have f: "0 \<le> nval (nsub r (PInt i))" "nval (nsub r (PInt i)) \<le> 1"
    by (simp_all add: i) linarith
  have len: "length s = nat n" by (simp add: s_def n_def)
  have member: "s ! nat j \<in> set l" if "0 \<le> j" "j < n" for j
    using that sorted_nth_between [of "nat j" l] by (simp add: s_def n_def)
  have at_index: "py_index s j = Inr (s ! nat j)" if "0 \<le> j" "j < n" for j
    using that py_index_nonneg [of "nat j" s] by (simp add: len)
  show ?thesis
  proof (cases "i < n")
    case True
    let ?x = "s ! nat (i - 1)" and ?y = "s ! nat i" and ?f = "nval (nsub r (PInt i))"
    let ?q = "nadd (nmul (nsub (PInt 1) (nsub r (PInt i))) ?x) (nmul (nsub r (PInt i)) ?y)"
    have q: "quantile l p = Inr ?q"
      using True bounds at_index [of "i - 1"] at_index [of i]
      by (simp add: quantile_def Let_def s_def [symmetric] n_def [symmetric] r_def [symmetric] i_def [symmetric])
    have "sorted (map nval s)" by (simp add: s_def)
    then have xy: "nval ?x \<le> nval ?y"
      using True bounds len by (simp add: sorted_iff_nth_mono)
    have "nval ?q = nval ?x + ?f * (nval ?y - nval ?x)" by (simp add: algebra_simps)
    moreover have "0 \<le> ?f * (nval ?y - nval ?x)" "?f * (nval ?y - nval ?x) \<le> nval ?y - nval ?x"
      using f xy by (auto intro: mult_left_le_one_le)
    ultimately have "nval ?x \<le> nval ?q" "nval ?q \<le> nval ?y" by linarith+
    moreover have "?x \<in> set l" "?y \<in> set l" using True bounds by (auto intro: member)
    ultimately show ?thesis using q by blast
  next
    case False
    with bounds have "quantile l p = Inr (s ! nat (n - 1))"
      using n at_index [of "n - 1"]
      by (simp add: quantile_def Let_def s_def [symmetric] n_def [symmetric] r_def [symmetric] i_def [symmetric])
    with member [of "n - 1"] n show ?thesis by force
  qed
qed


text \<open>
  Nearest mode, for a value from 0 on: a multiple of the grid that is at most half a grid away. The other modes
  give the multiple above or below when the value is off the grid, and on it they raise an exception.
\<close>

lemma round_grid_value:
  assumes "0 \<le> v" "0 < g"
  shows "\<exists>off. nmod (PFloat v) (PFloat g) = Inr off \<and> nval off = v - g * of_int \<lfloor>v / g\<rfloor>"
    and "nint (PFloat (v / g)) = \<lfloor>v / g\<rfloor>"
  using assms by simp_all

lemma off_grid_bounds:
  assumes "0 < (g :: rat)"
  shows "g * of_int \<lfloor>v / g\<rfloor> \<le> v" "v < g * of_int \<lfloor>v / g\<rfloor> + g"
proof -
  define k :: rat where "k = of_int \<lfloor>v / g\<rfloor>"
  have "k \<le> v / g" "v / g < k + 1" unfolding k_def by linarith+
  then have "g * k \<le> v" "v < g * k + g"
    using assms by (simp_all add: field_simps)
  then show "g * of_int \<lfloor>v / g\<rfloor> \<le> v" "v < g * of_int \<lfloor>v / g\<rfloor> + g"
    by (simp_all add: k_def)
qed

theorem round_grid_nearest:
  assumes "0 \<le> v" "0 < g"
  shows "\<exists>k. round_grid (PFloat v) (PFloat g) 0 = Inr (PFloat (of_int k * g)) \<and> \<bar>of_int k * g - v\<bar> \<le> g / 2"
proof -
  define off k where "off = v - g * of_int \<lfloor>v / g\<rfloor>"
    and "k = \<lfloor>v / g\<rfloor> + (if g / 2 \<le> off then 1 else 0)"
  have "round_grid (PFloat v) (PFloat g) 0 = Inr (PFloat (of_int k * g))"
    using assms by (simp add: round_grid_def nle_def off_def k_def)
  moreover have "\<bar>of_int k * g - v\<bar> \<le> g / 2"
    using off_grid_bounds [OF assms(2), of v] by (auto simp: k_def off_def algebra_simps)
  ultimately show ?thesis by blast
qed

theorem round_grid_off:
  assumes "0 \<le> v" "0 < g" and "mode = 1 \<or> mode = - 1"
  shows "round_grid (PFloat v) (PFloat g) mode =
    (if v = g * of_int \<lfloor>v / g\<rfloor> then Inl UnboundLocalError
     else Inr (PFloat (of_int (if mode = 1 then \<lceil>v / g\<rceil> else \<lfloor>v / g\<rfloor>) * g)))"
proof (cases "v = g * of_int \<lfloor>v / g\<rfloor>")
  case True
  with assms show ?thesis by (auto simp: round_grid_def)
next
  case False
  then have "v / g \<noteq> of_int \<lfloor>v / g\<rfloor>" using assms(2) by (auto simp: field_simps)
  then have "\<lceil>v / g\<rceil> = \<lfloor>v / g\<rfloor> + 1" by (simp add: ceiling_altdef)
  with False assms show ?thesis by (auto simp: round_grid_def)
qed

text \<open>
  The area of points with whole coordinates, at an even precision: half of the doubled area, exactly.
\<close>

definition cross :: "(int \<times> int) list \<Rightarrow> nat \<Rightarrow> int" where
  "cross pts i = fst (pts ! (i + 1)) * snd (pts ! i) - snd (pts ! (i + 1)) * fst (pts ! i)"

lemma double_area_sum: "double_area pts = (\<Sum>i < length pts - 1. cross pts i)"
proof -
  have "foldl (\<lambda>area i. area + fst (pts ! (i + 1)) * snd (pts ! i) - snd (pts ! (i + 1)) * fst (pts ! i)) a [0 ..< n] =
      a + (\<Sum>i < n. cross pts i)" for a n
    by (induction n) (simp_all add: cross_def)
  from this [of 0 "length pts - 1"] show ?thesis by (simp add: double_area_def)
qed

definition stretch :: "int \<Rightarrow> int \<times> int \<Rightarrow> int \<times> int" where
  "stretch k pt = (fst pt * k, snd pt * k)"

lemma double_area_stretch: "double_area (map (stretch k) pts) = k\<^sup>2 * double_area pts"
  unfolding double_area_sum sum_distrib_left
  by (auto simp: cross_def stretch_def power2_eq_square algebra_simps intro!: sum.cong)

lemma close_stretch: "k \<noteq> 0 \<Longrightarrow> pts \<noteq> [] \<Longrightarrow> close_polygon (map (stretch k) pts) = map (stretch k) (close_polygon pts)"
  by (auto simp: close_polygon_def last_map hd_map stretch_def prod_eq_iff)

lemma close_twice: "pts \<noteq> [] \<Longrightarrow> close_polygon (close_polygon pts) = close_polygon pts"
  by (simp add: close_polygon_def)

lemma map_scaled_ints: "map (scaled k) (int_points pts) = map (stretch k) pts"
  by (auto simp: scaled_def stretch_def)

lemma polygon_area_ints:
  assumes "pts \<noteq> []" and "k \<noteq> 0" and "even k"
  shows "polygon_area (int_points pts) k =
    (Inr (\<bar>of_int (double_area (close_polygon pts))\<bar> / 2), int_points (map (stretch k) (close_polygon pts)))"
proof -
  from assms(3) obtain h where h: "k = 2 * h" by (elim evenE)
  have "double_area (close_polygon (map (stretch k) pts)) = k\<^sup>2 * double_area (close_polygon pts)"
    using assms by (simp add: close_stretch double_area_stretch)
  also have "\<dots> = 2 * (2 * h\<^sup>2 * double_area (close_polygon pts))" by (simp add: h power2_eq_square)
  finally have "\<bar>double_area (close_polygon (map (stretch k) pts)) div 2\<bar> = 2 * h\<^sup>2 * \<bar>double_area (close_polygon pts)\<bar>"
    by (simp add: abs_mult)
  moreover have "(of_int (2 * h\<^sup>2 * \<bar>double_area (close_polygon pts)\<bar>) :: rat) / of_int (k\<^sup>2) = \<bar>of_int (double_area (close_polygon pts))\<bar> / 2"
    using assms(2) by (simp add: h power2_eq_square field_simps)
  ultimately have "(of_int \<bar>double_area (close_polygon (map (stretch k) pts)) div 2\<bar> :: rat) / of_int (k\<^sup>2) =
      \<bar>of_int (double_area (close_polygon pts))\<bar> / 2"
    by (simp only:)
  then show ?thesis
    using assms unfolding polygon_area_def map_scaled_ints Let_def
    by (simp add: close_stretch del: of_int_abs of_int_power)
qed

theorem polygon_area_correct:
  assumes "pts \<noteq> []" and "k \<noteq> 0" and "even k"
  shows "fst (polygon_area (int_points pts) k) = Inr (\<bar>\<Sum>i < length (close_polygon pts) - 1. of_int (cross (close_polygon pts) i)\<bar> / 2)"
  using polygon_area_ints [OF assms] by (simp add: double_area_sum)

text \<open>The argument is scaled where it lies: a second call on the same list gives \<open>precision\<close> squared times the area.\<close>

theorem second_call_scaled:
  assumes "pts \<noteq> []" and "k \<noteq> 0" and "even k"
    and "polygon_area (int_points pts) k = (Inr a, pts')"
  shows "fst (polygon_area pts' k) = Inr (of_int (k\<^sup>2) * a)"
proof -
  have "a = \<bar>of_int (double_area (close_polygon pts))\<bar> / 2" "pts' = int_points (map (stretch k) (close_polygon pts))"
    using assms(4) polygon_area_ints [OF assms(1-3)] by simp_all
  moreover have "map (stretch k) (close_polygon pts) \<noteq> []" using assms(1) by (simp add: close_polygon_def)
  moreover have "close_polygon (map (stretch k) (close_polygon pts)) = map (stretch k) (close_polygon pts)"
    using assms(1,2) close_stretch [of k "close_polygon pts"] close_twice [OF assms(1)] by (simp add: close_polygon_def)
  ultimately show ?thesis
    using polygon_area_ints [of "map (stretch k) (close_polygon pts)" k] assms(2,3)
    by (simp add: double_area_stretch abs_mult)
qed

end
