(* ===== verification/BindGen.thy ===== *)
theory BindGen
  imports PyCore ModuleTemplates
begin

text \<open>
  \<open>bindings/python/ns3modulegen_core_customizations.py\<close>, \<open>ns3modulegen-modular.py\<close> and the customizations of the
  core module: the names of smart pointers, the classes behind callbacks, the code of wrappers, and the types that
  are taken out when a feature is missing. PyBindGen is not in the repository: what it answers about a type is a
  parameter, and what it is told to write is a list of texts.
\<close>

section \<open>Names of smart pointers\<close>

text \<open>The regular expression \<open>(ns3::|::ns3::|)Ptr<([^>]+)>\s*$\<close>, matched at the start; the value is its second group.\<close>

definition py_endswith :: "string \<Rightarrow> string \<Rightarrow> bool" where
  "py_endswith s t \<longleftrightarrow> length t \<le> length s \<and> drop (length s - length t) s = t"

definition ptr_inner :: "string \<Rightarrow> string option" where
  "ptr_inner rest =
     (let inner = takeWhile (\<lambda>c. c \<noteq> CHR ''>'') rest; behind = drop (length inner) rest
      in if inner \<noteq> [] \<and> behind \<noteq> [] \<and> list_all py_space (tl behind) then Some inner else None)"

definition ptr_match :: "string \<Rightarrow> string option" where
  "ptr_match name =
     (case filter (\<lambda>p. startswith name (p @ ''Ptr<'')) [''ns3::'', ''::ns3::'', ''''] of
        [] \<Rightarrow> None
      | p # _ \<Rightarrow> ptr_inner (drop (length p + 4) name))"

definition get_untransformed_type_traits :: "string \<Rightarrow> string option \<times> bool" where
  "get_untransformed_type_traits name =
     (case ptr_match name of
        None \<Rightarrow> (None, False)
      | Some inner \<Rightarrow>
          let name1 = py_strip inner;
              front = startswith name1 ''const '';
              name1 = (if front then drop 6 name1 else name1);
              behind = py_endswith name1 '' const'';
              name1 = (if behind then take (length name1 - 6) name1 else name1);
              new_name = name1 @ '' *''
          in (Some (if startswith new_name ''::'' then drop 2 new_name else new_name), front \<or> behind))"

definition get_untransformed_name :: "string \<Rightarrow> string option" where
  "get_untransformed_name name = fst (get_untransformed_type_traits name)"

datatype handler_kind = ParameterKind | ReturnValueKind | OtherKind

text \<open>
  The type and the keyword the handler is created with, and the type the transformation is set to.
\<close>

definition create_type_handler :: "handler_kind \<Rightarrow> string \<Rightarrow> (string \<times> string \<times> string) pyres" where
  "create_type_handler kind name =
     rbind (case kind of ParameterKind \<Rightarrow> Inr ''transfer_ownership'' | ReturnValueKind \<Rightarrow> Inr ''caller_owns_return''
            | OtherKind \<Rightarrow> Inl AssertionError) (\<lambda>kwarg.
       case get_untransformed_type_traits name of
         (None, _) \<Rightarrow> Inl TypeError
       | (Some orig_ctype, is_const) \<Rightarrow>
           Inr (''ns3::Ptr< '' @ take (length orig_ctype - 2) orig_ctype @ (if is_const then '' const >'' else '' >''),
                kwarg, orig_ctype))"

definition untransform :: "string \<Rightarrow> string \<Rightarrow> string" where
  "untransform untransformed_ctype expression =
     ''const_cast<'' @ untransformed_ctype @ ''> (ns3::PeekPointer ('' @ expression @ ''))''"

definition transform :: "string \<Rightarrow> string \<Rightarrow> string pyres" where
  "transform untransformed_ctype expression =
     (if untransformed_ctype = [] then Inl IndexError
      else if last untransformed_ctype \<noteq> CHR ''*'' then Inl AssertionError
      else Inr (''ns3::Ptr< '' @ butlast untransformed_ctype @ '' > ('' @ expression @ '')''))"

lemma pointer_samples:
  "get_untransformed_type_traits ''ns3::Ptr< ns3::Packet const >'' = (Some ''ns3::Packet *'', True)"
  "get_untransformed_type_traits ''Ptr<const ::ns3::Packet>  '' = (Some ''ns3::Packet *'', True)"
  "get_untransformed_type_traits ''Ptr<A<int>>'' = (None, False)"
  "create_type_handler ParameterKind ''ns3::Packet *'' = Inl TypeError"
  "transform ''ns3::Packet *'' ''x'' = Inr ''ns3::Ptr< ns3::Packet  > (x)''"
  by code_simp+

text \<open>The name of a class as it stands between the angle brackets.\<close>

definition plain_class :: "string \<Rightarrow> bool" where
  "plain_class cls \<longleftrightarrow> cls \<noteq> [] \<and> cls \<noteq> ''const'' \<and> CHR ''>'' \<notin> set cls \<and> \<not> py_space (hd cls) \<and> \<not> py_space (last cls) \<and>
     \<not> startswith cls ''const '' \<and> \<not> startswith cls ''::'' \<and> \<not> py_endswith cls '' const''"

definition spelling :: "bool \<Rightarrow> bool \<Rightarrow> bool \<Rightarrow> string \<Rightarrow> string" where
  "spelling front colons behind cls =
     (if front then ''const '' else '''') @ (if colons then ''::'' else '''') @ cls @ (if behind then '' const'' else '''')"

lemma ptr_inner_exact:
  "CHR ''>'' \<notin> set inner \<Longrightarrow> inner \<noteq> [] \<Longrightarrow> list_all py_space blanks \<Longrightarrow> ptr_inner (inner @ CHR ''>'' # blanks) = Some inner"
  by (subst ptr_inner_def, subst takeWhile_append_stop) auto

lemma ptr_match_exact:
  assumes "p \<in> {''ns3::'', ''::ns3::'', ''''}" "CHR ''>'' \<notin> set inner" "inner \<noteq> []" "list_all py_space blanks"
  shows "ptr_match (p @ ''Ptr<'' @ inner @ CHR ''>'' # blanks) = Some inner"
proof -
  have "drop (length p + 4) (p @ ''Ptr<'' @ inner @ CHR ''>'' # blanks) = inner @ CHR ''>'' # blanks"
    by simp
  then show ?thesis
    using assms ptr_inner_exact [OF assms(2-4)] by (auto simp: ptr_match_def)
qed

lemma py_endswith_suffix: "py_endswith s t \<longleftrightarrow> suffix t s"
  unfolding py_endswith_def by (metis suffix_drop suffix_def append_eq_conv_conj diff_add_inverse2 length_append le_add2)

lemma startswith_prefix: "startswith s t \<longleftrightarrow> prefix t s"
  by (simp add: startswith_iff prefix_def)

lemma py_strip_solid:
  assumes "\<not> py_space (hd s)" "\<not> py_space (last s)" "s \<noteq> []" "list_all py_space a" "list_all py_space b"
  shows "py_strip (a @ s @ b) = s"
proof -
  have solid: "dropWhile py_space (u @ v @ w) = v @ w"
    if "list_all py_space u" "v \<noteq> []" "\<not> py_space (hd v)" for u v w
    using that by (cases v) (auto simp: dropWhile_append2 list_all_iff)
  have "dropWhile py_space (a @ s @ b) = s @ b" using assms by (intro solid)
  moreover have "dropWhile py_space (rev b @ rev s @ []) = rev s @ []" using assms by (intro solid) (simp_all add: hd_rev)
  ultimately show ?thesis by (simp add: py_strip_def)
qed

lemma spelling_edges:
  assumes "plain_class cls"
  shows "spelling front colons behind cls \<noteq> []" "\<not> py_space (hd (spelling front colons behind cls))"
    "\<not> py_space (last (spelling front colons behind cls))" "CHR ''>'' \<notin> set (spelling front colons behind cls)"
  using assms by (auto simp: spelling_def plain_class_def py_space_def)

lemma not_const_behind:
  assumes "plain_class cls"
  shows "\<not> suffix '' const'' ((if colons then ''::'' else '''') @ cls)"
proof -
  have no: "\<not> suffix '' const'' cls" using assms by (simp add: plain_class_def py_endswith_suffix)
  have "\<not> suffix '' const'' (''::'' @ cls)"
  proof
    assume "suffix '' const'' (''::'' @ cls)"
    with no obtain pre where pre: "'' const'' = pre @ cls" "suffix pre ''::''" unfolding suffix_append by blast
    from pre(2) have "pre = [] \<or> pre = '':'' \<or> pre = ''::''" by (auto simp: suffix_Cons)
    with pre(1) no show False by auto
  qed
  with no show ?thesis by simp
qed

lemma not_const_in_front:
  assumes "plain_class cls"
  shows "\<not> prefix ''const '' ((if colons then ''::'' else '''') @ cls @ (if behind then '' const'' else ''''))"
proof (cases colons)
  case True
  then show ?thesis by simp
next
  case False
  have no: "\<not> prefix ''const '' cls" "cls \<noteq> ''const''"
    using assms by (simp_all add: plain_class_def startswith_prefix)
  have "\<not> prefix ''const '' (cls @ r)" if "prefix r '' const''" for r
  proof
    assume "prefix ''const '' (cls @ r)"
    with no obtain us where us: "''const '' = cls @ us" "prefix us r" unfolding prefix_append by blast
    with that have "prefix us '' const''" by (meson prefix_order.trans)
    then have "us = [] \<or> hd us = CHR '' ''" by (cases us) auto
    with us(1) no show False by (auto simp: Cons_eq_append_conv)
  qed
  from this [of "if behind then '' const'' else ''''"] False show ?thesis by auto
qed

text \<open>
  Every spelling of a pointer to a class is understood: with or without namespace, with \<open>const\<close> in front of the
  class or behind it, with or without leading colons, and with blanks at either end and after the bracket.
\<close>

theorem pointer_spellings:
  assumes "plain_class cls" "p \<in> {''ns3::'', ''::ns3::'', ''''}"
    and "list_all py_space a" "list_all py_space b" "list_all py_space c"
  shows "get_untransformed_type_traits (p @ ''Ptr<'' @ (a @ spelling front colons behind cls @ b) @ CHR ''>'' # c) =
    (Some (cls @ '' *''), front \<or> behind)"
proof -
  let ?s = "spelling front colons behind cls"
  note edges = spelling_edges [OF assms(1), of front colons behind]
  have "\<not> py_space CHR ''>''" by code_simp
  then have "CHR ''>'' \<notin> set a" "CHR ''>'' \<notin> set b" using assms(3,4) by (auto simp: list_all_iff)
  with edges have "CHR ''>'' \<notin> set (a @ ?s @ b)" "a @ ?s @ b \<noteq> []" by simp_all
  from ptr_match_exact [OF assms(2) this assms(5)]
  have matched: "ptr_match (p @ ''Ptr<'' @ (a @ ?s @ b) @ CHR ''>'' # c) = Some (a @ ?s @ b)" .
  have strip: "py_strip (a @ ?s @ b) = ?s"
    using edges assms by (intro py_strip_solid)
  let ?n = "(if colons then ''::'' else '''') @ cls @ (if behind then '' const'' else '''')"
  have one: "startswith ?s ''const '' = front" "(if front then drop 6 ?s else ?s) = ?n"
    using not_const_in_front [OF assms(1), of colons behind] by (auto simp: spelling_def startswith_prefix)
  let ?m = "(if colons then ''::'' else '''') @ cls"
  have n: "?n = ?m @ (if behind then '' const'' else '''')" by simp
  have "suffix '' const'' (?m @ '' const'')" by (rule suffixI) (rule refl)
  then have two: "py_endswith ?n '' const'' = behind"
    unfolding n py_endswith_suffix using not_const_behind [OF assms(1), of colons]
    by (cases behind) (simp_all only: if_True if_False append_Nil2)
  have rest: "(if behind then take (length ?n - 6) ?n else ?n) = ?m"
    by auto
  have "\<not> prefix ''::'' (cls @ '' *'')"
    using assms(1) by (cases cls; cases "tl cls") (auto simp: plain_class_def startswith_prefix)
  then have three: "startswith (?m @ '' *'') ''::'' = colons" by (auto simp: startswith_prefix)
  have "get_untransformed_type_traits (p @ ''Ptr<'' @ (a @ ?s @ b) @ CHR ''>'' # c) =
     (Some (if startswith (?m @ '' *'') ''::'' then drop 2 (?m @ '' *'') else ?m @ '' *''), front \<or> behind)"
    unfolding get_untransformed_type_traits_def matched option.case Let_def strip one two rest by (rule refl)
  then show ?thesis unfolding three by auto
qed

text \<open>The type a handler gets is one of these spellings, so that the name a transformation is found by stays the same.\<close>

theorem handler_type_stable:
  assumes "plain_class cls" "get_untransformed_type_traits name = (Some (cls @ '' *''), is_const)"
  shows "\<exists>ctype. create_type_handler ParameterKind name = Inr (ctype, ''transfer_ownership'', cls @ '' *'') \<and>
    get_untransformed_type_traits ctype = (Some (cls @ '' *''), is_const)"
proof -
  let ?c = "''ns3::'' @ ''Ptr<'' @ ('' '' @ spelling False False is_const cls @ '' '') @ CHR ''>'' # []"
  have "create_type_handler ParameterKind name = Inr (?c, ''transfer_ownership'', cls @ '' *'')"
    using assms(2) by (simp add: create_type_handler_def spelling_def)
  moreover have "get_untransformed_type_traits ?c = (Some (cls @ '' *''), False \<or> is_const)"
    using assms(1) by (intro pointer_spellings) (auto simp: py_space_def)
  ultimately show ?thesis by auto
qed

section \<open>The classes behind callbacks\<close>

text \<open>What a wrapper is told to do: declare a variable, parse an argument, write code, pass an argument on.\<close>

datatype emit =
    Declare string string "string option"
  | ParseParam string "string list" string bool
  | Code string
  | ErrorCheck string "string option"
  | CleanupCode string
  | CallParam string
  | BuildParam string "string list"
  | Indent
  | Unindent

definition cls_name :: "string list \<Rightarrow> string" where
  "cls_name template_parameters = ''ns3::Callback< '' @ py_join '', '' template_parameters @ '' >''"

definition class_name :: "nat \<Rightarrow> string" where
  "class_name callback_impl_num = ''PythonCallbackImpl'' @ show_nat callback_impl_num"

text \<open>The class \<open>PythonCallbackParameter\<close> made for one entry of the list.\<close>

record callback_handler =
  CTYPES :: "string list"
  PYTHON_CALLBACK_IMPL_NAME :: string
  TEMPLATE_ARGS :: "string list"
  DISABLED :: bool

definition register_callback_classes :: "string list list \<Rightarrow> callback_handler list" where
  "register_callback_classes callbacks =
     map (\<lambda>(callback_impl_num, template_parameters).
       \<lparr>CTYPES = [cls_name template_parameters], PYTHON_CALLBACK_IMPL_NAME = class_name callback_impl_num,
        TEMPLATE_ARGS = template_parameters, DISABLED = False\<rparr>) (enumerate 0 callbacks)"

text \<open>
  \<open>declare_variable\<close> chooses the name of a new variable from what has been written and the name it is given.
\<close>

definition callback_check :: "string \<Rightarrow> string \<Rightarrow> emit" where
  \<open>callback_check py_callback name =
     ErrorCheck (''!PyCallable_Check('' @ py_callback @ '')'')
       (Some (''PyErr_SetString(PyExc_TypeError, "parameter '' @ [CHR 39] @ name @ [CHR 39] @ '' must be callbale");''))\<close>

definition callback_to_c ::
  "(emit list \<Rightarrow> string \<Rightarrow> string) \<Rightarrow> callback_handler \<Rightarrow> string \<Rightarrow> string option \<Rightarrow> emit list \<Rightarrow> emit list pyres" where
  "callback_to_c declare_variable handler name default_value ws =
     (let impl = PYTHON_CALLBACK_IMPL_NAME handler; template = py_join '', '' (TEMPLATE_ARGS handler);
          py_callback = declare_variable ws name
      in if DISABLED handler then Inl (PyException ''CodeGenerationError'')
         else Inr (case default_value of
           None \<Rightarrow>
             (let ws1 = ws @ [Declare ''PyObject*'' py_callback None, ParseParam ''O'' [CHR ''&'' # py_callback] name False,
                              callback_check py_callback name];
                  callback_impl = declare_variable ws1 (name @ ''_cb_impl'')
              in ws1 @ [Declare (''ns3::Ptr<'' @ impl @ ''>'') callback_impl None,
                        Code (callback_impl @ '' = ns3::Create<'' @ impl @ ''> ('' @ py_callback @ '');''),
                        CallParam (''ns3::Callback<'' @ template @ ''> ('' @ callback_impl @ '')'')])
         | Some given \<Rightarrow>
             (let ws1 = ws @ [Declare ''PyObject*'' py_callback (Some ''NULL''),
                              ParseParam ''O'' [CHR ''&'' # py_callback] name True];
                  value_var = declare_variable ws1 (name @ ''_value'')
              in ws1 @ [Declare (''ns3::Callback<'' @ template @ ''>'') value_var (Some given),
                        Code (''if ('' @ py_callback @ '') {''), Indent, callback_check py_callback name,
                        Code (value_var @ '' = ns3::Callback<'' @ template @ ''> (ns3::Create<'' @ impl @ ''> ('' @
                              py_callback @ ''));''),
                        Unindent, Code ''}'', CallParam value_var])))"

text \<open>The answers of PyBindGen about types, and the classes with a helper class that cannot be constructed.\<close>

record binding_types =
  parse_type :: "string \<Rightarrow> string \<times> bool"
  return_known :: "string \<Rightarrow> bool \<Rightarrow> bool"
  param_known :: "string \<Rightarrow> bool \<Rightarrow> bool"
  param_class :: "string \<Rightarrow> string option"
  helper_fails :: "string \<Rightarrow> bool"
  return_handler :: "string \<Rightarrow> nat option"
  param_handler :: "string \<Rightarrow> nat option"

type_synonym callback_arg = "string \<times> string \<times> bool"

datatype sink_item = Writeln string | CallOperator "string \<times> bool" "callback_arg list"

text \<open>
  The classes written, by the number of their callback; the handlers switched off, among those of parameters and
  of return values; and the classes whose helper class was dropped.
\<close>

record callback_state =
  flushed :: "(nat \<times> sink_item list) list"
  param_off :: "nat list"
  return_off :: "nat list"
  helpers_off :: "string list"

definition class_text :: "nat \<Rightarrow> string list \<Rightarrow> string" where
  \<open>class_text callback_impl_num template_parameters =
     (let c = class_name callback_impl_num
      in lines_text
        ['''', ''class '' @ c @ '' : public ns3::CallbackImpl<'' @ py_join '', '' template_parameters @ ''>'', ''{'', ''public:'',
         ''    PyObject *m_callback;'', ''    '' @ c @ ''(PyObject *callback)'', ''    {'', ''        Py_INCREF(callback);'',
         ''        m_callback = callback;'', ''    }'', ''    virtual ~'' @ c @ ''()'', ''    {'',
         ''        PyGILState_STATE __py_gil_state;'',
         ''        __py_gil_state = (PyEval_ThreadsInitialized() ? PyGILState_Ensure() : (PyGILState_STATE) 0);'',
         ''        Py_DECREF(m_callback);'', ''        m_callback = NULL;'', ''        PyGILState_Release(__py_gil_state);'',
         ''    }'', '''',
         ''    virtual bool IsEqual(ns3::Ptr<const ns3::CallbackImplBase> other_base) const'', ''    {'',
         ''        const '' @ c @ '' *other = dynamic_cast<const '' @ c @ ''*> (ns3::PeekPointer (other_base));'',
         ''        if (other != NULL)'', ''            return (other->m_callback == m_callback);'', ''        else'',
         ''            return false;'', ''    }'', ''''])\<close>

definition take_arg :: "binding_types \<Rightarrow> nat \<Rightarrow> string \<Rightarrow> string list \<Rightarrow> callback_arg option \<times> string list" where
  "take_arg ts arg_num arg_type off =
     (let (param_ctype, is_const) = parse_type ts arg_type
      in if param_known ts param_ctype is_const
         then (Some (param_ctype, ''arg'' @ show_nat (arg_num + 1), is_const),
               case param_class ts param_ctype of
                 None \<Rightarrow> off
               | Some cpp_class \<Rightarrow> if cpp_class \<notin> set off \<and> helper_fails ts cpp_class then off @ [cpp_class] else off)
         else (None, off))"

fun take_args ::
  "binding_types \<Rightarrow> nat \<Rightarrow> string list \<Rightarrow> callback_arg list \<times> bool \<times> string list \<Rightarrow> callback_arg list \<times> bool \<times> string list" where
  "take_args ts arg_num [] r = r"
| "take_args ts arg_num (arg_type # rest) (arguments, ok, off) =
     take_args ts (arg_num + 1) rest
       (case take_arg ts arg_num arg_type off of
          (Some param, off') \<Rightarrow> (arguments @ [param], ok, off')
        | (None, off') \<Rightarrow> (arguments, False, off'))"

definition generate_class :: "binding_types \<Rightarrow> callback_state \<Rightarrow> nat \<times> string list \<Rightarrow> callback_state pyres" where
  "generate_class ts st entry =
     (case entry of (callback_impl_num, template_parameters) \<Rightarrow>
      (case template_parameters of
        [] \<Rightarrow> Inl IndexError
      | callback_return # rest \<Rightarrow>
          let (return_ctype, is_const) = parse_type ts callback_return
          in if \<not> return_known ts return_ctype is_const then Inr st
             else (let (arguments, ok, off) =
                         take_args ts 0 (filter (\<lambda>arg. arg \<noteq> ''ns3::empty'') rest) ([], True, helpers_off st);
                       st = st\<lparr>helpers_off := off\<rparr>;
                       cls = cls_name template_parameters;
                       switch = (\<lambda>handler offs. case handler of None \<Rightarrow> offs | Some h \<Rightarrow> offs @ [h])
                   in Inr (if ok
                           then st\<lparr>flushed := flushed st @ [(callback_impl_num,
                                  [Writeln (class_text callback_impl_num template_parameters),
                                   CallOperator (return_ctype, is_const) arguments, Writeln (''};'' @ [py_newline])])]\<rparr>
                           else st\<lparr>return_off := switch (return_handler ts cls) (return_off st),
                                   param_off := switch (param_handler ts cls) (param_off st)\<rparr>))))"

definition generate_callback_classes :: "binding_types \<Rightarrow> string list list \<Rightarrow> callback_state \<Rightarrow> callback_state pyres" where
  "generate_callback_classes ts callbacks st = rfold (generate_class ts) st (enumerate 0 callbacks)"

text \<open>The call of the Python function in \<open>CallbackImplProxyMethod\<close>.\<close>

definition generate_python_call :: "string list \<Rightarrow> (emit list \<Rightarrow> string \<Rightarrow> string) \<Rightarrow> emit list \<Rightarrow> emit list pyres" where
  \<open>generate_python_call build_params declare_variable ws =
     (case build_params of
        [] \<Rightarrow> Inl IndexError
      | [] # _ \<Rightarrow> Inl IndexError
      | (c # p) # rest \<Rightarrow>
          let build_params = (if c = CHR 34 then (''(char *) '' @ c # p) # rest else (c # p) # rest);
              args = declare_variable ws ''args''
          in Inr (ws @ [Declare ''PyObject*'' args None,
                        Code (args @ '' = Py_BuildValue('' @ py_join '', '' build_params @ '');''),
                        CleanupCode (''Py_DECREF('' @ args @ '');''),
                        Code (''py_retval = PyObject_CallObject(m_callback, '' @ args @ '');''),
                        ErrorCheck ''py_retval == NULL'' None, CleanupCode ''Py_DECREF(py_retval);'']))\<close>

definition return_ok :: "binding_types \<Rightarrow> string list \<Rightarrow> bool" where
  "return_ok ts tmpl = case_prod (return_known ts) (parse_type ts (hd tmpl))"

definition args_ok :: "binding_types \<Rightarrow> string list \<Rightarrow> bool" where
  "args_ok ts tmpl = (\<forall>a\<in>set (tl tmpl). a = ''ns3::empty'' \<or> case_prod (param_known ts) (parse_type ts a))"

lemma take_args_ok:
  "fst (snd (take_args ts n as (args, ok, off))) \<longleftrightarrow> ok \<and> (\<forall>a\<in>set as. case_prod (param_known ts) (parse_type ts a))"
proof (induction as arbitrary: n args ok off)
  case (Cons a as)
  obtain t c where "parse_type ts a = (t, c)" by (cases "parse_type ts a")
  with Cons show ?case by (auto simp: take_arg_def)
qed simp

lemma generate_class_outcome:
  assumes "tmpl \<noteq> []"
  shows "\<exists>st'. generate_class ts st (i, tmpl) = Inr st' \<and>
    map fst (flushed st') = map fst (flushed st) @ (if return_ok ts tmpl \<and> args_ok ts tmpl then [i] else []) \<and>
    param_off st' = param_off st @
      (if return_ok ts tmpl \<and> \<not> args_ok ts tmpl then (case param_handler ts (cls_name tmpl) of None \<Rightarrow> [] | Some h \<Rightarrow> [h]) else [])"
proof -
  obtain ret rest where tmpl: "tmpl = ret # rest" using assms by (cases tmpl) auto
  obtain t c where parsed: "parse_type ts ret = (t, c)" by (cases "parse_type ts ret")
  obtain args ok off where taken:
    "take_args ts 0 (filter (\<lambda>arg. arg \<noteq> ''ns3::empty'') rest) ([], True, helpers_off st) = (args, ok, off)"
    by (metis prod_cases3)
  have ok: "ok = args_ok ts tmpl"
    using take_args_ok [of ts 0 "filter (\<lambda>arg. arg \<noteq> ''ns3::empty'') rest" "[]" True "helpers_off st"]
    by (auto simp: taken args_ok_def tmpl)
  have ret: "return_known ts t c = return_ok ts tmpl" by (simp add: return_ok_def tmpl parsed)
  show ?thesis
  proof (cases "return_ok ts tmpl")
    case False
    with ret have "generate_class ts st (i, tmpl) = Inr st" by (simp add: generate_class_def tmpl parsed)
    with False show ?thesis by auto
  next
    case True
    show ?thesis
      using True ok ret by (auto simp: generate_class_def parsed taken Let_def tmpl split: option.splits)
  qed
qed

text \<open>
  Exactly the callbacks with a known return type and known parameters get a class, and the handlers of those with an
  unknown parameter are switched off.
\<close>

definition switches :: "binding_types \<Rightarrow> string list \<Rightarrow> nat \<Rightarrow> bool" where
  "switches ts tmpl h \<longleftrightarrow> return_ok ts tmpl \<and> \<not> args_ok ts tmpl \<and> param_handler ts (cls_name tmpl) = Some h"

lemma in_switch: "h \<in> set (if b then (case m of None \<Rightarrow> [] | Some k \<Rightarrow> [k]) else []) \<longleftrightarrow> b \<and> m = Some h"
  by (cases m; cases b) (simp_all only: option.case if_True if_False list.set empty_iff insert_iff option.inject simp_thms eq_commute [of h] option.distinct HOL.False_implies_equals)

lemma generate_fold:
  "\<forall>e\<in>set es. snd e \<noteq> [] \<Longrightarrow>
   \<exists>st'. rfold (generate_class ts) st es = Inr st' \<and>
     map fst (flushed st') =
       map fst (flushed st) @ map fst (filter (\<lambda>e. return_ok ts (snd e) \<and> args_ok ts (snd e)) es) \<and>
     (\<forall>h. h \<in> set (param_off st') \<longleftrightarrow> h \<in> set (param_off st) \<or> (\<exists>e\<in>set es. switches ts (snd e) h))"
proof (induction es arbitrary: st)
  case Nil
  show ?case by (rule exI [of _ st]) simp
next
  case (Cons e es)
  obtain i tmpl where e: "e = (i, tmpl)" by (cases e)
  with Cons.prems have "tmpl \<noteq> []" by simp
  from generate_class_outcome [OF \<open>tmpl \<noteq> []\<close>, of ts st i] obtain st1 where
    "generate_class ts st (i, tmpl) = Inr st1"
    and st1: "map fst (flushed st1) = map fst (flushed st) @ (if return_ok ts tmpl \<and> args_ok ts tmpl then [i] else [])"
    "param_off st1 = param_off st @
       (if return_ok ts tmpl \<and> \<not> args_ok ts tmpl then (case param_handler ts (cls_name tmpl) of None \<Rightarrow> [] | Some h \<Rightarrow> [h]) else [])"
    by (elim exE conjE)
  then have gen: "generate_class ts st e = Inr st1" by (simp only: e)
  have "\<forall>e\<in>set es. snd e \<noteq> []" using Cons.prems by simp
  note Cons.IH [of st1, OF this]
  then obtain st' where st':
    "rfold (generate_class ts) st1 es = Inr st'"
    "map fst (flushed st') = map fst (flushed st1) @ map fst (filter (\<lambda>e. return_ok ts (snd e) \<and> args_ok ts (snd e)) es)"
    "(\<forall>h. h \<in> set (param_off st') \<longleftrightarrow> h \<in> set (param_off st1) \<or> (\<exists>e\<in>set es. switches ts (snd e) h))"
    by (elim exE conjE)
  have "rfold (generate_class ts) st (e # es) = Inr st'" by (simp add: gen st'(1))
  moreover have "map fst (flushed st') = map fst (flushed st) @
      map fst (filter (\<lambda>e. return_ok ts (snd e) \<and> args_ok ts (snd e)) (e # es))"
    unfolding st'(2) st1(1) by (cases "return_ok ts tmpl \<and> args_ok ts tmpl") (simp_all add: e)
  moreover have "h \<in> set (param_off st1) \<longleftrightarrow> h \<in> set (param_off st) \<or> switches ts (snd e) h" for h
    unfolding st1(2) switches_def e snd_conv set_append Un_iff in_switch by (simp only: conj_assoc)
  then have "\<forall>h. h \<in> set (param_off st') \<longleftrightarrow> h \<in> set (param_off st) \<or> (\<exists>d\<in>set (e # es). switches ts (snd d) h)"
    using st'(3) by simp
  ultimately show ?case by - (rule exI [of _ st'], (rule conjI, assumption)+, assumption)
qed

text \<open>
  After the classes are generated a handler is still switched on without its class exactly when the return type of
  the callback is unknown: then the wrappers of methods that take such a callback name a class that is not written.
\<close>

theorem callbacks_dangling:
  assumes "\<And>tmpl. tmpl \<in> set callbacks \<Longrightarrow> tmpl \<noteq> []"
    and "\<And>i. i < length callbacks \<Longrightarrow> param_handler ts (cls_name (callbacks ! i)) = Some i"
    and "flushed st = []" "param_off st = []"
  shows "\<exists>st'. generate_callback_classes ts callbacks st = Inr st' \<and> distinct (map fst (flushed st')) \<and>
    (\<forall>i < length callbacks.
       (i \<in> fst ` set (flushed st') \<longleftrightarrow> return_ok ts (callbacks ! i) \<and> args_ok ts (callbacks ! i)) \<and>
       (i \<notin> set (param_off st') \<and> i \<notin> fst ` set (flushed st') \<longleftrightarrow> \<not> return_ok ts (callbacks ! i)))"
proof -
  let ?es = "enumerate 0 callbacks"
  have "snd e \<noteq> []" if "e \<in> set ?es" for e
    using that assms(1) by (auto simp: in_set_enumerate_eq)
  then obtain st' where st': "rfold (generate_class ts) st ?es = Inr st'"
    "map fst (flushed st') = map fst (filter (\<lambda>e. return_ok ts (snd e) \<and> args_ok ts (snd e)) ?es)"
    "\<forall>h. h \<in> set (param_off st') \<longleftrightarrow> (\<exists>e\<in>set ?es. switches ts (snd e) h)"
    using generate_fold [of ?es ts st] assms(3,4) by auto
  have "i \<in> fst ` set (flushed st') \<longleftrightarrow> return_ok ts (callbacks ! i) \<and> args_ok ts (callbacks ! i)"
    if "i < length callbacks" for i
  proof -
    have "fst ` set (flushed st') = fst ` set (filter (\<lambda>e. return_ok ts (snd e) \<and> args_ok ts (snd e)) ?es)"
      using st'(2) by (metis set_map)
    moreover have "i \<in> fst ` {e \<in> set ?es. P (snd e)} \<longleftrightarrow> P (callbacks ! i)" for P
    proof
      assume "P (callbacks ! i)"
      then have "(i, callbacks ! i) \<in> {e \<in> set ?es. P (snd e)}" using that by (simp add: in_set_enumerate_eq)
      then show "i \<in> fst ` {e \<in> set ?es. P (snd e)}" by (rule rev_image_eqI) simp
    qed (auto simp: in_set_enumerate_eq)
    note this [of "\<lambda>t. return_ok ts t \<and> args_ok ts t"]
    ultimately show ?thesis by simp
  qed
  moreover have "i \<in> set (param_off st') \<longleftrightarrow> return_ok ts (callbacks ! i) \<and> \<not> args_ok ts (callbacks ! i)"
    if "i < length callbacks" for i
  proof
    assume "i \<in> set (param_off st')"
    then obtain j where "j < length callbacks" "return_ok ts (callbacks ! j)" "\<not> args_ok ts (callbacks ! j)"
      "param_handler ts (cls_name (callbacks ! j)) = Some i"
      using st'(3) by (auto simp: in_set_enumerate_eq switches_def)
    with assms(2) [of j] show "return_ok ts (callbacks ! i) \<and> \<not> args_ok ts (callbacks ! i)" by simp
  next
    assume "return_ok ts (callbacks ! i) \<and> \<not> args_ok ts (callbacks ! i)"
    moreover have "(i, callbacks ! i) \<in> set ?es" using that by (simp add: in_set_enumerate_eq)
    ultimately show "i \<in> set (param_off st')"
      using st'(3) assms(2) [OF that] unfolding switches_def by (metis snd_conv)
  qed
  moreover have "distinct (map fst (flushed st'))"
    unfolding st'(2) by (rule distinct_map_filter) simp
  ultimately show ?thesis
    using st'(1) unfolding generate_callback_classes_def by blast
qed

section \<open>Customizations of the modules\<close>

text \<open>The argument vector of a command line: one Python list for two C parameters.\<close>

definition argv_to_c :: "(emit list \<Rightarrow> string \<Rightarrow> string) \<Rightarrow> string \<Rightarrow> emit list \<Rightarrow> emit list" where
  \<open>argv_to_c declare_variable name0 ws =
     (let py_name = declare_variable ws (''py_'' @ name0);
          ws1 = ws @ [Declare ''PyObject*'' py_name None];
          argc_var = declare_variable ws1 ''argc'';
          ws2 = ws1 @ [Declare ''int'' argc_var None];
          name = declare_variable ws2 name0;
          ws3 = ws2 @ [Declare ''char**'' name None];
          idx = declare_variable ws3 ''idx'';
          ws4 = ws3 @ [Declare ''Py_ssize_t'' idx None]
      in ws4 @
        [ParseParam ''O!'' [''&PyList_Type'', CHR ''&'' # py_name] name0 False,
         Code (name @ '' = (char **) malloc(sizeof(char*)*PyList_Size('' @ py_name @ ''));''),
         CleanupCode (''free('' @ name @ '');''),
         Code ([py_newline] @ ''for ('' @ idx @ '' = 0; '' @ idx @ '' < PyList_Size('' @ py_name @ ''); '' @ idx @ ''++)'' @
               [py_newline] @ ''{'' @ [py_newline]),
         Indent,
         Code ([py_newline] @ ''PyObject *item = PyList_GET_ITEM('' @ py_name @ '', '' @ idx @ '');'' @ [py_newline]),
         ErrorCheck (lines_text ['''', ''#if PY_VERSION_HEX >= 0x03000000'', ''!PyUnicode_Check(item)'', ''#else'',
                                 ''!PyString_Check(item)'', ''#endif''])
           (Some (''PyErr_SetString(PyExc_TypeError, "argument '' @ name0 @ '' must be a list of strings");'')),
         Code (lines_text [''#if PY_VERSION_HEX >= 0x03000000'', name @ ''['' @ idx @ ''] = PyUnicode_AsUTF8(item);'', ''#else'',
                           name @ ''['' @ idx @ ''] = PyString_AsString(item);'', ''#endif'']),
         Unindent,
         Code ''}'',
         Code (argc_var @ '' = PyList_Size('' @ py_name @ '');''),
         CallParam argc_var, CallParam name])\<close>

text \<open>
  \<open>Object_customizations\<close>: the declaration added to every helper class, and how an object is created. The text of
  the first error has two places for one name, so that it is a \<open>TypeError\<close> that is raised.
\<close>

definition helper_class_hook :: "string \<Rightarrow> string \<Rightarrow> string \<times> string" where
  \<open>helper_class_hook name full_name =
     ([py_newline] @ py_join [py_newline]
        [''static ns3::TypeId GetTypeId (void)'', ''{'', ''  static ns3::TypeId tid = ns3::TypeId ("'' @ name @ ''")'',
         ''    .SetParent< '' @ full_name @ '' > ()'', ''    ;'', ''  return tid;'', ''}''],
      ''NS_OBJECT_ENSURE_REGISTERED ('' @ name @ '');'')\<close>

definition object_creation :: "bool \<Rightarrow> bool \<Rightarrow> string \<Rightarrow> string \<Rightarrow> string \<Rightarrow> string list pyres" where
  "object_creation cannot_be_constructed incomplete_type lvalue parameters construct_type_name =
     (if lvalue = [] \<or> startswith lvalue ''None'' then Inl AssertionError
      else if cannot_be_constructed then Inl TypeError
      else if incomplete_type then Inl (PyException ''CodeGenerationError'')
      else Inr [lvalue @ '' = new '' @ construct_type_name @ ''('' @ parameters @ '');'', lvalue @ ''->Ref ();''])"

definition object_post_creation :: "string \<Rightarrow> string" where
  "object_post_creation lvalue = ''ns3::CompleteConstruct('' @ lvalue @ '');''"

text \<open>\<open>Attribute_customizations\<close>: a default value of an attribute has the type of an empty attribute.\<close>

record method_param =
  by_reference :: bool
  param_class_name :: string
  default_value :: "string option"
  default_value_type :: "string option"

definition attribute_default :: "method_param \<Rightarrow> method_param" where
  "attribute_default param =
     (if by_reference param \<and> param_class_name param = ''AttributeValue'' \<and> default_value param \<noteq> None \<and>
         default_value_type param = None
      then param\<lparr>default_value_type := Some ''ns3::EmptyAttributeValue''\<rparr> else param)"

definition attribute_customizations :: "method_param list list list \<Rightarrow> method_param list list list" where
  "attribute_customizations classes = map (map (map attribute_default)) classes"

definition add_std_ios_openmode :: "string list" where
  \<open>add_std_ios_openmode =
     map (\<lambda>flag. ''PyModule_AddIntConstant(m, (char *) "STD_IOS_'' @
            map (\<lambda>c. if 97 \<le> (of_char c :: nat) \<and> (of_char c :: nat) \<le> 122 then char_of (of_char c - 32 :: nat) else c) flag @
            ''", std::ios::'' @ flag @ '');'')
       [''in'', ''out'', ''ate'', ''app'', ''trunc'', ''binary'']\<close>

lemma openmode_sample:
  \<open>hd add_std_ios_openmode = ''PyModule_AddIntConstant(m, (char *) "STD_IOS_IN", std::ios::in);''\<close>
  by code_simp

text \<open>
  What a missing feature takes out of a module: classes and at most one enumeration. \<open>module[name]\<close> finds one by its
  name, and \<open>remove\<close> needs it in the list.
\<close>

record root_module =
  found :: "string list"
  classes :: "string list"
  enums :: "string list"

definition take_out :: "string \<Rightarrow> string list \<Rightarrow> string list \<Rightarrow> string list pyres" where
  "take_out name known xs =
     (if name \<notin> set known then Inl KeyError else if name \<notin> set xs then Inl ValueError else Inr (remove1 name xs))"

definition remove_class :: "root_module \<Rightarrow> string \<Rightarrow> root_module pyres" where
  "remove_class m clsname =
     rmap (\<lambda>cs. m\<lparr>classes := cs\<rparr>) (take_out (''ns3::'' @ clsname) (found m) (classes m))"

definition remove_enum :: "root_module \<Rightarrow> string \<Rightarrow> root_module pyres" where
  "remove_enum m name = rmap (\<lambda>es. m\<lparr>enums := es\<rparr>) (take_out (''ns3::'' @ name) (found m) (enums m))"

definition without_feature ::
  "string list \<Rightarrow> string \<times> string list \<times> string list \<Rightarrow> root_module \<Rightarrow> root_module pyres" where
  "without_feature enabled_features rule m =
     (case rule of (feature, clss, ens) \<Rightarrow>
        if feature \<in> set enabled_features then Inr m
        else rbind (rfold remove_class m clss) (\<lambda>m'. rfold remove_enum m' ens))"

definition core_features :: "(string \<times> string list \<times> string list) list" where
  "core_features =
     [(''Threading'',
       [''SystemThread'', ''SystemMutex'', ''SystemCondition'', ''CriticalSection'',
        ''SimpleRefCount< ns3::SystemThread, ns3::empty, ns3::DefaultDeleter<ns3::SystemThread> >''], []),
      (''RealTime'', [''WallClockSynchronizer'', ''RealtimeSimulatorImpl''], [''RealtimeSimulatorImpl::SynchronizationMode''])]"

definition core_post_register_types :: "string \<Rightarrow> root_module \<Rightarrow> root_module pyres" where
  "core_post_register_types NS3_ENABLED_FEATURES m =
     rfold (\<lambda>m rule. without_feature (split_all CHR '','' NS3_ENABLED_FEATURES) rule m) m core_features"

text \<open>The tables of \<open>ns3modulegen.py\<close>: two classes may be unknown, the others must be there.\<close>

definition optional_class :: "string list \<Rightarrow> string \<Rightarrow> root_module \<Rightarrow> root_module pyres" where
  "optional_class enabled_features name m =
     (if name \<in> set enabled_features then Inr m
      else (case remove_class m name of Inl e \<Rightarrow> if e = KeyError then Inr m else Inl e | Inr m' \<Rightarrow> Inr m'))"

definition monolithic_features :: "(string \<times> string list \<times> string list) list" where
  "monolithic_features =
     [hd core_features,
      (''EmuNetDevice'', [''EmuNetDevice'', ''EmuHelper''], [''EmuNetDevice::EncapsulationMode'']),
      hd (tl core_features),
      (''TapBridge'', [''TapBridge'', ''TapBridgeHelper'', ''TapBridgeFdReader''], [''TapBridge::Mode''])]"

definition monolithic_disable :: "string \<Rightarrow> root_module \<Rightarrow> root_module pyres" where
  "monolithic_disable NS3_ENABLED_FEATURES m =
     (let enabled_features = split_all CHR '','' NS3_ENABLED_FEATURES
      in rbind (optional_class enabled_features ''GtkConfigStore'' m) (\<lambda>m.
         rbind (optional_class enabled_features ''SqliteDataOutput'' m) (\<lambda>m.
         rfold (\<lambda>m rule. without_feature enabled_features rule m) m monolithic_features)))"

definition ns3_names :: "string list \<Rightarrow> string set" where
  "ns3_names names = (\<lambda>c. ''ns3::'' @ c) ` set names"

lemma ns3_names_append: "ns3_names (a @ b) = ns3_names a \<union> ns3_names b"
  by (simp add: ns3_names_def image_Un)

lemma ns3_names_disjoint: "set a \<inter> set b = {} \<Longrightarrow> ns3_names a \<inter> ns3_names b = {}"
  by (auto simp: ns3_names_def)

lemma take_out_present:
  "name \<in> set known \<Longrightarrow> name \<in> set xs \<Longrightarrow> distinct xs \<Longrightarrow> take_out name known xs = Inr (filter (\<lambda>x. x \<noteq> name) xs)"
  by (simp add: take_out_def distinct_remove1_removeAll removeAll_filter_not_eq eq_commute)

lemma remove_classes:
  assumes "distinct clss" "ns3_names clss \<subseteq> set (found m)" "ns3_names clss \<subseteq> set (classes m)" "distinct (classes m)"
  shows "rfold remove_class m clss = Inr (m\<lparr>classes := filter (\<lambda>x. x \<notin> ns3_names clss) (classes m)\<rparr>)"
  using assms
proof (induction clss arbitrary: m)
  case Nil
  then show ?case by (simp add: ns3_names_def)
next
  case (Cons c clss)
  let ?m = "m\<lparr>classes := filter (\<lambda>x. x \<noteq> ''ns3::'' @ c) (classes m)\<rparr>"
  have "remove_class m c = Inr ?m"
    using Cons.prems by (simp add: remove_class_def take_out_present ns3_names_def)
  moreover have "rfold remove_class ?m clss = Inr (?m\<lparr>classes := filter (\<lambda>x. x \<notin> ns3_names clss) (classes ?m)\<rparr>)"
    using Cons.prems by (intro Cons.IH) (auto simp: ns3_names_def)
  ultimately show ?case by (simp add: ns3_names_def conj_commute)
qed

lemma remove_enums:
  assumes "distinct ens" "ns3_names ens \<subseteq> set (found m)" "ns3_names ens \<subseteq> set (enums m)" "distinct (enums m)"
  shows "rfold remove_enum m ens = Inr (m\<lparr>enums := filter (\<lambda>x. x \<notin> ns3_names ens) (enums m)\<rparr>)"
  using assms
proof (induction ens arbitrary: m)
  case Nil
  then show ?case by (simp add: ns3_names_def)
next
  case (Cons c ens)
  let ?m = "m\<lparr>enums := filter (\<lambda>x. x \<noteq> ''ns3::'' @ c) (enums m)\<rparr>"
  have "remove_enum m c = Inr ?m"
    using Cons.prems by (simp add: remove_enum_def take_out_present ns3_names_def)
  moreover have "rfold remove_enum ?m ens = Inr (?m\<lparr>enums := filter (\<lambda>x. x \<notin> ns3_names ens) (enums ?m)\<rparr>)"
    using Cons.prems by (intro Cons.IH) (auto simp: ns3_names_def)
  ultimately show ?case by (simp add: ns3_names_def conj_commute)
qed

text \<open>The classes and enumerations that the missing features of a table take out.\<close>

definition missing :: "string list \<Rightarrow> (string \<times> string list \<times> string list) list \<Rightarrow> (string \<times> string list \<times> string list) list" where
  "missing enabled rules = filter (\<lambda>rule. fst rule \<notin> set enabled) rules"

lemma features_removed:
  assumes "distinct (concat (map (fst \<circ> snd) rules))" "distinct (concat (map (snd \<circ> snd) rules))"
    and "ns3_names (concat (map (fst \<circ> snd) rules)) \<subseteq> set (found m) \<inter> set (classes m)" "distinct (classes m)"
    and "ns3_names (concat (map (snd \<circ> snd) rules)) \<subseteq> set (found m) \<inter> set (enums m)" "distinct (enums m)"
  shows "rfold (\<lambda>m rule. without_feature enabled rule m) m rules =
    Inr (m\<lparr>classes := filter (\<lambda>x. x \<notin> ns3_names (concat (map (fst \<circ> snd) (missing enabled rules)))) (classes m),
           enums := filter (\<lambda>x. x \<notin> ns3_names (concat (map (snd \<circ> snd) (missing enabled rules)))) (enums m)\<rparr>)"
  using assms
proof (induction rules arbitrary: m)
  case Nil
  then show ?case by (simp add: missing_def ns3_names_def)
next
  case (Cons rule rules)
  obtain feature clss ens where rule: "rule = (feature, clss, ens)" by (cases rule)
  show ?case
  proof (cases "feature \<in> set enabled")
    case True
    then have "without_feature enabled rule m = Inr m" "missing enabled (rule # rules) = missing enabled rules"
      by (simp_all add: without_feature_def missing_def rule)
    moreover have "rfold (\<lambda>m rule. without_feature enabled rule m) m rules =
        Inr (m\<lparr>classes := filter (\<lambda>x. x \<notin> ns3_names (concat (map (fst \<circ> snd) (missing enabled rules)))) (classes m),
               enums := filter (\<lambda>x. x \<notin> ns3_names (concat (map (snd \<circ> snd) (missing enabled rules)))) (enums m)\<rparr>)"
      using Cons.prems by (intro Cons.IH) (simp_all add: ns3_names_append)
    ultimately show ?thesis by (simp only: rfold.simps rbind_Inr)
  next
    case False
    let ?m1 = "m\<lparr>classes := filter (\<lambda>x. x \<notin> ns3_names clss) (classes m)\<rparr>"
    let ?m2 = "?m1\<lparr>enums := filter (\<lambda>x. x \<notin> ns3_names ens) (enums ?m1)\<rparr>"
    have apart: "ns3_names clss \<inter> ns3_names (concat (map (fst \<circ> snd) rules)) = {}"
      "ns3_names ens \<inter> ns3_names (concat (map (snd \<circ> snd) rules)) = {}"
      using Cons.prems(1,2) by (auto simp: rule intro!: ns3_names_disjoint)
    have "rfold remove_class m clss = Inr ?m1"
      using Cons.prems by (intro remove_classes) (simp_all add: ns3_names_append rule)
    moreover have "rfold remove_enum ?m1 ens = Inr ?m2"
      using Cons.prems by (intro remove_enums) (simp_all add: ns3_names_append rule)
    ultimately have "without_feature enabled rule m = Inr ?m2" using False by (simp add: without_feature_def rule)
    moreover have "rfold (\<lambda>m rule. without_feature enabled rule m) ?m2 rules =
        Inr (?m2\<lparr>classes := filter (\<lambda>x. x \<notin> ns3_names (concat (map (fst \<circ> snd) (missing enabled rules)))) (classes ?m2),
               enums := filter (\<lambda>x. x \<notin> ns3_names (concat (map (snd \<circ> snd) (missing enabled rules)))) (enums ?m2)\<rparr>)"
      using Cons.prems apart by (intro Cons.IH) (auto simp: ns3_names_append rule comp_def)
    moreover have "missing enabled (rule # rules) = rule # missing enabled rules"
      using False by (simp add: missing_def rule)
    ultimately show ?thesis by (simp add: rule ns3_names_append conj_commute comp_def)
  qed
qed

text \<open>
  When the module has all classes and enumerations of the table, exactly those of the features that are not enabled
  are taken out.
\<close>

theorem core_features_removed:
  assumes "ns3_names (concat (map (fst \<circ> snd) core_features)) \<subseteq> set (found m) \<inter> set (classes m)" "distinct (classes m)"
    and "ns3_names (concat (map (snd \<circ> snd) core_features)) \<subseteq> set (found m) \<inter> set (enums m)" "distinct (enums m)"
  shows "core_post_register_types features m =
    Inr (m\<lparr>classes := filter (\<lambda>x. x \<notin> ns3_names (concat (map (fst \<circ> snd) (missing (split_all CHR '','' features) core_features))))
             (classes m),
           enums := filter (\<lambda>x. x \<notin> ns3_names (concat (map (snd \<circ> snd) (missing (split_all CHR '','' features) core_features))))
             (enums m)\<rparr>)"
proof -
  have "distinct (concat (map (fst \<circ> snd) core_features))" "distinct (concat (map (snd \<circ> snd) core_features))"
    by code_simp+
  then show ?thesis
    unfolding core_post_register_types_def using assms by (rule features_removed)
qed

text \<open>A class of a missing feature that the module does not know is an exception.\<close>

lemma unknown_class_raises:
  assumes "feature \<notin> set enabled" "''ns3::'' @ c \<notin> set (found m)"
  shows "without_feature enabled (feature, c # clss, ens) m = Inl KeyError"
  using assms by (simp add: without_feature_def remove_class_def take_out_def)

section \<open>The modular generator\<close>

text \<open>
  \<open>handle_error\<close>: a warning at the place in the file of definitions that is found first from the end of the stack,
  or without a place. The stack of the wrapper is reversed where it lies.
\<close>

definition handle_error :: "string \<Rightarrow> (string \<times> nat) list \<Rightarrow> (string \<times> nat) option \<times> (string \<times> nat) list" where
  "handle_error apidefs_file stack = (let stack = rev stack in (find (\<lambda>l. fst l = apidefs_file) stack, stack))"

text \<open>A second error of the same wrapper is reported at the other end of its stack.\<close>

theorem second_error_elsewhere:
  assumes "handle_error file stack = (place, stack')"
  shows "place = find (\<lambda>l. fst l = file) (rev stack)"
    and "handle_error file stack' = (find (\<lambda>l. fst l = file) stack, stack)"
  using assms by (auto simp: handle_error_def Let_def)

datatype stage =
    ModuleInit | SetName string | Include string | OpenModes | RegisterTypes | Hook string | RegisterCallbacks
  | RegisterMethods | ObjectCustomizations | AttributeCustomizations | GenerateCallbacks | RegisterFunctions | Generate

definition hook :: "(string \<Rightarrow> bool) \<Rightarrow> string \<Rightarrow> stage list" where
  "hook hooks name = (if hooks name then [Hook name] else [])"

text \<open>
  The stages of \<open>main\<close>, with the modules that can be imported and the hooks of the customization; the callbacks are
  those of \<open>callbacks_list\<close> when it can be imported.
\<close>

definition modular_main ::
  "(string \<Rightarrow> bool) \<Rightarrow> (string \<Rightarrow> bool) \<Rightarrow> string list list \<Rightarrow> string list \<Rightarrow> (stage list \<times> string list list) pyres" where
  \<open>modular_main importable hooks callback_list argv =
     (case argv of
        [_, module_abs_src_path, target, extension_name, output_cc_file_name] \<Rightarrow>
          if \<not> importable (''modulegen__'' @ target) then Inl ImportError
          else (let hooks = (\<lambda>name. importable ''modulegen_customizations'' \<and> hooks name);
                    callback_classes = (if importable ''callbacks_list'' then callback_list else [])
                in Inr ([ModuleInit, SetName extension_name,
                         Include (''"ns3/'' @ last (split_all CHR ''/'' module_abs_src_path) @ ''-module.h"''), OpenModes,
                         RegisterTypes] @ hook hooks ''post_register_types'' @ [RegisterCallbacks, RegisterMethods] @
                        hook hooks ''post_register_methods'' @
                        [ObjectCustomizations, AttributeCustomizations, GenerateCallbacks, RegisterFunctions] @
                        hook hooks ''post_register_functions'' @ [Generate], callback_classes))
      | _ \<Rightarrow> Inl ValueError)\<close>

section \<open>Samples\<close>

definition sample_types :: binding_types where
  "sample_types = \<lparr>parse_type = (\<lambda>t. if startswith t ''const '' then (drop 6 t, True) else (t, False)),
     return_known = (\<lambda>t c. t = ''void''), param_known = (\<lambda>t c. t \<noteq> ''X''), param_class = (\<lambda>t. None),
     helper_fails = (\<lambda>c. False), return_handler = (\<lambda>c. None),
     param_handler = (\<lambda>c. if c = cls_name [''void'', ''int'', ''ns3::empty''] then Some 0
                          else if c = cls_name [''Y'', ''int''] then Some 1
                          else if c = cls_name [''void'', ''X''] then Some 2 else None)\<rparr>"

text \<open>Of three callbacks the first gets its class, the second is left without one, the third is switched off.\<close>

lemma callbacks_sample:
  "(case generate_callback_classes sample_types [[''void'', ''int'', ''ns3::empty''], [''Y'', ''int''], [''void'', ''X'']]
       \<lparr>flushed = [], param_off = [], return_off = [], helpers_off = []\<rparr> of
     Inl e \<Rightarrow> ([], []) | Inr st \<Rightarrow> (map fst (flushed st), param_off st)) = ([0], [2])"
  by code_simp

lemma modular_sample:
  \<open>rmap (filter (\<lambda>s. s = Hook ''post_register_types'') \<circ> fst)
     (modular_main (\<lambda>m. True) (\<lambda>h. h = ''post_register_types'') [] [''gen'', ''/ns3/src/core'', ''gcc_LP64'', ''core'', ''out.cc'']) =
   Inr [Hook ''post_register_types''] \<and> modular_main (\<lambda>m. True) (\<lambda>h. True) [] [''gen''] = Inl ValueError\<close>
  by code_simp

end
