(* ===== verification/DevTools.thy ===== *)
theory DevTools
  imports OsPath
begin

text \<open>
  Tools for the developers of the simulator: \<open>utils/tests\<close> runs command lines that try the options of the build and of
  the test runner, and \<open>doc/tutorial/pickle-to-xml.py\<close> lists the pages of a manual. Processes and the files that
  are read are parameters.
\<close>

section \<open>The command lines that are tried\<close>

definition config_test_cases :: "string list" where
  \<open>config_test_cases =
     [''--enable-gcov'', ''--enable-sudo'', ''--enable-sudo'', ''--enable-tests'', ''--disable-tests'',
      ''--enable-examples'', ''--disable-examples'', ''--doxygen-no-build'', ''--enable-static'', ''--enable-mpi'',
      ''--enable-rpath'', ''--enable-modules=build/utils/test-runner.cc.1.o'', ''--boost-static'', ''--boost-mt'',
      ''--boost-linkage_autodetect'', ''--boost-python=33'', ''--disable-gtk'', ''--int64x64=cairo'',
      ''--disable-pthread'', ''--force-planetlab'', ''--nopyc'', ''--nopyo'', ''--disable-python'',
      ''--apiscan=all'', ''--with-python=/usr/bin/python2.7'', ''--no32bit-scan'',
      ''-o test_out && rm -rf test_out'', ''--out=test_out && rm -rf test_out'', ''-t test_top && rm -rf test_top'',
      ''--top=test_top && rm -rf test_top'', ''--download'', ''--check-c-compiler=gc'',
      ''--check-cxx-compiler=g++'']\<close>

definition basic_test_cases :: "string list" where
  \<open>basic_test_cases =
     [''--version'', ''-h'', ''--help'']\<close>

definition build_test_cases :: "string list" where
  \<open>build_test_cases =
     [''-j10'', ''--jobs=10'', ''-d optimized'', ''-d debug'', ''-d release'', ''--build-profile optimized'',
      ''--build-profile debug'', ''--build-profile release'', ''-p'', ''--progress'']\<close>

definition step_test_cases :: "string list" where
  \<open>step_test_cases =
     [''--files="*/main.c,*/test/main.o"'']\<close>

definition install_test_cases :: "string list" where
  \<open>install_test_cases =
     [''-f'', ''--force'', ''--prefix=./test-prefix && rm -rf ./test-prefix'', ''--exec-prefix=.'',
      ''--bindir=./test-prefix/bin --sbindir=./test-prefix/sbin --libexecdir=./test-prefix/libexec --sysconfdir=./test-prefix/etc --sharedstatedir=./test-prefix/com --localstatedir=./test-prefix/var --libdir=./test-prefix/lib --includedir=./test-prefix/include --oldincludedir=./test-prefix/usr/include --datarootdir=./test-prefix/share --datadir=./test-prefix/share_root --infodir=./test-prefix/info --localedir=./test-prefix/locale --mandir=./test-prefix/man --docdir=./test-prefix/doc/package --htmldir=./test-prefix/doc --dvidir=./test-prefix/doc --pdfdir=./test-prefix/doc --psdir=./test-prefix/doc && rm -rf ./test-prefix'']\<close>

definition common_test_cases :: "string list" where
  \<open>common_test_cases =
     ['''', ''-k'', ''--keep'', ''-v'', ''--verbose'', ''--nocache'', ''--zones=task_gen'', ''--zones=deps'',
      ''--zones=tasks'', ''--no-task-lines'']\<close>

definition test_cases :: "string list" where
  \<open>test_cases =
     ['''', ''-h'', ''--help'', ''-b build/'', ''--buildpath=build/'', ''-c performance'',
      ''--constrain=performance'', ''-d'', ''--duration'', ''-e socket-options-ipv6'',
      ''--example=socket-options-ipv6'', ''-u'', ''--update-data'', ''-f EXTENSIVE --fullness=EXTENSIVE-g'',
      ''--grind'', ''-l'', ''--list'', ''-m'', ''--multiple'', ''-n'', ''--nowaf'', ''-p first'',
      ''--pyexample=first'', ''-r'', ''--retain'', ''-s ns3-tcp-interoperability'',
      ''--suite=ns3-tcp-interoperability'', ''-t t_opt.txt'', ''--text=t_opt.txt && rm -rf t_opt.txt'', ''-v'',
      ''--verbose'', ''-w t_opt.html && rm -rf t_opt.html'', ''--web=t_opt.html && rm -rf t_opt.html'',
      ''--html=t_opt.html && rm -rf t_opt.html'', ''-x t_opt.xml && rm -rf t_opt.xml'',
      ''--xml=t_opt.xml && rm -rf t_opt.xml'']\<close>

definition replace_cmds :: "string option \<Rightarrow> string option \<Rightarrow> string list \<Rightarrow> string list" where
  "replace_cmds pre post main_cmd_list =
     (let pre = (case pre of None \<Rightarrow> '''' | Some p \<Rightarrow> if p = [] then [] else p @ '' && '');
          post = (case post of None \<Rightarrow> '''' | Some p \<Rightarrow> if p = [] then [] else '' && '' @ p)
      in map (\<lambda>main_cmd. pre @ main_cmd @ post) main_cmd_list)"

definition test_case_mappings :: "(string, string list) dict" where
  "test_case_mappings =
     [(''basic'', basic_test_cases), (''configure'', config_test_cases), (''build'', build_test_cases),
      (''step'', step_test_cases), (''install'', install_test_cases)]"

definition pre_post :: "string \<Rightarrow> string \<Rightarrow> (string option \<times> string option) option" where
  "pre_post waf_string cmd =
     (let waf = (\<lambda>s. Some (waf_string @ '' '' @ s))
      in map_of
        [(''build'', (waf ''configure'', waf ''clean'')), (''configure'', (None, waf ''distclean'')),
         (''distcheck'', (waf ''dist'', Some ''rm -rf ns-3*.tar.bz2'')), (''docs'', (waf ''configure'', waf ''distclean'')),
         (''install'', (waf ''configure'', waf ''uninstall'')), (''list'', (waf ''configure'', waf ''distclean'')),
         (''shell'', (waf ''configure'', waf ''distclean'')), (''step'', (waf ''configure'', waf ''distclean'')),
         (''uninstall'', (waf ''install'', None))] cmd)"

definition cmd_list_of :: "string \<Rightarrow> string \<Rightarrow> string list" where
  "cmd_list_of waf_string cmd =
     (let line = (\<lambda>option. waf_string @ '' '' @ cmd @ '' '' @ option);
          cmd_list = (if cmd = ''basic'' then [] else map line common_test_cases) @
                     (case map_of test_case_mappings cmd of None \<Rightarrow> [] | Some cs \<Rightarrow> map line cs);
          cmd_list = (if cmd = ''basic''
                      then cmd_list @
                        [waf_string @ '' configure && '' @ waf_string @ '' build && '' @ waf_string @ '' --run scratch/myfirst'',
                         waf_string @ '' configure && '' @ waf_string @ '' build && '' @ waf_string @ '' --pyrun scratch/myfirst.py'']
                      else cmd_list);
          cmd_list = (case pre_post waf_string cmd of None \<Rightarrow> cmd_list | Some (pre, post) \<Rightarrow> replace_cmds pre post cmd_list)
      in if cmd = ''build''
         then cmd_list @ [waf_string @ '' configure --enable-gcov && '' @ waf_string @ '' build --lcov-report && '' @
                          waf_string @ '' clean'']
         else cmd_list)"

definition waf_test_commands :: "string \<Rightarrow> string option \<Rightarrow> string list" where
  "waf_test_commands sys_executable custcmd =
     (let defaults = [''basic'', ''build'', ''configure'', ''step'', ''clean'', ''dist'', ''list''];
          cmds = (case custcmd of Some c \<Rightarrow> if c = [] then defaults else split_all CHR '','' c | None \<Rightarrow> defaults)
      in concat (map (cmd_list_of (sys_executable @ '' waf'')) cmds))"

definition runner_test_commands :: "string \<Rightarrow> string list" where
  "runner_test_commands sys_executable =
     map (\<lambda>option. sys_executable @ '' waf configure --enable-tests --enable-examples'' @ '' && '' @ sys_executable @
            '' test.py '' @ option @ '' && '' @ sys_executable @ '' waf clean'') test_cases"

text \<open>
  A comma is missing between two entries of the list: the option \<open>-g\<close> is never tried, and the value of \<open>--fullness\<close>
  is not one of those that exist.
\<close>

lemma missing_comma: "''-g'' \<notin> set test_cases \<and> ''-f EXTENSIVE --fullness=EXTENSIVE-g'' \<in> set test_cases"
  by code_simp

lemma configure_sample:
  "hd (cmd_list_of ''py waf'' ''configure'') = ''py waf configure  && py waf distclean''"
  "last (waf_test_commands ''py'' (Some ''dist'')) = ''py waf dist --no-task-lines''"
  by code_simp+

text \<open>Every line of a command that changes the tree is set up and undone by the lines the table names.\<close>

theorem lines_wrapped:
  assumes "pre_post waf_string cmd = Some (Some pre, Some post)" "pre \<noteq> []" "post \<noteq> []" "cmd \<noteq> ''build''"
    and "line \<in> set (cmd_list_of waf_string cmd)"
  shows "\<exists>option. line = pre @ '' && '' @ waf_string @ '' '' @ cmd @ '' '' @ option @ '' && '' @ post"
proof -
  have "cmd \<noteq> ''basic''" using assms(1) by (auto simp: pre_post_def Let_def)
  with assms show ?thesis
    by (auto simp: cmd_list_of_def Let_def replace_cmds_def split: option.splits)
qed

section \<open>Running them\<close>

text \<open>\<open>cmd.replace (p, '')\<close>.\<close>

function py_erase :: "string \<Rightarrow> string \<Rightarrow> string" where
  "py_erase p s =
     (if p = [] \<or> s = [] then s
      else if startswith s p then py_erase p (drop (length p) s) else hd s # py_erase p (tl s))"
  by pat_completeness auto

termination
  by (relation "measure (\<lambda>(p, s). length s)") auto

declare py_erase.simps [simp del]

text \<open>
  The state of a run: the world the commands act on, the commands that were started, the number that passed and the
  names of those that failed.
\<close>

record 'w test_run =
  tr_world :: 'w
  tr_started :: "string list"
  tr_passed :: nat
  tr_return :: int
  tr_failed :: "string list"

definition run_case :: "(string \<Rightarrow> 'w \<Rightarrow> int \<times> 'w) \<Rightarrow> string \<Rightarrow> 'w test_run \<Rightarrow> string \<Rightarrow> 'w test_run" where
  "run_case call sys_executable r cmd =
     (let case_string = py_erase sys_executable cmd;
          (ret, world) = call cmd (tr_world r);
          r = r\<lparr>tr_world := world, tr_started := tr_started r @ [cmd]\<rparr>
      in if ret = 0 then r\<lparr>tr_passed := tr_passed r + 1\<rparr>
         else r\<lparr>tr_return := 1, tr_failed := tr_failed r @ [case_string]\<rparr>)"

text \<open>With the option \<open>-c\<close> the commands are only listed, and the value is \<open>None\<close>.\<close>

definition runtests ::
  "(string \<Rightarrow> 'w \<Rightarrow> int \<times> 'w) \<Rightarrow> string \<Rightarrow> bool \<Rightarrow> string list \<Rightarrow> 'w \<Rightarrow> int option \<times> 'w test_run" where
  "runtests call sys_executable list_only cmds w =
     (let start = \<lparr>tr_world = w, tr_started = [], tr_passed = 0, tr_return = 0, tr_failed = []\<rparr>
      in if list_only then (None, start)
         else (let r = foldl (run_case call sys_executable) start cmds in (Some (tr_return r), r)))"

text \<open>The answers of the commands, each in the world the ones before it left.\<close>

fun answers :: "(string \<Rightarrow> 'w \<Rightarrow> int \<times> 'w) \<Rightarrow> string list \<Rightarrow> 'w \<Rightarrow> int list" where
  "answers call [] w = []"
| "answers call (cmd # cmds) w = fst (call cmd w) # answers call cmds (snd (call cmd w))"

lemma length_answers [simp]: "length (answers call cmds w) = length cmds"
  by (induction cmds arbitrary: w) auto

lemma run_cases:
  "let r' = foldl (run_case call py) r cmds; as = answers call cmds (tr_world r) in
   tr_started r' = tr_started r @ cmds \<and>
   tr_passed r' = tr_passed r + length (filter (\<lambda>a. a = 0) as) \<and>
   tr_failed r' = tr_failed r @ map (py_erase py \<circ> fst) (filter (\<lambda>c. snd c \<noteq> 0) (zip cmds as)) \<and>
   tr_return r' = (if list_all (\<lambda>a. a = 0) as then tr_return r else 1)"
proof (induction cmds arbitrary: r)
  case Nil
  then show ?case by (simp add: Let_def)
next
  case (Cons cmd cmds)
  obtain ret w where call: "call cmd (tr_world r) = (ret, w)" by (cases "call cmd (tr_world r)")
  have w: "tr_world (run_case call py r cmd) = w" by (simp add: run_case_def call Let_def)
  show ?case
    using Cons.IH [of "run_case call py r cmd"]
    by (simp add: w call Let_def) (simp add: run_case_def call Let_def)
qed

text \<open>
  Every command is started once, in order, whatever the others answer; the result is 0 exactly when all answer 0, and
  the numbers of those that passed and failed add up.
\<close>

theorem runtests_result:
  assumes "runtests call py False cmds w = (result, r)"
  shows "tr_started r = cmds"
    and "result = Some (if list_all (\<lambda>a. a = 0) (answers call cmds w) then 0 else 1)"
    and "tr_failed r = map (py_erase py \<circ> fst) (filter (\<lambda>c. snd c \<noteq> 0) (zip cmds (answers call cmds w)))"
    and "tr_passed r + length (tr_failed r) = length cmds"
proof -
  note all = run_cases [of call py "\<lparr>tr_world = w, tr_started = [], tr_passed = 0, tr_return = 0, tr_failed = []\<rparr>" cmds]
  have "length (filter (\<lambda>a. a = 0) as) + length (filter (\<lambda>c. snd c \<noteq> 0) (zip cmds as)) = length cmds"
    if "length as = length cmds" for as :: "int list"
    using that by (induction cmds as rule: list_induct2') auto
  from this [of "answers call cmds w"] show "tr_passed r + length (tr_failed r) = length cmds"
    using all assms by (auto simp: runtests_def Let_def)
  show "tr_started r = cmds"
    and "result = Some (if list_all (\<lambda>a. a = 0) (answers call cmds w) then 0 else 1)"
    and "tr_failed r = map (py_erase py \<circ> fst) (filter (\<lambda>c. snd c \<noteq> 0) (zip cmds (answers call cmds w)))"
    using all assms by (auto simp: runtests_def Let_def)
qed

text \<open>Where the tools may be started: in the directory of the sources, or in \<open>utils/tests\<close>, from which they go up.\<close>

definition set_workdir :: "string list \<Rightarrow> string \<Rightarrow> string pyres" where
  "set_workdir dir_files cwd =
     (if ''VERSION'' \<notin> set dir_files \<and> ''waf'' \<notin> set dir_files
      then (if basename cwd = ''tests'' \<and> basename (normpath (cwd @ ''/..'')) = ''utils''
            then Inr (normpath (cwd @ ''/../../''))
            else Inl (SystemExit 1))
      else Inr cwd)"

lemma workdir_samples:
  "set_workdir [''TestBase.py''] ''/ns3/utils/tests'' = Inr ''/ns3''"
  "set_workdir [''waf''] ''/ns3'' = Inr ''/ns3''" "set_workdir [] ''/tmp'' = Inl (SystemExit 1)"
  by code_simp+

section \<open>The pages of a manual\<close>

record manual_page =
  page_body :: string
  current_page_name :: string
  page_prev :: "(string \<times> string) option"
  page_next :: "(string \<times> string) option"

text \<open>The text written for a page; a link is a path from the page and a title.\<close>

definition link_text :: "string \<Rightarrow> string \<Rightarrow> string \<times> string \<Rightarrow> string" where
  \<open>link_text tag path link =
     ''    <'' @ tag @ '' url="'' @ normpath (path_join path (fst link)) @ ''">'' @ snd link @ ''</'' @ tag @ ''>'' @ [py_newline]\<close>

definition page_text :: "string \<Rightarrow> manual_page \<Rightarrow> string" where
  \<open>page_text path data =
     ''  <page url="'' @ path @ ''">'' @ [py_newline] @
     ''    <fragment>'' @ current_page_name data @ ''.frag</fragment>'' @ [py_newline] @
     (case page_prev data of None \<Rightarrow> '''' | Some link \<Rightarrow> link_text ''prev'' path link) @
     (case page_next data of None \<Rightarrow> '''' | Some link \<Rightarrow> link_text ''next'' path link) @
     ''  </page>'' @ [py_newline]\<close>

text \<open>The texts written so far, and the fragment files.\<close>

type_synonym dump_state = "string list \<times> (string, string) dict"

definition dump_page :: "string \<Rightarrow> manual_page \<Rightarrow> dump_state \<Rightarrow> dump_state" where
  "dump_page path data st =
     (fst st @ [page_text path data], dict_set (current_page_name data @ ''.frag'') (page_body data) (snd st))"

definition next_position :: "string \<Rightarrow> string \<times> string \<Rightarrow> string \<times> string" where
  "next_position path link =
     (let next_path = normpath (path_join path (fst link)) in (basename next_path @ ''.fpickle'', next_path))"

text \<open>The function calls itself for the next page; \<open>None\<close> stands for calls that never come to an end.\<close>

partial_function (option) dump_pickles ::
  "(string \<Rightarrow> manual_page option) \<Rightarrow> string \<Rightarrow> string \<times> string \<Rightarrow> dump_state \<Rightarrow> (unit pyres \<times> dump_state) option" where
  "dump_pickles load dirname pos st =
     (case load (path_join dirname (fst pos)) of
        None \<Rightarrow> Some (Inl OSError, st)
      | Some data \<Rightarrow>
          (case page_next data of
             None \<Rightarrow> Some (Inr (), dump_page (snd pos) data st)
           | Some link \<Rightarrow> dump_pickles load dirname (next_position (snd pos) link) (dump_page (snd pos) data st)))"

text \<open>The chain of the pages by itself: the next position, if the page is there and has a next one.\<close>

definition follow :: "(string \<Rightarrow> manual_page option) \<Rightarrow> string \<Rightarrow> string \<times> string \<Rightarrow> (string \<times> string) option" where
  "follow load dirname pos =
     Option.bind (load (path_join dirname (fst pos))) (\<lambda>data. map_option (next_position (snd pos)) (page_next data))"

fun follow_n :: "(string \<Rightarrow> manual_page option) \<Rightarrow> string \<Rightarrow> nat \<Rightarrow> string \<times> string \<Rightarrow> (string \<times> string) option" where
  "follow_n load dirname 0 pos = Some pos"
| "follow_n load dirname (Suc n) pos = Option.bind (follow load dirname pos) (follow_n load dirname n)"

lemma dump_step:
  assumes "load (path_join dirname (fst pos)) = Some data" "page_next data = Some link"
  shows "dump_pickles load dirname pos st =
    dump_pickles load dirname (next_position (snd pos) link) (dump_page (snd pos) data st)"
  using assms by (subst dump_pickles.simps) simp

lemma dump_ends: "follow_n load dirname n pos = None \<Longrightarrow> \<exists>r. dump_pickles load dirname pos st = Some r"
proof (induction n arbitrary: pos st)
  case (Suc n)
  show ?case
  proof (cases "load (path_join dirname (fst pos))")
    case None
    then show ?thesis by (subst dump_pickles.simps) simp
  next
    case page: (Some data)
    show ?thesis
    proof (cases "page_next data")
      case None
      with page show ?thesis by (subst dump_pickles.simps) simp
    next
      case (Some link)
      with Suc.prems page have "follow_n load dirname n (next_position (snd pos) link) = None"
        by (simp add: follow_def)
      from Suc.IH [OF this] dump_step [of load dirname pos data link, OF page Some] show ?thesis by metis
    qed
  qed
qed simp

lemma dump_ended:
  assumes "dump_pickles load dirname pos st = Some r"
  shows "\<exists>n. follow_n load dirname n pos = None"
proof (rule dump_pickles.raw_induct [OF _ assms, where P = "\<lambda>load dirname pos st r. \<exists>n. follow_n load dirname n pos = None"])
  fix rec load dirname pos st r
  assume IH: "\<And>load dirname pos st r. rec load dirname pos st = Some r \<Longrightarrow> \<exists>n. follow_n load dirname n pos = None"
    and body: "(case load (path_join dirname (fst pos)) of None \<Rightarrow> Some (Inl OSError, st)
      | Some data \<Rightarrow> (case page_next data of None \<Rightarrow> Some (Inr (), dump_page (snd pos) data st)
         | Some link \<Rightarrow> rec load dirname (next_position (snd pos) link) (dump_page (snd pos) data st))) = Some r"
  show "\<exists>n. follow_n load dirname n pos = None"
  proof (cases "follow load dirname pos")
    case None
    then have "follow_n load dirname 1 pos = None" by simp
    then show ?thesis ..
  next
    case (Some pos')
    then obtain data link where "load (path_join dirname (fst pos)) = Some data" "page_next data = Some link"
      "pos' = next_position (snd pos) link"
      by (auto simp: follow_def bind_eq_Some_conv)
    with body have "rec load dirname pos' (dump_page (snd pos) data st) = Some r" by simp
    from IH [OF this] obtain n where "follow_n load dirname n pos' = None" by blast
    with Some have "follow_n load dirname (Suc n) pos = None" by simp
    then show ?thesis ..
  qed
qed

text \<open>
  The pages are listed to the end exactly when the chain of next pages has one; in particular never when some page
  leads back to itself.
\<close>

theorem dump_pickles_ends:
  "(\<exists>r. dump_pickles load dirname pos st = Some r) \<longleftrightarrow> (\<exists>n. follow_n load dirname n pos = None)"
  using dump_ends dump_ended by metis

lemma follow_n_add: "follow_n load dirname (m + n) pos = Option.bind (follow_n load dirname m pos) (follow_n load dirname n)"
  by (induction m arbitrary: pos) (auto split: Option.bind_split)

theorem ring_of_pages:
  assumes "follow_n load dirname (Suc k) pos = Some pos"
  shows "dump_pickles load dirname pos st = None"
proof (rule ccontr)
  have round: "follow_n load dirname (n * Suc k) pos = Some pos" for n
  proof (induction n)
    case (Suc n)
    then show ?case
      using follow_n_add [of load dirname "Suc k" "n * Suc k" pos] assms by (simp only: mult_Suc bind.bind_lunit)
  qed simp
  assume "dump_pickles load dirname pos st \<noteq> None"
  then obtain n where n: "follow_n load dirname n pos = None" using dump_ended by fastforce
  have "n * Suc k = n + n * k" by simp
  with round [of n] n show False by (simp add: follow_n_add)
qed

text \<open>The texts are those of the pages of the chain, in order, when no page is missing.\<close>

fun chain :: "(string \<Rightarrow> manual_page option) \<Rightarrow> string \<Rightarrow> nat \<Rightarrow> string \<times> string \<Rightarrow> string list" where
  "chain load dirname 0 pos = []"
| "chain load dirname (Suc n) pos =
     (case load (path_join dirname (fst pos)) of None \<Rightarrow> []
      | Some data \<Rightarrow> page_text (snd pos) data #
          (case page_next data of None \<Rightarrow> [] | Some link \<Rightarrow> chain load dirname n (next_position (snd pos) link)))"

theorem dump_pickles_texts:
  assumes "follow_n load dirname n pos = None" "dump_pickles load dirname pos st = Some (result, st')"
  shows "fst st' = fst st @ chain load dirname n pos"
  using assms
proof (induction n arbitrary: pos st)
  case (Suc n)
  show ?case
  proof (cases "load (path_join dirname (fst pos))")
    case None
    with Suc.prems(2) have "st' = st" by (simp add: dump_pickles.simps [of load dirname pos])
    with None show ?thesis by simp
  next
    case page: (Some data)
    show ?thesis
    proof (cases "page_next data")
      case None
      with Suc.prems(2) page have "st' = dump_page (snd pos) data st"
        by (simp add: dump_pickles.simps [of load dirname pos])
      with None page show ?thesis by (simp add: dump_page_def)
    next
      case (Some link)
      with Suc.prems(1) page have "follow_n load dirname n (next_position (snd pos) link) = None"
        by (simp add: follow_def)
      from Suc.IH [OF this, of "dump_page (snd pos) data st"] Suc.prems(2) dump_step [of load dirname pos data link st, OF page Some] page Some
      show ?thesis by (simp add: dump_page_def)
    qed
  qed
qed simp

end
